(* ===== verification/Akarin_Prelude.thy ===== *)
theory Akarin_Prelude
  imports Main "HOL-Library.Word" "HOL-Library.Monad_Syntax"
begin

text \<open>
  Shared vocabulary of the development: the machine integers of the Rust sources (\<open>usize\<close> as
  natural numbers below \<open>2 ^ 64\<close>, with the checked and saturating operations written out; flag
  sets as words), results as sums, the contract of the codes of C-like enumerations, and the bit-set
  operations that the \<open>bitflags!\<close> macro generates.
\<close>

unbundle bit_operations_syntax

named_theorems bits_simps \<open>evaluation of flag sets\<close>
named_theorems usize_simps \<open>unfolding of the checked operations on usize\<close>

subsection \<open>Machine integers\<close>

type_synonym usize = nat
type_synonym u8 = "8 word"
type_synonym u16 = "16 word"
type_synonym u32 = "32 word"

abbreviation usize_max :: usize where
  "usize_max \<equiv> 18446744073709551615"

definition checked_add :: "usize \<Rightarrow> usize \<Rightarrow> usize option" where
  "checked_add a b = (if a + b \<le> usize_max then Some (a + b) else None)"

definition checked_sub :: "usize \<Rightarrow> usize \<Rightarrow> usize option" where
  "checked_sub a b = (if b \<le> a then Some (a - b) else None)"

definition saturating_add :: "usize \<Rightarrow> usize \<Rightarrow> usize" where
  "saturating_add a b = min (a + b) usize_max"

definition saturating_sub :: "usize \<Rightarrow> usize \<Rightarrow> usize" where
  "saturating_sub a b = (if b \<le> a then a - b else 0)"

definition is_multiple_of :: "usize \<Rightarrow> usize \<Rightarrow> bool" where
  "is_multiple_of a b = (if b = 0 then a = 0 else a mod b = 0)"

lemmas [usize_simps] = checked_sub_def saturating_add_def saturating_sub_def

lemma checked_add_SomeD [dest]: "checked_add a b = Some c \<Longrightarrow> c = a + b \<and> c \<le> usize_max"
  by (auto simp: checked_add_def split: if_splits)

lemma checked_add_eq_Some [simp]: "checked_add a b = Some c \<longleftrightarrow> c = a + b \<and> c \<le> usize_max"
  by (auto simp: checked_add_def)

lemma checked_add_eq_None [simp]: "checked_add a b = None \<longleftrightarrow> usize_max < a + b"
  by (auto simp: checked_add_def)

lemma is_multiple_of_dvd: "is_multiple_of a b \<longleftrightarrow> b dvd a"
  by (auto simp: is_multiple_of_def mod_eq_0_iff_dvd)

subsection \<open>Results\<close>

type_synonym ('a, 'e) result = "'e + 'a"

abbreviation Ok :: "'a \<Rightarrow> ('a, 'e) result" where
  "Ok \<equiv> Inr"

abbreviation Err :: "'e \<Rightarrow> ('a, 'e) result" where
  "Err \<equiv> Inl"

definition map_err :: "('e \<Rightarrow> 'f) \<Rightarrow> ('a, 'e) result \<Rightarrow> ('a, 'f) result" where
  "map_err f r = (case r of Inl e \<Rightarrow> Err (f e) | Inr a \<Rightarrow> Ok a)"

lemma map_err_simps [simp]:
  "map_err f (Err e) = Err (f e)"
  "map_err f (Ok a) = Ok a"
  by (simp_all add: map_err_def)

definition ok_or :: "'e \<Rightarrow> 'a option \<Rightarrow> ('a, 'e) result" where
  "ok_or e x = (case x of None \<Rightarrow> Err e | Some a \<Rightarrow> Ok a)"

lemma ok_or_simps [simp]:
  "ok_or e None = Err e"
  "ok_or e (Some a) = Ok a"
  by (simp_all add: ok_or_def)

text \<open>
  A call that may panic: the value it returns, or the panic. The panic ends the call and everything
  that called it, so the option monad and its do-notation propagate it. For a loop, \<open>Panicked\<close> also
  stands for never returning.
\<close>

type_synonym 'a outcome = "'a option"

abbreviation (input) Returned :: "'a \<Rightarrow> 'a outcome" where
  "Returned \<equiv> Some"

abbreviation (input) Panicked :: "'a outcome" where
  "Panicked \<equiv> None"

definition expect :: "'a option \<Rightarrow> 'a outcome" where
  "expect x = (case x of None \<Rightarrow> Panicked | Some a \<Rightarrow> Returned a)"

lemma expect_id [simp]: "expect x = x"
  by (simp add: expect_def split: option.splits)

text \<open>\<open>assert!\<close>: the call goes on only when the condition holds.\<close>

definition assert_that :: "bool \<Rightarrow> unit outcome" where
  "assert_that b = (if b then Returned () else Panicked)"

lemma assert_that_simps [simp]:
  "assert_that True = Some ()"
  "assert_that False = None"
  "assert_that b = Some u \<longleftrightarrow> b"
  "assert_that b = None \<longleftrightarrow> \<not> b"
  by (simp_all add: assert_that_def)

subsection \<open>Codes of enumerations\<close>

text \<open>
  The contract between the discriminants of a C-like enumeration (the cast \<open>as usize\<close>) and its
  decoder \<open>TryFrom<usize>\<close>: decoding inverts encoding, and nothing else decodes.
\<close>

locale abi_code =
  fixes code :: "'a \<Rightarrow> usize"
    and try_from :: "usize \<Rightarrow> 'a option"
  assumes try_from_code: "try_from (code e) = Some e"
    and code_try_from: "try_from n = Some e \<Longrightarrow> code e = n"
begin

lemma try_from_Some_iff: "try_from n = Some e \<longleftrightarrow> n = code e"
  using try_from_code code_try_from by blast

lemma code_inj: "code a = code b \<longleftrightarrow> a = b"
  by (metis option.inject try_from_code)

lemma try_from_None_iff: "try_from n = None \<longleftrightarrow> n \<notin> range code"
  by (cases "try_from n") (auto simp: try_from_code try_from_Some_iff)

end

subsection \<open>Flag sets\<close>

text \<open>The operations of a \<open>bitflags!\<close> type, on its raw bits.\<close>

definition contains :: "'a::len word \<Rightarrow> 'a word \<Rightarrow> bool" where
  "contains self other \<longleftrightarrow> self AND other = other"

definition bits_remove :: "'a::len word \<Rightarrow> 'a word \<Rightarrow> 'a word" where
  "bits_remove self other = self AND NOT other"

lemma contains_bit:
  fixes a b :: "'a::len word"
  shows "contains a b \<longleftrightarrow> (\<forall>n < LENGTH('a). bit b n \<longrightarrow> bit a n)"
  by (auto simp: contains_def bit_eq_iff bit_simps)

lemma contains_refl [simp]: "contains a a"
  by (simp add: contains_def)

lemma contains_zero [simp]: "contains a 0"
  by (simp add: contains_def)

lemma contains_trans: "contains a b \<Longrightarrow> contains b c \<Longrightarrow> contains a c"
  by (auto simp: contains_bit)

lemma contains_or [simp]: "contains a (b OR c) \<longleftrightarrow> contains a b \<and> contains a c"
  by (auto simp: contains_bit bit_simps)

lemma contains_and_left: "contains (a AND b) c \<longleftrightarrow> contains a c \<and> contains b c"
  by (auto simp: contains_bit bit_simps)

lemma contains_antisym: "contains a b \<Longrightarrow> contains b a \<Longrightarrow> a = b"
  by (simp add: contains_def and.commute)

lemma contains_remove: "contains (bits_remove a b) c \<Longrightarrow> contains a c"
  by (auto simp: contains_bit bits_remove_def bit_simps)

text \<open>\<open>from_bits\<close> rejects unknown bits, \<open>from_bits_truncate\<close> drops them.\<close>

definition flags_from_bits :: "'a::len word \<Rightarrow> 'a word \<Rightarrow> 'a word option" where
  "flags_from_bits valid_bits bits = (if bits AND NOT valid_bits = 0 then Some bits else None)"

lemma flags_from_bits_Some: "flags_from_bits v b = Some f \<longleftrightarrow> f = b \<and> contains v b"
  by (auto simp: flags_from_bits_def contains_bit bit_eq_iff bit_simps)

definition flags_from_bits_truncate :: "'a::len word \<Rightarrow> 'a word \<Rightarrow> 'a word" where
  "flags_from_bits_truncate valid_bits bits = bits AND valid_bits"

end
