(* ===== verification/Syscall_Errno.thy ===== *)
theory Syscall_Errno
  imports Akarin_Prelude
begin

text \<open>
  The errors that cross the syscall boundary (\<open>library/syscall/src/errno\<close>): one enumeration per
  subsystem with its discriminants and its decoder, each an instance of the locale \<open>abi_code\<close>, and
  the unified envelope \<open>SyscallFailure\<close> of \<open>unified.rs\<close> with its encoder \<open>to_parts\<close> and its decoder
  \<open>from_parts\<close>, which panics where the source calls \<open>expect\<close> or \<open>panic!\<close>.
\<close>

subsection \<open>The error enumerations\<close>

datatype syscall_error =
    InvalidArgument | BufferTooSmall | InvalidUtf8 | Fault | NotSupported | WouldBlock
  | Interrupted | NotImplemented | Internal | OutOfMemory

primrec syscall_error_code :: "syscall_error \<Rightarrow> usize" where
  "syscall_error_code syscall_error.InvalidArgument = 1"
| "syscall_error_code syscall_error.BufferTooSmall = 2"
| "syscall_error_code syscall_error.InvalidUtf8 = 3"
| "syscall_error_code syscall_error.Fault = 4"
| "syscall_error_code syscall_error.NotSupported = 5"
| "syscall_error_code syscall_error.WouldBlock = 6"
| "syscall_error_code syscall_error.Interrupted = 7"
| "syscall_error_code syscall_error.NotImplemented = 8"
| "syscall_error_code syscall_error.Internal = 9"
| "syscall_error_code syscall_error.OutOfMemory = 10"

definition syscall_error_try_from :: "usize \<Rightarrow> syscall_error option" where
  "syscall_error_try_from value =
     (if value = 1 then Some syscall_error.InvalidArgument
      else if value = 2 then Some syscall_error.BufferTooSmall
      else if value = 3 then Some syscall_error.InvalidUtf8
      else if value = 4 then Some syscall_error.Fault
      else if value = 5 then Some syscall_error.NotSupported
      else if value = 6 then Some syscall_error.WouldBlock
      else if value = 7 then Some syscall_error.Interrupted
      else if value = 8 then Some syscall_error.NotImplemented
      else if value = 9 then Some syscall_error.Internal
      else if value = 10 then Some syscall_error.OutOfMemory
      else None)"

interpretation syscall_error: abi_code syscall_error_code syscall_error_try_from
proof
  show "syscall_error_try_from (syscall_error_code e) = Some e" for e
    by (cases e) (simp_all add: syscall_error_try_from_def)
  show "syscall_error_code e = n" if "syscall_error_try_from n = Some e" for n e
    using that by (auto simp: syscall_error_try_from_def split: if_splits)
qed

datatype ipc_error =
    InvalidArgument | InvalidMessage | Unbound | PortClosed | ReceiverClosed | WouldBlock
  | BufferTooSmall | Fault | AlreadyBound | AlreadySubscribed | NotSubscribed | InvalidPortKind

primrec ipc_error_code :: "ipc_error \<Rightarrow> usize" where
  "ipc_error_code ipc_error.InvalidArgument = 1"
| "ipc_error_code ipc_error.InvalidMessage = 2"
| "ipc_error_code ipc_error.Unbound = 3"
| "ipc_error_code ipc_error.PortClosed = 4"
| "ipc_error_code ipc_error.ReceiverClosed = 5"
| "ipc_error_code ipc_error.WouldBlock = 6"
| "ipc_error_code ipc_error.BufferTooSmall = 7"
| "ipc_error_code ipc_error.Fault = 8"
| "ipc_error_code ipc_error.AlreadyBound = 9"
| "ipc_error_code ipc_error.AlreadySubscribed = 10"
| "ipc_error_code ipc_error.NotSubscribed = 11"
| "ipc_error_code ipc_error.InvalidPortKind = 12"

definition ipc_error_try_from :: "usize \<Rightarrow> ipc_error option" where
  "ipc_error_try_from value =
     (if value = 1 then Some ipc_error.InvalidArgument
      else if value = 2 then Some ipc_error.InvalidMessage
      else if value = 3 then Some ipc_error.Unbound
      else if value = 4 then Some ipc_error.PortClosed
      else if value = 5 then Some ipc_error.ReceiverClosed
      else if value = 6 then Some ipc_error.WouldBlock
      else if value = 7 then Some ipc_error.BufferTooSmall
      else if value = 8 then Some ipc_error.Fault
      else if value = 9 then Some ipc_error.AlreadyBound
      else if value = 10 then Some ipc_error.AlreadySubscribed
      else if value = 11 then Some ipc_error.NotSubscribed
      else if value = 12 then Some ipc_error.InvalidPortKind
      else None)"

interpretation ipc_error: abi_code ipc_error_code ipc_error_try_from
proof
  show "ipc_error_try_from (ipc_error_code e) = Some e" for e
    by (cases e) (simp_all add: ipc_error_try_from_def)
  show "ipc_error_code e = n" if "ipc_error_try_from n = Some e" for n e
    using that by (auto simp: ipc_error_try_from_def split: if_splits)
qed

datatype vm_error =
    InvalidArgument | InvalidRange | AlreadyMapped | PermissionDenied | NotMapped
  | BufferTooSmall | Fault

primrec vm_error_code :: "vm_error \<Rightarrow> usize" where
  "vm_error_code vm_error.InvalidArgument = 1"
| "vm_error_code vm_error.InvalidRange = 2"
| "vm_error_code vm_error.AlreadyMapped = 3"
| "vm_error_code vm_error.PermissionDenied = 4"
| "vm_error_code vm_error.NotMapped = 5"
| "vm_error_code vm_error.BufferTooSmall = 6"
| "vm_error_code vm_error.Fault = 7"

definition vm_error_try_from :: "usize \<Rightarrow> vm_error option" where
  "vm_error_try_from value =
     (if value = 1 then Some vm_error.InvalidArgument
      else if value = 2 then Some vm_error.InvalidRange
      else if value = 3 then Some vm_error.AlreadyMapped
      else if value = 4 then Some vm_error.PermissionDenied
      else if value = 5 then Some vm_error.NotMapped
      else if value = 6 then Some vm_error.BufferTooSmall
      else if value = 7 then Some vm_error.Fault
      else None)"

interpretation vm_error: abi_code vm_error_code vm_error_try_from
proof
  show "vm_error_try_from (vm_error_code e) = Some e" for e
    by (cases e) (simp_all add: vm_error_try_from_def)
  show "vm_error_code e = n" if "vm_error_try_from n = Some e" for n e
    using that by (auto simp: vm_error_try_from_def split: if_splits)
qed

datatype process_load_error =
    InvalidArgument | InvalidState | ImageUnavailable | InvalidImage | MappingFailed

primrec process_load_error_code :: "process_load_error \<Rightarrow> usize" where
  "process_load_error_code process_load_error.InvalidArgument = 1"
| "process_load_error_code process_load_error.InvalidState = 2"
| "process_load_error_code process_load_error.ImageUnavailable = 3"
| "process_load_error_code process_load_error.InvalidImage = 4"
| "process_load_error_code process_load_error.MappingFailed = 5"

definition process_load_error_try_from :: "usize \<Rightarrow> process_load_error option" where
  "process_load_error_try_from value =
     (if value = 1 then Some process_load_error.InvalidArgument
      else if value = 2 then Some process_load_error.InvalidState
      else if value = 3 then Some process_load_error.ImageUnavailable
      else if value = 4 then Some process_load_error.InvalidImage
      else if value = 5 then Some process_load_error.MappingFailed
      else None)"

interpretation process_load_error: abi_code process_load_error_code process_load_error_try_from
proof
  show "process_load_error_try_from (process_load_error_code e) = Some e" for e
    by (cases e) (simp_all add: process_load_error_try_from_def)
  show "process_load_error_code e = n" if "process_load_error_try_from n = Some e" for n e
    using that by (auto simp: process_load_error_try_from_def split: if_splits)
qed

datatype process_vmar_extract_error =
    InvalidArgument | InvalidState

primrec process_vmar_extract_error_code :: "process_vmar_extract_error \<Rightarrow> usize" where
  "process_vmar_extract_error_code process_vmar_extract_error.InvalidArgument = 1"
| "process_vmar_extract_error_code process_vmar_extract_error.InvalidState = 2"

definition process_vmar_extract_error_try_from :: "usize \<Rightarrow> process_vmar_extract_error option" where
  "process_vmar_extract_error_try_from value =
     (if value = 1 then Some process_vmar_extract_error.InvalidArgument
      else if value = 2 then Some process_vmar_extract_error.InvalidState
      else None)"

interpretation process_vmar_extract_error: abi_code process_vmar_extract_error_code process_vmar_extract_error_try_from
proof
  show "process_vmar_extract_error_try_from (process_vmar_extract_error_code e) = Some e" for e
    by (cases e) (simp_all add: process_vmar_extract_error_try_from_def)
  show "process_vmar_extract_error_code e = n" if "process_vmar_extract_error_try_from n = Some e" for n e
    using that by (auto simp: process_vmar_extract_error_try_from_def split: if_splits)
qed

datatype process_handle_install_error =
    InvalidArgument | InvalidState

primrec process_handle_install_error_code :: "process_handle_install_error \<Rightarrow> usize" where
  "process_handle_install_error_code process_handle_install_error.InvalidArgument = 1"
| "process_handle_install_error_code process_handle_install_error.InvalidState = 2"

definition process_handle_install_error_try_from :: "usize \<Rightarrow> process_handle_install_error option" where
  "process_handle_install_error_try_from value =
     (if value = 1 then Some process_handle_install_error.InvalidArgument
      else if value = 2 then Some process_handle_install_error.InvalidState
      else None)"

interpretation process_handle_install_error: abi_code process_handle_install_error_code process_handle_install_error_try_from
proof
  show "process_handle_install_error_try_from (process_handle_install_error_code e) = Some e" for e
    by (cases e) (simp_all add: process_handle_install_error_try_from_def)
  show "process_handle_install_error_code e = n" if "process_handle_install_error_try_from n = Some e" for n e
    using that by (auto simp: process_handle_install_error_try_from_def split: if_splits)
qed

datatype process_spawn_error =
    InvalidArgument | InvalidState | InvalidInstructionPointer | InvalidStackPointer
  | InvalidTlsBase | OutOfMemory | Internal

primrec process_spawn_error_code :: "process_spawn_error \<Rightarrow> usize" where
  "process_spawn_error_code process_spawn_error.InvalidArgument = 1"
| "process_spawn_error_code process_spawn_error.InvalidState = 2"
| "process_spawn_error_code process_spawn_error.InvalidInstructionPointer = 3"
| "process_spawn_error_code process_spawn_error.InvalidStackPointer = 4"
| "process_spawn_error_code process_spawn_error.InvalidTlsBase = 5"
| "process_spawn_error_code process_spawn_error.OutOfMemory = 6"
| "process_spawn_error_code process_spawn_error.Internal = 7"

definition process_spawn_error_try_from :: "usize \<Rightarrow> process_spawn_error option" where
  "process_spawn_error_try_from value =
     (if value = 1 then Some process_spawn_error.InvalidArgument
      else if value = 2 then Some process_spawn_error.InvalidState
      else if value = 3 then Some process_spawn_error.InvalidInstructionPointer
      else if value = 4 then Some process_spawn_error.InvalidStackPointer
      else if value = 5 then Some process_spawn_error.InvalidTlsBase
      else if value = 6 then Some process_spawn_error.OutOfMemory
      else if value = 7 then Some process_spawn_error.Internal
      else None)"

interpretation process_spawn_error: abi_code process_spawn_error_code process_spawn_error_try_from
proof
  show "process_spawn_error_try_from (process_spawn_error_code e) = Some e" for e
    by (cases e) (simp_all add: process_spawn_error_try_from_def)
  show "process_spawn_error_code e = n" if "process_spawn_error_try_from n = Some e" for n e
    using that by (auto simp: process_spawn_error_try_from_def split: if_splits)
qed

datatype process_wait_error =
    InvalidArgument | InvalidState | WouldBlock | TimedOut

primrec process_wait_error_code :: "process_wait_error \<Rightarrow> usize" where
  "process_wait_error_code process_wait_error.InvalidArgument = 1"
| "process_wait_error_code process_wait_error.InvalidState = 2"
| "process_wait_error_code process_wait_error.WouldBlock = 3"
| "process_wait_error_code process_wait_error.TimedOut = 4"

definition process_wait_error_try_from :: "usize \<Rightarrow> process_wait_error option" where
  "process_wait_error_try_from value =
     (if value = 1 then Some process_wait_error.InvalidArgument
      else if value = 2 then Some process_wait_error.InvalidState
      else if value = 3 then Some process_wait_error.WouldBlock
      else if value = 4 then Some process_wait_error.TimedOut
      else None)"

interpretation process_wait_error: abi_code process_wait_error_code process_wait_error_try_from
proof
  show "process_wait_error_try_from (process_wait_error_code e) = Some e" for e
    by (cases e) (simp_all add: process_wait_error_try_from_def)
  show "process_wait_error_code e = n" if "process_wait_error_try_from n = Some e" for n e
    using that by (auto simp: process_wait_error_try_from_def split: if_splits)
qed

datatype futex_error =
    InvalidArgument | Fault | WouldBlock | TimedOut | NotSupported

primrec futex_error_code :: "futex_error \<Rightarrow> usize" where
  "futex_error_code futex_error.InvalidArgument = 1"
| "futex_error_code futex_error.Fault = 2"
| "futex_error_code futex_error.WouldBlock = 3"
| "futex_error_code futex_error.TimedOut = 4"
| "futex_error_code futex_error.NotSupported = 5"

definition futex_error_try_from :: "usize \<Rightarrow> futex_error option" where
  "futex_error_try_from value =
     (if value = 1 then Some futex_error.InvalidArgument
      else if value = 2 then Some futex_error.Fault
      else if value = 3 then Some futex_error.WouldBlock
      else if value = 4 then Some futex_error.TimedOut
      else if value = 5 then Some futex_error.NotSupported
      else None)"

interpretation futex_error: abi_code futex_error_code futex_error_try_from
proof
  show "futex_error_try_from (futex_error_code e) = Some e" for e
    by (cases e) (simp_all add: futex_error_try_from_def)
  show "futex_error_code e = n" if "futex_error_try_from n = Some e" for n e
    using that by (auto simp: futex_error_try_from_def split: if_splits)
qed

datatype irq_underlying_error_code =
    InvalidIrq | InvalidParameter | OutOfResources | NotSupported | WouldBlock | Closed
  | DeadlineUnsupported

primrec irq_underlying_error_code_code :: "irq_underlying_error_code \<Rightarrow> usize" where
  "irq_underlying_error_code_code irq_underlying_error_code.InvalidIrq = 1"
| "irq_underlying_error_code_code irq_underlying_error_code.InvalidParameter = 2"
| "irq_underlying_error_code_code irq_underlying_error_code.OutOfResources = 3"
| "irq_underlying_error_code_code irq_underlying_error_code.NotSupported = 4"
| "irq_underlying_error_code_code irq_underlying_error_code.WouldBlock = 5"
| "irq_underlying_error_code_code irq_underlying_error_code.Closed = 6"
| "irq_underlying_error_code_code irq_underlying_error_code.DeadlineUnsupported = 7"

definition irq_underlying_error_code_try_from :: "usize \<Rightarrow> irq_underlying_error_code option" where
  "irq_underlying_error_code_try_from value =
     (if value = 1 then Some irq_underlying_error_code.InvalidIrq
      else if value = 2 then Some irq_underlying_error_code.InvalidParameter
      else if value = 3 then Some irq_underlying_error_code.OutOfResources
      else if value = 4 then Some irq_underlying_error_code.NotSupported
      else if value = 5 then Some irq_underlying_error_code.WouldBlock
      else if value = 6 then Some irq_underlying_error_code.Closed
      else if value = 7 then Some irq_underlying_error_code.DeadlineUnsupported
      else None)"

interpretation irq_underlying_error_code: abi_code irq_underlying_error_code_code irq_underlying_error_code_try_from
proof
  show "irq_underlying_error_code_try_from (irq_underlying_error_code_code e) = Some e" for e
    by (cases e) (simp_all add: irq_underlying_error_code_try_from_def)
  show "irq_underlying_error_code_code e = n" if "irq_underlying_error_code_try_from n = Some e" for n e
    using that by (auto simp: irq_underlying_error_code_try_from_def split: if_splits)
qed

datatype pci_underlying_error_code =
    InvalidParameter | NotSupported | OutOfResources | Fault | BufferTooSmall
  | RuntimeUnavailable | Busy | ControllerFailure

primrec pci_underlying_error_code_code :: "pci_underlying_error_code \<Rightarrow> usize" where
  "pci_underlying_error_code_code pci_underlying_error_code.InvalidParameter = 1"
| "pci_underlying_error_code_code pci_underlying_error_code.NotSupported = 2"
| "pci_underlying_error_code_code pci_underlying_error_code.OutOfResources = 3"
| "pci_underlying_error_code_code pci_underlying_error_code.Fault = 4"
| "pci_underlying_error_code_code pci_underlying_error_code.BufferTooSmall = 5"
| "pci_underlying_error_code_code pci_underlying_error_code.RuntimeUnavailable = 6"
| "pci_underlying_error_code_code pci_underlying_error_code.Busy = 7"
| "pci_underlying_error_code_code pci_underlying_error_code.ControllerFailure = 8"

definition pci_underlying_error_code_try_from :: "usize \<Rightarrow> pci_underlying_error_code option" where
  "pci_underlying_error_code_try_from value =
     (if value = 1 then Some pci_underlying_error_code.InvalidParameter
      else if value = 2 then Some pci_underlying_error_code.NotSupported
      else if value = 3 then Some pci_underlying_error_code.OutOfResources
      else if value = 4 then Some pci_underlying_error_code.Fault
      else if value = 5 then Some pci_underlying_error_code.BufferTooSmall
      else if value = 6 then Some pci_underlying_error_code.RuntimeUnavailable
      else if value = 7 then Some pci_underlying_error_code.Busy
      else if value = 8 then Some pci_underlying_error_code.ControllerFailure
      else None)"

interpretation pci_underlying_error_code: abi_code pci_underlying_error_code_code pci_underlying_error_code_try_from
proof
  show "pci_underlying_error_code_try_from (pci_underlying_error_code_code e) = Some e" for e
    by (cases e) (simp_all add: pci_underlying_error_code_try_from_def)
  show "pci_underlying_error_code_code e = n" if "pci_underlying_error_code_try_from n = Some e" for n e
    using that by (auto simp: pci_underlying_error_code_try_from_def split: if_splits)
qed

datatype service_error =
    InvalidArgument | InvalidState | ServiceUnavailable | ProtocolViolation | ServiceFaulted

primrec service_error_code :: "service_error \<Rightarrow> usize" where
  "service_error_code service_error.InvalidArgument = 1"
| "service_error_code service_error.InvalidState = 2"
| "service_error_code service_error.ServiceUnavailable = 3"
| "service_error_code service_error.ProtocolViolation = 4"
| "service_error_code service_error.ServiceFaulted = 5"

definition service_error_try_from :: "usize \<Rightarrow> service_error option" where
  "service_error_try_from value =
     (if value = 1 then Some service_error.InvalidArgument
      else if value = 2 then Some service_error.InvalidState
      else if value = 3 then Some service_error.ServiceUnavailable
      else if value = 4 then Some service_error.ProtocolViolation
      else if value = 5 then Some service_error.ServiceFaulted
      else None)"

interpretation service_error: abi_code service_error_code service_error_try_from
proof
  show "service_error_try_from (service_error_code e) = Some e" for e
    by (cases e) (simp_all add: service_error_try_from_def)
  show "service_error_code e = n" if "service_error_try_from n = Some e" for n e
    using that by (auto simp: service_error_try_from_def split: if_splits)
qed

text \<open>\<open>ObjectError\<close> has no discriminants; its codes are written out in \<open>abi_code\<close>.\<close>

datatype object_error =
    ObjectDestroyed | InsufficientCapabilities | InvalidArgument | ObjectNotFound | DangerousName
  | DuplicateChildName | AgentHandleAlreadyExists

primrec object_error_abi_code :: "object_error \<Rightarrow> usize" where
  "object_error_abi_code object_error.ObjectDestroyed = 1"
| "object_error_abi_code object_error.InsufficientCapabilities = 2"
| "object_error_abi_code object_error.InvalidArgument = 3"
| "object_error_abi_code object_error.ObjectNotFound = 4"
| "object_error_abi_code object_error.DangerousName = 5"
| "object_error_abi_code object_error.DuplicateChildName = 6"
| "object_error_abi_code object_error.AgentHandleAlreadyExists = 7"

definition object_error_from_abi_code :: "usize \<Rightarrow> object_error option" where
  "object_error_from_abi_code value =
     (if value = 1 then Some object_error.ObjectDestroyed
      else if value = 2 then Some object_error.InsufficientCapabilities
      else if value = 3 then Some object_error.InvalidArgument
      else if value = 4 then Some object_error.ObjectNotFound
      else if value = 5 then Some object_error.DangerousName
      else if value = 6 then Some object_error.DuplicateChildName
      else if value = 7 then Some object_error.AgentHandleAlreadyExists
      else None)"

interpretation object_error: abi_code object_error_abi_code object_error_from_abi_code
proof
  show "object_error_from_abi_code (object_error_abi_code e) = Some e" for e
    by (cases e) (simp_all add: object_error_from_abi_code_def)
  show "object_error_abi_code e = n" if "object_error_from_abi_code n = Some e" for n e
    using that by (auto simp: object_error_from_abi_code_def split: if_splits)
qed

subsection \<open>The unified failure envelope\<close>

datatype underlying_error_kind =
    Syscall | Ipc | Vm | ProcessLoad | ProcessVmarExtract | ProcessHandleInstall | ProcessSpawn
  | ProcessWait | Futex | Irq | Pci | Service

primrec underlying_error_kind_code :: "underlying_error_kind \<Rightarrow> usize" where
  "underlying_error_kind_code underlying_error_kind.Syscall = 1"
| "underlying_error_kind_code underlying_error_kind.Ipc = 2"
| "underlying_error_kind_code underlying_error_kind.Vm = 3"
| "underlying_error_kind_code underlying_error_kind.ProcessLoad = 4"
| "underlying_error_kind_code underlying_error_kind.ProcessVmarExtract = 5"
| "underlying_error_kind_code underlying_error_kind.ProcessHandleInstall = 6"
| "underlying_error_kind_code underlying_error_kind.ProcessSpawn = 7"
| "underlying_error_kind_code underlying_error_kind.ProcessWait = 8"
| "underlying_error_kind_code underlying_error_kind.Futex = 9"
| "underlying_error_kind_code underlying_error_kind.Irq = 10"
| "underlying_error_kind_code underlying_error_kind.Pci = 11"
| "underlying_error_kind_code underlying_error_kind.Service = 12"

definition underlying_error_kind_try_from :: "usize \<Rightarrow> underlying_error_kind option" where
  "underlying_error_kind_try_from value =
     (if value = 1 then Some underlying_error_kind.Syscall
      else if value = 2 then Some underlying_error_kind.Ipc
      else if value = 3 then Some underlying_error_kind.Vm
      else if value = 4 then Some underlying_error_kind.ProcessLoad
      else if value = 5 then Some underlying_error_kind.ProcessVmarExtract
      else if value = 6 then Some underlying_error_kind.ProcessHandleInstall
      else if value = 7 then Some underlying_error_kind.ProcessSpawn
      else if value = 8 then Some underlying_error_kind.ProcessWait
      else if value = 9 then Some underlying_error_kind.Futex
      else if value = 10 then Some underlying_error_kind.Irq
      else if value = 11 then Some underlying_error_kind.Pci
      else None)"

datatype underlying_failure =
    Syscall syscall_error
  | Ipc ipc_error
  | Vm vm_error
  | ProcessLoad process_load_error
  | ProcessVmarExtract process_vmar_extract_error
  | ProcessHandleInstall process_handle_install_error
  | ProcessSpawn process_spawn_error
  | ProcessWait process_wait_error
  | Futex futex_error
  | Irq irq_underlying_error_code
  | Pci pci_underlying_error_code
  | Service service_error

fun to_parts :: "underlying_failure \<Rightarrow> usize \<times> usize \<times> (usize \<times> usize \<times> usize)" where
  "to_parts (underlying_failure.Syscall e) =
     (underlying_error_kind_code underlying_error_kind.Syscall, syscall_error_code e, (0, 0, 0))"
| "to_parts (underlying_failure.Ipc e) =
     (underlying_error_kind_code underlying_error_kind.Ipc, ipc_error_code e, (0, 0, 0))"
| "to_parts (underlying_failure.Vm e) =
     (underlying_error_kind_code underlying_error_kind.Vm, vm_error_code e, (0, 0, 0))"
| "to_parts (underlying_failure.ProcessLoad e) =
     (underlying_error_kind_code underlying_error_kind.ProcessLoad, process_load_error_code e, (0, 0, 0))"
| "to_parts (underlying_failure.ProcessVmarExtract e) =
     (underlying_error_kind_code underlying_error_kind.ProcessVmarExtract, process_vmar_extract_error_code e, (0, 0, 0))"
| "to_parts (underlying_failure.ProcessHandleInstall e) =
     (underlying_error_kind_code underlying_error_kind.ProcessHandleInstall, process_handle_install_error_code e, (0, 0, 0))"
| "to_parts (underlying_failure.ProcessSpawn e) =
     (underlying_error_kind_code underlying_error_kind.ProcessSpawn, process_spawn_error_code e, (0, 0, 0))"
| "to_parts (underlying_failure.ProcessWait e) =
     (underlying_error_kind_code underlying_error_kind.ProcessWait, process_wait_error_code e, (0, 0, 0))"
| "to_parts (underlying_failure.Futex e) =
     (underlying_error_kind_code underlying_error_kind.Futex, futex_error_code e, (0, 0, 0))"
| "to_parts (underlying_failure.Irq e) =
     (underlying_error_kind_code underlying_error_kind.Irq, irq_underlying_error_code_code e, (0, 0, 0))"
| "to_parts (underlying_failure.Pci e) =
     (underlying_error_kind_code underlying_error_kind.Pci, pci_underlying_error_code_code e, (0, 0, 0))"
| "to_parts (underlying_failure.Service e) =
     (underlying_error_kind_code underlying_error_kind.Service, service_error_code e, (0, 0, 0))"

definition from_parts :: "usize \<Rightarrow> usize \<Rightarrow> usize \<times> usize \<times> usize \<Rightarrow> underlying_failure outcome" where
  "from_parts code kind detail =
     (case underlying_error_kind_try_from kind of
        None \<Rightarrow> Panicked
      | Some underlying_error_kind.Syscall \<Rightarrow> expect (map_option underlying_failure.Syscall (syscall_error_try_from code))
      | Some underlying_error_kind.Ipc \<Rightarrow> expect (map_option underlying_failure.Ipc (ipc_error_try_from code))
      | Some underlying_error_kind.Vm \<Rightarrow> expect (map_option underlying_failure.Vm (vm_error_try_from code))
      | Some underlying_error_kind.ProcessLoad \<Rightarrow> expect (map_option underlying_failure.ProcessLoad (process_load_error_try_from code))
      | Some underlying_error_kind.ProcessVmarExtract \<Rightarrow> expect (map_option underlying_failure.ProcessVmarExtract (process_vmar_extract_error_try_from code))
      | Some underlying_error_kind.ProcessHandleInstall \<Rightarrow> expect (map_option underlying_failure.ProcessHandleInstall (process_handle_install_error_try_from code))
      | Some underlying_error_kind.ProcessSpawn \<Rightarrow> expect (map_option underlying_failure.ProcessSpawn (process_spawn_error_try_from code))
      | Some underlying_error_kind.ProcessWait \<Rightarrow> expect (map_option underlying_failure.ProcessWait (process_wait_error_try_from code))
      | Some underlying_error_kind.Futex \<Rightarrow> expect (map_option underlying_failure.Futex (futex_error_try_from code))
      | Some underlying_error_kind.Irq \<Rightarrow> expect (map_option underlying_failure.Irq (irq_underlying_error_code_try_from code))
      | Some underlying_error_kind.Pci \<Rightarrow> expect (map_option underlying_failure.Pci (pci_underlying_error_code_try_from code))
      | Some underlying_error_kind.Service \<Rightarrow> expect (map_option underlying_failure.Service (service_error_try_from code)))"

datatype syscall_failure = Object object_error | Underlying underlying_failure

definition is_service :: "underlying_failure \<Rightarrow> bool" where
  "is_service u \<longleftrightarrow> (case u of underlying_failure.Service _ \<Rightarrow> True | _ \<Rightarrow> False)"

text \<open>
  Decoding inverts encoding for every family but one: the decoder of the kinds has no arm for
  \<open>Service = 12\<close>, so every encoded service failure makes \<open>from_parts\<close> panic.
\<close>

lemmas try_from_codes =
  syscall_error.try_from_code
  ipc_error.try_from_code
  vm_error.try_from_code
  process_load_error.try_from_code
  process_vmar_extract_error.try_from_code
  process_handle_install_error.try_from_code
  process_spawn_error.try_from_code
  process_wait_error.try_from_code
  futex_error.try_from_code
  irq_underlying_error_code.try_from_code
  pci_underlying_error_code.try_from_code
  service_error.try_from_code

lemma underlying_error_kind_try_from_code:
  "underlying_error_kind_try_from (underlying_error_kind_code k) =
     (if k = underlying_error_kind.Service then None else Some k)"
  by (cases k) (simp_all add: underlying_error_kind_try_from_def)

lemma from_parts_to_parts:
  assumes "to_parts u = (kind, code, detail)"
  shows "from_parts code kind detail = (if is_service u then Panicked else Returned u)"
  using assms
  by (cases u) (auto simp: from_parts_def is_service_def underlying_error_kind_try_from_code
      try_from_codes simp del: underlying_error_kind_code.simps)

lemma to_parts_inj: "to_parts u = to_parts w \<longleftrightarrow> u = w"
  by (cases u; cases w) (auto simp: syscall_error.code_inj ipc_error.code_inj vm_error.code_inj process_load_error.code_inj process_vmar_extract_error.code_inj process_handle_install_error.code_inj process_spawn_error.code_inj process_wait_error.code_inj futex_error.code_inj irq_underlying_error_code.code_inj pci_underlying_error_code.code_inj service_error.code_inj)

end
