(* ===== verification/Syscall_Abi.thy ===== *)
theory Syscall_Abi
  imports Syscall_Errno
begin

text \<open>
  The syscall ABI of \<open>library/syscall/src/abi.rs\<close> and \<open>dispatch.rs\<close>: the stable numbers and
  selectors with their decoders (instances of the locale \<open>abi_code\<close>), the mode-flag words, the
  argument and result frames with their register words, the builders of the argument frames, and
  the two decoders of a failure: \<open>SyscallResult::failure\<close> on the user side and
  \<open>decode_underlying_failure\<close> of \<open>kernel/src/syscall/services/service.rs\<close> on the kernel side.
  An array \<open>[usize; 5]\<close> is a 5-tuple.
\<close>

subsection \<open>Numbers and selectors\<close>

datatype syscall_status =
    Ok_status | ObjectError | UnderlyingError

primrec syscall_status_code :: "syscall_status \<Rightarrow> usize" where
  "syscall_status_code syscall_status.Ok_status = 0"
| "syscall_status_code syscall_status.ObjectError = 1"
| "syscall_status_code syscall_status.UnderlyingError = 2"

definition syscall_status_try_from :: "usize \<Rightarrow> syscall_status option" where
  "syscall_status_try_from value =
     (if value = 0 then Some syscall_status.Ok_status
      else if value = 1 then Some syscall_status.ObjectError
      else if value = 2 then Some syscall_status.UnderlyingError
      else None)"

interpretation syscall_status: abi_code syscall_status_code syscall_status_try_from
proof
  show "syscall_status_try_from (syscall_status_code e) = Some e" for e
    by (cases e) (simp_all add: syscall_status_try_from_def)
  show "syscall_status_code e = n" if "syscall_status_try_from n = Some e" for n e
    using that by (auto simp: syscall_status_try_from_def split: if_splits)
qed

datatype vmo_child_mode =
    SharedView | PrivateCow

primrec vmo_child_mode_code :: "vmo_child_mode \<Rightarrow> usize" where
  "vmo_child_mode_code vmo_child_mode.SharedView = 1"
| "vmo_child_mode_code vmo_child_mode.PrivateCow = 2"

definition vmo_child_mode_try_from :: "usize \<Rightarrow> vmo_child_mode option" where
  "vmo_child_mode_try_from value =
     (if value = 1 then Some vmo_child_mode.SharedView
      else if value = 2 then Some vmo_child_mode.PrivateCow
      else None)"

interpretation vmo_child_mode: abi_code vmo_child_mode_code vmo_child_mode_try_from
proof
  show "vmo_child_mode_try_from (vmo_child_mode_code e) = Some e" for e
    by (cases e) (simp_all add: vmo_child_mode_try_from_def)
  show "vmo_child_mode_code e = n" if "vmo_child_mode_try_from n = Some e" for n e
    using that by (auto simp: vmo_child_mode_try_from_def split: if_splits)
qed

datatype vmo_op_range_operation =
    Commit | Decommit | Zero | QueryCommitted

primrec vmo_op_range_operation_code :: "vmo_op_range_operation \<Rightarrow> usize" where
  "vmo_op_range_operation_code vmo_op_range_operation.Commit = 1"
| "vmo_op_range_operation_code vmo_op_range_operation.Decommit = 2"
| "vmo_op_range_operation_code vmo_op_range_operation.Zero = 3"
| "vmo_op_range_operation_code vmo_op_range_operation.QueryCommitted = 4"

definition vmo_op_range_operation_try_from :: "usize \<Rightarrow> vmo_op_range_operation option" where
  "vmo_op_range_operation_try_from value =
     (if value = 1 then Some vmo_op_range_operation.Commit
      else if value = 2 then Some vmo_op_range_operation.Decommit
      else if value = 3 then Some vmo_op_range_operation.Zero
      else if value = 4 then Some vmo_op_range_operation.QueryCommitted
      else None)"

interpretation vmo_op_range_operation: abi_code vmo_op_range_operation_code vmo_op_range_operation_try_from
proof
  show "vmo_op_range_operation_try_from (vmo_op_range_operation_code e) = Some e" for e
    by (cases e) (simp_all add: vmo_op_range_operation_try_from_def)
  show "vmo_op_range_operation_code e = n" if "vmo_op_range_operation_try_from n = Some e" for n e
    using that by (auto simp: vmo_op_range_operation_try_from_def split: if_splits)
qed

datatype syscall =
    HandleClose | HandleClone | HandleDerive | HandleUpgrade | ObjectLocate | ObjectReadMeta
  | ObjectManageChild | ObjectInvoke | TaskYield | TaskSleep | ProcessExit | ProcessCreate
  | ProcessLoad | ProcessVmarExtract | ProcessHandleInstall | ProcessTaskSpawn | TaskCreate
  | TaskExit | FutexWait | FutexWake | UserObjectCreate | WaitObjectRequest | ServiceReplyOk
  | ServiceReplyObjectError | ServiceReplyUnderlying | PortCreate | PortSend | PortRecv
  | PortSubscribe | PortUnsubscribe | PortBindReceiver | PortRebindReceiver | PortQueryState
  | PortClose | PortFreeze | IrqWait | IrqAck | PagerCreate | WaitPagerRequest
  | SyscallHandlerCreate | WaitSyscallRequest | VmoCreate | VmoCreateChild | VmoCreateContiguous
  | VmoCreatePhysical | VmoGetSize | VmoGetStreamSize | VmoOpRange | VmoRead
  | VmoReplaceAsExecutable | VmoSetCachePolicy | VmoSetSize | VmoSetStreamSize | VmoTransferData
  | VmoWrite | VmarAllocate | VmarDestroy | VmarMap | VmarMapClock | VmarMapIob | VmarOpRange
  | VmarProtect | VmarUnmap

primrec syscall_code :: "syscall \<Rightarrow> usize" where
  "syscall_code syscall.HandleClose = 1"
| "syscall_code syscall.HandleClone = 2"
| "syscall_code syscall.HandleDerive = 3"
| "syscall_code syscall.HandleUpgrade = 4"
| "syscall_code syscall.ObjectLocate = 16"
| "syscall_code syscall.ObjectReadMeta = 17"
| "syscall_code syscall.ObjectManageChild = 18"
| "syscall_code syscall.ObjectInvoke = 19"
| "syscall_code syscall.TaskYield = 32"
| "syscall_code syscall.TaskSleep = 33"
| "syscall_code syscall.ProcessExit = 34"
| "syscall_code syscall.ProcessCreate = 35"
| "syscall_code syscall.ProcessLoad = 36"
| "syscall_code syscall.ProcessVmarExtract = 37"
| "syscall_code syscall.ProcessHandleInstall = 38"
| "syscall_code syscall.ProcessTaskSpawn = 39"
| "syscall_code syscall.TaskCreate = 40"
| "syscall_code syscall.TaskExit = 41"
| "syscall_code syscall.FutexWait = 42"
| "syscall_code syscall.FutexWake = 43"
| "syscall_code syscall.UserObjectCreate = 44"
| "syscall_code syscall.WaitObjectRequest = 45"
| "syscall_code syscall.ServiceReplyOk = 46"
| "syscall_code syscall.ServiceReplyObjectError = 47"
| "syscall_code syscall.ServiceReplyUnderlying = 48"
| "syscall_code syscall.PortCreate = 49"
| "syscall_code syscall.PortSend = 50"
| "syscall_code syscall.PortRecv = 51"
| "syscall_code syscall.PortSubscribe = 52"
| "syscall_code syscall.PortUnsubscribe = 53"
| "syscall_code syscall.PortBindReceiver = 54"
| "syscall_code syscall.PortRebindReceiver = 55"
| "syscall_code syscall.PortQueryState = 56"
| "syscall_code syscall.PortClose = 57"
| "syscall_code syscall.PortFreeze = 58"
| "syscall_code syscall.IrqWait = 64"
| "syscall_code syscall.IrqAck = 65"
| "syscall_code syscall.PagerCreate = 66"
| "syscall_code syscall.WaitPagerRequest = 67"
| "syscall_code syscall.SyscallHandlerCreate = 68"
| "syscall_code syscall.WaitSyscallRequest = 69"
| "syscall_code syscall.VmoCreate = 256"
| "syscall_code syscall.VmoCreateChild = 257"
| "syscall_code syscall.VmoCreateContiguous = 258"
| "syscall_code syscall.VmoCreatePhysical = 259"
| "syscall_code syscall.VmoGetSize = 260"
| "syscall_code syscall.VmoGetStreamSize = 261"
| "syscall_code syscall.VmoOpRange = 262"
| "syscall_code syscall.VmoRead = 263"
| "syscall_code syscall.VmoReplaceAsExecutable = 264"
| "syscall_code syscall.VmoSetCachePolicy = 265"
| "syscall_code syscall.VmoSetSize = 266"
| "syscall_code syscall.VmoSetStreamSize = 267"
| "syscall_code syscall.VmoTransferData = 268"
| "syscall_code syscall.VmoWrite = 269"
| "syscall_code syscall.VmarAllocate = 512"
| "syscall_code syscall.VmarDestroy = 513"
| "syscall_code syscall.VmarMap = 514"
| "syscall_code syscall.VmarMapClock = 515"
| "syscall_code syscall.VmarMapIob = 516"
| "syscall_code syscall.VmarOpRange = 517"
| "syscall_code syscall.VmarProtect = 518"
| "syscall_code syscall.VmarUnmap = 519"

definition syscall_try_from :: "usize \<Rightarrow> syscall option" where
  "syscall_try_from value =
     (if value = 1 then Some syscall.HandleClose
      else if value = 2 then Some syscall.HandleClone
      else if value = 3 then Some syscall.HandleDerive
      else if value = 4 then Some syscall.HandleUpgrade
      else if value = 16 then Some syscall.ObjectLocate
      else if value = 17 then Some syscall.ObjectReadMeta
      else if value = 18 then Some syscall.ObjectManageChild
      else if value = 19 then Some syscall.ObjectInvoke
      else if value = 32 then Some syscall.TaskYield
      else if value = 33 then Some syscall.TaskSleep
      else if value = 34 then Some syscall.ProcessExit
      else if value = 35 then Some syscall.ProcessCreate
      else if value = 36 then Some syscall.ProcessLoad
      else if value = 37 then Some syscall.ProcessVmarExtract
      else if value = 38 then Some syscall.ProcessHandleInstall
      else if value = 39 then Some syscall.ProcessTaskSpawn
      else if value = 40 then Some syscall.TaskCreate
      else if value = 41 then Some syscall.TaskExit
      else if value = 42 then Some syscall.FutexWait
      else if value = 43 then Some syscall.FutexWake
      else if value = 44 then Some syscall.UserObjectCreate
      else if value = 45 then Some syscall.WaitObjectRequest
      else if value = 46 then Some syscall.ServiceReplyOk
      else if value = 47 then Some syscall.ServiceReplyObjectError
      else if value = 48 then Some syscall.ServiceReplyUnderlying
      else if value = 49 then Some syscall.PortCreate
      else if value = 50 then Some syscall.PortSend
      else if value = 51 then Some syscall.PortRecv
      else if value = 52 then Some syscall.PortSubscribe
      else if value = 53 then Some syscall.PortUnsubscribe
      else if value = 54 then Some syscall.PortBindReceiver
      else if value = 55 then Some syscall.PortRebindReceiver
      else if value = 56 then Some syscall.PortQueryState
      else if value = 57 then Some syscall.PortClose
      else if value = 58 then Some syscall.PortFreeze
      else if value = 64 then Some syscall.IrqWait
      else if value = 65 then Some syscall.IrqAck
      else if value = 66 then Some syscall.PagerCreate
      else if value = 67 then Some syscall.WaitPagerRequest
      else if value = 68 then Some syscall.SyscallHandlerCreate
      else if value = 69 then Some syscall.WaitSyscallRequest
      else if value = 256 then Some syscall.VmoCreate
      else if value = 257 then Some syscall.VmoCreateChild
      else if value = 258 then Some syscall.VmoCreateContiguous
      else if value = 259 then Some syscall.VmoCreatePhysical
      else if value = 260 then Some syscall.VmoGetSize
      else if value = 261 then Some syscall.VmoGetStreamSize
      else if value = 262 then Some syscall.VmoOpRange
      else if value = 263 then Some syscall.VmoRead
      else if value = 264 then Some syscall.VmoReplaceAsExecutable
      else if value = 265 then Some syscall.VmoSetCachePolicy
      else if value = 266 then Some syscall.VmoSetSize
      else if value = 267 then Some syscall.VmoSetStreamSize
      else if value = 268 then Some syscall.VmoTransferData
      else if value = 269 then Some syscall.VmoWrite
      else if value = 512 then Some syscall.VmarAllocate
      else if value = 513 then Some syscall.VmarDestroy
      else if value = 514 then Some syscall.VmarMap
      else if value = 515 then Some syscall.VmarMapClock
      else if value = 516 then Some syscall.VmarMapIob
      else if value = 517 then Some syscall.VmarOpRange
      else if value = 518 then Some syscall.VmarProtect
      else if value = 519 then Some syscall.VmarUnmap
      else None)"

interpretation syscall: abi_code syscall_code syscall_try_from
proof
  show "syscall_try_from (syscall_code e) = Some e" for e
    by (cases e) (simp_all add: syscall_try_from_def)
  show "syscall_code e = n" if "syscall_try_from n = Some e" for n e
    using that by (auto simp: syscall_try_from_def split: if_splits)
qed

datatype object_metadata =
    Id | Parent | MaskedCapabilities | Status | ChildCount | Name | LifecycleFlags

primrec object_metadata_code :: "object_metadata \<Rightarrow> usize" where
  "object_metadata_code object_metadata.Id = 0"
| "object_metadata_code object_metadata.Parent = 1"
| "object_metadata_code object_metadata.MaskedCapabilities = 2"
| "object_metadata_code object_metadata.Status = 3"
| "object_metadata_code object_metadata.ChildCount = 4"
| "object_metadata_code object_metadata.Name = 5"
| "object_metadata_code object_metadata.LifecycleFlags = 6"

definition object_metadata_try_from :: "usize \<Rightarrow> object_metadata option" where
  "object_metadata_try_from value =
     (if value = 0 then Some object_metadata.Id
      else if value = 1 then Some object_metadata.Parent
      else if value = 2 then Some object_metadata.MaskedCapabilities
      else if value = 3 then Some object_metadata.Status
      else if value = 4 then Some object_metadata.ChildCount
      else if value = 5 then Some object_metadata.Name
      else if value = 6 then Some object_metadata.LifecycleFlags
      else None)"

interpretation object_metadata: abi_code object_metadata_code object_metadata_try_from
proof
  show "object_metadata_try_from (object_metadata_code e) = Some e" for e
    by (cases e) (simp_all add: object_metadata_try_from_def)
  show "object_metadata_code e = n" if "object_metadata_try_from n = Some e" for n e
    using that by (auto simp: object_metadata_try_from_def split: if_splits)
qed

datatype process_method =
    QueryPhase | InheritHandle | AbortCreation | DeriveSegmentVmar | Wait

primrec process_method_code :: "process_method \<Rightarrow> usize" where
  "process_method_code process_method.QueryPhase = 0"
| "process_method_code process_method.InheritHandle = 1"
| "process_method_code process_method.AbortCreation = 2"
| "process_method_code process_method.DeriveSegmentVmar = 3"
| "process_method_code process_method.Wait = 4"

definition process_method_try_from :: "usize \<Rightarrow> process_method option" where
  "process_method_try_from value =
     (if value = 0 then Some process_method.QueryPhase
      else if value = 1 then Some process_method.InheritHandle
      else if value = 2 then Some process_method.AbortCreation
      else if value = 3 then Some process_method.DeriveSegmentVmar
      else if value = 4 then Some process_method.Wait
      else None)"

interpretation process_method: abi_code process_method_code process_method_try_from
proof
  show "process_method_try_from (process_method_code e) = Some e" for e
    by (cases e) (simp_all add: process_method_try_from_def)
  show "process_method_code e = n" if "process_method_try_from n = Some e" for n e
    using that by (auto simp: process_method_try_from_def split: if_splits)
qed

datatype process_vm_segment =
    UserImage | UserMapped | UserHeap | UserStack | UserMmio

primrec process_vm_segment_code :: "process_vm_segment \<Rightarrow> usize" where
  "process_vm_segment_code process_vm_segment.UserImage = 0"
| "process_vm_segment_code process_vm_segment.UserMapped = 1"
| "process_vm_segment_code process_vm_segment.UserHeap = 2"
| "process_vm_segment_code process_vm_segment.UserStack = 3"
| "process_vm_segment_code process_vm_segment.UserMmio = 4"

definition process_vm_segment_try_from :: "usize \<Rightarrow> process_vm_segment option" where
  "process_vm_segment_try_from value =
     (if value = 0 then Some process_vm_segment.UserImage
      else if value = 1 then Some process_vm_segment.UserMapped
      else if value = 2 then Some process_vm_segment.UserHeap
      else if value = 3 then Some process_vm_segment.UserStack
      else if value = 4 then Some process_vm_segment.UserMmio
      else None)"

interpretation process_vm_segment: abi_code process_vm_segment_code process_vm_segment_try_from
proof
  show "process_vm_segment_try_from (process_vm_segment_code e) = Some e" for e
    by (cases e) (simp_all add: process_vm_segment_try_from_def)
  show "process_vm_segment_code e = n" if "process_vm_segment_try_from n = Some e" for n e
    using that by (auto simp: process_vm_segment_try_from_def split: if_splits)
qed

datatype process_object_phase =
    Creating | Live | Terminating

primrec process_object_phase_code :: "process_object_phase \<Rightarrow> usize" where
  "process_object_phase_code process_object_phase.Creating = 0"
| "process_object_phase_code process_object_phase.Live = 1"
| "process_object_phase_code process_object_phase.Terminating = 2"

definition process_object_phase_try_from :: "usize \<Rightarrow> process_object_phase option" where
  "process_object_phase_try_from value =
     (if value = 0 then Some process_object_phase.Creating
      else if value = 1 then Some process_object_phase.Live
      else if value = 2 then Some process_object_phase.Terminating
      else None)"

interpretation process_object_phase: abi_code process_object_phase_code process_object_phase_try_from
proof
  show "process_object_phase_try_from (process_object_phase_code e) = Some e" for e
    by (cases e) (simp_all add: process_object_phase_try_from_def)
  show "process_object_phase_code e = n" if "process_object_phase_try_from n = Some e" for n e
    using that by (auto simp: process_object_phase_try_from_def split: if_splits)
qed

datatype port_create_kind =
    Unicast | Broadcast | Bus

primrec port_create_kind_code :: "port_create_kind \<Rightarrow> usize" where
  "port_create_kind_code port_create_kind.Unicast = 0"
| "port_create_kind_code port_create_kind.Broadcast = 1"
| "port_create_kind_code port_create_kind.Bus = 2"

definition port_create_kind_try_from :: "usize \<Rightarrow> port_create_kind option" where
  "port_create_kind_try_from value =
     (if value = 0 then Some port_create_kind.Unicast
      else if value = 1 then Some port_create_kind.Broadcast
      else if value = 2 then Some port_create_kind.Bus
      else None)"

interpretation port_create_kind: abi_code port_create_kind_code port_create_kind_try_from
proof
  show "port_create_kind_try_from (port_create_kind_code e) = Some e" for e
    by (cases e) (simp_all add: port_create_kind_try_from_def)
  show "port_create_kind_code e = n" if "port_create_kind_try_from n = Some e" for n e
    using that by (auto simp: port_create_kind_try_from_def split: if_splits)
qed

datatype port_method =
    QueryState | Send | Recv | BindReceiver | RebindReceiver | Close | Freeze | Subscribe
  | Unsubscribe

primrec port_method_code :: "port_method \<Rightarrow> usize" where
  "port_method_code port_method.QueryState = 0"
| "port_method_code port_method.Send = 1"
| "port_method_code port_method.Recv = 2"
| "port_method_code port_method.BindReceiver = 3"
| "port_method_code port_method.RebindReceiver = 4"
| "port_method_code port_method.Close = 5"
| "port_method_code port_method.Freeze = 6"
| "port_method_code port_method.Subscribe = 7"
| "port_method_code port_method.Unsubscribe = 8"

definition port_method_try_from :: "usize \<Rightarrow> port_method option" where
  "port_method_try_from value =
     (if value = 0 then Some port_method.QueryState
      else if value = 1 then Some port_method.Send
      else if value = 2 then Some port_method.Recv
      else if value = 3 then Some port_method.BindReceiver
      else if value = 4 then Some port_method.RebindReceiver
      else if value = 5 then Some port_method.Close
      else if value = 6 then Some port_method.Freeze
      else if value = 7 then Some port_method.Subscribe
      else if value = 8 then Some port_method.Unsubscribe
      else None)"

interpretation port_method: abi_code port_method_code port_method_try_from
proof
  show "port_method_try_from (port_method_code e) = Some e" for e
    by (cases e) (simp_all add: port_method_try_from_def)
  show "port_method_code e = n" if "port_method_try_from n = Some e" for n e
    using that by (auto simp: port_method_try_from_def split: if_splits)
qed

datatype port_kind =
    Unicast | Broadcast | Bus | Reply

primrec port_kind_code :: "port_kind \<Rightarrow> usize" where
  "port_kind_code port_kind.Unicast = 0"
| "port_kind_code port_kind.Broadcast = 1"
| "port_kind_code port_kind.Bus = 2"
| "port_kind_code port_kind.Reply = 3"

definition port_kind_try_from :: "usize \<Rightarrow> port_kind option" where
  "port_kind_try_from value =
     (if value = 0 then Some port_kind.Unicast
      else if value = 1 then Some port_kind.Broadcast
      else if value = 2 then Some port_kind.Bus
      else if value = 3 then Some port_kind.Reply
      else None)"

interpretation port_kind: abi_code port_kind_code port_kind_try_from
proof
  show "port_kind_try_from (port_kind_code e) = Some e" for e
    by (cases e) (simp_all add: port_kind_try_from_def)
  show "port_kind_code e = n" if "port_kind_try_from n = Some e" for n e
    using that by (auto simp: port_kind_try_from_def split: if_splits)
qed

datatype port_state =
    Open | Frozen | Closed

primrec port_state_code :: "port_state \<Rightarrow> usize" where
  "port_state_code port_state.Open = 0"
| "port_state_code port_state.Frozen = 1"
| "port_state_code port_state.Closed = 2"

definition port_state_try_from :: "usize \<Rightarrow> port_state option" where
  "port_state_try_from value =
     (if value = 0 then Some port_state.Open
      else if value = 1 then Some port_state.Frozen
      else if value = 2 then Some port_state.Closed
      else None)"

interpretation port_state: abi_code port_state_code port_state_try_from
proof
  show "port_state_try_from (port_state_code e) = Some e" for e
    by (cases e) (simp_all add: port_state_try_from_def)
  show "port_state_code e = n" if "port_state_try_from n = Some e" for n e
    using that by (auto simp: port_state_try_from_def split: if_splits)
qed

datatype irq_controller_method =
    QueryInfo | QueryTopology | QueryFeatures

primrec irq_controller_method_code :: "irq_controller_method \<Rightarrow> usize" where
  "irq_controller_method_code irq_controller_method.QueryInfo = 0"
| "irq_controller_method_code irq_controller_method.QueryTopology = 1"
| "irq_controller_method_code irq_controller_method.QueryFeatures = 2"

definition irq_controller_method_try_from :: "usize \<Rightarrow> irq_controller_method option" where
  "irq_controller_method_try_from value =
     (if value = 0 then Some irq_controller_method.QueryInfo
      else if value = 1 then Some irq_controller_method.QueryTopology
      else if value = 2 then Some irq_controller_method.QueryFeatures
      else None)"

interpretation irq_controller_method: abi_code irq_controller_method_code irq_controller_method_try_from
proof
  show "irq_controller_method_try_from (irq_controller_method_code e) = Some e" for e
    by (cases e) (simp_all add: irq_controller_method_try_from_def)
  show "irq_controller_method_code e = n" if "irq_controller_method_try_from n = Some e" for n e
    using that by (auto simp: irq_controller_method_try_from_def split: if_splits)
qed

datatype pci_host_method =
    QuerySummary

primrec pci_host_method_code :: "pci_host_method \<Rightarrow> usize" where
  "pci_host_method_code pci_host_method.QuerySummary = 0"

definition pci_host_method_try_from :: "usize \<Rightarrow> pci_host_method option" where
  "pci_host_method_try_from value =
     (if value = 0 then Some pci_host_method.QuerySummary
      else None)"

interpretation pci_host_method: abi_code pci_host_method_code pci_host_method_try_from
proof
  show "pci_host_method_try_from (pci_host_method_code e) = Some e" for e
    by (cases e) (simp_all add: pci_host_method_try_from_def)
  show "pci_host_method_code e = n" if "pci_host_method_try_from n = Some e" for n e
    using that by (auto simp: pci_host_method_try_from_def split: if_splits)
qed

datatype pci_function_method =
    QueryInfo | QueryInterruptModes | EnableMsi | EnableMsix | DisableInterrupts | QueryBars
  | QueryCapabilities

primrec pci_function_method_code :: "pci_function_method \<Rightarrow> usize" where
  "pci_function_method_code pci_function_method.QueryInfo = 0"
| "pci_function_method_code pci_function_method.QueryInterruptModes = 1"
| "pci_function_method_code pci_function_method.EnableMsi = 2"
| "pci_function_method_code pci_function_method.EnableMsix = 3"
| "pci_function_method_code pci_function_method.DisableInterrupts = 4"
| "pci_function_method_code pci_function_method.QueryBars = 5"
| "pci_function_method_code pci_function_method.QueryCapabilities = 6"

definition pci_function_method_try_from :: "usize \<Rightarrow> pci_function_method option" where
  "pci_function_method_try_from value =
     (if value = 0 then Some pci_function_method.QueryInfo
      else if value = 1 then Some pci_function_method.QueryInterruptModes
      else if value = 2 then Some pci_function_method.EnableMsi
      else if value = 3 then Some pci_function_method.EnableMsix
      else if value = 4 then Some pci_function_method.DisableInterrupts
      else if value = 5 then Some pci_function_method.QueryBars
      else if value = 6 then Some pci_function_method.QueryCapabilities
      else None)"

interpretation pci_function_method: abi_code pci_function_method_code pci_function_method_try_from
proof
  show "pci_function_method_try_from (pci_function_method_code e) = Some e" for e
    by (cases e) (simp_all add: pci_function_method_try_from_def)
  show "pci_function_method_code e = n" if "pci_function_method_try_from n = Some e" for n e
    using that by (auto simp: pci_function_method_try_from_def split: if_splits)
qed

datatype pci_interrupt_mode_kind =
    Intx | Msi | Msix

primrec pci_interrupt_mode_kind_code :: "pci_interrupt_mode_kind \<Rightarrow> usize" where
  "pci_interrupt_mode_kind_code pci_interrupt_mode_kind.Intx = 0"
| "pci_interrupt_mode_kind_code pci_interrupt_mode_kind.Msi = 1"
| "pci_interrupt_mode_kind_code pci_interrupt_mode_kind.Msix = 2"

definition pci_interrupt_mode_kind_try_from :: "usize \<Rightarrow> pci_interrupt_mode_kind option" where
  "pci_interrupt_mode_kind_try_from value =
     (if value = 0 then Some pci_interrupt_mode_kind.Intx
      else if value = 1 then Some pci_interrupt_mode_kind.Msi
      else if value = 2 then Some pci_interrupt_mode_kind.Msix
      else None)"

interpretation pci_interrupt_mode_kind: abi_code pci_interrupt_mode_kind_code pci_interrupt_mode_kind_try_from
proof
  show "pci_interrupt_mode_kind_try_from (pci_interrupt_mode_kind_code e) = Some e" for e
    by (cases e) (simp_all add: pci_interrupt_mode_kind_try_from_def)
  show "pci_interrupt_mode_kind_code e = n" if "pci_interrupt_mode_kind_try_from n = Some e" for n e
    using that by (auto simp: pci_interrupt_mode_kind_try_from_def split: if_splits)
qed

datatype irq_line_method =
    QueryState | OpenSession | SetDestination

primrec irq_line_method_code :: "irq_line_method \<Rightarrow> usize" where
  "irq_line_method_code irq_line_method.QueryState = 0"
| "irq_line_method_code irq_line_method.OpenSession = 1"
| "irq_line_method_code irq_line_method.SetDestination = 3"

definition irq_line_method_try_from :: "usize \<Rightarrow> irq_line_method option" where
  "irq_line_method_try_from value =
     (if value = 0 then Some irq_line_method.QueryState
      else if value = 1 then Some irq_line_method.OpenSession
      else if value = 3 then Some irq_line_method.SetDestination
      else None)"

interpretation irq_line_method: abi_code irq_line_method_code irq_line_method_try_from
proof
  show "irq_line_method_try_from (irq_line_method_code e) = Some e" for e
    by (cases e) (simp_all add: irq_line_method_try_from_def)
  show "irq_line_method_code e = n" if "irq_line_method_try_from n = Some e" for n e
    using that by (auto simp: irq_line_method_try_from_def split: if_splits)
qed

datatype irq_session_method =
    QueryState | SetEnabled | Close

primrec irq_session_method_code :: "irq_session_method \<Rightarrow> usize" where
  "irq_session_method_code irq_session_method.QueryState = 0"
| "irq_session_method_code irq_session_method.SetEnabled = 1"
| "irq_session_method_code irq_session_method.Close = 2"

definition irq_session_method_try_from :: "usize \<Rightarrow> irq_session_method option" where
  "irq_session_method_try_from value =
     (if value = 0 then Some irq_session_method.QueryState
      else if value = 1 then Some irq_session_method.SetEnabled
      else if value = 2 then Some irq_session_method.Close
      else None)"

interpretation irq_session_method: abi_code irq_session_method_code irq_session_method_try_from
proof
  show "irq_session_method_try_from (irq_session_method_code e) = Some e" for e
    by (cases e) (simp_all add: irq_session_method_try_from_def)
  show "irq_session_method_code e = n" if "irq_session_method_try_from n = Some e" for n e
    using that by (auto simp: irq_session_method_try_from_def split: if_splits)
qed

datatype irq_ack_disposition =
    Observed | Claimed

primrec irq_ack_disposition_code :: "irq_ack_disposition \<Rightarrow> usize" where
  "irq_ack_disposition_code irq_ack_disposition.Observed = 0"
| "irq_ack_disposition_code irq_ack_disposition.Claimed = 1"

definition irq_ack_disposition_try_from :: "usize \<Rightarrow> irq_ack_disposition option" where
  "irq_ack_disposition_try_from value =
     (if value = 0 then Some irq_ack_disposition.Observed
      else if value = 1 then Some irq_ack_disposition.Claimed
      else None)"

interpretation irq_ack_disposition: abi_code irq_ack_disposition_code irq_ack_disposition_try_from
proof
  show "irq_ack_disposition_try_from (irq_ack_disposition_code e) = Some e" for e
    by (cases e) (simp_all add: irq_ack_disposition_try_from_def)
  show "irq_ack_disposition_code e = n" if "irq_ack_disposition_try_from n = Some e" for n e
    using that by (auto simp: irq_ack_disposition_try_from_def split: if_splits)
qed

datatype cp_access_mode =
    Read | Write | Execute | Agent | Admin

primrec cp_access_mode_code :: "cp_access_mode \<Rightarrow> usize" where
  "cp_access_mode_code cp_access_mode.Read = 0"
| "cp_access_mode_code cp_access_mode.Write = 1"
| "cp_access_mode_code cp_access_mode.Execute = 2"
| "cp_access_mode_code cp_access_mode.Agent = 3"
| "cp_access_mode_code cp_access_mode.Admin = 4"

definition cp_access_mode_try_from :: "usize \<Rightarrow> cp_access_mode option" where
  "cp_access_mode_try_from value =
     (if value = 0 then Some cp_access_mode.Read
      else if value = 1 then Some cp_access_mode.Write
      else if value = 2 then Some cp_access_mode.Execute
      else if value = 3 then Some cp_access_mode.Agent
      else if value = 4 then Some cp_access_mode.Admin
      else None)"

interpretation cp_access_mode: abi_code cp_access_mode_code cp_access_mode_try_from
proof
  show "cp_access_mode_try_from (cp_access_mode_code e) = Some e" for e
    by (cases e) (simp_all add: cp_access_mode_try_from_def)
  show "cp_access_mode_code e = n" if "cp_access_mode_try_from n = Some e" for n e
    using that by (auto simp: cp_access_mode_try_from_def split: if_splits)
qed

subsection \<open>Mode flags\<close>

text \<open>Each flag type is a newtype over its raw word; \<open>from_bits\<close> rejects unknown bits.\<close>

type_synonym flag_word = "64 word"

definition futex_wait_flags_from_bits :: "flag_word \<Rightarrow> flag_word option" where
  "futex_wait_flags_from_bits bits = flags_from_bits 0 bits"

definition futex_wake_flags_from_bits :: "flag_word \<Rightarrow> flag_word option" where
  "futex_wake_flags_from_bits bits = flags_from_bits 0 bits"

definition port_send_flags_from_bits :: "flag_word \<Rightarrow> flag_word option" where
  "port_send_flags_from_bits bits = flags_from_bits 1 bits"

definition irq_open_flags_from_bits :: "flag_word \<Rightarrow> flag_word option" where
  "irq_open_flags_from_bits bits = flags_from_bits 3 bits"

definition irq_wait_flags_from_bits :: "flag_word \<Rightarrow> flag_word option" where
  "irq_wait_flags_from_bits bits = flags_from_bits 1 bits"

definition object_lifecycle_flags_from_bits :: "u32 \<Rightarrow> u32 option" where
  "object_lifecycle_flags_from_bits bits = flags_from_bits 1 bits"

lemmas flags_from_bits_defs =
  futex_wait_flags_from_bits_def futex_wake_flags_from_bits_def port_send_flags_from_bits_def
  irq_open_flags_from_bits_def irq_wait_flags_from_bits_def object_lifecycle_flags_from_bits_def

subsection \<open>Frames\<close>

type_synonym words5 = "usize \<times> usize \<times> usize \<times> usize \<times> usize"
type_synonym words6 = "usize \<times> words5"

record syscall_args =
  method_id :: usize
  args :: words5

definition args_new :: "usize \<Rightarrow> words5 \<Rightarrow> syscall_args" where
  "args_new m a = \<lparr>method_id = m, args = a\<rparr>"

definition from_syscall :: "syscall \<Rightarrow> words5 \<Rightarrow> syscall_args" where
  "from_syscall s a = args_new (syscall_code s) a"

fun words5_get :: "words5 \<Rightarrow> usize \<Rightarrow> usize option" where
  "words5_get (a, b, c, d, e) i =
     (if i = 0 then Some a else if i = 1 then Some b else if i = 2 then Some c
      else if i = 3 then Some d else if i = 4 then Some e else None)"

definition args_arg :: "syscall_args \<Rightarrow> usize \<Rightarrow> usize option" where
  "args_arg f i = words5_get (args f) i"

definition args_to_words :: "syscall_args \<Rightarrow> words6" where
  "args_to_words f = (method_id f, args f)"

definition args_from_words :: "words6 \<Rightarrow> syscall_args" where
  "args_from_words w = \<lparr>method_id = fst w, args = snd w\<rparr>"

record syscall_result =
  status :: usize
  result_values :: words5

definition result_new :: "usize \<Rightarrow> words5 \<Rightarrow> syscall_result" where
  "result_new s v = \<lparr>status = s, result_values = v\<rparr>"

definition result_to_words :: "syscall_result \<Rightarrow> words6" where
  "result_to_words r = (status r, result_values r)"

definition result_from_words :: "words6 \<Rightarrow> syscall_result" where
  "result_from_words w = \<lparr>status = fst w, result_values = snd w\<rparr>"

definition result_is_ok :: "syscall_result \<Rightarrow> bool" where
  "result_is_ok r \<longleftrightarrow> status r = syscall_status_code syscall_status.Ok_status"

definition result_is_object_error :: "syscall_result \<Rightarrow> bool" where
  "result_is_object_error r \<longleftrightarrow> status r = syscall_status_code syscall_status.ObjectError"

definition result_is_underlying_error :: "syscall_result \<Rightarrow> bool" where
  "result_is_underlying_error r \<longleftrightarrow> status r = syscall_status_code syscall_status.UnderlyingError"

definition result_is_err :: "syscall_result \<Rightarrow> bool" where
  "result_is_err r \<longleftrightarrow> status r \<noteq> syscall_status_code syscall_status.Ok_status"

definition from_failure :: "syscall_failure \<Rightarrow> syscall_result" where
  "from_failure f =
     (case f of
        Object e \<Rightarrow> result_new (syscall_status_code syscall_status.ObjectError)
                     (object_error_abi_code e, 0, 0, 0, 0)
      | Underlying u \<Rightarrow>
          (case to_parts u of (kind, code, (d0, d1, d2)) \<Rightarrow>
             result_new (syscall_status_code syscall_status.UnderlyingError) (code, kind, d0, d1, d2)))"

text \<open>\<open>failure\<close>: \<open>None\<close> when the frame is no failure or carries an unknown object error; the
  decoder of underlying errors may panic.\<close>

definition failure :: "syscall_result \<Rightarrow> syscall_failure option outcome" where
  "failure r =
     (case syscall_status_try_from (status r) of
        None \<Rightarrow> Returned None
      | Some syscall_status.Ok_status \<Rightarrow> Returned None
      | Some syscall_status.ObjectError \<Rightarrow>
          (case result_values r of (code, _) \<Rightarrow>
             Returned (map_option Object (object_error_from_abi_code code)))
      | Some syscall_status.UnderlyingError \<Rightarrow>
          (case result_values r of (code, kind, d0, d1, d2) \<Rightarrow>
             (case from_parts code kind (d0, d1, d2) of
                Panicked \<Rightarrow> Panicked
              | Returned u \<Rightarrow> Returned (Some (Underlying u)))))"

definition decode_underlying_failure ::
  "usize \<Rightarrow> usize \<Rightarrow> (underlying_failure, service_error) result" where
  "decode_underlying_failure kind code =
     (case underlying_error_kind_try_from kind of
        None \<Rightarrow> Err service_error.InvalidArgument
      | Some underlying_error_kind.Syscall \<Rightarrow>
          ok_or service_error.InvalidArgument (map_option underlying_failure.Syscall (syscall_error_try_from code))
      | Some underlying_error_kind.Ipc \<Rightarrow>
          ok_or service_error.InvalidArgument (map_option underlying_failure.Ipc (ipc_error_try_from code))
      | Some underlying_error_kind.Vm \<Rightarrow>
          ok_or service_error.InvalidArgument (map_option underlying_failure.Vm (vm_error_try_from code))
      | Some underlying_error_kind.ProcessLoad \<Rightarrow>
          ok_or service_error.InvalidArgument (map_option underlying_failure.ProcessLoad (process_load_error_try_from code))
      | Some underlying_error_kind.ProcessVmarExtract \<Rightarrow>
          ok_or service_error.InvalidArgument (map_option underlying_failure.ProcessVmarExtract (process_vmar_extract_error_try_from code))
      | Some underlying_error_kind.ProcessHandleInstall \<Rightarrow>
          ok_or service_error.InvalidArgument (map_option underlying_failure.ProcessHandleInstall (process_handle_install_error_try_from code))
      | Some underlying_error_kind.ProcessSpawn \<Rightarrow>
          ok_or service_error.InvalidArgument (map_option underlying_failure.ProcessSpawn (process_spawn_error_try_from code))
      | Some underlying_error_kind.ProcessWait \<Rightarrow>
          ok_or service_error.InvalidArgument (map_option underlying_failure.ProcessWait (process_wait_error_try_from code))
      | Some underlying_error_kind.Futex \<Rightarrow>
          ok_or service_error.InvalidArgument (map_option underlying_failure.Futex (futex_error_try_from code))
      | Some underlying_error_kind.Irq \<Rightarrow>
          ok_or service_error.InvalidArgument (map_option underlying_failure.Irq (irq_underlying_error_code_try_from code))
      | Some underlying_error_kind.Pci \<Rightarrow>
          ok_or service_error.InvalidArgument (map_option underlying_failure.Pci (pci_underlying_error_code_try_from code))
      | Some underlying_error_kind.Service \<Rightarrow>
          ok_or service_error.InvalidArgument (map_option underlying_failure.Service (service_error_try_from code)))"

record process_load_info =
  entry_ip :: usize
  image_base :: usize
  image_end :: usize
  slide :: usize

definition process_load_info_from_result :: "syscall_result \<Rightarrow> process_load_info option" where
  "process_load_info_from_result r =
     (if \<not> result_is_ok r then None
      else case result_values r of (a, b, c, d, e) \<Rightarrow>
        Some \<lparr>entry_ip = a, image_base = b, image_end = c, slide = d\<rparr>)"

record port_query_state_info =
  pq_kind :: port_kind
  pq_state :: port_state
  pq_accepted :: usize
  pq_failed :: usize
  pq_peer_count :: usize

definition port_query_state_from_result :: "syscall_result \<Rightarrow> port_query_state_info option" where
  "port_query_state_from_result r =
     (if \<not> result_is_ok r then None
      else case result_values r of (a, b, c, d, e) \<Rightarrow>
        (case port_kind_try_from a of
           None \<Rightarrow> None
         | Some k \<Rightarrow>
             (case port_state_try_from b of
                None \<Rightarrow> None
              | Some s \<Rightarrow> Some \<lparr>pq_kind = k, pq_state = s, pq_accepted = c, pq_failed = d, pq_peer_count = e\<rparr>)))"

subsection \<open>Builders of argument frames\<close>

text \<open>\<open>ObjectError\<close> has no explicit discriminants, so the cast \<open>error as usize\<close> counts its variants
  from 0.\<close>

primrec object_error_discriminant :: "object_error \<Rightarrow> usize" where
  "object_error_discriminant object_error.ObjectDestroyed = 0"
| "object_error_discriminant object_error.InsufficientCapabilities = 1"
| "object_error_discriminant object_error.InvalidArgument = 2"
| "object_error_discriminant object_error.ObjectNotFound = 3"
| "object_error_discriminant object_error.DangerousName = 4"
| "object_error_discriminant object_error.DuplicateChildName = 5"
| "object_error_discriminant object_error.AgentHandleAlreadyExists = 6"

definition abi_port_send_with_flags :: "u32 \<Rightarrow> usize \<Rightarrow> flag_word \<Rightarrow> syscall_args" where
  "abi_port_send_with_flags slot desc_ptr flags =
     from_syscall syscall.PortSend (unat slot, desc_ptr, unat flags, 0, 0)"

definition abi_port_create :: "port_create_kind \<Rightarrow> syscall_args" where
  "abi_port_create kind =
     from_syscall syscall.PortCreate (port_create_kind_code kind, 0, 0, 0, 0)"

definition abi_port_send :: "u32 \<Rightarrow> usize \<Rightarrow> syscall_args" where
  "abi_port_send slot desc_ptr =
     abi_port_send_with_flags slot desc_ptr 0"

definition abi_port_send_async :: "u32 \<Rightarrow> usize \<Rightarrow> syscall_args" where
  "abi_port_send_async slot desc_ptr =
     abi_port_send_with_flags slot desc_ptr 1"

definition abi_port_recv :: "u32 \<Rightarrow> usize \<Rightarrow> syscall_args" where
  "abi_port_recv slot desc_ptr =
     from_syscall syscall.PortRecv (unat slot, desc_ptr, 0, 0, 0)"

definition abi_port_subscribe :: "u32 \<Rightarrow> u32 \<Rightarrow> syscall_args" where
  "abi_port_subscribe port_slot process_slot =
     from_syscall syscall.PortSubscribe (unat port_slot, unat process_slot, 0, 0, 0)"

definition abi_port_unsubscribe :: "u32 \<Rightarrow> u32 \<Rightarrow> syscall_args" where
  "abi_port_unsubscribe port_slot process_slot =
     from_syscall syscall.PortUnsubscribe (unat port_slot, unat process_slot, 0, 0, 0)"

definition abi_port_bind_receiver :: "u32 \<Rightarrow> u32 \<Rightarrow> syscall_args" where
  "abi_port_bind_receiver port_slot process_slot =
     from_syscall syscall.PortBindReceiver (unat port_slot, unat process_slot, 0, 0, 0)"

definition abi_port_rebind_receiver :: "u32 \<Rightarrow> u32 \<Rightarrow> syscall_args" where
  "abi_port_rebind_receiver port_slot process_slot =
     from_syscall syscall.PortRebindReceiver (unat port_slot, unat process_slot, 0, 0, 0)"

definition abi_port_query_state :: "u32 \<Rightarrow> syscall_args" where
  "abi_port_query_state slot =
     from_syscall syscall.PortQueryState (unat slot, 0, 0, 0, 0)"

definition abi_irq_wait :: "u32 \<Rightarrow> usize \<Rightarrow> flag_word \<Rightarrow> syscall_args" where
  "abi_irq_wait slot deadline flags =
     from_syscall syscall.IrqWait (unat slot, deadline, unat flags, 0, 0)"

definition abi_irq_ack :: "u32 \<Rightarrow> usize \<Rightarrow> irq_ack_disposition \<Rightarrow> syscall_args" where
  "abi_irq_ack slot epoch disposition =
     from_syscall syscall.IrqAck (unat slot, epoch, irq_ack_disposition_code disposition, 0, 0)"

definition abi_port_close :: "u32 \<Rightarrow> syscall_args" where
  "abi_port_close slot =
     from_syscall syscall.PortClose (unat slot, 0, 0, 0, 0)"

definition abi_port_freeze :: "u32 \<Rightarrow> syscall_args" where
  "abi_port_freeze slot =
     from_syscall syscall.PortFreeze (unat slot, 0, 0, 0, 0)"

definition abi_process_create :: "usize \<Rightarrow> usize \<Rightarrow> usize \<Rightarrow> syscall_args" where
  "abi_process_create name_ptr name_len flags =
     from_syscall syscall.ProcessCreate (name_ptr, name_len, flags, 0, 0)"

definition abi_process_load :: "u32 \<Rightarrow> u32 \<Rightarrow> usize \<Rightarrow> syscall_args" where
  "abi_process_load process_slot image_slot flags =
     from_syscall syscall.ProcessLoad (unat process_slot, unat image_slot, flags, 0, 0)"

definition abi_process_vmar_extract :: "u32 \<Rightarrow> process_vm_segment \<Rightarrow> syscall_args" where
  "abi_process_vmar_extract process_slot segment =
     from_syscall syscall.ProcessVmarExtract (unat process_slot, process_vm_segment_code segment, 0, 0, 0)"

definition abi_process_handle_install :: "u32 \<Rightarrow> u32 \<Rightarrow> usize \<Rightarrow> u32 \<Rightarrow> u32 \<Rightarrow> syscall_args" where
  "abi_process_handle_install process_slot source_slot capability_bits interface_caps target_slot =
     from_syscall syscall.ProcessHandleInstall (unat process_slot, unat source_slot, capability_bits, unat interface_caps, unat target_slot)"

definition abi_process_task_spawn :: "u32 \<Rightarrow> usize \<Rightarrow> usize \<Rightarrow> usize \<Rightarrow> usize \<Rightarrow> syscall_args" where
  "abi_process_task_spawn process_slot entry user_sp tls_base flags =
     from_syscall syscall.ProcessTaskSpawn (unat process_slot, entry, user_sp, tls_base, flags)"

definition abi_user_object_create :: "u32 \<Rightarrow> u32 \<Rightarrow> usize \<Rightarrow> usize \<Rightarrow> usize \<Rightarrow> syscall_args" where
  "abi_user_object_create parent_slot process_slot name_ptr name_len usr_ip =
     from_syscall syscall.UserObjectCreate (unat parent_slot, unat process_slot, name_ptr, name_len, usr_ip)"

definition abi_wait_object_request :: "u32 \<Rightarrow> syscall_args" where
  "abi_wait_object_request object_slot =
     from_syscall syscall.WaitObjectRequest (unat object_slot, 0, 0, 0, 0)"

definition abi_pager_create :: "u32 \<Rightarrow> u32 \<Rightarrow> usize \<Rightarrow> usize \<Rightarrow> syscall_args" where
  "abi_pager_create register_slot process_slot usr_ip flags =
     from_syscall syscall.PagerCreate (unat register_slot, unat process_slot, usr_ip, flags, 0)"

definition abi_wait_pager_request :: "u32 \<Rightarrow> syscall_args" where
  "abi_wait_pager_request pager_slot =
     from_syscall syscall.WaitPagerRequest (unat pager_slot, 0, 0, 0, 0)"

definition abi_syscall_handler_create :: "u32 \<Rightarrow> u32 \<Rightarrow> usize \<Rightarrow> syscall \<Rightarrow> usize \<Rightarrow> syscall_args" where
  "abi_syscall_handler_create register_slot process_slot usr_ip syscall_nr flags =
     from_syscall syscall.SyscallHandlerCreate (unat register_slot, unat process_slot, usr_ip, syscall_code syscall_nr, flags)"

definition abi_wait_syscall_request :: "u32 \<Rightarrow> syscall_args" where
  "abi_wait_syscall_request handler_slot =
     from_syscall syscall.WaitSyscallRequest (unat handler_slot, 0, 0, 0, 0)"

definition abi_service_reply_ok :: "words5 \<Rightarrow> syscall_args" where
  "abi_service_reply_ok values =
     from_syscall syscall.ServiceReplyOk values"

definition abi_service_reply_object_error :: "object_error \<Rightarrow> syscall_args" where
  "abi_service_reply_object_error error =
     from_syscall syscall.ServiceReplyObjectError (object_error_discriminant error, 0, 0, 0, 0)"

definition abi_service_reply_underlying :: "usize \<Rightarrow> usize \<Rightarrow> syscall_args" where
  "abi_service_reply_underlying kind code =
     from_syscall syscall.ServiceReplyUnderlying (kind, code, 0, 0, 0)"

definition abi_task_create :: "u32 \<Rightarrow> usize \<Rightarrow> usize \<Rightarrow> usize \<Rightarrow> usize \<Rightarrow> syscall_args" where
  "abi_task_create process_slot entry user_sp tls_base flags =
     from_syscall syscall.TaskCreate (unat process_slot, entry, user_sp, tls_base, flags)"

definition abi_task_exit :: "usize \<Rightarrow> syscall_args" where
  "abi_task_exit code =
     from_syscall syscall.TaskExit (code, 0, 0, 0, 0)"

definition abi_futex_wait :: "usize \<Rightarrow> u32 \<Rightarrow> usize \<Rightarrow> flag_word \<Rightarrow> syscall_args" where
  "abi_futex_wait user_addr expected timeout_ns flags =
     from_syscall syscall.FutexWait (user_addr, unat expected, timeout_ns, unat flags, 0)"

definition abi_futex_wake :: "usize \<Rightarrow> usize \<Rightarrow> flag_word \<Rightarrow> syscall_args" where
  "abi_futex_wake user_addr wake_count flags =
     from_syscall syscall.FutexWake (user_addr, wake_count, unat flags, 0, 0)"

definition abi_vmo_create_child :: "u32 \<Rightarrow> usize \<Rightarrow> usize \<Rightarrow> vmo_child_mode \<Rightarrow> syscall_args" where
  "abi_vmo_create_child parent_slot parent_offset sz mode =
     from_syscall syscall.VmoCreateChild (unat parent_slot, parent_offset, sz, vmo_child_mode_code mode, 0)"

lemmas builder_defs =
  from_syscall_def args_new_def
  abi_port_create_def
  abi_port_send_def
  abi_port_send_with_flags_def
  abi_port_send_async_def
  abi_port_recv_def
  abi_port_subscribe_def
  abi_port_unsubscribe_def
  abi_port_bind_receiver_def
  abi_port_rebind_receiver_def
  abi_port_query_state_def
  abi_irq_wait_def
  abi_irq_ack_def
  abi_port_close_def
  abi_port_freeze_def
  abi_process_create_def
  abi_process_load_def
  abi_process_vmar_extract_def
  abi_process_handle_install_def
  abi_process_task_spawn_def
  abi_user_object_create_def
  abi_wait_object_request_def
  abi_pager_create_def
  abi_wait_pager_request_def
  abi_syscall_handler_create_def
  abi_wait_syscall_request_def
  abi_service_reply_ok_def
  abi_service_reply_object_error_def
  abi_service_reply_underlying_def
  abi_task_create_def
  abi_task_exit_def
  abi_futex_wait_def
  abi_futex_wake_def
  abi_vmo_create_child_def

subsection \<open>Round trips\<close>

lemma args_words_roundtrip: "args_from_words (args_to_words f) = f"
  by (simp add: args_from_words_def args_to_words_def)

lemma result_words_roundtrip: "result_from_words (result_to_words r) = r"
  by (simp add: result_from_words_def result_to_words_def)

lemma from_failure_is_err: "result_is_err (from_failure f) \<and> \<not> result_is_ok (from_failure f)"
  by (auto simp: result_is_err_def result_is_ok_def from_failure_def result_new_def
      split: syscall_failure.splits prod.splits)

lemma failure_from_failure:
  "failure (from_failure f) =
     (case f of Underlying u \<Rightarrow> if is_service u then Panicked else Returned (Some f)
              | Object _ \<Rightarrow> Returned (Some f))"
proof (cases f)
  case (Object e)
  then show ?thesis
    by (simp add: failure_def from_failure_def result_new_def syscall_status_try_from_def
        object_error.try_from_code)
next
  case (Underlying u)
  obtain kind code d0 d1 d2 where p: "to_parts u = (kind, code, (d0, d1, d2))"
    by (metis prod_cases3)
  show ?thesis
    using Underlying from_parts_to_parts [OF p] p
    by (simp add: failure_def from_failure_def result_new_def syscall_status_try_from_def)
qed

lemma decode_underlying_to_parts:
  assumes "to_parts u = (kind, code, detail)"
  shows "decode_underlying_failure kind code =
     (if is_service u then Err service_error.InvalidArgument else Ok u)"
  using assms
  by (cases u) (auto simp: decode_underlying_failure_def is_service_def
      underlying_error_kind_try_from_code try_from_codes simp del: underlying_error_kind_code.simps)

lemma syscall_builder_number:
  "syscall_try_from (method_id (from_syscall s a)) = Some s"
  "args (from_syscall s a) = a"
  by (simp_all add: from_syscall_def args_new_def syscall.try_from_code)

end
