(* ===== verification/Service_Reply.thy ===== *)
theory Service_Reply
  imports Syscall_Abi
begin

text \<open>
  The syscall boundary end to end: failures through the result frame and back, and the replies of a
  userspace service from the frame its runtime builds (\<open>syscall/src/abi.rs\<close>) to the kernel handler
  that decodes it (\<open>kernel/src/syscall/services/service.rs\<close>).
\<close>

subsection \<open>Reply handlers\<close>

text \<open>
  The dispatcher's \<open>complete_current_call\<close> is the argument \<open>complete\<close>; None stands for no current
  task. \<open>into_syscall_result\<close> of a service error is its failure frame.
\<close>

definition service_error_result :: "service_error \<Rightarrow> syscall_result" where
  "service_error_result err = from_failure (Underlying (underlying_failure.Service err))"

type_synonym complete_call = "(syscall_result \<Rightarrow> (unit, service_error) result) option"

definition finish_reply :: "complete_call \<Rightarrow> syscall_result \<Rightarrow> syscall_result" where
  "finish_reply complete reply =
     (case complete of
        None \<Rightarrow> service_error_result service_error.InvalidState
      | Some complete_current_call \<Rightarrow>
          (case complete_current_call reply of
             Inr _ \<Rightarrow> result_new 0 (0, 0, 0, 0, 0)
           | Inl err \<Rightarrow> service_error_result err))"

definition reply_ok :: "complete_call \<Rightarrow> syscall_args \<Rightarrow> syscall_result" where
  "reply_ok complete a = finish_reply complete (result_new 0 (args a))"

definition reply_object_error :: "complete_call \<Rightarrow> syscall_args \<Rightarrow> syscall_result" where
  "reply_object_error complete a =
     (case object_error_from_abi_code (fst (args a)) of
        None \<Rightarrow> service_error_result service_error.InvalidArgument
      | Some error \<Rightarrow> finish_reply complete (from_failure (Object error)))"

definition reply_underlying :: "complete_call \<Rightarrow> syscall_args \<Rightarrow> syscall_result" where
  "reply_underlying complete a =
     (case decode_underlying_failure (fst (args a)) (fst (snd (args a))) of
        Inl err \<Rightarrow> service_error_result err
      | Inr u \<Rightarrow> finish_reply complete (from_failure (Underlying u)))"

subsection \<open>Round trips\<close>

text \<open>C9: the failure that a caller decodes from a result frame is the one the kernel encoded, for
  every object error and every underlying error but those of services, on which the decoder panics.\<close>

theorem failure_roundtrip:
  "failure (from_failure f) =
     (case f of
        Object e \<Rightarrow> Returned (Some (Object e))
      | Underlying u \<Rightarrow>
          (case u of underlying_failure.Service e \<Rightarrow> Panicked | _ \<Rightarrow> Returned (Some (Underlying u))))"
  using failure_from_failure [of f]
  by (cases f) (auto simp: is_service_def split: underlying_failure.splits)

text \<open>C10: a service that replies with an underlying failure, in the encoding of \<open>to_parts\<close>, delivers
  exactly that failure, unless it is a service error, which the kernel rejects as an invalid argument.\<close>

theorem reply_underlying_delivers:
  "(case to_parts u of (kind, code, _) \<Rightarrow>
      reply_underlying complete (abi_service_reply_underlying kind code)) =
     (case u of
        underlying_failure.Service e \<Rightarrow> service_error_result service_error.InvalidArgument
      | _ \<Rightarrow> finish_reply complete (from_failure (Underlying u)))"
proof -
  obtain kind code detail where p: "to_parts u = (kind, code, detail)" by (metis prod_cases3)
  from decode_underlying_to_parts [OF p] p show ?thesis
    by (auto simp: reply_underlying_def abi_service_reply_underlying_def from_syscall_def args_new_def
        is_service_def split: underlying_failure.splits)
qed

text \<open>C11: a service that replies with an object error, in the frame its runtime builds, delivers the
  object error before the one it named, and the first object error is rejected: the frame carries the
  discriminant, which counts from 0, and the kernel decodes the ABI code, which counts from 1.\<close>

theorem reply_object_error_shifted:
  "reply_object_error complete (abi_service_reply_object_error e) =
     (case e of
        object_error.ObjectDestroyed \<Rightarrow> service_error_result service_error.InvalidArgument
      | object_error.InsufficientCapabilities \<Rightarrow>
          finish_reply complete (from_failure (Object object_error.ObjectDestroyed))
      | object_error.InvalidArgument \<Rightarrow>
          finish_reply complete (from_failure (Object object_error.InsufficientCapabilities))
      | object_error.ObjectNotFound \<Rightarrow>
          finish_reply complete (from_failure (Object object_error.InvalidArgument))
      | object_error.DangerousName \<Rightarrow>
          finish_reply complete (from_failure (Object object_error.ObjectNotFound))
      | object_error.DuplicateChildName \<Rightarrow>
          finish_reply complete (from_failure (Object object_error.DangerousName))
      | object_error.AgentHandleAlreadyExists \<Rightarrow>
          finish_reply complete (from_failure (Object object_error.DuplicateChildName)))"
  by (cases e)
    (simp_all add: reply_object_error_def abi_service_reply_object_error_def from_syscall_def
      args_new_def object_error_from_abi_code_def)

text \<open>The kernel decodes the number of a frame to the syscall the frame was built for, and no other
  number to it, and the arguments arrive unchanged.\<close>

lemma syscall_frame_decodes:
  "(syscall_try_from n = Some s \<longleftrightarrow> n = method_id (from_syscall s a)) \<and>
   args_from_words (args_to_words (from_syscall s a)) = from_syscall s a \<and> args (from_syscall s a) = a"
  by (simp add: syscall.try_from_Some_iff from_syscall_def args_new_def args_words_roundtrip)

end
