(* ===== verification/Segment_Tree.thy ===== *)
theory Segment_Tree
  imports Akarin_Prelude "HOL-Library.Monad_Syntax"
begin

text \<open>
  The dynamic segment tree of \<open>library/collections/src/tree/segment.rs\<close>: a lazily propagated,
  lazily allocated tree over a range of indices. The trait \<open>SegmentState\<close> is a record of its
  operations that every function takes, as the Rust code is generic in it. \<open>update_rec\<close> and
  \<open>query_rec\<close> recurse on the interval and not on the tree, so they are partial functions: the
  value \<^term>\<open>None\<close> stands for a call that does not return (it recurses forever or panics).

  The locale \<open>segment_state\<close> is the contract of the trait: a state summarises a list of cells,
  \<open>merge\<close> concatenates and \<open>apply\<close> fills. Under it, every call on an initialised tree returns,
  an update overwrites exactly its range and a query returns a summary of exactly its range.
\<close>

subsection \<open>Data\<close>

datatype segment_tree_error = IndexOutOfBounds | InvalidRange

record 's segment_ops =
  merge :: "'s \<Rightarrow> 's \<Rightarrow> 's"
  apply_lazy :: "'s \<Rightarrow> 's \<Rightarrow> nat \<Rightarrow> 's"
  default_state :: 's

datatype 's node = Node
  (val: 's)
  (lazy: "'s option")
  (left: "'s node option")
  (right: "'s node option")

definition node_new :: "'s \<Rightarrow> 's node" where
  "node_new v = Node v None None None"

record 's segment_tree =
  root :: "'s node option"
  dom_start :: nat
  dom_end :: nat

definition segment_tree_new :: "nat \<Rightarrow> nat \<Rightarrow> 's segment_tree" where
  "segment_tree_new s e = \<lparr>root = None, dom_start = s, dom_end = e\<rparr>"

subsection \<open>Operations\<close>

definition midpoint :: "nat \<Rightarrow> nat \<Rightarrow> nat" where
  "midpoint l r = l + (r - l) div 2"

definition child_or_default :: "'s segment_ops \<Rightarrow> 's node option \<Rightarrow> 's node" where
  "child_or_default T c = (case c of None \<Rightarrow> node_new (default_state T) | Some n \<Rightarrow> n)"

definition push_down :: "'s segment_ops \<Rightarrow> 's node \<Rightarrow> nat \<Rightarrow> nat \<Rightarrow> 's node" where
  "push_down T n l r =
     (case lazy n of
        None \<Rightarrow> n
      | Some z \<Rightarrow>
          let mid = midpoint l r;
              lv = val (child_or_default T (left n));
              rv = val (child_or_default T (right n))
          in Node (val n) None
               (Some (Node (apply_lazy T lv z (mid - l)) (Some z) None None))
               (Some (Node (apply_lazy T rv z (r - mid)) (Some z) None None)))"

definition push_up :: "'s segment_ops \<Rightarrow> 's node \<Rightarrow> 's node" where
  "push_up T n =
     (let left_val = (case left n of None \<Rightarrow> default_state T | Some c \<Rightarrow> val c);
          right_val = (case right n of None \<Rightarrow> default_state T | Some c \<Rightarrow> val c)
      in Node (merge T left_val right_val) (lazy n) (left n) (right n))"

partial_function (option) update_rec ::
  "'s segment_ops \<Rightarrow> 's node \<Rightarrow> nat \<Rightarrow> nat \<Rightarrow> nat \<Rightarrow> nat \<Rightarrow> 's \<Rightarrow> 's node option" where
  "update_rec T n l r ql qr v =
     (if ql \<le> l \<and> r \<le> qr then
        Some (Node (apply_lazy T (val n) v (r - l)) (Some v) None None)
      else do {
        let n1 = push_down T n l r;
        let mid = midpoint l r;
        lf \<leftarrow> (if ql < mid
               then do { c \<leftarrow> update_rec T (child_or_default T (left n1)) l mid ql qr v; Some (Some c) }
               else Some (left n1));
        rt \<leftarrow> (if mid < qr
               then do { c \<leftarrow> update_rec T (child_or_default T (right n1)) mid r ql qr v; Some (Some c) }
               else Some (right n1));
        Some (push_up T (Node (val n1) (lazy n1) lf rt))
      })"

partial_function (option) query_rec ::
  "'s segment_ops \<Rightarrow> 's node \<Rightarrow> nat \<Rightarrow> nat \<Rightarrow> nat \<Rightarrow> nat \<Rightarrow> ('s \<times> 's node) option" where
  "query_rec T n l r ql qr =
     (if ql \<le> l \<and> r \<le> qr then Some (val n, n)
      else do {
        let n1 = push_down T n l r;
        let mid = midpoint l r;
        (res_left, lf) \<leftarrow>
          (if ql < mid
           then (case left n1 of
                   None \<Rightarrow> Some (Some (default_state T), None)
                 | Some c \<Rightarrow> do { (s, c') \<leftarrow> query_rec T c l mid ql qr; Some (Some s, Some c') })
           else Some (None, left n1));
        (res_right, rt) \<leftarrow>
          (if mid < qr
           then (case right n1 of
                   None \<Rightarrow> Some (Some (default_state T), None)
                 | Some c \<Rightarrow> do { (s, c') \<leftarrow> query_rec T c mid r ql qr; Some (Some s, Some c') })
           else Some (None, right n1));
        let n2 = Node (val n1) (lazy n1) lf rt;
        (case (res_left, res_right) of
           (Some vl, Some vr) \<Rightarrow> Some (merge T vl vr, n2)
         | (Some vl, None) \<Rightarrow> Some (vl, n2)
         | (None, Some vr) \<Rightarrow> Some (vr, n2)
         | (None, None) \<Rightarrow> None)
      })"

definition range_invalid :: "'s segment_tree \<Rightarrow> nat \<Rightarrow> nat \<Rightarrow> bool" where
  "range_invalid t s e \<longleftrightarrow> s \<ge> e \<or> s < dom_start t \<or> e > dom_end t"

definition update :: "'s segment_ops \<Rightarrow> 's segment_tree \<Rightarrow> nat \<Rightarrow> nat \<Rightarrow> 's
    \<Rightarrow> ('s segment_tree, segment_tree_error) result option" where
  "update T t s e v =
     (if range_invalid t s e then Some (Err InvalidRange)
      else do {
        n \<leftarrow> update_rec T (child_or_default T (root t)) (dom_start t) (dom_end t) s e v;
        Some (Ok (t\<lparr>root := Some n\<rparr>))
      })"

definition query :: "'s segment_ops \<Rightarrow> 's segment_tree \<Rightarrow> nat \<Rightarrow> nat
    \<Rightarrow> ('s \<times> 's segment_tree, segment_tree_error) result option" where
  "query T t s e =
     (if range_invalid t s e then Some (Err InvalidRange)
      else (case root t of
          None \<Rightarrow> Some (Ok (default_state T, t))
        | Some n \<Rightarrow> do {
            (res, n') \<leftarrow> query_rec T n (dom_start t) (dom_end t) s e;
            Some (Ok (res, t\<lparr>root := Some n'\<rparr>))
          }))"

subsection \<open>What a tree represents\<close>

text \<open>
  A node over the interval from \<open>l\<close> to \<open>r\<close> represents the cells \<open>f l, \<dots>, f (r - 1)\<close>: its
  value summarises them, and it either carries a pending fill that made all of them equal or has
  both children, which represent the two halves.
\<close>

inductive represents ::
  "('s \<Rightarrow> 'c list \<Rightarrow> bool) \<Rightarrow> ('s \<Rightarrow> 'c option) \<Rightarrow> (nat \<Rightarrow> 'c) \<Rightarrow> 's node \<Rightarrow> nat \<Rightarrow> nat \<Rightarrow> bool"
  for summ fill f where
  pending: "l < r \<Longrightarrow> summ v (map f [l..<r]) \<Longrightarrow> fill z = Some c \<Longrightarrow>
    (\<forall>i. l \<le> i \<and> i < r \<longrightarrow> f i = c) \<Longrightarrow> represents summ fill f (Node v (Some z) lf rt) l r"
| split: "l < mid \<Longrightarrow> mid < r \<Longrightarrow> mid = midpoint l r \<Longrightarrow> summ v (map f [l..<r]) \<Longrightarrow>
    represents summ fill f a l mid \<Longrightarrow> represents summ fill f b mid r \<Longrightarrow>
    represents summ fill f (Node v None (Some a) (Some b)) l r"

inductive_cases represents_pendingE: "represents summ fill f (Node v (Some z) lf rt) l r"
inductive_cases represents_splitE: "represents summ fill f (Node v None lf rt) l r"

definition overwrite :: "(nat \<Rightarrow> 'c) \<Rightarrow> nat \<Rightarrow> nat \<Rightarrow> 'c \<Rightarrow> nat \<Rightarrow> 'c" where
  "overwrite f s e c = (\<lambda>i. if s \<le> i \<and> i < e then c else f i)"

definition tree_represents ::
  "('s \<Rightarrow> 'c list \<Rightarrow> bool) \<Rightarrow> ('s \<Rightarrow> 'c option) \<Rightarrow> (nat \<Rightarrow> 'c) \<Rightarrow> 's segment_tree \<Rightarrow> bool" where
  "tree_represents summ fill f t \<longleftrightarrow>
     (\<exists>n. root t = Some n \<and> represents summ fill f n (dom_start t) (dom_end t))"

lemma represents_less: "represents summ fill f n l r \<Longrightarrow> l < r"
  by (induction rule: represents.induct) auto

lemma represents_summ: "represents summ fill f n l r \<Longrightarrow> summ (val n) (map f [l..<r])"
  by (induction rule: represents.induct) auto

lemma represents_cong:
  "represents summ fill f n l r \<Longrightarrow> (\<forall>i. l \<le> i \<and> i < r \<longrightarrow> f i = g i) \<Longrightarrow> represents summ fill g n l r"
proof (induction rule: represents.induct)
  case (pending l r v z c lf rt)
  then have "map f [l..<r] = map g [l..<r]" by simp
  with pending show ?case by (auto intro!: represents.pending)
next
  case (split l mid r v a b)
  then have "map f [l..<r] = map g [l..<r]" by simp
  with split show ?case by (auto intro!: represents.split)
qed

lemma midpoint_bounds: "1 < r - l \<Longrightarrow> l < midpoint l r \<and> midpoint l r < r"
  by (auto simp: midpoint_def)

lemma map_upt_split: "l \<le> m \<Longrightarrow> m \<le> r \<Longrightarrow> map f [l..<r] = map f [l..<m] @ map f [m..<r]"
  by (metis le_Suc_ex map_append upt_add_eq_append)

subsection \<open>The contract of the trait and the correctness of the tree\<close>

locale segment_state =
  fixes T :: "'s segment_ops"
    and summ :: "'s \<Rightarrow> 'c list \<Rightarrow> bool"
    and fill :: "'s \<Rightarrow> 'c option"
  assumes merge_summ: "summ a xs \<Longrightarrow> summ b ys \<Longrightarrow> summ (merge T a b) (xs @ ys)"
    and apply_summ: "fill z = Some c \<Longrightarrow> 0 < n \<Longrightarrow> summ (apply_lazy T s z n) (replicate n c)"
begin

abbreviation rep :: "(nat \<Rightarrow> 'c) \<Rightarrow> 's node \<Rightarrow> nat \<Rightarrow> nat \<Rightarrow> bool" where
  "rep \<equiv> represents summ fill"

lemma apply_summ_interval:
  assumes "fill z = Some c" and "l < r" and "\<forall>i. l \<le> i \<and> i < r \<longrightarrow> f i = c"
  shows "summ (apply_lazy T s z (r - l)) (map f [l..<r])"
proof -
  have "map f [l..<r] = replicate (r - l) c"
    using assms(3) by (intro replicate_eqI) auto
  with apply_summ [OF assms(1), of "r - l" s] assms(2) show ?thesis by simp
qed

lemma covered_rep:
  assumes "fill v = Some c" and "l < r" and "ql \<le> l" and "r \<le> qr"
  shows "rep (overwrite f ql qr c) (Node (apply_lazy T s v (r - l)) (Some v) None None) l r"
  using assms by (intro represents.pending apply_summ_interval) (auto simp: overwrite_def)

text \<open>Pushing the pending fill down exposes two children that represent the halves.\<close>

lemma push_down_split:
  assumes n: "rep f n l r" and w: "1 < r - l"
  shows "\<exists>a b. push_down T n l r = Node (val n) None (Some a) (Some b)
    \<and> rep f a l (midpoint l r) \<and> rep f b (midpoint l r) r"
  using n
proof (cases rule: represents.cases)
  case (pending v z c lf rt)
  note m = midpoint_bounds [OF w]
  have "rep f (Node (apply_lazy T x z (midpoint l r - l)) (Some z) None None) l (midpoint l r)" for x
    using m pending by (intro represents.pending apply_summ_interval) auto
  moreover have "rep f (Node (apply_lazy T x z (r - midpoint l r)) (Some z) None None) (midpoint l r) r" for x
    using m pending by (intro represents.pending apply_summ_interval) auto
  ultimately show ?thesis
    using pending by (simp add: push_down_def Let_def)
next
  case (split mid v a b)
  then show ?thesis by (simp add: push_down_def)
qed

lemma push_up_rep:
  assumes "rep f a l mid" and "rep f b mid r" and "mid = midpoint l r"
  shows "rep f (push_up T (Node v None (Some a) (Some b))) l r"
proof -
  have lm: "l < mid" "mid < r"
    using assms represents_less by metis+
  have "summ (merge T (val a) (val b)) (map f [l..<mid] @ map f [mid..<r])"
    using assms by (intro merge_summ represents_summ)
  then show ?thesis
    using assms lm map_upt_split [of l mid r f]
    by (auto simp: push_up_def intro!: represents.split)
qed

lemma update_rec_rep:
  assumes "rep f n l r" and "ql < qr" and "ql < r" and "l < qr" and v: "fill v = Some c"
  shows "\<exists>n'. update_rec T n l r ql qr v = Some n' \<and> rep (overwrite f ql qr c) n' l r"
  using assms(1-4)
proof (induction "r - l" arbitrary: n l r rule: less_induct)
  case less
  note lr = represents_less [OF less.prems(1)]
  show ?case
  proof (cases "ql \<le> l \<and> r \<le> qr")
    case True
    then show ?thesis
      using covered_rep [OF v lr] by (subst update_rec.simps) auto
  next
    case False
    with less.prems lr have w: "1 < r - l" by linarith
    let ?m = "midpoint l r"
    note m = midpoint_bounds [OF w]
    obtain a b where pd: "push_down T n l r = Node (val n) None (Some a) (Some b)"
      and a: "rep f a l ?m" and b: "rep f b ?m r"
      using push_down_split [OF less.prems(1) w] by blast
    have "\<exists>a'. (if ql < ?m then do { c \<leftarrow> update_rec T a l ?m ql qr v; Some (Some c) } else Some (Some a))
        = Some (Some a') \<and> rep (overwrite f ql qr c) a' l ?m"
    proof (cases "ql < ?m")
      case True
      with less.hyps [of ?m l a] a m w less.prems show ?thesis by fastforce
    next
      case False
      then show ?thesis
        using a by (auto intro!: represents_cong [OF a] simp: overwrite_def)
    qed
    then obtain a' where a': "(if ql < ?m then do { c \<leftarrow> update_rec T a l ?m ql qr v; Some (Some c) } else Some (Some a))
        = Some (Some a')" "rep (overwrite f ql qr c) a' l ?m" by blast
    have "\<exists>b'. (if ?m < qr then do { c \<leftarrow> update_rec T b ?m r ql qr v; Some (Some c) } else Some (Some b))
        = Some (Some b') \<and> rep (overwrite f ql qr c) b' ?m r"
    proof (cases "?m < qr")
      case True
      with less.hyps [of r ?m b] b m w less.prems show ?thesis by fastforce
    next
      case False
      then show ?thesis
        using b by (auto intro!: represents_cong [OF b] simp: overwrite_def)
    qed
    then obtain b' where b': "(if ?m < qr then do { c \<leftarrow> update_rec T b ?m r ql qr v; Some (Some c) } else Some (Some b))
        = Some (Some b')" "rep (overwrite f ql qr c) b' ?m r" by blast
    have "update_rec T n l r ql qr v = Some (push_up T (Node (val n) None (Some a') (Some b')))"
      unfolding update_rec.simps [of T n] if_not_P [OF False]
      using a'(1) b'(1)
      by (auto simp: Let_def pd child_or_default_def split: if_splits Option.bind_splits)
    with push_up_rep [OF a'(2) b'(2)] show ?thesis by simp
  qed
qed

text \<open>A query returns a summary of the cells of its range inside the node, and keeps what the
  node represents although it pushes pending fills down on its way.\<close>

lemma query_rec_rep:
  assumes "rep f n l r" and "ql < qr" and "ql < r" and "l < qr"
  shows "\<exists>s n'. query_rec T n l r ql qr = Some (s, n') \<and> rep f n' l r
    \<and> summ s (map f [max l ql..<min r qr])"
  using assms
proof (induction "r - l" arbitrary: n l r rule: less_induct)
  case less
  note lr = represents_less [OF less.prems(1)]
  show ?case
  proof (cases "ql \<le> l \<and> r \<le> qr")
    case True
    then show ?thesis
      using represents_summ [OF less.prems(1)] less.prems(1)
      by (subst query_rec.simps) (auto simp: max_def min_def)
  next
    case False
    with less.prems lr have w: "1 < r - l" by linarith
    let ?m = "midpoint l r"
    note m = midpoint_bounds [OF w]
    obtain a b where pd: "push_down T n l r = Node (val n) None (Some a) (Some b)"
      and a: "rep f a l ?m" and b: "rep f b ?m r"
      using push_down_split [OF less.prems(1) w] by blast
    have v: "summ (val n) (map f [l..<r])"
      using represents_summ [OF less.prems(1)] .
    have node: "rep f (Node (val n) None (Some x) (Some y)) l r"
      if "rep f x l ?m" and "rep f y ?m r" for x y
      using that m v by (intro represents.split) auto
    have L: "\<exists>s a'. query_rec T a l ?m ql qr = Some (s, a') \<and> rep f a' l ?m
        \<and> summ s (map f [max l ql..<min ?m qr])" if "ql < ?m"
      using that less.hyps [of ?m l a] a m less.prems by auto
    have R: "\<exists>s b'. query_rec T b ?m r ql qr = Some (s, b') \<and> rep f b' ?m r
        \<and> summ s (map f [max ?m ql..<min r qr])" if "?m < qr"
      using that less.hyps [of r ?m b] b m less.prems by auto
    consider (both) "ql < ?m" "?m < qr" | (lo) "ql < ?m" "\<not> ?m < qr" | (hi) "\<not> ql < ?m" "?m < qr"
      using less.prems by linarith
    then show ?thesis
    proof cases
      case both
      with L R obtain s a' t b' where
        s: "query_rec T a l ?m ql qr = Some (s, a')" "rep f a' l ?m" "summ s (map f [max l ql..<?m])" and
        t: "query_rec T b ?m r ql qr = Some (t, b')" "rep f b' ?m r" "summ t (map f [?m..<min r qr])"
        by (fastforce simp: max_def min_def)
      have "summ (merge T s t) (map f [max l ql..<min r qr])"
        using merge_summ [OF s(3) t(3)] both m map_upt_split [of "max l ql" ?m "min r qr" f] by simp
      moreover have "query_rec T n l r ql qr = Some (merge T s t, Node (val n) None (Some a') (Some b'))"
        unfolding query_rec.simps [of T n] if_not_P [OF False]
        using both s t by (simp add: Let_def pd)
      ultimately show ?thesis using node s t by blast
    next
      case lo
      with L obtain s a' where
        s: "query_rec T a l ?m ql qr = Some (s, a')" "rep f a' l ?m" "summ s (map f [max l ql..<min ?m qr])"
        by blast
      have "query_rec T n l r ql qr = Some (s, Node (val n) None (Some a') (Some b))"
        unfolding query_rec.simps [of T n] if_not_P [OF False]
        using lo s by (simp add: Let_def pd)
      moreover have "min ?m qr = min r qr" using lo m by simp
      ultimately show ?thesis using node s b by auto
    next
      case hi
      with R obtain t b' where
        t: "query_rec T b ?m r ql qr = Some (t, b')" "rep f b' ?m r" "summ t (map f [max ?m ql..<min r qr])"
        by blast
      have "query_rec T n l r ql qr = Some (t, Node (val n) None (Some a) (Some b'))"
        unfolding query_rec.simps [of T n] if_not_P [OF False]
        using hi t by (simp add: Let_def pd)
      moreover have "max ?m ql = max l ql" using hi m by simp
      ultimately show ?thesis using node t a by auto
    qed
  qed
qed

abbreviation tree_rep :: "(nat \<Rightarrow> 'c) \<Rightarrow> 's segment_tree \<Rightarrow> bool" where
  "tree_rep \<equiv> tree_represents summ fill"

text \<open>An update of an initialised tree returns and overwrites exactly its range.\<close>

lemma update_tree_rep:
  assumes "tree_rep f t" and "fill v = Some c" and "s < e" and "dom_start t \<le> s" and "e \<le> dom_end t"
  shows "\<exists>t'. update T t s e v = Some (Ok t') \<and> tree_rep (overwrite f s e c) t'
    \<and> dom_start t' = dom_start t \<and> dom_end t' = dom_end t"
proof -
  obtain n where n: "root t = Some n" "rep f n (dom_start t) (dom_end t)"
    using assms(1) by (auto simp: tree_represents_def)
  from update_rec_rep [OF n(2), of s e v c] assms
  obtain n' where "update_rec T n (dom_start t) (dom_end t) s e v = Some n'"
    "rep (overwrite f s e c) n' (dom_start t) (dom_end t)" by auto
  with assms n show ?thesis
    by (auto simp: update_def range_invalid_def child_or_default_def tree_represents_def)
qed

text \<open>The first update, when it covers the whole domain, initialises the tree.\<close>

lemma update_init_rep:
  assumes "root t = None" and "fill v = Some c" and "dom_start t < dom_end t"
  shows "\<exists>t'. update T t (dom_start t) (dom_end t) v = Some (Ok t') \<and> tree_rep (\<lambda>_. c) t'
    \<and> dom_start t' = dom_start t \<and> dom_end t' = dom_end t"
proof -
  have "rep (\<lambda>_. c) (Node (apply_lazy T s v (dom_end t - dom_start t)) (Some v) None None)
      (dom_start t) (dom_end t)" for s
    using assms by (intro represents.pending apply_summ_interval) auto
  with assms show ?thesis
    by (auto simp: update_def range_invalid_def tree_represents_def update_rec.simps)
qed

lemma query_tree_rep:
  assumes "tree_rep f t" and "s < e" and "dom_start t \<le> s" and "e \<le> dom_end t"
  shows "\<exists>v t'. query T t s e = Some (Ok (v, t')) \<and> summ v (map f [s..<e]) \<and> tree_rep f t'
    \<and> dom_start t' = dom_start t \<and> dom_end t' = dom_end t"
proof -
  obtain n where n: "root t = Some n" "rep f n (dom_start t) (dom_end t)"
    using assms(1) by (auto simp: tree_represents_def)
  from query_rec_rep [OF n(2), of s e] assms
  obtain v n' where "query_rec T n (dom_start t) (dom_end t) s e = Some (v, n')"
    "rep f n' (dom_start t) (dom_end t)" "summ v (map f [s..<e])"
    by (auto simp: max_def min_def split: if_splits)
  with assms n show ?thesis
    by (auto simp: query_def range_invalid_def tree_represents_def)
qed

end

end
