(* ===== verification/BTree_Map.thy ===== *)
theory BTree_Map
  imports Akarin_Prelude
begin

text \<open>
  The part of \<open>alloc::collections::BTreeMap\<close> that the sources use, as association lists in
  strictly ascending key order: \<open>get\<close>, \<open>insert\<close>, \<open>remove\<close>, \<open>values\<close> and
  \<open>range(..=k).next_back()\<close>. The locale \<open>ordered_map\<close> states what the clients rely on.
\<close>

type_synonym ('k, 'v) btree = "('k \<times> 'v) list"

definition bt_wf :: "('k::linorder, 'v) btree \<Rightarrow> bool" where
  "bt_wf m \<longleftrightarrow> sorted_wrt (<) (map fst m)"

definition bt_get :: "('k, 'v) btree \<Rightarrow> 'k \<Rightarrow> 'v option" where
  "bt_get m k = map_of m k"

fun bt_insert :: "'k::linorder \<Rightarrow> 'v \<Rightarrow> ('k, 'v) btree \<Rightarrow> ('k, 'v) btree" where
  "bt_insert k v [] = [(k, v)]"
| "bt_insert k v ((k', v') # m) =
     (if k < k' then (k, v) # (k', v') # m
      else if k = k' then (k, v) # m
      else (k', v') # bt_insert k v m)"

definition bt_remove :: "'k \<Rightarrow> ('k, 'v) btree \<Rightarrow> ('k, 'v) btree" where
  "bt_remove k m = filter (\<lambda>e. fst e \<noteq> k) m"

definition bt_last_le :: "('k::linorder, 'v) btree \<Rightarrow> 'k \<Rightarrow> ('k \<times> 'v) option" where
  "bt_last_le m k =
     (case filter (\<lambda>e. fst e \<le> k) m of [] \<Rightarrow> None | es \<Rightarrow> Some (last es))"

definition bt_values :: "('k, 'v) btree \<Rightarrow> 'v list" where
  "bt_values m = map snd m"

lemma bt_wf_Nil [simp]: "bt_wf []"
  by (simp add: bt_wf_def)

lemma bt_wf_distinct: "bt_wf m \<Longrightarrow> distinct (map fst m)"
  unfolding bt_wf_def using strict_sorted_iff by blast

lemma bt_get_insert: "bt_get (bt_insert k v m) k' = (if k' = k then Some v else bt_get m k')"
  by (induction k v m rule: bt_insert.induct) (auto simp: bt_get_def)

lemma bt_insert_keys: "fst ` set (bt_insert k v m) = insert k (fst ` set m)"
  by (induction k v m rule: bt_insert.induct) auto

lemma bt_wf_insert: "bt_wf m \<Longrightarrow> bt_wf (bt_insert k v m)"
proof (induction k v m rule: bt_insert.induct)
  case (2 k v k' v' m)
  have keys: "fst ` set (bt_insert k v m) = insert k (fst ` set m)"
    by (rule bt_insert_keys)
  have "bt_wf m" using "2.prems" by (simp add: bt_wf_def)
  moreover have "\<forall>x \<in> fst ` set m. k' < x"
    using "2.prems" by (simp add: bt_wf_def)
  ultimately show ?case
    using 2 keys by (force simp: bt_wf_def)
qed (simp add: bt_wf_def)

lemma bt_get_remove: "bt_get (bt_remove k m) k' = (if k' = k then None else bt_get m k')"
  by (induction m) (auto simp: bt_get_def bt_remove_def)

lemma bt_wf_remove: "bt_wf m \<Longrightarrow> bt_wf (bt_remove k m)"
  by (auto simp: bt_wf_def bt_remove_def sorted_wrt_map sorted_wrt_filter)

lemma bt_get_Some_iff: "bt_wf m \<Longrightarrow> bt_get m k = Some v \<longleftrightarrow> (k, v) \<in> set m"
  by (simp add: bt_get_def bt_wf_distinct)

lemma bt_last_le_None: "bt_last_le m k = None \<longleftrightarrow> (\<forall>k' v. (k', v) \<in> set m \<longrightarrow> k < k')"
proof -
  have "bt_last_le m k = None \<longleftrightarrow> filter (\<lambda>e. fst e \<le> k) m = []"
    by (simp add: bt_last_le_def split: list.splits)
  then show ?thesis
    by (auto simp: filter_empty_conv not_le)
qed

lemma bt_last_le_Some:
  assumes wf: "bt_wf m" and le: "bt_last_le m k = Some (k0, v)"
  shows "(k0, v) \<in> set m" "k0 \<le> k" "\<And>k' v'. (k', v') \<in> set m \<Longrightarrow> k' \<le> k \<Longrightarrow> k' \<le> k0"
proof -
  let ?es = "filter (\<lambda>e. fst e \<le> k) m"
  from le have ne: "?es \<noteq> []" and l: "last ?es = (k0, v)"
    by (auto simp: bt_last_le_def split: list.splits)
  from ne l have mem: "(k0, v) \<in> set ?es"
    by (metis last_in_set)
  then show "(k0, v) \<in> set m" and "k0 \<le> k" by auto
  have s: "sorted (map fst ?es)"
    using wf strict_sorted_imp_sorted [of "map fst ?es"]
    by (simp add: bt_wf_def sorted_wrt_map sorted_wrt_filter)
  show "k' \<le> k0" if "(k', v') \<in> set m" "k' \<le> k" for k' v'
  proof -
    from that have "k' \<in> set (map fst ?es)" by force
    then obtain i where i: "i < length ?es" "k' = map fst ?es ! i"
      by (metis in_set_conv_nth length_map)
    moreover have "map fst ?es ! i \<le> map fst ?es ! (length ?es - 1)"
      using s i by (intro sorted_nth_mono) auto
    ultimately show ?thesis
      using ne l by (simp add: last_conv_nth)
  qed
qed

subsection \<open>The interface\<close>

locale ordered_map =
  fixes inv :: "'m \<Rightarrow> bool"
    and get :: "'m \<Rightarrow> 'k::linorder \<Rightarrow> 'v option"
    and insert :: "'k \<Rightarrow> 'v \<Rightarrow> 'm \<Rightarrow> 'm"
    and remove :: "'k \<Rightarrow> 'm \<Rightarrow> 'm"
    and last_le :: "'m \<Rightarrow> 'k \<Rightarrow> ('k \<times> 'v) option"
  assumes get_insert: "inv m \<Longrightarrow> get (insert k v m) k' = (if k' = k then Some v else get m k')"
    and get_remove: "inv m \<Longrightarrow> get (remove k m) k' = (if k' = k then None else get m k')"
    and inv_insert: "inv m \<Longrightarrow> inv (insert k v m)"
    and inv_remove: "inv m \<Longrightarrow> inv (remove k m)"
    and last_le_None: "inv m \<Longrightarrow> last_le m k = None \<longleftrightarrow> (\<forall>k'. k' \<le> k \<longrightarrow> get m k' = None)"
    and last_le_Some: "inv m \<Longrightarrow> last_le m k = Some (k0, v) \<longleftrightarrow>
      get m k0 = Some v \<and> k0 \<le> k \<and> (\<forall>k'. k' \<le> k \<longrightarrow> get m k' \<noteq> None \<longrightarrow> k' \<le> k0)"
begin

text \<open>A floor lookup finds a present key when nothing lies between it and the probe.\<close>

lemma last_le_floor:
  assumes "inv m" and "get m k0 = Some v" and "k0 \<le> k"
    and "\<And>k'. k0 < k' \<Longrightarrow> k' \<le> k \<Longrightarrow> get m k' = None"
  shows "last_le m k = Some (k0, v)"
proof -
  have "k' \<le> k0" if "k' \<le> k" "get m k' \<noteq> None" for k'
    using assms(4) [of k'] that by (meson not_le)
  then show ?thesis
    using assms(1-3) by (simp add: last_le_Some)
qed

lemma get_insert_same: "inv m \<Longrightarrow> get (insert k v m) k = Some v"
  by (simp add: get_insert)

end

interpretation bt: ordered_map bt_wf bt_get bt_insert bt_remove bt_last_le
proof
  fix m :: "('a::linorder, 'b) btree" and k k' v k0
  assume wf: "bt_wf m"
  show "bt_get (bt_insert k v m) k' = (if k' = k then Some v else bt_get m k')"
    by (rule bt_get_insert)
  show "bt_get (bt_remove k m) k' = (if k' = k then None else bt_get m k')"
    by (rule bt_get_remove)
  show "bt_wf (bt_insert k v m)" using wf by (rule bt_wf_insert)
  show "bt_wf (bt_remove k m)" using wf by (rule bt_wf_remove)
  show "bt_last_le m k = None \<longleftrightarrow> (\<forall>k'. k' \<le> k \<longrightarrow> bt_get m k' = None)"
  proof -
    have "bt_get m k' = None \<longleftrightarrow> (\<forall>v. (k', v) \<notin> set m)" for k'
      using bt_get_Some_iff [OF wf, of k'] by (metis not_None_eq)
    then show ?thesis
      unfolding bt_last_le_None by (metis not_le)
  qed
  show "bt_last_le m k = Some (k0, v) \<longleftrightarrow>
      bt_get m k0 = Some v \<and> k0 \<le> k \<and> (\<forall>k'. k' \<le> k \<longrightarrow> bt_get m k' \<noteq> None \<longrightarrow> k' \<le> k0)"
    (is "?L \<longleftrightarrow> ?R")
  proof
    assume ?L
    note f = bt_last_le_Some [OF wf this]
    have "k' \<le> k0" if "k' \<le> k" "bt_get m k' \<noteq> None" for k'
      using f(3) [of k'] that bt_get_Some_iff [OF wf, of k'] by auto
    then show ?R
      using f(1,2) bt_get_Some_iff [OF wf, of k0 v] by simp
  next
    assume R: ?R
    then have "(k0, v) \<in> set m" "\<not> k < k0"
      using bt_get_Some_iff [OF wf] by auto
    then obtain k1 v1 where l: "bt_last_le m k = Some (k1, v1)"
      using bt_last_le_None [of m k] by (metis not_None_eq surj_pair)
    note f = bt_last_le_Some [OF wf l]
    have "k1 = k0"
    proof (rule order_antisym)
      show "k1 \<le> k0"
        using R f(1,2) bt_get_Some_iff [OF wf, of k1 v1] by simp
      show "k0 \<le> k1"
        using R f(3) [of k0 v] bt_get_Some_iff [OF wf, of k0 v] by simp
    qed
    moreover from this have "v1 = v"
      using R f(1) bt_get_Some_iff [OF wf, of k1 v1] by simp
    ultimately show ?L
      using l by simp
  qed
qed

end
