(* ===== verification/Vm_Flags.thy ===== *)
theory Vm_Flags
  imports Akarin_Prelude
begin

text \<open>
  The flag sets of the memory subsystem: \<open>MMUFlags\<close> and \<open>CachePolicy\<close> of
  \<open>machine/src/memory/paging.rs\<close> and \<open>VmFlags\<close> of \<open>core/src/memory/vmflags.rs\<close>, whose low
  half mirrors the MMU flags. The lemmas show that the cache policy survives a round trip, that it
  plays no part in access checks and that access checks are a preorder.
\<close>

subsection \<open>MMU flags and the cache policy\<close>

type_synonym mmu_flags = u16
type_synonym vm_flags = u32

definition MMU_CACHE_1 :: mmu_flags where "MMU_CACHE_1 = 0x1"
definition MMU_CACHE_2 :: mmu_flags where "MMU_CACHE_2 = 0x2"
definition MMU_READ :: mmu_flags where "MMU_READ = 0x4"
definition MMU_WRITE :: mmu_flags where "MMU_WRITE = 0x8"
definition MMU_EXECUTE :: mmu_flags where "MMU_EXECUTE = 0x10"
definition MMU_USER :: mmu_flags where "MMU_USER = 0x20"
definition MMU_HUGE_PAGE :: mmu_flags where "MMU_HUGE_PAGE = 0x40"
definition MMU_DEVICE :: mmu_flags where "MMU_DEVICE = 0x80"
definition MMU_GLOBAL :: mmu_flags where "MMU_GLOBAL = 0x100"

lemmas mmu_flag_defs [bits_simps] =
  MMU_CACHE_1_def MMU_CACHE_2_def MMU_READ_def MMU_WRITE_def MMU_EXECUTE_def MMU_USER_def
  MMU_HUGE_PAGE_def MMU_DEVICE_def MMU_GLOBAL_def

definition mmu_all :: mmu_flags where
  "mmu_all = MMU_CACHE_1 OR MMU_CACHE_2 OR MMU_READ OR MMU_WRITE OR MMU_EXECUTE OR MMU_USER
     OR MMU_HUGE_PAGE OR MMU_DEVICE OR MMU_GLOBAL"

definition mmu_from_bits_truncate :: "u16 \<Rightarrow> mmu_flags" where
  "mmu_from_bits_truncate bits = flags_from_bits_truncate mmu_all bits"

datatype cache_policy = Cached | Uncached | UncachedDevice | WriteCombining

primrec cache_policy_code :: "cache_policy \<Rightarrow> u16" where
  "cache_policy_code Cached = 0"
| "cache_policy_code Uncached = 1"
| "cache_policy_code UncachedDevice = 2"
| "cache_policy_code WriteCombining = 3"

text \<open>The last arm of the source is \<open>unreachable!()\<close>: two bits have four values.\<close>

definition mmu_cache_policy :: "mmu_flags \<Rightarrow> cache_policy" where
  "mmu_cache_policy self =
     (if self AND 3 = 0 then Cached
      else if self AND 3 = 1 then Uncached
      else if self AND 3 = 2 then UncachedDevice
      else WriteCombining)"

definition mmu_set_cache_policy :: "mmu_flags \<Rightarrow> cache_policy \<Rightarrow> mmu_flags" where
  "mmu_set_cache_policy self policy =
     mmu_from_bits_truncate ((self AND NOT 3) OR cache_policy_code policy)"

subsection \<open>VM flags\<close>

definition VM_FLAG_READ :: vm_flags where "VM_FLAG_READ = ucast MMU_READ"
definition VM_FLAG_WRITE :: vm_flags where "VM_FLAG_WRITE = ucast MMU_WRITE"
definition VM_FLAG_EXECUTE :: vm_flags where "VM_FLAG_EXECUTE = ucast MMU_EXECUTE"
definition VM_FLAG_USER :: vm_flags where "VM_FLAG_USER = ucast MMU_USER"
definition VM_FLAG_HUGE_PAGE :: vm_flags where "VM_FLAG_HUGE_PAGE = ucast MMU_HUGE_PAGE"
definition VM_FLAG_DEVICE :: vm_flags where "VM_FLAG_DEVICE = ucast MMU_DEVICE"
definition VM_FLAG_GLOBAL :: vm_flags where "VM_FLAG_GLOBAL = ucast MMU_GLOBAL"
definition VM_FLAG_MAP :: vm_flags where "VM_FLAG_MAP = 0x10000"
definition VM_FLAG_PIN :: vm_flags where "VM_FLAG_PIN = 0x20000"
definition VM_FLAG_RESIZABLE :: vm_flags where "VM_FLAG_RESIZABLE = 0x40000"
definition VM_FLAG_CONTIGUOUS :: vm_flags where "VM_FLAG_CONTIGUOUS = 0x80000"
definition VM_FLAG_PHYSICAL :: vm_flags where "VM_FLAG_PHYSICAL = 0x100000"

lemmas vm_flag_defs [bits_simps] =
  VM_FLAG_READ_def VM_FLAG_WRITE_def VM_FLAG_EXECUTE_def VM_FLAG_USER_def VM_FLAG_HUGE_PAGE_def
  VM_FLAG_DEVICE_def VM_FLAG_GLOBAL_def VM_FLAG_MAP_def VM_FLAG_PIN_def VM_FLAG_RESIZABLE_def
  VM_FLAG_CONTIGUOUS_def VM_FLAG_PHYSICAL_def

definition vm_flags_all :: vm_flags where
  "vm_flags_all = ucast mmu_all OR VM_FLAG_MAP OR VM_FLAG_PIN OR VM_FLAG_RESIZABLE
     OR VM_FLAG_CONTIGUOUS OR VM_FLAG_PHYSICAL"

definition vm_flags_from_bits :: "u32 \<Rightarrow> vm_flags option" where
  "vm_flags_from_bits bits = flags_from_bits vm_flags_all bits"

definition MMU_LOW_MASK :: u32 where "MMU_LOW_MASK = 0xFFFF"

definition VM_ACCESS_MASK :: u32 where
  "VM_ACCESS_MASK = ucast MMU_READ OR ucast MMU_WRITE OR ucast MMU_EXECUTE OR ucast MMU_USER
     OR ucast MMU_HUGE_PAGE OR ucast MMU_DEVICE OR ucast MMU_GLOBAL"

definition vm_mmu_flags :: "vm_flags \<Rightarrow> mmu_flags" where
  "vm_mmu_flags self = mmu_from_bits_truncate (ucast (self AND MMU_LOW_MASK))"

definition extension_bits :: "vm_flags \<Rightarrow> u16" where
  "extension_bits self = ucast (drop_bit 16 self)"

definition from_mmu_flags :: "mmu_flags \<Rightarrow> vm_flags" where
  "from_mmu_flags flags = ucast flags"

definition vm_cache_policy :: "vm_flags \<Rightarrow> cache_policy" where
  "vm_cache_policy self = mmu_cache_policy (vm_mmu_flags self)"

definition with_cache_policy :: "vm_flags \<Rightarrow> cache_policy \<Rightarrow> vm_flags" where
  "with_cache_policy self policy =
     (let mmu = mmu_set_cache_policy (vm_mmu_flags self) policy
      in (self AND NOT MMU_LOW_MASK) OR ucast mmu)"

definition allows_mmu :: "vm_flags \<Rightarrow> vm_flags \<Rightarrow> bool" where
  "allows_mmu self requested \<longleftrightarrow>
     (self AND VM_ACCESS_MASK AND requested) = (requested AND VM_ACCESS_MASK)"

subsection \<open>Bits\<close>

lemma word_bit_eq: "a = b \<longleftrightarrow> (\<forall>n. bit a n = bit b n)" for a b :: "'a::len word"
  by (metis bit_word_eqI)

lemma mmu_all_mask: "mmu_all = mask 9"
  by (simp add: mmu_all_def bits_simps mask_eq_exp_minus_1)

lemma MMU_LOW_MASK_mask: "MMU_LOW_MASK = mask 16"
  by (simp add: MMU_LOW_MASK_def mask_eq_exp_minus_1)

lemma VM_ACCESS_MASK_value: "VM_ACCESS_MASK = 508"
  by (simp add: VM_ACCESS_MASK_def bits_simps)

lemma VM_ACCESS_MASK_mask: "VM_ACCESS_MASK = push_bit 2 (mask 7)"
  by (simp add: VM_ACCESS_MASK_value mask_eq_exp_minus_1 push_bit_eq_mult)

lemma bit_vm_access: "bit VM_ACCESS_MASK n \<longleftrightarrow> 2 \<le> n \<and> n < 9"
  by (auto simp: VM_ACCESS_MASK_mask bit_simps)

lemma bit_two_mask: "bit (3 :: u16) n \<longleftrightarrow> n < 2"
proof -
  have "(3 :: u16) = mask 2" by (simp add: mask_eq_exp_minus_1)
  then have "bit (3 :: u16) n \<longleftrightarrow> n < LENGTH(16) \<and> n < 2"
    by (simp only: bit_mask_iff possible_bit_word)
  then show ?thesis by auto
qed

lemma bit_two_mask_int: "bit (3 :: int) n \<longleftrightarrow> n < 2"
proof -
  have "(3 :: int) = mask 2" by (simp add: mask_eq_exp_minus_1)
  then show ?thesis by (simp only: bit_mask_iff) simp
qed

lemma cache_policy_code_and: "cache_policy_code p AND 3 = cache_policy_code p"
  by (cases p) simp_all

lemma bit_cache_policy_code: "bit (cache_policy_code p) n \<Longrightarrow> n < 2"
  by (metis bit_and_iff bit_two_mask cache_policy_code_and)

lemma bit_mmu_set_cache_policy:
  "bit (mmu_set_cache_policy f p) n \<longleftrightarrow>
     (if n < 2 then bit (cache_policy_code p) n else n < 9 \<and> bit f n)"
  using bit_cache_policy_code [of p n]
  by (auto simp: mmu_set_cache_policy_def mmu_from_bits_truncate_def flags_from_bits_truncate_def
      mmu_all_mask bit_simps bit_two_mask_int dest: bit_imp_le_length)

lemma bit_vm_mmu_flags: "bit (vm_mmu_flags f) n \<longleftrightarrow> n < 9 \<and> bit f n"
  by (auto simp: vm_mmu_flags_def mmu_from_bits_truncate_def flags_from_bits_truncate_def
      mmu_all_mask MMU_LOW_MASK_mask bit_simps)

lemma bit_with_cache_policy:
  "bit (with_cache_policy f p) n \<longleftrightarrow>
     (if n < 2 then bit (cache_policy_code p) n
      else if n < 9 then bit f n
      else 16 \<le> n \<and> bit f n)"
  using bit_imp_le_length [of f n]
  by (auto simp: with_cache_policy_def MMU_LOW_MASK_mask Let_def bit_simps
      bit_mmu_set_cache_policy bit_vm_mmu_flags)

lemma mmu_cache_policy_set: "mmu_cache_policy (mmu_set_cache_policy f p) = p"
proof -
  have "mmu_set_cache_policy f p AND 3 = cache_policy_code p"
    by (rule bit_eqI)
      (auto simp: bit_simps bit_mmu_set_cache_policy bit_two_mask_int dest: bit_cache_policy_code)
  then show ?thesis
    by (cases p) (simp_all add: mmu_cache_policy_def)
qed

lemma allows_mmu_bit:
  "allows_mmu a b \<longleftrightarrow> (\<forall>n. 2 \<le> n \<and> n < 9 \<and> bit b n \<longrightarrow> bit a n)"
  unfolding allows_mmu_def word_bit_eq
  by (auto simp: bit_simps bit_vm_access)

lemma allows_mmu_refl [simp]: "allows_mmu a a"
  by (simp add: allows_mmu_bit)

lemma allows_mmu_trans: "allows_mmu a b \<Longrightarrow> allows_mmu b c \<Longrightarrow> allows_mmu a c"
  by (auto simp: allows_mmu_bit)

lemma allows_mmu_or [simp]: "allows_mmu a (b OR c) \<longleftrightarrow> allows_mmu a b \<and> allows_mmu a c"
  by (auto simp: allows_mmu_bit bit_simps)

lemma allows_mmu_with_cache_policy:
  "allows_mmu a (with_cache_policy b p) \<longleftrightarrow> allows_mmu a b"
  "allows_mmu (with_cache_policy a p) b \<longleftrightarrow> allows_mmu a b"
  by (auto simp: allows_mmu_bit bit_with_cache_policy)

lemma vm_cache_policy_with: "vm_cache_policy (with_cache_policy f p) = p"
proof -
  have "vm_mmu_flags (with_cache_policy f p) = mmu_set_cache_policy (vm_mmu_flags f) p"
    by (rule bit_eqI)
      (auto simp: bit_vm_mmu_flags bit_with_cache_policy bit_mmu_set_cache_policy
        dest: bit_cache_policy_code)
  then show ?thesis
    by (simp add: vm_cache_policy_def mmu_cache_policy_set)
qed

lemma extension_bits_with_cache_policy:
  "extension_bits (with_cache_policy f p) = extension_bits f"
  by (rule bit_eqI) (auto simp: extension_bits_def bit_simps bit_with_cache_policy)

lemma vm_mmu_from_mmu_flags: "vm_mmu_flags (from_mmu_flags f) = f AND mmu_all"
  by (rule bit_eqI)
    (auto simp: bit_vm_mmu_flags from_mmu_flags_def mmu_all_mask bit_simps)

end
