(* ===== verification/Vm_Layout.thy ===== *)
theory Vm_Layout
  imports Vm_Flags Syscall_Errno
begin

text \<open>
  The fixed address-space layout and the ranges of \<open>core/src/memory/vmar.rs\<close>: the layout
  segments with their bounds, rights and classification, region purposes, half-open virtual ranges
  and guarded stacks. The lemmas show that the segments are disjoint, that \<open>classify\<close> is membership
  in their bounds, and that a range that classifies lies in its segment entirely.
\<close>

subsection \<open>Layout segments\<close>

type_synonym virt_addr = usize

abbreviation PAGE_SIZE :: usize where
  "PAGE_SIZE \<equiv> 0x1000"

datatype vm_layout_segment =
  UserLowGuard | UserImage | UserHeap | UserMapped | UserMmio | UserStack
| KernelDirectMap | KernelGuard | KernelMapped | KernelStack | KernelReserved | KernelImage

primrec segment_start :: "vm_layout_segment \<Rightarrow> usize" where
  "segment_start UserLowGuard = 0x0000000000000000"
| "segment_start UserImage = 0x0000000000400000"
| "segment_start UserHeap = 0x0000010000000000"
| "segment_start UserMapped = 0x0000100000000000"
| "segment_start UserMmio = 0x0000700000000000"
| "segment_start UserStack = 0x0000780000000000"
| "segment_start KernelDirectMap = 0xFFFF800000000000"
| "segment_start KernelGuard = 0xFFFFC00000000000"
| "segment_start KernelMapped = 0xFFFFC10000000000"
| "segment_start KernelStack = 0xFFFFFF0000000000"
| "segment_start KernelReserved = 0xFFFFFF8000000000"
| "segment_start KernelImage = 0xFFFFFFFF80000000"

primrec end_exclusive :: "vm_layout_segment \<Rightarrow> usize option" where
  "end_exclusive UserLowGuard = Some 0x0000000000200000"
| "end_exclusive UserImage = Some 0x0000010000000000"
| "end_exclusive UserHeap = Some 0x0000100000000000"
| "end_exclusive UserMapped = Some 0x0000700000000000"
| "end_exclusive UserMmio = Some 0x0000780000000000"
| "end_exclusive UserStack = Some 0x0000800000000000"
| "end_exclusive KernelDirectMap = Some 0xFFFFC00000000000"
| "end_exclusive KernelGuard = Some 0xFFFFC10000000000"
| "end_exclusive KernelMapped = Some 0xFFFFFF0000000000"
| "end_exclusive KernelStack = Some 0xFFFFFF8000000000"
| "end_exclusive KernelReserved = Some 0xFFFFFFFF80000000"
| "end_exclusive KernelImage = None"

definition is_guard :: "vm_layout_segment \<Rightarrow> bool" where
  "is_guard self = (case self of UserLowGuard \<Rightarrow> True | KernelGuard \<Rightarrow> True | _ \<Rightarrow> False)"

definition is_user :: "vm_layout_segment \<Rightarrow> bool" where
  "is_user self =
     (case self of UserLowGuard \<Rightarrow> True | UserImage \<Rightarrow> True | UserHeap \<Rightarrow> True
      | UserMapped \<Rightarrow> True | UserMmio \<Rightarrow> True | UserStack \<Rightarrow> True | _ \<Rightarrow> False)"

primrec max_flags :: "vm_layout_segment \<Rightarrow> vm_flags" where
  "max_flags UserLowGuard = 0"
| "max_flags KernelGuard = 0"
| "max_flags UserImage = VM_FLAG_READ OR VM_FLAG_WRITE OR VM_FLAG_EXECUTE OR VM_FLAG_USER"
| "max_flags UserMapped = VM_FLAG_READ OR VM_FLAG_WRITE OR VM_FLAG_EXECUTE OR VM_FLAG_USER"
| "max_flags UserHeap = VM_FLAG_READ OR VM_FLAG_WRITE OR VM_FLAG_USER"
| "max_flags UserMmio = VM_FLAG_READ OR VM_FLAG_WRITE OR VM_FLAG_USER OR VM_FLAG_DEVICE"
| "max_flags UserStack = VM_FLAG_READ OR VM_FLAG_WRITE OR VM_FLAG_USER"
| "max_flags KernelDirectMap = VM_FLAG_READ OR VM_FLAG_WRITE"
| "max_flags KernelMapped = VM_FLAG_READ OR VM_FLAG_WRITE OR VM_FLAG_EXECUTE"
| "max_flags KernelStack = VM_FLAG_READ OR VM_FLAG_WRITE"
| "max_flags KernelReserved = 0"
| "max_flags KernelImage = VM_FLAG_READ OR VM_FLAG_WRITE OR VM_FLAG_EXECUTE OR VM_FLAG_GLOBAL"

definition ORDERED :: "vm_layout_segment list" where
  "ORDERED = [UserLowGuard, UserImage, UserHeap, UserMapped, UserMmio, UserStack,
     KernelDirectMap, KernelGuard, KernelMapped, KernelStack, KernelReserved, KernelImage]"

primrec classify_loop :: "usize \<Rightarrow> vm_layout_segment list \<Rightarrow> vm_layout_segment option" where
  "classify_loop v [] = None"
| "classify_loop v (segment # rest) =
     (if v < segment_start segment then classify_loop v rest
      else case end_exclusive segment of
        Some end \<Rightarrow> if v < end then Some segment else classify_loop v rest
      | None \<Rightarrow> Some segment)"

definition classify :: "virt_addr \<Rightarrow> vm_layout_segment option" where
  "classify addr = classify_loop addr ORDERED"

subsection \<open>Ranges\<close>

record vm_range =
  range_start :: virt_addr
  range_end :: virt_addr

definition vm_range_new :: "virt_addr \<Rightarrow> virt_addr \<Rightarrow> vm_range option" where
  "vm_range_new start end =
     (if start < end then Some \<lparr>range_start = start, range_end = end\<rparr> else None)"

definition range_len :: "vm_range \<Rightarrow> usize" where
  "range_len self = range_end self - range_start self"

definition range_contains :: "vm_range \<Rightarrow> virt_addr \<Rightarrow> bool" where
  "range_contains self addr \<longleftrightarrow> range_start self \<le> addr \<and> addr < range_end self"

definition contains_range :: "vm_range \<Rightarrow> vm_range \<Rightarrow> bool" where
  "contains_range self other \<longleftrightarrow>
     range_start self \<le> range_start other \<and> range_end other \<le> range_end self"

definition overlaps :: "vm_range \<Rightarrow> vm_range \<Rightarrow> bool" where
  "overlaps self other \<longleftrightarrow>
     range_start self < range_end other \<and> range_start other < range_end self"

definition is_page_aligned :: "vm_range \<Rightarrow> bool" where
  "is_page_aligned self \<longleftrightarrow>
     is_multiple_of (range_start self) PAGE_SIZE \<and> is_multiple_of (range_end self) PAGE_SIZE"

text \<open>The fields of \<open>VmRange\<close> are private: every range is one that \<open>VmRange::new\<close> made.\<close>

definition range_wf :: "vm_range \<Rightarrow> bool" where
  "range_wf r \<longleftrightarrow> range_start r < range_end r \<and> range_end r \<le> usize_max"

definition classify_range :: "vm_range \<Rightarrow> vm_layout_segment option" where
  "classify_range rng =
     (case classify (range_start rng) of
        None \<Rightarrow> None
      | Some start \<Rightarrow>
          (case classify (saturating_sub (range_end rng) 1) of
             None \<Rightarrow> None
           | Some end \<Rightarrow> if start = end then Some start else None))"

definition user_space_range :: "vm_range outcome" where
  "user_space_range =
     (case expect (end_exclusive UserStack) of
        Panicked \<Rightarrow> Panicked
      | Returned end \<Rightarrow> expect (vm_range_new (segment_start UserLowGuard) end))"

definition kernel_space_range :: "vm_range outcome" where
  "kernel_space_range =
     (case expect (end_exclusive KernelImage) of
        Panicked \<Rightarrow> Panicked
      | Returned end \<Rightarrow> expect (vm_range_new (segment_start KernelDirectMap) end))"

subsection \<open>Region purposes\<close>

datatype region_purpose =
  General | KernelText | KernelData | KernelHeap | KernelStack | PageTable | DeviceMmio | User

primrec region_purpose_code :: "region_purpose \<Rightarrow> usize" where
  "region_purpose_code General = 0"
| "region_purpose_code KernelText = 1"
| "region_purpose_code KernelData = 2"
| "region_purpose_code KernelHeap = 3"
| "region_purpose_code region_purpose.KernelStack = 4"
| "region_purpose_code PageTable = 5"
| "region_purpose_code DeviceMmio = 6"
| "region_purpose_code User = 7"

definition region_purpose_try_from :: "usize \<Rightarrow> region_purpose option" where
  "region_purpose_try_from value =
     (if value = region_purpose_code General then Some General
      else if value = region_purpose_code KernelText then Some KernelText
      else if value = region_purpose_code KernelData then Some KernelData
      else if value = region_purpose_code KernelHeap then Some KernelHeap
      else if value = region_purpose_code region_purpose.KernelStack then Some region_purpose.KernelStack
      else if value = region_purpose_code PageTable then Some PageTable
      else if value = region_purpose_code DeviceMmio then Some DeviceMmio
      else if value = region_purpose_code User then Some User
      else None)"

definition is_resident :: "region_purpose \<Rightarrow> bool" where
  "is_resident self =
     (case self of KernelText \<Rightarrow> True | KernelData \<Rightarrow> True | PageTable \<Rightarrow> True | _ \<Rightarrow> False)"

interpretation region_purpose: abi_code region_purpose_code region_purpose_try_from
proof
  show "region_purpose_try_from (region_purpose_code e) = Some e" for e
    by (cases e) (simp_all add: region_purpose_try_from_def)
  show "region_purpose_code e = n" if "region_purpose_try_from n = Some e" for n e
    using that by (auto simp: region_purpose_try_from_def split: if_splits)
qed

subsection \<open>Guarded stacks\<close>

record guarded_stack_layout =
  guard :: vm_range
  stack :: vm_range

definition from_low_base :: "virt_addr \<Rightarrow> usize \<Rightarrow> guarded_stack_layout option" where
  "from_low_base base stack_size =
     (if stack_size = 0 \<or> \<not> is_multiple_of base PAGE_SIZE then None
      else Option.bind (checked_add base PAGE_SIZE) (\<lambda>guard_end.
        Option.bind (checked_add guard_end stack_size) (\<lambda>stack_end.
        Option.bind (vm_range_new base guard_end) (\<lambda>guard.
        Option.bind (vm_range_new guard_end stack_end) (\<lambda>stack.
        Some \<lparr>guard = guard, stack = stack\<rparr>)))))"

definition top :: "guarded_stack_layout \<Rightarrow> virt_addr" where
  "top self = range_end (stack self)"

subsection \<open>Interface capabilities\<close>

definition allow_interface :: "u32 \<Rightarrow> u32 \<Rightarrow> (unit, object_error) result" where
  "allow_interface interface_caps required =
     (if interface_caps = - 1 \<or> interface_caps AND required = required then Ok ()
      else Err InsufficientCapabilities)"

subsection \<open>Lemmas\<close>

lemma vm_range_new_Some [simp]:
  "vm_range_new a b = Some r \<longleftrightarrow> a < b \<and> r = \<lparr>range_start = a, range_end = b\<rparr>"
  by (auto simp: vm_range_new_def)

lemma vm_range_new_None [simp]: "vm_range_new a b = None \<longleftrightarrow> b \<le> a"
  by (auto simp: vm_range_new_def)

lemma range_contains_iff: "range_contains r a \<longleftrightarrow> a \<in> {range_start r ..< range_end r}"
  by (simp add: range_contains_def)

lemma contains_range_iff:
  "range_wf s \<Longrightarrow> contains_range r s \<longleftrightarrow> (\<forall>a. range_contains s a \<longrightarrow> range_contains r a)"
  unfolding contains_range_def range_contains_def range_wf_def
  by (auto intro: leI dest: spec [of _ "range_start s"] spec [of _ "range_end s - 1"])

lemma overlaps_iff:
  assumes "range_wf r" and "range_wf s"
  shows "overlaps r s \<longleftrightarrow> (\<exists>a. range_contains r a \<and> range_contains s a)"
proof
  assume "overlaps r s"
  then have "range_contains r (max (range_start r) (range_start s)) \<and>
      range_contains s (max (range_start r) (range_start s))"
    using assms by (auto simp: overlaps_def range_contains_def range_wf_def)
  then show "\<exists>a. range_contains r a \<and> range_contains s a" by blast
qed (auto simp: overlaps_def range_contains_def)

lemma overlaps_sym: "overlaps r s \<longleftrightarrow> overlaps s r"
  by (auto simp: overlaps_def)

definition in_segment :: "vm_layout_segment \<Rightarrow> virt_addr \<Rightarrow> bool" where
  "in_segment s v \<longleftrightarrow>
     segment_start s \<le> v \<and> (case end_exclusive s of Some e \<Rightarrow> v < e | None \<Rightarrow> True)"

lemma in_segment_unique: "in_segment s v \<Longrightarrow> in_segment t v \<Longrightarrow> s = t"
  by (cases s; cases t) (simp_all add: in_segment_def)

lemma classify_loop_in: "classify_loop v ss = Some s \<Longrightarrow> s \<in> set ss \<and> in_segment s v"
  by (induction ss) (auto simp: in_segment_def split: if_splits option.splits)

lemma classify_loop_None: "classify_loop v ss = None \<Longrightarrow> s \<in> set ss \<Longrightarrow> \<not> in_segment s v"
  by (induction ss) (auto simp: in_segment_def split: if_splits option.splits)

lemma ORDERED_all: "s \<in> set ORDERED"
  by (cases s) (simp_all add: ORDERED_def)

lemma classify_iff: "classify v = Some s \<longleftrightarrow> in_segment s v"
  unfolding classify_def
  using classify_loop_in classify_loop_None ORDERED_all in_segment_unique
  by (metis not_None_eq)

lemma in_segment_convex: "in_segment s a \<Longrightarrow> in_segment s b \<Longrightarrow> a \<le> v \<Longrightarrow> v \<le> b \<Longrightarrow> in_segment s v"
  by (auto simp: in_segment_def split: option.splits)

lemma classify_range_iff:
  assumes "range_wf r"
  shows "classify_range r = Some s \<longleftrightarrow> (\<forall>a. range_contains r a \<longrightarrow> in_segment s a)"
proof -
  have last: "saturating_sub (range_end r) 1 = range_end r - 1"
    using assms by (simp add: range_wf_def saturating_sub_def)
  have "classify_range r = Some s \<longleftrightarrow> in_segment s (range_start r) \<and> in_segment s (range_end r - 1)"
    unfolding classify_range_def last classify_iff [symmetric]
    by (auto split: option.splits)
  also have "\<dots> \<longleftrightarrow> (\<forall>a. range_contains r a \<longrightarrow> in_segment s a)"
    using assms
    by (auto simp: range_contains_def range_wf_def
        intro: in_segment_convex [of s "range_start r" "range_end r - 1"])
  finally show ?thesis .
qed

lemma from_low_base_Some:
  "from_low_base base n = Some l \<longleftrightarrow>
     n \<noteq> 0 \<and> PAGE_SIZE dvd base \<and> base + PAGE_SIZE + n \<le> usize_max \<and>
     l = \<lparr>guard = \<lparr>range_start = base, range_end = base + PAGE_SIZE\<rparr>,
          stack = \<lparr>range_start = base + PAGE_SIZE, range_end = base + PAGE_SIZE + n\<rparr>\<rparr>"
  by (auto simp: from_low_base_def is_multiple_of_dvd bind_eq_Some_conv)

lemma allow_interface_Ok:
  "allow_interface caps required = Ok () \<longleftrightarrow> contains caps required"
  by (auto simp: allow_interface_def contains_def)

end
