(* ===== verification/Machine_Align.thy ===== *)
theory Machine_Align
  imports Akarin_Prelude
begin

text \<open>
  Alignment and powers of two on \<open>usize\<close>: the macros \<open>align_down!\<close>, \<open>align_up!\<close> and
  \<open>prev_power_of_two!\<close> of \<open>library/macros/src/lib.rs\<close> and the methods of the standard library that
  the memory subsystem calls. An addition that overflows panics, since the kernel is built with
  overflow checks.
\<close>

subsection \<open>Definitions\<close>

text \<open>\<open>v & !(a - 1)\<close> on 64-bit words.\<close>

definition align_down_mask :: "usize \<Rightarrow> usize \<Rightarrow> usize" where
  "align_down_mask offset page_size =
     unat ((of_nat offset :: 64 word) AND NOT (of_nat (page_size - 1)))"

definition align_up_mask :: "usize \<Rightarrow> usize \<Rightarrow> usize outcome" where
  "align_up_mask v a = map_option (\<lambda>s. align_down_mask s a) (checked_add v (a - 1))"

fun bit_len :: "usize \<Rightarrow> nat" where
  "bit_len n = (if n = 0 then 0 else Suc (bit_len (n div 2)))"

declare bit_len.simps [simp del]

definition leading_zeros :: "usize \<Rightarrow> nat" where
  "leading_zeros n = 64 - bit_len n"

fun trailing_zeros :: "usize \<Rightarrow> nat" where
  "trailing_zeros n = (if n = 0 then 64 else if odd n then 0 else Suc (trailing_zeros (n div 2)))"

declare trailing_zeros.simps [simp del]

text \<open>\<open>1 << (BITS - v.leading_zeros() - 1)\<close>, where the subtraction panics for zero.\<close>

definition prev_power_of_two :: "usize \<Rightarrow> usize outcome" where
  "prev_power_of_two v =
     do { s \<leftarrow> checked_sub (64 - leading_zeros v) 1; Returned (2 ^ s) }"

definition checked_next_power_of_two :: "usize \<Rightarrow> usize option" where
  "checked_next_power_of_two n =
     (if n \<le> 1 then Some 1 else if bit_len (n - 1) < 64 then Some (2 ^ bit_len (n - 1)) else None)"

definition next_power_of_two :: "usize \<Rightarrow> usize outcome" where
  "next_power_of_two n = expect (checked_next_power_of_two n)"

definition next_multiple_of :: "usize \<Rightarrow> usize \<Rightarrow> usize outcome" where
  "next_multiple_of v a =
     (if a = 0 then Panicked else if v mod a = 0 then Returned v else checked_add v (a - v mod a))"

definition div_ceil :: "usize \<Rightarrow> usize \<Rightarrow> usize" where
  "div_ceil a b = (if a mod b > 0 then a div b + 1 else a div b)"

subsection \<open>Lemmas\<close>

lemma align_down_mask_pow2:
  assumes "x < 2 ^ 64" and "k < 64"
  shows "align_down_mask x (2 ^ k) = x div 2 ^ k * 2 ^ k"
proof -
  let ?w = "of_nat x :: 64 word"
  have m: "(of_nat (2 ^ k - 1) :: 64 word) = mask k"
    by (simp add: mask_eq_exp_minus_1 of_nat_diff)
  have "?w AND NOT (mask k) = push_bit k (drop_bit k ?w)"
    by (rule bit_eqI) (auto simp: bit_simps)
  moreover have "unat ?w = x" using assms(1) by (simp add: unat_of_nat take_bit_nat_eq_self_iff)
  ultimately have "unat (?w AND NOT (mask k)) = take_bit 64 (push_bit k (drop_bit k x))"
    using assms(1) by (simp add: unsigned_push_bit_eq unsigned_drop_bit_eq take_bit_nat_eq_self)
  also have "take_bit 64 (push_bit k (drop_bit k x)) = x div 2 ^ k * 2 ^ k"
  proof -
    have "x div 2 ^ k * 2 ^ k < 2 ^ 64" using assms(1) by (metis div_times_less_eq_dividend le_less_trans)
    then show ?thesis by (simp add: push_bit_eq_mult drop_bit_eq_div take_bit_nat_eq_self_iff)
  qed
  finally show ?thesis unfolding align_down_mask_def m .
qed

lemma align_down_mask_bounds:
  assumes "x \<le> usize_max" and "k < 64" and "a = 2 ^ k"
  shows "align_down_mask x a \<le> x" and "x < align_down_mask x a + a" and "a dvd align_down_mask x a"
proof -
  have e: "align_down_mask x a = x div a * a"
    using align_down_mask_pow2 [of x k] assms by simp
  show "align_down_mask x a \<le> x" unfolding e by simp
  show "x < align_down_mask x a + a"
  proof -
    have "x mod a < a" using assms(3) by simp
    then show ?thesis using div_mult_mod_eq [of x a] unfolding e by linarith
  qed
  show "a dvd align_down_mask x a" unfolding e by simp
qed

lemma bit_len_0 [simp]: "bit_len 0 = 0"
  by (simp add: bit_len.simps)

lemma bit_len_bounds: "n > 0 \<Longrightarrow> 2 ^ (bit_len n - 1) \<le> n \<and> n < 2 ^ bit_len n \<and> bit_len n > 0"
proof (induction n rule: bit_len.induct)
  case (1 n)
  show ?case
  proof (cases "n div 2 = 0")
    case True
    then have "n = 1" using 1 by auto
    then show ?thesis by (simp add: bit_len.simps)
  next
    case False
    then have ih: "2 ^ (bit_len (n div 2) - 1) \<le> n div 2" "n div 2 < 2 ^ bit_len (n div 2)" "bit_len (n div 2) > 0"
      using 1 by auto
    have e: "bit_len n = Suc (bit_len (n div 2))" using 1(2) by (subst bit_len.simps) simp
    have "(2::nat) ^ (bit_len n - 1) = 2 * 2 ^ (bit_len (n div 2) - 1)"
      using ih(3) e by (metis Suc_pred diff_Suc_1 power_Suc)
    then have "2 ^ (bit_len n - 1) \<le> n" using ih(1) by linarith
    moreover have "n < 2 ^ bit_len n" unfolding e power_Suc using ih(2) by linarith
    ultimately show ?thesis using e by simp
  qed
qed

lemma bit_len_le: "n < 2 ^ k \<Longrightarrow> bit_len n \<le> k"
proof (cases "n = 0")
  case False
  assume "n < 2 ^ k"
  then have "(2::nat) ^ (bit_len n - 1) < 2 ^ k" using bit_len_bounds [of n] False by linarith
  then show ?thesis using bit_len_bounds [of n] False by simp
qed simp

lemma trailing_zeros_dvd: "n > 0 \<Longrightarrow> 2 ^ trailing_zeros n dvd n"
proof (induction n rule: trailing_zeros.induct)
  case (1 n)
  show ?case
  proof (cases "odd n")
    case True
    then show ?thesis by (simp add: trailing_zeros.simps)
  next
    case False
    then have "2 ^ trailing_zeros (n div 2) dvd n div 2" using 1 by auto
    then have "2 * 2 ^ trailing_zeros (n div 2) dvd 2 * (n div 2)" by (rule mult_dvd_mono [OF dvd_refl])
    moreover have "2 * (n div 2) = n" using False by simp
    ultimately have "2 * 2 ^ trailing_zeros (n div 2) dvd n" by metis
    moreover have "trailing_zeros n = Suc (trailing_zeros (n div 2))" using False 1(2) by (subst trailing_zeros.simps) simp
    ultimately show ?thesis by simp
  qed
qed

lemma trailing_zeros_pow2 [simp]: "trailing_zeros (2 ^ k) = k"
proof (induction k)
  case (Suc k)
  then show ?case by (subst trailing_zeros.simps) simp
qed (simp add: trailing_zeros.simps)

lemma prev_power_of_two_eq:
  assumes "0 < v" and "v \<le> usize_max"
  shows "prev_power_of_two v = Some (2 ^ (bit_len v - 1))"
proof -
  have "bit_len v \<le> 64" using bit_len_le [of v 64] assms(2) by simp
  then show ?thesis
    using bit_len_bounds [of v] assms(1)
    by (simp add: prev_power_of_two_def leading_zeros_def checked_sub_def)
qed

lemma checked_next_power_of_two_Some:
  assumes "checked_next_power_of_two n = Some p"
  obtains k where "p = 2 ^ k" and "n \<le> p" and "k < 64"
proof (cases "n \<le> 1")
  case True
  then show ?thesis using assms that [of 0] by (simp add: checked_next_power_of_two_def)
next
  case False
  then have "p = 2 ^ bit_len (n - 1)" "bit_len (n - 1) < 64"
    using assms by (auto simp: checked_next_power_of_two_def split: if_splits)
  moreover have "n \<le> 2 ^ bit_len (n - 1)" using bit_len_bounds [of "n - 1"] False by linarith
  ultimately show ?thesis using that by blast
qed

lemma checked_next_power_of_two_le:
  assumes "n \<le> 2 ^ k" and "k < 64"
  obtains j where "checked_next_power_of_two n = Some (2 ^ j)" and "j \<le> k"
proof (cases "n \<le> 1")
  case True
  then show ?thesis using that [of 0] by (simp add: checked_next_power_of_two_def)
next
  case False
  then have "bit_len (n - 1) \<le> k" using assms(1) by (intro bit_len_le) linarith
  then show ?thesis using that False assms(2) by (auto simp: checked_next_power_of_two_def)
qed

lemma next_multiple_of_Some:
  assumes "next_multiple_of v a = Some w"
  shows "v \<le> w" and "w < v + a" and "a dvd w"
proof -
  have a: "a > 0" using assms by (auto simp: next_multiple_of_def split: if_splits)
  have m: "v mod a < a" using a by simp
  have "v mod a \<noteq> 0 \<Longrightarrow> a dvd v + (a - v mod a)"
  proof -
    have "v + (a - v mod a) = v div a * a + a" using mod_less_divisor [OF a, of v] div_mult_mod_eq [of v a] by linarith
    then show "a dvd v + (a - v mod a)" by simp
  qed
  moreover have "a - v mod a < a" if "v mod a \<noteq> 0" using that a by simp
  ultimately show "v \<le> w" "w < v + a" "a dvd w"
    using assms a m by (auto simp: next_multiple_of_def split: if_splits)
qed

end
