(* ===== verification/Phys_Memory.thy ===== *)
theory Phys_Memory
  imports Machine_Align
begin

text \<open>
  Physical memory as the memory objects see it: the accessors of the address space
  (\<open>kernel/src/arch/x86_64/memory/mod.rs\<close>), the frame allocator interface
  (\<open>machine/src/memory/frame.rs\<close>) and physical frames and runs
  (\<open>machine/src/memory/paging.rs\<close>). The kernel reaches physical memory through a linear mapping
  at \<open>physical_memory_offset\<close>; the model indexes bytes by physical address. The frame allocator
  is passed as a dictionary, the way the code passes \<open>&'static dyn FrameAllocatorTrait\<close>; its
  state is threaded.
\<close>

type_synonym phys_addr = usize
type_synonym phys_mem = "phys_addr \<Rightarrow> u8"

subsection \<open>Zones and allocators\<close>

datatype frame_zone = LowMem | Dma32 | Normal

primrec lower_zone :: "frame_zone \<Rightarrow> frame_zone option" where
  "lower_zone LowMem = None"
| "lower_zone Dma32 = Some LowMem"
| "lower_zone Normal = Some Dma32"

primrec higher_zone :: "frame_zone \<Rightarrow> frame_zone option" where
  "higher_zone LowMem = Some Dma32"
| "higher_zone Dma32 = Some Normal"
| "higher_zone Normal = None"

definition frame_zone_default :: frame_zone where
  "frame_zone_default = Normal"

datatype allocation_error = OutOfMemory | UnmanagedAddress phys_addr | Unknown

record 's frame_allocator =
  unit_page_size :: usize
  alloc :: "phys_addr option \<Rightarrow> frame_zone \<Rightarrow> usize \<Rightarrow> 's \<Rightarrow> (usize, allocation_error) result \<times> 's"
  dealloc :: "usize \<Rightarrow> usize \<Rightarrow> 's \<Rightarrow> 's outcome"

subsection \<open>The address space\<close>

abbreviation UNIT_PAGE_SIZE :: usize where
  "UNIT_PAGE_SIZE \<equiv> 0x1000"

definition virt_to_phys :: "usize \<Rightarrow> usize \<Rightarrow> phys_addr option" where
  "virt_to_phys physical_memory_offset virt_addr = checked_sub virt_addr physical_memory_offset"

definition phys_to_virt :: "usize \<Rightarrow> phys_addr \<Rightarrow> usize option" where
  "phys_to_virt physical_memory_offset phys_addr = checked_add phys_addr physical_memory_offset"

text \<open>The bytes from \<open>p\<close> on, and memory with \<open>data\<close> written from \<open>p\<close> on.\<close>

definition mem_bytes :: "phys_mem \<Rightarrow> phys_addr \<Rightarrow> usize \<Rightarrow> u8 list" where
  "mem_bytes m p n = map m [p ..< p + n]"

definition mem_store :: "phys_mem \<Rightarrow> phys_addr \<Rightarrow> u8 list \<Rightarrow> phys_mem" where
  "mem_store m p data = (\<lambda>a. if p \<le> a \<and> a < p + length data then data ! (a - p) else m a)"

definition read_phys :: "usize \<Rightarrow> phys_mem \<Rightarrow> phys_addr \<Rightarrow> usize \<Rightarrow> u8 list outcome" where
  "read_phys off m phys_addr len =
     do {
       _ \<leftarrow> expect (phys_to_virt off phys_addr);
       Returned (mem_bytes m phys_addr len)
     }"

definition write_phys :: "usize \<Rightarrow> phys_mem \<Rightarrow> phys_addr \<Rightarrow> u8 list \<Rightarrow> phys_mem outcome" where
  "write_phys off m phys_addr data =
     do {
       _ \<leftarrow> expect (phys_to_virt off phys_addr);
       Returned (mem_store m phys_addr data)
     }"

definition zero_phys :: "usize \<Rightarrow> phys_mem \<Rightarrow> phys_addr \<Rightarrow> usize \<Rightarrow> phys_mem outcome" where
  "zero_phys off m phys_addr sz =
     do {
       _ \<leftarrow> expect (phys_to_virt off phys_addr);
       Returned (mem_store m phys_addr (replicate sz 0))
     }"

definition copy_phys ::
    "usize \<Rightarrow> phys_mem \<Rightarrow> phys_addr \<Rightarrow> phys_addr \<Rightarrow> usize \<Rightarrow> phys_mem outcome" where
  "copy_phys off m src_phys_addr dest_phys_addr sz =
     do {
       _ \<leftarrow> expect (phys_to_virt off src_phys_addr);
       _ \<leftarrow> expect (phys_to_virt off dest_phys_addr);
       Returned (mem_store m dest_phys_addr (mem_bytes m src_phys_addr sz))
     }"

subsection \<open>Frames and runs\<close>

text \<open>
  A \<open>PhysFrame\<close> keeps the allocator that made it, to which it returns its pages when dropped; a
  \<open>PhysRun\<close> owns a boxed frame or borrows a physical range. The kernel has one frame allocator, so
  the field that refers to it is a flag.
\<close>

record phys_frame =
  frame_addr :: phys_addr
  frame_number :: usize
  frame_allocated :: bool

record phys_run =
  run_frame :: "phys_frame option"
  run_phys_addr :: phys_addr
  run_number :: usize
  run_unit_page_size :: usize

definition is_power_of_two :: "usize \<Rightarrow> bool" where
  "is_power_of_two n \<longleftrightarrow> n \<noteq> 0 \<and> n AND (n - 1) = 0"

definition from_addr :: "bool \<Rightarrow> phys_addr \<Rightarrow> usize \<Rightarrow> phys_frame outcome" where
  "from_addr allocated addr num =
     do {
       _ \<leftarrow> assert_that (is_power_of_two num);
       Returned \<lparr>frame_addr = addr, frame_number = num, frame_allocated = allocated\<rparr>
     }"

definition frame_consume :: "phys_frame \<Rightarrow> usize \<Rightarrow> phys_addr option \<times> phys_frame" where
  "frame_consume self num =
     (if num > frame_number self then (None, self)
      else (Some (frame_addr self),
            self\<lparr>frame_addr := frame_addr self + num * UNIT_PAGE_SIZE,
                 frame_number := frame_number self - num\<rparr>))"

definition frame_drop :: "'s frame_allocator \<Rightarrow> usize \<Rightarrow> phys_frame \<Rightarrow> 's \<Rightarrow> 's outcome" where
  "frame_drop A off self s =
     (if frame_allocated self \<and> frame_number self > 0
      then do {
        frame_virt \<leftarrow> expect (phys_to_virt off (frame_addr self));
        dealloc A frame_virt (frame_number self) s
      }
      else Returned s)"

definition run_from_frame :: "phys_frame \<Rightarrow> phys_run" where
  "run_from_frame frame =
     \<lparr>run_frame = Some frame, run_phys_addr = frame_addr frame, run_number = frame_number frame,
      run_unit_page_size = UNIT_PAGE_SIZE\<rparr>"

definition run_borrowed :: "phys_addr \<Rightarrow> usize \<Rightarrow> phys_run" where
  "run_borrowed phys_addr number =
     \<lparr>run_frame = None, run_phys_addr = phys_addr, run_number = number,
      run_unit_page_size = UNIT_PAGE_SIZE\<rparr>"

definition len_bytes :: "phys_run \<Rightarrow> usize" where
  "len_bytes self = run_number self * run_unit_page_size self"

text \<open>\<open>read\<close> returns whether it succeeded and the bytes it put in the buffer.\<close>

definition run_read :: "usize \<Rightarrow> phys_mem \<Rightarrow> phys_run \<Rightarrow> usize \<Rightarrow> usize \<Rightarrow> u8 list option outcome" where
  "run_read off m self offset len =
     (case checked_add offset len of
        None \<Rightarrow> Returned None
      | Some end \<Rightarrow>
          if end > len_bytes self then Returned None
          else do {
            bytes \<leftarrow> read_phys off m (run_phys_addr self + offset) len;
            Returned (Some bytes)
          })"

definition run_write :: "usize \<Rightarrow> phys_mem \<Rightarrow> phys_run \<Rightarrow> usize \<Rightarrow> u8 list \<Rightarrow> phys_mem option outcome" where
  "run_write off m self offset data =
     (case checked_add offset (length data) of
        None \<Rightarrow> Returned None
      | Some end \<Rightarrow>
          if end > len_bytes self then Returned None
          else do {
            m' \<leftarrow> write_phys off m (run_phys_addr self + offset) data;
            Returned (Some m')
          })"

definition run_drop :: "'s frame_allocator \<Rightarrow> usize \<Rightarrow> phys_run \<Rightarrow> 's \<Rightarrow> 's outcome" where
  "run_drop A off self s =
     (case run_frame self of Some frame \<Rightarrow> frame_drop A off frame s | None \<Rightarrow> Returned s)"

subsection \<open>Lemmas\<close>

lemma phys_to_virt_Some [simp]:
  "phys_to_virt off p = Some v \<longleftrightarrow> v = p + off \<and> v \<le> usize_max"
  by (simp add: phys_to_virt_def)

lemma virt_phys_inverse:
  "phys_to_virt off p = Some v \<Longrightarrow> virt_to_phys off v = Some p"
  by (simp add: virt_to_phys_def checked_sub_def)

lemma length_mem_bytes [simp]: "length (mem_bytes m p n) = n"
  by (simp add: mem_bytes_def)

lemma mem_bytes_nth [simp]: "i < n \<Longrightarrow> mem_bytes m p n ! i = m (p + i)"
  by (simp add: mem_bytes_def)

lemma mem_bytes_append: "mem_bytes m p (a + b) = mem_bytes m p a @ mem_bytes m (p + a) b"
  by (rule nth_equalityI) (auto simp: nth_append)

lemma mem_bytes_store [simp]: "mem_bytes (mem_store m p d) p (length d) = d"
  by (rule nth_equalityI) (auto simp: mem_store_def)

lemma mem_store_apply:
  "mem_store m p d a = (if p \<le> a \<and> a < p + length d then d ! (a - p) else m a)"
  by (simp add: mem_store_def)

lemma mem_bytes_store_other:
  "p + length d \<le> q \<or> q + n \<le> p \<Longrightarrow> mem_bytes (mem_store m p d) q n = mem_bytes m q n"
  by (rule nth_equalityI) (auto simp: mem_store_def)

lemma read_phys_eq:
  "read_phys off m p n = (if p + off \<le> usize_max then Some (mem_bytes m p n) else None)"
  by (simp add: read_phys_def phys_to_virt_def checked_add_def)

lemma write_phys_eq:
  "write_phys off m p d = (if p + off \<le> usize_max then Some (mem_store m p d) else None)"
  by (simp add: write_phys_def phys_to_virt_def checked_add_def)

lemma zero_phys_eq:
  "zero_phys off m p n = (if p + off \<le> usize_max then Some (mem_store m p (replicate n 0)) else None)"
  by (simp add: zero_phys_def phys_to_virt_def checked_add_def)

lemma copy_phys_eq:
  "copy_phys off m p q n =
     (if p + off \<le> usize_max \<and> q + off \<le> usize_max
      then Some (mem_store m q (mem_bytes m p n)) else None)"
  by (simp add: copy_phys_def phys_to_virt_def checked_add_def)

lemma len_bytes_from_frame [simp]: "len_bytes (run_from_frame f) = frame_number f * UNIT_PAGE_SIZE"
  by (simp add: len_bytes_def run_from_frame_def)

lemma len_bytes_borrowed [simp]: "len_bytes (run_borrowed p n) = n * UNIT_PAGE_SIZE"
  by (simp add: len_bytes_def run_borrowed_def)

text \<open>Consuming pages splits the frame's range: what is handed out precedes what is kept.\<close>

lemma frame_consume_split:
  assumes "frame_consume f num = (Some p, f')"
  shows "p = frame_addr f" and "frame_addr f' = p + num * UNIT_PAGE_SIZE"
    and "frame_addr f' + frame_number f' * UNIT_PAGE_SIZE = frame_addr f + frame_number f * UNIT_PAGE_SIZE"
  using assms by (auto simp: frame_consume_def algebra_simps split: if_splits)

end
