(* ===== verification/Vmo_Index.thy ===== *)
theory Vmo_Index
  imports Phys_Memory
begin

text \<open>
  Extents of a memory object and the index over them (\<open>VmoExtent\<close> and \<open>VmoRangeIndex\<close> of
  \<open>core/src/memory/vmo.rs\<close>). The index is a coordinate compression of the extents' bounds with one
  owner per gap; the main lemma shows that a lookup in a rebuilt index finds the extent that covers
  the offset.
\<close>

subsection \<open>Extents\<close>

datatype vmo_page_purpose = Anonymous | PageTable | Stack | Heap | Dma | FileBacked | KernelMeta

record vmo_page_metadata =
  meta_phys :: phys_addr
  meta_purpose :: vmo_page_purpose
  meta_committed :: bool

record vmo_extent =
  ext_offset :: usize
  ext_frame :: phys_run
  ext_purpose :: vmo_page_purpose
  ext_committed :: bool

definition ext_end :: "vmo_extent \<Rightarrow> usize" where
  "ext_end self = ext_offset self + len_bytes (ext_frame self)"

definition ext_contains :: "vmo_extent \<Rightarrow> usize \<Rightarrow> bool" where
  "ext_contains self offset \<longleftrightarrow> ext_offset self \<le> offset \<and> offset < ext_end self"

definition metadata_at :: "vmo_extent \<Rightarrow> usize \<Rightarrow> vmo_page_metadata option" where
  "metadata_at self offset =
     (if ext_contains self offset
      then Some \<lparr>meta_phys = run_phys_addr (ext_frame self) + (offset - ext_offset self),
                 meta_purpose = ext_purpose self,
                 meta_committed = ext_committed self\<rparr>
      else None)"

subsection \<open>The range index\<close>

record vmo_range_index =
  coords :: "usize list"
  owners :: "usize option list"

definition index_default :: vmo_range_index where
  "index_default = \<lparr>coords = [], owners = []\<rparr>"

text \<open>
  \<open>slice::binary_search\<close> on a strictly ascending slice: the position of the value, or the position
  where it would be inserted.
\<close>

fun position :: "('a \<Rightarrow> bool) \<Rightarrow> 'a list \<Rightarrow> nat option" where
  "position p [] = None"
| "position p (x # xs) = (if p x then Some 0 else map_option Suc (position p xs))"

definition binary_search :: "usize list \<Rightarrow> usize \<Rightarrow> (usize, usize) result" where
  "binary_search xs v =
     (case position (\<lambda>x. x = v) xs of
        Some i \<Rightarrow> Ok i
      | None \<Rightarrow> Err (length (filter (\<lambda>x. x < v) xs)))"

definition coord_index :: "vmo_range_index \<Rightarrow> usize \<Rightarrow> usize option" where
  "coord_index self v = (case binary_search (coords self) v of Inr i \<Rightarrow> Some i | Inl _ \<Rightarrow> None)"

text \<open>\<open>xs[start..end]\<close> filled with one value.\<close>

definition fill_slice :: "nat \<Rightarrow> nat \<Rightarrow> 'a \<Rightarrow> 'a list \<Rightarrow> 'a list" where
  "fill_slice start end v xs =
     map (\<lambda>(i, x). if start \<le> i \<and> i < end then v else x) (enumerate 0 xs)"

type_synonym snapshot = "usize \<times> usize \<times> usize"

primrec rebuild_owners ::
    "vmo_range_index \<Rightarrow> snapshot list \<Rightarrow> usize option list \<Rightarrow> usize option list" where
  "rebuild_owners self [] os = os"
| "rebuild_owners self (e # rest) os =
     (case e of (owner, start_offset, end_offset) \<Rightarrow>
        case coord_index self start_offset of
          None \<Rightarrow> rebuild_owners self rest os
        | Some start \<Rightarrow>
            (case coord_index self end_offset of
               None \<Rightarrow> rebuild_owners self rest os
             | Some end \<Rightarrow> rebuild_owners self rest (fill_slice start end (Some owner) os)))"

definition rebuild :: "snapshot list \<Rightarrow> vmo_range_index" where
  "rebuild extents =
     (let cs = remdups_adj (sort (concat (map (\<lambda>(_, start, end). [start, end]) extents)));
          self = \<lparr>coords = cs, owners = []\<rparr>
      in if length cs < 2 then self
         else self\<lparr>owners := rebuild_owners self extents (replicate (length cs - 1) None)\<rparr>)"

text \<open>\<open>Vec::get\<close>.\<close>

definition vec_get :: "'a list \<Rightarrow> nat \<Rightarrow> 'a option" where
  "vec_get xs i = (if i < length xs then Some (xs ! i) else None)"

definition owner_leaf :: "vmo_range_index \<Rightarrow> usize \<Rightarrow> usize option" where
  "owner_leaf self offset =
     (case binary_search (coords self) offset of
        Inr index \<Rightarrow> if index + 1 < length (coords self) then Some index else None
      | Inl index \<Rightarrow>
          if index = 0 then None
          else if index \<ge> length (coords self) then None
          else Some (index - 1))"

definition owner_at :: "vmo_range_index \<Rightarrow> usize \<Rightarrow> usize option" where
  "owner_at self offset =
     (if length (coords self) < 2 then None
      else case owner_leaf self offset of
        None \<Rightarrow> None
      | Some leaf \<Rightarrow>
          if \<not> (coords self ! leaf \<le> offset \<and> offset < coords self ! (leaf + 1)) then None
          else (case vec_get (owners self) leaf of None \<Rightarrow> None | Some owner \<Rightarrow> owner))"

text \<open>The snapshots that every caller of \<open>rebuild\<close> takes of the extents.\<close>

definition snapshots :: "vmo_extent list \<Rightarrow> snapshot list" where
  "snapshots es = map (\<lambda>(owner, e). (owner, ext_offset e, ext_end e)) (enumerate 0 es)"

subsection \<open>Lookups in lists\<close>

lemma position_Some: "position p xs = Some i \<Longrightarrow> i < length xs \<and> p (xs ! i)"
  by (induction xs arbitrary: i) (auto split: if_splits)

lemma position_None: "position p xs = None \<longleftrightarrow> (\<forall>x \<in> set xs. \<not> p x)"
  by (induction xs) auto

lemma position_Some_first: "position p xs = Some i \<Longrightarrow> j < i \<Longrightarrow> \<not> p (xs ! j)"
  by (induction xs arbitrary: i j) (auto split: if_splits simp: nth_Cons split: nat.splits)

lemma vec_get_Some [simp]: "vec_get xs i = Some x \<longleftrightarrow> i < length xs \<and> x = xs ! i"
  by (auto simp: vec_get_def)

lemma vec_get_None [simp]: "vec_get xs i = None \<longleftrightarrow> length xs \<le> i"
  by (auto simp: vec_get_def)

lemma vec_get_nth [simp]: "i < length xs \<Longrightarrow> vec_get xs i = Some (xs ! i)"
  by (simp add: vec_get_def)

lemma length_fill_slice [simp]: "length (fill_slice s e v xs) = length xs"
  by (simp add: fill_slice_def)

lemma fill_slice_nth [simp]:
  "i < length xs \<Longrightarrow> fill_slice s e v xs ! i = (if s \<le> i \<and> i < e then v else xs ! i)"
  by (simp add: fill_slice_def nth_enumerate_eq)

lemma sorted_wrt_less_nth:
  fixes xs :: "nat list"
  assumes "sorted_wrt (<) xs" and "i < length xs" and "j < length xs"
  shows "xs ! i < xs ! j \<longleftrightarrow> i < j" and "xs ! i = xs ! j \<longleftrightarrow> i = j" and "xs ! i \<le> xs ! j \<longleftrightarrow> i \<le> j"
proof -
  have mono: "a < b \<Longrightarrow> b < length xs \<Longrightarrow> xs ! a < xs ! b" for a b
    using assms(1) by (simp add: sorted_wrt_nth_less)
  show "xs ! i < xs ! j \<longleftrightarrow> i < j"
    using mono [of i j] mono [of j i] assms(2,3) by (cases i j rule: linorder_cases) auto
  show "xs ! i = xs ! j \<longleftrightarrow> i = j"
    using mono [of i j] mono [of j i] assms(2,3) by (cases i j rule: linorder_cases) auto
  show "xs ! i \<le> xs ! j \<longleftrightarrow> i \<le> j"
    using mono [of i j] mono [of j i] assms(2,3) by (cases i j rule: linorder_cases) auto
qed

lemma length_filter_below:
  assumes "sorted_wrt (<) (xs :: nat list)"
  shows "i < length (filter (\<lambda>x. x < v) xs) \<longleftrightarrow> i < length xs \<and> xs ! i < v"
  using assms
proof (induction xs arbitrary: i)
  case (Cons x xs)
  show ?case
  proof (cases "x < v")
    case True
    with Cons show ?thesis by (cases i) auto
  next
    case False
    with Cons.prems have "\<forall>y \<in> set (x # xs). \<not> y < v" by auto
    then have "filter (\<lambda>x. x < v) (x # xs) = []" by (simp add: filter_empty_conv)
    moreover from \<open>\<forall>y \<in> set (x # xs). \<not> y < v\<close> have "\<not> (i < length (x # xs) \<and> (x # xs) ! i < v)"
      by (metis nth_mem)
    ultimately show ?thesis by simp
  qed
qed simp

lemma binary_search_Ok:
  "sorted_wrt (<) xs \<Longrightarrow> binary_search xs v = Ok i \<longleftrightarrow> i < length xs \<and> xs ! i = v"
proof
  assume s: "sorted_wrt (<) xs" and r: "i < length xs \<and> xs ! i = v"
  then have "position (\<lambda>x. x = v) xs \<noteq> None"
    by (auto simp: position_None)
  then obtain j where j: "position (\<lambda>x. x = v) xs = Some j" by blast
  from position_Some [OF this] r s have "j = i"
    using sorted_wrt_less_nth(2) by blast
  with j show "binary_search xs v = Ok i" by (simp add: binary_search_def)
qed (auto simp: binary_search_def dest: position_Some split: option.splits)

lemma binary_search_Err:
  "binary_search xs v = Err i \<longleftrightarrow> v \<notin> set xs \<and> i = length (filter (\<lambda>x. x < v) xs)"
  by (auto simp: binary_search_def position_None dest: position_Some split: option.splits)

subsection \<open>A rebuilt index finds the covering extent\<close>

text \<open>The specification: the last snapshot whose half-open range has the offset.\<close>

fun covering :: "snapshot list \<Rightarrow> usize \<Rightarrow> usize option \<Rightarrow> usize option" where
  "covering [] x acc = acc"
| "covering ((owner, s, e) # rest) x acc =
     covering rest x (if s \<le> x \<and> x < e then Some owner else acc)"

definition coords_of :: "snapshot list \<Rightarrow> usize list" where
  "coords_of es = remdups_adj (sort (concat (map (\<lambda>(_, s, e). [s, e]) es)))"

lemma distinct_dedup: "sorted (xs :: usize list) \<Longrightarrow> distinct (remdups_adj xs)"
  by (induction xs rule: remdups_adj.induct) force+

lemma sorted_coords_of: "sorted_wrt (<) (coords_of es)"
  by (simp add: coords_of_def strict_sorted_iff sorted_remdups_adj distinct_dedup)

lemma set_coords_of: "set (coords_of es) = (\<Union>(_, s, e) \<in> set es. {s, e})"
  by (auto simp: coords_of_def)

text \<open>The leaf of an offset is the gap between neighbouring coordinates that has it.\<close>

lemma owner_leaf_Some:
  assumes "coords self = cs" and s: "sorted_wrt (<) cs"
  shows "owner_leaf self x = Some l \<longleftrightarrow> l + 1 < length cs \<and> cs ! l \<le> x \<and> x < cs ! (l + 1)"
proof (cases "binary_search cs x")
  case (Inr i)
  then have i: "i < length cs" "cs ! i = x"
    using binary_search_Ok [OF s] by auto
  have "l + 1 < length cs \<Longrightarrow> cs ! l \<le> x \<and> x < cs ! (l + 1) \<longleftrightarrow> l = i"
    using i sorted_wrt_less_nth [OF s, of l i] sorted_wrt_less_nth [OF s, of i "l + 1"] by auto
  then show ?thesis
    using Inr assms(1) by (auto simp: owner_leaf_def)
next
  case (Inl i)
  then have i: "x \<notin> set cs" "i = length (filter (\<lambda>y. y < x) cs)"
    using binary_search_Err by auto
  have lt: "j < i \<longleftrightarrow> j < length cs \<and> cs ! j < x" for j
    using length_filter_below [OF s] i by simp
  have ne: "j < length cs \<Longrightarrow> cs ! j \<noteq> x" for j
    using i(1) nth_mem by blast
  have "l + 1 < length cs \<and> cs ! l \<le> x \<and> x < cs ! (l + 1) \<longleftrightarrow> l < i \<and> l + 1 < length cs \<and> \<not> l + 1 < i"
    using lt [of l] lt [of "l + 1"] ne [of l] ne [of "l + 1"] by auto
  then show ?thesis
    using Inl assms(1) by (auto simp: owner_leaf_def)
qed

lemma coord_index_Some:
  "sorted_wrt (<) (coords self) \<Longrightarrow>
     coord_index self v = Some i \<longleftrightarrow> i < length (coords self) \<and> coords self ! i = v"
  using binary_search_Ok [of "coords self" v i]
  by (auto simp: coord_index_def split: sum.splits)

lemma coord_index_in:
  assumes "sorted_wrt (<) (coords self)" and "v \<in> set (coords self)"
  obtains i where "coord_index self v = Some i" "i < length (coords self)" "coords self ! i = v"
  using assms coord_index_Some by (metis in_set_conv_nth)

text \<open>Filling the slices in order gives each leaf the last snapshot that covers it.\<close>

lemma rebuild_owners_leaf:
  assumes s: "sorted_wrt (<) (coords self)"
    and l: "l + 1 < length (coords self)"
    and x: "coords self ! l \<le> x" "x < coords self ! (l + 1)"
    and sub: "\<forall>(_, b, e) \<in> set es. b \<in> set (coords self) \<and> e \<in> set (coords self)"
    and len: "length os = length (coords self) - 1"
  shows "length (rebuild_owners self es os) = length os \<and>
    rebuild_owners self es os ! l = covering es x (os ! l)"
  using sub len
proof (induction es arbitrary: os)
  case (Cons t es)
  obtain ow b e where t: "t = (ow, b, e)" by (metis prod_cases3)
  from Cons.prems(1) t have mem: "b \<in> set (coords self)" "e \<in> set (coords self)" by auto
  obtain i where i: "coord_index self b = Some i" "i < length (coords self)" "coords self ! i = b"
    using coord_index_in [OF s mem(1)] by blast
  obtain j where j: "coord_index self e = Some j" "j < length (coords self)" "coords self ! j = e"
    using coord_index_in [OF s mem(2)] by blast
  have "i \<le> l \<longleftrightarrow> b \<le> x"
    using i x l sorted_wrt_less_nth [OF s, of i l] sorted_wrt_less_nth [OF s, of "l + 1" i] by auto
  moreover have "l < j \<longleftrightarrow> x < e"
    using j x l sorted_wrt_less_nth [OF s, of j l] sorted_wrt_less_nth [OF s, of "l + 1" j] by auto
  ultimately have "fill_slice i j (Some ow) os ! l = (if b \<le> x \<and> x < e then Some ow else os ! l)"
    using Cons.prems(2) l by simp
  with Cons.IH [of "fill_slice i j (Some ow) os"] Cons.prems t i j show ?case by simp
qed simp

lemma covering_None_out:
  "\<forall>(_, b, e) \<in> set es. \<not> (b \<le> x \<and> x < e) \<Longrightarrow> covering es x acc = acc"
  by (induction es arbitrary: acc) auto

lemma coords_rebuild: "coords (rebuild es) = coords_of es"
  by (simp add: rebuild_def coords_of_def Let_def)

lemma owner_at_rebuild: "owner_at (rebuild es) x = covering es x None"
proof (cases "owner_leaf (rebuild es) x")
  case None
  have nl: "\<not> (l + 1 < length (coords_of es) \<and> coords_of es ! l \<le> x \<and> x < coords_of es ! (l + 1))" for l
    using None owner_leaf_Some [OF coords_rebuild sorted_coords_of, of es x l] by simp
  have "\<not> (b \<le> x \<and> x < e)" if "(ow, b, e) \<in> set es" for ow b e
  proof
    assume "b \<le> x \<and> x < e"
    moreover from that have "b \<in> set (coords_of es)" "e \<in> set (coords_of es)"
      by (force simp: set_coords_of)+
    then obtain i j where ij: "i < length (coords_of es)" "coords_of es ! i = b"
      "j < length (coords_of es)" "coords_of es ! j = e"
      by (metis in_set_conv_nth)
    ultimately have P: "\<exists>j. i < j \<and> j < length (coords_of es) \<and> x < coords_of es ! j"
      using sorted_wrt_less_nth [OF sorted_coords_of, of i es j] by auto
    define k where "k = (LEAST j. i < j \<and> j < length (coords_of es) \<and> x < coords_of es ! j)"
    have k: "i < k" "k < length (coords_of es)" "x < coords_of es ! k"
      using LeastI_ex [OF P] by (auto simp: k_def)
    have "\<not> (i < k - 1 \<and> k - 1 < length (coords_of es) \<and> x < coords_of es ! (k - 1))"
      using k not_less_Least [of "k - 1" "\<lambda>j. i < j \<and> j < length (coords_of es) \<and> x < coords_of es ! j"]
      unfolding k_def [symmetric] by simp
    then have "coords_of es ! (k - 1) \<le> x"
      using k ij \<open>b \<le> x \<and> x < e\<close> by (cases "i = k - 1") auto
    with nl [of "k - 1"] k show False by simp
  qed
  then have "covering es x None = None"
    by (intro covering_None_out) auto
  with None show ?thesis by (simp add: owner_at_def)
next
  case (Some l)
  let ?cs = "coords_of es" and ?self = "\<lparr>coords = coords_of es, owners = []\<rparr>"
  have l: "l + 1 < length ?cs" "?cs ! l \<le> x" "x < ?cs ! (l + 1)"
    using Some owner_leaf_Some [OF coords_rebuild sorted_coords_of] by auto
  then have os: "owners (rebuild es) = rebuild_owners ?self es (replicate (length ?cs - 1) None)"
    by (simp add: rebuild_def coords_of_def [symmetric] Let_def)
  have "length (owners (rebuild es)) = length ?cs - 1 \<and> owners (rebuild es) ! l = covering es x None"
    unfolding os
    using rebuild_owners_leaf [of ?self l x es "replicate (length ?cs - 1) None"] l sorted_coords_of
    by (force simp: set_coords_of)
  with Some l show ?thesis
    by (auto simp: owner_at_def coords_rebuild split: option.splits)
qed

end
