(* ===== verification/Vmo.thy ===== *)
theory Vmo
  imports Vmo_Index Vm_Flags Syscall_Errno
begin

text \<open>
  Virtual memory objects (\<open>core/src/memory/vmo.rs\<close>). The immutable part of a \<open>VmoShared\<close> is the
  datatype \<open>vmo\<close>, with the chain of parents of a child view inside it; the part behind the lock is
  a \<open>vmo_inner\<close> in a store indexed by the object's id. Operations take and return the world: physical
  memory, the frame allocator's state, the store, and the id counter.
\<close>

subsection \<open>Data\<close>

datatype vmo_backing = Paged | Physical phys_addr

datatype vmo_child_kind = SharedView | PrivateCow

primrec vmo_child_kind_code :: "vmo_child_kind \<Rightarrow> usize" where
  "vmo_child_kind_code SharedView = 1"
| "vmo_child_kind_code PrivateCow = 2"

datatype vmo_fault_policy = Immediate | PrivateCow | PagerBacked

datatype vm_fault_resolution =
  RetryAfterMap | ProtectionDenied | Unresolved | PrivateCow | PagerBacked | InvalidRange

datatype vmo_range_op_error = InvalidArgument | InvalidRange

primrec range_op_vm_error :: "vmo_range_op_error \<Rightarrow> vm_error" where
  "range_op_vm_error vmo_range_op_error.InvalidArgument = vm_error.InvalidArgument"
| "range_op_vm_error vmo_range_op_error.InvalidRange = vm_error.InvalidRange"

record vmo_inner =
  inner_size :: usize
  inner_stream_size :: usize
  inner_flags :: vm_flags
  inner_pager_cookie :: "usize option"
  extents :: "vmo_extent list"
  index :: vmo_range_index

definition vmo_inner_default :: vmo_inner where
  "vmo_inner_default =
     \<lparr>inner_size = 0, inner_stream_size = 0, inner_flags = 0, inner_pager_cookie = None,
      extents = [], index = index_default\<rparr>"

datatype vmo =
  Vmo (vmo_id: nat) (vmo_name: string) (vmo_page_size: usize) (vmo_backing: vmo_backing)
    (vmo_child: "vmo_child_state option")
and vmo_child_state =
  VmoChildState (child_parent: vmo) (child_parent_offset: usize) (child_kind: vmo_child_kind)

record vmo_child_info =
  info_kind :: vmo_child_kind
  info_parent_id :: nat
  info_parent_offset :: usize
  info_size :: usize
  info_stream_size :: usize

record 's vm_world =
  phys :: phys_mem
  frame_state :: 's
  vmos :: "nat \<Rightarrow> vmo_inner"
  next_vmo_id :: nat

definition inner_of :: "'s vm_world \<Rightarrow> vmo \<Rightarrow> vmo_inner" where
  "inner_of w self = vmos w (vmo_id self)"

definition set_inner :: "'s vm_world \<Rightarrow> vmo \<Rightarrow> vmo_inner \<Rightarrow> 's vm_world" where
  "set_inner w self inner = w\<lparr>vmos := (vmos w)(vmo_id self := inner)\<rparr>"

text \<open>The extents replaced and the index rebuilt from them.\<close>

definition reindex :: "vmo_inner \<Rightarrow> vmo_extent list \<Rightarrow> vmo_inner" where
  "reindex inner es = inner\<lparr>extents := es, index := rebuild (snapshots es)\<rparr>"

text \<open>Dropping runs one after the other.\<close>

primrec drop_runs :: "'s frame_allocator \<Rightarrow> usize \<Rightarrow> phys_run list \<Rightarrow> 's \<Rightarrow> 's outcome" where
  "drop_runs A off [] s = Returned s"
| "drop_runs A off (r # rs) s = do { s' \<leftarrow> run_drop A off r s; drop_runs A off rs s' }"

subsection \<open>Construction and accessors\<close>

text \<open>\<open>NEXT_VMO_ID.fetch_add(1)\<close> on a 64-bit counter; the object under the new id.\<close>

definition allocate_vmo ::
    "'s vm_world \<Rightarrow> string \<Rightarrow> usize \<Rightarrow> vmo_backing \<Rightarrow> vmo_child_state option \<Rightarrow> vmo_inner \<Rightarrow> vmo \<times> 's vm_world" where
  "allocate_vmo w name page_size backing child inner =
     (let self = Vmo (next_vmo_id w) name page_size backing child
      in (self, (set_inner w self inner)\<lparr>next_vmo_id := (next_vmo_id w + 1) mod 2 ^ 64\<rparr>))"

definition vmo_new :: "'s vm_world \<Rightarrow> string \<Rightarrow> usize \<Rightarrow> usize \<Rightarrow> vm_flags \<Rightarrow> vmo \<times> 's vm_world" where
  "vmo_new w name sz page_size flags =
     allocate_vmo w name page_size Paged None
       (vmo_inner_default\<lparr>inner_size := sz, inner_stream_size := sz, inner_flags := flags\<rparr>)"

definition div_ceil :: "usize \<Rightarrow> usize \<Rightarrow> usize outcome" where
  "div_ceil a b = (if b = 0 then Panicked else Returned ((a + b - 1) div b))"

definition vmo_new_physical ::
    "'s vm_world \<Rightarrow> string \<Rightarrow> usize \<Rightarrow> usize \<Rightarrow> vm_flags \<Rightarrow> phys_addr \<Rightarrow> (vmo \<times> 's vm_world) outcome" where
  "vmo_new_physical w name sz page_size flags base =
     do {
       number \<leftarrow> div_ceil sz page_size;
       let es = [\<lparr>ext_offset = 0, ext_frame = run_borrowed base number, ext_purpose = Dma,
                  ext_committed = True\<rparr>];
       if number * UNIT_PAGE_SIZE > usize_max then Panicked
       else Returned (allocate_vmo w name page_size (Physical base) None
         (reindex (vmo_inner_default\<lparr>inner_size := sz, inner_stream_size := sz,
            inner_flags := flags\<rparr>) es))
     }"

definition vmo_size :: "'s vm_world \<Rightarrow> vmo \<Rightarrow> usize" where
  "vmo_size w self = inner_size (inner_of w self)"

definition vmo_flags :: "'s vm_world \<Rightarrow> vmo \<Rightarrow> vm_flags" where
  "vmo_flags w self = inner_flags (inner_of w self)"

definition vmo_stream_size :: "'s vm_world \<Rightarrow> vmo \<Rightarrow> usize" where
  "vmo_stream_size w self = inner_stream_size (inner_of w self)"

definition pager_cookie :: "'s vm_world \<Rightarrow> vmo \<Rightarrow> usize option" where
  "pager_cookie w self = inner_pager_cookie (inner_of w self)"

definition fault_policy :: "'s vm_world \<Rightarrow> vmo \<Rightarrow> vmo_fault_policy" where
  "fault_policy w self =
     (if map_option child_kind (vmo_child self) = Some vmo_child_kind.PrivateCow then vmo_fault_policy.PrivateCow
      else if inner_pager_cookie (inner_of w self) \<noteq> None then vmo_fault_policy.PagerBacked
      else Immediate)"

definition bind_pager :: "'s vm_world \<Rightarrow> vmo \<Rightarrow> usize \<Rightarrow> bool \<times> 's vm_world" where
  "bind_pager w self cookie =
     (if vmo_child self \<noteq> None \<or> vmo_backing self \<noteq> Paged then (False, w)
      else if inner_pager_cookie (inner_of w self) \<noteq> None then (False, w)
      else (True, set_inner w self ((inner_of w self)\<lparr>inner_pager_cookie := Some cookie\<rparr>)))"

definition child_info :: "'s vm_world \<Rightarrow> vmo \<Rightarrow> vmo_child_info option" where
  "child_info w self =
     (case vmo_child self of
        None \<Rightarrow> None
      | Some child \<Rightarrow>
          Some \<lparr>info_kind = child_kind child, info_parent_id = vmo_id (child_parent child),
                info_parent_offset = child_parent_offset child, info_size = vmo_size w self,
                info_stream_size = vmo_stream_size w self\<rparr>)"

definition contains_offset :: "'s vm_world \<Rightarrow> vmo \<Rightarrow> usize \<Rightarrow> bool" where
  "contains_offset w self offset \<longleftrightarrow> offset < vmo_size w self"

definition offset_is_page_aligned :: "'s vm_world \<Rightarrow> vmo \<Rightarrow> usize \<Rightarrow> bool" where
  "offset_is_page_aligned w self offset \<longleftrightarrow>
     offset < vmo_size w self \<and> is_multiple_of offset (vmo_page_size self)"

text \<open>\<open>index.owner_at(offset)\<close>, then \<open>extents.get(owner)\<close>.\<close>

definition owner_of :: "vmo_inner \<Rightarrow> usize \<Rightarrow> usize option" where
  "owner_of inner offset = owner_at (index inner) offset"

definition local_page :: "vmo_inner \<Rightarrow> usize \<Rightarrow> vmo_page_metadata option" where
  "local_page inner offset =
     do {
       owner \<leftarrow> owner_of inner offset;
       extent \<leftarrow> vec_get (extents inner) owner;
       metadata_at extent offset
     }"

definition has_private_page_at :: "'s vm_world \<Rightarrow> vmo \<Rightarrow> usize \<Rightarrow> bool" where
  "has_private_page_at w self offset =
     (if \<not> offset_is_page_aligned w self offset then False
      else if map_option child_kind (vmo_child self) \<noteq> Some vmo_child_kind.PrivateCow then False
      else (case owner_of (inner_of w self) offset of
              None \<Rightarrow> False
            | Some owner \<Rightarrow> vec_get (extents (inner_of w self)) owner \<noteq> None))"

fun page_at :: "'s vm_world \<Rightarrow> vmo \<Rightarrow> usize \<Rightarrow> vmo_page_metadata option" where
  "page_at w (Vmo i nm ps bk None) offset =
     (if \<not> offset_is_page_aligned w (Vmo i nm ps bk None) offset then None
      else local_page (vmos w i) offset)"
| "page_at w (Vmo i nm ps bk (Some (VmoChildState parent parent_offset kind))) offset =
     (if \<not> offset_is_page_aligned w (Vmo i nm ps bk (Some (VmoChildState parent parent_offset kind))) offset
      then None
      else if kind = vmo_child_kind.PrivateCow \<and> owner_of (vmos w i) offset \<noteq> None then local_page (vmos w i) offset
      else (case checked_add parent_offset offset of
              None \<Rightarrow> None
            | Some translated \<Rightarrow> page_at w parent translated))"

definition mapping_mmu_flags_for_page ::
    "'s vm_world \<Rightarrow> vmo \<Rightarrow> usize \<Rightarrow> mmu_flags \<Rightarrow> mmu_flags outcome" where
  "mapping_mmu_flags_for_page w self offset requested =
     (case vmo_child self of
        None \<Rightarrow> Returned requested
      | Some child \<Rightarrow>
          if child_kind child \<noteq> vmo_child_kind.PrivateCow \<or> \<not> contains requested MMU_WRITE then Returned requested
          else if vmo_page_size self = 0 then Panicked
          else let page_offset = offset div vmo_page_size self * vmo_page_size self
               in Returned (if owner_of (inner_of w self) page_offset = None
                            then bits_remove requested MMU_WRITE else requested))"

definition can_map :: "'s vm_world \<Rightarrow> vmo \<Rightarrow> vm_flags \<Rightarrow> bool" where
  "can_map w self flags =
     (let current = vmo_flags w self
      in if \<not> contains current VM_FLAG_MAP then False
         else if contains flags VM_FLAG_READ \<and> \<not> contains current VM_FLAG_READ then False
         else if contains flags VM_FLAG_WRITE \<and> \<not> contains current VM_FLAG_WRITE then False
         else if contains flags VM_FLAG_EXECUTE \<and> \<not> contains current VM_FLAG_EXECUTE then False
         else True)"

definition resolve_fault :: "'s vm_world \<Rightarrow> vmo \<Rightarrow> usize \<Rightarrow> mmu_flags \<Rightarrow> vm_fault_resolution outcome" where
  "resolve_fault w self offset access =
     (if \<not> contains_offset w self offset then Returned vm_fault_resolution.InvalidRange
      else let required = bits_remove (from_mmu_flags access)
                 (VM_FLAG_USER OR VM_FLAG_DEVICE OR VM_FLAG_GLOBAL OR VM_FLAG_HUGE_PAGE)
      in if \<not> can_map w self required then Returned ProtectionDenied
      else if vmo_page_size self = 0 then Panicked
      else let page_offset = align_down_mask offset (vmo_page_size self)
      in Returned
        (if map_option child_kind (vmo_child self) = Some vmo_child_kind.PrivateCow
            \<and> contains access MMU_WRITE
            \<and> owner_of (inner_of w self) page_offset = None then vm_fault_resolution.PrivateCow
         else if page_at w self page_offset \<noteq> None then RetryAfterMap
         else (case fault_policy w self of
                 Immediate \<Rightarrow> Unresolved
               | vmo_fault_policy.PrivateCow \<Rightarrow> vm_fault_resolution.PrivateCow
               | vmo_fault_policy.PagerBacked \<Rightarrow> vm_fault_resolution.PagerBacked)))"

subsection \<open>Tracked frames\<close>

definition track_frame ::
    "'s frame_allocator \<Rightarrow> usize \<Rightarrow> 's vm_world \<Rightarrow> vmo \<Rightarrow> usize \<Rightarrow> phys_run \<Rightarrow> vmo_page_purpose \<Rightarrow> bool
     \<Rightarrow> (bool \<times> 's vm_world) outcome" where
  "track_frame A off w self offset frame purpose committed =
     (let reject = do {
            s \<leftarrow> run_drop A off frame (frame_state w);
            Returned (False, w\<lparr>frame_state := s\<rparr>)
          }
      in if vmo_child self \<noteq> None then reject
      else if \<not> offset_is_page_aligned w self offset \<or> run_unit_page_size frame \<noteq> vmo_page_size self
      then reject
      else case checked_add offset (len_bytes frame) of
        None \<Rightarrow> reject
      | Some end \<Rightarrow>
          if end > vmo_size w self then reject
          else let inner = inner_of w self
          in if \<exists>e \<in> set (extents inner). offset < ext_end e \<and> ext_offset e < end then reject
          else Returned (True, set_inner w self (reindex inner (extents inner @
            [\<lparr>ext_offset = offset, ext_frame = frame, ext_purpose = purpose,
              ext_committed = committed\<rparr>]))))"

definition untrack_frame ::
    "'s frame_allocator \<Rightarrow> usize \<Rightarrow> 's vm_world \<Rightarrow> vmo \<Rightarrow> usize
     \<Rightarrow> (vmo_page_metadata option \<times> 's vm_world) outcome" where
  "untrack_frame A off w self offset =
     (if vmo_child self \<noteq> None then Returned (None, w)
      else if \<not> offset_is_page_aligned w self offset then Returned (None, w)
      else if vmo_backing self \<noteq> Paged then Returned (None, w)
      else let inner = inner_of w self
      in case position (\<lambda>e. ext_offset e = offset) (extents inner) of
        None \<Rightarrow> Returned (None, w)
      | Some p \<Rightarrow>
          let removed = extents inner ! p
          in do {
            s \<leftarrow> run_drop A off (ext_frame removed) (frame_state w);
            Returned
              (Some \<lparr>meta_phys = run_phys_addr (ext_frame removed),
                     meta_purpose = ext_purpose removed,
                     meta_committed = ext_committed removed\<rparr>,
               (set_inner w self
                 (reindex inner (take p (extents inner) @ drop (Suc p) (extents inner))))
                 \<lparr>frame_state := s\<rparr>)
          })"

subsection \<open>Reading\<close>

text \<open>
  The loop of \<open>read_local\<close>, from \<open>cursor\<close> to \<open>end\<close>: the bytes read, or None when it returns
  false (the buffer of a failed read is not modelled). A cursor outside its owner's extent would
  underflow a subtraction or make no progress.
\<close>

function read_local_loop ::
    "usize \<Rightarrow> phys_mem \<Rightarrow> vmo_inner \<Rightarrow> usize \<Rightarrow> usize \<Rightarrow> u8 list option outcome" where
  "read_local_loop off m inner end cursor =
     (if \<not> cursor < end then Returned (Some [])
      else case owner_of inner cursor of
        None \<Rightarrow> Returned None
      | Some owner \<Rightarrow>
          (case vec_get (extents inner) owner of
             None \<Rightarrow> Returned None
           | Some extent \<Rightarrow>
               if \<not> ext_committed extent then Returned None
               else if cursor < ext_offset extent \<or> ext_end extent \<le> cursor then Panicked
               else let within = cursor - ext_offset extent;
                        available = ext_end extent - cursor;
                        chunk = min available (end - cursor)
               in case run_read off m (ext_frame extent) within chunk of
                    None \<Rightarrow> Panicked
                  | Some None \<Rightarrow> Returned None
                  | Some (Some bytes) \<Rightarrow>
                      map_option (map_option ((@) bytes))
                        (read_local_loop off m inner end (cursor + chunk))))"
  by pat_completeness auto

termination
  by (relation "measure (\<lambda>(off, m, inner, end, cursor). end - cursor)") auto

definition read_local :: "usize \<Rightarrow> 's vm_world \<Rightarrow> vmo \<Rightarrow> usize \<Rightarrow> usize \<Rightarrow> u8 list option outcome" where
  "read_local off w self offset len =
     (case checked_add offset len of
        None \<Rightarrow> Returned None
      | Some end \<Rightarrow>
          if end > vmo_size w self then Returned None
          else read_local_loop off (phys w) (inner_of w self) end offset)"

text \<open>The page loops advance by at least one byte.\<close>

lemma page_progress:
  assumes "c < e" and "0 < (ps :: nat)"
  shows "e - (c + min (ps + c div ps * ps - c) (e - c)) < e - c"
proof -
  have "0 < ps + c div ps * ps - c"
    using dividend_less_div_times [OF assms(2), of c] by simp
  with assms(1) show ?thesis by linarith
qed

text \<open>
  The page loop of \<open>read\<close> on a private child: \<open>loc\<close> reads the child's own pages, \<open>par\<close> the
  parent. A zero page size divides by zero.
\<close>

function cow_read_loop ::
    "(usize \<Rightarrow> usize \<Rightarrow> u8 list option outcome) \<Rightarrow> (usize \<Rightarrow> usize \<Rightarrow> u8 list option outcome)
     \<Rightarrow> vmo_inner \<Rightarrow> usize \<Rightarrow> usize \<Rightarrow> usize \<Rightarrow> usize \<Rightarrow> u8 list option outcome" where
  "cow_read_loop loc par inner page_size parent_off end cursor =
     (if \<not> cursor < end then Returned (Some [])
      else if page_size = 0 then Panicked
      else let page_offset = cursor div page_size * page_size;
               within_page = cursor - page_offset;
               chunk = min (page_size - within_page) (end - cursor);
               part = (if owner_of inner page_offset \<noteq> None then loc cursor chunk
                       else case checked_add parent_off cursor of
                         None \<Rightarrow> Returned None
                       | Some parent_offset \<Rightarrow> par parent_offset chunk)
      in case part of
           None \<Rightarrow> Panicked
         | Some None \<Rightarrow> Returned None
         | Some (Some bytes) \<Rightarrow>
             map_option (map_option ((@) bytes))
               (cow_read_loop loc par inner page_size parent_off end (cursor + chunk)))"
  by pat_completeness auto

termination
  by (relation "measure (\<lambda>(loc, par, inner, ps, po, end, cursor). end - cursor)")
    (auto simp: page_progress)

fun vmo_read :: "usize \<Rightarrow> 's vm_world \<Rightarrow> vmo \<Rightarrow> usize \<Rightarrow> usize \<Rightarrow> u8 list option outcome" where
  "vmo_read off w (Vmo i nm ps bk None) offset len = read_local off w (Vmo i nm ps bk None) offset len"
| "vmo_read off w (Vmo i nm ps bk (Some (VmoChildState parent parent_off kind))) offset len =
     (let self = Vmo i nm ps bk (Some (VmoChildState parent parent_off kind))
      in case checked_add offset len of
        None \<Rightarrow> Returned None
      | Some end \<Rightarrow>
          if end > vmo_size w self then Returned None
          else if kind = vmo_child_kind.PrivateCow
          then cow_read_loop (read_local off w self) (\<lambda>o' n. vmo_read off w parent o' n)
                 (inner_of w self) ps parent_off end offset
          else (case checked_add parent_off offset of
                  None \<Rightarrow> Returned None
                | Some parent_offset \<Rightarrow> vmo_read off w parent parent_offset len))"

subsection \<open>Writing\<close>

text \<open>A failed write keeps the bytes that earlier chunks have written.\<close>

function write_local_loop ::
    "usize \<Rightarrow> vmo_inner \<Rightarrow> usize \<Rightarrow> usize \<Rightarrow> u8 list \<Rightarrow> phys_mem \<Rightarrow> (bool \<times> phys_mem) outcome" where
  "write_local_loop off inner end cursor buf m =
     (if \<not> cursor < end then Returned (True, m)
      else case owner_of inner cursor of
        None \<Rightarrow> Returned (False, m)
      | Some owner \<Rightarrow>
          (case vec_get (extents inner) owner of
             None \<Rightarrow> Returned (False, m)
           | Some extent \<Rightarrow>
               if \<not> ext_committed extent then Returned (False, m)
               else if cursor < ext_offset extent \<or> ext_end extent \<le> cursor then Panicked
               else let within = cursor - ext_offset extent;
                        available = ext_end extent - cursor;
                        chunk = min available (end - cursor)
               in case run_write off m (ext_frame extent) within (take chunk buf) of
                    None \<Rightarrow> Panicked
                  | Some None \<Rightarrow> Returned (False, m)
                  | Some (Some m') \<Rightarrow>
                      write_local_loop off inner end (cursor + chunk) (drop chunk buf) m'))"
  by pat_completeness auto

termination
  by (relation "measure (\<lambda>(off, inner, end, cursor, buf, m). end - cursor)") auto

definition write_local ::
    "usize \<Rightarrow> 's vm_world \<Rightarrow> vmo \<Rightarrow> usize \<Rightarrow> u8 list \<Rightarrow> (bool \<times> 's vm_world) outcome" where
  "write_local off w self offset buf =
     (case checked_add offset (length buf) of
        None \<Rightarrow> Returned (False, w)
      | Some end \<Rightarrow>
          if end > vmo_size w self then Returned (False, w)
          else do {
            (ok, m) \<leftarrow> write_local_loop off (inner_of w self) end offset buf (phys w);
            Returned (ok, w\<lparr>phys := m\<rparr>)
          })"

function cow_write_loop ::
    "usize \<Rightarrow> vmo \<Rightarrow> usize \<Rightarrow> usize \<Rightarrow> u8 list \<Rightarrow> 's vm_world \<Rightarrow> (bool \<times> 's vm_world) outcome" where
  "cow_write_loop off self end cursor buf w =
     (if \<not> cursor < end then Returned (True, w)
      else if vmo_page_size self = 0 then Panicked
      else let page_size = vmo_page_size self;
               page_offset = cursor div page_size * page_size;
               within_page = cursor - page_offset;
               chunk = min (page_size - within_page) (end - cursor)
      in if owner_of (inner_of w self) page_offset = None then Returned (False, w)
         else case write_local off w self cursor (take chunk buf) of
                None \<Rightarrow> Panicked
              | Some (ok, w') \<Rightarrow>
                  if \<not> ok then Returned (False, w')
                  else cow_write_loop off self end (cursor + chunk) (drop chunk buf) w')"
  by pat_completeness auto

termination
  by (relation "measure (\<lambda>(off, self, end, cursor, buf, w). end - cursor)")
    (auto simp: page_progress)

fun vmo_write :: "usize \<Rightarrow> 's vm_world \<Rightarrow> vmo \<Rightarrow> usize \<Rightarrow> u8 list \<Rightarrow> (bool \<times> 's vm_world) outcome" where
  "vmo_write off w (Vmo i nm ps bk None) offset buf = write_local off w (Vmo i nm ps bk None) offset buf"
| "vmo_write off w (Vmo i nm ps bk (Some (VmoChildState parent parent_off kind))) offset buf =
     (let self = Vmo i nm ps bk (Some (VmoChildState parent parent_off kind))
      in case checked_add offset (length buf) of
        None \<Rightarrow> Returned (False, w)
      | Some end \<Rightarrow>
          if end > vmo_size w self then Returned (False, w)
          else if kind = vmo_child_kind.PrivateCow then cow_write_loop off self end offset buf w
          else (case checked_add parent_off offset of
                  None \<Rightarrow> Returned (False, w)
                | Some parent_offset \<Rightarrow> vmo_write off w parent parent_offset buf))"

definition transfer_from ::
    "usize \<Rightarrow> 's vm_world \<Rightarrow> vmo \<Rightarrow> usize \<Rightarrow> vmo \<Rightarrow> usize \<Rightarrow> usize \<Rightarrow> (bool \<times> 's vm_world) outcome" where
  "transfer_from off w self dst_offset src src_offset len =
     do {
       r \<leftarrow> vmo_read off w src src_offset len;
       (case r of
          None \<Rightarrow> Returned (False, w)
        | Some buffer \<Rightarrow> vmo_write off w self dst_offset buffer)
     }"

subsection \<open>Sizes and policy\<close>

definition set_size ::
    "'s frame_allocator \<Rightarrow> usize \<Rightarrow> 's vm_world \<Rightarrow> vmo \<Rightarrow> usize \<Rightarrow> (bool \<times> 's vm_world) outcome" where
  "set_size A off w self new_size =
     (if vmo_child self \<noteq> None then Returned (False, w)
      else if \<not> contains (vmo_flags w self) VM_FLAG_RESIZABLE
              \<or> \<not> is_multiple_of new_size (vmo_page_size self) then Returned (False, w)
      else let inner = inner_of w self
      in if new_size < inner_size inner
            \<and> (\<exists>e \<in> set (extents inner). ext_offset e < new_size \<and> new_size < ext_end e)
         then Returned (False, w)
         else let shrunk = (if new_size < inner_size inner
                     then reindex inner (filter (\<lambda>e. ext_offset e < new_size) (extents inner))
                     else inner);
                  dropped = (if new_size < inner_size inner
                     then filter (\<lambda>e. \<not> ext_offset e < new_size) (extents inner) else [])
         in do {
              s \<leftarrow> drop_runs A off (map ext_frame dropped) (frame_state w);
              Returned (True,
                (set_inner w self (shrunk\<lparr>inner_size := new_size,
                   inner_stream_size := min (inner_stream_size inner) new_size\<rparr>))
                \<lparr>frame_state := s\<rparr>)
            })"

definition set_stream_size :: "'s vm_world \<Rightarrow> vmo \<Rightarrow> usize \<Rightarrow> bool \<times> 's vm_world" where
  "set_stream_size w self new_stream_size =
     (let inner = inner_of w self
      in if new_stream_size > inner_size inner then (False, w)
         else (True, set_inner w self (inner\<lparr>inner_stream_size := new_stream_size\<rparr>)))"

definition set_cache_policy :: "'s vm_world \<Rightarrow> vmo \<Rightarrow> cache_policy \<Rightarrow> 's vm_world" where
  "set_cache_policy w self policy =
     (let inner = inner_of w self
      in set_inner w self (inner\<lparr>inner_flags := with_cache_policy (inner_flags inner) policy\<rparr>))"

subsection \<open>Committing and releasing ranges\<close>

text \<open>
  The loop of \<open>commit_range\<close>, under the write lock: \<open>inner\<close> and the allocator's state are the ones
  it leaves, also when it returns an error. The flag says whether extents were added.
\<close>

function commit_loop ::
    "'s frame_allocator \<Rightarrow> usize \<Rightarrow> usize \<Rightarrow> usize \<Rightarrow> vmo_page_purpose \<Rightarrow> usize \<Rightarrow> usize \<Rightarrow> bool
     \<Rightarrow> vmo_inner \<Rightarrow> 's \<Rightarrow> ((bool, vmo_range_op_error) result \<times> vmo_inner \<times> 's) outcome" where
  "commit_loop A off page_size frame_count purpose end page_offset index_dirty inner s =
     (if \<not> page_offset < end then Returned (Ok index_dirty, inner, s)
      else if page_size = 0 then Panicked
      else case owner_of inner page_offset of
        Some owner \<Rightarrow>
          (case vec_get (extents inner) owner of
             None \<Rightarrow> Returned (Err vmo_range_op_error.InvalidArgument, inner, s)
           | Some extent \<Rightarrow>
               commit_loop A off page_size frame_count purpose end (page_offset + page_size) index_dirty
                 (inner\<lparr>extents := (extents inner)[owner := extent\<lparr>ext_committed := True\<rparr>]\<rparr>) s)
      | None \<Rightarrow>
          (case alloc A None frame_zone_default frame_count s of
             (Inl _, s') \<Rightarrow> Returned (Err vmo_range_op_error.InvalidArgument, inner, s')
           | (Inr virt, s') \<Rightarrow>
               (case virt_to_phys off virt of
                  None \<Rightarrow> Returned (Err vmo_range_op_error.InvalidArgument, inner, s')
                | Some p \<Rightarrow>
                    (case from_addr True p frame_count of
                       None \<Rightarrow> Panicked
                     | Some frame \<Rightarrow>
                         commit_loop A off page_size frame_count purpose end (page_offset + page_size)
                           True
                           (inner\<lparr>extents := extents inner @
                              [\<lparr>ext_offset = page_offset, ext_frame = run_from_frame frame,
                                ext_purpose = purpose, ext_committed = True\<rparr>]\<rparr>) s'))))"
  by pat_completeness auto

termination
  by (relation "measure (\<lambda>(A, off, ps, fc, pp, end, po, d, inner, s). end - po)") auto

definition commit_range ::
    "'s frame_allocator \<Rightarrow> usize \<Rightarrow> 's vm_world \<Rightarrow> vmo \<Rightarrow> usize \<Rightarrow> usize \<Rightarrow> vmo_page_purpose
     \<Rightarrow> ((usize, vmo_range_op_error) result \<times> 's vm_world) outcome" where
  "commit_range A off w self offset len purpose =
     (let page_size = vmo_page_size self
      in if vmo_child self \<noteq> None \<or> vmo_backing self \<noteq> Paged \<or> len = 0
            \<or> \<not> is_multiple_of offset page_size \<or> \<not> is_multiple_of len page_size
         then Returned (Err vmo_range_op_error.InvalidArgument, w)
         else case checked_add offset len of
           None \<Rightarrow> Returned (Err vmo_range_op_error.InvalidRange, w)
         | Some end \<Rightarrow>
             if end > vmo_size w self then Returned (Err vmo_range_op_error.InvalidRange, w)
             else if unit_page_size A = 0 then Panicked
             else let frame_count = page_size div unit_page_size A
             in if frame_count = 0 \<or> frame_count * unit_page_size A \<noteq> page_size
                then Returned (Err vmo_range_op_error.InvalidArgument, w)
                else do {
                  (r, inner, s) \<leftarrow> commit_loop A off page_size frame_count purpose end offset False
                    (inner_of w self) (frame_state w);
                  (case r of
                     Inl e \<Rightarrow> Returned (Err e, (set_inner w self inner)\<lparr>frame_state := s\<rparr>)
                   | Inr index_dirty \<Rightarrow>
                       Returned (Ok len,
                         (set_inner w self (if index_dirty then reindex inner (extents inner) else inner))
                           \<lparr>frame_state := s\<rparr>))
                })"

text \<open>An extent that a page-aligned range touches, and one it covers only in part.\<close>

definition ext_outside :: "usize \<Rightarrow> usize \<Rightarrow> vmo_extent \<Rightarrow> bool" where
  "ext_outside offset end e \<longleftrightarrow> ext_end e \<le> offset \<or> end \<le> ext_offset e"

definition ext_partial :: "usize \<Rightarrow> usize \<Rightarrow> vmo_extent \<Rightarrow> bool" where
  "ext_partial offset end e \<longleftrightarrow> ext_offset e < offset \<or> end < ext_end e"

definition decommit_range ::
    "'s frame_allocator \<Rightarrow> usize \<Rightarrow> 's vm_world \<Rightarrow> vmo \<Rightarrow> usize \<Rightarrow> usize
     \<Rightarrow> ((usize, vmo_range_op_error) result \<times> 's vm_world) outcome" where
  "decommit_range A off w self offset len =
     (let page_size = vmo_page_size self
      in if vmo_child self \<noteq> None \<or> vmo_backing self \<noteq> Paged \<or> len = 0
            \<or> \<not> is_multiple_of offset page_size \<or> \<not> is_multiple_of len page_size
         then Returned (Err vmo_range_op_error.InvalidArgument, w)
         else case checked_add offset len of
           None \<Rightarrow> Returned (Err vmo_range_op_error.InvalidRange, w)
         | Some end \<Rightarrow>
             if end > vmo_size w self then Returned (Err vmo_range_op_error.InvalidRange, w)
             else let inner = inner_of w self
             in if \<exists>e \<in> set (extents inner). \<not> ext_outside offset end e \<and> ext_partial offset end e
                then Returned (Err vmo_range_op_error.InvalidArgument, w)
                else let keep = (\<lambda>e. ext_outside offset end e \<or> ext_partial offset end e);
                         kept = filter keep (extents inner)
                in do {
                  s \<leftarrow> drop_runs A off (map ext_frame (filter (\<lambda>e. \<not> keep e) (extents inner)))
                        (frame_state w);
                  Returned (Ok len,
                    (set_inner w self
                      (if length kept \<noteq> length (extents inner) then reindex inner kept
                       else inner\<lparr>extents := kept\<rparr>))
                      \<lparr>frame_state := s\<rparr>)
                })"

function zero_loop ::
    "usize \<Rightarrow> 's vm_world \<Rightarrow> vmo \<Rightarrow> usize \<Rightarrow> usize \<Rightarrow> phys_mem \<Rightarrow> phys_mem outcome" where
  "zero_loop off w self end page_offset m =
     (if \<not> page_offset < end then Returned m
      else if vmo_page_size self = 0 then Panicked
      else case page_at w self page_offset of
        Some meta \<Rightarrow>
          if meta_committed meta
          then (case zero_phys off m (meta_phys meta) (vmo_page_size self) of
                  None \<Rightarrow> Panicked
                | Some m' \<Rightarrow> zero_loop off w self end (page_offset + vmo_page_size self) m')
          else zero_loop off w self end (page_offset + vmo_page_size self) m
      | None \<Rightarrow> zero_loop off w self end (page_offset + vmo_page_size self) m)"
  by pat_completeness auto

termination
  by (relation "measure (\<lambda>(off, w, self, end, po, m). end - po)") auto

definition zero_range ::
    "usize \<Rightarrow> 's vm_world \<Rightarrow> vmo \<Rightarrow> usize \<Rightarrow> usize
     \<Rightarrow> ((usize, vmo_range_op_error) result \<times> 's vm_world) outcome" where
  "zero_range off w self offset len =
     (let page_size = vmo_page_size self
      in if vmo_child self \<noteq> None \<or> \<not> contains (vmo_flags w self) VM_FLAG_WRITE \<or> len = 0
            \<or> \<not> is_multiple_of offset page_size \<or> \<not> is_multiple_of len page_size
         then Returned (Err vmo_range_op_error.InvalidArgument, w)
         else case checked_add offset len of
           None \<Rightarrow> Returned (Err vmo_range_op_error.InvalidRange, w)
         | Some end \<Rightarrow>
             if end > vmo_size w self then Returned (Err vmo_range_op_error.InvalidRange, w)
             else do {
               m \<leftarrow> zero_loop off w self end offset (phys w);
               Returned (Ok len, w\<lparr>phys := m\<rparr>)
             })"

function committed_loop :: "'s vm_world \<Rightarrow> vmo \<Rightarrow> usize \<Rightarrow> usize \<Rightarrow> usize outcome" where
  "committed_loop w self end page_offset =
     (if \<not> page_offset < end then Returned 0
      else if vmo_page_size self = 0 then Panicked
      else map_option
        ((+) (if (case page_at w self page_offset of Some meta \<Rightarrow> meta_committed meta | None \<Rightarrow> False)
              then vmo_page_size self else 0))
        (committed_loop w self end (page_offset + vmo_page_size self)))"
  by pat_completeness auto

termination
  by (relation "measure (\<lambda>(w, self, end, po). end - po)") auto

definition query_committed_bytes ::
    "'s vm_world \<Rightarrow> vmo \<Rightarrow> usize \<Rightarrow> usize \<Rightarrow> (usize, vmo_range_op_error) result outcome" where
  "query_committed_bytes w self offset len =
     (let page_size = vmo_page_size self
      in if len = 0 \<or> \<not> is_multiple_of offset page_size \<or> \<not> is_multiple_of len page_size
         then Returned (Err vmo_range_op_error.InvalidArgument)
         else case checked_add offset len of
           None \<Rightarrow> Returned (Err vmo_range_op_error.InvalidRange)
         | Some end \<Rightarrow>
             if end > vmo_size w self then Returned (Err vmo_range_op_error.InvalidRange)
             else map_option Ok (committed_loop w self end offset))"

function tracked_loop :: "'s vm_world \<Rightarrow> vmo \<Rightarrow> vmo_child_state \<Rightarrow> usize \<Rightarrow> usize outcome" where
  "tracked_loop w self child offset =
     (if \<not> offset < vmo_size w self then Returned 0
      else if saturating_add offset (vmo_page_size self) \<le> offset then Panicked
      else map_option
        ((+) (if child_kind child = vmo_child_kind.PrivateCow \<and> owner_of (inner_of w self) offset \<noteq> None
              then 1
              else if page_at w (child_parent child) (child_parent_offset child + offset) \<noteq> None then 1
              else 0))
        (tracked_loop w self child (saturating_add offset (vmo_page_size self))))"
  by pat_completeness auto

termination
  by (relation "measure (\<lambda>(w, self, child, o'). vmo_size w self - o')") auto

definition tracked_pages :: "'s vm_world \<Rightarrow> vmo \<Rightarrow> usize outcome" where
  "tracked_pages w self =
     (case vmo_child self of
        Some child \<Rightarrow> tracked_loop w self child 0
      | None \<Rightarrow> Returned (sum_list (map (\<lambda>e. run_number (ext_frame e)) (extents (inner_of w self)))))"

subsection \<open>Children\<close>

definition create_child ::
    "'s vm_world \<Rightarrow> vmo \<Rightarrow> string \<Rightarrow> usize \<Rightarrow> usize \<Rightarrow> vmo option \<times> 's vm_world" where
  "create_child w self name offset sz =
     (if contains (vmo_flags w self) VM_FLAG_RESIZABLE \<or> sz = 0
         \<or> \<not> is_multiple_of offset (vmo_page_size self) \<or> \<not> is_multiple_of sz (vmo_page_size self)
      then (None, w)
      else case checked_add offset sz of
        None \<Rightarrow> (None, w)
      | Some end \<Rightarrow>
          if end > vmo_size w self then (None, w)
          else let flags = bits_remove (vmo_flags w self) VM_FLAG_RESIZABLE;
                   stream_size = min (saturating_sub (vmo_stream_size w self) offset) sz;
                   (child, w') = allocate_vmo w name (vmo_page_size self) (vmo_backing self)
                     (Some (VmoChildState self offset SharedView))
                     (vmo_inner_default\<lparr>inner_size := sz, inner_stream_size := stream_size,
                        inner_flags := flags\<rparr>)
               in (Some child, w'))"

definition create_private_child ::
    "'s vm_world \<Rightarrow> vmo \<Rightarrow> string \<Rightarrow> usize \<Rightarrow> usize \<Rightarrow> vmo option \<times> 's vm_world" where
  "create_private_child w self name offset sz =
     (if vmo_backing self \<noteq> Paged \<or> contains (vmo_flags w self) VM_FLAG_RESIZABLE \<or> sz = 0
         \<or> \<not> is_multiple_of offset (vmo_page_size self) \<or> \<not> is_multiple_of sz (vmo_page_size self)
      then (None, w)
      else case checked_add offset sz of
        None \<Rightarrow> (None, w)
      | Some end \<Rightarrow>
          if end > vmo_size w self then (None, w)
          else let flags = bits_remove (vmo_flags w self) VM_FLAG_RESIZABLE;
                   stream_size = min (saturating_sub (vmo_stream_size w self) offset) sz;
                   (child, w') = allocate_vmo w name (vmo_page_size self) Paged
                     (Some (VmoChildState self offset vmo_child_kind.PrivateCow))
                     (vmo_inner_default\<lparr>inner_size := sz, inner_stream_size := stream_size,
                        inner_flags := flags\<rparr>)
               in (Some child, w'))"

text \<open>The copy of the visible parent page, or a zeroed page, that a private child gets.\<close>

definition materialize_private_cow_page ::
    "'s frame_allocator \<Rightarrow> usize \<Rightarrow> 's vm_world \<Rightarrow> vmo \<Rightarrow> usize \<Rightarrow> vmo_page_purpose
     \<Rightarrow> (vmo_page_metadata option \<times> 's vm_world) outcome" where
  "materialize_private_cow_page A off w self offset fallback_purpose =
     (let page_size = vmo_page_size self
      in if page_size = 0 then Panicked
      else let page_offset = offset div page_size * page_size
      in if \<not> offset_is_page_aligned w self page_offset then Returned (None, w)
      else case vmo_child self of
        None \<Rightarrow> Returned (None, w)
      | Some child \<Rightarrow>
          if child_kind child \<noteq> vmo_child_kind.PrivateCow then Returned (None, w)
          else case checked_add (child_parent_offset child) page_offset of
            None \<Rightarrow> Returned (None, w)
          | Some source_offset \<Rightarrow>
              let source_page = page_at w (child_parent child) source_offset
              in if unit_page_size A = 0 then Panicked
              else let frame_count = page_size div unit_page_size A
              in if frame_count = 0 \<or> frame_count * unit_page_size A \<noteq> page_size
              then Returned (None, w)
              else let inner = inner_of w self
              in if owner_of inner page_offset \<noteq> None
              then Returned (local_page inner page_offset, w)
              else (case alloc A None frame_zone_default frame_count (frame_state w) of
                (Inl _, s) \<Rightarrow> Returned (None, w\<lparr>frame_state := s\<rparr>)
              | (Inr virt, s) \<Rightarrow>
                  (case virt_to_phys off virt of
                     None \<Rightarrow> Returned (None, w\<lparr>frame_state := s\<rparr>)
                   | Some p \<Rightarrow> do {
                       m \<leftarrow> (case source_page of
                              Some meta \<Rightarrow> copy_phys off (phys w) (meta_phys meta) p page_size
                            | None \<Rightarrow> zero_phys off (phys w) p page_size);
                       frame \<leftarrow> from_addr True p frame_count;
                       let es = extents inner @
                         [\<lparr>ext_offset = page_offset, ext_frame = run_from_frame frame,
                           ext_purpose = (case source_page of Some meta \<Rightarrow> meta_purpose meta
                                          | None \<Rightarrow> fallback_purpose),
                           ext_committed = True\<rparr>];
                       let inner' = reindex inner es;
                       Returned (local_page inner' page_offset,
                         (set_inner w self inner')\<lparr>phys := m, frame_state := s\<rparr>)
                     })))"

text \<open>The defining equations of the loops are applied one step at a time.\<close>

declare read_local_loop.simps [simp del] cow_read_loop.simps [simp del]
  write_local_loop.simps [simp del] cow_write_loop.simps [simp del] commit_loop.simps [simp del]
  zero_loop.simps [simp del] committed_loop.simps [simp del] tracked_loop.simps [simp del]

end
