(* ===== verification/Vmo_Local.thy ===== *)
theory Vmo_Local
  imports Vmo
begin

text \<open>
  The pages a memory object owns itself. \<open>inner_ok\<close> is the invariant of a \<open>VmoInner\<close>: a fresh index
  over disjoint, page-aligned extents. Under it the owner lookup is exact, and the byte loops of
  \<open>read_local\<close> and \<open>write_local\<close> are shown to implement access through the address map
  \<open>local_addr\<close>, chunk boundaries included.
\<close>

subsection \<open>Lookups through a fresh index\<close>

definition fresh_index :: "vmo_inner \<Rightarrow> bool" where
  "fresh_index inner \<longleftrightarrow> index inner = rebuild (snapshots (extents inner))"

definition exts_disjoint :: "vmo_extent list \<Rightarrow> bool" where
  "exts_disjoint es \<longleftrightarrow>
     (\<forall>i j x. i < length es \<longrightarrow> j < length es \<longrightarrow> ext_contains (es ! i) x \<longrightarrow> ext_contains (es ! j) x
        \<longrightarrow> i = j)"

lemma covering_SomeD:
  "covering ts x acc = Some k \<Longrightarrow> acc = Some k \<or> (\<exists>s e. (k, s, e) \<in> set ts \<and> s \<le> x \<and> x < e)"
  by (induction ts x acc rule: covering.induct) (auto split: if_splits)

lemma covering_NoneD: "covering ts x acc = None \<Longrightarrow> (k, s, e) \<in> set ts \<Longrightarrow> \<not> (s \<le> x \<and> x < e)"
proof (induction ts x acc rule: covering.induct)
  case (2 k' s' e' rest x acc)
  have some: "covering rest x (Some k') \<noteq> None" for rest :: "snapshot list" and k'
    by (induction rest x "Some k'" arbitrary: k' rule: covering.induct) auto
  from 2 some [of rest k'] show ?case by (auto split: if_splits)
qed simp

lemma set_snapshots: "(k, s, e) \<in> set (snapshots es) \<longleftrightarrow>
    k < length es \<and> s = ext_offset (es ! k) \<and> e = ext_end (es ! k)"
  by (auto simp: snapshots_def in_set_enumerate_eq)

lemma owner_of_SomeD:
  assumes "fresh_index inner" and "owner_of inner x = Some i"
  shows "i < length (extents inner)" and "ext_contains (extents inner ! i) x"
  using assms covering_SomeD [of "snapshots (extents inner)" x None i]
  by (auto simp: fresh_index_def owner_of_def owner_at_rebuild set_snapshots ext_contains_def)

lemma owner_of_None:
  assumes "fresh_index inner"
  shows "owner_of inner x = None \<longleftrightarrow> (\<forall>e \<in> set (extents inner). \<not> ext_contains e x)"
proof
  assume "owner_of inner x = None"
  then have "covering (snapshots (extents inner)) x None = None"
    using assms by (simp add: fresh_index_def owner_of_def owner_at_rebuild)
  from covering_NoneD [OF this]
  have "\<not> ext_contains (extents inner ! k) x" if "k < length (extents inner)" for k
    using that by (simp add: set_snapshots ext_contains_def)
  then show "\<forall>e \<in> set (extents inner). \<not> ext_contains e x"
    by (metis in_set_conv_nth)
next
  assume "\<forall>e \<in> set (extents inner). \<not> ext_contains e x"
  then show "owner_of inner x = None"
    using owner_of_SomeD [OF assms] by (metis not_None_eq nth_mem)
qed

lemma owner_of_eq:
  assumes "fresh_index inner" and "exts_disjoint (extents inner)"
  shows "owner_of inner x = Some i \<longleftrightarrow> i < length (extents inner) \<and> ext_contains (extents inner ! i) x"
proof
  assume r: "i < length (extents inner) \<and> ext_contains (extents inner ! i) x"
  then have "owner_of inner x \<noteq> None"
    using owner_of_None [OF assms(1)] nth_mem by blast
  then obtain j where "owner_of inner x = Some j" by blast
  with owner_of_SomeD [OF assms(1) this] r assms(2) show "owner_of inner x = Some i"
    by (auto simp: exts_disjoint_def)
qed (use owner_of_SomeD [OF assms(1)] in blast)

lemma fresh_reindex [simp]: "fresh_index (reindex inner es)"
  by (simp add: fresh_index_def reindex_def)

lemma reindex_simps [simp]:
  "extents (reindex inner es) = es"
  "inner_size (reindex inner es) = inner_size inner"
  "inner_stream_size (reindex inner es) = inner_stream_size inner"
  "inner_flags (reindex inner es) = inner_flags inner"
  "inner_pager_cookie (reindex inner es) = inner_pager_cookie inner"
  by (simp_all add: reindex_def)

lemma exts_disjoint_Nil [simp]: "exts_disjoint []"
  by (simp add: exts_disjoint_def)

lemma exts_disjoint_snoc:
  "exts_disjoint (es @ [e]) \<longleftrightarrow>
     exts_disjoint es \<and> (\<forall>e' \<in> set es. \<forall>x. \<not> (ext_contains e' x \<and> ext_contains e x))"
  (is "?L \<longleftrightarrow> ?R")
proof
  assume L: ?L
  have "i = j" if "i < length es" "j < length es" "ext_contains (es ! i) x" "ext_contains (es ! j) x" for i j x
    using L that unfolding exts_disjoint_def
    by (metis (no_types, lifting) length_append_singleton less_SucI nth_append)
  moreover have "\<not> (ext_contains (es ! i) x \<and> ext_contains e x)" if "i < length es" for i x
  proof
    assume "ext_contains (es ! i) x \<and> ext_contains e x"
    then have "i = length es"
      using L that unfolding exts_disjoint_def
      by (metis length_append_singleton lessI less_SucI nth_append nth_append_length)
    with that show False by simp
  qed
  ultimately show ?R
    by (auto simp: exts_disjoint_def in_set_conv_nth)
next
  assume R: ?R
  then have out: "\<not> (ext_contains (es ! i) x \<and> ext_contains e x)" if "i < length es" for i x
    using that nth_mem by blast
  show ?L
    unfolding exts_disjoint_def
  proof (intro allI impI)
    fix i j x
    assume a: "i < length (es @ [e])" "j < length (es @ [e])"
      "ext_contains ((es @ [e]) ! i) x" "ext_contains ((es @ [e]) ! j) x"
    consider "i < length es" "j < length es" | "i < length es" "j = length es"
      | "i = length es" "j < length es" | "i = length es" "j = length es"
      using a by fastforce
    then show "i = j"
    proof cases
      case 1
      with a R show ?thesis by (auto simp: nth_append exts_disjoint_def)
    qed (use a out in \<open>auto simp: nth_append\<close>)
  qed
qed

lemma exts_disjoint_filter: "exts_disjoint es \<Longrightarrow> exts_disjoint (filter P es)"
proof (induction es rule: rev_induct)
  case (snoc e es)
  then show ?case by (auto simp: exts_disjoint_snoc)
qed simp

lemma exts_disjoint_map_same:
  assumes "exts_disjoint es" and "length es' = length es"
    and "\<And>i x. i < length es \<Longrightarrow> ext_contains (es' ! i) x = ext_contains (es ! i) x"
  shows "exts_disjoint es'"
  using assms by (auto simp: exts_disjoint_def)

subsection \<open>The address map\<close>

definition local_addr :: "vmo_inner \<Rightarrow> usize \<Rightarrow> phys_addr option" where
  "local_addr inner x =
     (case local_page inner x of
        Some meta \<Rightarrow> if meta_committed meta then Some (meta_phys meta) else None
      | None \<Rightarrow> None)"

definition ext_addr :: "vmo_extent \<Rightarrow> usize \<Rightarrow> phys_addr" where
  "ext_addr e x = run_phys_addr (ext_frame e) + (x - ext_offset e)"

lemma local_page_owner:
  assumes "fresh_index inner" and "owner_of inner x = Some i"
  shows "local_page inner x =
    Some \<lparr>meta_phys = ext_addr (extents inner ! i) x, meta_purpose = ext_purpose (extents inner ! i),
          meta_committed = ext_committed (extents inner ! i)\<rparr>"
proof -
  note o = owner_of_SomeD [OF assms]
  with assms(2) show ?thesis
    by (simp add: local_page_def metadata_at_def ext_addr_def)
qed

lemma local_page_None_iff:
  "fresh_index inner \<Longrightarrow> local_page inner x = None \<longleftrightarrow> owner_of inner x = None"
  by (cases "owner_of inner x") (simp_all add: local_page_owner, simp add: local_page_def)

lemma local_addr_owner:
  assumes "fresh_index inner" and "owner_of inner x = Some i"
  shows "local_addr inner x =
    (if ext_committed (extents inner ! i) then Some (ext_addr (extents inner ! i) x) else None)"
  using local_page_owner [OF assms] by (simp add: local_addr_def)

lemma local_addr_None: "owner_of inner x = None \<Longrightarrow> local_addr inner x = None"
  by (simp add: local_addr_def local_page_def)

text \<open>Every byte of every run is reachable through the kernel's linear mapping.\<close>

definition addressable :: "usize \<Rightarrow> vmo_inner \<Rightarrow> bool" where
  "addressable off inner \<longleftrightarrow>
     (\<forall>e \<in> set (extents inner). run_phys_addr (ext_frame e) + len_bytes (ext_frame e) + off \<le> usize_max)"

definition mapped :: "vmo_inner \<Rightarrow> usize \<Rightarrow> usize \<Rightarrow> bool" where
  "mapped inner c e \<longleftrightarrow> (\<forall>x. c \<le> x \<and> x < e \<longrightarrow> local_addr inner x \<noteq> None)"

definition local_bytes :: "phys_mem \<Rightarrow> vmo_inner \<Rightarrow> usize \<Rightarrow> usize \<Rightarrow> u8 list" where
  "local_bytes m inner c e = map (\<lambda>x. m (the (local_addr inner x))) [c ..< e]"

text \<open>What one iteration of the byte loops relies on: the chunk that starts at the cursor.\<close>

lemma chunk_facts:
  assumes ok: "fresh_index inner" "exts_disjoint (extents inner)" "addressable off inner"
    and own: "owner_of inner c = Some i" and com: "ext_committed (extents inner ! i)"
    and c: "c < e"
  defines "x \<equiv> extents inner ! i"
  defines "n \<equiv> min (ext_end x - c) (e - c)"
  shows "ext_offset x \<le> c" and "c < ext_end x" and "0 < n" and "c + n \<le> e"
    and "\<And>y. c \<le> y \<Longrightarrow> y < c + n \<Longrightarrow> local_addr inner y = Some (ext_addr x c + (y - c))"
    and "c - ext_offset x + n \<le> len_bytes (ext_frame x)"
    and "c - ext_offset x + n \<le> usize_max"
    and "run_phys_addr (ext_frame x) + (c - ext_offset x) + off \<le> usize_max"
    and "ext_addr x c = run_phys_addr (ext_frame x) + (c - ext_offset x)"
proof -
  note o = owner_of_SomeD [OF ok(1) own]
  show b: "ext_offset x \<le> c" "c < ext_end x"
    using o(2) by (auto simp: ext_contains_def x_def)
  show n: "0 < n" "c + n \<le> e"
    using b c by (auto simp: n_def)
  show "local_addr inner y = Some (ext_addr x c + (y - c))" if "c \<le> y" "y < c + n" for y
  proof -
    have "ext_contains x y"
      using that b by (auto simp: ext_contains_def n_def)
    then have "owner_of inner y = Some i"
      using o(1) owner_of_eq [OF ok(1,2)] by (simp add: x_def)
    with that b com show ?thesis
      by (simp add: local_addr_owner [OF ok(1)] ext_addr_def x_def)
  qed
  have "x \<in> set (extents inner)" using o(1) by (simp add: x_def)
  with ok(3) have a: "run_phys_addr (ext_frame x) + len_bytes (ext_frame x) + off \<le> usize_max"
    by (simp add: addressable_def)
  show l: "c - ext_offset x + n \<le> len_bytes (ext_frame x)"
    using b by (auto simp: n_def ext_end_def)
  with a show "c - ext_offset x + n \<le> usize_max"
    and "run_phys_addr (ext_frame x) + (c - ext_offset x) + off \<le> usize_max"
    by linarith+
qed (simp add: ext_addr_def)

lemma run_read_in:
  "o' + n \<le> len_bytes r \<Longrightarrow> o' + n \<le> usize_max \<Longrightarrow> run_phys_addr r + o' + off \<le> usize_max \<Longrightarrow>
     run_read off m r o' n = Some (Some (mem_bytes m (run_phys_addr r + o') n))"
  by (simp add: run_read_def read_phys_eq checked_add_def)

lemma run_write_in:
  "o' + length d \<le> len_bytes r \<Longrightarrow> o' + length d \<le> usize_max \<Longrightarrow>
     run_phys_addr r + o' + off \<le> usize_max \<Longrightarrow>
     run_write off m r o' d = Some (Some (mem_store m (run_phys_addr r + o') d))"
  by (simp add: run_write_def write_phys_eq checked_add_def)

lemma mapped_split:
  assumes "c \<le> d" and "d \<le> e"
  shows "mapped inner c e \<longleftrightarrow> mapped inner c d \<and> mapped inner d e"
  using assms unfolding mapped_def
  by (metis dual_order.strict_trans1 le_trans linorder_not_less order_less_le_trans)

text \<open>\<open>read_local\<close>'s loop returns the bytes behind the range, when all of it is committed.\<close>

lemma read_local_loop_spec:
  assumes "fresh_index inner" and "exts_disjoint (extents inner)" and "addressable off inner"
  shows "read_local_loop off m inner e c =
    Some (if mapped inner c e then Some (local_bytes m inner c e) else None)"
  using assms
proof (induction off m inner e c rule: read_local_loop.induct)
  case (1 off m inner e c)
  show ?case
  proof (cases "c < e \<and> local_addr inner c \<noteq> None")
    case False
    then show ?thesis
      using owner_of_SomeD [OF "1.prems"(1)]
      by (subst read_local_loop.simps)
        (auto simp: mapped_def local_bytes_def local_addr_owner [OF "1.prems"(1)] split: option.splits)
  next
    case True
    then obtain i where own: "owner_of inner c = Some i"
      using local_addr_None by (metis not_None_eq)
    with True have com: "ext_committed (extents inner ! i)"
      by (auto simp: local_addr_owner [OF "1.prems"(1)] split: if_splits)
    define n where "n = min (ext_end (extents inner ! i) - c) (e - c)"
    let ?x = "extents inner ! i"
    note f = chunk_facts [OF "1.prems" own com conjunct1 [OF True], folded n_def]
    have i: "i < length (extents inner)" by (rule owner_of_SomeD [OF "1.prems"(1) own])
    have read: "run_read off m (ext_frame ?x) (c - ext_offset ?x) n = Some (Some (mem_bytes m (ext_addr ?x c) n))"
      using f(6-9) by (simp add: run_read_in)
    have here: "mapped inner c (c + n)" using f(5) by (simp add: mapped_def)
    have bytes: "local_bytes m inner c (c + n) = mem_bytes m (ext_addr ?x c) n"
      using f(5) by (intro nth_equalityI) (simp_all add: local_bytes_def)
    have all: "local_bytes m inner c e = mem_bytes m (ext_addr ?x c) n @ local_bytes m inner (c + n) e"
      using f(4) upt_add_eq_append [of c "c + n" "e - (c + n)"] bytes by (simp add: local_bytes_def)
    have rest: "read_local_loop off m inner e (c + n) =
      Some (if mapped inner (c + n) e then Some (local_bytes m inner (c + n) e) else None)"
      using True f(1,2) com
      by (intro "1.IH" [OF _ own _ _ _ refl refl n_def read refl "1.prems"]) (auto simp: i)
    show ?thesis
      using True own i com f(1-4) read rest here all mapped_split [of c "c + n" e inner]
      by (subst read_local_loop.simps) (simp add: Let_def n_def [symmetric])
  qed
qed

text \<open>No two offsets share a physical byte.\<close>

definition addr_inj :: "vmo_inner \<Rightarrow> bool" where
  "addr_inj inner \<longleftrightarrow>
     (\<forall>x y a. local_addr inner x = Some a \<longrightarrow> local_addr inner y = Some a \<longrightarrow> x = y)"

text \<open>
  \<open>write_local\<close>'s loop succeeds when the whole range is committed, touches no byte outside the
  range, and leaves the data behind the offsets it was given.
\<close>

lemma write_local_loop_spec:
  assumes "fresh_index inner" and "exts_disjoint (extents inner)" and "addressable off inner"
    and "length buf = e - c"
  shows "\<exists>m'. write_local_loop off inner e c buf m = Some (mapped inner c e, m') \<and>
    (\<forall>a. (\<forall>x. c \<le> x \<and> x < e \<longrightarrow> local_addr inner x \<noteq> Some a) \<longrightarrow> m' a = m a) \<and>
    (addr_inj inner \<and> mapped inner c e \<longrightarrow>
       (\<forall>x. c \<le> x \<and> x < e \<longrightarrow> m' (the (local_addr inner x)) = buf ! (x - c)))"
  using assms
proof (induction off inner e c buf m rule: write_local_loop.induct)
  case (1 off inner e c buf m)
  note ok = "1.prems"(1-3)
  show ?case
  proof (cases "c < e \<and> local_addr inner c \<noteq> None")
    case False
    then show ?thesis
      using owner_of_SomeD [OF ok(1)]
      by (subst write_local_loop.simps)
        (auto simp: mapped_def local_addr_owner [OF ok(1)] split: option.splits)
  next
    case True
    then obtain i where own: "owner_of inner c = Some i"
      using local_addr_None by (metis not_None_eq)
    with True have com: "ext_committed (extents inner ! i)"
      by (auto simp: local_addr_owner [OF ok(1)] split: if_splits)
    define n where "n = min (ext_end (extents inner ! i) - c) (e - c)"
    let ?x = "extents inner ! i" and ?a = "ext_addr (extents inner ! i) c"
    let ?m = "mem_store m ?a (take n buf)"
    note f = chunk_facts [OF ok own com conjunct1 [OF True], folded n_def]
    have i: "i < length (extents inner)" by (rule owner_of_SomeD [OF ok(1) own])
    have len: "length (take n buf) = n" using "1.prems"(4) f(4) by simp
    have wr: "run_write off m (ext_frame ?x) (c - ext_offset ?x) (take n buf) = Some (Some ?m)"
      using f(6-9) len by (simp add: run_write_in)
    have here: "mapped inner c (c + n)" using f(5) by (simp add: mapped_def)
    have len': "length (drop n buf) = e - (c + n)" using "1.prems"(4) by simp
    have "\<exists>m'. write_local_loop off inner e (c + n) (drop n buf) ?m = Some (mapped inner (c + n) e, m') \<and>
      (\<forall>a. (\<forall>x. c + n \<le> x \<and> x < e \<longrightarrow> local_addr inner x \<noteq> Some a) \<longrightarrow> m' a = ?m a) \<and>
      (addr_inj inner \<and> mapped inner (c + n) e \<longrightarrow>
        (\<forall>x. c + n \<le> x \<and> x < e \<longrightarrow> m' (the (local_addr inner x)) = drop n buf ! (x - (c + n))))"
      using True f(1,2) com by (intro "1.IH" [OF _ own _ _ _ refl refl n_def wr refl ok len']) (auto simp: i)
    then obtain m' where rest:
        "write_local_loop off inner e (c + n) (drop n buf) ?m = Some (mapped inner (c + n) e, m')"
      and frame: "\<And>a. (\<forall>x. c + n \<le> x \<and> x < e \<longrightarrow> local_addr inner x \<noteq> Some a) \<Longrightarrow> m' a = ?m a"
      and data: "\<And>x. addr_inj inner \<Longrightarrow> mapped inner (c + n) e \<Longrightarrow> c + n \<le> x \<Longrightarrow> x < e \<Longrightarrow>
        m' (the (local_addr inner x)) = drop n buf ! (x - (c + n))"
      by blast
    have "write_local_loop off inner e c buf m = Some (mapped inner c e, m')"
      using True own i com f(1-4) wr rest here mapped_split [of c "c + n" e inner]
      by (subst write_local_loop.simps) (simp add: Let_def n_def [symmetric])
    moreover have "m' a = m a" if out: "\<forall>x. c \<le> x \<and> x < e \<longrightarrow> local_addr inner x \<noteq> Some a" for a
    proof -
      have "\<not> (?a \<le> a \<and> a < ?a + n)"
      proof
        assume "?a \<le> a \<and> a < ?a + n"
        then have "local_addr inner (c + (a - ?a)) = Some a" "c + (a - ?a) < e"
          using f(4) f(5) [of "c + (a - ?a)"] by auto
        with out show False by simp
      qed
      then have "?m a = m a" using len by (auto simp: mem_store_def)
      with frame [of a] out show ?thesis by simp
    qed
    moreover have "m' (the (local_addr inner x)) = buf ! (x - c)"
      if inj: "addr_inj inner" and map: "mapped inner c e" and x: "c \<le> x" "x < e" for x
    proof (cases "x < c + n")
      case True
      with f(5) x have ax: "local_addr inner x = Some (?a + (x - c))" by simp
      with inj True have "\<forall>y. c + n \<le> y \<and> y < e \<longrightarrow> local_addr inner y \<noteq> Some (?a + (x - c))"
        unfolding addr_inj_def by (metis leD)
      with frame have "m' (?a + (x - c)) = ?m (?a + (x - c))" by blast
      moreover have "x - c < n" "x - c < length buf" using True x "1.prems"(4) by simp_all
      ultimately show ?thesis using ax len by (simp add: mem_store_apply)
    next
      case False
      moreover have "mapped inner (c + n) e"
        using map f(4) mapped_split [of c "c + n" e inner] by simp
      moreover have "drop n buf ! (x - (c + n)) = buf ! (x - c)"
        using False "1.prems"(4) f(4) by (simp add: nth_drop)
      ultimately show ?thesis using data inj x by simp
    qed
    ultimately show ?thesis by blast
  qed
qed

end
