(* ===== verification/Vmo_Commit.thy ===== *)
theory Vmo_Commit
  imports Vmo_Local
begin

text \<open>
  Committing a range of a memory object. The loop of \<open>commit_range\<close> appends extents while it looks
  owners up in the index as it was before, so its correctness is an invariant that relates the
  growing extent list to the list the index was built from. The lemmas give what a successful and a
  failed commit leave behind.
\<close>

subsection \<open>Page-aligned extents\<close>

definition ext_aligned :: "usize \<Rightarrow> vmo_extent \<Rightarrow> bool" where
  "ext_aligned ps e \<longleftrightarrow> ps dvd ext_offset e \<and> ps dvd ext_end e"

lemma aligned_page_meets:
  fixes ps po x a b :: nat
  assumes "ps dvd a" "ps dvd b" "ps dvd po"
    and "a \<le> x" "x < b" "po \<le> x" "x < po + ps"
  shows "a \<le> po \<and> po < b"
proof -
  from assms(1-3) obtain i j k where d: "a = ps * i" "b = ps * j" "po = ps * k"
    by (auto elim!: dvdE)
  have "ps * i < ps * (k + 1)" using assms d by (simp add: algebra_simps)
  then have "i < k + 1" by (rule mult_less_cancel1 [THEN iffD1, THEN conjunct2])
  moreover have "ps * k < ps * j" using assms d by linarith
  ultimately show ?thesis using d by simp
qed

lemma ext_aligned_page:
  "ext_aligned ps e \<Longrightarrow> ps dvd po \<Longrightarrow> ext_contains e x \<Longrightarrow> po \<le> x \<Longrightarrow> x < po + ps \<Longrightarrow> ext_contains e po"
  unfolding ext_aligned_def ext_contains_def
  using aligned_page_meets [of ps "ext_offset e" "ext_end e" po x] by blast

lemma ext_aligned_page_all:
  assumes "ext_aligned ps e" "ps dvd po" "ext_contains e po" "po \<le> x" "x < po + ps"
  shows "ext_contains e x"
proof -
  have "po + ps \<le> ext_end e"
  proof -
    have "po < ext_end e" "ps dvd ext_end e"
      using assms by (auto simp: ext_aligned_def ext_contains_def)
    moreover from this assms(2) have "ps dvd ext_end e - po" by (simp add: dvd_diff_nat)
    ultimately have "ps \<le> ext_end e - po" by (intro dvd_imp_le) simp_all
    with \<open>po < ext_end e\<close> show ?thesis by linarith
  qed
  with assms show ?thesis by (auto simp: ext_contains_def)
qed

text \<open>A page of its own at an offset that has no owner.\<close>

lemma fresh_page_disjoint:
  assumes "\<forall>e \<in> set es. ext_aligned ps e" and "ps dvd po"
    and "\<forall>e \<in> set es. \<not> ext_contains e po"
    and "ext_offset n = po" and "ext_end n = po + ps"
  shows "\<forall>e \<in> set es. \<forall>x. \<not> (ext_contains e x \<and> ext_contains n x)"
proof (intro ballI allI notI)
  fix e x
  assume e: "e \<in> set es" and x: "ext_contains e x \<and> ext_contains n x"
  then have "po \<le> x" "x < po + ps" using assms(4,5) by (auto simp: ext_contains_def)
  with e x assms(1-3) ext_aligned_page show False by blast
qed

subsection \<open>The commit loop\<close>

text \<open>Extents that differ at most in the committed bit.\<close>

definition same_ext :: "vmo_extent \<Rightarrow> vmo_extent \<Rightarrow> bool" where
  "same_ext e e' \<longleftrightarrow>
     ext_offset e' = ext_offset e \<and> ext_frame e' = ext_frame e \<and> ext_purpose e' = ext_purpose e"

lemma same_ext_refl [simp]: "same_ext e e"
  by (simp add: same_ext_def)

lemma same_ext_contains: "same_ext e e' \<Longrightarrow> ext_contains e' = ext_contains e"
  by (auto simp: same_ext_def ext_contains_def ext_end_def fun_eq_iff)

lemma same_ext_end: "same_ext e e' \<Longrightarrow> ext_end e' = ext_end e \<and> ext_offset e' = ext_offset e"
  by (auto simp: same_ext_def ext_end_def)

lemma same_exts_trans:
  "list_all2 same_ext as bs \<Longrightarrow> list_all2 same_ext bs cs \<Longrightarrow> list_all2 same_ext as cs"
  by (simp add: list_all2_conv_all_nth same_ext_def)

lemma same_exts_disjoint:
  assumes "list_all2 same_ext es es'" and "exts_disjoint es"
  shows "exts_disjoint es'"
proof (rule exts_disjoint_map_same [OF assms(2)])
  show "length es' = length es" using assms(1) by (simp add: list_all2_lengthD)
  show "ext_contains (es' ! i) x = ext_contains (es ! i) x" if "i < length es" for i x
    using list_all2_nthD [OF assms(1) that] by (simp add: same_ext_contains)
qed

lemma same_exts_bounds:
  assumes "list_all2 same_ext es es'" and "\<forall>e \<in> set es. ext_aligned ps e \<and> ext_end e \<le> sz"
  shows "\<forall>e \<in> set es'. ext_aligned ps e \<and> ext_end e \<le> sz"
proof
  fix e
  assume "e \<in> set es'"
  then obtain i where i: "i < length es'" "e = es' ! i" by (metis in_set_conv_nth)
  then have "i < length es" using assms(1) by (simp add: list_all2_lengthD)
  with list_all2_nthD [OF assms(1) this] i assms(2) show "ext_aligned ps e \<and> ext_end e \<le> sz"
    by (simp add: same_ext_end ext_aligned_def)
qed

lemma snapshots_same: "list_all2 same_ext es es' \<Longrightarrow> snapshots es' = snapshots es"
  by (rule nth_equalityI)
    (auto simp: snapshots_def list_all2_conv_all_nth nth_enumerate_eq dest: same_ext_end)

record commit_frame =
  cf_base :: "vmo_extent list"
  cf_old :: "vmo_extent list"
  cf_new :: "vmo_extent list"

text \<open>
  The loop invariant at \<open>po\<close>: the index was built from \<open>cf_base\<close>; the extents are the same ones,
  some newly marked committed (\<open>cf_old\<close>), followed by the pages committed so far (\<open>cf_new\<close>).
\<close>

definition commit_inv :: "usize \<Rightarrow> usize \<Rightarrow> usize \<Rightarrow> commit_frame \<Rightarrow> vmo_inner \<Rightarrow> bool" where
  "commit_inv ps sz po f inner \<longleftrightarrow>
     index inner = rebuild (snapshots (cf_base f)) \<and>
     extents inner = cf_old f @ cf_new f \<and>
     list_all2 same_ext (cf_base f) (cf_old f) \<and>
     exts_disjoint (extents inner) \<and>
     (\<forall>e \<in> set (extents inner). ext_aligned ps e \<and> ext_end e \<le> sz) \<and>
     (\<forall>e \<in> set (cf_new f). ext_end e \<le> po \<and> ext_committed e)"

lemma commit_invD:
  assumes "commit_inv ps sz po f inner"
  shows "index inner = rebuild (snapshots (cf_base f))"
    and "extents inner = cf_old f @ cf_new f"
    and "list_all2 same_ext (cf_base f) (cf_old f)"
    and "exts_disjoint (extents inner)"
    and "\<forall>e \<in> set (extents inner). ext_aligned ps e \<and> ext_end e \<le> sz"
    and "\<forall>e \<in> set (cf_new f). ext_end e \<le> po \<and> ext_committed e"
  using assms unfolding commit_inv_def by blast+

lemma commit_inv_owner:
  assumes "commit_inv ps sz po f inner" and "owner_of inner x = Some i"
  shows "i < length (cf_old f)" and "ext_contains (cf_old f ! i) x"
proof -
  let ?b = "inner\<lparr>extents := cf_base f\<rparr>"
  have "fresh_index ?b" "owner_of ?b x = Some i"
    using assms by (simp_all add: commit_inv_def fresh_index_def owner_of_def)
  from owner_of_SomeD [OF this] assms(1)
  show "i < length (cf_old f)" "ext_contains (cf_old f ! i) x"
    by (auto simp: commit_inv_def list_all2_conv_all_nth dest!: same_ext_contains)
qed

lemma commit_inv_no_owner:
  assumes "commit_inv ps sz po f inner" and "owner_of inner x = None" and "po \<le> x"
  shows "\<forall>e \<in> set (extents inner). \<not> ext_contains e x"
proof -
  let ?b = "inner\<lparr>extents := cf_base f\<rparr>"
  have "fresh_index ?b" "owner_of ?b x = None"
    using assms by (simp_all add: commit_inv_def fresh_index_def owner_of_def)
  then have "\<forall>e \<in> set (cf_base f). \<not> ext_contains e x"
    using owner_of_None by fastforce
  then have "\<forall>e \<in> set (cf_old f). \<not> ext_contains e x"
    using assms(1) unfolding commit_inv_def list_all2_conv_all_nth
    by (metis in_set_conv_nth same_ext_contains)
  then show ?thesis
    using assms(1,3) by (auto simp: commit_inv_def ext_contains_def)
qed

lemma commit_inv_mark:
  assumes inv: "commit_inv ps sz po f inner" and i: "i < length (cf_old f)"
  defines "o' \<equiv> (cf_old f)[i := (cf_old f ! i)\<lparr>ext_committed := True\<rparr>]"
  shows "commit_inv ps sz (po + ps) (f\<lparr>cf_old := o'\<rparr>)
    (inner\<lparr>extents := (extents inner)[i := (extents inner ! i)\<lparr>ext_committed := True\<rparr>]\<rparr>)"
    (is "commit_inv _ _ _ ?f ?inner")
proof -
  have ex: "extents ?inner = o' @ cf_new f"
    using inv i by (simp add: commit_inv_def o'_def list_update_append nth_append)
  have same: "list_all2 same_ext (cf_old f) o'"
    using i by (auto simp: o'_def list_all2_conv_all_nth nth_list_update same_ext_def)
  then have same': "list_all2 same_ext (extents inner) (extents ?inner)"
    using inv ex by (simp add: commit_inv_def list_all2_appendI list.rel_refl)
  have "list_all2 same_ext (cf_base f) o'"
    using inv same same_exts_trans unfolding commit_inv_def by blast
  moreover have "exts_disjoint (extents ?inner)"
    by (rule same_exts_disjoint [OF same' commit_invD(4) [OF inv]])
  moreover have "\<forall>e \<in> set (extents ?inner). ext_aligned ps e \<and> ext_end e \<le> sz"
    by (rule same_exts_bounds [OF same' commit_invD(5) [OF inv]])
  moreover have "\<forall>e \<in> set (cf_new f). ext_end e \<le> po + ps \<and> ext_committed e"
    using inv by (auto simp: commit_inv_def)
  ultimately show ?thesis
    using inv ex by (simp add: commit_inv_def)
qed

lemma commit_inv_push:
  assumes inv: "commit_inv ps sz po f inner" and none: "owner_of inner po = None"
    and n: "ext_offset n = po" "ext_end n = po + ps" "ext_committed n"
    and po: "ps dvd po" "po + ps \<le> sz"
  shows "commit_inv ps sz (po + ps) (f\<lparr>cf_new := cf_new f @ [n]\<rparr>) (inner\<lparr>extents := extents inner @ [n]\<rparr>)"
proof -
  have "\<forall>e \<in> set (extents inner). ext_aligned ps e"
    using inv by (simp add: commit_inv_def)
  from fresh_page_disjoint [OF this po(1) commit_inv_no_owner [OF inv none order_refl] n(1,2)]
  have "exts_disjoint (extents inner @ [n])"
    unfolding exts_disjoint_snoc using commit_invD(4) [OF inv] by blast
  moreover have "ext_aligned ps n" using n po by (simp add: ext_aligned_def)
  ultimately show ?thesis
    using inv n po by (auto simp: commit_inv_def)
qed

text \<open>What the loop may do to an \<open>inner\<close>: extents stay, committed ones stay committed.\<close>

definition commit_keeps :: "vmo_inner \<Rightarrow> vmo_inner \<Rightarrow> bool" where
  "commit_keeps inner inner' \<longleftrightarrow>
     inner' = inner\<lparr>extents := extents inner'\<rparr> \<and>
     (\<forall>e \<in> set (extents inner). \<exists>e' \<in> set (extents inner').
        same_ext e e' \<and> (ext_committed e \<longrightarrow> ext_committed e'))"

lemma commit_keeps_refl [simp]: "commit_keeps inner inner"
  unfolding commit_keeps_def using same_ext_refl by (metis (no_types) vmo_inner.surjective vmo_inner.update_convs(5))

lemma commit_keeps_trans:
  assumes "commit_keeps a b" and "commit_keeps b c"
  shows "commit_keeps a c"
proof -
  have "c = a\<lparr>extents := extents c\<rparr>"
    using assms unfolding commit_keeps_def by (metis vmo_inner.surjective vmo_inner.update_convs(5))
  moreover have "\<exists>e' \<in> set (extents c). same_ext e e' \<and> (ext_committed e \<longrightarrow> ext_committed e')"
    if "e \<in> set (extents a)" for e
    using that assms unfolding commit_keeps_def same_ext_def by metis
  ultimately show ?thesis by (simp add: commit_keeps_def)
qed

lemma commit_keeps_mark:
  assumes "i < length (extents inner)"
  shows "commit_keeps inner (inner\<lparr>extents := (extents inner)[i := (extents inner ! i)\<lparr>ext_committed := True\<rparr>]\<rparr>)"
    (is "commit_keeps _ ?inner")
proof -
  have "\<exists>e' \<in> set (extents ?inner). same_ext e e' \<and> (ext_committed e \<longrightarrow> ext_committed e')"
    if "e \<in> set (extents inner)" for e
  proof -
    from that obtain j where j: "j < length (extents inner)" "e = extents inner ! j"
      by (metis in_set_conv_nth)
    then have "extents ?inner ! j \<in> set (extents ?inner)" by simp
    moreover have "same_ext e (extents ?inner ! j)" "ext_committed e \<longrightarrow> ext_committed (extents ?inner ! j)"
      using j assms by (cases "i = j"; simp add: same_ext_def)+
    ultimately show ?thesis by blast
  qed
  then show ?thesis by (simp add: commit_keeps_def)
qed

lemma commit_keeps_push: "commit_keeps inner (inner\<lparr>extents := extents inner @ [n]\<rparr>)"
  unfolding commit_keeps_def using same_ext_refl by fastforce

definition committed_at :: "vmo_inner \<Rightarrow> usize \<Rightarrow> bool" where
  "committed_at inner x \<longleftrightarrow> (\<exists>e \<in> set (extents inner). ext_contains e x \<and> ext_committed e)"

lemma commit_keeps_committed: "commit_keeps a b \<Longrightarrow> committed_at a x \<Longrightarrow> committed_at b x"
  unfolding commit_keeps_def committed_at_def by (metis same_ext_contains)

lemma run_from_addr_len:
  "from_addr al p n = Some fr \<Longrightarrow> len_bytes (run_from_frame fr) = n * UNIT_PAGE_SIZE"
  by (auto simp: from_addr_def bind_eq_Some_conv)

text \<open>
  A commit loop gets as far as some page \<open>po'\<close>: every page before it is committed, and the extents
  added are pages of the range. A loop that ends well has got to the end.
\<close>

definition commit_reach ::
    "usize \<Rightarrow> usize \<Rightarrow> usize \<Rightarrow> usize \<Rightarrow> usize \<Rightarrow> commit_frame \<Rightarrow> commit_frame \<Rightarrow> vmo_inner \<Rightarrow> vmo_inner \<Rightarrow> bool" where
  "commit_reach ps sz po po' end f f' inner inner' \<longleftrightarrow>
     commit_inv ps sz po' f' inner' \<and> cf_base f' = cf_base f \<and> commit_keeps inner inner' \<and>
     po \<le> po' \<and> po' \<le> max po end \<and> (\<forall>x. po \<le> x \<and> x < po' \<longrightarrow> committed_at inner' x) \<and>
     (\<forall>e \<in> set (cf_new f'). e \<in> set (cf_new f) \<or> po \<le> ext_offset e \<and> ext_end e = ext_offset e + ps)"

lemma commit_reach_refl: "commit_inv ps sz po f inner \<Longrightarrow> commit_reach ps sz po po end f f inner inner"
  by (auto simp: commit_reach_def)

lemma commit_reach_step:
  assumes g: "cf_base g = cf_base f" "commit_keeps inner inner1"
    "\<forall>e \<in> set (cf_new g). e \<in> set (cf_new f) \<or> po \<le> ext_offset e \<and> ext_end e = ext_offset e + ps"
    and page: "\<And>x. po \<le> x \<Longrightarrow> x < po + ps \<Longrightarrow> committed_at inner1 x"
    and r: "commit_reach ps sz (po + ps) po' end g f' inner1 inner'" and "po + ps \<le> end"
  shows "commit_reach ps sz po po' end f f' inner inner'"
proof -
  from r have r': "commit_inv ps sz po' f' inner'" "cf_base f' = cf_base g" "commit_keeps inner1 inner'"
    "po + ps \<le> po'" "po' \<le> max (po + ps) end" "\<forall>x. po + ps \<le> x \<and> x < po' \<longrightarrow> committed_at inner' x"
    "\<forall>e \<in> set (cf_new f'). e \<in> set (cf_new g) \<or> po + ps \<le> ext_offset e \<and> ext_end e = ext_offset e + ps"
    unfolding commit_reach_def by blast+
  have "committed_at inner' x" if "po \<le> x" "x < po'" for x
    using that r'(3,6) page commit_keeps_committed by (meson leI)
  moreover have "e \<in> set (cf_new f) \<or> po \<le> ext_offset e \<and> ext_end e = ext_offset e + ps"
    if "e \<in> set (cf_new f')" for e
    using r'(7) g(3) that by (meson add_leD1)
  ultimately show ?thesis
    using g(1) r'(1,2,4,5) commit_keeps_trans [OF g(2) r'(3)] assms(6) by (auto simp: commit_reach_def)
qed

lemma commit_loop_reach:
  assumes "commit_loop A off ps fc pp end po d inner s = Some (r, inner', s')"
    and "commit_inv ps sz po f inner" and "d \<longleftrightarrow> cf_new f \<noteq> []"
    and "fc * UNIT_PAGE_SIZE = ps" and "ps dvd po" and "ps dvd end" and "end \<le> sz"
  shows "\<exists>f' po'. commit_reach ps sz po po' end f f' inner inner' \<and>
    (\<forall>d'. r = Inr d' \<longrightarrow> po' = max po end \<and> (d' \<longleftrightarrow> cf_new f' \<noteq> []))"
  using assms
proof (induction A off ps fc pp "end" po d inner s arbitrary: f rule: commit_loop.induct)
  case (1 A off ps fc pp e po d inner s)
  note inv = "1.prems"(2) and run = "1.prems"(1)
  have stop: ?case if "r = Inl er" "inner' = inner" for er
    using commit_reach_refl [OF inv, of e] that by blast
  show ?case
  proof (cases "po < e")
    case False
    with run have "r = Inr d" "inner' = inner" by (simp_all add: commit_loop.simps)
    then show ?thesis using commit_reach_refl [OF inv, of e] False "1.prems"(3) by (auto simp: max_def)
  next
    case True
    have ps: "0 < ps" using run True by (cases "ps = 0") (auto simp: commit_loop.simps)
    have next_page: "po + ps \<le> e" "ps dvd po + ps"
    proof -
      have "ps dvd e - po" using "1.prems"(5,6) True by (simp add: dvd_diff_nat)
      then have "ps \<le> e - po" using True by (intro dvd_imp_le) simp_all
      with True show "po + ps \<le> e" by linarith
    qed (use "1.prems"(5) in simp)
    then have mx: "max (po + ps) e = max po e" by simp
    show ?thesis
    proof (cases "owner_of inner po")
      case (Some i)
      let ?ex = "extents inner ! i"
      let ?inner = "inner\<lparr>extents := (extents inner)[i := ?ex\<lparr>ext_committed := True\<rparr>]\<rparr>"
      let ?f = "f\<lparr>cf_old := (cf_old f)[i := (cf_old f ! i)\<lparr>ext_committed := True\<rparr>]\<rparr>"
      note own = commit_inv_owner [OF inv Some]
      have i: "i < length (extents inner)" and old: "?ex = cf_old f ! i"
        using own(1) commit_invD(2) [OF inv] by (simp_all add: nth_append)
      have inv1: "commit_inv ps sz (po + ps) ?f ?inner" by (rule commit_inv_mark [OF inv own(1)])
      have rec: "commit_loop A off ps fc pp e (po + ps) d ?inner s = Some (r, inner', s')"
        using run True ps Some i by (simp add: commit_loop.simps [of A off ps fc pp e po])
      obtain f' po' where f': "commit_reach ps sz (po + ps) po' e ?f f' ?inner inner'"
          "\<forall>d'. r = Inr d' \<longrightarrow> po' = max (po + ps) e \<and> (d' \<longleftrightarrow> cf_new f' \<noteq> [])"
        using "1.IH"(2) [OF _ _ Some vec_get_nth [OF i] rec inv1] True ps "1.prems"(3,4,6,7) next_page(2)
        by auto
      have "committed_at ?inner x" if "po \<le> x" "x < po + ps" for x
      proof -
        have al: "ext_aligned ps ?ex" using commit_invD(5) [OF inv] i nth_mem by blast
        have "ext_contains ?ex x"
          using ext_aligned_page_all [OF al "1.prems"(5) _ that] own(2) old by simp
        then have "ext_contains (?ex\<lparr>ext_committed := True\<rparr>) x"
          by (simp add: ext_contains_def ext_end_def)
        moreover have "?ex\<lparr>ext_committed := True\<rparr> \<in> set (extents ?inner)"
          using i by (simp add: set_update_memI)
        moreover have "ext_committed (?ex\<lparr>ext_committed := True\<rparr>)" by simp
        ultimately show ?thesis unfolding committed_at_def by blast
      qed
      from commit_reach_step [OF _ commit_keeps_mark [OF i] _ this f'(1) next_page(1)] f'(2)
      show ?thesis unfolding mx by auto
    next
      case None
      show ?thesis
      proof (cases "\<exists>virt s1 p fr. alloc A None frame_zone_default fc s = (Inr virt, s1) \<and>
          virt_to_phys off virt = Some p \<and> from_addr True p fc = Some fr")
        case False
        then have "\<exists>er. r = Inl er \<and> inner' = inner"
          using run True ps None
          by (subst (asm) commit_loop.simps) (auto split: prod.splits sum.splits option.splits)
        then show ?thesis using stop by blast
      next
        case ex: True
        then obtain virt s1 p fr where al: "alloc A None frame_zone_default fc s = (Inr virt, s1)"
          "virt_to_phys off virt = Some p" "from_addr True p fc = Some fr" by blast
        let ?n = "\<lparr>ext_offset = po, ext_frame = run_from_frame fr, ext_purpose = pp, ext_committed = True\<rparr>"
        let ?inner = "inner\<lparr>extents := extents inner @ [?n]\<rparr>" and ?f = "f\<lparr>cf_new := cf_new f @ [?n]\<rparr>"
        have n: "ext_offset ?n = po" "ext_end ?n = po + ps" "ext_committed ?n"
          using run_from_addr_len [OF al(3)] "1.prems"(4) by (simp_all add: ext_end_def)
        have "po + ps \<le> sz" using next_page(1) "1.prems"(7) by linarith
        then have inv1: "commit_inv ps sz (po + ps) ?f ?inner"
          by (rule commit_inv_push [OF inv None n "1.prems"(5)])
        have rec: "commit_loop A off ps fc pp e (po + ps) True ?inner s1 = Some (r, inner', s')"
          using run True ps None al by (simp add: commit_loop.simps [of A off ps fc pp e po])
        obtain f' po' where f': "commit_reach ps sz (po + ps) po' e ?f f' ?inner inner'"
            "\<forall>d'. r = Inr d' \<longrightarrow> po' = max (po + ps) e \<and> (d' \<longleftrightarrow> cf_new f' \<noteq> [])"
          using "1.IH"(1) [OF _ _ None al(1) [symmetric] refl al(2,3) rec inv1] True ps "1.prems"(4,6,7) next_page(2)
          by auto
        have "committed_at ?inner x" if "po \<le> x" "x < po + ps" for x
          using that n by (auto simp: committed_at_def ext_contains_def)
        from commit_reach_step [OF _ commit_keeps_push _ this f'(1) next_page(1)] f'(2) n
        show ?thesis unfolding mx by auto
      qed
    qed
  qed
qed

text \<open>Whatever the index says, the loop only appends pages of the range and marks extents.\<close>

definition index_sound :: "vmo_inner \<Rightarrow> bool" where
  "index_sound inner \<longleftrightarrow>
     (\<forall>x i. owner_of inner x = Some i \<longrightarrow> i < length (extents inner) \<and> ext_contains (extents inner ! i) x)"

lemma index_sound_fresh: "fresh_index inner \<Longrightarrow> index_sound inner"
  using owner_of_SomeD by (auto simp: index_sound_def)

lemma owner_of_cong: "index j = index i \<Longrightarrow> owner_of j = owner_of i"
  by (simp add: owner_of_def fun_eq_iff)

lemma index_sound_cong:
  "index_sound i \<Longrightarrow> extents j = extents i \<Longrightarrow> index j = index i \<Longrightarrow> index_sound j"
  using owner_of_cong [of j i] by (simp add: index_sound_def)

lemma index_sound_push:
  assumes "index_sound i"
  shows "index_sound (i\<lparr>extents := extents i @ [n]\<rparr>)"
  unfolding index_sound_def owner_of_cong [of "i\<lparr>extents := extents i @ [n]\<rparr>" i, simplified]
  using assms by (auto simp: index_sound_def nth_append less_SucI)

lemma index_sound_mark:
  assumes "index_sound i"
  shows "index_sound (i\<lparr>extents := (extents i)[k := (extents i ! k)\<lparr>ext_committed := True\<rparr>]\<rparr>)" (is "index_sound ?j")
proof -
  have "ext_contains (extents ?j ! m) = ext_contains (extents i ! m)" if "m < length (extents i)" for m
    using that by (cases "m = k") (simp_all add: ext_contains_def ext_end_def fun_eq_iff)
  then show ?thesis
    using assms unfolding index_sound_def owner_of_cong [of ?j i, simplified] by simp
qed

lemma commit_loop_sound:
  assumes "commit_loop A off ps fc pp end po d inner s = Some (r, inner', s')"
    and "index_sound inner" and "\<forall>e \<in> set (extents inner). ext_aligned ps e \<and> ext_end e \<le> sz"
    and "fc * UNIT_PAGE_SIZE = ps" and "ps dvd po" and "ps dvd end" and "end \<le> sz"
  shows "index_sound inner' \<and> (\<forall>e \<in> set (extents inner'). ext_aligned ps e \<and> ext_end e \<le> sz) \<and>
    inner' = inner\<lparr>extents := extents inner'\<rparr>"
  using assms
proof (induction A off ps fc pp "end" po d inner s rule: commit_loop.induct)
  case (1 A off ps fc pp e po d inner s)
  note run = "1.prems"(1)
  show ?case
  proof (cases "po < e \<and> 0 < ps")
    case False
    with run have "inner' = inner" by (auto simp: commit_loop.simps [of A off ps] split: if_splits)
    with "1.prems"(2,3) show ?thesis by simp
  next
    case True
    then have lt: "po < e" "0 < ps" by simp_all
    then have "ps dvd e - po" using "1.prems"(5,6) by (simp add: dvd_diff_nat)
    then have "ps \<le> e - po" using lt by (intro dvd_imp_le) simp_all
    then have page: "ps dvd po + ps" "po + ps \<le> sz" using lt(1) "1.prems"(5,7) by (simp, linarith)
    show ?thesis
    proof (cases "owner_of inner po")
      case (Some i)
      then have i: "i < length (extents inner)" using "1.prems"(2) by (simp add: index_sound_def)
      let ?inner = "inner\<lparr>extents := (extents inner)[i := (extents inner ! i)\<lparr>ext_committed := True\<rparr>]\<rparr>"
      have rec: "commit_loop A off ps fc pp e (po + ps) d ?inner s = Some (r, inner', s')"
        using run lt Some i by (simp add: commit_loop.simps [of A off ps fc pp e po])
      have "list_all2 same_ext (extents inner) (extents ?inner)"
        using i by (auto simp: list_all2_conv_all_nth nth_list_update same_ext_def)
      from same_exts_bounds [OF this "1.prems"(3)]
      have "index_sound inner' \<and> (\<forall>e \<in> set (extents inner'). ext_aligned ps e \<and> ext_end e \<le> sz) \<and>
          inner' = ?inner\<lparr>extents := extents inner'\<rparr>"
        using lt "1.prems"(4,6,7) page(1)
        by (intro "1.IH"(2) [OF _ _ Some vec_get_nth [OF i] rec index_sound_mark [OF "1.prems"(2)]]) simp_all
      then show ?thesis by simp
    next
      case None
      show ?thesis
      proof (cases "\<exists>virt s1 p fr. alloc A None frame_zone_default fc s = (Inr virt, s1) \<and>
          virt_to_phys off virt = Some p \<and> from_addr True p fc = Some fr")
        case False
        then have "inner' = inner"
          using run lt None
          by (subst (asm) commit_loop.simps) (auto split: prod.splits sum.splits option.splits)
        with "1.prems"(2,3) show ?thesis by simp
      next
        case ex: True
        then obtain virt s1 p fr where al: "alloc A None frame_zone_default fc s = (Inr virt, s1)"
          "virt_to_phys off virt = Some p" "from_addr True p fc = Some fr" by blast
        let ?n = "\<lparr>ext_offset = po, ext_frame = run_from_frame fr, ext_purpose = pp, ext_committed = True\<rparr>"
        have "ext_end ?n = po + ps" using run_from_addr_len [OF al(3)] "1.prems"(4) by (simp add: ext_end_def)
        then have n: "ext_aligned ps ?n \<and> ext_end ?n \<le> sz" using page "1.prems"(5) by (simp add: ext_aligned_def)
        have rec: "commit_loop A off ps fc pp e (po + ps) True (inner\<lparr>extents := extents inner @ [?n]\<rparr>) s1
            = Some (r, inner', s')"
          using run lt None al by (simp add: commit_loop.simps [of A off ps fc pp e po])
        show ?thesis
          using "1.IH"(1) [OF _ _ None al(1) [symmetric] refl al(2,3) rec index_sound_push [OF "1.prems"(2)]]
            lt "1.prems"(3,4,6,7) page(1) n by auto
      qed
    qed
  qed
qed

end
