(* ===== verification/Vmo_System.thy ===== *)
theory Vmo_System
  imports Vmo_Commit
begin

text \<open>
  All memory objects of a world together. \<open>vmo_step\<close> has one rule per operation that changes state
  and \<open>vmo_any_step\<close> adds the commits that fail. Two invariants: \<open>sys_sound\<close> is kept by every step,
  \<open>sys_ok\<close>, which adds that every object's index is fresh over disjoint extents, is kept as long as
  no commit fails. What they share is proved once, for the laws of \<open>vmo_invariant\<close>.
\<close>

subsection \<open>The invariants\<close>

definition exts_inside :: "vmo \<Rightarrow> vmo_inner \<Rightarrow> bool" where
  "exts_inside v inner \<longleftrightarrow>
     inner_stream_size inner \<le> inner_size inner \<and>
     (vmo_backing v = Paged \<longrightarrow>
        (\<forall>e \<in> set (extents inner). ext_aligned (vmo_page_size v) e \<and> ext_end e \<le> inner_size inner))"

definition inner_sound :: "vmo \<Rightarrow> vmo_inner \<Rightarrow> bool" where
  "inner_sound v inner \<longleftrightarrow> index_sound inner \<and> exts_inside v inner"

definition inner_ok :: "vmo \<Rightarrow> vmo_inner \<Rightarrow> bool" where
  "inner_ok v inner \<longleftrightarrow>
     fresh_index inner \<and> exts_disjoint (extents inner) \<and>
     inner_stream_size inner \<le> inner_size inner \<and>
     (vmo_backing v = Paged \<longrightarrow>
        (\<forall>e \<in> set (extents inner). ext_aligned (vmo_page_size v) e \<and> ext_end e \<le> inner_size inner))"

definition resizable :: "'s vm_world \<Rightarrow> vmo \<Rightarrow> bool" where
  "resizable w v \<longleftrightarrow> contains (vmo_flags w v) VM_FLAG_RESIZABLE"

definition child_ok :: "vmo set \<Rightarrow> 's vm_world \<Rightarrow> vmo \<Rightarrow> vmo_child_state \<Rightarrow> bool" where
  "child_ok V w v c \<longleftrightarrow>
     child_parent c \<in> V \<and> 0 < vmo_page_size v \<and> vmo_page_size (child_parent c) = vmo_page_size v \<and>
     vmo_page_size v dvd child_parent_offset c \<and> vmo_page_size v dvd vmo_size w v \<and>
     child_parent_offset c + vmo_size w v \<le> vmo_size w (child_parent c) \<and>
     \<not> resizable w v \<and> \<not> resizable w (child_parent c) \<and>
     vmo_backing (child_parent c) = vmo_backing v \<and>
     (child_kind c = vmo_child_kind.PrivateCow \<longrightarrow> vmo_backing v = Paged)"

definition sys_inv :: "(vmo \<Rightarrow> vmo_inner \<Rightarrow> bool) \<Rightarrow> vmo set \<Rightarrow> 's vm_world \<Rightarrow> bool" where
  "sys_inv I V w \<longleftrightarrow>
     inj_on vmo_id V \<and>
     (\<forall>v \<in> V. vmo_id v < next_vmo_id w \<and> I v (inner_of w v) \<and>
        (\<forall>c. vmo_child v = Some c \<longrightarrow> child_ok V w v c))"

abbreviation sys_ok :: "vmo set \<Rightarrow> 's vm_world \<Rightarrow> bool" where
  "sys_ok \<equiv> sys_inv inner_ok"

abbreviation sys_sound :: "vmo set \<Rightarrow> 's vm_world \<Rightarrow> bool" where
  "sys_sound \<equiv> sys_inv inner_sound"

subsection \<open>Steps\<close>

text \<open>
  One rule per operation. The id counter is assumed not to wrap around. A commit that fails is a step
  of \<open>vmo_any_step\<close> alone.
\<close>

inductive vmo_step ::
    "'s frame_allocator \<Rightarrow> usize \<Rightarrow> vmo set \<times> 's vm_world \<Rightarrow> vmo set \<times> 's vm_world \<Rightarrow> bool"
  for A off where
  new: "next_vmo_id w + 1 < 2 ^ 64 \<Longrightarrow> vmo_new w nm sz ps fl = (v, w') \<Longrightarrow>
    vmo_step A off (V, w) (insert v V, w')"
| new_physical: "next_vmo_id w + 1 < 2 ^ 64 \<Longrightarrow>
    vmo_new_physical w nm sz ps fl base = Some (v, w') \<Longrightarrow>
    vmo_step A off (V, w) (insert v V, w')"
| child: "next_vmo_id w + 1 < 2 ^ 64 \<Longrightarrow> v \<in> V \<Longrightarrow> create_child w v nm o' sz = (Some c, w') \<Longrightarrow>
    vmo_step A off (V, w) (insert c V, w')"
| private_child: "next_vmo_id w + 1 < 2 ^ 64 \<Longrightarrow> v \<in> V \<Longrightarrow>
    create_private_child w v nm o' sz = (Some c, w') \<Longrightarrow>
    vmo_step A off (V, w) (insert c V, w')"
| bind: "v \<in> V \<Longrightarrow> bind_pager w v ck = (b, w') \<Longrightarrow> vmo_step A off (V, w) (V, w')"
| track: "v \<in> V \<Longrightarrow> track_frame A off w v o' r pp cm = Some (b, w') \<Longrightarrow>
    vmo_step A off (V, w) (V, w')"
| untrack: "v \<in> V \<Longrightarrow> untrack_frame A off w v o' = Some (md, w') \<Longrightarrow> vmo_step A off (V, w) (V, w')"
| writes: "v \<in> V \<Longrightarrow> vmo_write off w v o' data = Some (b, w') \<Longrightarrow> vmo_step A off (V, w) (V, w')"
| transfer: "v \<in> V \<Longrightarrow> u \<in> V \<Longrightarrow> transfer_from off w v o' u so n = Some (b, w') \<Longrightarrow>
    vmo_step A off (V, w) (V, w')"
| size: "v \<in> V \<Longrightarrow> set_size A off w v sz = Some (b, w') \<Longrightarrow> vmo_step A off (V, w) (V, w')"
| stream_size: "v \<in> V \<Longrightarrow> set_stream_size w v sz = (b, w') \<Longrightarrow> vmo_step A off (V, w) (V, w')"
| policy: "v \<in> V \<Longrightarrow> vmo_step A off (V, w) (V, set_cache_policy w v pol)"
| commit: "v \<in> V \<Longrightarrow> commit_range A off w v o' n pp = Some (Inr len, w') \<Longrightarrow>
    vmo_step A off (V, w) (V, w')"
| decommit: "v \<in> V \<Longrightarrow> decommit_range A off w v o' n = Some (r, w') \<Longrightarrow>
    vmo_step A off (V, w) (V, w')"
| zero: "v \<in> V \<Longrightarrow> zero_range off w v o' n = Some (r', w') \<Longrightarrow> vmo_step A off (V, w) (V, w')"
| materialize: "v \<in> V \<Longrightarrow> materialize_private_cow_page A off w v o' pp = Some (md, w') \<Longrightarrow>
    vmo_step A off (V, w) (V, w')"

inductive vmo_any_step ::
    "'s frame_allocator \<Rightarrow> usize \<Rightarrow> vmo set \<times> 's vm_world \<Rightarrow> vmo set \<times> 's vm_world \<Rightarrow> bool"
  for A off where
  step: "vmo_step A off s s' \<Longrightarrow> vmo_any_step A off s s'"
| failed_commit: "v \<in> V \<Longrightarrow> commit_range A off w v o' n pp = Some (Inl e, w') \<Longrightarrow>
    vmo_any_step A off (V, w) (V, w')"

subsection \<open>Updates that keep the invariant\<close>

lemma inner_of_set_inner [simp]:
  "inner_of (set_inner w v i) u = (if vmo_id u = vmo_id v then i else inner_of w u)"
  by (simp add: inner_of_def set_inner_def)

lemma inner_of_update [simp]:
  "inner_of (w\<lparr>frame_state := s\<rparr>) v = inner_of w v"
  "inner_of (w\<lparr>next_vmo_id := n\<rparr>) v = inner_of w v"
  by (simp_all add: inner_of_def)

lemma set_inner_fields [simp]:
  "phys (set_inner w v i) = phys w" "frame_state (set_inner w v i) = frame_state w"
  "next_vmo_id (set_inner w v i) = next_vmo_id w"
  "vmos (set_inner w v i) = (vmos w)(vmo_id v := i)"
  by (simp_all add: set_inner_def)

lemma sys_inv_cong:
  "sys_inv I V w \<Longrightarrow> vmos w' = vmos w \<Longrightarrow> next_vmo_id w' = next_vmo_id w \<Longrightarrow> sys_inv I V w'"
  by (simp add: sys_inv_def child_ok_def resizable_def inner_of_def vmo_size_def vmo_flags_def)

lemma sys_invD:
  assumes "sys_inv I V w" and "v \<in> V"
  shows "vmo_id v < next_vmo_id w" and "I v (inner_of w v)"
    and "vmo_child v = Some c \<Longrightarrow> child_ok V w v c"
    and "u \<in> V \<Longrightarrow> vmo_id u = vmo_id v \<longleftrightarrow> u = v"
  using assms unfolding sys_inv_def inj_on_def by blast+

text \<open>Replacing the inner state of one object, without resizing a parent or a child.\<close>

lemma sys_inv_update:
  assumes ok: "sys_inv I V w" and v: "v \<in> V" and i: "I v i"
    and fl: "contains (inner_flags i) VM_FLAG_RESIZABLE \<longleftrightarrow> resizable w v"
    and sz: "inner_size i = vmo_size w v \<or> resizable w v"
    and w': "vmos w' = (vmos w)(vmo_id v := i)" "next_vmo_id w' = next_vmo_id w"
  shows "sys_inv I V w'"
proof -
  have io: "inner_of w' u = (if u = v then i else inner_of w u)" if "u \<in> V" for u
    using sys_invD(4) [OF ok v that] w' by (simp add: inner_of_def)
  have rs: "resizable w' u \<longleftrightarrow> resizable w u" if "u \<in> V" for u
    using io [OF that] fl by (simp add: resizable_def vmo_flags_def)
  have ss: "vmo_size w' u = vmo_size w u" if "u \<in> V" "\<not> resizable w u" for u
    using io [OF that(1)] sz that(2) by (auto simp: vmo_size_def)
  have "child_ok V w' u c" if "u \<in> V" "vmo_child u = Some c" for u c
  proof -
    have c: "child_ok V w u c" by (rule sys_invD(3) [OF ok that])
    then have "child_parent c \<in> V" "\<not> resizable w u" "\<not> resizable w (child_parent c)"
      by (simp_all add: child_ok_def)
    with c that(1) show ?thesis by (simp add: child_ok_def rs ss)
  qed
  moreover have "I u (inner_of w' u)" if "u \<in> V" for u
    using io [OF that] i sys_invD(2) [OF ok that] by simp
  ultimately show ?thesis
    using ok w' by (simp add: sys_inv_def)
qed

text \<open>A new object under the next id.\<close>

lemma sys_inv_new:
  assumes ok: "sys_inv I V w" and no_wrap: "next_vmo_id w + 1 < 2 ^ 64"
    and al: "allocate_vmo w nm ps bk ch i = (v, w')"
    and i: "I v i"
    and ch: "\<And>c. ch = Some c \<Longrightarrow> child_parent c \<in> V \<and> 0 < ps \<and> vmo_page_size (child_parent c) = ps \<and>
       ps dvd child_parent_offset c \<and> ps dvd inner_size i \<and>
       child_parent_offset c + inner_size i \<le> vmo_size w (child_parent c) \<and>
       \<not> contains (inner_flags i) VM_FLAG_RESIZABLE \<and> \<not> resizable w (child_parent c) \<and>
       vmo_backing (child_parent c) = bk \<and> (child_kind c = vmo_child_kind.PrivateCow \<longrightarrow> bk = Paged)"
  shows "sys_inv I (insert v V) w'"
proof -
  from al have v: "v = Vmo (next_vmo_id w) nm ps bk ch"
    and w': "w' = (set_inner w v i)\<lparr>next_vmo_id := (next_vmo_id w + 1) mod 2 ^ 64\<rparr>"
    by (auto simp: allocate_vmo_def Let_def)
  have nx: "next_vmo_id w' = next_vmo_id w + 1" using no_wrap w' by simp
  have fresh: "vmo_id u \<noteq> vmo_id v" if "u \<in> V" for u
    using sys_invD(1) [OF ok that] v by simp
  have io: "inner_of w' u = inner_of w u" if "u \<in> V" for u
    using fresh [OF that] w' by (simp add: inner_of_def)
  have iv: "inner_of w' v = i" using w' by (simp add: inner_of_def)
  have "child_ok (insert v V) w' u c" if "u \<in> V" "vmo_child u = Some c" for u c
    using sys_invD(3) [OF ok that] io that(1)
    by (simp add: child_ok_def resizable_def vmo_size_def vmo_flags_def)
  moreover have "child_ok (insert v V) w' v c" if "vmo_child v = Some c" for c
    using ch [of c] that io iv v
    by (simp add: child_ok_def resizable_def vmo_size_def vmo_flags_def)
  moreover have "vmo_id u < next_vmo_id w' \<and> I u (inner_of w' u)" if "u \<in> V" for u
    using sys_invD(1,2) [OF ok that] io [OF that] nx by simp
  moreover have "inj_on vmo_id (insert v V)"
    using ok fresh unfolding sys_inv_def inj_on_def by (metis insert_iff)
  ultimately show ?thesis
    using nx iv i v by (auto simp: sys_inv_def)
qed

lemmas sys_okD = sys_invD [where I = inner_ok]

subsection \<open>Writes leave the objects alone\<close>

lemma write_local_phys:
  "write_local off w v o' d = Some (b, w') \<Longrightarrow> \<exists>m. w' = w\<lparr>phys := m\<rparr>"
  by (auto simp: write_local_def bind_eq_Some_conv split: option.splits if_splits
      intro: exI [of _ "phys w"])

lemma cow_write_phys:
  "cow_write_loop off v e c d w = Some (b, w') \<Longrightarrow> \<exists>m. w' = w\<lparr>phys := m\<rparr>"
proof (induction off v e c d w rule: cow_write_loop.induct)
  case (1 off v e c d w)
  let ?po = "c div vmo_page_size v * vmo_page_size v"
  let ?n = "min (vmo_page_size v - (c - ?po)) (e - c)"
  have self: "\<exists>m. w = w\<lparr>phys := m\<rparr>" by (rule exI [of _ "phys w"]) simp
  show ?case
  proof (cases "c < e \<and> vmo_page_size v \<noteq> 0 \<and> owner_of (inner_of w v) ?po \<noteq> None")
    case False
    with "1.prems" self show ?thesis
      by (auto simp: cow_write_loop.simps [of off v e c d w] Let_def split: if_splits)
  next
    case True
    with "1.prems" obtain ok w1 where wl: "write_local off w v c (take ?n d) = Some (ok, w1)"
      and rest: "if ok then cow_write_loop off v e (c + ?n) (drop ?n d) w1 = Some (b, w')
                 else w' = w1"
      by (auto simp: cow_write_loop.simps [of off v e c d w] Let_def split: option.splits if_splits)
    from write_local_phys [OF wl] obtain m where m: "w1 = w\<lparr>phys := m\<rparr>" by blast
    show ?thesis
    proof (cases ok)
      case True
      with rest \<open>c < e \<and> _\<close> wl have "\<exists>m. w' = w1\<lparr>phys := m\<rparr>"
        by (intro "1.IH" [OF _ _ refl refl refl refl _ wl refl]) auto
      with m show ?thesis by auto
    qed (use rest m in auto)
  qed
qed

lemma vmo_write_phys:
  "vmo_write off w v o' d = Some (b, w') \<Longrightarrow> \<exists>m. w' = w\<lparr>phys := m\<rparr>"
proof (induction off w v o' d rule: vmo_write.induct)
  case (1 off w i nm ps bk o' d)
  then show ?case by (auto dest: write_local_phys)
next
  case (2 off w i nm ps bk p po k o' d)
  then show ?case
    by (auto simp: Let_def split: option.splits if_splits dest: cow_write_phys
        intro: exI [of _ "phys w"])
qed

lemma zero_range_phys: "zero_range off w v o' n = Some (r, w') \<Longrightarrow> \<exists>m. w' = w\<lparr>phys := m\<rparr>"
  unfolding zero_range_def Let_def
  by (auto simp: bind_eq_Some_conv split: if_split_asm option.split_asm intro: exI [of _ "phys w"])

lemma sys_inv_phys: "sys_inv I V w \<Longrightarrow> sys_inv I V (w\<lparr>phys := m\<rparr>)"
  by (erule sys_inv_cong) simp_all

lemma sys_inv_frame_state: "sys_inv I V (w\<lparr>frame_state := s\<rparr>) \<longleftrightarrow> sys_inv I V w"
  by (auto elim: sys_inv_cong)

lemma sys_inv_transfer:
  assumes "sys_inv I V w" and "transfer_from off w v o' u so n = Some (b, w')"
  shows "sys_inv I V w'"
proof -
  have "w' = w \<or> (\<exists>m. w' = w\<lparr>phys := m\<rparr>)"
    using assms(2) by (auto simp: transfer_from_def bind_eq_Some_conv split: option.split_asm dest: vmo_write_phys)
  with assms(1) show ?thesis by (auto intro: sys_inv_phys)
qed

subsection \<open>The operations that both invariants share\<close>

lemma filter_same_length:
  assumes "length (filter P xs) = length xs"
  shows "filter P xs = xs"
  using assms List.length_filter_less [of _ xs P] by (metis filter_True less_irrefl)

lemma reindex_kept:
  assumes "fresh_index i" and "k = filter P (extents i)"
  shows "(if length k \<noteq> length (extents i) then reindex i k else i\<lparr>extents := k\<rparr>) = reindex i k"
  using assms filter_same_length [of P "extents i"] by (auto simp: reindex_def fresh_index_def)

text \<open>Fewer extents, in the order they had.\<close>

definition sub_exts :: "vmo_extent list \<Rightarrow> vmo_extent list \<Rightarrow> bool" where
  "sub_exts ks es \<longleftrightarrow> set ks \<subseteq> set es \<and> (\<forall>Q. sorted_wrt Q es \<longrightarrow> sorted_wrt Q ks)"

lemma sub_exts_filter: "sub_exts (filter P es) es"
  by (simp add: sub_exts_def sorted_wrt_filter)

lemma sub_exts_remove:
  assumes "p < length es"
  shows "sub_exts (take p es @ drop (Suc p) es) es"
proof -
  have es: "es = take p es @ es ! p # drop (Suc p) es" by (rule id_take_nth_drop [OF assms])
  have "set es = insert (es ! p) (set (take p es) \<union> set (drop (Suc p) es))"
    using arg_cong [OF es, of set] by simp
  moreover have "sorted_wrt Q (take p es @ drop (Suc p) es)" if "sorted_wrt Q es" for Q
    using that by (subst (asm) es) (simp add: sorted_wrt_append)
  ultimately show ?thesis by (auto simp: sub_exts_def)
qed

lemma exts_disjoint_sorted_wrt:
  "exts_disjoint es \<longleftrightarrow> sorted_wrt (\<lambda>a b. \<forall>x. \<not> (ext_contains a x \<and> ext_contains b x)) es"
  by (induction es rule: rev_induct) (auto simp: exts_disjoint_snoc sorted_wrt_append)

lemma not_resizable_removed: "\<not> contains (bits_remove f VM_FLAG_RESIZABLE) VM_FLAG_RESIZABLE"
proof -
  have "bit VM_FLAG_RESIZABLE 18"
    by (simp add: VM_FLAG_RESIZABLE_def)
  then show ?thesis
    by (auto simp: contains_bit bits_remove_def bit_simps intro!: exI [of _ 18])
qed

lemma resizable_cache_policy:
  "contains (with_cache_policy f p) VM_FLAG_RESIZABLE \<longleftrightarrow> contains f VM_FLAG_RESIZABLE"
proof -
  have r: "VM_FLAG_RESIZABLE = push_bit 18 1" by (simp add: VM_FLAG_RESIZABLE_def)
  have "bit VM_FLAG_RESIZABLE n \<longleftrightarrow> n = 18" for n
    unfolding r by (auto simp only: bit_push_bit_iff bit_1_iff possible_bit_word) simp_all
  then show ?thesis by (simp add: contains_bit bit_with_cache_policy)
qed

text \<open>What an invariant of one object's state must allow: no extents at all, fewer extents or one more
  disjoint extent under a rebuilt index, and a change of size that leaves every extent inside.\<close>

locale vmo_invariant =
  fixes I :: "vmo \<Rightarrow> vmo_inner \<Rightarrow> bool"
  assumes inside: "I v i \<Longrightarrow> exts_inside v i"
    and plain: "extents i = [] \<Longrightarrow> index i = index_default \<Longrightarrow> inner_stream_size i \<le> inner_size i \<Longrightarrow> I v i"
    and resize: "I v i \<Longrightarrow> extents j = extents i \<Longrightarrow> index j = index i \<Longrightarrow> exts_inside v j \<Longrightarrow> I v j"
    and fewer: "I v i \<Longrightarrow> sub_exts es (extents i) \<Longrightarrow> I v (reindex i es)"
    and one_more: "I v i \<Longrightarrow> \<forall>e \<in> set (extents i). \<forall>x. \<not> (ext_contains e x \<and> ext_contains n x) \<Longrightarrow>
      exts_inside v (reindex i (extents i @ [n])) \<Longrightarrow> I v (reindex i (extents i @ [n]))"
begin

lemma sys_new_paged:
  assumes ok: "sys_inv I V w" and nw: "next_vmo_id w + 1 < 2 ^ 64"
    and st: "vmo_new w nm sz ps fl = (v, w')"
  shows "sys_inv I (insert v V) w'"
proof -
  let ?i = "vmo_inner_default\<lparr>inner_size := sz, inner_stream_size := sz, inner_flags := fl\<rparr>"
  have "I v ?i" by (rule plain) (simp_all add: vmo_inner_default_def)
  with sys_inv_new [OF ok nw st [unfolded vmo_new_def]] show ?thesis by simp
qed

lemma sys_new_physical:
  assumes ok: "sys_inv I V w" and nw: "next_vmo_id w + 1 < 2 ^ 64"
    and st: "vmo_new_physical w nm sz ps fl base = Some (v, w')"
  shows "sys_inv I (insert v V) w'"
proof -
  let ?e = "vmo_inner_default\<lparr>inner_size := sz, inner_stream_size := sz, inner_flags := fl\<rparr>"
  from st obtain n where al: "allocate_vmo w nm ps (Physical base) None
      (reindex ?e [\<lparr>ext_offset = 0, ext_frame = run_borrowed base n, ext_purpose = Dma, ext_committed = True\<rparr>])
      = (v, w')" (is "allocate_vmo _ _ _ _ _ ?i = _")
    by (auto simp: vmo_new_physical_def bind_eq_Some_conv Let_def split: if_split_asm)
  have "vmo_backing v = Physical base" using al by (auto simp: allocate_vmo_def Let_def)
  moreover have "I v ?e" by (rule plain) (simp_all add: vmo_inner_default_def)
  ultimately have "I v ?i"
    using one_more [of v ?e "\<lparr>ext_offset = 0, ext_frame = run_borrowed base n, ext_purpose = Dma, ext_committed = True\<rparr>"]
    by (simp add: exts_inside_def vmo_inner_default_def)
  with sys_inv_new [OF ok nw al] show ?thesis by simp
qed

lemma sys_child:
  assumes ok: "sys_inv I V w" and nw: "next_vmo_id w + 1 < 2 ^ 64" and v: "v \<in> V"
    and st: "create_child w v nm o' sz = (Some c, w')"
  shows "sys_inv I (insert c V) w'"
proof -
  let ?i = "vmo_inner_default\<lparr>inner_size := sz,
    inner_stream_size := min (saturating_sub (vmo_stream_size w v) o') sz,
    inner_flags := bits_remove (vmo_flags w v) VM_FLAG_RESIZABLE\<rparr>"
  from st have al: "allocate_vmo w nm (vmo_page_size v) (vmo_backing v)
      (Some (VmoChildState v o' SharedView)) ?i = (c, w')"
    and g: "\<not> resizable w v" "sz \<noteq> 0" "vmo_page_size v dvd o'" "vmo_page_size v dvd sz"
      "o' + sz \<le> vmo_size w v"
    by (auto simp: create_child_def Let_def resizable_def is_multiple_of_dvd
        split: if_split_asm option.split_asm prod.split_asm)
  have "0 < vmo_page_size v" using g(2,4) by (auto intro: Nat.gr0I)
  moreover have "I c ?i" by (rule plain) (simp_all add: vmo_inner_default_def)
  ultimately show ?thesis
    using sys_inv_new [OF ok nw al] v g by (simp add: not_resizable_removed)
qed

lemma sys_private_child:
  assumes ok: "sys_inv I V w" and nw: "next_vmo_id w + 1 < 2 ^ 64" and v: "v \<in> V"
    and st: "create_private_child w v nm o' sz = (Some c, w')"
  shows "sys_inv I (insert c V) w'"
proof -
  let ?i = "vmo_inner_default\<lparr>inner_size := sz,
    inner_stream_size := min (saturating_sub (vmo_stream_size w v) o') sz,
    inner_flags := bits_remove (vmo_flags w v) VM_FLAG_RESIZABLE\<rparr>"
  from st have al: "allocate_vmo w nm (vmo_page_size v) Paged
      (Some (VmoChildState v o' vmo_child_kind.PrivateCow)) ?i = (c, w')"
    and g: "vmo_backing v = Paged" "\<not> resizable w v" "sz \<noteq> 0" "vmo_page_size v dvd o'"
      "vmo_page_size v dvd sz" "o' + sz \<le> vmo_size w v"
    by (auto simp: create_private_child_def Let_def resizable_def is_multiple_of_dvd
        split: if_split_asm option.split_asm prod.split_asm)
  have "0 < vmo_page_size v" using g(3,5) by (auto intro: Nat.gr0I)
  moreover have "I c ?i" by (rule plain) (simp_all add: vmo_inner_default_def)
  ultimately show ?thesis
    using sys_inv_new [OF ok nw al] v g by (simp add: not_resizable_removed)
qed

lemma sys_bind:
  assumes ok: "sys_inv I V w" and v: "v \<in> V" and st: "bind_pager w v ck = (b, w')"
  shows "sys_inv I V w'"
proof -
  let ?i = "inner_of w v" and ?j = "(inner_of w v)\<lparr>inner_pager_cookie := Some ck\<rparr>"
  have "w' = w \<or> w' = set_inner w v ?j" using st by (auto simp: bind_pager_def split: if_split_asm)
  moreover have "I v ?j"
    using inside [OF sys_invD(2) [OF ok v]] by (intro resize [OF sys_invD(2) [OF ok v]]) (simp_all add: exts_inside_def)
  then have "sys_inv I V (set_inner w v ?j)"
    by (rule sys_inv_update [OF ok v]) (simp_all add: resizable_def vmo_flags_def vmo_size_def)
  ultimately show ?thesis using ok by auto
qed

lemma sys_stream_size:
  assumes ok: "sys_inv I V w" and v: "v \<in> V" and st: "set_stream_size w v sz = (b, w')"
  shows "sys_inv I V w'"
proof -
  let ?j = "(inner_of w v)\<lparr>inner_stream_size := sz\<rparr>"
  have "w' = w \<or> (sz \<le> vmo_size w v \<and> w' = set_inner w v ?j)"
    using st by (auto simp: set_stream_size_def Let_def vmo_size_def split: if_split_asm)
  moreover have "sys_inv I V (set_inner w v ?j)" if "sz \<le> vmo_size w v"
  proof -
    have "I v ?j" using inside [OF sys_invD(2) [OF ok v]] that
      by (intro resize [OF sys_invD(2) [OF ok v]]) (simp_all add: exts_inside_def vmo_size_def)
    then show ?thesis
      by (rule sys_inv_update [OF ok v]) (simp_all add: resizable_def vmo_flags_def vmo_size_def)
  qed
  ultimately show ?thesis using ok by auto
qed

lemma sys_policy:
  assumes ok: "sys_inv I V w" and v: "v \<in> V"
  shows "sys_inv I V (set_cache_policy w v pol)"
proof -
  let ?j = "(inner_of w v)\<lparr>inner_flags := with_cache_policy (inner_flags (inner_of w v)) pol\<rparr>"
  have "I v ?j"
    using inside [OF sys_invD(2) [OF ok v]] by (intro resize [OF sys_invD(2) [OF ok v]]) (simp_all add: exts_inside_def)
  then show ?thesis
    by (rule sys_inv_update [OF ok v])
      (simp_all add: set_cache_policy_def Let_def resizable_def vmo_flags_def vmo_size_def resizable_cache_policy)
qed

lemma sys_track:
  assumes ok: "sys_inv I V w" and v: "v \<in> V" and st: "track_frame A off w v o' r pp cm = Some (b, w')"
  shows "sys_inv I V w'"
proof -
  let ?i = "inner_of w v"
  let ?n = "\<lparr>ext_offset = o', ext_frame = r, ext_purpose = pp, ext_committed = cm\<rparr>"
  from st consider s where "w' = w\<lparr>frame_state := s\<rparr>"
    | "w' = set_inner w v (reindex ?i (extents ?i @ [?n]))" "offset_is_page_aligned w v o'"
      "run_unit_page_size r = vmo_page_size v" "o' + len_bytes r \<le> vmo_size w v"
      "\<not> (\<exists>e \<in> set (extents ?i). o' < ext_end e \<and> ext_offset e < o' + len_bytes r)"
    by (auto simp: track_frame_def Let_def bind_eq_Some_conv split: if_splits option.splits)
  then show ?thesis
  proof cases
    case 1
    with ok show ?thesis by (simp add: sys_inv_frame_state)
  next
    case 2
    note io = sys_invD(2) [OF ok v]
    have en: "ext_end ?n = o' + len_bytes r" by (simp add: ext_end_def)
    have "ext_aligned (vmo_page_size v) ?n"
      using 2(2,3) en
      by (simp add: ext_aligned_def offset_is_page_aligned_def is_multiple_of_dvd len_bytes_def)
    then have "exts_inside v (reindex ?i (extents ?i @ [?n]))"
      using inside [OF io] 2(4) en by (auto simp: exts_inside_def vmo_size_def)
    moreover have "\<forall>e \<in> set (extents ?i). \<forall>x. \<not> (ext_contains e x \<and> ext_contains ?n x)"
      using 2(5) en by (fastforce simp: ext_contains_def)
    ultimately have "I v (reindex ?i (extents ?i @ [?n]))" by (intro one_more [OF io])
    with 2(1) show ?thesis
      by (intro sys_inv_update [OF ok v]) (simp_all add: resizable_def vmo_flags_def vmo_size_def)
  qed
qed

lemma sys_fewer:
  assumes ok: "sys_inv I V w" and v: "v \<in> V" and es: "sub_exts es (extents (inner_of w v))"
    and w': "vmos w' = (vmos w)(vmo_id v := reindex (inner_of w v) es)" "next_vmo_id w' = next_vmo_id w"
  shows "sys_inv I V w'"
  by (rule sys_inv_update [OF ok v fewer [OF sys_invD(2) [OF ok v] es] _ _ w'])
    (simp_all add: resizable_def vmo_flags_def vmo_size_def)

lemma sys_untrack:
  assumes ok: "sys_inv I V w" and v: "v \<in> V" and st: "untrack_frame A off w v o' = Some (md, w')"
  shows "sys_inv I V w'"
proof (cases "position (\<lambda>e. ext_offset e = o') (extents (inner_of w v))")
  case None
  with st ok show ?thesis by (auto simp: untrack_frame_def Let_def split: if_splits)
next
  case (Some p)
  let ?es = "extents (inner_of w v)"
  let ?k = "take p ?es @ drop (Suc p) ?es"
  have "w' = w \<or> (\<exists>s. w' = (set_inner w v (reindex (inner_of w v) ?k))\<lparr>frame_state := s\<rparr>)"
    using st Some by (auto simp: untrack_frame_def Let_def bind_eq_Some_conv split: if_splits)
  moreover have "sub_exts ?k ?es" by (rule sub_exts_remove) (use position_Some [OF Some] in simp)
  ultimately show ?thesis
    using sys_fewer [OF ok v, of ?k w'] ok by auto
qed

lemma sys_set_size:
  assumes ok: "sys_inv I V w" and v: "v \<in> V" and st: "set_size A off w v sz = Some (b, w')"
  shows "sys_inv I V w'"
proof -
  let ?i = "inner_of w v"
  define sh where "sh = (if sz < inner_size ?i
    then reindex ?i (filter (\<lambda>e. ext_offset e < sz) (extents ?i)) else ?i)"
  let ?i' = "sh\<lparr>inner_size := sz, inner_stream_size := min (inner_stream_size ?i) sz\<rparr>"
  from st consider "w' = w"
    | s where "w' = (set_inner w v ?i')\<lparr>frame_state := s\<rparr>" "resizable w v"
      "\<not> (sz < inner_size ?i \<and> (\<exists>e \<in> set (extents ?i). ext_offset e < sz \<and> sz < ext_end e))"
    by (auto simp: set_size_def Let_def bind_eq_Some_conv resizable_def sh_def split: if_splits)
  then show ?thesis
  proof cases
    case 2
    note io = sys_invD(2) [OF ok v]
    have sh: "I v sh" using fewer [OF io sub_exts_filter] io by (simp add: sh_def)
    have "exts_inside v ?i'"
      using inside [OF io] 2(3) by (auto simp: exts_inside_def sh_def not_less)
    then have "I v ?i'" by (intro resize [OF sh]) simp_all
    moreover have "inner_flags sh = inner_flags ?i" by (simp add: sh_def)
    ultimately show ?thesis
      using 2 by (intro sys_inv_update [OF ok v]) (simp_all add: resizable_def vmo_flags_def)
  qed (use ok in simp)
qed

lemma sys_decommit:
  assumes ok: "sys_inv I V w" and v: "v \<in> V" and st: "decommit_range A off w v o' n = Some (r, w')"
  shows "sys_inv I V w'"
proof -
  let ?i = "inner_of w v"
  define k where "k = filter (\<lambda>e. ext_outside o' (o' + n) e \<or> ext_partial o' (o' + n) e) (extents ?i)"
  let ?j = "if length k \<noteq> length (extents ?i) then reindex ?i k else ?i\<lparr>extents := k\<rparr>"
  have "w' = w \<or> (\<exists>s. w' = (set_inner w v ?j)\<lparr>frame_state := s\<rparr>)"
    using st unfolding decommit_range_def Let_def k_def
    by (auto simp: bind_eq_Some_conv simp del: not_ex split: if_split_asm option.split_asm)
  moreover have "sys_inv I V ((set_inner w v ?j)\<lparr>frame_state := s\<rparr>)" for s
  proof (cases "length k = length (extents ?i)")
    case True
    then have "k = extents ?i" unfolding k_def by (rule filter_same_length)
    then have j: "?j = ?i" by simp
    have w': "vmos ((set_inner w v ?j)\<lparr>frame_state := s\<rparr>) = vmos w"
      unfolding j by (simp add: inner_of_def)
    show ?thesis by (rule sys_inv_cong [OF ok w']) simp
  next
    case False
    then show ?thesis
      using sys_fewer [OF ok v, of k "(set_inner w v ?j)\<lparr>frame_state := s\<rparr>"] sub_exts_filter
      by (simp add: k_def)
  qed
  ultimately show ?thesis using ok by auto
qed

end

text \<open>The two invariants: the index agrees with disjoint extents, or it only never names a wrong one.\<close>

interpretation fresh_vmo: vmo_invariant inner_ok
proof
  fix v i j n and es :: "vmo_extent list"
  show "inner_ok v i \<Longrightarrow> exts_inside v i" by (simp add: inner_ok_def exts_inside_def)
  show "extents i = [] \<Longrightarrow> index i = index_default \<Longrightarrow> inner_stream_size i \<le> inner_size i \<Longrightarrow> inner_ok v i"
    by (simp add: inner_ok_def fresh_index_def snapshots_def rebuild_def index_default_def)
  show "inner_ok v i \<Longrightarrow> extents j = extents i \<Longrightarrow> index j = index i \<Longrightarrow> exts_inside v j \<Longrightarrow> inner_ok v j"
    by (simp add: inner_ok_def exts_inside_def fresh_index_def)
  show "inner_ok v i \<Longrightarrow> sub_exts es (extents i) \<Longrightarrow> inner_ok v (reindex i es)"
    by (auto simp: inner_ok_def sub_exts_def exts_disjoint_sorted_wrt)
  show "inner_ok v i \<Longrightarrow> \<forall>e \<in> set (extents i). \<forall>x. \<not> (ext_contains e x \<and> ext_contains n x) \<Longrightarrow>
      exts_inside v (reindex i (extents i @ [n])) \<Longrightarrow> inner_ok v (reindex i (extents i @ [n]))"
    by (simp add: inner_ok_def exts_inside_def exts_disjoint_snoc)
qed

interpretation sound_vmo: vmo_invariant inner_sound
proof
  fix v i j n and es :: "vmo_extent list"
  show "inner_sound v i \<Longrightarrow> exts_inside v i" by (simp add: inner_sound_def)
  show "extents i = [] \<Longrightarrow> index i = index_default \<Longrightarrow> inner_stream_size i \<le> inner_size i \<Longrightarrow> inner_sound v i"
    using index_sound_fresh [of i]
    by (simp add: inner_sound_def exts_inside_def fresh_index_def snapshots_def rebuild_def index_default_def)
  show "inner_sound v i \<Longrightarrow> extents j = extents i \<Longrightarrow> index j = index i \<Longrightarrow> exts_inside v j \<Longrightarrow> inner_sound v j"
    using index_sound_cong by (auto simp: inner_sound_def)
  show "inner_sound v i \<Longrightarrow> sub_exts es (extents i) \<Longrightarrow> inner_sound v (reindex i es)"
    using index_sound_fresh [of "reindex i es"] by (auto simp: inner_sound_def exts_inside_def sub_exts_def)
  show "inner_sound v i \<Longrightarrow> \<forall>e \<in> set (extents i). \<forall>x. \<not> (ext_contains e x \<and> ext_contains n x) \<Longrightarrow>
      exts_inside v (reindex i (extents i @ [n])) \<Longrightarrow> inner_sound v (reindex i (extents i @ [n]))"
    using index_sound_fresh [of "reindex i (extents i @ [n])"] by (simp add: inner_sound_def)
qed

lemma inner_ok_sound: "inner_ok v i \<Longrightarrow> inner_sound v i"
  using index_sound_fresh by (simp add: inner_ok_def inner_sound_def exts_inside_def)

lemma sys_ok_sound: "sys_ok V w \<Longrightarrow> sys_sound V w"
  by (simp add: sys_inv_def inner_ok_sound)

subsection \<open>Commits\<close>

text \<open>A commit that passes the checks is a run of the loop.\<close>

lemma commit_range_run:
  assumes "commit_range A off w v o' n pp = Some (r, w')"
  obtains (refused) e where "r = Inl e" "w' = w"
  | (ran) r1 i1 s where "vmo_child v = None" "vmo_backing v = Paged" "n \<noteq> 0" "0 < vmo_page_size v"
      "vmo_page_size v dvd o'" "vmo_page_size v dvd n" "o' + n \<le> vmo_size w v" "o' + n \<le> usize_max"
      "vmo_page_size v div unit_page_size A * unit_page_size A = vmo_page_size v"
      "commit_loop A off (vmo_page_size v) (vmo_page_size v div unit_page_size A) pp (o' + n) o' False
         (inner_of w v) (frame_state w) = Some (r1, i1, s)"
      "r = (case r1 of Inl e \<Rightarrow> Inl e | Inr _ \<Rightarrow> Inr n)"
      "w' = (set_inner w v (if r1 = Inr True then reindex i1 (extents i1) else i1))\<lparr>frame_state := s\<rparr>"
proof (cases "\<exists>e. r = Inl e \<and> w' = w")
  case True
  with refused show thesis by blast
next
  case False
  let ?ps = "vmo_page_size v"
  have g: "o' + n \<le> vmo_size w v" "n \<noteq> 0" "is_multiple_of o' ?ps" "is_multiple_of n ?ps"
    "vmo_child v = None" "vmo_backing v = Paged" "?ps div unit_page_size A * unit_page_size A = ?ps"
    "?ps div unit_page_size A \<noteq> 0" "o' + n \<le> usize_max" "unit_page_size A \<noteq> 0"
    using assms False unfolding commit_range_def Let_def by (auto split: if_split_asm option.split_asm)
  then have "checked_add o' n = Some (o' + n)" by simp
  with assms g obtain r1 i1 s where run:
      "commit_loop A off ?ps (?ps div unit_page_size A) pp (o' + n) o' False (inner_of w v) (frame_state w)
        = Some (r1, i1, s)"
    and res: "(case r1 of Inl e \<Rightarrow> Some (Inl e, (set_inner w v i1)\<lparr>frame_state := s\<rparr>)
      | Inr d \<Rightarrow> Some (Inr n, (set_inner w v (if d then reindex i1 (extents i1) else i1))
          \<lparr>frame_state := s\<rparr>)) = Some (r, w')"
    unfolding commit_range_def Let_def by (auto simp: bind_eq_Some_conv)
  show thesis
  proof (rule ran [OF g(5,6,2) _ _ _ g(1,9,7) run])
    show "0 < ?ps" "?ps dvd o'" "?ps dvd n" using g by (auto simp: is_multiple_of_dvd intro: Nat.gr0I)
    show "r = (case r1 of Inl e \<Rightarrow> Inl e | Inr _ \<Rightarrow> Inr n)"
      "w' = (set_inner w v (if r1 = Inr True then reindex i1 (extents i1) else i1))\<lparr>frame_state := s\<rparr>"
      using res by (auto split: sum.splits)
  qed
qed

text \<open>A commit over a fresh index: how far it got, and the extents it leaves.\<close>

lemma commit_range_reach:
  assumes st: "commit_range A off w v o' n pp = Some (r, w')"
    and io: "inner_ok v (inner_of w v)" and unit: "unit_page_size A = UNIT_PAGE_SIZE"
  obtains (refused) e where "r = Inl e" "w' = w"
  | (ran) r1 i1 s f po where "vmo_child v = None" "vmo_backing v = Paged" "n \<noteq> 0" "0 < vmo_page_size v"
      "vmo_page_size v dvd o'" "vmo_page_size v dvd n" "o' + n \<le> vmo_size w v" "o' + n \<le> usize_max"
      "commit_reach (vmo_page_size v) (vmo_size w v) o' po (o' + n)
         \<lparr>cf_base = extents (inner_of w v), cf_old = extents (inner_of w v), cf_new = []\<rparr> f (inner_of w v) i1"
      "\<forall>d. r1 = Inr d \<longrightarrow> po = o' + n \<and> (d \<longleftrightarrow> cf_new f \<noteq> [])"
      "r = (case r1 of Inl e \<Rightarrow> Inl e | Inr _ \<Rightarrow> Inr n)"
      "w' = (set_inner w v (if r1 = Inr True then reindex i1 (extents i1) else i1))\<lparr>frame_state := s\<rparr>"
  using st
proof (cases rule: commit_range_run)
  case (refused e)
  with that(1) show thesis by blast
next
  case (ran r1 i1 s)
  let ?i = "inner_of w v"
  let ?f = "\<lparr>cf_base = extents ?i, cf_old = extents ?i, cf_new = []\<rparr>"
  have "commit_inv (vmo_page_size v) (vmo_size w v) o' ?f ?i"
    using io ran(2) by (simp add: commit_inv_def inner_ok_def fresh_index_def list.rel_refl vmo_size_def)
  from commit_loop_reach [OF ran(10) this] obtain f po
    where "commit_reach (vmo_page_size v) (vmo_size w v) o' po (o' + n) ?f f ?i i1"
      "\<forall>d. r1 = Inr d \<longrightarrow> po = max o' (o' + n) \<and> (d \<longleftrightarrow> cf_new f \<noteq> [])"
    using ran unit by auto
  then show thesis by (intro that(2) [OF ran(1-8) _ _ ran(11,12)]) auto
qed

lemma commit_range_ok:
  assumes st: "commit_range A off w v o' n pp = Some (Inr len, w')"
    and io: "inner_ok v (inner_of w v)" and unit: "unit_page_size A = UNIT_PAGE_SIZE"
  shows "\<exists>i s. w' = (set_inner w v i)\<lparr>frame_state := s\<rparr> \<and> inner_ok v i \<and>
    commit_keeps (inner_of w v) (i\<lparr>index := index (inner_of w v)\<rparr>) \<and>
    (\<forall>x. o' \<le> x \<and> x < o' + n \<longrightarrow> committed_at i x)"
    and "len = n" and "o' + n \<le> vmo_size w v" and "n \<noteq> 0"
    and "vmo_page_size v dvd o'" and "vmo_page_size v dvd n" and "vmo_child v = None"
    and "vmo_backing v = Paged" and "0 < vmo_page_size v" and "o' + n \<le> usize_max"
proof -
  let ?i = "inner_of w v"
  from st io unit obtain r1 :: "(bool, vmo_range_op_error) result" and i1 s f po where g: "vmo_child v = None" "vmo_backing v = Paged" "n \<noteq> 0"
      "0 < vmo_page_size v" "vmo_page_size v dvd o'" "vmo_page_size v dvd n" "o' + n \<le> vmo_size w v"
      "o' + n \<le> usize_max"
    and r: "commit_reach (vmo_page_size v) (vmo_size w v) o' po (o' + n)
         \<lparr>cf_base = extents ?i, cf_old = extents ?i, cf_new = []\<rparr> f ?i i1"
      "\<forall>d. r1 = Inr d \<longrightarrow> po = o' + n \<and> (d \<longleftrightarrow> cf_new f \<noteq> [])"
    and res: "Inr len = (case r1 of Inl e \<Rightarrow> Inl e | Inr _ \<Rightarrow> Inr n)"
      "w' = (set_inner w v (if r1 = Inr True then reindex i1 (extents i1) else i1))\<lparr>frame_state := s\<rparr>"
  proof (cases rule: commit_range_reach)
    case (ran r1 i1 s f po)
    from ran show thesis by (rule that)
  qed simp
  show "len = n" "o' + n \<le> vmo_size w v" "n \<noteq> 0" "vmo_page_size v dvd o'" "vmo_page_size v dvd n"
    "vmo_child v = None" "vmo_backing v = Paged" "0 < vmo_page_size v" "o' + n \<le> usize_max"
    using g res(1) by (auto split: sum.splits)
  from res(1) obtain d where d: "r1 = Inr d" by (cases r1) auto
  with r have inv: "commit_inv (vmo_page_size v) (vmo_size w v) (o' + n) f i1" "cf_base f = extents ?i"
      "commit_keeps ?i i1" "\<forall>x. o' \<le> x \<and> x < o' + n \<longrightarrow> committed_at i1 x" "d \<longleftrightarrow> cf_new f \<noteq> []"
    by (auto simp: commit_reach_def)
  let ?j = "if d then reindex i1 (extents i1) else i1"
  have same: "i1 = ?i\<lparr>extents := extents i1\<rparr>" using inv(3) by (simp add: commit_keeps_def)
  have "fresh_index ?j"
  proof (cases d)
    case False
    with inv(5) commit_invD(1-3) [OF inv(1)] have "index i1 = rebuild (snapshots (extents i1))"
      by (simp add: snapshots_same)
    with False show ?thesis by (simp add: fresh_index_def)
  qed simp
  moreover have "extents ?j = extents i1" "inner_size ?j = inner_size ?i"
    "inner_stream_size ?j = inner_stream_size ?i"
    using arg_cong [OF same, of inner_size] arg_cong [OF same, of inner_stream_size] by simp_all
  ultimately have "inner_ok v ?j"
    using commit_invD(4,5) [OF inv(1)] io by (simp add: inner_ok_def vmo_size_def)
  moreover have "?j\<lparr>index := index ?i\<rparr> = i1"
    using arg_cong [OF same, of index] by (cases i1) (simp add: reindex_def)
  ultimately show "\<exists>i s. w' = (set_inner w v i)\<lparr>frame_state := s\<rparr> \<and> inner_ok v i \<and>
    commit_keeps ?i (i\<lparr>index := index ?i\<rparr>) \<and> (\<forall>x. o' \<le> x \<and> x < o' + n \<longrightarrow> committed_at i x)"
    using res(2) d inv(3,4) \<open>extents ?j = extents i1\<close> by (auto simp: committed_at_def)
qed

lemma sys_ok_commit:
  assumes ok: "sys_ok V w" and v: "v \<in> V"
    and st: "commit_range A off w v o' n pp = Some (Inr len, w')"
    and unit: "unit_page_size A = UNIT_PAGE_SIZE"
  shows "sys_ok V w'"
proof -
  from commit_range_ok(1) [OF st sys_okD(2) [OF ok v] unit]
  obtain i s where i: "w' = (set_inner w v i)\<lparr>frame_state := s\<rparr>" "inner_ok v i"
    "commit_keeps (inner_of w v) (i\<lparr>index := index (inner_of w v)\<rparr>)" by blast
  then have same: "i\<lparr>index := index (inner_of w v)\<rparr> = (inner_of w v)\<lparr>extents := extents i\<rparr>"
    by (simp add: commit_keeps_def)
  have "inner_size i = vmo_size w v" "inner_flags i = vmo_flags w v"
    using arg_cong [OF same, of inner_size] arg_cong [OF same, of inner_flags]
    by (simp_all add: vmo_size_def vmo_flags_def)
  with i(1,2) show ?thesis
    by (intro sys_inv_update [OF ok v]) (simp_all add: resizable_def)
qed

lemma sys_sound_commit:
  assumes ok: "sys_sound V w" and v: "v \<in> V"
    and st: "commit_range A off w v o' n pp = Some (r, w')"
    and unit: "unit_page_size A = UNIT_PAGE_SIZE"
  shows "sys_sound V w'"
  using st
proof (cases rule: commit_range_run)
  case (refused e)
  with ok show ?thesis by simp
next
  case (ran r1 i1 s)
  let ?i = "inner_of w v" and ?j = "if r1 = Inr True then reindex i1 (extents i1) else i1"
  note io = sys_invD(2) [OF ok v]
  have i1: "index_sound i1" "\<forall>e \<in> set (extents i1). ext_aligned (vmo_page_size v) e \<and> ext_end e \<le> vmo_size w v"
      "i1 = ?i\<lparr>extents := extents i1\<rparr>"
    using commit_loop_sound [OF ran(10), of "vmo_size w v"] io ran unit
    by (auto simp: inner_sound_def exts_inside_def vmo_size_def)
  have f: "inner_size ?j = vmo_size w v" "inner_stream_size ?j = inner_stream_size ?i" "inner_flags ?j = vmo_flags w v"
    "extents ?j = extents i1"
    using arg_cong [OF i1(3), of inner_size] arg_cong [OF i1(3), of inner_stream_size]
      arg_cong [OF i1(3), of inner_flags]
    by (simp_all add: vmo_size_def vmo_flags_def)
  have "index_sound ?j" using i1(1) index_sound_fresh [of "reindex i1 (extents i1)"] by simp
  then have "inner_sound v ?j"
    using i1(2) io f(1,2,4) unfolding inner_sound_def exts_inside_def by (metis vmo_size_def)
  with ran(12) f show ?thesis
    by (intro sys_inv_update [OF ok v]) (simp_all add: resizable_def)
qed

subsection \<open>Private pages\<close>

text \<open>What materialising a private page does: nothing to the objects, or one new page.\<close>

lemma materialize_cases:
  assumes "materialize_private_cow_page A off w v o' pp = Some (md, w')"
  obtains (same) s where "w' = w\<lparr>frame_state := s\<rparr>"
      "md \<noteq> None \<Longrightarrow> owner_of (inner_of w v) (o' div vmo_page_size v * vmo_page_size v) \<noteq> None"
  | (page) c po p fr src m s where
      "vmo_page_size v \<noteq> 0" "po = o' div vmo_page_size v * vmo_page_size v"
      "offset_is_page_aligned w v po" "vmo_child v = Some c" "child_kind c = vmo_child_kind.PrivateCow"
      "src = page_at w (child_parent c) (child_parent_offset c + po)"
      "owner_of (inner_of w v) po = None"
      "from_addr True p (vmo_page_size v div unit_page_size A) = Some fr"
      "vmo_page_size v div unit_page_size A * unit_page_size A = vmo_page_size v"
      "(case src of Some meta \<Rightarrow> copy_phys off (phys w) (meta_phys meta) p (vmo_page_size v)
        | None \<Rightarrow> zero_phys off (phys w) p (vmo_page_size v)) = Some m"
      "w' = (set_inner w v (reindex (inner_of w v) (extents (inner_of w v) @
         [\<lparr>ext_offset = po, ext_frame = run_from_frame fr,
           ext_purpose = (case src of Some meta \<Rightarrow> meta_purpose meta | None \<Rightarrow> pp),
           ext_committed = True\<rparr>])))\<lparr>phys := m, frame_state := s\<rparr>"
      "\<exists>virt. alloc A None frame_zone_default (vmo_page_size v div unit_page_size A) (frame_state w)
         = (Inr virt, s) \<and> virt_to_phys off virt = Some p"
      "md = local_page (inner_of w' v) po" "child_parent_offset c + po \<le> usize_max"
proof -
  let ?ps = "vmo_page_size v"
  let ?po = "o' div ?ps * ?ps" and ?fc = "?ps div unit_page_size A"
  have self: "w = w\<lparr>frame_state := frame_state w\<rparr>" by simp
  show ?thesis
  proof (cases "?ps \<noteq> 0 \<and> offset_is_page_aligned w v ?po \<and>
      map_option child_kind (vmo_child v) = Some vmo_child_kind.PrivateCow \<and>
      checked_add (child_parent_offset (the (vmo_child v))) ?po \<noteq> None \<and>
      ?fc * unit_page_size A = ?ps \<and> owner_of (inner_of w v) ?po = None")
    case False
    with assms have "w' = w" "md \<noteq> None \<Longrightarrow> owner_of (inner_of w v) ?po \<noteq> None"
      unfolding materialize_private_cow_page_def Let_def
      by (auto split: if_split_asm option.split_asm)
    with same [of "frame_state w"] self show ?thesis by simp
  next
    case True
    then obtain c where c: "vmo_child v = Some c" "child_kind c = vmo_child_kind.PrivateCow" by auto
    with True have ca: "checked_add (child_parent_offset c) ?po = Some (child_parent_offset c + ?po)" by auto
    from True c have fc: "?fc \<noteq> 0" "unit_page_size A \<noteq> 0" by (metis mult_zero_left, metis mult_zero_right)
    obtain r s where al: "alloc A None frame_zone_default ?fc (frame_state w) = (r, s)" by fastforce
    show ?thesis
    proof (cases "\<exists>virt p. r = Inr virt \<and> virt_to_phys off virt = Some p")
      case False
      then have "w' = w\<lparr>frame_state := s\<rparr>" "md = None"
        using assms True c ca fc al unfolding materialize_private_cow_page_def Let_def
        by (auto split: sum.split_asm option.split_asm)
      with same show ?thesis by blast
    next
      case True': True
      then obtain virt p where r: "r = Inr virt" "virt_to_phys off virt = Some p" by blast
      let ?src = "page_at w (child_parent c) (child_parent_offset c + ?po)"
      have "Option.bind (case ?src of Some meta \<Rightarrow> copy_phys off (phys w) (meta_phys meta) p ?ps
           | None \<Rightarrow> zero_phys off (phys w) p ?ps) (\<lambda>m. Option.bind (from_addr True p ?fc) (\<lambda>fr.
             Some (set_inner w v (reindex (inner_of w v) (extents (inner_of w v) @
              [\<lparr>ext_offset = ?po, ext_frame = run_from_frame fr,
                ext_purpose = (case ?src of Some meta \<Rightarrow> meta_purpose meta | None \<Rightarrow> pp),
                ext_committed = True\<rparr>]))\<lparr>phys := m, frame_state := s\<rparr>))) = Some w'"
        using assms True c ca fc al r unfolding materialize_private_cow_page_def Let_def
        by (auto simp: bind_eq_Some_conv)
      moreover have "md = local_page (inner_of w' v) ?po"
        using assms True c ca fc al r unfolding materialize_private_cow_page_def Let_def
        by (auto simp: bind_eq_Some_conv inner_of_def)
      ultimately obtain m fr where m: "(case ?src of Some meta \<Rightarrow> copy_phys off (phys w) (meta_phys meta) p ?ps
           | None \<Rightarrow> zero_phys off (phys w) p ?ps) = Some m" "from_addr True p ?fc = Some fr"
        "w' = set_inner w v (reindex (inner_of w v) (extents (inner_of w v) @
              [\<lparr>ext_offset = ?po, ext_frame = run_from_frame fr,
                ext_purpose = (case ?src of Some meta \<Rightarrow> meta_purpose meta | None \<Rightarrow> pp),
                ext_committed = True\<rparr>]))\<lparr>phys := m, frame_state := s\<rparr>"
        "md = local_page (inner_of w' v) ?po"
        unfolding bind_eq_Some_conv by blast
      show ?thesis
        using True al r c by (intro page [OF _ refl _ c refl _ m(2) _ m(1,3) _ m(4)]) auto
    qed
  qed
qed

lemma materialize_update:
  assumes ok: "sys_inv I V w" and v: "v \<in> V"
    and st: "materialize_private_cow_page A off w v o' pp = Some (md, w')"
    and unit: "unit_page_size A = UNIT_PAGE_SIZE"
    and more: "\<And>n po. vmo_backing v = Paged \<Longrightarrow> owner_of (inner_of w v) po = None \<Longrightarrow> vmo_page_size v dvd po \<Longrightarrow>
      ext_offset n = po \<Longrightarrow> ext_end n = po + vmo_page_size v \<Longrightarrow> po + vmo_page_size v \<le> vmo_size w v \<Longrightarrow>
      I v (reindex (inner_of w v) (extents (inner_of w v) @ [n]))"
  shows "sys_inv I V w'"
  using st
proof (cases rule: materialize_cases)
  case (same s)
  with ok show ?thesis by (simp add: sys_inv_frame_state)
next
  case (page c po p fr src m s)
  let ?i = "inner_of w v" and ?ps = "vmo_page_size v"
  let ?n = "\<lparr>ext_offset = po, ext_frame = run_from_frame fr,
    ext_purpose = (case src of Some meta \<Rightarrow> meta_purpose meta | None \<Rightarrow> pp), ext_committed = True\<rparr>"
  note co = sys_invD(3) [OF ok v page(4)]
  have paged: "vmo_backing v = Paged" "?ps dvd vmo_size w v"
    using co page(5) by (simp_all add: child_ok_def)
  have po: "?ps dvd po" "po < vmo_size w v"
    using page(3) by (simp_all add: offset_is_page_aligned_def is_multiple_of_dvd)
  then have "?ps dvd vmo_size w v - po" using paged(2) by (simp add: dvd_diff_nat)
  then have "?ps \<le> vmo_size w v - po" using po by (intro dvd_imp_le) simp_all
  then have fits: "po + ?ps \<le> vmo_size w v" using po by linarith
  have n: "ext_offset ?n = po" "ext_end ?n = po + ?ps"
    using run_from_addr_len [OF page(8)] page(9) unit by (simp_all add: ext_end_def)
  have "I v (reindex ?i (extents ?i @ [?n]))" by (rule more [OF paged(1) page(7) po(1) n fits])
  with page(11) show ?thesis
    by (intro sys_inv_update [OF ok v]) (simp_all add: resizable_def vmo_flags_def vmo_size_def)
qed

lemma sys_ok_materialize:
  assumes ok: "sys_ok V w" and v: "v \<in> V"
    and st: "materialize_private_cow_page A off w v o' pp = Some (md, w')"
    and unit: "unit_page_size A = UNIT_PAGE_SIZE"
  shows "sys_ok V w'"
proof (rule materialize_update [OF ok v st unit])
  fix n po
  let ?i = "inner_of w v" and ?ps = "vmo_page_size v"
  note io = sys_okD(2) [OF ok v]
  assume a: "vmo_backing v = Paged" "owner_of ?i po = None" "?ps dvd po" "ext_offset n = po" "ext_end n = po + ?ps"
    "po + ?ps \<le> vmo_size w v"
  have al: "\<forall>e \<in> set (extents ?i). ext_aligned ?ps e" and fi: "fresh_index ?i"
    using io a(1) by (simp_all add: inner_ok_def)
  have "\<forall>e \<in> set (extents ?i). \<not> ext_contains e po" using owner_of_None [OF fi] a(2) by blast
  from fresh_page_disjoint [OF al a(3) this a(4,5)]
  show "inner_ok v (reindex ?i (extents ?i @ [n]))"
    using a fresh_vmo.inside [OF io]
    by (intro fresh_vmo.one_more [OF io]) (auto simp: exts_inside_def vmo_size_def ext_aligned_def)
qed

lemma sys_sound_materialize:
  assumes ok: "sys_sound V w" and v: "v \<in> V"
    and st: "materialize_private_cow_page A off w v o' pp = Some (md, w')"
    and unit: "unit_page_size A = UNIT_PAGE_SIZE"
  shows "sys_sound V w'"
proof (rule materialize_update [OF ok v st unit])
  fix n po
  let ?i = "inner_of w v"
  assume "vmo_backing v = Paged" "vmo_page_size v dvd po" "ext_offset n = po" "ext_end n = po + vmo_page_size v"
    "po + vmo_page_size v \<le> vmo_size w v"
  then show "inner_sound v (reindex ?i (extents ?i @ [n]))"
    using sound_vmo.inside [OF sys_invD(2) [OF ok v]] index_sound_fresh [of "reindex ?i (extents ?i @ [n])"]
    by (auto simp: inner_sound_def exts_inside_def vmo_size_def ext_aligned_def)
qed

subsection \<open>Reachable states\<close>

context vmo_invariant
begin

text \<open>A step keeps the invariant once commits and private pages do.\<close>

lemma step_keeps:
  assumes "vmo_step A off (V, w) (V', w')" and ok: "sys_inv I V w"
    and commit: "\<And>v o' n pp len u. v \<in> V \<Longrightarrow> commit_range A off w v o' n pp = Some (Inr len, u) \<Longrightarrow> sys_inv I V u"
    and cow: "\<And>v o' pp md u. v \<in> V \<Longrightarrow> materialize_private_cow_page A off w v o' pp = Some (md, u) \<Longrightarrow> sys_inv I V u"
  shows "sys_inv I V' w'"
  using assms(1)
proof (cases rule: vmo_step.cases)
  case new
  with ok show ?thesis by (auto intro: sys_new_paged)
next
  case new_physical
  with ok show ?thesis by (auto intro: sys_new_physical)
next
  case child
  with ok show ?thesis by (auto intro: sys_child)
next
  case private_child
  with ok show ?thesis by (auto intro: sys_private_child)
next
  case bind
  with ok show ?thesis by (auto intro: sys_bind)
next
  case track
  with ok show ?thesis by (auto intro: sys_track)
next
  case untrack
  with ok show ?thesis by (auto intro: sys_untrack)
next
  case writes
  with ok show ?thesis by (auto intro: sys_inv_phys dest!: vmo_write_phys)
next
  case transfer
  with ok show ?thesis by (auto intro: sys_inv_transfer)
next
  case size
  with ok show ?thesis by (auto intro: sys_set_size)
next
  case stream_size
  with ok show ?thesis by (auto intro: sys_stream_size)
next
  case policy
  with ok show ?thesis by (auto intro: sys_policy)
next
  case decommit
  with ok show ?thesis by (auto intro: sys_decommit)
next
  case zero
  with ok show ?thesis by (auto intro: sys_inv_phys dest!: zero_range_phys)
qed (use commit cow in blast)+

end

lemma vmo_step_keeps_sys_ok:
  assumes "vmo_step A off (V, w) (V', w')" and "unit_page_size A = UNIT_PAGE_SIZE" and "sys_ok V w"
  shows "sys_ok V' w'"
  using assms by (blast intro: fresh_vmo.step_keeps sys_ok_commit sys_ok_materialize)

lemma vmo_any_step_keeps_sys_sound:
  assumes "vmo_any_step A off (V, w) (V', w')" and "unit_page_size A = UNIT_PAGE_SIZE" and "sys_sound V w"
  shows "sys_sound V' w'"
  using assms(1)
proof (cases rule: vmo_any_step.cases)
  case step
  with assms(2,3) show ?thesis by (blast intro: sound_vmo.step_keeps sys_sound_commit sys_sound_materialize)
next
  case failed_commit
  with assms(2,3) show ?thesis by (blast intro: sys_sound_commit)
qed

text \<open>C1: in every state that the operations reach from the empty system, failed ones included and as
  long as the id counter has not wrapped around, ids are unique, the extents of paged objects are page
  aligned and inside the size, the index never names an extent that does not cover the offset, and every
  child view lies inside its parent, which is not resizable; and while no commit has failed, every
  object's index is moreover fresh over pairwise disjoint extents.\<close>

theorem reachable_sys_ok:
  assumes "(vmo_any_step A off)\<^sup>*\<^sup>* ({}, w0) (V, w)" and "unit_page_size A = UNIT_PAGE_SIZE"
  shows "sys_sound V w \<and> ((vmo_step A off)\<^sup>*\<^sup>* ({}, w0) (V, w) \<longrightarrow> sys_ok V w)"
proof (intro conjI impI)
  show "sys_sound V w"
    using assms(1)
  proof (induction "(V, w)" arbitrary: V w rule: rtranclp_induct)
    case (step s)
    obtain V1 w1 where s: "s = (V1, w1)" by (cases s)
    show ?case by (rule vmo_any_step_keeps_sys_sound [OF step(2) [unfolded s] assms(2) step(3) [OF s]])
  qed (simp add: sys_inv_def)
  assume "(vmo_step A off)\<^sup>*\<^sup>* ({}, w0) (V, w)"
  then show "sys_ok V w"
  proof (induction "(V, w)" arbitrary: V w rule: rtranclp_induct)
    case (step s)
    obtain V1 w1 where s: "s = (V1, w1)" by (cases s)
    show ?case by (rule vmo_step_keeps_sys_ok [OF step(2) [unfolded s] assms(2) step(3) [OF s]])
  qed (simp add: sys_inv_def)
qed

end
