(* ===== verification/Vmo_Access.thy ===== *)
theory Vmo_Access
  imports Vmo_System
begin

text \<open>
  What the operations of memory objects do to the bytes a reader sees: committing and decommitting
  against \<open>query_committed_bytes\<close> and \<open>page_at\<close>, reading after writing, reading a page through any
  chain of child views, and the isolation of private copies.
\<close>

subsection \<open>Pages of an object\<close>

lemma page_at_root:
  "vmo_child v = None \<Longrightarrow>
     page_at w v x = (if offset_is_page_aligned w v x then local_page (inner_of w v) x else None)"
  by (cases v) (simp add: inner_of_def)

lemma page_at_child:
  "vmo_child v = Some c \<Longrightarrow>
     page_at w v x =
       (if \<not> offset_is_page_aligned w v x then None
        else if child_kind c = vmo_child_kind.PrivateCow \<and> owner_of (inner_of w v) x \<noteq> None
        then local_page (inner_of w v) x
        else if child_parent_offset c + x \<le> usize_max
        then page_at w (child_parent c) (child_parent_offset c + x) else None)"
  by (cases v; cases c) (auto simp: inner_of_def checked_add_def split: option.splits)

lemma local_page_iff:
  assumes "fresh_index i" and "exts_disjoint (extents i)"
  shows "local_page i x = Some md \<longleftrightarrow> (\<exists>e \<in> set (extents i). metadata_at e x = Some md)"
proof
  assume "local_page i x = Some md"
  then show "\<exists>e \<in> set (extents i). metadata_at e x = Some md"
    by (auto simp: local_page_def bind_eq_Some_conv)
next
  assume "\<exists>e \<in> set (extents i). metadata_at e x = Some md"
  then obtain k where k: "k < length (extents i)" "metadata_at (extents i ! k) x = Some md"
    by (metis in_set_conv_nth)
  then have "ext_contains (extents i ! k) x" by (auto simp: metadata_at_def split: if_splits)
  with k have "owner_of i x = Some k" using owner_of_eq [OF assms] by simp
  with k show "local_page i x = Some md" by (simp add: local_page_def)
qed

lemma local_page_committed:
  assumes "fresh_index i" and "exts_disjoint (extents i)" and "committed_at i x"
  obtains md where "local_page i x = Some md" "meta_committed md"
proof -
  from assms(3) obtain k where k: "k < length (extents i)" "ext_contains (extents i ! k) x"
    "ext_committed (extents i ! k)"
    by (auto simp: committed_at_def in_set_conv_nth)
  then have "owner_of i x = Some k" using owner_of_eq [OF assms(1,2)] by simp
  from local_page_owner [OF assms(1) this] k(3) that show ?thesis by auto
qed

lemma committed_loop_all:
  assumes "\<forall>x. po \<le> x \<and> x < e \<and> vmo_page_size v dvd x \<longrightarrow>
      (\<exists>md. page_at w v x = Some md \<and> meta_committed md)"
    and "vmo_page_size v dvd po" and "vmo_page_size v dvd e" and "0 < vmo_page_size v"
  shows "committed_loop w v e po = Some (e - po)"
  using assms
proof (induction w v e po rule: committed_loop.induct)
  case (1 w v e po)
  show ?case
  proof (cases "po < e")
    case True
    have "vmo_page_size v dvd e - po" using "1.prems"(2,3) True by (simp add: dvd_diff_nat)
    then have "vmo_page_size v \<le> e - po" using True by (intro dvd_imp_le) simp_all
    moreover have "committed_loop w v e (po + vmo_page_size v) = Some (e - (po + vmo_page_size v))"
      using True "1.prems" by (intro "1.IH") auto
    moreover obtain md where "page_at w v po = Some md" "meta_committed md"
      using "1.prems"(1,2) True by blast
    ultimately show ?thesis
      using True "1.prems"(4) by (subst committed_loop.simps) simp
  qed (simp add: committed_loop.simps)
qed

text \<open>C7: after a commit that returns Ok, the whole range counts as committed.\<close>

theorem commit_then_query:
  assumes "sys_ok V w" and "v \<in> V" and "unit_page_size A = UNIT_PAGE_SIZE"
    and st: "commit_range A off w v offset len purpose = Some (Ok n, w')"
  shows "query_committed_bytes w' v offset len = Some (Ok len)"
proof -
  note c = commit_range_ok [OF st sys_okD(2) [OF assms(1,2)] assms(3)]
  from c(1) obtain i s where i: "w' = (set_inner w v i)\<lparr>frame_state := s\<rparr>" "inner_ok v i"
    "commit_keeps (inner_of w v) (i\<lparr>index := index (inner_of w v)\<rparr>)"
    "\<forall>x. offset \<le> x \<and> x < offset + len \<longrightarrow> committed_at i x" by blast
  have iv: "inner_of w' v = i" using i(1) by (simp add: inner_of_def)
  have "i\<lparr>index := index (inner_of w v)\<rparr> = (inner_of w v)\<lparr>extents := extents i\<rparr>"
    using i(3) by (simp add: commit_keeps_def)
  from arg_cong [OF this, of inner_size] have sz: "vmo_size w' v = vmo_size w v"
    by (simp add: vmo_size_def iv)
  have "\<exists>md. page_at w' v x = Some md \<and> meta_committed md"
    if "offset \<le> x" "x < offset + len" "vmo_page_size v dvd x" for x
  proof -
    have "committed_at i x" using i(4) that by simp
    with i(2) obtain md where "local_page i x = Some md" "meta_committed md"
      unfolding inner_ok_def using local_page_committed by metis
    moreover have "offset_is_page_aligned w' v x"
      using that c(3) sz by (simp add: offset_is_page_aligned_def is_multiple_of_dvd)
    ultimately show ?thesis by (simp add: page_at_root [OF c(7)] iv)
  qed
  then have "committed_loop w' v (offset + len) offset = Some len"
    using committed_loop_all [of offset "offset + len" v w'] c(5,6,9) by simp
  with c(3-6,10) sz show ?thesis
    by (simp add: query_committed_bytes_def is_multiple_of_dvd checked_add_def)
qed


subsection \<open>Bytes of an object without parent\<close>

text \<open>The range is inside the object and every byte of it is committed.\<close>

definition readable :: "'s vm_world \<Rightarrow> vmo \<Rightarrow> usize \<Rightarrow> usize \<Rightarrow> bool" where
  "readable w v offset n \<longleftrightarrow>
     offset + n \<le> usize_max \<and> offset + n \<le> vmo_size w v \<and> mapped (inner_of w v) offset (offset + n)"

lemma read_local_eq:
  assumes "inner_ok v (inner_of w v)" and "addressable off (inner_of w v)"
  shows "read_local off w v offset n =
    Some (if readable w v offset n
      then Some (local_bytes (phys w) (inner_of w v) offset (offset + n)) else None)"
  using assms read_local_loop_spec [of "inner_of w v" off "phys w" "offset + n" offset]
  by (auto simp: read_local_def readable_def inner_ok_def checked_add_def)

lemma vmo_read_no_child: "vmo_child v = None \<Longrightarrow> vmo_read off w v o' n = read_local off w v o' n"
  by (cases v) simp

lemma vmo_read_child:
  "vmo_child v = Some c \<Longrightarrow>
     vmo_read off w v o' n =
       (case checked_add o' n of
          None \<Rightarrow> Some None
        | Some e \<Rightarrow>
            if e > vmo_size w v then Some None
            else if child_kind c = vmo_child_kind.PrivateCow
            then cow_read_loop (read_local off w v) (vmo_read off w (child_parent c)) (inner_of w v)
                   (vmo_page_size v) (child_parent_offset c) e o'
            else (case checked_add (child_parent_offset c) o' of
                    None \<Rightarrow> Some None
                  | Some p \<Rightarrow> vmo_read off w (child_parent c) p n))"
  by (cases v; cases c) (auto simp: Let_def split: option.split)

lemma cow_read_one_page:
  assumes "ps dvd x" and "0 < ps"
  shows "cow_read_loop loc par i ps po (x + ps) x =
    (if owner_of i x \<noteq> None then loc x ps
     else case checked_add po x of None \<Rightarrow> Some None | Some q \<Rightarrow> par q ps)"
proof -
  have "x div ps * ps = x" using assms(1) by simp
  moreover have "cow_read_loop loc par i ps po (x + ps) (x + ps) = Some (Some [])"
    by (simp add: cow_read_loop.simps)
  ultimately show ?thesis
    using assms(2)
    by (subst cow_read_loop.simps) (auto simp: Let_def split: option.splits)
qed

lemma vmo_write_no_child: "vmo_child v = None \<Longrightarrow> vmo_write off w v o' d = write_local off w v o' d"
  by (cases v) simp

lemma vmo_read_root:
  assumes "vmo_child v = None" and "inner_ok v (inner_of w v)" and "addressable off (inner_of w v)"
  shows "vmo_read off w v offset n =
    Some (if readable w v offset n
      then Some (local_bytes (phys w) (inner_of w v) offset (offset + n)) else None)"
  using read_local_eq [OF assms(2,3)] assms(1) by (simp add: vmo_read_no_child)

lemma write_local_spec:
  assumes ok: "inner_ok v (inner_of w v)" and ad: "addressable off (inner_of w v)"
  shows "\<exists>m. write_local off w v offset data = Some (readable w v offset (length data), w\<lparr>phys := m\<rparr>) \<and>
    (\<forall>a. (\<forall>x. offset \<le> x \<and> x < offset + length data \<longrightarrow> local_addr (inner_of w v) x \<noteq> Some a)
       \<longrightarrow> m a = phys w a) \<and>
    (addr_inj (inner_of w v) \<and> readable w v offset (length data) \<longrightarrow>
       (\<forall>x. offset \<le> x \<and> x < offset + length data \<longrightarrow>
          m (the (local_addr (inner_of w v) x)) = data ! (x - offset)))"
proof (cases "offset + length data \<le> usize_max \<and> offset + length data \<le> vmo_size w v")
  case True
  then have "checked_add offset (length data) = Some (offset + length data)" by simp
  moreover have "\<not> offset + length data > vmo_size w v" using True by simp
  moreover have "readable w v offset (length data) \<longleftrightarrow> mapped (inner_of w v) offset (offset + length data)"
    using True by (simp add: readable_def)
  moreover obtain m where
    "write_local_loop off (inner_of w v) (offset + length data) offset data (phys w) =
       Some (mapped (inner_of w v) offset (offset + length data), m)"
    "\<forall>a. (\<forall>x. offset \<le> x \<and> x < offset + length data \<longrightarrow> local_addr (inner_of w v) x \<noteq> Some a) \<longrightarrow> m a = phys w a"
    "addr_inj (inner_of w v) \<and> mapped (inner_of w v) offset (offset + length data) \<longrightarrow>
       (\<forall>x. offset \<le> x \<and> x < offset + length data \<longrightarrow>
          m (the (local_addr (inner_of w v) x)) = data ! (x - offset))"
    using write_local_loop_spec [of "inner_of w v" off data "offset + length data" offset "phys w"] ok ad
    by (auto simp: inner_ok_def)
  ultimately show ?thesis
    by (intro exI [of _ m]) (simp add: write_local_def checked_add_def)
next
  case False
  then have "write_local off w v offset data = Some (False, w\<lparr>phys := phys w\<rparr>)"
    by (auto simp: write_local_def split: option.splits)
  moreover have "\<not> readable w v offset (length data)" using False by (auto simp: readable_def)
  ultimately show ?thesis by (intro exI [of _ "phys w"]) simp
qed

lemma inner_of_phys [simp]: "inner_of (w\<lparr>phys := m\<rparr>) v = inner_of w v"
  by (simp add: inner_of_def)

lemma vmo_size_phys [simp]: "vmo_size (w\<lparr>phys := m\<rparr>) v = vmo_size w v"
  by (simp add: vmo_size_def)

lemma readable_phys [simp]: "readable (w\<lparr>phys := m\<rparr>) v o' n \<longleftrightarrow> readable w v o' n"
  by (simp add: readable_def)

text \<open>C2: a write succeeds exactly on a committed range inside the object; a read then returns the
  data that was written, and reads of any other range return what they returned before.\<close>

theorem write_then_read:
  assumes "vmo_child v = None" and "inner_ok v (inner_of w v)" and "addressable off (inner_of w v)"
    and inj: "addr_inj (inner_of w v)"
  shows "\<exists>ok w'. vmo_write off w v offset data = Some (ok, w') \<and>
    (ok \<longleftrightarrow> readable w v offset (length data)) \<and>
    (ok \<longrightarrow> vmo_read off w' v offset (length data) = Some (Some data)) \<and>
    (\<forall>p n. p + n \<le> offset \<or> offset + length data \<le> p \<longrightarrow>
       vmo_read off w' v p n = vmo_read off w v p n)"
proof -
  let ?i = "inner_of w v"
  from write_local_spec [OF assms(2,3), of offset data] obtain m where
    wr: "write_local off w v offset data = Some (readable w v offset (length data), w\<lparr>phys := m\<rparr>)"
    and frame: "\<And>a. (\<forall>x. offset \<le> x \<and> x < offset + length data \<longrightarrow> local_addr ?i x \<noteq> Some a) \<Longrightarrow> m a = phys w a"
    and data: "\<And>x. readable w v offset (length data) \<Longrightarrow> offset \<le> x \<Longrightarrow> x < offset + length data \<Longrightarrow>
      m (the (local_addr ?i x)) = data ! (x - offset)"
    using inj by blast
  have rd: "vmo_read off (w\<lparr>phys := m\<rparr>) v p n =
    Some (if readable w v p n then Some (local_bytes m ?i p (p + n)) else None)" for p n
    using vmo_read_root [of v "w\<lparr>phys := m\<rparr>" off p n] assms by simp
  have "vmo_write off w v offset data = Some (readable w v offset (length data), w\<lparr>phys := m\<rparr>)"
    using wr assms(1) by (simp add: vmo_write_no_child)
  moreover have "vmo_read off (w\<lparr>phys := m\<rparr>) v offset (length data) = Some (Some data)"
    if "readable w v offset (length data)"
    using that data by (auto simp: rd local_bytes_def intro!: nth_equalityI)
  moreover have "vmo_read off (w\<lparr>phys := m\<rparr>) v p n = vmo_read off w v p n"
    if "p + n \<le> offset \<or> offset + length data \<le> p" for p n
  proof -
    have "m (the (local_addr ?i x)) = phys w (the (local_addr ?i x))"
      if "mapped ?i p (p + n)" "p \<le> x" "x < p + n" for x
    proof -
      from that obtain a where "local_addr ?i x = Some a" by (auto simp: mapped_def)
      moreover have "\<not> (offset \<le> x \<and> x < offset + length data)"
        using \<open>p + n \<le> offset \<or> offset + length data \<le> p\<close> that by auto
      ultimately show ?thesis using frame [of a] inj unfolding addr_inj_def by (metis option.sel)
    qed
    then show ?thesis
      using rd vmo_read_root [OF assms(1-3)] by (auto simp: local_bytes_def readable_def)
  qed
  ultimately show ?thesis by blast
qed

subsection \<open>Pages through chains of children\<close>

text \<open>What the machine guarantees of every object: sizes are \<open>usize\<close> values and every run lies in
  the linear mapping.\<close>

definition machine_ok :: "usize \<Rightarrow> vmo set \<Rightarrow> 's vm_world \<Rightarrow> bool" where
  "machine_ok off V w \<longleftrightarrow>
     (\<forall>v \<in> V. vmo_size w v \<le> usize_max \<and> addressable off (inner_of w v))"

lemma child_parent_smaller [simp]: "vmo_child v = Some c \<Longrightarrow> size (child_parent c) < size v"
  by (cases v; cases c) simp

lemma local_page_bytes:
  assumes ok: "fresh_index i" "exts_disjoint (extents i)"
    and al: "\<forall>e \<in> set (extents i). ext_aligned ps e" and x: "ps dvd x" "0 < ps"
  shows "mapped i x (x + ps) \<longleftrightarrow> (\<exists>md. local_page i x = Some md \<and> meta_committed md)"
    and "local_page i x = Some md \<Longrightarrow> meta_committed md \<Longrightarrow>
      local_bytes m i x (x + ps) = mem_bytes m (meta_phys md) ps"
    and "local_page i x = Some md \<Longrightarrow> meta_committed md \<Longrightarrow> x \<le> y \<Longrightarrow> y < x + ps \<Longrightarrow>
      local_addr i y = Some (meta_phys md + (y - x))"
proof -
  have addr: "local_addr i y = Some (meta_phys md + (y - x))"
    if md: "local_page i x = Some md" "meta_committed md" and y: "x \<le> y" "y < x + ps" for y md
  proof -
    from md(1) obtain e where e: "e \<in> set (extents i)" "metadata_at e x = Some md"
      using local_page_iff [OF ok] by blast
    then have cx: "ext_contains e x" by (auto simp: metadata_at_def split: if_splits)
    with e(1) al x y have "ext_contains e y"
      using ext_aligned_page_all by blast
    then have "metadata_at e y = Some (md\<lparr>meta_phys := meta_phys md + (y - x)\<rparr>)"
      using e(2) cx y by (auto simp: metadata_at_def ext_contains_def split: if_splits)
    then have "local_page i y = Some (md\<lparr>meta_phys := meta_phys md + (y - x)\<rparr>)"
      using e(1) local_page_iff [OF ok] by blast
    with md(2) show ?thesis by (simp add: local_addr_def)
  qed
  have "\<exists>md. local_page i x = Some md \<and> meta_committed md" if "mapped i x (x + ps)"
  proof -
    have "local_addr i x \<noteq> None" using that x(2) by (simp add: mapped_def)
    then show ?thesis by (auto simp: local_addr_def split: option.splits if_splits)
  qed
  then show "mapped i x (x + ps) \<longleftrightarrow> (\<exists>md. local_page i x = Some md \<and> meta_committed md)"
    using addr by (fastforce simp: mapped_def)
  show "local_bytes m i x (x + ps) = mem_bytes m (meta_phys md) ps"
    if "local_page i x = Some md" "meta_committed md"
    using addr [OF that] by (intro nth_equalityI) (simp_all add: local_bytes_def)
  show "local_addr i y = Some (meta_phys md + (y - x))"
    if "local_page i x = Some md" "meta_committed md" "x \<le> y" "y < x + ps"
    using that by (rule addr)
qed

definition page_bytes :: "phys_mem \<Rightarrow> usize \<Rightarrow> vmo_page_metadata option \<Rightarrow> u8 list option" where
  "page_bytes m ps p =
     (case p of
        Some md \<Rightarrow> if meta_committed md then Some (mem_bytes m (meta_phys md) ps) else None
      | None \<Rightarrow> None)"

lemma read_local_page:
  assumes ok: "inner_ok v (inner_of w v)" and ad: "addressable off (inner_of w v)"
    and pg: "vmo_backing v = Paged" "vmo_page_size v dvd x" "0 < vmo_page_size v"
    and sz: "x + vmo_page_size v \<le> vmo_size w v" "vmo_size w v \<le> usize_max"
  shows "read_local off w v x (vmo_page_size v) =
    Some (page_bytes (phys w) (vmo_page_size v) (local_page (inner_of w v) x))"
proof -
  let ?i = "inner_of w v" and ?ps = "vmo_page_size v"
  have i: "fresh_index ?i" "exts_disjoint (extents ?i)" "\<forall>e \<in> set (extents ?i). ext_aligned ?ps e"
    using ok pg(1) by (auto simp: inner_ok_def)
  note b = local_page_bytes [OF i pg(2,3)]
  have "readable w v x ?ps \<longleftrightarrow> (\<exists>md. local_page ?i x = Some md \<and> meta_committed md)"
    using sz b(1) by (simp add: readable_def)
  with b(2) show ?thesis
    by (auto simp: read_local_eq [OF ok ad] page_bytes_def split: option.splits)
qed

lemma vmo_read_page:
  assumes sys: "sys_ok V w" and mach: "machine_ok off V w"
    and v: "v \<in> V" "vmo_backing v = Paged"
    and x: "vmo_page_size v dvd x" "0 < vmo_page_size v" "x + vmo_page_size v \<le> vmo_size w v"
  shows "vmo_read off w v x (vmo_page_size v) =
    Some (page_bytes (phys w) (vmo_page_size v) (page_at w v x))"
  using v x
proof (induction v arbitrary: x rule: measure_induct_rule [of size])
  case (less v)
  let ?ps = "vmo_page_size v" and ?i = "inner_of w v"
  have ad: "addressable off ?i" and us: "vmo_size w v \<le> usize_max"
    using mach less.prems(1) by (simp_all add: machine_ok_def)
  note ok = sys_okD(2) [OF sys less.prems(1)]
  note loc = read_local_page [OF ok ad less.prems(2-5) us]
  have pa: "offset_is_page_aligned w v x"
    using less.prems by (simp add: offset_is_page_aligned_def is_multiple_of_dvd)
  show ?case
  proof (cases "vmo_child v")
    case None
    with loc pa show ?thesis by (simp add: vmo_read_no_child page_at_root)
  next
    case (Some c)
    let ?p = "child_parent c" and ?po = "child_parent_offset c"
    note co = sys_okD(3) [OF sys less.prems(1) Some, unfolded child_ok_def]
    have "vmo_size w ?p \<le> usize_max" using mach co by (simp add: machine_ok_def)
    then have ca: "checked_add ?po x = Some (?po + x)" "checked_add x ?ps = Some (x + ?ps)"
      using co us less.prems(5) by auto
    have par: "vmo_read off w ?p (?po + x) ?ps = Some (page_bytes (phys w) ?ps (page_at w ?p (?po + x)))"
      using less.IH [OF child_parent_smaller [OF Some], of "?po + x"] co less.prems by simp
    show ?thesis
    proof (cases "child_kind c = vmo_child_kind.PrivateCow")
      case True
      with loc par pa ca less.prems(3,4,5) show ?thesis
        by (auto simp: vmo_read_child [OF Some] page_at_child [OF Some] cow_read_one_page
            checked_add_def)
    next
      case False
      with par pa ca less.prems(5) show ?thesis
        by (auto simp: vmo_read_child [OF Some] page_at_child [OF Some] checked_add_def)
    qed
  qed
qed

text \<open>C3: reading one page through any chain of shared and private views returns the bytes of the
  frame that \<open>page_at\<close> resolves the page to, or fails when there is no committed frame.\<close>

theorem read_page_eq_page_at:
  assumes sys: "sys_ok V w" and mach: "machine_ok off V w"
    and v: "v \<in> V" "vmo_backing v = Paged"
    and x: "vmo_page_size v dvd x" "0 < vmo_page_size v" "x + vmo_page_size v \<le> vmo_size w v"
  shows "vmo_read off w v x (vmo_page_size v) =
    Some (page_bytes (phys w) (vmo_page_size v) (page_at w v x))"
  using vmo_read_page [OF assms] .

subsection \<open>Isolation of private copies\<close>

text \<open>The physical bytes of the pages an object owns, and of all pages it can see.\<close>

definition own_addrs :: "'s vm_world \<Rightarrow> vmo \<Rightarrow> phys_addr set" where
  "own_addrs w v = {a. \<exists>x. local_addr (inner_of w v) x = Some a}"

fun view_addrs :: "'s vm_world \<Rightarrow> vmo \<Rightarrow> phys_addr set" where
  "view_addrs w (Vmo i nm ps bk None) = own_addrs w (Vmo i nm ps bk None)"
| "view_addrs w (Vmo i nm ps bk (Some (VmoChildState p po k))) =
     own_addrs w (Vmo i nm ps bk (Some (VmoChildState p po k))) \<union> view_addrs w p"

lemma view_addrs_unfold:
  "view_addrs w v = own_addrs w v \<union> (case vmo_child v of Some c \<Rightarrow> view_addrs w (child_parent c) | None \<Rightarrow> {})"
  by (cases "(w, v)" rule: view_addrs.cases) simp_all

lemma own_addrs_phys [simp]: "own_addrs (w\<lparr>phys := m\<rparr>) v = own_addrs w v"
  by (simp add: own_addrs_def)

lemma write_local_own:
  assumes "inner_ok v (inner_of w v)" and "addressable off (inner_of w v)"
    and "write_local off w v o' d = Some (b, w')" and "a \<notin> own_addrs w v"
  shows "phys w' a = phys w a"
  using write_local_spec [OF assms(1,2), of o' d] assms(3,4) by (auto simp: own_addrs_def)

lemma cow_write_own:
  assumes "inner_ok v (inner_of w v)" and "addressable off (inner_of w v)"
    and "cow_write_loop off v e c d w = Some (b, w')" and "a \<notin> own_addrs w v"
  shows "phys w' a = phys w a"
  using assms
proof (induction off v e c d w rule: cow_write_loop.induct)
  case (1 off v e c d w)
  let ?po = "c div vmo_page_size v * vmo_page_size v"
  let ?n = "min (vmo_page_size v - (c - ?po)) (e - c)"
  show ?case
  proof (cases "c < e \<and> vmo_page_size v \<noteq> 0 \<and> owner_of (inner_of w v) ?po \<noteq> None")
    case False
    with "1.prems"(3) show ?thesis
      by (auto simp: cow_write_loop.simps [of off v e c d w] Let_def split: if_splits)
  next
    case True
    with "1.prems"(3) obtain ok w1 where wl: "write_local off w v c (take ?n d) = Some (ok, w1)"
      and rest: "if ok then cow_write_loop off v e (c + ?n) (drop ?n d) w1 = Some (b, w')
                 else w' = w1"
      by (auto simp: cow_write_loop.simps [of off v e c d w] Let_def split: option.splits if_splits)
    from write_local_phys [OF wl] obtain m where m: "w1 = w\<lparr>phys := m\<rparr>" by blast
    have here: "phys w1 a = phys w a"
      by (rule write_local_own [OF "1.prems"(1,2) wl "1.prems"(4)])
    show ?thesis
    proof (cases ok)
      case ok: True
      with rest have "cow_write_loop off v e (c + ?n) (drop ?n d) w1 = Some (b, w')" by simp
      with True ok "1.prems" m have "phys w' a = phys w1 a"
        by (intro "1.IH" [OF _ _ refl refl refl refl _ wl refl]) auto
      with here show ?thesis by simp
    qed (use rest here in simp)
  qed
qed

lemma read_local_frame:
  assumes "inner_ok v (inner_of w v)" and "addressable off (inner_of w v)"
    and "\<forall>a \<in> own_addrs w v. m a = phys w a"
  shows "read_local off (w\<lparr>phys := m\<rparr>) v = read_local off w v"
proof (intro ext)
  fix o' n
  have "local_bytes m (inner_of w v) o' (o' + n) = local_bytes (phys w) (inner_of w v) o' (o' + n)"
    if "readable w v o' n"
    using that assms(3) unfolding local_bytes_def readable_def mapped_def own_addrs_def
    by (intro map_cong refl) fastforce
  then show "read_local off (w\<lparr>phys := m\<rparr>) v o' n = read_local off w v o' n"
    using read_local_eq [of v w off o' n] read_local_eq [of v "w\<lparr>phys := m\<rparr>" off o' n] assms(1,2)
    by simp
qed

text \<open>A read depends on no other byte than those of the view.\<close>

lemma vmo_read_frame:
  assumes "sys_ok V w" and "machine_ok off V w" and "v \<in> V"
    and "\<forall>a \<in> view_addrs w v. m a = phys w a"
  shows "vmo_read off (w\<lparr>phys := m\<rparr>) v = vmo_read off w v"
  using assms(3,4)
proof (induction v rule: measure_induct_rule [of size])
  case (less v)
  have ok: "inner_ok v (inner_of w v)" "addressable off (inner_of w v)"
    using sys_okD(2) [OF assms(1) less.prems(1)] assms(2) less.prems(1) by (simp_all add: machine_ok_def)
  have loc: "read_local off (w\<lparr>phys := m\<rparr>) v = read_local off w v"
    using less.prems(2) by (intro read_local_frame [OF ok]) (simp add: view_addrs_unfold)
  show ?case
  proof (cases "vmo_child v")
    case None
    with loc show ?thesis by (intro ext) (simp add: vmo_read_no_child)
  next
    case (Some c)
    have "child_parent c \<in> V" using sys_okD(3) [OF assms(1) less.prems(1) Some] by (simp add: child_ok_def)
    then have "vmo_read off (w\<lparr>phys := m\<rparr>) (child_parent c) = vmo_read off w (child_parent c)"
      using Some less.prems(2) by (intro less.IH) (simp_all add: view_addrs_unfold [of w v])
    with loc show ?thesis
      by (intro ext) (simp add: vmo_read_child [OF Some] split: option.split)
  qed
qed

lemma vmo_write_cow:
  "vmo_child v = Some c \<Longrightarrow> child_kind c = vmo_child_kind.PrivateCow \<Longrightarrow>
     vmo_write off w v o' d = Some (b, w') \<Longrightarrow>
     w' = w \<or> cow_write_loop off v (o' + length d) o' d w = Some (b, w')"
  by (cases v; cases c) (auto simp: Let_def split: if_splits option.splits)

text \<open>C4: a write to a private child is invisible to every object that shares no frame with the
  child's own pages, its parent above all.\<close>

theorem private_write_isolated:
  assumes sys: "sys_ok V w" and mach: "machine_ok off V w" and vu: "v \<in> V" "u \<in> V"
    and cow: "vmo_child v = Some c" "child_kind c = vmo_child_kind.PrivateCow"
    and excl: "own_addrs w v \<inter> view_addrs w u = {}"
    and st: "vmo_write off w v offset data = Some (ok, w')"
  shows "vmo_read off w' u p n = vmo_read off w u p n"
proof -
  from vmo_write_phys [OF st] obtain m where m: "w' = w\<lparr>phys := m\<rparr>" by blast
  have ok: "inner_ok v (inner_of w v)" "addressable off (inner_of w v)"
    using sys_okD(2) [OF sys vu(1)] mach vu(1) by (simp_all add: machine_ok_def)
  have "phys w' a = phys w a" if "a \<notin> own_addrs w v" for a
    using vmo_write_cow [OF cow st] cow_write_own [OF ok _ that] by auto
  then have "\<forall>a \<in> view_addrs w u. m a = phys w a" using excl m by auto
  from vmo_read_frame [OF sys mach vu(2) this] m show ?thesis by simp
qed

subsection \<open>Materialising private pages\<close>

lemma page_at_update_smaller:
  assumes sys: "sys_ok V w" and v: "v \<in> V" and w': "vmos w' = (vmos w)(vmo_id v := i)"
  shows "u \<in> V \<Longrightarrow> size u < size v \<Longrightarrow> page_at w' u x = page_at w u x"
proof (induction u arbitrary: x rule: measure_induct_rule [of size])
  case (less u)
  have "vmo_id u \<noteq> vmo_id v" using sys_okD(4) [OF sys v less.prems(1)] less.prems(2) by auto
  then have io: "inner_of w' u = inner_of w u" using w' by (simp add: inner_of_def)
  show ?case
  proof (cases "vmo_child u")
    case None
    with io show ?thesis by (simp add: page_at_root offset_is_page_aligned_def vmo_size_def)
  next
    case (Some c)
    have "child_parent c \<in> V" using sys_okD(3) [OF sys less.prems(1) Some] by (simp add: child_ok_def)
    then have "page_at w' (child_parent c) y = page_at w (child_parent c) y" for y
      using less.prems(2) child_parent_smaller [OF Some] by (intro less.IH) auto
    with io show ?thesis
      by (auto simp: page_at_child [OF Some] offset_is_page_aligned_def vmo_size_def)
  qed
qed

text \<open>The bytes of a committed page belong to the view.\<close>

lemma page_at_view:
  assumes sys: "sys_ok V w"
  shows "v \<in> V \<Longrightarrow> vmo_backing v = Paged \<Longrightarrow> vmo_page_size v dvd x \<Longrightarrow> 0 < vmo_page_size v \<Longrightarrow>
    page_at w v x = Some md \<Longrightarrow> meta_committed md \<Longrightarrow>
    {meta_phys md ..< meta_phys md + vmo_page_size v} \<subseteq> view_addrs w v"
proof (induction v arbitrary: x rule: measure_induct_rule [of size])
  case (less v)
  let ?i = "inner_of w v" and ?ps = "vmo_page_size v"
  have i: "fresh_index ?i" "exts_disjoint (extents ?i)" "\<forall>e \<in> set (extents ?i). ext_aligned ?ps e"
    using sys_okD(2) [OF sys less.prems(1)] less.prems(2) by (auto simp: inner_ok_def)
  have own: "{meta_phys md ..< meta_phys md + ?ps} \<subseteq> own_addrs w v" if "local_page ?i x = Some md"
  proof
    fix a
    assume a: "a \<in> {meta_phys md ..< meta_phys md + ?ps}"
    then have "local_addr ?i (x + (a - meta_phys md)) = Some a"
      using local_page_bytes(3) [OF i less.prems(3,4) that less.prems(6), of "x + (a - meta_phys md)"] by auto
    then show "a \<in> own_addrs w v" by (auto simp: own_addrs_def)
  qed
  show ?case
  proof (cases "vmo_child v")
    case None
    with less.prems(5) own show ?thesis
      by (auto simp: page_at_root view_addrs_unfold [of w v] split: if_splits)
  next
    case (Some c)
    note co = sys_okD(3) [OF sys less.prems(1) Some, unfolded child_ok_def]
    from less.prems(5) consider "local_page ?i x = Some md"
      | "page_at w (child_parent c) (child_parent_offset c + x) = Some md"
      by (auto simp: page_at_child [OF Some] split: if_splits)
    then show ?thesis
    proof cases
      case 1
      with own show ?thesis by (auto simp: view_addrs_unfold [of w v])
    next
      case 2
      have "{meta_phys md ..< meta_phys md + vmo_page_size (child_parent c)} \<subseteq> view_addrs w (child_parent c)"
        using co less.prems 2 child_parent_smaller [OF Some]
        by (intro less.IH [of _ "child_parent_offset c + x"]) auto
      with co Some show ?thesis by (auto simp: view_addrs_unfold [of w v])
    qed
  qed
qed

lemma page_bytes_cong:
  "(\<And>md. p = Some md \<Longrightarrow> meta_committed md \<Longrightarrow>
      \<forall>a \<in> {meta_phys md ..< meta_phys md + ps}. m a = m' a) \<Longrightarrow> page_bytes m ps p = page_bytes m' ps p"
  by (auto simp: page_bytes_def mem_bytes_def split: option.splits)

lemma aligned_other_page:
  fixes ps po x :: nat
  assumes "ps dvd po" "ps dvd x" "po \<le> x" "x < po + ps"
  shows "x = po"
proof -
  have "ps dvd x - po" using assms by (simp add: dvd_diff_nat)
  then have "x - po = 0" using assms(3,4) by (metis add_less_cancel_left dvd_imp_le le_add_diff_inverse not_gr_zero not_less)
  with assms(3) show ?thesis by simp
qed

text \<open>A private page that was not there before: its frame, its contents, and the pages after it.\<close>

lemma materialize_fresh:
  assumes sys: "sys_ok V w" and v: "v \<in> V" and unit: "unit_page_size A = UNIT_PAGE_SIZE"
    and st: "materialize_private_cow_page A off w v o' pp = Some (Some md, w')"
    and none: "owner_of (inner_of w v) (o' div vmo_page_size v * vmo_page_size v) = None"
  defines "po \<equiv> o' div vmo_page_size v * vmo_page_size v"
  shows "sys_ok V w'" and "vmo_page_size v \<noteq> 0" and "offset_is_page_aligned w v po"
    and "vmo_backing v = Paged" and "meta_committed md"
    and "local_page (inner_of w' v) po = Some md"
    and "\<And>x. vmo_page_size v dvd x \<Longrightarrow> page_at w' v x = (if x = po then Some md else page_at w v x)"
    and "phys w' = mem_store (phys w) (meta_phys md)
      (case page_at w v po of Some src \<Rightarrow> mem_bytes (phys w) (meta_phys src) (vmo_page_size v)
       | None \<Rightarrow> replicate (vmo_page_size v) 0)"
    and "vmo_size w' u = vmo_size w u" and "vmo_flags w' u = vmo_flags w u"
proof -
  show sys': "sys_ok V w'" by (rule sys_ok_materialize [OF sys v st unit])
  let ?i = "inner_of w v" and ?ps = "vmo_page_size v"
  from st obtain c p fr src m s where pg: "?ps \<noteq> 0" "offset_is_page_aligned w v po"
      "vmo_child v = Some c" "child_kind c = vmo_child_kind.PrivateCow"
      "src = page_at w (child_parent c) (child_parent_offset c + po)"
      "from_addr True p (?ps div unit_page_size A) = Some fr"
      "?ps div unit_page_size A * unit_page_size A = ?ps"
      "(case src of Some meta \<Rightarrow> copy_phys off (phys w) (meta_phys meta) p ?ps
        | None \<Rightarrow> zero_phys off (phys w) p ?ps) = Some m"
    and w': "w' = (set_inner w v (reindex ?i (extents ?i @
         [\<lparr>ext_offset = po, ext_frame = run_from_frame fr,
           ext_purpose = (case src of Some meta \<Rightarrow> meta_purpose meta | None \<Rightarrow> pp),
           ext_committed = True\<rparr>])))\<lparr>phys := m, frame_state := s\<rparr>"
    and md: "Some md = local_page (inner_of w' v) po" and le: "child_parent_offset c + po \<le> usize_max"
    unfolding po_def by (cases rule: materialize_cases) (use none in auto)
  let ?n = "\<lparr>ext_offset = po, ext_frame = run_from_frame fr,
    ext_purpose = (case src of Some meta \<Rightarrow> meta_purpose meta | None \<Rightarrow> pp), ext_committed = True\<rparr>"
  show "?ps \<noteq> 0" "offset_is_page_aligned w v po" using pg(1,2) .
  note co = sys_okD(3) [OF sys v pg(3), unfolded child_ok_def]
  show paged: "vmo_backing v = Paged" using co pg(4) by simp
  have iv: "inner_of w' v = reindex ?i (extents ?i @ [?n])" using w' by (simp add: inner_of_def)
  then have ex: "extents (inner_of w' v) = extents ?i @ [?n]" by simp
  have i: "fresh_index ?i" "exts_disjoint (extents ?i)" "\<forall>e \<in> set (extents ?i). ext_aligned ?ps e"
    using sys_okD(2) [OF sys v] paged by (auto simp: inner_ok_def)
  have j: "fresh_index (inner_of w' v)" "exts_disjoint (extents (inner_of w' v))"
    using sys_okD(2) [OF sys' v] by (auto simp: inner_ok_def)
  have po: "?ps dvd po" by (simp add: po_def)
  have fr: "frame_addr fr = p" using pg(6) by (auto simp: from_addr_def bind_eq_Some_conv)
  have n: "ext_contains ?n x \<longleftrightarrow> po \<le> x \<and> x < po + ?ps" for x
    using run_from_addr_len [OF pg(6)] pg(7) unit by (auto simp: ext_contains_def ext_end_def)
  have "metadata_at ?n po = Some \<lparr>meta_phys = p, meta_purpose = ext_purpose ?n, meta_committed = True\<rparr>"
    using n pg(1) fr by (simp add: metadata_at_def run_from_frame_def)
  then have lp: "local_page (inner_of w' v) po = Some \<lparr>meta_phys = p, meta_purpose = ext_purpose ?n, meta_committed = True\<rparr>"
    using local_page_iff [OF j] iv by auto
  show "local_page (inner_of w' v) po = Some md" using md by simp
  have mdp: "md = \<lparr>meta_phys = p, meta_purpose = ext_purpose ?n, meta_committed = True\<rparr>"
    using md lp by simp
  then show "meta_committed md" by simp
  have szs: "inner_size (inner_of w' u) = inner_size (inner_of w u)"
    "inner_flags (inner_of w' u) = inner_flags (inner_of w u)" for u
    using w' by (simp_all add: inner_of_def)
  then show "vmo_size w' u = vmo_size w u" "vmo_flags w' u = vmo_flags w u"
    by (simp_all add: vmo_size_def vmo_flags_def)
  have src: "page_at w v po = src"
    using le pg(2,4,5) none by (auto simp: page_at_child [OF pg(3)] po_def)
  show "page_at w' v x = (if x = po then Some md else page_at w v x)" if x: "?ps dvd x" for x
  proof -
    have al: "offset_is_page_aligned w' v x \<longleftrightarrow> offset_is_page_aligned w v x"
      using szs by (simp add: offset_is_page_aligned_def vmo_size_def)
    have lq: "local_page (inner_of w' v) x = local_page ?i x" if "x \<noteq> po"
    proof -
      have "\<not> ext_contains ?n x" using n aligned_other_page [OF po x] that by blast
      then have "local_page (inner_of w' v) x = Some d \<longleftrightarrow> local_page ?i x = Some d" for d
        unfolding local_page_iff [OF j] local_page_iff [OF i(1,2)] ex by (auto simp: metadata_at_def)
      then show ?thesis by (metis not_None_eq)
    qed
    have par: "page_at w' (child_parent c) y = page_at w (child_parent c) y" for y
      using co w' child_parent_smaller [OF pg(3)]
      by (intro page_at_update_smaller [OF sys v]) auto
    show ?thesis
    proof (cases "x = po")
      case True
      with lp mdp pg(2,4) al show ?thesis
        by (auto simp: page_at_child [OF pg(3)] local_page_None_iff [OF j(1), symmetric])
    next
      case False
      with lq par al show ?thesis
        by (auto simp: page_at_child [OF pg(3)] local_page_None_iff [OF j(1), symmetric]
            local_page_None_iff [OF i(1), symmetric])
    qed
  qed
  show "phys w' = mem_store (phys w) (meta_phys md)
      (case page_at w v po of Some src \<Rightarrow> mem_bytes (phys w) (meta_phys src) ?ps | None \<Rightarrow> replicate ?ps 0)"
    using pg(8) w' mdp src
    by (auto simp: copy_phys_eq zero_phys_eq split: option.splits if_splits)
qed

text \<open>C5: giving a private child its own copy of a page, in a frame that is not part of what the
  child sees, changes nothing that the child reads: every page it could read before reads the same.\<close>

theorem materialize_keeps_reads:
  assumes sys: "sys_ok V w" and mach: "machine_ok off V w" "machine_ok off V w'"
    and unit: "unit_page_size A = UNIT_PAGE_SIZE" and v: "v \<in> V"
    and st: "materialize_private_cow_page A off w v offset purpose = Some (Some md, w')"
    and none: "owner_of (inner_of w v) (offset div vmo_page_size v * vmo_page_size v) = None"
    and fresh: "{meta_phys md ..< meta_phys md + vmo_page_size v} \<inter> view_addrs w v = {}"
    and x: "vmo_page_size v dvd x" "x + vmo_page_size v \<le> vmo_size w v"
    and rd: "vmo_read off w v x (vmo_page_size v) = Some (Some bs)"
  shows "vmo_read off w' v x (vmo_page_size v) = Some (Some bs)"
proof -
  let ?ps = "vmo_page_size v" and ?po = "offset div vmo_page_size v * vmo_page_size v"
  note mf = materialize_fresh [OF sys v unit st none]
  have ps: "0 < ?ps" using mf(2) by simp
  have before: "page_bytes (phys w) ?ps (page_at w v x) = Some bs"
    using vmo_read_page [OF sys mach(1) v mf(4) x(1) ps x(2)] rd by simp
  have after: "vmo_read off w' v x ?ps = Some (page_bytes (phys w') ?ps (page_at w' v x))"
    using vmo_read_page [OF mf(1) mach(2) v mf(4) x(1) ps] x(2) mf(9) by simp
  show ?thesis
  proof (cases "x = ?po")
    case True
    with before obtain src where src: "page_at w v ?po = Some src" "mem_bytes (phys w) (meta_phys src) ?ps = bs"
      by (auto simp: page_bytes_def split: option.splits if_splits)
    then have "phys w' = mem_store (phys w) (meta_phys md) bs" "length bs = ?ps"
      using mf(8) by auto
    then have "mem_bytes (phys w') (meta_phys md) ?ps = bs" using mem_bytes_store by metis
    with True after mf(5) mf(7) [OF x(1)] show ?thesis by (simp add: page_bytes_def)
  next
    case False
    have eq: "page_at w' v x = page_at w v x" using mf(7) [OF x(1)] False by simp
    have "page_bytes (phys w') ?ps (page_at w v x) = page_bytes (phys w) ?ps (page_at w v x)"
    proof (rule page_bytes_cong, intro ballI)
      fix d a
      assume d: "page_at w v x = Some d" "meta_committed d"
        and a: "a \<in> {meta_phys d ..< meta_phys d + ?ps}"
      have "a \<in> view_addrs w v" using page_at_view [OF sys v mf(4) x(1) ps d] a by blast
      then have "\<not> (meta_phys md \<le> a \<and> a < meta_phys md + ?ps)" using fresh by auto
      then show "phys w' a = phys w a"
        unfolding mf(8) by (auto simp: mem_store_def split: option.splits)
    qed
    with after before eq show ?thesis by simp
  qed
qed

subsection \<open>Faults\<close>

text \<open>C6: a permitted write fault on a page that a private child does not own yet is a copy-on-write
  fault; once the page is materialised, the same access resolves to installing the mapping, and the
  mapping keeps the write permission that it lost before.\<close>

theorem cow_fault_cycle:
  assumes sys: "sys_ok V w" and unit: "unit_page_size A = UNIT_PAGE_SIZE" and v: "v \<in> V"
    and ps: "vmo_page_size v = 2 ^ k" "k < 64" and off: "offset < vmo_size w v" "offset < 2 ^ 64"
    and cow: "vmo_child v = Some c" "child_kind c = vmo_child_kind.PrivateCow"
    and perm: "can_map w v (bits_remove (from_mmu_flags access)
      (VM_FLAG_USER OR VM_FLAG_DEVICE OR VM_FLAG_GLOBAL OR VM_FLAG_HUGE_PAGE))"
    and wr: "contains access MMU_WRITE"
    and none: "owner_of (inner_of w v) (offset div vmo_page_size v * vmo_page_size v) = None"
    and st: "materialize_private_cow_page A off w v offset purpose = Some (Some md, w')"
  shows "resolve_fault w v offset access = Some vm_fault_resolution.PrivateCow \<and>
    mapping_mmu_flags_for_page w v offset access = Some (bits_remove access MMU_WRITE) \<and>
    resolve_fault w' v offset access = Some vm_fault_resolution.RetryAfterMap \<and>
    mapping_mmu_flags_for_page w' v offset access = Some access"
proof (intro conjI)
  let ?po = "offset div vmo_page_size v * vmo_page_size v"
  note mf = materialize_fresh [OF sys v unit st none]
  have po: "align_down_mask offset (vmo_page_size v) = ?po"
    using align_down_mask_pow2 [OF off(2) ps(2)] ps(1) by simp
  have j: "fresh_index (inner_of w' v)" using sys_okD(2) [OF mf(1) v] by (simp add: inner_ok_def)
  have own: "owner_of (inner_of w' v) ?po \<noteq> None"
    using mf(6) local_page_None_iff [OF j] by (metis option.distinct(1))
  have pa: "page_at w' v ?po = Some md" using mf(7) [of ?po] by simp
  have perm': "can_map w' v (bits_remove (from_mmu_flags access)
      (VM_FLAG_USER OR VM_FLAG_DEVICE OR VM_FLAG_GLOBAL OR VM_FLAG_HUGE_PAGE))"
    using perm mf(10) by (simp add: can_map_def)
  show "resolve_fault w v offset access = Some vm_fault_resolution.PrivateCow"
    using off perm mf(2) cow wr none po
    by (simp add: resolve_fault_def contains_offset_def Let_def)
  show "mapping_mmu_flags_for_page w v offset access = Some (bits_remove access MMU_WRITE)"
    using cow wr mf(2) none by (simp add: mapping_mmu_flags_for_page_def Let_def)
  show "resolve_fault w' v offset access = Some vm_fault_resolution.RetryAfterMap"
    using off perm' mf(2,9) own pa po
    by (auto simp: resolve_fault_def contains_offset_def Let_def)
  show "mapping_mmu_flags_for_page w' v offset access = Some access"
    using cow mf(2) own by (auto simp: mapping_mmu_flags_for_page_def Let_def)
qed

subsection \<open>A commit that fails\<close>

lemma local_page_sound:
  assumes "index_sound i"
  shows "local_page i x = None \<longleftrightarrow> owner_of i x = None"
proof (cases "owner_of i x")
  case (Some k)
  then have "k < length (extents i)" "ext_contains (extents i ! k) x"
    using assms by (simp_all add: index_sound_def)
  with Some show ?thesis by (simp add: local_page_def vec_get_nth metadata_at_def)
qed (simp add: local_page_def)

text \<open>A commit stops at an allocation that fails and gives nothing back: the pages added so far are
  committed pages of the range that the index does not know.\<close>

lemma failed_commit_cases:
  assumes sys: "sys_ok V w" and v: "v \<in> V" and unit: "unit_page_size A = UNIT_PAGE_SIZE"
    and st: "commit_range A off w v o' n pp = Some (Inl e, w')"
  obtains (refused) "w' = w"
  | (failed) i s old new where "w' = (set_inner w v i)\<lparr>frame_state := s\<rparr>" "vmo_child v = None"
      "0 < vmo_page_size v" "i = (inner_of w v)\<lparr>extents := old @ new\<rparr>"
      "list_all2 same_ext (extents (inner_of w v)) old"
      "\<forall>x \<in> set new. ext_committed x \<and> o' \<le> ext_offset x \<and> ext_end x = ext_offset x + vmo_page_size v \<and>
         ext_end x \<le> o' + n \<and> owner_of i (ext_offset x) = None"
  using st sys_okD(2) [OF sys v] unit
proof (cases rule: commit_range_reach)
  case (refused e)
  with that(1) show thesis by blast
next
  case (ran r1 i1 s f po)
  let ?i = "inner_of w v"
  from ran(11) obtain e1 where r1: "r1 = Inl e1" by (cases r1) auto
  from ran(9) have inv: "commit_inv (vmo_page_size v) (vmo_size w v) po f i1" and ke: "commit_keeps ?i i1"
    and base: "cf_base f = extents ?i" and po: "po \<le> o' + n"
    and new: "\<forall>x \<in> set (cf_new f). o' \<le> ext_offset x \<and> ext_end x = ext_offset x + vmo_page_size v"
    by (auto simp: commit_reach_def)
  note d = commit_invD [OF inv]
  have i1: "i1 = ?i\<lparr>extents := cf_old f @ cf_new f\<rparr>"
    using ke d(2) by (simp add: commit_keeps_def)
  have "owner_of i1 (ext_offset x) = None" if x: "x \<in> set (cf_new f)" for x
  proof (rule ccontr)
    assume "owner_of i1 (ext_offset x) \<noteq> None"
    then obtain k where k: "owner_of i1 (ext_offset x) = Some k" by blast
    have "cf_old f ! k \<in> set (cf_old f)" using commit_inv_owner(1) [OF inv k] by simp
    with x d(4) have "\<not> (ext_contains (cf_old f ! k) (ext_offset x) \<and> ext_contains x (ext_offset x))"
      unfolding d(2) exts_disjoint_sorted_wrt sorted_wrt_append by blast
    with commit_inv_owner(2) [OF inv k] new x ran(4) show False by (auto simp: ext_contains_def)
  qed
  then have pages: "\<forall>x \<in> set (cf_new f). ext_committed x \<and> o' \<le> ext_offset x \<and>
      ext_end x = ext_offset x + vmo_page_size v \<and> ext_end x \<le> o' + n \<and> owner_of i1 (ext_offset x) = None"
    using new d(6) po by fastforce
  have "w' = (set_inner w v i1)\<lparr>frame_state := s\<rparr>" using ran(12) r1 by simp
  moreover have "list_all2 same_ext (extents ?i) (cf_old f)" using d(3) base by simp
  ultimately show thesis using that(2) [OF _ ran(1,4) i1 _ pages] by blast
qed


end
