(* ===== verification/Vmo_Examples.thy ===== *)
theory Vmo_Examples
  imports Vmo_Access
begin

text \<open>
  The theorems on memory objects at concrete worlds: a small frame allocator, an object of two pages
  and its children. The last section shows what a commit that runs out of frames leaves behind.
\<close>

subsection \<open>A small world\<close>

text \<open>An allocator of \<open>limit\<close> frames from physical address \<open>0x10000\<close> on; its state counts them.\<close>

definition bump :: "nat \<Rightarrow> nat frame_allocator" where
  "bump limit =
     \<lparr>unit_page_size = 0x1000,
      alloc = (\<lambda>_ _ n s. if s + n \<le> limit then (Ok (0x10000 + s * 0x1000), s + n)
                         else (Err allocation_error.OutOfMemory, s)),
      dealloc = (\<lambda>_ _ s. Some s)\<rparr>"

definition w_init :: "nat vm_world" where
  "w_init = \<lparr>phys = (\<lambda>_. 7), frame_state = 0, vmos = (\<lambda>_. vmo_inner_default), next_vmo_id = 1\<rparr>"

definition rw_flags :: vm_flags where
  "rw_flags = VM_FLAG_READ OR VM_FLAG_WRITE OR VM_FLAG_MAP"

definition obj :: vmo where
  "obj = Vmo 1 ''obj'' 0x1000 Paged None"

definition w_obj :: "nat vm_world" where
  "w_obj = snd (vmo_new w_init ''obj'' 0x2000 0x1000 rw_flags)"

lemmas world_defs = w_obj_def w_init_def vmo_new_def allocate_vmo_def set_inner_def inner_of_def
  vmo_size_def vmo_flags_def vmo_inner_default_def

lemma fst_vmo_new_obj: "vmo_new w_init ''obj'' 0x2000 0x1000 rw_flags = (obj, w_obj)"
  by (simp add: obj_def world_defs Let_def)

lemma sys_ok_w_obj: "sys_ok {obj} w_obj"
proof -
  have "sys_ok {} w_init" by (simp add: sys_inv_def)
  from fresh_vmo.sys_new_paged [OF this _ fst_vmo_new_obj] show ?thesis
    by (simp add: w_init_def)
qed

lemma owner_of_default: "index i = index_default \<Longrightarrow> owner_of i x = None"
  by (simp add: owner_of_def owner_at_def index_default_def)

definition page_ext :: "usize \<Rightarrow> usize \<Rightarrow> vmo_extent" where
  "page_ext o' p =
     \<lparr>ext_offset = o', ext_frame = run_from_frame \<lparr>frame_addr = p, frame_number = 1, frame_allocated = True\<rparr>,
      ext_purpose = Anonymous, ext_committed = True\<rparr>"

definition w_full :: "nat vm_world" where
  "w_full = (set_inner w_obj obj (reindex (inner_of w_obj obj)
     [page_ext 0 0x10000, page_ext 0x1000 0x11000]))\<lparr>frame_state := 2\<rparr>"

lemma commit_obj: "commit_range (bump 2) 0 w_obj obj 0 0x2000 Anonymous = Some (Ok 0x2000, w_full)"
  by (simp add: commit_range_def obj_def w_full_def page_ext_def world_defs Let_def bump_def is_multiple_of_def
      commit_loop.simps owner_of_default vec_get_def frame_zone_default_def virt_to_phys_def
      checked_sub_def checked_add_def from_addr_def is_power_of_two_def reindex_def)

theorem commit_then_query_witness:
  "query_committed_bytes w_full obj 0 0x2000 = Some (Ok 0x2000)"
  using commit_then_query [OF sys_ok_w_obj _ _ commit_obj] by (simp add: bump_def)

lemma obj_simps [simp]:
  "vmo_id obj = 1" "vmo_page_size obj = 0x1000" "vmo_backing obj = Paged" "vmo_child obj = None"
  by (simp_all add: obj_def)

lemma sys_ok_w_full: "sys_ok {obj} w_full"
  by (rule sys_ok_commit [OF sys_ok_w_obj _ commit_obj]) (simp_all add: bump_def)

lemma w_full_inner:
  "extents (inner_of w_full obj) = [page_ext 0 0x10000, page_ext 0x1000 0x11000]"
  "inner_size (inner_of w_full obj) = 0x2000" "phys w_full = (\<lambda>_. 7)"
  "inner_flags (inner_of w_full obj) = rw_flags" "inner_stream_size (inner_of w_full obj) = 0x2000"
  "frame_state w_full = 2"
  by (simp_all add: w_full_def obj_def world_defs)

lemma page_ext_simps [simp]:
  "ext_offset (page_ext o' p) = o'" "ext_end (page_ext o' p) = o' + 0x1000"
  "ext_committed (page_ext o' p)" "run_phys_addr (ext_frame (page_ext o' p)) = p"
  "len_bytes (ext_frame (page_ext o' p)) = 0x1000"
  "run_frame (ext_frame (page_ext o' p)) =
     Some \<lparr>frame_addr = p, frame_number = 1, frame_allocated = True\<rparr>"
  "ext_contains (page_ext o' p) x \<longleftrightarrow> o' \<le> x \<and> x < o' + 0x1000"
  by (auto simp: page_ext_def ext_end_def ext_contains_def run_from_frame_def len_bytes_def)

text \<open>The addresses behind an object are those of its committed extents.\<close>

lemma local_addr_iff:
  assumes "inner_ok v i"
  shows "local_addr i x = Some a \<longleftrightarrow>
    (\<exists>e \<in> set (extents i). ext_committed e \<and> ext_contains e x \<and> a = ext_addr e x)"
proof -
  have ok: "fresh_index i" "exts_disjoint (extents i)" using assms by (simp_all add: inner_ok_def)
  have "local_addr i x = Some a \<longleftrightarrow> (\<exists>md. local_page i x = Some md \<and> meta_committed md \<and> a = meta_phys md)"
    by (auto simp: local_addr_def split: option.splits)
  then show ?thesis
    unfolding local_page_iff [OF ok] by (auto simp: metadata_at_def ext_addr_def split: if_splits)
qed

lemma w_full_local_addr:
  "local_addr (inner_of w_full obj) x = Some a \<longleftrightarrow> x < 0x2000 \<and> a = 0x10000 + x"
  using local_addr_iff [OF sys_okD(2) [OF sys_ok_w_full]]
  by (auto simp: w_full_inner ext_addr_def)

lemma w_full_facts:
  "addressable 0 (inner_of w_full obj)" "addr_inj (inner_of w_full obj)" "machine_ok 0 {obj} w_full"
  by (auto simp: addressable_def w_full_inner addr_inj_def w_full_local_addr machine_ok_def vmo_size_def)

lemma w_full_readable: "readable w_full obj o' n \<longleftrightarrow> o' + n \<le> 0x2000"
proof -
  have "mapped (inner_of w_full obj) o' (o' + n)" if "o' + n \<le> 0x2000"
    using that w_full_local_addr unfolding mapped_def by (metis less_le_trans not_None_eq)
  then show ?thesis by (auto simp: readable_def vmo_size_def w_full_inner)
qed

theorem write_then_read_witness:
  "\<exists>w'. vmo_write 0 w_full obj 0xFFF [1, 2] = Some (True, w') \<and>
     vmo_read 0 w' obj 0xFFF 2 = Some (Some [1, 2]) \<and>
     vmo_read 0 w' obj 0x10 4 = vmo_read 0 w_full obj 0x10 4"
proof -
  have "vmo_child obj = None" by (simp add: obj_def)
  from write_then_read [OF this sys_okD(2) [OF sys_ok_w_full] w_full_facts(1,2), of "0xFFF" "[1, 2]"]
  obtain ok w' where "vmo_write 0 w_full obj 0xFFF [1, 2] = Some (ok, w')"
    "ok \<longleftrightarrow> readable w_full obj 0xFFF (length [1, 2 :: u8])"
    "ok \<longrightarrow> vmo_read 0 w' obj 0xFFF (length [1, 2 :: u8]) = Some (Some [1, 2])"
    "\<forall>p n. p + n \<le> 0xFFF \<or> 0xFFF + length [1, 2 :: u8] \<le> p \<longrightarrow> vmo_read 0 w' obj p n = vmo_read 0 w_full obj p n"
    by auto
  then show ?thesis by (simp add: w_full_readable numeral_2_eq_2)
qed


subsection \<open>A private child\<close>

lemma vmo_write_cow_in:
  "vmo_child v = Some c \<Longrightarrow> child_kind c = vmo_child_kind.PrivateCow \<Longrightarrow>
     o' + length d \<le> usize_max \<Longrightarrow> o' + length d \<le> vmo_size w v \<Longrightarrow>
     vmo_write off w v o' d = cow_write_loop off v (o' + length d) o' d w"
  by (cases v; cases c) (auto simp: checked_add_def)

definition kid :: vmo where
  "kid = Vmo 2 ''kid'' 0x1000 Paged (Some (VmoChildState obj 0 vmo_child_kind.PrivateCow))"

definition w_kid :: "nat vm_world" where
  "w_kid = snd (create_private_child w_full obj ''kid'' 0 0x2000)"

lemma kid_simps [simp]:
  "vmo_id kid = 2" "vmo_page_size kid = 0x1000" "vmo_backing kid = Paged"
  "vmo_child kid = Some (VmoChildState obj 0 vmo_child_kind.PrivateCow)"
  by (simp_all add: kid_def)

lemma rw_not_resizable: "\<not> contains rw_flags VM_FLAG_RESIZABLE"
  by (simp add: rw_flags_def contains_def bits_simps)

lemma next_id_w_full: "next_vmo_id w_full = 2"
  by (simp add: w_full_def world_defs)

lemma create_kid: "create_private_child w_full obj ''kid'' 0 0x2000 = (Some kid, w_kid)"
  by (simp add: create_private_child_def w_kid_def vmo_flags_def vmo_size_def w_full_inner
      rw_not_resizable is_multiple_of_def checked_add_def Let_def allocate_vmo_def kid_def
      next_id_w_full)

lemma sys_ok_w_kid: "sys_ok {kid, obj} w_kid"
  by (rule fresh_vmo.sys_private_child [OF sys_ok_w_full _ _ create_kid]) (simp_all add: next_id_w_full)

lemma w_kid_inner:
  "inner_of w_kid obj = inner_of w_full obj" "extents (inner_of w_kid kid) = []"
  "index (inner_of w_kid kid) = index_default" "inner_size (inner_of w_kid kid) = 0x2000"
  "inner_flags (inner_of w_kid kid) = bits_remove rw_flags VM_FLAG_RESIZABLE"
  "phys w_kid = (\<lambda>_. 7)" "frame_state w_kid = 2"
  by (simp_all add: w_kid_def create_private_child_def vmo_flags_def vmo_size_def w_full_inner
      rw_not_resizable is_multiple_of_def checked_add_def Let_def allocate_vmo_def
      next_id_w_full vmo_inner_default_def)

definition w_mat :: "nat vm_world" where
  "w_mat = snd (the (materialize_private_cow_page (bump 3) 0 w_kid kid 5 Anonymous))"

definition kid_page :: vmo_page_metadata where
  "kid_page = \<lparr>meta_phys = 0x12000, meta_purpose = Anonymous, meta_committed = True\<rparr>"

lemma page_at_obj: "page_at w_kid obj 0 = Some \<lparr>meta_phys = 0x10000, meta_purpose = Anonymous, meta_committed = True\<rparr>"
proof -
  have ok: "fresh_index (inner_of w_full obj)" "exts_disjoint (extents (inner_of w_full obj))"
    using sys_okD(2) [OF sys_ok_w_full] by (simp_all add: inner_ok_def)
  have "local_page (inner_of w_full obj) 0 =
      Some \<lparr>meta_phys = 0x10000, meta_purpose = Anonymous, meta_committed = True\<rparr>"
    unfolding local_page_iff [OF ok] by (simp add: w_full_inner metadata_at_def) (simp add: page_ext_def)
  then show ?thesis
    by (simp add: page_at_root w_kid_inner offset_is_page_aligned_def vmo_size_def w_full_inner is_multiple_of_def)
qed

lemma materialize_kid:
  "materialize_private_cow_page (bump 3) 0 w_kid kid 5 Anonymous = Some (Some kid_page, w_mat)"
proof -
  have "\<exists>w. materialize_private_cow_page (bump 3) 0 w_kid kid 5 Anonymous = Some (Some kid_page, w)"
    by (simp add: materialize_private_cow_page_def Let_def offset_is_page_aligned_def vmo_size_def
        w_kid_inner is_multiple_of_def checked_add_def page_at_obj owner_of_default bump_def
        virt_to_phys_def checked_sub_def copy_phys_eq from_addr_def is_power_of_two_def)
      (simp add: local_page_def owner_of_def reindex_def owner_at_rebuild snapshots_def
        ext_end_def run_from_frame_def len_bytes_def metadata_at_def ext_contains_def kid_page_def)
  then show ?thesis by (auto simp: w_mat_def)
qed

lemma sys_ok_w_mat: "sys_ok {kid, obj} w_mat"
  by (rule sys_ok_materialize [OF sys_ok_w_kid _ materialize_kid]) (simp_all add: bump_def)

lemma w_mat_eq:
  "w_mat = (set_inner w_kid kid (reindex (inner_of w_kid kid) [page_ext 0 0x12000]))
     \<lparr>phys := mem_store (\<lambda>_. 7) 0x12000 (mem_bytes (\<lambda>_. 7) 0x10000 0x1000), frame_state := 3\<rparr>"
  by (simp add: w_mat_def materialize_private_cow_page_def Let_def offset_is_page_aligned_def vmo_size_def
      w_kid_inner is_multiple_of_def checked_add_def page_at_obj owner_of_default bump_def
      virt_to_phys_def checked_sub_def copy_phys_eq from_addr_def is_power_of_two_def page_ext_def)

lemma w_mat_inner:
  "inner_of w_mat obj = inner_of w_full obj" "extents (inner_of w_mat kid) = [page_ext 0 0x12000]"
  "inner_size (inner_of w_mat kid) = 0x2000"
  "phys w_mat = mem_store (\<lambda>_. 7) 0x12000 (mem_bytes (\<lambda>_. 7) 0x10000 0x1000)"
  by (simp_all add: w_mat_eq w_kid_inner)

lemma w_mat_local_addr:
  "local_addr (inner_of w_mat kid) x = Some a \<longleftrightarrow> x < 0x1000 \<and> a = 0x12000 + x"
  using local_addr_iff [OF sys_okD(2) [OF sys_ok_w_mat, of kid]]
  by (auto simp: w_mat_inner ext_addr_def)

lemma machine_ok_kid: "machine_ok 0 {kid, obj} w_kid" "machine_ok 0 {kid, obj} w_mat"
  by (auto simp: machine_ok_def addressable_def vmo_size_def w_kid_inner w_mat_inner w_full_inner)

lemma view_addrs_obj:
  "inner_of w obj = inner_of w_full obj \<Longrightarrow> view_addrs w obj = {0x10000 ..< 0x12000}"
proof -
  assume "inner_of w obj = inner_of w_full obj"
  then have "view_addrs w obj = {a. \<exists>x. x < 0x2000 \<and> a = 0x10000 + x}"
    by (simp add: view_addrs_unfold [of _ obj] own_addrs_def w_full_local_addr)
  also have "\<dots> = {0x10000 ..< 0x12000}"
    by auto presburger
  finally show ?thesis .
qed

theorem private_write_isolated_witness:
  "\<exists>w'. vmo_write 0 w_mat kid 5 [9] = Some (True, w') \<and>
     vmo_read 0 w' obj 5 1 = vmo_read 0 w_mat obj 5 1"
proof -
  have own: "own_addrs w_mat kid \<inter> view_addrs w_mat obj = {}"
    by (auto simp: own_addrs_def w_mat_local_addr view_addrs_obj w_mat_inner)
  have ok: "inner_ok kid (inner_of w_mat kid)" using sys_okD(2) [OF sys_ok_w_mat, of kid] by simp
  have ad: "addressable 0 (inner_of w_mat kid)" using machine_ok_kid(2) by (simp add: machine_ok_def)
  have "readable w_mat kid 5 (length [9 :: u8])"
    by (auto simp: readable_def vmo_size_def w_mat_inner mapped_def w_mat_local_addr)
  with write_local_spec [OF ok ad, of 5 "[9]"] obtain m
    where m: "write_local 0 w_mat kid 5 [9] = Some (True, w_mat\<lparr>phys := m\<rparr>)" by auto
  have "owner_of (inner_of w_mat kid) 0 \<noteq> None"
    using w_mat_local_addr [of 0 "0x12000"] local_addr_None by force
  then have st: "vmo_write 0 w_mat kid 5 [9] = Some (True, w_mat\<lparr>phys := m\<rparr>)"
    using m vmo_write_cow_in [of kid "VmoChildState obj 0 vmo_child_kind.PrivateCow" 5 "[9]" w_mat 0]
    by (simp add: vmo_size_def w_mat_inner cow_write_loop.simps Let_def)
  show ?thesis
    using private_write_isolated [OF sys_ok_w_mat machine_ok_kid(2) _ _ _ _ own st, of _ 5 1] st by simp
qed

lemma page_at_kid:
  "page_at w_kid kid 0x1000 = Some \<lparr>meta_phys = 0x11000, meta_purpose = Anonymous, meta_committed = True\<rparr>"
proof -
  have ok: "fresh_index (inner_of w_full obj)" "exts_disjoint (extents (inner_of w_full obj))"
    using sys_okD(2) [OF sys_ok_w_full] by (simp_all add: inner_ok_def)
  have "local_page (inner_of w_full obj) 0x1000 =
      Some \<lparr>meta_phys = 0x11000, meta_purpose = Anonymous, meta_committed = True\<rparr>"
    unfolding local_page_iff [OF ok] by (simp add: w_full_inner metadata_at_def) (simp add: page_ext_def)
  then show ?thesis
    by (simp add: page_at_child [of kid "VmoChildState obj 0 vmo_child_kind.PrivateCow"] page_at_root
        offset_is_page_aligned_def vmo_size_def w_kid_inner w_full_inner is_multiple_of_def owner_of_default)
qed

lemma read_kid_page: "vmo_read 0 w_kid kid 0x1000 0x1000 = Some (Some (mem_bytes (\<lambda>_. 7) 0x11000 0x1000))"
proof -
  have "vmo_read 0 w_kid kid 0x1000 0x1000 =
      Some (page_bytes (phys w_kid) 0x1000 (page_at w_kid kid 0x1000))"
    using vmo_read_page [OF sys_ok_w_kid machine_ok_kid(1), of kid "0x1000"]
    by (simp add: vmo_size_def w_kid_inner)
  then show ?thesis using page_at_kid by (simp add: page_bytes_def w_kid_inner)
qed

theorem read_page_eq_page_at_witness:
  "vmo_read 0 w_kid kid 0x1000 0x1000 =
     Some (page_bytes (phys w_kid) 0x1000 (page_at w_kid kid 0x1000)) \<and>
   page_at w_kid kid 0x1000 \<noteq> None"
proof -
  have "vmo_read 0 w_kid kid 0x1000 0x1000 = Some (page_bytes (phys w_kid) 0x1000 (page_at w_kid kid 0x1000))"
    using read_page_eq_page_at [OF sys_ok_w_kid machine_ok_kid(1), of kid "0x1000"]
    by (simp add: vmo_size_def w_kid_inner)
  then show ?thesis using page_at_kid by simp
qed

theorem materialize_keeps_reads_witness:
  "vmo_read 0 w_mat kid 0x1000 0x1000 = Some (Some (mem_bytes (\<lambda>_. 7) 0x11000 0x1000))"
proof -
  have view: "view_addrs w_kid kid \<subseteq> {0x10000 ..< 0x12000}"
    by (auto simp: view_addrs_unfold [of _ kid] own_addrs_def local_addr_None owner_of_default w_kid_inner
        view_addrs_obj)
  then have fresh: "{0x12000 ..< 0x13000} \<inter> view_addrs w_kid kid = {}" by fastforce
  show ?thesis
    by (rule materialize_keeps_reads [OF sys_ok_w_kid machine_ok_kid _ _ materialize_kid,
          of "0x1000", simplified])
      (use fresh read_kid_page in \<open>simp_all add: bump_def owner_of_default w_kid_inner vmo_size_def kid_page_def\<close>)
qed

theorem cow_fault_cycle_witness:
  "resolve_fault w_kid kid 5 (MMU_READ OR MMU_WRITE) = Some vm_fault_resolution.PrivateCow \<and>
   resolve_fault w_mat kid 5 (MMU_READ OR MMU_WRITE) = Some vm_fault_resolution.RetryAfterMap"
proof -
  have fl: "contains (bits_remove rw_flags VM_FLAG_RESIZABLE) VM_FLAG_MAP"
    "contains (bits_remove rw_flags VM_FLAG_RESIZABLE) VM_FLAG_READ"
    "contains (bits_remove rw_flags VM_FLAG_RESIZABLE) VM_FLAG_WRITE"
    "\<not> contains (bits_remove (from_mmu_flags (MMU_READ OR MMU_WRITE))
      (VM_FLAG_USER OR VM_FLAG_DEVICE OR VM_FLAG_GLOBAL OR VM_FLAG_HUGE_PAGE)) VM_FLAG_EXECUTE"
    "contains (MMU_READ OR MMU_WRITE) MMU_WRITE"
    by code_simp+
  have perm: "can_map w_kid kid (bits_remove (from_mmu_flags (MMU_READ OR MMU_WRITE))
      (VM_FLAG_USER OR VM_FLAG_DEVICE OR VM_FLAG_GLOBAL OR VM_FLAG_HUGE_PAGE))"
    by (simp add: can_map_def vmo_flags_def w_kid_inner fl)
  show ?thesis
    using cow_fault_cycle [OF sys_ok_w_kid _ _ _ _ _ _ _ _ perm fl(5) _ materialize_kid, of 12
        "VmoChildState obj 0 vmo_child_kind.PrivateCow"]
    by (simp add: bump_def owner_of_default w_kid_inner vmo_size_def)
qed

subsection \<open>A commit that runs out of frames\<close>

definition w_half :: "nat vm_world" where
  "w_half = (set_inner w_obj obj ((inner_of w_obj obj)\<lparr>extents := [page_ext 0 0x10000]\<rparr>))\<lparr>frame_state := 1\<rparr>"

lemmas commit_eval = commit_range_def obj_def page_ext_def world_defs Let_def bump_def is_multiple_of_def
  commit_loop.simps owner_of_default vec_get_def frame_zone_default_def virt_to_phys_def
  checked_sub_def checked_add_def from_addr_def is_power_of_two_def reindex_def

lemma commit_half: "commit_range (bump 1) 0 w_obj obj 0 0x2000 Anonymous =
    Some (Err vmo_range_op_error.InvalidArgument, w_half)"
  by (simp add: commit_eval w_half_def)

text \<open>The allocator of one frame fails at the second page: the object holds a frame that its index does
  not know and reports no committed byte, and committing the first page again takes a second frame.\<close>

lemma commit_half_again:
  "tracked_pages w_half obj = Some 1 \<and> query_committed_bytes w_half obj 0 0x1000 = Some (Ok 0) \<and>
   (\<exists>w'. commit_range (bump 2) 0 w_half obj 0 0x1000 Anonymous = Some (Ok 0x1000, w') \<and>
      tracked_pages w' obj = Some 2)"
proof -
  let ?v = "(set_inner w_obj obj (reindex (inner_of w_obj obj) [page_ext 0 0x10000, page_ext 0 0x11000]))
    \<lparr>frame_state := 2\<rparr>"
  have again: "commit_range (bump 2) 0 w_half obj 0 0x1000 Anonymous = Some (Ok 0x1000, ?v)"
    by (simp add: commit_eval w_half_def)
  have "tracked_pages w_half obj = Some 1" "tracked_pages ?v obj = Some 2"
    by (simp_all add: tracked_pages_def page_ext_def run_from_frame_def reindex_def w_half_def)
  moreover have "query_committed_bytes w_half obj 0 0x1000 = Some (Ok 0)"
    by (simp add: query_committed_bytes_def Let_def is_multiple_of_def checked_add_def committed_loop.simps
        page_at_root offset_is_page_aligned_def local_page_def owner_of_default world_defs w_half_def)
  ultimately show ?thesis using again by blast
qed


text \<open>Both a run of successful operations and one with a failed commit.\<close>

theorem reachable_sys_ok_witness: "sys_ok {obj} w_full \<and> sys_sound {obj} w_half"
proof -
  have new: "vmo_step (bump m) 0 ({}, w_init) ({obj}, w_obj)" for m
    using vmo_step.new [OF _ fst_vmo_new_obj, of "bump m" 0 "{}"] by (simp add: w_init_def)
  moreover have "vmo_step (bump 2) 0 ({obj}, w_obj) ({obj}, w_full)"
    using commit_obj by (intro vmo_step.commit) simp_all
  ultimately have full: "(vmo_step (bump 2) 0)\<^sup>*\<^sup>* ({}, w_init) ({obj}, w_full)"
    "(vmo_any_step (bump 2) 0)\<^sup>*\<^sup>* ({}, w_init) ({obj}, w_full)"
    by (meson r_into_rtranclp rtranclp.rtrancl_into_rtrancl vmo_any_step.step)+
  have "vmo_any_step (bump 1) 0 ({obj}, w_obj) ({obj}, w_half)"
    by (rule vmo_any_step.failed_commit [OF _ commit_half]) simp
  with vmo_any_step.step [OF new, of 1] have "(vmo_any_step (bump 1) 0)\<^sup>*\<^sup>* ({}, w_init) ({obj}, w_half)"
    by (meson r_into_rtranclp rtranclp.rtrancl_into_rtrancl)
  with reachable_sys_ok [OF this] reachable_sys_ok [OF full(2)] full(1) show ?thesis by (simp add: bump_def)
qed

end
