(* ===== verification/Vmar.thy ===== *)
theory Vmar
  imports Segment_Tree BTree_Map Vm_Layout Vmo
begin

text \<open>
  The address-region manager of \<open>library/core/src/memory/vmar.rs\<close>: mappings, guards and child
  regions of one VMAR in an ordered map keyed by first page, and the segment tree of free pages that
  allocation searches. A \<open>Vmar\<close> is a shared reference, so a value is its identity and its immutable
  range, and the state behind the lock is looked up in a store. \<open>VmRange\<close> values are built only by
  \<open>VmRange::new\<close>, so their end lies behind their start.
\<close>

subsection \<open>Mappings and entries\<close>

record vmar_mapping =
  map_range :: vm_range
  map_flags :: vm_flags
  map_purpose :: region_purpose
  map_vmo :: vmo
  map_vmo_offset :: usize

definition validate_layout :: "'s vm_world \<Rightarrow> vmar_mapping \<Rightarrow> bool" where
  "validate_layout w self =
     (case classify_range (map_range self) of
        None \<Rightarrow> False
      | Some segment \<Rightarrow>
          if is_guard segment then False
          else if \<not> allows_mmu (max_flags segment) (map_flags self) then False
          else if contains (map_flags self) VM_FLAG_GLOBAL
                  \<and> (\<not> is_user segment \<and> \<not> is_resident (map_purpose self)) then False
          else if contains (map_flags self) VM_FLAG_DEVICE \<and> map_purpose self \<noteq> DeviceMmio then False
          else if \<not> can_map w (map_vmo self) (map_flags self) then False
          else saturating_add (map_vmo_offset self) (range_len (map_range self)) \<le> vmo_size w (map_vmo self))"

definition map_fault_policy :: "'s vm_world \<Rightarrow> vmar_mapping \<Rightarrow> vmo_fault_policy" where
  "map_fault_policy w self = fault_policy w (map_vmo self)"

definition vmo_offset_for_addr :: "vmar_mapping \<Rightarrow> virt_addr \<Rightarrow> usize option" where
  "vmo_offset_for_addr self addr =
     (if \<not> range_contains (map_range self) addr then None
      else checked_add (map_vmo_offset self) (addr - range_start (map_range self)))"

definition map_resolve_fault ::
    "'s vm_world \<Rightarrow> vmar_mapping \<Rightarrow> virt_addr \<Rightarrow> mmu_flags \<Rightarrow> vm_fault_resolution outcome" where
  "map_resolve_fault w self addr access =
     (if \<not> allows_mmu (map_flags self) (from_mmu_flags access) then Returned ProtectionDenied
      else case vmo_offset_for_addr self addr of
        None \<Rightarrow> Returned vm_fault_resolution.InvalidRange
      | Some offset \<Rightarrow> resolve_fault w (map_vmo self) offset access)"

datatype vmar = Vmar (vmar_id: nat) (vmar_range: vm_range)

datatype vmar_entry = Guard vm_range | Mapping vmar_mapping | Region vm_range vmar

primrec entry_range :: "vmar_entry \<Rightarrow> vm_range" where
  "entry_range (Guard r) = r"
| "entry_range (Mapping mapping) = map_range mapping"
| "entry_range (Region r child) = r"

datatype vm_pointer_region =
    Unmapped
  | GuardPage
  | Static vm_layout_segment
  | Reserved vm_range
  | Mapping vmar_mapping

subsection \<open>The free-space tree\<close>

record vmar_node =
  node_len :: usize
  prefix_free :: usize
  suffix_free :: usize
  max_free :: usize
  node_fill :: "bool option"

definition vmar_node_default :: vmar_node where
  "vmar_node_default = \<lparr>node_len = 0, prefix_free = 0, suffix_free = 0, max_free = 0, node_fill = None\<rparr>"

definition node_free :: vmar_node where
  "node_free = vmar_node_default\<lparr>node_fill := Some True\<rparr>"

definition node_used :: vmar_node where
  "node_used = vmar_node_default\<lparr>node_fill := Some False\<rparr>"

definition fully_free :: "vmar_node \<Rightarrow> bool" where
  "fully_free self \<longleftrightarrow> max_free self = node_len self"

definition node_merge :: "vmar_node \<Rightarrow> vmar_node \<Rightarrow> vmar_node" where
  "node_merge l r =
     \<lparr>node_len = node_len l + node_len r,
      prefix_free = (if prefix_free l = node_len l then node_len l + prefix_free r else prefix_free l),
      suffix_free = (if suffix_free r = node_len r then node_len r + suffix_free l else suffix_free r),
      max_free = max (max (max_free l) (max_free r)) (suffix_free l + prefix_free r),
      node_fill = None\<rparr>"

definition node_apply :: "vmar_node \<Rightarrow> vmar_node \<Rightarrow> usize \<Rightarrow> vmar_node" where
  "node_apply self lazy_value n =
     (case node_fill lazy_value of
        Some True \<Rightarrow> \<lparr>node_len = n, prefix_free = n, suffix_free = n, max_free = n, node_fill = Some True\<rparr>
      | Some False \<Rightarrow> \<lparr>node_len = n, prefix_free = 0, suffix_free = 0, max_free = 0, node_fill = Some False\<rparr>
      | None \<Rightarrow> self\<lparr>node_len := n\<rparr>)"

definition vmar_ops :: "vmar_node segment_ops" where
  "vmar_ops = \<lparr>merge = node_merge, apply_lazy = node_apply, default_state = vmar_node_default\<rparr>"

subsection \<open>The state of a VMAR\<close>

record vmar_state =
  page_count :: usize
  free_tree :: "vmar_node segment_tree"
  entries :: "(usize, vmar_entry) btree"

text \<open>\<open>expect\<close> on the result of a tree operation.\<close>

definition expect_ok :: "('a, 'e) result option \<Rightarrow> 'a outcome" where
  "expect_ok r = (case r of Some (Inr x) \<Rightarrow> Returned x | _ \<Rightarrow> Panicked)"

definition vmar_state_new :: "usize \<Rightarrow> vmar_state outcome" where
  "vmar_state_new pages = do {
     let t = segment_tree_new 0 (max pages 1);
     t' \<leftarrow> (if pages \<noteq> 0 then expect_ok (update vmar_ops t 0 pages node_free) else Returned t);
     Returned \<lparr>page_count = pages, free_tree = t', entries = []\<rparr>
   }"

record vmar_world =
  vmar_states :: "nat \<Rightarrow> vmar_state"
  next_vmar :: nat

definition vmar_state_of :: "vmar_world \<Rightarrow> vmar \<Rightarrow> vmar_state" where
  "vmar_state_of vw self = vmar_states vw (vmar_id self)"

definition set_vmar_state :: "vmar_world \<Rightarrow> vmar \<Rightarrow> vmar_state \<Rightarrow> vmar_world" where
  "set_vmar_state vw self st = vw\<lparr>vmar_states := (vmar_states vw)(vmar_id self := st)\<rparr>"

datatype vmar_error = InvalidRange | AlreadyMapped | PermissionDenied | NotMapped

primrec vmar_vm_error :: "vmar_error \<Rightarrow> vm_error" where
  "vmar_vm_error InvalidRange = vm_error.InvalidRange"
| "vmar_vm_error AlreadyMapped = vm_error.AlreadyMapped"
| "vmar_vm_error PermissionDenied = vm_error.PermissionDenied"
| "vmar_vm_error NotMapped = vm_error.NotMapped"

subsection \<open>Pages\<close>

definition vmar_new :: "vmar_world \<Rightarrow> vm_range \<Rightarrow> (vmar \<times> vmar_world) outcome" where
  "vmar_new vw r = do {
     st \<leftarrow> vmar_state_new (range_len r div PAGE_SIZE);
     let self = Vmar (next_vmar vw) r;
     Returned (self, (set_vmar_state vw self st)\<lparr>next_vmar := next_vmar vw + 1\<rparr>)
   }"

definition validate_child_range :: "vmar \<Rightarrow> vm_range \<Rightarrow> (unit, vmar_error) result" where
  "validate_child_range self r =
     (if \<not> is_page_aligned r \<or> \<not> contains_range (vmar_range self) r then Err InvalidRange else Ok ())"

definition page_index :: "vmar \<Rightarrow> virt_addr \<Rightarrow> usize option" where
  "page_index self addr =
     (if range_contains (vmar_range self) addr
      then Some ((addr - range_start (vmar_range self)) div PAGE_SIZE) else None)"

definition page_span :: "vmar \<Rightarrow> vm_range \<Rightarrow> (usize \<times> usize) option" where
  "page_span self r =
     (case page_index self (range_start r) of
        None \<Rightarrow> None
      | Some start \<Rightarrow>
          let end = (range_end r - range_start (vmar_range self)) div PAGE_SIZE;
              pages = range_len (vmar_range self) div PAGE_SIZE
          in if start < end \<and> end \<le> pages then Some (start, end) else None)"

definition page_span_for_range :: "vmar \<Rightarrow> usize \<Rightarrow> vm_range \<Rightarrow> (usize \<times> usize) option" where
  "page_span_for_range self pages r =
     (let base = range_start (vmar_range self)
      in case (checked_sub (range_start r) base, checked_sub (range_end r) base) of
           (Some s, Some e) \<Rightarrow>
             if s div PAGE_SIZE < e div PAGE_SIZE \<and> e div PAGE_SIZE \<le> pages
             then Some (s div PAGE_SIZE, e div PAGE_SIZE) else None
         | _ \<Rightarrow> None)"

definition find_entry :: "vmar \<Rightarrow> vmar_state \<Rightarrow> usize \<Rightarrow> (usize \<times> vmar_entry) option" where
  "find_entry self st page =
     (case bt_last_le (entries st) page of
        None \<Rightarrow> None
      | Some (start_page, entry) \<Rightarrow>
          (case page_span_for_range self (page_count st) (entry_range entry) of
             None \<Rightarrow> None
           | Some (entry_start, entry_end) \<Rightarrow>
               if entry_start \<le> page \<and> page < entry_end then Some (start_page, entry) else None))"

lemma query_OkD: "query T t s e = Some (Inr x) \<Longrightarrow> s < e"
  by (auto simp: query_def range_invalid_def split: if_splits)

function find_first_fit ::
    "vmar_node segment_tree \<Rightarrow> usize \<Rightarrow> usize \<Rightarrow> usize \<Rightarrow> (usize option \<times> vmar_node segment_tree) outcome" where
  "find_first_fit t start end needed_pages =
     (if saturating_sub end start < needed_pages then Returned (None, t)
      else case query vmar_ops t start end of
        None \<Rightarrow> Panicked
      | Some (Inl _) \<Rightarrow> Returned (None, t)
      | Some (Inr (summary, t1)) \<Rightarrow>
          if max_free summary < needed_pages then Returned (None, t1)
          else if end - start = needed_pages then Returned (Some start, t1)
          else let mid = start + (end - start) div 2
          in (case (if mid > start then find_first_fit t1 start mid needed_pages else Returned (None, t1)) of
                None \<Rightarrow> Panicked
              | Some (Some found, t2) \<Rightarrow> Returned (Some found, t2)
              | Some (None, t2) \<Rightarrow>
                  (case query vmar_ops t2 start mid of
                     None \<Rightarrow> Panicked
                   | Some (Inl _) \<Rightarrow> Returned (None, t2)
                   | Some (Inr (l, t3)) \<Rightarrow>
                       (case query vmar_ops t3 mid end of
                          None \<Rightarrow> Panicked
                        | Some (Inl _) \<Rightarrow> Returned (None, t3)
                        | Some (Inr (r, t4)) \<Rightarrow>
                            if suffix_free l + prefix_free r \<ge> needed_pages
                            then (if suffix_free l \<le> mid then Returned (Some (mid - suffix_free l), t4)
                                  else Panicked)
                            else if mid < end then find_first_fit t4 mid end needed_pages
                            else Returned (None, t4)))))"
  by pat_completeness auto

termination
  by (relation "measure (\<lambda>(t, start, end, n). end - start)") (auto dest!: query_OkD)

subsection \<open>Operations\<close>

definition insert_entry :: "vmar_world \<Rightarrow> vmar \<Rightarrow> vmar_entry \<Rightarrow> ((unit, vmar_error) result \<times> vmar_world) outcome" where
  "insert_entry vw self entry =
     (let r = entry_range entry
      in case validate_child_range self r of
        Inl e \<Rightarrow> Returned (Err e, vw)
      | Inr _ \<Rightarrow>
          (case page_span self r of
             None \<Rightarrow> Returned (Err InvalidRange, vw)
           | Some (start_page, end_page) \<Rightarrow>
               let st = vmar_state_of vw self
               in do {
                 (status, t1) \<leftarrow> expect_ok (query vmar_ops (free_tree st) start_page end_page);
                 if \<not> fully_free status
                 then Returned (Err AlreadyMapped, set_vmar_state vw self (st\<lparr>free_tree := t1\<rparr>))
                 else do {
                   t2 \<leftarrow> expect_ok (update vmar_ops t1 start_page end_page node_used);
                   Returned (Ok (), set_vmar_state vw self
                     (st\<lparr>free_tree := t2, entries := bt_insert start_page entry (entries st)\<rparr>))
                 }
               }))"

definition allocate_child ::
    "vmar_world \<Rightarrow> vmar \<Rightarrow> vm_range \<Rightarrow> ((vmar, vmar_error) result \<times> vmar_world) outcome" where
  "allocate_child vw self r =
     (case validate_child_range self r of
        Inl e \<Rightarrow> Returned (Err e, vw)
      | Inr _ \<Rightarrow> do {
          (child, vw1) \<leftarrow> vmar_new vw r;
          (res, vw2) \<leftarrow> insert_entry vw1 self (Region r child);
          (case res of Inl e \<Rightarrow> Returned (Err e, vw2) | Inr _ \<Rightarrow> Returned (Ok child, vw2))
        })"

definition allocate_child_any ::
    "vmar_world \<Rightarrow> vmar \<Rightarrow> usize \<Rightarrow> ((vmar, vmar_error) result \<times> vmar_world) outcome" where
  "allocate_child_any vw self sz =
     (if sz = 0 \<or> \<not> is_multiple_of sz PAGE_SIZE then Returned (Err InvalidRange, vw)
      else let st = vmar_state_of vw self; needed_pages = sz div PAGE_SIZE
      in do {
        (overall, t1) \<leftarrow> expect_ok (query vmar_ops (free_tree st) 0 (page_count st));
        if max_free overall < needed_pages
        then Returned (Err NotMapped, set_vmar_state vw self (st\<lparr>free_tree := t1\<rparr>))
        else do {
          (found, t2) \<leftarrow> find_first_fit t1 0 (page_count st) needed_pages;
          let vw2 = set_vmar_state vw self (st\<lparr>free_tree := t2\<rparr>);
          (case found of
             None \<Rightarrow> Returned (Err NotMapped, vw2)
           | Some start_page \<Rightarrow>
               let start = range_start (vmar_range self) + start_page * PAGE_SIZE
               in case checked_add start sz of
                    None \<Rightarrow> Returned (Err InvalidRange, vw2)
                  | Some end \<Rightarrow>
                      (case vm_range_new start end of
                         None \<Rightarrow> Returned (Err InvalidRange, vw2)
                       | Some candidate \<Rightarrow> allocate_child vw2 self candidate))
        }
      })"

definition map_vmo ::
    "'s vm_world \<Rightarrow> vmar_world \<Rightarrow> vmar \<Rightarrow> vm_range \<Rightarrow> vmo \<Rightarrow> usize \<Rightarrow> vm_flags \<Rightarrow> region_purpose
     \<Rightarrow> ((unit, vmar_error) result \<times> vmar_world) outcome" where
  "map_vmo w vw self r v vmo_offset flags purpose =
     (if \<not> is_page_aligned r \<or> \<not> is_multiple_of vmo_offset (vmo_page_size v)
      then Returned (Err InvalidRange, vw)
      else let mapping = \<lparr>map_range = r, map_flags = flags, map_purpose = purpose, map_vmo = v,
                          map_vmo_offset = vmo_offset\<rparr>
      in if \<not> validate_layout w mapping then Returned (Err PermissionDenied, vw)
         else insert_entry vw self (vmar_entry.Mapping mapping))"

definition map_guard :: "vmar_world \<Rightarrow> vmar \<Rightarrow> vm_range \<Rightarrow> ((unit, vmar_error) result \<times> vmar_world) outcome" where
  "map_guard vw self r =
     (if \<not> is_page_aligned r then Returned (Err InvalidRange, vw)
      else case classify_range r of
        None \<Rightarrow> Returned (Err InvalidRange, vw)
      | Some segment \<Rightarrow>
          if \<not> is_guard segment then Returned (Err PermissionDenied, vw)
          else insert_entry vw self (Guard r))"

definition protect ::
    "'s vm_world \<Rightarrow> vmar_world \<Rightarrow> vmar \<Rightarrow> vm_range \<Rightarrow> vm_flags \<Rightarrow> (unit, vmar_error) result \<times> vmar_world" where
  "protect w vw self r flags =
     (if \<not> is_page_aligned r then (Err InvalidRange, vw)
      else let st = vmar_state_of vw self
      in case page_span self r of
        None \<Rightarrow> (Err InvalidRange, vw)
      | Some (start_page, end_page) \<Rightarrow>
          (case find_entry self st start_page of
             Some (_, vmar_entry.Mapping mapping) \<Rightarrow>
               if map_range mapping \<noteq> r then (Err NotMapped, vw)
               else let updated = mapping\<lparr>map_flags := flags\<rparr>
               in if \<not> validate_layout w updated then (Err PermissionDenied, vw)
                  else (Ok (), set_vmar_state vw self
                         (st\<lparr>entries := bt_insert start_page (vmar_entry.Mapping updated) (entries st)\<rparr>))
           | _ \<Rightarrow> (Err NotMapped, vw)))"

definition unmap :: "vmar_world \<Rightarrow> vmar \<Rightarrow> virt_addr \<Rightarrow> ((vmar_entry, vmar_error) result \<times> vmar_world) outcome" where
  "unmap vw self start =
     (let st = vmar_state_of vw self
      in case page_index self start of
        None \<Rightarrow> Returned (Err InvalidRange, vw)
      | Some page \<Rightarrow>
          (case bt_get (entries st) page of
             None \<Rightarrow> Returned (Err NotMapped, vw)
           | Some entry \<Rightarrow>
               let st1 = st\<lparr>entries := bt_remove page (entries st)\<rparr>
               in if range_start (entry_range entry) \<noteq> start
                  then Returned (Err NotMapped,
                    set_vmar_state vw self (st1\<lparr>entries := bt_insert page entry (entries st1)\<rparr>))
                  else (case page_span self (entry_range entry) of
                          None \<Rightarrow> Returned (Err InvalidRange, set_vmar_state vw self st1)
                        | Some (start_page, end_page) \<Rightarrow> do {
                            t1 \<leftarrow> expect_ok (update vmar_ops (free_tree st) start_page end_page node_free);
                            Returned (Ok entry, set_vmar_state vw self (st1\<lparr>free_tree := t1\<rparr>))
                          })))"

text \<open>The descent through child regions returns when the regions form a tree.\<close>

partial_function (option) locate :: "vmar_world \<Rightarrow> vmar \<Rightarrow> virt_addr \<Rightarrow> vm_pointer_region option" where
  "locate vw self addr =
     (if \<not> range_contains (vmar_range self) addr
      then Some (case classify addr of
                   Some segment \<Rightarrow> if is_guard segment then GuardPage else Static segment
                 | None \<Rightarrow> Unmapped)
      else case page_index self addr of
        None \<Rightarrow> Some (Reserved (vmar_range self))
      | Some page \<Rightarrow>
          (case find_entry self (vmar_state_of vw self) page of
             None \<Rightarrow> Some (Reserved (vmar_range self))
           | Some (_, entry) \<Rightarrow>
               if range_contains (entry_range entry) addr
               then (case entry of
                       Guard _ \<Rightarrow> Some GuardPage
                     | vmar_entry.Mapping mapping \<Rightarrow> Some (vm_pointer_region.Mapping mapping)
                     | Region _ child \<Rightarrow> locate vw child addr)
               else Some (Reserved (vmar_range self))))"

definition mapping_at :: "vmar_world \<Rightarrow> vmar \<Rightarrow> virt_addr \<Rightarrow> vmar_mapping option outcome" where
  "mapping_at vw self addr =
     map_option (\<lambda>r. case r of vm_pointer_region.Mapping mapping \<Rightarrow> Some mapping | _ \<Rightarrow> None)
       (locate vw self addr)"

definition vmar_entries :: "vmar_world \<Rightarrow> vmar \<Rightarrow> vmar_entry list" where
  "vmar_entries vw self = bt_values (entries (vmar_state_of vw self))"

definition child_count :: "vmar_world \<Rightarrow> vmar \<Rightarrow> usize" where
  "child_count vw self = length (vmar_entries vw self)"

declare find_first_fit.simps [simp del]

end
