(* ===== verification/Vmar_Space.thy ===== *)
theory Vmar_Space
  imports Vmar
begin

text \<open>
  The free-space tree of a VMAR: its nodes summarise runs of free pages, so \<open>VmarNode\<close> satisfies the
  contract of \<open>SegmentState\<close>, and the first-fit search returns the lowest free run of the size asked for.
\<close>

subsection \<open>Runs of free pages\<close>

definition free_prefix :: "bool list \<Rightarrow> nat" where
  "free_prefix xs = length (takeWhile id xs)"

definition free_suffix :: "bool list \<Rightarrow> nat" where
  "free_suffix xs = free_prefix (rev xs)"

primrec max_run :: "bool list \<Rightarrow> nat" where
  "max_run [] = 0"
| "max_run (x # xs) = max (free_prefix (x # xs)) (max_run xs)"

lemma free_prefix_simps [simp]:
  "free_prefix [] = 0" "free_prefix (x # xs) = (if x then Suc (free_prefix xs) else 0)"
  by (simp_all add: free_prefix_def)

lemma free_prefix_le: "free_prefix xs \<le> length xs"
  by (simp add: free_prefix_def length_takeWhile_le)

lemma free_prefix_append:
  "free_prefix (xs @ ys) = (if free_prefix xs = length xs then length xs + free_prefix ys else free_prefix xs)"
proof (induction xs)
  case (Cons x xs)
  then show ?case using free_prefix_le [of xs] by auto
qed simp

lemma free_suffix_append:
  "free_suffix (xs @ ys) = (if free_suffix ys = length ys then length ys + free_suffix xs else free_suffix ys)"
  by (simp add: free_suffix_def free_prefix_append)

lemma free_suffix_le: "free_suffix xs \<le> length xs"
  using free_prefix_le [of "rev xs"] by (simp add: free_suffix_def)

lemma free_prefix_replicate [simp]: "free_prefix (replicate n c) = (if c then n else 0)"
  by (induction n) auto

lemma free_suffix_replicate [simp]: "free_suffix (replicate n c) = (if c then n else 0)"
  by (simp add: free_suffix_def)

lemma max_run_replicate [simp]: "max_run (replicate n c) = (if c then n else 0)"
  by (induction n) auto

lemma max_run_ge_prefix: "free_prefix xs \<le> max_run xs"
  by (cases xs) auto

lemma max_run_append:
  "max_run (xs @ ys) = max (max (max_run xs) (max_run ys)) (free_suffix xs + free_prefix ys)"
proof (induction xs)
  case Nil
  then show ?case using max_run_ge_prefix [of ys] by (simp add: free_suffix_def)
next
  case (Cons x xs)
  have s: "free_suffix (x # xs) = (if free_suffix xs = length xs \<and> x then Suc (length xs) else free_suffix xs)"
    using free_suffix_append [of "[x]" xs] free_suffix_le [of xs] by (auto simp: free_suffix_def)
  have full: "free_suffix xs = length xs \<longleftrightarrow> free_prefix xs = length xs"
  proof -
    have all: "free_prefix zs = length zs \<longleftrightarrow> list_all id zs" for zs
      by (induction zs) (use free_prefix_le in \<open>auto simp: le_Suc_eq\<close>)
    show ?thesis by (simp add: free_suffix_def all [of xs] all [of "rev xs", simplified] list_all_iff)
  qed
  show ?case
    using Cons free_prefix_append [of "x # xs" ys] s full by (auto simp: max_def)
qed

text \<open>A run of \<open>n\<close> free pages that starts at \<open>p\<close> inside the pages from \<open>s\<close> to \<open>e\<close>.\<close>

definition fits :: "(nat \<Rightarrow> bool) \<Rightarrow> nat \<Rightarrow> nat \<Rightarrow> nat \<Rightarrow> nat \<Rightarrow> bool" where
  "fits f s e n p \<longleftrightarrow> s \<le> p \<and> p + n \<le> e \<and> (\<forall>i. p \<le> i \<and> i < p + n \<longrightarrow> f i)"

lemma fits_whole:
  assumes "fits f s e (e - s) p" and "s < e"
  shows "p = s"
proof -
  have "s \<le> p" "p + (e - s) \<le> e" using assms(1) unfolding fits_def by blast+
  with assms(2) show ?thesis by linarith
qed

lemma free_prefix_upt:
  assumes "s \<le> e"
  shows "free_prefix (map f [s..<e]) \<le> e - s"
    and "s \<le> i \<Longrightarrow> i < s + free_prefix (map f [s..<e]) \<Longrightarrow> f i"
    and "free_prefix (map f [s..<e]) < e - s \<Longrightarrow> \<not> f (s + free_prefix (map f [s..<e]))"
proof -
  show "free_prefix (map f [s..<e]) \<le> e - s" using free_prefix_le [of "map f [s..<e]"] by simp
  have "(s \<le> i \<longrightarrow> i < s + free_prefix (map f [s..<e]) \<longrightarrow> f i) \<and>
      (free_prefix (map f [s..<e]) < e - s \<longrightarrow> \<not> f (s + free_prefix (map f [s..<e])))"
    using assms
  proof (induction "e - s" arbitrary: s)
    case (Suc n)
    then have e: "[s..<e] = s # [Suc s..<e]" by (simp add: upt_conv_Cons)
    have IH: "(Suc s \<le> i \<longrightarrow> i < Suc s + free_prefix (map f [Suc s..<e]) \<longrightarrow> f i) \<and>
      (free_prefix (map f [Suc s..<e]) < e - Suc s \<longrightarrow> \<not> f (Suc s + free_prefix (map f [Suc s..<e])))"
      using Suc.hyps(2) by (intro Suc.hyps(1)) auto
    show ?case unfolding e using IH by (cases "f s"; cases "s = i") auto
  qed simp
  then show "s \<le> i \<Longrightarrow> i < s + free_prefix (map f [s..<e]) \<Longrightarrow> f i"
    and "free_prefix (map f [s..<e]) < e - s \<Longrightarrow> \<not> f (s + free_prefix (map f [s..<e]))"
    by auto
qed

lemma free_suffix_upt:
  assumes "s \<le> e"
  shows "free_suffix (map f [s..<e]) \<le> e - s"
    and "e - free_suffix (map f [s..<e]) \<le> i \<Longrightarrow> i < e \<Longrightarrow> f i"
    and "free_suffix (map f [s..<e]) < e - s \<Longrightarrow> \<not> f (e - free_suffix (map f [s..<e]) - 1)"
proof -
  show le: "free_suffix (map f [s..<e]) \<le> e - s" using free_suffix_le [of "map f [s..<e]"] by simp
  have "(e - free_suffix (map f [s..<e]) \<le> i \<longrightarrow> i < e \<longrightarrow> f i) \<and>
      (free_suffix (map f [s..<e]) < e - s \<longrightarrow> \<not> f (e - free_suffix (map f [s..<e]) - 1))"
    using assms
  proof (induction "e - s" arbitrary: e)
    case (Suc n)
    then obtain d where e: "e = Suc d" "s \<le> d" by (cases e) auto
    have u: "free_suffix (map f [s..<e]) = (if f d then Suc (free_suffix (map f [s..<d])) else 0)"
      using e by (simp add: free_suffix_def)
    have IH: "(d - free_suffix (map f [s..<d]) \<le> i \<longrightarrow> i < d \<longrightarrow> f i) \<and>
      (free_suffix (map f [s..<d]) < d - s \<longrightarrow> \<not> f (d - free_suffix (map f [s..<d]) - 1))"
      using Suc.hyps(2) e by (intro Suc.hyps(1)) auto
    show ?case unfolding u using IH e(1) by (auto simp: less_Suc_eq)
  qed (simp add: free_suffix_def)
  then show "e - free_suffix (map f [s..<e]) \<le> i \<Longrightarrow> i < e \<Longrightarrow> f i"
    and "free_suffix (map f [s..<e]) < e - s \<Longrightarrow> \<not> f (e - free_suffix (map f [s..<e]) - 1)"
    by auto
qed

lemma free_prefix_fits: "s \<le> e \<Longrightarrow> n \<le> free_prefix (map f [s..<e]) \<longleftrightarrow> fits f s e n s"
proof
  assume se: "s \<le> e" and n: "n \<le> free_prefix (map f [s..<e])"
  have "f i" if "s \<le> i" "i < s + n" for i
    using free_prefix_upt(2) [OF se, of i f] that n by simp
  then show "fits f s e n s" using free_prefix_upt(1) [OF se, of f] se n by (auto simp: fits_def)
next
  assume se: "s \<le> e" and "fits f s e n s"
  then have n: "s + n \<le> e" "\<And>i. s \<le> i \<Longrightarrow> i < s + n \<Longrightarrow> f i" by (auto simp: fits_def)
  show "n \<le> free_prefix (map f [s..<e])"
  proof (rule ccontr)
    assume "\<not> n \<le> free_prefix (map f [s..<e])"
    then have "s + free_prefix (map f [s..<e]) < s + n" by simp
    with free_prefix_upt(3) [OF se, of f] n(1) n(2) [of "s + free_prefix (map f [s..<e])"]
    show False by linarith
  qed
qed

lemma max_run_fits:
  "s \<le> e \<Longrightarrow> 0 < n \<Longrightarrow> n \<le> max_run (map f [s..<e]) \<longleftrightarrow> (\<exists>p. fits f s e n p)"
proof (induction "e - s" arbitrary: s)
  case 0
  then show ?case by (auto simp: fits_def)
next
  case (Suc k)
  then have e: "[s..<e] = s # [Suc s..<e]" by (simp add: upt_conv_Cons)
  have IH: "n \<le> max_run (map f [Suc s..<e]) \<longleftrightarrow> (\<exists>p. fits f (Suc s) e n p)"
    using Suc.hyps(2) Suc.prems by (intro Suc.hyps(1)) auto
  have "fits f s e n p \<longleftrightarrow> p = s \<and> fits f s e n s \<or> fits f (Suc s) e n p" for p
    by (auto simp: fits_def)
  then have ex: "(\<exists>p. fits f s e n p) \<longleftrightarrow> fits f s e n s \<or> (\<exists>p. fits f (Suc s) e n p)" by blast
  have "max_run (map f [s..<e]) = max (free_prefix (map f [s..<e])) (max_run (map f [Suc s..<e]))"
    unfolding e by simp
  then have "n \<le> max_run (map f [s..<e]) \<longleftrightarrow>
      n \<le> free_prefix (map f [s..<e]) \<or> n \<le> max_run (map f [Suc s..<e])"
    by (simp add: le_max_iff_disj)
  then show ?case using free_prefix_fits [of s e n f] Suc.prems(1) IH ex by blast
qed

subsection \<open>The nodes satisfy the contract of the tree\<close>

definition vmar_summ :: "vmar_node \<Rightarrow> bool list \<Rightarrow> bool" where
  "vmar_summ v xs \<longleftrightarrow> node_len v = length xs \<and> prefix_free v = free_prefix xs \<and>
     suffix_free v = free_suffix xs \<and> max_free v = max_run xs"

interpretation vn: segment_state vmar_ops vmar_summ node_fill
proof unfold_locales
  show "vmar_summ (merge vmar_ops a b) (xs @ ys)" if "vmar_summ a xs" "vmar_summ b ys" for a b xs ys
    using that by (simp add: vmar_summ_def vmar_ops_def node_merge_def free_prefix_append
        free_suffix_append max_run_append)
  show "vmar_summ (apply_lazy vmar_ops s z n) (replicate n c)" if "node_fill z = Some c" "0 < n" for z c n s
    using that by (simp add: vmar_summ_def vmar_ops_def node_apply_def split: bool.split)
qed

abbreviation free_map :: "(nat \<Rightarrow> bool) \<Rightarrow> vmar_node segment_tree \<Rightarrow> bool" where
  "free_map \<equiv> tree_represents vmar_summ node_fill"

text \<open>Every page of a range is free exactly when its summary says so.\<close>

lemma fully_free_iff:
  assumes "vmar_summ v (map f [s..<e])" and "s < e"
  shows "fully_free v \<longleftrightarrow> (\<forall>i. s \<le> i \<and> i < e \<longrightarrow> f i)"
proof -
  have "max_run (map f [s..<e]) \<le> e - s"
  proof (rule ccontr)
    assume "\<not> max_run (map f [s..<e]) \<le> e - s"
    then have "Suc (e - s) \<le> max_run (map f [s..<e])" by simp
    then show False using max_run_fits [of s e "Suc (e - s)" f] assms(2) by (auto simp: fits_def)
  qed
  then have "fully_free v \<longleftrightarrow> e - s \<le> max_run (map f [s..<e])"
    using assms(1) by (auto simp: fully_free_def vmar_summ_def)
  also have "\<dots> \<longleftrightarrow> (\<exists>p. fits f s e (e - s) p)"
    using assms(2) by (intro max_run_fits) auto
  also have "\<dots> \<longleftrightarrow> fits f s e (e - s) s"
  proof
    assume "\<exists>p. fits f s e (e - s) p"
    then obtain p where p: "fits f s e (e - s) p" by blast
    with fits_whole [OF p assms(2)] show "fits f s e (e - s) s" by simp
  qed blast
  also have "\<dots> \<longleftrightarrow> (\<forall>i. s \<le> i \<and> i < e \<longrightarrow> f i)"
    using assms(2) by (simp add: fits_def)
  finally show ?thesis .
qed


subsection \<open>First fit\<close>

text \<open>What lies left, across and right of the middle of an interval.\<close>

lemma fits_left: "m \<le> e \<Longrightarrow> fits f s m n p \<Longrightarrow> fits f s e n p"
  by (simp add: fits_def)

lemma fits_right: "s \<le> m \<Longrightarrow> fits f m e n p \<Longrightarrow> fits f s e n p"
  by (simp add: fits_def)

lemma fits_cases:
  assumes "fits f s e n p" and "\<not> fits f s m n p" and "\<not> fits f m e n p"
  shows "p < m" "m < p + n"
  using assms by (auto simp: fits_def)

lemma fits_crossing:
  assumes q: "fits f s e n q" "q < m" "m < q + n" and m: "s \<le> m" "m \<le> e"
  shows "m - free_suffix (map f [s..<m]) \<le> q" and "q + n \<le> m + free_prefix (map f [m..<e])"
proof -
  show "m - free_suffix (map f [s..<m]) \<le> q"
  proof (rule ccontr)
    assume "\<not> m - free_suffix (map f [s..<m]) \<le> q"
    then have lt: "q \<le> m - free_suffix (map f [s..<m]) - 1" "free_suffix (map f [s..<m]) < m - s"
      using q by (auto simp: fits_def)
    then have "f (m - free_suffix (map f [s..<m]) - 1)" using q by (auto simp: fits_def)
    with free_suffix_upt(3) [OF m(1), of f] lt(2) show False by blast
  qed
  show "q + n \<le> m + free_prefix (map f [m..<e])"
  proof (rule ccontr)
    assume "\<not> q + n \<le> m + free_prefix (map f [m..<e])"
    then have lt: "m + free_prefix (map f [m..<e]) < q + n" "free_prefix (map f [m..<e]) < e - m"
      using q by (auto simp: fits_def)
    then have "f (m + free_prefix (map f [m..<e]))" using q by (auto simp: fits_def)
    with free_prefix_upt(3) [OF m(2), of f] lt(2) show False by blast
  qed
qed

lemma fits_middle:
  assumes "n \<le> free_suffix (map f [s..<m]) + free_prefix (map f [m..<e])" and "s \<le> m" "m \<le> e"
  shows "fits f s e n (m - free_suffix (map f [s..<m]))"
proof -
  have "f i" if "m - free_suffix (map f [s..<m]) \<le> i" "i < m + free_prefix (map f [m..<e])" for i
    using free_suffix_upt(2) [OF assms(2), of f i] free_prefix_upt(2) [OF assms(3), of i f] that
    by (cases "i < m") auto
  then show ?thesis
    using assms free_suffix_upt(1) [OF assms(2), of f] free_prefix_upt(1) [OF assms(3), of f]
    by (auto simp: fits_def)
qed

definition first_fit :: "(nat \<Rightarrow> bool) \<Rightarrow> nat \<Rightarrow> nat \<Rightarrow> nat \<Rightarrow> nat option \<Rightarrow> bool" where
  "first_fit f s e n r \<longleftrightarrow>
     (case r of None \<Rightarrow> \<not> (\<exists>p. fits f s e n p) | Some p \<Rightarrow> fits f s e n p \<and> (\<forall>q. fits f s e n q \<longrightarrow> p \<le> q))"

lemma first_fit_left:
  "first_fit f s m n (Some p) \<Longrightarrow> m \<le> e \<Longrightarrow> first_fit f s e n (Some p)"
  by (fastforce simp: first_fit_def fits_def)

lemma first_fit_middle:
  assumes "first_fit f s m n None" and "n \<le> free_suffix (map f [s..<m]) + free_prefix (map f [m..<e])"
    and "s \<le> m" "m \<le> e"
  shows "first_fit f s e n (Some (m - free_suffix (map f [s..<m])))"
  unfolding first_fit_def option.case
proof (intro conjI allI impI)
  show "fits f s e n (m - free_suffix (map f [s..<m]))" by (rule fits_middle [OF assms(2-4)])
  fix q assume q: "fits f s e n q"
  show "m - free_suffix (map f [s..<m]) \<le> q"
  proof (cases "q < m")
    case True
    moreover have "m < q + n"
    proof (rule ccontr)
      assume "\<not> m < q + n"
      then have "fits f s m n q" using q by (simp add: fits_def)
      then show False using assms(1) by (auto simp: first_fit_def)
    qed
    ultimately show ?thesis using fits_crossing(1) [OF q] assms(3,4) by simp
  qed simp
qed

lemma first_fit_right:
  assumes "first_fit f s m n None" and "free_suffix (map f [s..<m]) + free_prefix (map f [m..<e]) < n"
    and m: "s \<le> m" "m \<le> e" and r: "first_fit f m e n r"
  shows "first_fit f s e n r"
proof -
  have right: "fits f m e n q" if q: "fits f s e n q" for q
  proof (rule ccontr)
    assume nr: "\<not> fits f m e n q"
    have nl: "\<not> fits f s m n q" using assms(1) by (auto simp: first_fit_def)
    note c = fits_cases [OF q nl nr]
    show False
      using fits_crossing [OF q c m] assms(2) free_suffix_upt(1) [OF m(1), of f] m by linarith
  qed
  then have "fits f s e n = fits f m e n" using fits_right [OF m(1)] by blast
  with r show ?thesis by (cases r) (simp_all add: first_fit_def)
qed

lemma find_first_fit_ok:
  assumes "free_map f t" and "dom_start t \<le> s" and "e \<le> dom_end t" and n: "0 < n"
  shows "\<exists>r t'. find_first_fit t s e n = Some (r, t') \<and> first_fit f s e n r \<and> free_map f t' \<and>
    dom_start t' = dom_start t \<and> dom_end t' = dom_end t"
  using assms(1-3)
proof (induction "e - s" arbitrary: t s e rule: less_induct)
  case less
  show ?case
  proof (cases "e - s < n")
    case True
    then have "first_fit f s e n None" by (auto simp: first_fit_def fits_def)
    with True less.prems show ?thesis
      by (subst find_first_fit.simps) (simp add: saturating_sub_def)
  next
    case False
    with n have se: "s < e" by simp
    obtain v t1 where q: "query vmar_ops t s e = Some (Ok (v, t1))" "vmar_summ v (map f [s..<e])"
        "free_map f t1" "dom_start t1 = dom_start t" "dom_end t1 = dom_end t"
      using vn.query_tree_rep [OF less.prems(1) se less.prems(2,3)] by blast
    have fit: "n \<le> max_free v \<longleftrightarrow> (\<exists>p. fits f s e n p)"
      using q(2) max_run_fits [of s e n f] se n by (simp add: vmar_summ_def)
    note head = find_first_fit.simps [of t s e n, unfolded saturating_sub_def q(1)]
    show ?thesis
    proof (cases "max_free v < n \<or> e - s = n")
      case True
      show ?thesis
      proof (cases "max_free v < n")
        case True
        then have "first_fit f s e n None" using fit by (simp add: first_fit_def)
        with True False se q show ?thesis by (subst head) simp
      next
        case nf: False
        with True have en: "e - s = n" by blast
        from nf fit obtain p where p: "fits f s e n p" by auto
        have all: "q = s" if "fits f s e n q" for q using fits_whole that en se by metis
        have "first_fit f s e n (Some s)" using p all [OF p] all by (auto simp: first_fit_def)
        with nf en False se q show ?thesis by (subst head) simp
      qed
    next
      case deep: False
      let ?m = "s + (e - s) div 2"
      from deep False n have m: "s < ?m" "?m < e" by auto
      obtain r1 t2 where l: "find_first_fit t1 s ?m n = Some (r1, t2)" "first_fit f s ?m n r1" "free_map f t2"
          "dom_start t2 = dom_start t1" "dom_end t2 = dom_end t1"
        using less.hyps [of ?m s t1] m q less.prems by fastforce
      show ?thesis
      proof (cases r1)
        case (Some p)
        then show ?thesis
          using l q m se deep False first_fit_left [of f s ?m n p e] by (subst head) (simp add: Let_def)
      next
        case None
        obtain a t3 where a: "query vmar_ops t2 s ?m = Some (Ok (a, t3))" "vmar_summ a (map f [s..<?m])"
            "free_map f t3" "dom_start t3 = dom_start t2" "dom_end t3 = dom_end t2"
          using vn.query_tree_rep [OF l(3) m(1)] l(4,5) q(4,5) m(2) less.prems(2,3) by fastforce
        obtain b t4 where b: "query vmar_ops t3 ?m e = Some (Ok (b, t4))" "vmar_summ b (map f [?m..<e])"
            "free_map f t4" "dom_start t4 = dom_start t3" "dom_end t4 = dom_end t3"
          using vn.query_tree_rep [OF a(3) m(2)] a(4,5) l(4,5) q(4,5) m(1) less.prems(2,3) by fastforce
        have sum: "suffix_free a = free_suffix (map f [s..<?m])" "prefix_free b = free_prefix (map f [?m..<e])"
          using a(2) b(2) by (simp_all add: vmar_summ_def)
        have none: "first_fit f s ?m n None" using l(2) None by simp
        have sm: "suffix_free a \<le> ?m" using free_suffix_upt(1) [of s ?m f] m sum by linarith
        have body: "find_first_fit t s e n =
            (if n \<le> suffix_free a + prefix_free b then Some (Some (?m - suffix_free a), t4)
             else find_first_fit t4 ?m e n)"
          using False se deep m l(1) None a(1) b(1) sm by (subst head) (simp add: Let_def)
        show ?thesis
        proof (cases "n \<le> suffix_free a + prefix_free b")
          case True
          have "first_fit f s e n (Some (?m - suffix_free a))"
            using first_fit_middle [OF none] True m sum by simp
          with True b a l q show ?thesis unfolding body by simp
        next
          case nc: False
          obtain r t' where "find_first_fit t4 ?m e n = Some (r, t')" "first_fit f ?m e n r" "free_map f t'"
              "dom_start t' = dom_start t4" "dom_end t' = dom_end t4"
            using less.hyps [of e ?m t4] m b a l q less.prems by fastforce
          moreover from this(2) have "first_fit f s e n r"
            using first_fit_right [OF none _ _ _ \<open>first_fit f ?m e n r\<close>] nc m sum by simp
          ultimately show ?thesis unfolding body using nc b a l q by simp
        qed
      qed
    qed
  qed
qed

end
