(* ===== verification/Vmar_System.thy ===== *)
theory Vmar_System
  imports Vmar_Space
begin

text \<open>
  The invariant of the address-region manager: the entries of every VMAR are page aligned, lie inside
  it and do not overlap, the free-space tree marks exactly the pages outside all entries, every child
  region is a VMAR over the range of its entry, and mappings and guards respect the layout. Every
  operation returns and keeps it; the operations are characterised in terms of the entries.
\<close>

subsection \<open>Pages of aligned ranges\<close>

definition page_addr :: "vmar \<Rightarrow> usize \<Rightarrow> virt_addr" where
  "page_addr v p = range_start (vmar_range v) + p * PAGE_SIZE"

definition aligned_wf :: "vm_range \<Rightarrow> bool" where
  "aligned_wf r \<longleftrightarrow> range_wf r \<and> is_page_aligned r"

lemma aligned_wfD:
  assumes "aligned_wf r"
  shows "range_start r < range_end r" "range_end r \<le> usize_max" "PAGE_SIZE dvd range_start r"
    "PAGE_SIZE dvd range_end r" "range_wf r" "is_page_aligned r"
  using assms by (auto simp: aligned_wf_def range_wf_def is_page_aligned_def is_multiple_of_dvd)

lemma page_addr_mono [simp]: "page_addr v p < page_addr v q \<longleftrightarrow> p < q" "page_addr v p \<le> page_addr v q \<longleftrightarrow> p \<le> q"
  by (simp_all add: page_addr_def)

lemma page_addr_inj [simp]: "page_addr v p = page_addr v q \<longleftrightarrow> p = q"
  by (simp add: page_addr_def)

text \<open>The pages of an aligned range inside an aligned VMAR.\<close>

lemma span_ok:
  assumes v: "aligned_wf (vmar_range v)" and r: "aligned_wf r" and c: "contains_range (vmar_range v) r"
  obtains s e where "page_span v r = Some (s, e)"
    and "page_span_for_range v (range_len (vmar_range v) div PAGE_SIZE) r = Some (s, e)"
    and "s < e" "e \<le> range_len (vmar_range v) div PAGE_SIZE"
    and "range_start r = page_addr v s" "range_end r = page_addr v e"
proof -
  note v = aligned_wfD [OF v] and r = aligned_wfD [OF r]
  obtain b t where b: "range_start (vmar_range v) = PAGE_SIZE * b" "range_end (vmar_range v) = PAGE_SIZE * t"
    using v by (auto elim!: dvdE)
  obtain x y where x: "range_start r = PAGE_SIZE * x" "range_end r = PAGE_SIZE * y"
    using r by (auto elim!: dvdE)
  have o: "b \<le> x" "x < y" "y \<le> t" using c b x v r by (auto simp: contains_range_def)
  have d: "(PAGE_SIZE * x - PAGE_SIZE * b) div PAGE_SIZE = x - b" "(PAGE_SIZE * y - PAGE_SIZE * b) div PAGE_SIZE = y - b"
    "(PAGE_SIZE * t - PAGE_SIZE * b) div PAGE_SIZE = t - b"
    by (simp_all only: diff_mult_distrib2 [symmetric] nonzero_mult_div_cancel_left)
  have o': "x - b < y - b" "y - b \<le> t - b" using o by auto
  show thesis
  proof
    show "page_span v r = Some (x - b, y - b)"
      using o o' b x d by (simp add: page_span_def page_index_def range_contains_def range_len_def Let_def)
    show "page_span_for_range v (range_len (vmar_range v) div PAGE_SIZE) r = Some (x - b, y - b)"
      using o o' b x d by (simp add: page_span_for_range_def checked_sub_def range_len_def Let_def)
    show "x - b < y - b" "y - b \<le> range_len (vmar_range v) div PAGE_SIZE"
      using o' b d by (simp_all add: range_len_def)
    show "range_start r = page_addr v (x - b)" "range_end r = page_addr v (y - b)"
      using o b x by (auto simp: page_addr_def algebra_simps)
  qed
qed

lemma page_index_addr:
  assumes v: "aligned_wf (vmar_range v)" and a: "range_contains (vmar_range v) a"
  obtains p where "page_index v a = Some p" and "page_addr v p \<le> a" "a < page_addr v (p + 1)"
    and "p < range_len (vmar_range v) div PAGE_SIZE"
proof -
  note v = aligned_wfD [OF v]
  let ?b = "range_start (vmar_range v)" and ?p = "(a - range_start (vmar_range v)) div PAGE_SIZE"
  have "?p * PAGE_SIZE \<le> a - ?b" "a - ?b < (?p + 1) * PAGE_SIZE"
    using div_times_less_eq_dividend [of "a - ?b" PAGE_SIZE] dividend_less_div_times [of PAGE_SIZE "a - ?b"]
    by simp_all
  moreover have "?b \<le> a" "a < range_end (vmar_range v)" using a by (auto simp: range_contains_def)
  moreover have "?p < range_len (vmar_range v) div PAGE_SIZE"
  proof -
    have "PAGE_SIZE dvd range_len (vmar_range v)" using v by (simp add: range_len_def)
    moreover have "a - ?b < range_len (vmar_range v)" using a by (auto simp: range_contains_def range_len_def)
    ultimately show ?thesis by (auto elim!: dvdE simp: less_mult_imp_div_less mult.commute)
  qed
  ultimately show thesis
    using that [of ?p] a by (simp add: page_index_def page_addr_def)
qed

subsection \<open>The invariant of one VMAR\<close>

definition entry_at :: "vmar_state \<Rightarrow> virt_addr \<Rightarrow> vmar_entry option \<Rightarrow> bool" where
  "entry_at st a oe \<longleftrightarrow>
     (case oe of
        None \<Rightarrow> \<forall>p e. bt_get (entries st) p = Some e \<longrightarrow> \<not> range_contains (entry_range e) a
      | Some e \<Rightarrow> range_contains (entry_range e) a \<and> (\<exists>p. bt_get (entries st) p = Some e))"

definition page_free :: "vmar \<Rightarrow> vmar_state \<Rightarrow> usize \<Rightarrow> bool" where
  "page_free v st p \<longleftrightarrow> entry_at st (page_addr v p) None"

definition entries_ok :: "vmar \<Rightarrow> (usize, vmar_entry) btree \<Rightarrow> bool" where
  "entries_ok v m \<longleftrightarrow> bt_wf m \<and>
     (\<forall>p e. bt_get m p = Some e \<longrightarrow> aligned_wf (entry_range e) \<and> contains_range (vmar_range v) (entry_range e) \<and>
        range_start (entry_range e) = page_addr v p) \<and>
     (\<forall>p q e f. p \<noteq> q \<longrightarrow> bt_get m p = Some e \<longrightarrow> bt_get m q = Some f \<longrightarrow>
        \<not> overlaps (entry_range e) (entry_range f))"

definition vmar_ok :: "vmar \<Rightarrow> vmar_state \<Rightarrow> bool" where
  "vmar_ok v st \<longleftrightarrow> aligned_wf (vmar_range v) \<and> page_count st = range_len (vmar_range v) div PAGE_SIZE \<and>
     entries_ok v (entries st) \<and> dom_start (free_tree st) = 0 \<and> dom_end (free_tree st) = page_count st \<and>
     free_map (page_free v st) (free_tree st)"

lemma vmar_okD:
  assumes "vmar_ok v st"
  shows "aligned_wf (vmar_range v)" "page_count st = range_len (vmar_range v) div PAGE_SIZE"
    "entries_ok v (entries st)" "dom_start (free_tree st) = 0" "dom_end (free_tree st) = page_count st"
    "free_map (page_free v st) (free_tree st)"
  using assms by (auto simp: vmar_ok_def)

lemma entries_okD:
  assumes "entries_ok v m"
  shows "bt_wf m" and "bt_get m p = Some e \<Longrightarrow> aligned_wf (entry_range e)"
    and "bt_get m p = Some e \<Longrightarrow> contains_range (vmar_range v) (entry_range e)"
    and "bt_get m p = Some e \<Longrightarrow> range_start (entry_range e) = page_addr v p"
    and "p \<noteq> q \<Longrightarrow> bt_get m p = Some e \<Longrightarrow> bt_get m q = Some f \<Longrightarrow> \<not> overlaps (entry_range e) (entry_range f)"
  using assms unfolding entries_ok_def by blast+

text \<open>Trees that represent the same free pages can be exchanged.\<close>

lemma vmar_ok_tree:
  assumes "vmar_ok v st" and "free_map (page_free v st) t"
    and "dom_start t = dom_start (free_tree st)" "dom_end t = dom_end (free_tree st)"
  shows "vmar_ok v (st\<lparr>free_tree := t\<rparr>)"
  using assms by (simp add: vmar_ok_def page_free_def [abs_def] entry_at_def)

lemma free_map_cong:
  assumes "free_map f t" and "\<And>i. dom_start t \<le> i \<Longrightarrow> i < dom_end t \<Longrightarrow> f i = g i"
  shows "free_map g t"
proof -
  obtain n where n: "root t = Some n" "represents vmar_summ node_fill f n (dom_start t) (dom_end t)"
    using assms(1) by (auto simp: tree_represents_def)
  have "represents vmar_summ node_fill g n (dom_start t) (dom_end t)"
    by (rule represents_cong [OF n(2)]) (use assms(2) in blast)
  with n(1) show ?thesis by (simp add: tree_represents_def)
qed

text \<open>A page is free inside a range exactly when no entry overlaps the range.\<close>

lemma range_free_iff:
  assumes ok: "vmar_ok v st" and r: "aligned_wf r" "contains_range (vmar_range v) r"
    and se: "range_start r = page_addr v s" "range_end r = page_addr v e"
  shows "(\<forall>i. s \<le> i \<and> i < e \<longrightarrow> page_free v st i) \<longleftrightarrow>
    (\<forall>p f. bt_get (entries st) p = Some f \<longrightarrow> \<not> overlaps (entry_range f) r)"
proof (intro iffI allI impI notI)
  fix p f
  assume free: "\<forall>i. s \<le> i \<and> i < e \<longrightarrow> page_free v st i"
    and f: "bt_get (entries st) p = Some f" and ov: "overlaps (entry_range f) r"
  note eo = entries_okD [OF vmar_okD(3) [OF ok]]
  obtain x y where x: "range_start (entry_range f) = page_addr v x" "range_end (entry_range f) = page_addr v y" "x < y"
    using span_ok [OF vmar_okD(1) [OF ok] eo(2) [OF f] eo(3) [OF f]] by metis
  have "x < e" "s < y" using ov x se by (auto simp: overlaps_def)
  then have "s \<le> max s x" "max s x < e" "x \<le> max s x" "max s x < y"
    using x(3) aligned_wfD(1) [OF r(1)] se by auto
  moreover from this have "page_free v st (max s x)" using free by blast
  moreover from calculation have "range_contains (entry_range f) (page_addr v (max s x))"
    using x by (simp only: range_contains_def page_addr_mono)
  ultimately show False using f by (auto simp: page_free_def entry_at_def)
next
  fix i
  assume none: "\<forall>p f. bt_get (entries st) p = Some f \<longrightarrow> \<not> overlaps (entry_range f) r" and i: "s \<le> i \<and> i < e"
  have "range_contains r (page_addr v i)" using i se by (simp add: range_contains_def)
  then show "page_free v st i"
    using none overlaps_iff [OF aligned_wfD(5) aligned_wfD(5) [OF r(1)]]
      entries_okD(2) [OF vmar_okD(3) [OF ok]]
    unfolding page_free_def entry_at_def option.case by blast
qed

lemma find_entry_iff:
  assumes ok: "vmar_ok v st" and a: "page_index v a = Some p" "page_addr v p \<le> a" "a < page_addr v (p + 1)"
  shows "find_entry v st p = Some (q, e) \<longleftrightarrow>
    bt_get (entries st) q = Some e \<and> range_contains (entry_range e) a"
proof -
  note o = vmar_okD [OF ok] and eo = entries_okD [OF vmar_okD(3) [OF ok]]
  have span: "\<exists>y. page_span_for_range v (page_count st) (entry_range f) = Some (k, y) \<and> k < y \<and>
      range_start (entry_range f) = page_addr v k \<and> range_end (entry_range f) = page_addr v y"
    if f: "bt_get (entries st) k = Some f" for k f
    using span_ok [OF o(1) eo(2) [OF f] eo(3) [OF f]] eo(4) [OF f] o(2) by (metis page_addr_inj)
  have inside: "range_contains (entry_range f) a \<longleftrightarrow> k \<le> p \<and> p < y"
    if "range_start (entry_range f) = page_addr v k" "range_end (entry_range f) = page_addr v y" for k f y
  proof -
    have "page_addr v k \<le> a \<longleftrightarrow> k \<le> p"
      using a(2,3) page_addr_mono(1) [of v p k] page_addr_mono(2) [of v "p + 1" k] page_addr_mono(2) [of v k p]
      by (metis Suc_eq_plus1 leD le_trans not_less not_less_eq_eq)
    moreover have "a < page_addr v y \<longleftrightarrow> p < y"
      using a(2,3) page_addr_mono(2) [of v "p + 1" y] page_addr_mono(1) [of v p y]
      by (metis Suc_eq_plus1 Suc_leI le_less_trans less_le_trans)
    ultimately show ?thesis using that by (simp add: range_contains_def)
  qed
  show ?thesis
  proof
    assume "find_entry v st p = Some (q, e)"
    then obtain x y where le: "bt_last_le (entries st) p = Some (q, e)"
      and sp: "page_span_for_range v (page_count st) (entry_range e) = Some (x, y)" "x \<le> p" "p < y"
      by (auto simp: find_entry_def split: option.splits if_splits)
    have get: "bt_get (entries st) q = Some e"
      using bt_last_le_Some(1) [OF eo(1) le] bt_get_Some_iff [OF eo(1)] by simp
    moreover from span [OF get] sp inside have "range_contains (entry_range e) a" by auto
    ultimately show "bt_get (entries st) q = Some e \<and> range_contains (entry_range e) a" by simp
  next
    assume "bt_get (entries st) q = Some e \<and> range_contains (entry_range e) a"
    then have get: "bt_get (entries st) q = Some e" and ca: "range_contains (entry_range e) a" by simp_all
    from span [OF get] obtain y where y: "page_span_for_range v (page_count st) (entry_range e) = Some (q, y)"
      "range_start (entry_range e) = page_addr v q" "range_end (entry_range e) = page_addr v y" by blast
    have qp: "q \<le> p" "p < y" using ca inside [OF y(2,3)] by simp_all
    have "bt_get (entries st) k = None" if k: "q < k" "k \<le> p" for k
    proof (rule ccontr)
      assume "bt_get (entries st) k \<noteq> None"
      then obtain f where f: "bt_get (entries st) k = Some f" by blast
      from span [OF f] have "overlaps (entry_range e) (entry_range f)"
        using k qp y by (auto simp: overlaps_def)
      with eo(5) [OF _ get f] k show False by simp
    qed
    with bt.last_le_floor [OF eo(1) get qp(1)] have "bt_last_le (entries st) p = Some (q, e)" by blast
    with y qp show "find_entry v st p = Some (q, e)" by (simp add: find_entry_def)
  qed
qed

subsection \<open>Inserting and removing entries\<close>

lemma vmar_ok_insert:
  assumes ok: "vmar_ok v st" and r: "aligned_wf (entry_range en)" "contains_range (vmar_range v) (entry_range en)"
    and se: "range_start (entry_range en) = page_addr v s" "range_end (entry_range en) = page_addr v e"
    and no: "\<And>p f. bt_get (entries st) p = Some f \<Longrightarrow> \<not> overlaps (entry_range f) (entry_range en)"
    and t: "free_map (overwrite (page_free v st) s e False) t" "dom_start t = dom_start (free_tree st)"
      "dom_end t = dom_end (free_tree st)"
  shows "vmar_ok v (st\<lparr>free_tree := t, entries := bt_insert s en (entries st)\<rparr>)"
proof -
  note o = vmar_okD [OF ok] and eo = entries_okD [OF vmar_okD(3) [OF ok]]
  let ?st = "st\<lparr>free_tree := t, entries := bt_insert s en (entries st)\<rparr>"
  have new: "bt_get (entries st) s = None"
  proof (rule ccontr)
    assume "bt_get (entries st) s \<noteq> None"
    then obtain f where f: "bt_get (entries st) s = Some f" by blast
    have "overlaps (entry_range f) (entry_range en)"
      using eo(4) [OF f] se(1) aligned_wfD(1) [OF eo(2) [OF f]] aligned_wfD(1) [OF r(1)] by (simp add: overlaps_def)
    with no [OF f] show False by simp
  qed
  have no': "\<not> overlaps (entry_range en) (entry_range f)" if "bt_get (entries st) p = Some f" for p f
    using no [OF that] overlaps_sym by blast
  have get: "bt_get (bt_insert s en (entries st)) p = (if p = s then Some en else bt_get (entries st) p)" for p
    by (rule bt_get_insert)
  have "entries_ok v (bt_insert s en (entries st))"
    unfolding entries_ok_def
  proof (intro conjI allI impI)
    show "bt_wf (bt_insert s en (entries st))" by (rule bt_wf_insert [OF eo(1)])
  next
    fix p f assume f: "bt_get (bt_insert s en (entries st)) p = Some f"
    show "aligned_wf (entry_range f)" "contains_range (vmar_range v) (entry_range f)"
      "range_start (entry_range f) = page_addr v p"
      using f eo(2-4) r se(1) by (auto simp: get split: if_splits)
  next
    fix p q f g assume "p \<noteq> q" "bt_get (bt_insert s en (entries st)) p = Some f" "bt_get (bt_insert s en (entries st)) q = Some g"
    then show "\<not> overlaps (entry_range f) (entry_range g)"
      using eo(5) no no' by (auto simp: get split: if_splits)
  qed
  moreover have pf: "page_free v ?st i = overwrite (page_free v st) s e False i" for i
  proof -
    have "page_free v ?st i \<longleftrightarrow> page_free v st i \<and> \<not> range_contains (entry_range en) (page_addr v i)"
      using new by (auto simp: page_free_def entry_at_def get)
    also have "range_contains (entry_range en) (page_addr v i) \<longleftrightarrow> s \<le> i \<and> i < e"
      using se by (simp add: range_contains_def)
    finally show ?thesis by (auto simp: overwrite_def)
  qed
  ultimately show ?thesis using o t ext [of "page_free v ?st", OF pf] unfolding vmar_ok_def by simp
qed

lemma vmar_ok_remove:
  assumes ok: "vmar_ok v st" and get: "bt_get (entries st) s = Some en"
    and se: "range_start (entry_range en) = page_addr v s" "range_end (entry_range en) = page_addr v e"
    and t: "free_map (overwrite (page_free v st) s e True) t" "dom_start t = dom_start (free_tree st)"
      "dom_end t = dom_end (free_tree st)"
  shows "vmar_ok v (st\<lparr>entries := bt_remove s (entries st), free_tree := t\<rparr>)"
proof -
  note o = vmar_okD [OF ok] and eo = entries_okD [OF vmar_okD(3) [OF ok]]
  let ?st = "st\<lparr>entries := bt_remove s (entries st), free_tree := t\<rparr>"
  have rem: "bt_get (bt_remove s (entries st)) p = (if p = s then None else bt_get (entries st) p)" for p
    by (rule bt_get_remove)
  have "entries_ok v (bt_remove s (entries st))"
    unfolding entries_ok_def
  proof (intro conjI allI impI)
    show "bt_wf (bt_remove s (entries st))" by (rule bt_wf_remove [OF eo(1)])
  next
    fix p f assume f: "bt_get (bt_remove s (entries st)) p = Some f"
    show "aligned_wf (entry_range f)" "contains_range (vmar_range v) (entry_range f)"
      "range_start (entry_range f) = page_addr v p"
      using f eo(2-4) by (auto simp: rem split: if_splits)
  next
    fix p q f g assume "p \<noteq> q" "bt_get (bt_remove s (entries st)) p = Some f" "bt_get (bt_remove s (entries st)) q = Some g"
    then show "\<not> overlaps (entry_range f) (entry_range g)"
      using eo(5) by (auto simp: rem split: if_splits)
  qed
  moreover have pf: "page_free v ?st i = overwrite (page_free v st) s e True i" for i
  proof (cases "s \<le> i \<and> i < e")
    case True
    then have c: "range_contains (entry_range en) (page_addr v i)" using se by (simp add: range_contains_def)
    have "\<not> range_contains (entry_range f) (page_addr v i)" if "q \<noteq> s" "bt_get (entries st) q = Some f" for q f
      using eo(5) [OF that(1) that(2) get] overlaps_iff [OF aligned_wfD(5) [OF eo(2) [OF that(2)]] aligned_wfD(5) [OF eo(2) [OF get]]] c
      by blast
    then show ?thesis using True by (auto simp: page_free_def entry_at_def rem overwrite_def)
  next
    case False
    then have "\<not> range_contains (entry_range en) (page_addr v i)" using se by (simp add: range_contains_def)
    then have "page_free v ?st i = page_free v st i"
      using get by (simp add: page_free_def entry_at_def rem) (metis option.inject)
    with False show ?thesis by (auto simp: overwrite_def)
  qed
  ultimately show ?thesis using o t ext [of "page_free v ?st", OF pf] unfolding vmar_ok_def by simp
qed

text \<open>Inserting an entry returns in one of three ways.\<close>

lemma insert_entry_cases:
  assumes ok: "vmar_ok v (vmar_state_of vw v)" and wf: "range_wf (entry_range en)"
  obtains (invalid) "\<not> (is_page_aligned (entry_range en) \<and> contains_range (vmar_range v) (entry_range en))"
      "insert_entry vw v en = Some (Err InvalidRange, vw)"
  | (taken) t p f where "aligned_wf (entry_range en)" "contains_range (vmar_range v) (entry_range en)"
      "bt_get (entries (vmar_state_of vw v)) p = Some f" "overlaps (entry_range f) (entry_range en)"
      "insert_entry vw v en = Some (Err AlreadyMapped, set_vmar_state vw v ((vmar_state_of vw v)\<lparr>free_tree := t\<rparr>))"
      "vmar_ok v ((vmar_state_of vw v)\<lparr>free_tree := t\<rparr>)"
  | (inserted) t s where "aligned_wf (entry_range en)" "contains_range (vmar_range v) (entry_range en)"
      "\<forall>p f. bt_get (entries (vmar_state_of vw v)) p = Some f \<longrightarrow> \<not> overlaps (entry_range f) (entry_range en)"
      "range_start (entry_range en) = page_addr v s"
      "insert_entry vw v en = Some (Ok (), set_vmar_state vw v ((vmar_state_of vw v)
         \<lparr>free_tree := t, entries := bt_insert s en (entries (vmar_state_of vw v))\<rparr>))"
      "vmar_ok v ((vmar_state_of vw v)\<lparr>free_tree := t, entries := bt_insert s en (entries (vmar_state_of vw v))\<rparr>)"
proof (cases "is_page_aligned (entry_range en) \<and> contains_range (vmar_range v) (entry_range en)")
  case False
  then have "insert_entry vw v en = Some (Err InvalidRange, vw)"
    by (auto simp: insert_entry_def validate_child_range_def Let_def)
  with False show thesis by (rule invalid)
next
  case True
  let ?st = "vmar_state_of vw v"
  from True wf have al: "aligned_wf (entry_range en)" and co: "contains_range (vmar_range v) (entry_range en)"
    by (simp_all add: aligned_wf_def)
  note o = vmar_okD [OF ok]
  obtain s e where se: "page_span v (entry_range en) = Some (s, e)" "s < e" "e \<le> page_count ?st"
      "range_start (entry_range en) = page_addr v s" "range_end (entry_range en) = page_addr v e"
    using span_ok [OF o(1) al co] o(2) by metis
  obtain q t where q: "query vmar_ops (free_tree ?st) s e = Some (Ok (q, t))"
      "vmar_summ q (map (page_free v ?st) [s..<e])" "free_map (page_free v ?st) t"
      "dom_start t = dom_start (free_tree ?st)" "dom_end t = dom_end (free_tree ?st)"
    using vn.query_tree_rep [OF o(6) se(2)] se(3) o(4,5) by auto
  note free = fully_free_iff [OF q(2) se(2)] range_free_iff [OF ok al co se(4,5)]
  show thesis
  proof (cases "fully_free q")
    case False
    then obtain p f where "bt_get (entries ?st) p = Some f" "overlaps (entry_range f) (entry_range en)"
      using free by blast
    moreover have "insert_entry vw v en = Some (Err AlreadyMapped, set_vmar_state vw v (?st\<lparr>free_tree := t\<rparr>))"
      using True False se(1) q(1) by (simp add: insert_entry_def validate_child_range_def Let_def expect_ok_def)
    ultimately show thesis using taken al co vmar_ok_tree [OF ok q(3-5)] by blast
  next
    case ff: True
    then have no: "\<forall>p f. bt_get (entries ?st) p = Some f \<longrightarrow> \<not> overlaps (entry_range f) (entry_range en)"
      using free by blast
    have u: "node_fill node_used = Some False" by (simp add: node_used_def)
    obtain t2 where t2: "update vmar_ops t s e node_used = Some (Ok t2)"
        "free_map (overwrite (page_free v ?st) s e False) t2" "dom_start t2 = dom_start t" "dom_end t2 = dom_end t"
      using vn.update_tree_rep [OF q(3) u se(2)] q(4,5) se(3) o(4,5) by auto
    have "insert_entry vw v en = Some (Ok (), set_vmar_state vw v
        (?st\<lparr>free_tree := t2, entries := bt_insert s en (entries ?st)\<rparr>))"
      using True ff se(1) q(1) t2(1) by (simp add: insert_entry_def validate_child_range_def Let_def expect_ok_def)
    moreover have "vmar_ok v (?st\<lparr>free_tree := t2, entries := bt_insert s en (entries ?st)\<rparr>)"
      using no t2 q by (intro vmar_ok_insert [OF ok al co se(4,5)]) auto
    ultimately show thesis using inserted al co no se(4) by blast
  qed
qed

lemma set_vmar_state_same [simp]: "set_vmar_state vw v (vmar_state_of vw v) = vw"
  by (simp add: set_vmar_state_def vmar_state_of_def)

lemma bt_reinsert: "bt_wf m \<Longrightarrow> bt_get m k = Some x \<Longrightarrow> bt_insert k x (bt_remove k m) = m"
proof (induction m)
  case (Cons a m)
  obtain k' y where a: "a = (k', y)" by (cases a)
  have wf: "bt_wf m" "\<forall>z \<in> set m. k' < fst z" using Cons.prems(1) a by (auto simp: bt_wf_def)
  show ?case
  proof (cases "k' = k")
    case True
    then have "bt_remove k m = m" using wf(2) by (auto simp: bt_remove_def intro!: filter_True)
    then have "bt_remove k (a # m) = m" using True a by (simp add: bt_remove_def)
    moreover have "y = x" using Cons.prems(2) True a by (simp add: bt_get_def)
    moreover have "bt_insert k x m = (k, x) # m" using wf(2) True by (cases m) auto
    ultimately show ?thesis using a True by simp
  next
    case False
    have get: "bt_get m k = Some x" using Cons.prems(2) False a by (simp add: bt_get_def)
    then have "(k, x) \<in> set m" by (simp add: bt_get_def map_of_SomeD)
    then have "k' < k" using wf(2) by auto
    then have "bt_insert k x (bt_remove k (a # m)) = a # bt_insert k x (bt_remove k m)"
      using False a by (simp add: bt_remove_def)
    with Cons.IH [OF wf(1) get] show ?thesis by simp
  qed
qed (simp add: bt_get_def)

lemma unmap_cases:
  assumes ok: "vmar_ok v (vmar_state_of vw v)"
  obtains (outside) "\<not> range_contains (vmar_range v) a" "unmap vw v a = Some (Err InvalidRange, vw)"
  | (missing) "range_contains (vmar_range v) a"
      "\<forall>p e. bt_get (entries (vmar_state_of vw v)) p = Some e \<longrightarrow> range_start (entry_range e) \<noteq> a"
      "unmap vw v a = Some (Err NotMapped, vw)"
  | (removed) p e t where "bt_get (entries (vmar_state_of vw v)) p = Some e" "range_start (entry_range e) = a"
      "unmap vw v a = Some (Ok e, set_vmar_state vw v
         ((vmar_state_of vw v)\<lparr>entries := bt_remove p (entries (vmar_state_of vw v)), free_tree := t\<rparr>))"
      "vmar_ok v ((vmar_state_of vw v)\<lparr>entries := bt_remove p (entries (vmar_state_of vw v)), free_tree := t\<rparr>)"
proof (cases "range_contains (vmar_range v) a")
  case False
  then have "unmap vw v a = Some (Err InvalidRange, vw)" by (simp add: unmap_def page_index_def)
  with False show thesis by (rule outside)
next
  case True
  let ?st = "vmar_state_of vw v"
  note o = vmar_okD [OF ok] and eo = entries_okD [OF vmar_okD(3) [OF ok]]
  obtain p where p: "page_index v a = Some p" "page_addr v p \<le> a" "a < page_addr v (p + 1)"
    using page_index_addr [OF o(1) True] by metis
  have at: "q = p" if "bt_get (entries ?st) q = Some e" "range_start (entry_range e) = a" for q e
    using eo(4) [OF that(1)] that(2) p(2,3) page_addr_mono(2) [of v p q] page_addr_mono(1) [of v q "p + 1"] by simp
  show thesis
  proof (cases "\<exists>e. bt_get (entries ?st) p = Some e \<and> range_start (entry_range e) = a")
    case False
    have "unmap vw v a = Some (Err NotMapped, vw)"
    proof (cases "bt_get (entries ?st) p")
      case (Some e)
      with False have "range_start (entry_range e) \<noteq> a" by simp
      with Some show ?thesis
        by (simp add: unmap_def p(1) bt_reinsert [OF eo(1) Some] Let_def)
    qed (simp add: unmap_def p(1))
    with True False at show thesis by (intro missing) blast+
  next
    case found: True
    then obtain e where e: "bt_get (entries ?st) p = Some e" "range_start (entry_range e) = a" by blast
    obtain s y where sy: "page_span v (entry_range e) = Some (s, y)" "s < y" "y \<le> page_count ?st"
        "range_start (entry_range e) = page_addr v s" "range_end (entry_range e) = page_addr v y"
      using span_ok [OF o(1) eo(2) [OF e(1)] eo(3) [OF e(1)]] o(2) by metis
    have s: "s = p" using eo(4) [OF e(1)] sy(4) by simp
    have u: "node_fill node_free = Some True" by (simp add: node_free_def)
    obtain t where t: "update vmar_ops (free_tree ?st) s y node_free = Some (Ok t)"
        "free_map (overwrite (page_free v ?st) s y True) t" "dom_start t = dom_start (free_tree ?st)"
        "dom_end t = dom_end (free_tree ?st)"
      using vn.update_tree_rep [OF o(6) u sy(2)] sy(3) o(4,5) by auto
    have "unmap vw v a = Some (Ok e, set_vmar_state vw v (?st\<lparr>entries := bt_remove p (entries ?st), free_tree := t\<rparr>))"
      using e sy(1) t(1) by (simp add: unmap_def p(1) expect_ok_def Let_def)
    moreover have "vmar_ok v (?st\<lparr>entries := bt_remove p (entries ?st), free_tree := t\<rparr>)"
      using vmar_ok_remove [OF ok e(1) _ sy(5) t(2-4) [unfolded s]] sy(4) s t by simp
    ultimately show thesis using removed e by blast
  qed
qed

end
