(* ===== verification/Vmar_World.thy ===== *)
theory Vmar_World
  imports Vmar_System
begin

text \<open>
  All VMARs of a system together. Child regions are younger than their parents, so the descent of
  \<open>locate\<close> returns; every operation of the manager keeps the invariant of every VMAR.
\<close>

subsection \<open>The invariant\<close>

definition mapping_layout :: "vmar_mapping \<Rightarrow> bool" where
  "mapping_layout m \<longleftrightarrow>
     (\<exists>segment. classify_range (map_range m) = Some segment \<and> \<not> is_guard segment \<and>
        allows_mmu (max_flags segment) (map_flags m) \<and>
        (contains (map_flags m) VM_FLAG_GLOBAL \<longrightarrow> is_user segment \<or> is_resident (map_purpose m))) \<and>
     (contains (map_flags m) VM_FLAG_DEVICE \<longrightarrow> map_purpose m = DeviceMmio)"

definition entry_ok :: "vmar set \<Rightarrow> vmar \<Rightarrow> vmar_entry \<Rightarrow> bool" where
  "entry_ok V v e \<longleftrightarrow>
     (case e of
        Guard r \<Rightarrow> \<exists>segment. classify_range r = Some segment \<and> is_guard segment
      | vmar_entry.Mapping m \<Rightarrow> mapping_layout m
      | Region r c \<Rightarrow> c \<in> V \<and> vmar_range c = r \<and> vmar_id v < vmar_id c)"

definition space_ok :: "vmar set \<Rightarrow> vmar_world \<Rightarrow> bool" where
  "space_ok V vw \<longleftrightarrow> inj_on vmar_id V \<and>
     (\<forall>v \<in> V. vmar_id v < next_vmar vw \<and> vmar_ok v (vmar_state_of vw v) \<and>
        (\<forall>p e. bt_get (entries (vmar_state_of vw v)) p = Some e \<longrightarrow> entry_ok V v e))"

lemma space_okD:
  assumes "space_ok V vw" and "v \<in> V"
  shows "vmar_ok v (vmar_state_of vw v)" "vmar_id v < next_vmar vw"
    "bt_get (entries (vmar_state_of vw v)) p = Some e \<Longrightarrow> entry_ok V v e"
  using assms by (auto simp: space_ok_def)

lemma vmar_state_of_set: "vmar_state_of (set_vmar_state vw v st) u = (if vmar_id u = vmar_id v then st else vmar_state_of vw u)"
  by (simp add: vmar_state_of_def set_vmar_state_def)

lemma vmar_state_of_other:
  assumes "space_ok V vw" and "v \<in> V" and "u \<in> V"
  shows "u = v \<or> vmar_state_of (set_vmar_state vw v st) u = vmar_state_of vw u"
  using assms by (auto simp: vmar_state_of_set space_ok_def inj_on_def)

lemma next_vmar_set [simp]: "next_vmar (set_vmar_state vw v st) = next_vmar vw"
  by (simp add: set_vmar_state_def)

lemma space_ok_set:
  assumes ok: "space_ok V vw" and v: "v \<in> V" and st: "vmar_ok v st"
    and es: "\<And>p e. bt_get (entries st) p = Some e \<Longrightarrow> entry_ok V v e"
  shows "space_ok V (set_vmar_state vw v st)"
  unfolding space_ok_def
proof (intro conjI ballI)
  show inj: "inj_on vmar_id V" using ok by (simp add: space_ok_def)
  fix u assume u: "u \<in> V"
  show "vmar_id u < next_vmar (set_vmar_state vw v st)" using space_okD(2) [OF ok u] by simp
  show "vmar_ok u (vmar_state_of (set_vmar_state vw v st) u)"
    and "\<forall>p e. bt_get (entries (vmar_state_of (set_vmar_state vw v st) u)) p = Some e \<longrightarrow> entry_ok V u e"
    using inj_onD [OF inj _ u v] st es space_okD(1,3) [OF ok u] by (auto simp: vmar_state_of_set)
qed

lemma space_ok_tree:
  "space_ok V vw \<Longrightarrow> v \<in> V \<Longrightarrow> vmar_ok v ((vmar_state_of vw v)\<lparr>free_tree := t\<rparr>) \<Longrightarrow>
   space_ok V (set_vmar_state vw v ((vmar_state_of vw v)\<lparr>free_tree := t\<rparr>))"
  by (rule space_ok_set) (auto intro: space_okD(3))

subsection \<open>Operations\<close>

lemma space_ok_insert:
  assumes ok: "space_ok V vw" and v: "v \<in> V" and wf: "range_wf (entry_range en)" and en: "entry_ok V v en"
    and st: "insert_entry vw v en = Some (r, vw')"
  shows "space_ok V vw'"
  using space_okD(1) [OF ok v] wf
proof (cases rule: insert_entry_cases)
  case invalid
  with st ok show ?thesis by simp
next
  case (taken t p f)
  with st space_ok_tree [OF ok v taken(6)] show ?thesis by simp
next
  case (inserted t s)
  have "space_ok V (set_vmar_state vw v ((vmar_state_of vw v)
      \<lparr>free_tree := t, entries := bt_insert s en (entries (vmar_state_of vw v))\<rparr>))"
    using space_okD(3) [OF ok v] en
    by (intro space_ok_set [OF ok v inserted(6)]) (auto simp: bt_get_insert split: if_splits)
  with inserted(5) st show ?thesis by simp
qed

lemma space_ok_unmap:
  assumes ok: "space_ok V vw" and v: "v \<in> V" and st: "unmap vw v a = Some (r, vw')"
  shows "space_ok V vw'"
  using space_okD(1) [OF ok v]
proof (cases rule: unmap_cases [of v vw a])
  case (removed p e t)
  have "space_ok V (set_vmar_state vw v
      ((vmar_state_of vw v)\<lparr>entries := bt_remove p (entries (vmar_state_of vw v)), free_tree := t\<rparr>))"
    using space_okD(3) [OF ok v]
    by (intro space_ok_set [OF ok v removed(4)]) (auto simp: bt_get_remove split: if_splits)
  with removed(3) st show ?thesis by simp
qed (use st ok in simp_all)

lemma validate_layout_mapping: "validate_layout w m \<Longrightarrow> mapping_layout m"
  by (auto simp: validate_layout_def mapping_layout_def split: option.splits if_splits)

lemma space_ok_map:
  assumes "space_ok V vw" and "v \<in> V" and "range_wf r"
    and "map_vmo w vw v r x off flags purpose = Some (res, vw')"
  shows "space_ok V vw'"
proof -
  let ?m = "\<lparr>map_range = r, map_flags = flags, map_purpose = purpose, map_vmo = x, map_vmo_offset = off\<rparr>"
  show ?thesis
  proof (cases "is_page_aligned r \<and> is_multiple_of off (vmo_page_size x) \<and> validate_layout w ?m")
    case True
    then have "insert_entry vw v (vmar_entry.Mapping ?m) = Some (res, vw')"
      using assms(4) by (simp add: map_vmo_def)
    moreover have "entry_ok V v (vmar_entry.Mapping ?m)"
      using True validate_layout_mapping by (auto simp: entry_ok_def)
    ultimately show ?thesis
      using space_ok_insert [OF assms(1,2), of "vmar_entry.Mapping ?m" res vw'] assms(3) by simp
  next
    case False
    with assms show ?thesis by (auto simp: map_vmo_def Let_def split: if_splits)
  qed
qed

lemma space_ok_guard:
  assumes "space_ok V vw" and "v \<in> V" and "range_wf r" and "map_guard vw v r = Some (res, vw')"
  shows "space_ok V vw'"
  using assms space_ok_insert [OF assms(1,2), of "Guard r"]
  by (auto simp: map_guard_def entry_ok_def split: if_splits option.splits)

lemma protect_cases:
  assumes ok: "vmar_ok v (vmar_state_of vw v)" and wf: "range_wf r"
  obtains (refused) e where "protect w vw v r flags = (Err e, vw)"
      "\<not> (\<exists>p m. bt_get (entries (vmar_state_of vw v)) p = Some (vmar_entry.Mapping m) \<and> map_range m = r \<and>
        validate_layout w (m\<lparr>map_flags := flags\<rparr>))"
  | (changed) p m where "bt_get (entries (vmar_state_of vw v)) p = Some (vmar_entry.Mapping m)" "map_range m = r"
      "validate_layout w (m\<lparr>map_flags := flags\<rparr>)"
      "protect w vw v r flags = (Ok (), set_vmar_state vw v ((vmar_state_of vw v)
         \<lparr>entries := bt_insert p (vmar_entry.Mapping (m\<lparr>map_flags := flags\<rparr>)) (entries (vmar_state_of vw v))\<rparr>))"
proof (cases "\<exists>p m. bt_get (entries (vmar_state_of vw v)) p = Some (vmar_entry.Mapping m) \<and> map_range m = r \<and>
    validate_layout w (m\<lparr>map_flags := flags\<rparr>)")
  case True
  let ?st = "vmar_state_of vw v"
  note o = vmar_okD [OF ok] and eo = entries_okD [OF vmar_okD(3) [OF ok]]
  from True obtain p m where m: "bt_get (entries ?st) p = Some (vmar_entry.Mapping m)" "map_range m = r"
    "validate_layout w (m\<lparr>map_flags := flags\<rparr>)" by blast
  have al: "aligned_wf r" and co: "contains_range (vmar_range v) r" and st: "range_start r = page_addr v p"
    using eo(2-4) [OF m(1)] m(2) by simp_all
  obtain s e where se: "page_span v r = Some (s, e)" "range_start r = page_addr v s"
    using span_ok [OF o(1) al co] by metis
  then have s: "s = p" using st by simp
  have c: "range_contains (vmar_range v) (range_start r)"
    using co aligned_wfD(1) [OF al] by (auto simp: contains_range_def range_contains_def)
  have i: "page_index v (range_start r) = Some p"
    using se s by (auto simp: page_span_def Let_def split: option.splits if_splits)
  have "find_entry v ?st p = Some (p, vmar_entry.Mapping m)"
    using find_entry_iff [OF ok i] st m(1,2) aligned_wfD(1) [OF al] by (simp add: range_contains_def)
  then have "protect w vw v r flags = (Ok (), set_vmar_state vw v
      (?st\<lparr>entries := bt_insert p (vmar_entry.Mapping (m\<lparr>map_flags := flags\<rparr>)) (entries ?st)\<rparr>))"
    using se s m aligned_wfD(6) [OF al] by (simp add: protect_def Let_def)
  with m show thesis by (rule changed)
next
  case False
  let ?st = "vmar_state_of vw v"
  have "\<exists>e. protect w vw v r flags = (Err e, vw)"
  proof (cases "is_page_aligned r \<and> page_span v r \<noteq> None")
    case True
    then obtain s e where se: "page_span v r = Some (s, e)" and al: "is_page_aligned r" by auto
    then have i: "page_index v (range_start r) = Some s"
      by (auto simp: page_span_def Let_def split: option.splits if_splits)
    then have c: "range_contains (vmar_range v) (range_start r)" by (auto simp: page_index_def split: if_splits)
    obtain s' where s': "page_index v (range_start r) = Some s'" "page_addr v s' \<le> range_start r" "range_start r < page_addr v (s' + 1)"
      using page_index_addr [OF vmar_okD(1) [OF ok] c] by metis
    then have fe: "find_entry v ?st s = Some (q, en) \<Longrightarrow> bt_get (entries ?st) q = Some en" for q en
      using find_entry_iff [OF ok s'(1,2,3)] i by auto
    show ?thesis
      using al se False fe
      by (auto simp: protect_def Let_def split: option.splits vmar_entry.splits)
  next
    case False
    then show ?thesis by (cases "page_span v r"; cases "is_page_aligned r") (simp_all add: protect_def)
  qed
  then show thesis using refused False by blast
qed

lemma vmar_ok_flags:
  assumes ok: "vmar_ok v st" and m: "bt_get (entries st) p = Some (vmar_entry.Mapping m)"
  shows "vmar_ok v (st\<lparr>entries := bt_insert p (vmar_entry.Mapping (m\<lparr>map_flags := flags\<rparr>)) (entries st)\<rparr>)"
proof -
  let ?en = "vmar_entry.Mapping (m\<lparr>map_flags := flags\<rparr>)"
  note eo = entries_okD [OF vmar_okD(3) [OF ok]]
  have get: "bt_get (bt_insert p ?en (entries st)) q = (if q = p then Some ?en else bt_get (entries st) q)" for q
    by (rule bt_get_insert)
  have "entries_ok v (bt_insert p ?en (entries st))"
    unfolding entries_ok_def
  proof (intro conjI allI impI)
    show "bt_wf (bt_insert p ?en (entries st))" by (rule bt_wf_insert [OF eo(1)])
  next
    fix q f assume "bt_get (bt_insert p ?en (entries st)) q = Some f"
    then show "aligned_wf (entry_range f)" "contains_range (vmar_range v) (entry_range f)"
      "range_start (entry_range f) = page_addr v q"
      using eo(2-4) eo(2-4) [OF m] by (auto simp: get split: if_splits)
  next
    fix q q' f g assume "q \<noteq> q'" "bt_get (bt_insert p ?en (entries st)) q = Some f" "bt_get (bt_insert p ?en (entries st)) q' = Some g"
    then show "\<not> overlaps (entry_range f) (entry_range g)"
      using eo(5) eo(5) [OF _ m] eo(5) [OF _ _ m] by (auto simp: get split: if_splits)
  qed
  moreover have "page_free v (st\<lparr>entries := bt_insert p ?en (entries st)\<rparr>) i = page_free v st i" for i
    using m by (simp add: page_free_def entry_at_def get) (metis entry_range.simps(2) option.inject)
  then have "page_free v (st\<lparr>entries := bt_insert p ?en (entries st)\<rparr>) = page_free v st" by (rule ext)
  ultimately show ?thesis using vmar_okD [OF ok] by (simp add: vmar_ok_def)
qed

lemma space_ok_protect:
  assumes ok: "space_ok V vw" and v: "v \<in> V" and wf: "range_wf r" and st: "protect w vw v r flags = (res, vw')"
  shows "space_ok V vw'"
  using space_okD(1) [OF ok v] wf
proof (cases rule: protect_cases [of v vw r w flags])
  case (changed p m)
  have "space_ok V (set_vmar_state vw v ((vmar_state_of vw v)
      \<lparr>entries := bt_insert p (vmar_entry.Mapping (m\<lparr>map_flags := flags\<rparr>)) (entries (vmar_state_of vw v))\<rparr>))"
    using space_okD(3) [OF ok v] validate_layout_mapping [OF changed(3)]
    by (intro space_ok_set [OF ok v vmar_ok_flags [OF space_okD(1) [OF ok v] changed(1)]])
      (auto simp: bt_get_insert entry_ok_def split: if_splits)
  with changed(4) st show ?thesis by simp
qed (use st ok in simp)

subsection \<open>New VMARs\<close>

lemma vmar_new_ok:
  assumes "aligned_wf r"
  obtains st where "vmar_new vw r = Some (Vmar (next_vmar vw) r,
      (set_vmar_state vw (Vmar (next_vmar vw) r) st)\<lparr>next_vmar := next_vmar vw + 1\<rparr>)"
    and "vmar_ok (Vmar (next_vmar vw) r) st" "entries st = []"
proof -
  let ?n = "range_len r div PAGE_SIZE" and ?v = "Vmar (next_vmar vw) r"
  have len: "PAGE_SIZE dvd range_len r" "0 < range_len r"
    using aligned_wfD [OF assms] by (simp_all add: range_len_def)
  have n: "0 < ?n" using len by (auto elim!: dvdE)
  then have mx: "max ?n 1 = ?n" by simp
  have u: "node_fill node_free = Some True" by (simp add: node_free_def)
  obtain t where t: "update vmar_ops (segment_tree_new 0 (max ?n 1)) 0 ?n node_free = Some (Ok t)"
      "free_map (\<lambda>_. True) t" "dom_start t = 0" "dom_end t = ?n"
    using vn.update_init_rep [of "segment_tree_new 0 ?n" node_free True] n u
    unfolding mx by (auto simp: segment_tree_new_def)
  let ?st = "\<lparr>page_count = ?n, free_tree = t, entries = []\<rparr>"
  have "vmar_state_new ?n = Some ?st"
    using n t(1) unfolding mx by (simp add: vmar_state_new_def expect_ok_def)
  moreover have "page_free ?v ?st = (\<lambda>_. True)" by (rule ext) (simp add: page_free_def entry_at_def bt_get_def)
  then have "vmar_ok ?v ?st" using t assms by (simp add: vmar_ok_def entries_ok_def bt_get_def)
  ultimately show thesis using that [of ?st] by (simp add: vmar_new_def Let_def)
qed

lemma entry_ok_mono: "entry_ok V v e \<Longrightarrow> V \<subseteq> V' \<Longrightarrow> entry_ok V' v e"
  by (auto simp: entry_ok_def split: vmar_entry.splits)

lemma space_ok_fresh:
  assumes ok: "space_ok V vw" and st: "vmar_ok v st" "entries st = []" and v: "vmar_id v = next_vmar vw"
  shows "space_ok (insert v V) ((set_vmar_state vw v st)\<lparr>next_vmar := next_vmar vw + 1\<rparr>)" (is "space_ok _ ?vw")
  unfolding space_ok_def
proof (intro conjI ballI)
  have lt: "vmar_id u < next_vmar vw" if "u \<in> V" for u using space_okD(2) [OF ok that] .
  then show "inj_on vmar_id (insert v V)" using ok v by (force simp: space_ok_def inj_on_def)
  fix u assume u: "u \<in> insert v V"
  have same: "vmar_state_of ?vw u = vmar_state_of vw u" if "u \<in> V"
    using lt [OF that] v by (simp add: vmar_state_of_def set_vmar_state_def)
  have self: "vmar_state_of ?vw v = st" by (simp add: vmar_state_of_def set_vmar_state_def)
  show "vmar_id u < next_vmar ?vw" using u lt v by (auto simp: less_SucI)
  show "vmar_ok u (vmar_state_of ?vw u)"
    using u same self st(1) space_okD(1) [OF ok] by (cases "u \<in> V") auto
  show "\<forall>p e. bt_get (entries (vmar_state_of ?vw u)) p = Some e \<longrightarrow> entry_ok (insert v V) u e"
  proof (cases "u \<in> V")
    case True
    then show ?thesis using same space_okD(3) [OF ok True] entry_ok_mono [of V u _ "insert v V"] by auto
  next
    case False
    then show ?thesis using u self st by (simp add: bt_get_def)
  qed
qed

text \<open>A child VMAR is created when its range is free, and the manager is unchanged otherwise up to the
  shape of the free-space tree.\<close>

lemma allocate_child_cases:
  assumes ok: "space_ok V vw" and v: "v \<in> V" and wf: "range_wf r"
  obtains (invalid) "\<not> (is_page_aligned r \<and> contains_range (vmar_range v) r)"
      "allocate_child vw v r = Some (Err InvalidRange, vw)"
  | (taken) vw' p f where "bt_get (entries (vmar_state_of vw v)) p = Some f" "overlaps (entry_range f) r"
      "allocate_child vw v r = Some (Err AlreadyMapped, vw')" "space_ok V vw'"
      "\<forall>u \<in> V. entries (vmar_state_of vw' u) = entries (vmar_state_of vw u)"
  | (created) vw' c s where "aligned_wf r" "contains_range (vmar_range v) r"
      "\<forall>p f. bt_get (entries (vmar_state_of vw v)) p = Some f \<longrightarrow> \<not> overlaps (entry_range f) r"
      "range_start r = page_addr v s" "c \<notin> V" "vmar_range c = r" "entries (vmar_state_of vw' c) = []"
      "allocate_child vw v r = Some (Ok c, vw')" "space_ok (insert c V) vw'"
      "entries (vmar_state_of vw' v) = bt_insert s (Region r c) (entries (vmar_state_of vw v))"
      "\<forall>u \<in> V - {v}. vmar_state_of vw' u = vmar_state_of vw u"
proof (cases "is_page_aligned r \<and> contains_range (vmar_range v) r")
  case False
  then have "allocate_child vw v r = Some (Err InvalidRange, vw)"
    by (auto simp: allocate_child_def validate_child_range_def)
  with False show thesis by (rule invalid)
next
  case True
  with wf have al: "aligned_wf r" by (simp add: aligned_wf_def)
  let ?c = "Vmar (next_vmar vw) r"
  obtain st where st: "vmar_new vw r = Some (?c, (set_vmar_state vw ?c st)\<lparr>next_vmar := next_vmar vw + 1\<rparr>)"
      "vmar_ok ?c st" "entries st = []"
    using vmar_new_ok [OF al] by metis
  let ?vw = "(set_vmar_state vw ?c st)\<lparr>next_vmar := next_vmar vw + 1\<rparr>"
  have ok1: "space_ok (insert ?c V) ?vw" by (rule space_ok_fresh [OF ok st(2,3)]) simp
  have same: "vmar_state_of ?vw u = vmar_state_of vw u" if "u \<in> V" for u
    using space_okD(2) [OF ok that] by (simp add: vmar_state_of_def set_vmar_state_def)
  have cV: "?c \<notin> V" using space_okD(2) [OF ok] by fastforce
  have vc: "vmar_id v < next_vmar vw" by (rule space_okD(2) [OF ok v])
  have self: "vmar_state_of ?vw ?c = st" by (simp add: vmar_state_of_def set_vmar_state_def)
  have inj: "vmar_id u = vmar_id v \<Longrightarrow> u = v" if "u \<in> V" for u
    using ok that v by (auto simp: space_ok_def inj_on_def)
  have enok: "entry_ok (insert ?c V) v (Region r ?c)" using vc by (simp add: entry_ok_def)
  have run: "allocate_child vw v r = do {
      (res, vw2) \<leftarrow> insert_entry ?vw v (Region r ?c);
      (case res of Inl e \<Rightarrow> Some (Err e, vw2) | Inr _ \<Rightarrow> Some (Ok ?c, vw2)) }"
    using True st(1) by (simp add: allocate_child_def validate_child_range_def)
  have vok: "vmar_ok v (vmar_state_of ?vw v)" using space_okD(1) [OF ok1] v by simp
  from vok wf have "range_wf (entry_range (Region r ?c))" by simp
  with vok show thesis
  proof (cases rule: insert_entry_cases)
    case invalid
    with True show thesis by simp
  next
    case (taken t p f)
    let ?vw2 = "set_vmar_state ?vw v ((vmar_state_of ?vw v)\<lparr>free_tree := t\<rparr>)"
    have ent: "\<forall>u \<in> V. entries (vmar_state_of ?vw2 u) = entries (vmar_state_of vw u)"
      using same v by (auto simp: vmar_state_of_set dest: inj)
    have "space_ok V ?vw2"
      unfolding space_ok_def
    proof (intro conjI ballI)
      show "inj_on vmar_id V" using ok by (simp add: space_ok_def)
      fix u assume u: "u \<in> V"
      show "vmar_id u < next_vmar ?vw2" using space_okD(2) [OF ok u] by simp
      show "vmar_ok u (vmar_state_of ?vw2 u)"
        using u taken(6) inj [OF u] same [OF u] space_okD(1) [OF ok u] by (auto simp: vmar_state_of_set)
      show "\<forall>p e. bt_get (entries (vmar_state_of ?vw2 u)) p = Some e \<longrightarrow> entry_ok V u e"
        using ent u space_okD(3) [OF ok u] by auto
    qed
    moreover have "allocate_child vw v r = Some (Err AlreadyMapped, ?vw2)" using run taken(5) by simp
    ultimately show thesis using that(2) [of p f ?vw2] ent taken(3,4) same [OF v] by simp
  next
    case (inserted t s)
    let ?vw2 = "set_vmar_state ?vw v ((vmar_state_of ?vw v)
        \<lparr>free_tree := t, entries := bt_insert s (Region r ?c) (entries (vmar_state_of ?vw v))\<rparr>)"
    have "space_ok (insert ?c V) ?vw2"
      using space_ok_insert [OF ok1 _ _ enok inserted(5)] v wf by simp
    moreover have "allocate_child vw v r = Some (Ok ?c, ?vw2)" using run inserted(5) by simp
    moreover have "entries (vmar_state_of ?vw2 ?c) = []" using vc self st(3) by (simp add: vmar_state_of_set)
    moreover have "\<forall>u \<in> V - {v}. vmar_state_of ?vw2 u = vmar_state_of vw u"
      using same inj by (auto simp: vmar_state_of_set)
    moreover have "entries (vmar_state_of ?vw2 v) = bt_insert s (Region r ?c) (entries (vmar_state_of vw v))"
      using same [OF v] by (simp add: vmar_state_of_set)
    ultimately show thesis
      using that(3) [of s ?c ?vw2] inserted(1-4) cV same [OF v] by simp
  qed
qed

end
