(* ===== verification/Vmar_Access.thy ===== *)
theory Vmar_Access
  imports Vmar_World
begin

text \<open>
  What the operations of the address-region manager guarantee: reachable states keep the invariant,
  allocation is first fit, \<open>locate\<close> returns and finds the mapping that covers an address, and mapping,
  protecting and unmapping change exactly the range they are given.
\<close>

subsection \<open>First fit\<close>

text \<open>A gap of \<open>sz\<close> bytes at address \<open>a\<close>: page aligned, inside the VMAR, clear of all entries.\<close>

definition gap_at :: "vmar_world \<Rightarrow> vmar \<Rightarrow> usize \<Rightarrow> virt_addr \<Rightarrow> bool" where
  "gap_at vw v sz a \<longleftrightarrow> PAGE_SIZE dvd a \<and> contains_range (vmar_range v) \<lparr>range_start = a, range_end = a + sz\<rparr> \<and>
     (\<forall>p f. bt_get (entries (vmar_state_of vw v)) p = Some f \<longrightarrow>
        \<not> overlaps (entry_range f) \<lparr>range_start = a, range_end = a + sz\<rparr>)"

lemma gap_fits:
  assumes ok: "vmar_ok v (vmar_state_of vw v)" and sz: "0 < sz" "PAGE_SIZE dvd sz"
  shows "fits (page_free v (vmar_state_of vw v)) 0 (page_count (vmar_state_of vw v)) (sz div PAGE_SIZE) p \<longleftrightarrow>
    gap_at vw v sz (page_addr v p)"
    and "gap_at vw v sz a \<Longrightarrow> \<exists>p. a = page_addr v p"
proof -
  let ?st = "vmar_state_of vw v" and ?n = "sz div PAGE_SIZE"
  note o = vmar_okD [OF ok] and vw = aligned_wfD [OF vmar_okD(1) [OF ok]]
  have rlen: "range_end (vmar_range v) = page_addr v (page_count ?st)"
    using vw(1,3,4) o(2) by (simp add: page_addr_def range_len_def dvd_diff_nat)
  have nsz: "sz = ?n * PAGE_SIZE" using sz by simp
  have add: "page_addr v q + sz = page_addr v (q + ?n)" for q
    using nsz by (simp add: page_addr_def algebra_simps)
  have al: "aligned_wf \<lparr>range_start = page_addr v q, range_end = page_addr v q + sz\<rparr>"
    if "q + ?n \<le> page_count ?st" for q
  proof -
    have "page_addr v q + sz \<le> usize_max"
      using that rlen vw(2) add [of q] page_addr_mono(2) [of v "q + ?n" "page_count ?st"] by linarith
    then show ?thesis
      using sz vw(3) by (simp add: aligned_wf_def range_wf_def is_page_aligned_def is_multiple_of_dvd page_addr_def)
  qed
  show "fits (page_free v ?st) 0 (page_count ?st) ?n p \<longleftrightarrow> gap_at vw v sz (page_addr v p)"
  proof (cases "p + ?n \<le> page_count ?st")
    case True
    let ?r = "\<lparr>range_start = page_addr v p, range_end = page_addr v p + sz\<rparr>"
    have c: "contains_range (vmar_range v) ?r"
      using True rlen add by (simp add: contains_range_def) (simp add: page_addr_def)
    have d: "PAGE_SIZE dvd page_addr v p" using vw(3) by (simp add: page_addr_def)
    have "fits (page_free v ?st) 0 (page_count ?st) ?n p \<longleftrightarrow> (\<forall>i. p \<le> i \<and> i < p + ?n \<longrightarrow> page_free v ?st i)"
      using True by (simp add: fits_def)
    also have "\<dots> \<longleftrightarrow> (\<forall>q f. bt_get (entries ?st) q = Some f \<longrightarrow> \<not> overlaps (entry_range f) ?r)"
      using range_free_iff [OF ok al [OF True] c, of p "p + ?n"] add by simp
    finally show ?thesis using c d by (simp add: gap_at_def)
  next
    case False
    then have "\<not> contains_range (vmar_range v) \<lparr>range_start = page_addr v p, range_end = page_addr v p + sz\<rparr>"
      using rlen add by (simp add: contains_range_def)
    with False show ?thesis by (auto simp: gap_at_def fits_def)
  qed
  assume "gap_at vw v sz a"
  then have le: "range_start (vmar_range v) \<le> a" and "PAGE_SIZE dvd a - range_start (vmar_range v)"
    using vw(3) by (auto simp: gap_at_def contains_range_def dvd_diff_nat)
  then obtain k where "a - range_start (vmar_range v) = PAGE_SIZE * k" by (auto elim!: dvdE)
  with le have "a = page_addr v k" by (simp add: page_addr_def)
  then show "\<exists>p. a = page_addr v p" by blast
qed

lemma query_keeps_space:
  assumes ok: "space_ok V vw" and v: "v \<in> V" and t: "free_map (page_free v (vmar_state_of vw v)) t"
    "dom_start t = 0" "dom_end t = page_count (vmar_state_of vw v)"
  shows "space_ok V (set_vmar_state vw v ((vmar_state_of vw v)\<lparr>free_tree := t\<rparr>))"
  using vmar_okD [OF space_okD(1) [OF ok v]] t
  by (intro space_ok_tree [OF ok v] vmar_ok_tree [OF space_okD(1) [OF ok v]]) simp_all

lemma gap_at_tree [simp]: "gap_at (set_vmar_state vw v ((vmar_state_of vw v)\<lparr>free_tree := t\<rparr>)) v sz a = gap_at vw v sz a"
  by (simp add: gap_at_def vmar_state_of_set)

lemma allocate_child_any_ok:
  assumes ok: "space_ok V vw" and v: "v \<in> V" and sz: "0 < sz" "PAGE_SIZE dvd sz"
  obtains (full) vw' where "\<not> (\<exists>a. gap_at vw v sz a)" "allocate_child_any vw v sz = Some (Err NotMapped, vw')"
      "space_ok V vw'" "\<forall>u \<in> V. entries (vmar_state_of vw' u) = entries (vmar_state_of vw u)"
  | (created) vw' c s where "gap_at vw v sz (range_start (vmar_range c))" "range_len (vmar_range c) = sz"
      "\<forall>a. gap_at vw v sz a \<longrightarrow> range_start (vmar_range c) \<le> a"
      "allocate_child_any vw v sz = Some (Ok c, vw')" "space_ok (insert c V) vw'" "c \<notin> V"
      "entries (vmar_state_of vw' c) = []" "range_start (vmar_range c) = page_addr v s"
      "entries (vmar_state_of vw' v) = bt_insert s (Region (vmar_range c) c) (entries (vmar_state_of vw v))"
      "\<forall>u \<in> V - {v}. vmar_state_of vw' u = vmar_state_of vw u"
proof -
  let ?st = "vmar_state_of vw v" and ?n = "sz div PAGE_SIZE"
  note vok = space_okD(1) [OF ok v]
  note o = vmar_okD [OF vok]
  have n: "0 < ?n" using sz by (auto elim!: dvdE)
  have pc: "0 < page_count ?st" 
    using o(2) aligned_wfD(1,3,4) [OF o(1)] by (auto simp: range_len_def elim!: dvdE)
  note gf = gap_fits [OF vok sz]
  obtain q t where q: "query vmar_ops (free_tree ?st) 0 (page_count ?st) = Some (Ok (q, t))"
      "vmar_summ q (map (page_free v ?st) [0..<page_count ?st])" "free_map (page_free v ?st) t"
      "dom_start t = 0" "dom_end t = page_count ?st"
    using vn.query_tree_rep [OF o(6), of 0 "page_count ?st"] o(4,5) pc by auto
  have mx: "max_free q < ?n \<longleftrightarrow> \<not> (\<exists>a. gap_at vw v sz a)"
    using max_run_fits [of 0 "page_count ?st" ?n "page_free v ?st"] q(2) n gf by (auto simp: vmar_summ_def not_le)
  have head: "allocate_child_any vw v sz =
      (if max_free q < ?n then Some (Err NotMapped, set_vmar_state vw v (?st\<lparr>free_tree := t\<rparr>))
       else do {
         (found, t2) \<leftarrow> find_first_fit t 0 (page_count ?st) ?n;
         let vw2 = set_vmar_state vw v (?st\<lparr>free_tree := t2\<rparr>);
         (case found of
            None \<Rightarrow> Some (Err NotMapped, vw2)
          | Some p \<Rightarrow>
              (case checked_add (page_addr v p) sz of
                 None \<Rightarrow> Some (Err InvalidRange, vw2)
               | Some e \<Rightarrow>
                   (case vm_range_new (page_addr v p) e of
                      None \<Rightarrow> Some (Err InvalidRange, vw2)
                    | Some r \<Rightarrow> allocate_child vw2 v r)))
       })"
    using sz q(1) unfolding page_addr_def allocate_child_any_def Let_def
    by (simp add: expect_ok_def is_multiple_of_dvd)
  show thesis
  proof (cases "max_free q < ?n")
    case True
    let ?vw = "set_vmar_state vw v (?st\<lparr>free_tree := t\<rparr>)"
    have "space_ok V ?vw" by (rule query_keeps_space [OF ok v q(3-5)])
    moreover have "\<forall>u \<in> V. entries (vmar_state_of ?vw u) = entries (vmar_state_of vw u)"
      using ok v by (auto simp: vmar_state_of_set space_ok_def dest: inj_onD)
    ultimately show thesis using full [of ?vw] True mx head by simp
  next
    case False
    obtain r t2 where f: "find_first_fit t 0 (page_count ?st) ?n = Some (r, t2)"
        "first_fit (page_free v ?st) 0 (page_count ?st) ?n r" "free_map (page_free v ?st) t2"
        "dom_start t2 = dom_start t" "dom_end t2 = dom_end t"
      using find_first_fit_ok [OF q(3), of 0 "page_count ?st" ?n] q(4,5) n by auto
    from False mx obtain a where "gap_at vw v sz a" by blast
    with gf have "\<exists>p. fits (page_free v ?st) 0 (page_count ?st) ?n p" by blast
    with f(2) obtain p where p: "r = Some p" by (cases r) (auto simp: first_fit_def)
    have gp: "gap_at vw v sz (page_addr v p)"
      and least': "\<And>q. gap_at vw v sz (page_addr v q) \<Longrightarrow> page_addr v p \<le> page_addr v q"
      using f(2) p gf(1) by (auto simp: first_fit_def)
    have least: "\<forall>a. gap_at vw v sz a \<longrightarrow> page_addr v p \<le> a" using least' gf(2) by blast
    let ?vw = "set_vmar_state vw v (?st\<lparr>free_tree := t2\<rparr>)"
      and ?r = "\<lparr>range_start = page_addr v p, range_end = page_addr v p + sz\<rparr>"
    have ok2: "space_ok V ?vw" using query_keeps_space [OF ok v f(3)] f(4,5) q(4,5) by simp
    have cr: "contains_range (vmar_range v) ?r" and dv: "PAGE_SIZE dvd page_addr v p"
      and no: "\<forall>q f. bt_get (entries ?st) q = Some f \<longrightarrow> \<not> overlaps (entry_range f) ?r"
      using gp by (auto simp: gap_at_def)
    have le: "page_addr v p + sz \<le> usize_max"
      using cr aligned_wfD(2) [OF o(1)] by (simp add: contains_range_def)
    have wf: "range_wf ?r" using sz le by (simp add: range_wf_def)
    have run: "allocate_child_any vw v sz = allocate_child ?vw v ?r"
      using False f(1) p le sz by (simp add: head Let_def checked_add_def vm_range_new_def)
    have al: "is_page_aligned ?r" using dv sz by (simp add: is_page_aligned_def is_multiple_of_dvd)
    from ok2 v wf show thesis
    proof (cases rule: allocate_child_cases)
      case invalid
      with al cr show thesis by simp
    next
      case (taken vw' p f)
      with no show thesis by (auto simp: vmar_state_of_set)
    next
      case (created vw' c s)
      show thesis
      proof (rule that(2))
        show "gap_at vw v sz (range_start (vmar_range c))" "range_len (vmar_range c) = sz"
          "\<forall>a. gap_at vw v sz a \<longrightarrow> range_start (vmar_range c) \<le> a"
          using gp least created(6) by (simp_all add: range_len_def)
        show "allocate_child_any vw v sz = Some (Ok c, vw')" using run created(8) by simp
        show "entries (vmar_state_of vw' v) = bt_insert s (Region (vmar_range c) c) (entries ?st)"
          using created(6,10) by (simp add: vmar_state_of_set)
        show "\<forall>u \<in> V - {v}. vmar_state_of vw' u = vmar_state_of vw u"
          using created(11) vmar_state_of_other [OF ok v] by (metis Diff_iff insertI1)
        show "range_start (vmar_range c) = page_addr v s" using created(4,6) by simp
      qed (use created in simp_all)
    qed
  qed
qed

text \<open>C15: \<open>allocate_child_any\<close> returns. It refuses a size that is zero or no multiple of the page size
  and changes nothing; for every other size it creates an empty child VMAR at the lowest page-aligned gap
  of that size, and refuses exactly when the VMAR has no such gap. The new child is entered in its parent
  over the gap, all other entries of the parent and the entries of every other VMAR stay, and a refusal
  leaves every entry as it was.\<close>

theorem allocate_child_any_first_fit:
  assumes "space_ok V vw" and "v \<in> V"
  shows "\<exists>res vw'. allocate_child_any vw v sz = Some (res, vw') \<and>
    (case res of
       Inl e \<Rightarrow> (if sz = 0 \<or> \<not> PAGE_SIZE dvd sz then e = InvalidRange \<and> vw' = vw
                else e = NotMapped \<and> \<not> (\<exists>a. gap_at vw v sz a)) \<and> space_ok V vw' \<and>
         (\<forall>u \<in> V. entries (vmar_state_of vw' u) = entries (vmar_state_of vw u))
     | Inr c \<Rightarrow> 0 < sz \<and> PAGE_SIZE dvd sz \<and>
         gap_at vw v sz (range_start (vmar_range c)) \<and> range_len (vmar_range c) = sz \<and>
         (\<forall>a. gap_at vw v sz a \<longrightarrow> range_start (vmar_range c) \<le> a) \<and>
         c \<notin> V \<and> entries (vmar_state_of vw' c) = [] \<and> space_ok (insert c V) vw' \<and>
         (\<exists>s. range_start (vmar_range c) = page_addr v s \<and>
            (\<forall>p. bt_get (entries (vmar_state_of vw' v)) p =
               (if p = s then Some (Region (vmar_range c) c) else bt_get (entries (vmar_state_of vw v)) p))) \<and>
         (\<forall>u \<in> V - {v}. vmar_state_of vw' u = vmar_state_of vw u))"
proof (cases "0 < sz \<and> PAGE_SIZE dvd sz")
  case True
  then have sz: "0 < sz" "PAGE_SIZE dvd sz" by simp_all
  from assms sz show ?thesis
  proof (cases rule: allocate_child_any_ok)
    case (full vw')
    with sz show ?thesis by auto
  next
    case (created vw' c s)
    have get: "\<forall>p. bt_get (entries (vmar_state_of vw' v)) p =
        (if p = s then Some (Region (vmar_range c) c) else bt_get (entries (vmar_state_of vw v)) p)"
      unfolding created(9) by (simp add: bt_get_insert)
    show ?thesis
      using created(1-3,5-8,10) sz get
      by (intro exI [of _ "Inr c"] exI [of _ vw'] conjI created(4)) (simp only: sum.case, blast)
  qed
next
  case False
  then have "allocate_child_any vw v sz = Some (Err InvalidRange, vw)"
    by (auto simp: allocate_child_any_def is_multiple_of_dvd)
  with False assms(1) show ?thesis by auto
qed

subsection \<open>Reachable states\<close>

text \<open>The calls on an address space; ranges are well formed as \<open>VmRange::new\<close> makes them. The
  memory objects may change in any way between the calls.\<close>

inductive vmar_step :: "'s vm_world \<times> vmar set \<times> vmar_world \<Rightarrow> 's vm_world \<times> vmar set \<times> vmar_world \<Rightarrow> bool" where
  new: "vmar_new vw r = Some (c, vw') \<Longrightarrow> aligned_wf r \<Longrightarrow> vmar_step (w, V, vw) (w, insert c V, vw')"
| child: "v \<in> V \<Longrightarrow> range_wf r \<Longrightarrow> allocate_child vw v r = Some (Ok c, vw') \<Longrightarrow> vmar_step (w, V, vw) (w, insert c V, vw')"
| child_error: "v \<in> V \<Longrightarrow> range_wf r \<Longrightarrow> allocate_child vw v r = Some (Err e, vw') \<Longrightarrow> vmar_step (w, V, vw) (w, V, vw')"
| any: "v \<in> V \<Longrightarrow> allocate_child_any vw v sz = Some (Ok c, vw') \<Longrightarrow> vmar_step (w, V, vw) (w, insert c V, vw')"
| any_error: "v \<in> V \<Longrightarrow> allocate_child_any vw v sz = Some (Err e, vw') \<Longrightarrow> vmar_step (w, V, vw) (w, V, vw')"
| map: "v \<in> V \<Longrightarrow> range_wf r \<Longrightarrow> map_vmo w vw v r x off flags purpose = Some (res, vw') \<Longrightarrow>
    vmar_step (w, V, vw) (w, V, vw')"
| guard: "v \<in> V \<Longrightarrow> range_wf r \<Longrightarrow> map_guard vw v r = Some (res, vw') \<Longrightarrow> vmar_step (w, V, vw) (w, V, vw')"
| protect: "v \<in> V \<Longrightarrow> range_wf r \<Longrightarrow> protect w vw v r flags = (res, vw') \<Longrightarrow> vmar_step (w, V, vw) (w, V, vw')"
| unmap: "v \<in> V \<Longrightarrow> unmap vw v a = Some (res, vw') \<Longrightarrow> vmar_step (w, V, vw) (w, V, vw')"
| objects: "vmar_step (w, V, vw) (w', V, vw)"

lemma space_ok_any:
  assumes ok: "space_ok V vw" and v: "v \<in> V" and st: "allocate_child_any vw v sz = Some (res, vw')"
  shows "case res of Inl e \<Rightarrow> space_ok V vw' | Inr c \<Rightarrow> space_ok (insert c V) vw'"
proof (cases "0 < sz \<and> PAGE_SIZE dvd sz")
  case True
  then have sz: "0 < sz" "PAGE_SIZE dvd sz" by simp_all
  show ?thesis
    using ok v sz by (cases rule: allocate_child_any_ok) (use st in auto)
next
  case False
  then have "allocate_child_any vw v sz = Some (Err InvalidRange, vw)"
    by (auto simp: allocate_child_any_def is_multiple_of_dvd)
  with st ok show ?thesis by auto
qed

lemma vmar_step_keeps:
  assumes "vmar_step (w, V, vw) (w', V', vw')" and ok: "space_ok V vw"
  shows "space_ok V' vw'"
  using assms(1)
proof (cases rule: vmar_step.cases)
  case (new r c)
  then obtain st where "vmar_new vw r = Some (Vmar (next_vmar vw) r,
      (set_vmar_state vw (Vmar (next_vmar vw) r) st)\<lparr>next_vmar := next_vmar vw + 1\<rparr>)"
    "vmar_ok (Vmar (next_vmar vw) r) st" "entries st = []"
    using vmar_new_ok by metis
  with new space_ok_fresh [OF ok, of "Vmar (next_vmar vw) r" st] show ?thesis by auto
next
  case (child v r c)
  from ok child(3,4) show ?thesis by (cases rule: allocate_child_cases) (use child ok in auto)
next
  case (child_error v r e)
  from ok child_error(3,4) show ?thesis by (cases rule: allocate_child_cases) (use child_error ok in auto)
next
  case (any v sz c)
  then show ?thesis using space_ok_any [OF ok, of v sz "Inr c" vw'] by simp
next
  case (any_error v sz e)
  then show ?thesis using space_ok_any [OF ok, of v sz "Inl e" vw'] by simp
qed (use ok in \<open>auto intro: space_ok_map space_ok_guard space_ok_protect space_ok_unmap\<close>)

text \<open>C13: in every state reachable from the empty system by creating VMARs over page-aligned ranges and
  by the calls on them, the entries of every VMAR are page aligned, inside the VMAR and pairwise disjoint,
  its free-space tree marks exactly the uncovered pages, child regions are VMARs over the range of their
  entry, guards lie in guard segments, and mappings obey the segment, permission, global and device rules
  of the layout.\<close>

theorem reachable_space_ok:
  assumes "vmar_step\<^sup>*\<^sup>* (w0, {}, vw0) (w, V, vw)"
  shows "space_ok V vw"
  using assms
proof (induction "(w, V, vw)" arbitrary: w V vw rule: rtranclp_induct)
  case base
  show ?case by (simp add: space_ok_def)
next
  case (step s)
  obtain w1 V1 vw1 where s: "s = (w1, V1, vw1)" by (cases s)
  show ?case by (rule vmar_step_keeps [OF step(2) [unfolded s] step(3) [OF s]])
qed

subsection \<open>Resolving addresses\<close>

lemma entry_at_cases:
  obtains "entry_at st a None" | e where "entry_at st a (Some e)"
  by (auto simp: entry_at_def)

lemma entry_at_inside:
  assumes "vmar_ok v st" and "entry_at st a (Some e)"
  shows "range_contains (vmar_range v) a"
proof -
  obtain p where "bt_get (entries st) p = Some e" and a: "range_contains (entry_range e) a"
    using assms(2) by (auto simp: entry_at_def)
  from entries_okD(3) [OF vmar_okD(3) [OF assms(1)] this(1)] a show ?thesis
    by (auto simp: contains_range_def range_contains_def)
qed

lemma locate_outside:
  "\<not> range_contains (vmar_range v) a \<Longrightarrow>
   locate vw v a = Some (case classify a of
     Some segment \<Rightarrow> if is_guard segment then GuardPage else Static segment | None \<Rightarrow> Unmapped)"
  by (subst locate.simps) simp

lemma locate_entry:
  assumes ok: "vmar_ok v (vmar_state_of vw v)" and e: "entry_at (vmar_state_of vw v) a (Some e)"
  shows "locate vw v a = (case e of
      Guard _ \<Rightarrow> Some GuardPage
    | vmar_entry.Mapping m \<Rightarrow> Some (vm_pointer_region.Mapping m)
    | Region _ c \<Rightarrow> locate vw c a)"
proof -
  note c = entry_at_inside [OF ok e]
  obtain p where p: "page_index v a = Some p" "page_addr v p \<le> a" "a < page_addr v (p + 1)"
    using page_index_addr [OF vmar_okD(1) [OF ok] c] by metis
  from e obtain q where "bt_get (entries (vmar_state_of vw v)) q = Some e" and ca: "range_contains (entry_range e) a"
    by (auto simp: entry_at_def)
  then have "find_entry v (vmar_state_of vw v) p = Some (q, e)"
    using find_entry_iff [OF ok p] by blast
  then show ?thesis using c p(1) ca by (subst locate.simps) simp
qed

lemma locate_reserved:
  assumes ok: "vmar_ok v (vmar_state_of vw v)" and a: "range_contains (vmar_range v) a"
    and e: "entry_at (vmar_state_of vw v) a None"
  shows "locate vw v a = Some (Reserved (vmar_range v))"
proof -
  obtain p where p: "page_index v a = Some p" "page_addr v p \<le> a" "a < page_addr v (p + 1)"
    using page_index_addr [OF vmar_okD(1) [OF ok] a] by metis
  have "find_entry v (vmar_state_of vw v) p = None"
  proof (cases "find_entry v (vmar_state_of vw v) p")
    case (Some x)
    then obtain q f where "find_entry v (vmar_state_of vw v) p = Some (q, f)" by (cases x) auto
    with find_entry_iff [OF ok p] e show ?thesis by (auto simp: entry_at_def)
  qed
  then show ?thesis using a p(1) by (subst locate.simps) simp
qed

lemma entry_at_ok:
  "space_ok V vw \<Longrightarrow> v \<in> V \<Longrightarrow> entry_at (vmar_state_of vw v) a (Some e) \<Longrightarrow> entry_ok V v e"
  by (auto simp: entry_at_def dest: space_okD(3))

lemma region_younger:
  assumes ok: "space_ok V vw" and v: "v \<in> V" and e: "entry_at (vmar_state_of vw v) a (Some (Region r c))"
  shows "c \<in> V" "vmar_range c = r" "next_vmar vw - vmar_id c < next_vmar vw - vmar_id v"
proof -
  have c: "c \<in> V" "vmar_range c = r" "vmar_id v < vmar_id c"
    using entry_at_ok [OF ok v e] by (simp_all add: entry_ok_def)
  show "c \<in> V" "vmar_range c = r" by (rule c)+
  show "next_vmar vw - vmar_id c < next_vmar vw - vmar_id v"
    using c(3) space_okD(2) [OF ok c(1)] by linarith
qed

text \<open>Two systems that agree on the entries at an address resolve it alike.\<close>

lemma locate_cong:
  assumes ok: "space_ok V vw" "space_ok V vw'" and v: "v \<in> V"
    and same: "\<And>u oe. u \<in> V \<Longrightarrow> entry_at (vmar_state_of vw' u) a oe \<longleftrightarrow> entry_at (vmar_state_of vw u) a oe"
  shows "locate vw' v a = locate vw v a"
  using v
proof (induction "next_vmar vw - vmar_id v" arbitrary: v rule: less_induct)
  case less
  note o = space_okD(1) [OF ok(1) less.prems] and o' = space_okD(1) [OF ok(2) less.prems]
  show ?case
  proof (cases "range_contains (vmar_range v) a")
    case True
    show ?thesis
    proof (rule entry_at_cases [of "vmar_state_of vw v" a])
      assume "entry_at (vmar_state_of vw v) a None"
      with same [OF less.prems] locate_reserved [OF o True] locate_reserved [OF o' True] show ?thesis by simp
    next
      fix e assume e: "entry_at (vmar_state_of vw v) a (Some e)"
      have "locate vw' c a = locate vw c a" if "e = Region r c" for r c
        using less.hyps [of c] region_younger [OF ok(1) less.prems e [unfolded that]] by blast
      then show ?thesis
        using locate_entry [OF o e] locate_entry [OF o', of a e] e same [OF less.prems]
        by (auto split: vmar_entry.split)
    qed
  qed (simp add: locate_outside)
qed

text \<open>The entries of a VMAR and of the regions below it.\<close>

inductive below :: "vmar_world \<Rightarrow> vmar \<Rightarrow> vmar_entry \<Rightarrow> bool" for vw where
  here: "bt_get (entries (vmar_state_of vw v)) p = Some e \<Longrightarrow> below vw v e"
| inside: "bt_get (entries (vmar_state_of vw v)) p = Some (Region r c) \<Longrightarrow> below vw c e \<Longrightarrow> below vw v e"

lemma below_contained:
  assumes "below vw v e" and ok: "space_ok V vw" and "v \<in> V"
  shows "contains_range (vmar_range v) (entry_range e)"
  using assms(1,3)
proof (induction rule: below.induct)
  case (here v p e)
  then show ?case using entries_okD(3) [OF vmar_okD(3) [OF space_okD(1) [OF ok]]] by blast
next
  case (inside v p r c e)
  have "entry_ok V v (Region r c)" using space_okD(3) [OF ok] inside by blast
  then have c: "c \<in> V" "vmar_range c = r" by (simp_all add: entry_ok_def)
  have "contains_range (vmar_range v) r"
    using entries_okD(3) [OF vmar_okD(3) [OF space_okD(1) [OF ok]]] inside by fastforce
  with inside.IH [OF c(1)] c(2) show ?case by (auto simp: contains_range_def)
qed

lemma locate_total:
  assumes ok: "space_ok V vw" and "v \<in> V"
  shows "\<exists>r. locate vw v a = Some r \<and>
    (\<forall>m. r = vm_pointer_region.Mapping m \<longrightarrow> below vw v (vmar_entry.Mapping m) \<and> range_contains (map_range m) a)"
  using assms(2)
proof (induction "next_vmar vw - vmar_id v" arbitrary: v rule: less_induct)
  case less
  note o = space_okD(1) [OF ok less.prems]
  show ?case
  proof (cases "range_contains (vmar_range v) a")
    case True
    show ?thesis
    proof (rule entry_at_cases [of "vmar_state_of vw v" a])
      assume "entry_at (vmar_state_of vw v) a None"
      with locate_reserved [OF o True] show ?thesis by simp
    next
      fix e assume e: "entry_at (vmar_state_of vw v) a (Some e)"
      then obtain p where p: "bt_get (entries (vmar_state_of vw v)) p = Some e" "range_contains (entry_range e) a"
        by (auto simp: entry_at_def)
      show ?thesis
      proof (cases e)
        case (Region r c)
        note c = region_younger [OF ok less.prems e [unfolded Region]]
        from less.hyps [OF c(3,1)] obtain x where "locate vw c a = Some x" "\<forall>m. x = vm_pointer_region.Mapping m \<longrightarrow>
            below vw c (vmar_entry.Mapping m) \<and> range_contains (map_range m) a" by blast
        then show ?thesis
          using locate_entry [OF o e] Region below.inside [OF p(1) [unfolded Region]] by simp
      qed (use locate_entry [OF o e] p in \<open>auto intro: below.here\<close>)
    qed
  qed (use locate_outside [of v a vw] in \<open>auto split: option.split\<close>)
qed

lemma locate_below:
  assumes "below vw v e" and "e = vmar_entry.Mapping m" and "range_contains (map_range m) a"
    and ok: "space_ok V vw" and "v \<in> V"
  shows "locate vw v a = Some (vm_pointer_region.Mapping m)"
  using assms(1,2,5)
proof (induction rule: below.induct)
  case (here v p e)
  then have "entry_at (vmar_state_of vw v) a (Some e)" using assms(3) by (auto simp: entry_at_def)
  from locate_entry [OF space_okD(1) [OF ok here(3)] this] here show ?case by simp
next
  case (inside v p r c e)
  have "entry_ok V v (Region r c)" using space_okD(3) [OF ok] inside by blast
  then have c: "c \<in> V" "vmar_range c = r" by (simp_all add: entry_ok_def)
  have "range_contains r a"
    using below_contained [OF inside(2) ok c(1)] c(2) inside(4) assms(3)
    by (auto simp: contains_range_def range_contains_def)
  with inside(1) have "entry_at (vmar_state_of vw v) a (Some (Region r c))" by (auto simp: entry_at_def)
  from locate_entry [OF space_okD(1) [OF ok inside(5)] this] inside.IH [OF inside(4) c(1)] show ?case by simp
qed

text \<open>C17: \<open>locate\<close> returns on every address, and it returns a mapping exactly when that mapping is in the
  VMAR or in a region below it and covers the address. So no two mappings of an address space cover the
  same address.\<close>

theorem locate_iff_mapped:
  assumes "space_ok V vw" and "v \<in> V"
  shows "\<exists>r. locate vw v a = Some r \<and>
    (\<forall>m. r = vm_pointer_region.Mapping m \<longleftrightarrow> below vw v (vmar_entry.Mapping m) \<and> range_contains (map_range m) a)"
proof -
  obtain r where "locate vw v a = Some r" and "\<forall>m. r = vm_pointer_region.Mapping m \<longrightarrow>
      below vw v (vmar_entry.Mapping m) \<and> range_contains (map_range m) a"
    using locate_total [OF assms] by blast
  then show ?thesis using locate_below [OF _ refl _ assms] by fastforce
qed

subsection \<open>Mapping and unmapping\<close>

lemma entry_at_entries: "entries st = entries st' \<Longrightarrow> entry_at st a oe = entry_at st' a oe"
  by (cases oe) (simp_all add: entry_at_def)

lemma entry_at_insert:
  assumes "bt_get (entries st) s = None" and "entries st' = bt_insert s en (entries st)"
  shows "\<not> range_contains (entry_range en) a \<Longrightarrow> entry_at st' a oe \<longleftrightarrow> entry_at st a oe"
    and "range_contains (entry_range en) a \<Longrightarrow> entry_at st' a (Some en)"
proof -
  have get: "bt_get (entries st') p = (if p = s then Some en else bt_get (entries st) p)" for p
    using assms(2) by (simp add: bt_get_insert)
  show "range_contains (entry_range en) a \<Longrightarrow> entry_at st' a (Some en)"
    by (auto simp: entry_at_def get)
  assume na: "\<not> range_contains (entry_range en) a"
  have "(\<exists>p. bt_get (entries st') p = Some e) \<longleftrightarrow> (\<exists>p. bt_get (entries st) p = Some e) \<or> e = en" for e
    unfolding get using assms(1) by (metis option.distinct(1) option.inject)
  with na show "entry_at st' a oe \<longleftrightarrow> entry_at st a oe"
    unfolding entry_at_def by (cases oe) (auto 4 3)
qed

lemma no_overlap_fresh:
  assumes ok: "vmar_ok v st" and st: "range_start r = page_addr v s" and wf: "range_wf r"
    and no: "\<forall>p f. bt_get (entries st) p = Some f \<longrightarrow> \<not> overlaps (entry_range f) r"
  shows "bt_get (entries st) s = None"
proof (cases "bt_get (entries st) s")
  case (Some f)
  note eo = entries_okD [OF vmar_okD(3) [OF ok]]
  have "overlaps (entry_range f) r"
    using eo(4) [OF Some] aligned_wfD(1) [OF eo(2) [OF Some]] st wf by (simp add: overlaps_def range_wf_def)
  with no Some show ?thesis by simp
qed

text \<open>What an insertion changes.\<close>

lemma insert_entry_effect:
  assumes ok: "space_ok V vw" and v: "v \<in> V" and wf: "range_wf (entry_range en)" and en: "entry_ok V v en"
  obtains (refused) e vw' where "insert_entry vw v en = Some (Err e, vw')" "space_ok V vw'"
      "\<not> (is_page_aligned (entry_range en) \<and> contains_range (vmar_range v) (entry_range en) \<and>
          (\<forall>p f. bt_get (entries (vmar_state_of vw v)) p = Some f \<longrightarrow> \<not> overlaps (entry_range f) (entry_range en)))"
      "\<forall>u \<in> V. entries (vmar_state_of vw' u) = entries (vmar_state_of vw u)"
  | (inserted) s vw' where "insert_entry vw v en = Some (Ok (), vw')" "space_ok V vw'"
      "is_page_aligned (entry_range en) \<and> contains_range (vmar_range v) (entry_range en) \<and>
          (\<forall>p f. bt_get (entries (vmar_state_of vw v)) p = Some f \<longrightarrow> \<not> overlaps (entry_range f) (entry_range en))"
      "bt_get (entries (vmar_state_of vw v)) s = None" "range_start (entry_range en) = page_addr v s"
      "entries (vmar_state_of vw' v) = bt_insert s en (entries (vmar_state_of vw v))"
      "\<forall>u \<in> V - {v}. entries (vmar_state_of vw' u) = entries (vmar_state_of vw u)"
proof -
  note vok = space_okD(1) [OF ok v] and keep = space_ok_insert [OF ok v wf en]
  have inj: "vmar_id u = vmar_id v \<Longrightarrow> u = v" if "u \<in> V" for u
    using ok that v by (auto simp: space_ok_def inj_on_def)
  from vok wf show thesis
  proof (cases rule: insert_entry_cases)
    case invalid
    with that(1) ok show thesis by blast
  next
    case (taken t p f)
    show thesis
      by (rule that(1) [OF taken(5) keep [OF taken(5)]])
        (use taken(3,4) inj in \<open>auto simp: vmar_state_of_set\<close>)
  next
    case (inserted t s)
    show thesis
      by (rule that(2) [OF inserted(5) keep [OF inserted(5)] _ no_overlap_fresh [OF vok inserted(4) wf inserted(3)]])
        (use inserted inj aligned_wfD(6) [OF inserted(1)] in \<open>auto simp: vmar_state_of_set\<close>)
  qed
qed

abbreviation new_mapping :: "vm_range \<Rightarrow> vmo \<Rightarrow> usize \<Rightarrow> vm_flags \<Rightarrow> region_purpose \<Rightarrow> vmar_mapping" where
  "new_mapping r x off flags purpose \<equiv>
     \<lparr>map_range = r, map_flags = flags, map_purpose = purpose, map_vmo = x, map_vmo_offset = off\<rparr>"

text \<open>C14: \<open>map_vmo\<close> always returns; it maps exactly when the range and the offset are page aligned, the
  layout check accepts the mapping, the range is inside the VMAR and no entry overlaps it. Then every
  address of the range resolves to the mapping, and no other address resolves differently; when it
  refuses, nothing resolves differently.\<close>

theorem map_vmo_exact:
  assumes ok: "space_ok V vw" and v: "v \<in> V" and wf: "range_wf r"
  shows "\<exists>res vw'. map_vmo w vw v r x off flags purpose = Some (res, vw') \<and> space_ok V vw' \<and>
    (res = Ok () \<longleftrightarrow> is_page_aligned r \<and> is_multiple_of off (vmo_page_size x) \<and>
       validate_layout w (new_mapping r x off flags purpose) \<and> contains_range (vmar_range v) r \<and>
       (\<forall>p f. bt_get (entries (vmar_state_of vw v)) p = Some f \<longrightarrow> \<not> overlaps (entry_range f) r)) \<and>
    (\<forall>a. res = Ok () \<longrightarrow> range_contains r a \<longrightarrow>
       locate vw' v a = Some (vm_pointer_region.Mapping (new_mapping r x off flags purpose))) \<and>
    (\<forall>u \<in> V. \<forall>a. res \<noteq> Ok () \<or> \<not> range_contains r a \<longrightarrow> locate vw' u a = locate vw u a)"
proof (cases "is_page_aligned r \<and> is_multiple_of off (vmo_page_size x) \<and> validate_layout w (new_mapping r x off flags purpose)")
  case True
  let ?en = "vmar_entry.Mapping (new_mapping r x off flags purpose)"
  have run: "map_vmo w vw v r x off flags purpose = insert_entry vw v ?en"
    using True by (simp add: map_vmo_def)
  have wf': "range_wf (entry_range ?en)" and en: "entry_ok V v ?en" and er: "entry_range ?en = r"
    using wf True validate_layout_mapping by (auto simp: entry_ok_def)
  from ok v wf' en show ?thesis
  proof (cases rule: insert_entry_effect)
    case (refused e vw')
    have "locate vw' u a = locate vw u a" if "u \<in> V" for u a
      using refused(4) by (intro locate_cong [OF ok refused(2) that] entry_at_entries) blast
    then show ?thesis using refused(1-3) True er
      by (intro exI [of _ "Err e"] exI [of _ vw']) (simp add: run)
  next
    case (inserted s vw')
    note ea = entry_at_insert [OF inserted(4) inserted(6), unfolded er]
    have "locate vw' u a = locate vw u a" if "u \<in> V" "\<not> range_contains r a" for u a
    proof (rule locate_cong [OF ok inserted(2) that(1)])
      fix u' oe assume "u' \<in> V"
      then show "entry_at (vmar_state_of vw' u') a oe = entry_at (vmar_state_of vw u') a oe"
        using ea(1) [OF that(2), of oe] inserted(7)
          entry_at_entries [of "vmar_state_of vw' u'" "vmar_state_of vw u'" a oe]
        by (cases "u' = v") simp_all
    qed
    moreover have "locate vw' v a = Some (vm_pointer_region.Mapping (new_mapping r x off flags purpose))"
      if "range_contains r a" for a
      using locate_entry [OF space_okD(1) [OF inserted(2) v] ea(2) [OF that]] by simp
    ultimately show ?thesis using inserted(1-3) True er
      by (intro exI [of _ "Ok ()"] exI [of _ vw']) (simp add: run)
  qed
next
  case False
  then obtain e where e: "map_vmo w vw v r x off flags purpose = Some (Err e, vw)"
    by (cases "is_page_aligned r \<and> is_multiple_of off (vmo_page_size x)") (auto simp: map_vmo_def Let_def)
  with False ok show ?thesis by (intro exI [of _ "Err e"] exI [of _ vw]) auto
qed

lemma entry_at_remove:
  assumes ok: "vmar_ok v st" and get: "bt_get (entries st) p = Some en" and st': "entries st' = bt_remove p (entries st)"
  shows "\<not> range_contains (entry_range en) a \<Longrightarrow> entry_at st' a oe \<longleftrightarrow> entry_at st a oe"
    and "range_contains (entry_range en) a \<Longrightarrow> entry_at st' a None"
proof -
  note eo = entries_okD [OF vmar_okD(3) [OF ok]]
  have rem: "bt_get (entries st') q = (if q = p then None else bt_get (entries st) q)" for q
    using st' by (simp add: bt_get_remove)
  show "entry_at st' a None" if c: "range_contains (entry_range en) a"
  proof -
    have "\<not> range_contains (entry_range f) a" if "q \<noteq> p" "bt_get (entries st) q = Some f" for q f
      using eo(5) [OF that get] overlaps_iff [OF aligned_wfD(5) [OF eo(2) [OF that(2)]] aligned_wfD(5) [OF eo(2) [OF get]]] c
      by blast
    then show ?thesis by (auto simp: entry_at_def rem)
  qed
  show "entry_at st' a oe \<longleftrightarrow> entry_at st a oe" if na: "\<not> range_contains (entry_range en) a"
  proof (cases oe)
    case None
    show ?thesis unfolding None entry_at_def rem option.case using na get by (metis option.inject option.distinct(1))
  next
    case (Some e)
    show ?thesis unfolding Some entry_at_def rem option.case using na get by (metis option.inject option.distinct(1))
  qed
qed

text \<open>C18: \<open>unmap\<close> always returns. It removes the entry of the VMAR that starts at the address, if there
  is one: afterwards the range of the entry is reserved, and no other address resolves differently;
  without such an entry nothing changes.\<close>

theorem unmap_exact:
  assumes ok: "space_ok V vw" and v: "v \<in> V"
  shows "\<exists>res vw'. unmap vw v a = Some (res, vw') \<and> space_ok V vw' \<and>
    (case res of
       Inl _ \<Rightarrow> vw' = vw \<and> (\<forall>p e. bt_get (entries (vmar_state_of vw v)) p = Some e \<longrightarrow> range_start (entry_range e) \<noteq> a)
     | Inr e \<Rightarrow> range_start (entry_range e) = a \<and> (\<exists>p. bt_get (entries (vmar_state_of vw v)) p = Some e) \<and>
         (\<forall>b. range_contains (entry_range e) b \<longrightarrow> locate vw' v b = Some (Reserved (vmar_range v))) \<and>
         (\<forall>u \<in> V. \<forall>b. \<not> range_contains (entry_range e) b \<longrightarrow> locate vw' u b = locate vw u b))"
  using space_okD(1) [OF ok v]
proof (cases rule: unmap_cases [of v vw a])
  case outside
  have "range_start (entry_range e) \<noteq> a" if e: "bt_get (entries (vmar_state_of vw v)) p = Some e" for p e
  proof
    note eo = entries_okD [OF vmar_okD(3) [OF space_okD(1) [OF ok v]]]
    assume "range_start (entry_range e) = a"
    with eo(3) [OF e] aligned_wfD(1) [OF eo(2) [OF e]] outside(1) show False
      by (auto simp: contains_range_def range_contains_def)
  qed
  with outside(2) ok show ?thesis by simp
next
  case missing
  with ok show ?thesis by simp
next
  case (removed p e t)
  let ?vw = "set_vmar_state vw v ((vmar_state_of vw v)\<lparr>entries := bt_remove p (entries (vmar_state_of vw v)), free_tree := t\<rparr>)"
  have ok': "space_ok V ?vw" by (rule space_ok_unmap [OF ok v removed(3)])
  have "entries (vmar_state_of ?vw v) = bt_remove p (entries (vmar_state_of vw v))" by (simp add: vmar_state_of_set)
  note er = entry_at_remove [OF space_okD(1) [OF ok v] removed(1) this]
  have c: "range_contains (vmar_range v) b" if "range_contains (entry_range e) b" for b
    using entry_at_inside [OF space_okD(1) [OF ok v], of b e] that removed(1) by (auto simp: entry_at_def)
  have "locate ?vw v b = Some (Reserved (vmar_range v))" if "range_contains (entry_range e) b" for b
    by (rule locate_reserved [OF space_okD(1) [OF ok' v] c [OF that] er(2) [OF that]])
  moreover have "locate ?vw u b = locate vw u b" if "u \<in> V" "\<not> range_contains (entry_range e) b" for u b
  proof (rule locate_cong [OF ok ok' that(1)])
    fix u' oe assume "u' \<in> V"
    then have "u' = v \<or> vmar_state_of ?vw u' = vmar_state_of vw u'"
      by (rule vmar_state_of_other [OF ok v])
    then show "entry_at (vmar_state_of ?vw u') b oe = entry_at (vmar_state_of vw u') b oe"
      using er(1) [OF that(2), of oe] by auto
  qed
  ultimately show ?thesis
    using removed(1,2) ok' by (intro exI [of _ "Ok e"] exI [of _ ?vw]) (auto simp: removed(3))
qed

lemma bt_remove_insert: "bt_get m k = None \<Longrightarrow> bt_remove k (bt_insert k x m) = m"
proof (induction k x m rule: bt_insert.induct)
  case (2 k v k' v' m)
  have rm: "bt_remove k m = m" if "bt_get m k = None"
    using that by (auto simp: bt_get_def bt_remove_def map_of_eq_None_iff intro!: filter_True)
  have "bt_get m k = None" "k \<noteq> k'" using "2.prems" by (auto simp: bt_get_def split: if_splits)
  with "2.IH" rm show ?case by (auto simp: bt_remove_def)
qed (simp add: bt_remove_def)

text \<open>C19: unmapping the range that was just mapped gives the mapping back and restores the entries of
  every VMAR.\<close>

theorem map_unmap_roundtrip:
  assumes ok: "space_ok V vw" and v: "v \<in> V" and wf: "range_wf r"
    and st: "map_vmo w vw v r x off flags purpose = Some (Ok (), vw')"
  shows "\<exists>vw''. unmap vw' v (range_start r) = Some (Ok (vmar_entry.Mapping (new_mapping r x off flags purpose)), vw'') \<and>
    (\<forall>u \<in> V. entries (vmar_state_of vw'' u) = entries (vmar_state_of vw u)) \<and>
    (\<forall>u \<in> V. \<forall>a. locate vw'' u a = locate vw u a)"
proof -
  let ?en = "vmar_entry.Mapping (new_mapping r x off flags purpose)"
  have run: "insert_entry vw v ?en = Some (Ok (), vw')" and lay: "validate_layout w (new_mapping r x off flags purpose)"
    using st by (auto simp: map_vmo_def Let_def split: if_splits)
  have wf': "range_wf (entry_range ?en)" and en: "entry_ok V v ?en"
    using wf validate_layout_mapping [OF lay] by (simp_all add: entry_ok_def)
  from ok v wf' en obtain s where ok': "space_ok V vw'"
    and s: "bt_get (entries (vmar_state_of vw v)) s = None" "range_start r = page_addr v s"
      "entries (vmar_state_of vw' v) = bt_insert s ?en (entries (vmar_state_of vw v))"
      "\<forall>u \<in> V - {v}. entries (vmar_state_of vw' u) = entries (vmar_state_of vw u)"
    by (cases rule: insert_entry_effect) (use run in auto)
  have get: "bt_get (entries (vmar_state_of vw' v)) s = Some ?en" using s(3) by (simp add: bt_get_insert)
  note eo = entries_okD [OF vmar_okD(3) [OF space_okD(1) [OF ok' v]]]
  from space_okD(1) [OF ok' v] show ?thesis
  proof (cases rule: unmap_cases [of v vw' "range_start r"])
    case outside
    with eo(3) [OF get] wf show ?thesis by (auto simp: contains_range_def range_contains_def range_wf_def)
  next
    case missing
    with get show ?thesis by fastforce
  next
    case (removed p e t)
    have "p = s" using eo(4) [OF removed(1)] removed(2) s(2) by simp
    with removed(1) get have e: "e = ?en" by simp
    let ?vw = "set_vmar_state vw' v ((vmar_state_of vw' v)\<lparr>entries := bt_remove p (entries (vmar_state_of vw' v)), free_tree := t\<rparr>)"
    have ok2: "space_ok V ?vw" by (rule space_ok_unmap [OF ok' v removed(3)])
    have same: "entries (vmar_state_of ?vw u) = entries (vmar_state_of vw u)" if u: "u \<in> V" for u
    proof (cases "u = v")
      case True
      then show ?thesis using s(1,3) \<open>p = s\<close> by (simp add: vmar_state_of_set bt_remove_insert)
    next
      case False
      then have "vmar_id u \<noteq> vmar_id v" using ok u v by (auto simp: space_ok_def dest: inj_onD)
      then show ?thesis using s(4) u False by (simp add: vmar_state_of_set)
    qed
    then have "locate ?vw u a = locate vw u a" if "u \<in> V" for u a
      by (intro locate_cong [OF ok ok2 that] entry_at_entries)
    with same removed(3) e show ?thesis by (intro exI [of _ ?vw]) simp
  qed
qed

text \<open>C20: \<open>protect\<close> changes the flags of a mapping exactly when the VMAR has a mapping over that very
  range and the layout check accepts the new flags; the range then resolves to the mapping with the new
  flags, and no other address resolves differently.\<close>

theorem protect_exact:
  assumes ok: "space_ok V vw" and v: "v \<in> V" and wf: "range_wf r" and st: "protect w vw v r flags = (res, vw')"
  shows "space_ok V vw' \<and>
    (case res of
       Inl _ \<Rightarrow> vw' = vw \<and> \<not> (\<exists>p m. bt_get (entries (vmar_state_of vw v)) p = Some (vmar_entry.Mapping m) \<and>
         map_range m = r \<and> validate_layout w (m\<lparr>map_flags := flags\<rparr>))
     | Inr _ \<Rightarrow> \<exists>m p. bt_get (entries (vmar_state_of vw v)) p = Some (vmar_entry.Mapping m) \<and> map_range m = r \<and>
         validate_layout w (m\<lparr>map_flags := flags\<rparr>) \<and>
         (\<forall>a. range_contains r a \<longrightarrow> locate vw' v a = Some (vm_pointer_region.Mapping (m\<lparr>map_flags := flags\<rparr>))) \<and>
         (\<forall>u \<in> V. \<forall>a. \<not> range_contains r a \<longrightarrow> locate vw' u a = locate vw u a))"
  using space_okD(1) [OF ok v] wf
proof (cases rule: protect_cases [of v vw r w flags])
  case (refused e)
  then have "res = Err e" and "vw' = vw" using st by simp_all
  with refused(2) ok show ?thesis by simp
next
  case (changed p m)
  let ?en = "vmar_entry.Mapping (m\<lparr>map_flags := flags\<rparr>)"
  have vw': "res = Ok ()" "entries (vmar_state_of vw' v) = bt_insert p ?en (entries (vmar_state_of vw v))"
    using st changed(4) by (auto simp: vmar_state_of_set)
  have ok': "space_ok V vw'" by (rule space_ok_protect [OF ok v wf st])
  have get: "bt_get (entries (vmar_state_of vw' v)) q = (if q = p then Some ?en else bt_get (entries (vmar_state_of vw v)) q)" for q
    using vw'(2) by (simp add: bt_get_insert)
  have in_r: "locate vw' v a = Some (vm_pointer_region.Mapping (m\<lparr>map_flags := flags\<rparr>))" if "range_contains r a" for a
  proof -
    have "entry_at (vmar_state_of vw' v) a (Some ?en)"
      using that changed(2) get [of p] by (auto simp: entry_at_def)
    from locate_entry [OF space_okD(1) [OF ok' v] this] show ?thesis by simp
  qed
  have out_r: "locate vw' u a = locate vw u a" if "u \<in> V" "\<not> range_contains r a" for u a
  proof (rule locate_cong [OF ok ok' that(1)])
    fix u' oe assume "u' \<in> V"
    then have "u' = v \<or> vmar_state_of vw' u' = vmar_state_of vw u'"
      using vmar_state_of_other [OF ok v, of u'] st changed(4) by auto
    moreover have "entry_at (vmar_state_of vw' v) a oe = entry_at (vmar_state_of vw v) a oe"
    proof (cases oe)
      case None
      show ?thesis
        unfolding None entry_at_def get option.case using that(2) changed(1,2)
        by (metis entry_range.simps(2) option.inject vmar_mapping.select_convs(1) vmar_mapping.surjective vmar_mapping.update_convs(2))
    next
      case (Some e)
      have "range_contains (entry_range e) a \<Longrightarrow> e \<noteq> ?en \<and> e \<noteq> vmar_entry.Mapping m"
        using that(2) changed(2) by auto
      then show ?thesis
        unfolding Some entry_at_def get option.case using changed(1) by (metis option.inject)
    qed
    ultimately show "entry_at (vmar_state_of vw' u') a oe = entry_at (vmar_state_of vw u') a oe" by auto
  qed
  show ?thesis using ok' vw'(1) changed(1-3) in_r out_r by auto
qed

end
