(* ===== verification/VSpace.thy ===== *)
theory VSpace
  imports Vmar_Access
begin

text \<open>
  The address space of a process, \<open>library/core/src/memory/vspace.rs\<close>: a root VMAR with one child per
  user segment, and the validation of user ranges against the mappings.
\<close>

subsection \<open>Operations\<close>

datatype vspace_error = InvalidRange | AlreadyMapped | NotMapped | PermissionDenied

primrec vspace_error_from :: "vmar_error \<Rightarrow> vspace_error" where
  "vspace_error_from vmar_error.InvalidRange = InvalidRange"
| "vspace_error_from vmar_error.AlreadyMapped = AlreadyMapped"
| "vspace_error_from vmar_error.PermissionDenied = PermissionDenied"
| "vspace_error_from vmar_error.NotMapped = NotMapped"

record vspace_segments =
  user_image :: vmar
  user_heap :: vmar
  user_mapped :: vmar
  user_mmio :: vmar
  user_stack :: vmar

record vspace =
  vs_root :: vmar
  vs_segments :: vspace_segments

record vspace_info =
  info_root :: vm_range
  active_entries :: usize

definition segment_range :: "vm_layout_segment \<Rightarrow> (vm_range, vspace_error) result" where
  "segment_range segment =
     (case end_exclusive segment of
        None \<Rightarrow> Err InvalidRange
      | Some end \<Rightarrow> ok_or InvalidRange (vm_range_new (segment_start segment) end))"

text \<open>One field of \<open>VSpaceSegments::new\<close>: \<open>root.allocate_child(Self::segment_range(segment)?)?\<close>.\<close>

definition allocate_segment ::
    "vmar_world \<Rightarrow> vmar \<Rightarrow> vm_layout_segment \<Rightarrow> ((vmar, vspace_error) result \<times> vmar_world) outcome" where
  "allocate_segment vw root_vmar segment =
     (case segment_range segment of
        Inl e \<Rightarrow> Returned (Err e, vw)
      | Inr r \<Rightarrow> map_option (\<lambda>(res, vw'). (map_err vspace_error_from res, vw')) (allocate_child vw root_vmar r))"

text \<open>Continue after \<open>?\<close> with the child, or return the error with the state so far.\<close>

definition then_child ::
    "((vmar, vspace_error) result \<times> vmar_world) outcome \<Rightarrow> (vmar \<Rightarrow> vmar_world \<Rightarrow> (('a, vspace_error) result \<times> vmar_world) outcome)
     \<Rightarrow> (('a, vspace_error) result \<times> vmar_world) outcome" where
  "then_child r k = do {
     (res, vw) \<leftarrow> r;
     (case res of Inl e \<Rightarrow> Returned (Err e, vw) | Inr c \<Rightarrow> k c vw)
   }"

definition vspace_segments_new ::
    "vmar_world \<Rightarrow> vmar \<Rightarrow> ((vspace_segments, vspace_error) result \<times> vmar_world) outcome" where
  "vspace_segments_new vw root_vmar =
     then_child (allocate_segment vw root_vmar UserImage) (\<lambda>image vw.
     then_child (allocate_segment vw root_vmar UserHeap) (\<lambda>heap vw.
     then_child (allocate_segment vw root_vmar UserMapped) (\<lambda>mapped vw.
     then_child (allocate_segment vw root_vmar UserMmio) (\<lambda>mmio vw.
     then_child (allocate_segment vw root_vmar UserStack) (\<lambda>stack vw.
       Returned (Ok \<lparr>user_image = image, user_heap = heap, user_mapped = mapped, user_mmio = mmio,
                    user_stack = stack\<rparr>, vw))))))"

definition vspace_new :: "vmar_world \<Rightarrow> vmar \<Rightarrow> ((vspace, vspace_error) result \<times> vmar_world) outcome" where
  "vspace_new vw root_vmar = do {
     (res, vw') \<leftarrow> vspace_segments_new vw root_vmar;
     Returned (map_sum id (\<lambda>segments. \<lparr>vs_root = root_vmar, vs_segments = segments\<rparr>) res, vw')
   }"

definition vspace_segment :: "vspace \<Rightarrow> vm_layout_segment \<Rightarrow> vmar outcome" where
  "vspace_segment self segment =
     (case segment of
        UserImage \<Rightarrow> Returned (user_image (vs_segments self))
      | UserHeap \<Rightarrow> Returned (user_heap (vs_segments self))
      | UserMapped \<Rightarrow> Returned (user_mapped (vs_segments self))
      | UserMmio \<Rightarrow> Returned (user_mmio (vs_segments self))
      | UserStack \<Rightarrow> Returned (user_stack (vs_segments self))
      | _ \<Rightarrow> Panicked)"

definition vspace_mapping_at :: "vmar_world \<Rightarrow> vspace \<Rightarrow> virt_addr \<Rightarrow> vmar_mapping option outcome" where
  "vspace_mapping_at vw self addr = mapping_at vw (vs_root self) addr"

definition locate_ptr :: "vmar_world \<Rightarrow> vspace \<Rightarrow> virt_addr \<Rightarrow> vm_pointer_region outcome" where
  "locate_ptr vw self addr = locate vw (vs_root self) addr"

function validate_loop ::
    "vmar_world \<Rightarrow> vspace \<Rightarrow> vm_flags \<Rightarrow> usize \<Rightarrow> usize \<Rightarrow> (unit, vspace_error) result outcome" where
  "validate_loop vw self required end cursor =
     (if \<not> cursor < end then Returned (Ok ())
      else case vspace_mapping_at vw self cursor of
        None \<Rightarrow> Panicked
      | Some None \<Rightarrow> Returned (Err NotMapped)
      | Some (Some mapping) \<Rightarrow>
          if \<not> allows_mmu (map_flags mapping) required then Returned (Err PermissionDenied)
          else let next = min (range_end (map_range mapping)) end
          in if next \<le> cursor then Returned (Err InvalidRange)
             else validate_loop vw self required end next)"
  by pat_completeness auto

termination
  by (relation "measure (\<lambda>(vw, self, required, end, cursor). end - cursor)") auto

declare validate_loop.simps [simp del]

definition validate_range ::
    "vmar_world \<Rightarrow> vspace \<Rightarrow> vm_range \<Rightarrow> vm_flags \<Rightarrow> (unit, vspace_error) result outcome" where
  "validate_range vw self r required =
     (if \<not> contains_range (vmar_range (vs_root self)) r then Returned (Err InvalidRange)
      else validate_loop vw self required (range_end r) (range_start r))"

definition vspace_info_of :: "vmar_world \<Rightarrow> vspace \<Rightarrow> vspace_info" where
  "vspace_info_of vw self = \<lparr>info_root = vmar_range (vs_root self), active_entries = child_count vw (vs_root self)\<rparr>"

subsection \<open>Validation\<close>

text \<open>The address resolves to a mapping that permits the access.\<close>

definition accessible :: "vmar_world \<Rightarrow> vmar \<Rightarrow> vm_flags \<Rightarrow> virt_addr \<Rightarrow> bool" where
  "accessible vw v required a \<longleftrightarrow>
     (\<exists>m. locate vw v a = Some (vm_pointer_region.Mapping m) \<and> allows_mmu (map_flags m) required)"

lemma mapping_covers:
  assumes ok: "space_ok V vw" and v: "v \<in> V" and m: "locate vw v a = Some (vm_pointer_region.Mapping m)"
  shows "range_contains (map_range m) a"
    and "range_contains (map_range m) b \<Longrightarrow> locate vw v b = Some (vm_pointer_region.Mapping m)"
proof -
  have bl: "below vw v (vmar_entry.Mapping m)" "range_contains (map_range m) a"
    using locate_total [OF ok v, of a] m by auto
  show "range_contains (map_range m) a" by (rule bl)
  show "range_contains (map_range m) b \<Longrightarrow> locate vw v b = Some (vm_pointer_region.Mapping m)"
    by (rule locate_below [OF bl(1) refl _ ok v])
qed

lemma validate_loop_ok:
  assumes ok: "space_ok V vw" and v: "vs_root self \<in> V"
  shows "\<exists>res. validate_loop vw self required end cursor = Some res \<and>
    (res = Ok () \<longleftrightarrow> (\<forall>a. cursor \<le> a \<and> a < end \<longrightarrow> accessible vw (vs_root self) required a))"
proof (induction "end - cursor" arbitrary: cursor rule: less_induct)
  case less
  let ?root = "vs_root self"
  show ?case
  proof (cases "cursor < end")
    case True
    obtain r where r: "locate vw ?root cursor = Some r" using locate_total [OF ok v] by blast
    then have at: "vspace_mapping_at vw self cursor =
        Some (case r of vm_pointer_region.Mapping m \<Rightarrow> Some m | _ \<Rightarrow> None)"
      by (simp add: vspace_mapping_at_def mapping_at_def)
    show ?thesis
    proof (cases "accessible vw ?root required cursor")
      case acc: True
      then obtain m where m: "r = vm_pointer_region.Mapping m" "allows_mmu (map_flags m) required"
        using r by (auto simp: accessible_def)
      note cov = mapping_covers [OF ok v r [unfolded m(1)]]
      let ?next = "min (range_end (map_range m)) end"
      have n: "cursor < ?next" using cov(1) True by (simp add: range_contains_def)
      obtain res where res: "validate_loop vw self required end ?next = Some res"
          "res = Ok () \<longleftrightarrow> (\<forall>a. ?next \<le> a \<and> a < end \<longrightarrow> accessible vw ?root required a)"
        using less.hyps [of ?next] n True by fastforce
      have "accessible vw ?root required a" if "cursor \<le> a" "a < ?next" for a
        using cov(2) [of a] cov(1) that m(2) by (auto simp: accessible_def range_contains_def)
      then have "(\<forall>a. cursor \<le> a \<and> a < end \<longrightarrow> accessible vw ?root required a) \<longleftrightarrow>
          (\<forall>a. ?next \<le> a \<and> a < end \<longrightarrow> accessible vw ?root required a)"
        using n by (meson le_less_trans less_imp_le not_le order_trans)
      moreover have "validate_loop vw self required end cursor = Some res"
        using True at m n res(1) by (subst validate_loop.simps) (simp add: Let_def min_le_iff_disj)
      ultimately show ?thesis using res(2) by simp
    next
      case False
      then have "\<exists>e. validate_loop vw self required end cursor = Some (Err e)"
        using True at r by (subst validate_loop.simps) (auto simp: accessible_def split: vm_pointer_region.split)
      with False True show ?thesis by auto
    qed
  qed (subst validate_loop.simps, auto)
qed

text \<open>C16: \<open>validate_range\<close> always returns, and it accepts a range exactly when the range lies in the address
  space and every single address of it resolves to a mapping that permits the access asked for.\<close>

theorem validate_range_iff:
  assumes "space_ok V vw" and "vs_root self \<in> V" and "range_wf r"
  shows "\<exists>res. validate_range vw self r required = Some res \<and>
    (res = Ok () \<longleftrightarrow> (\<forall>a. range_contains r a \<longrightarrow>
       range_contains (vmar_range (vs_root self)) a \<and> accessible vw (vs_root self) required a))"
proof (cases "contains_range (vmar_range (vs_root self)) r")
  case True
  with validate_loop_ok [OF assms(1,2), of required "range_end r" "range_start r"] contains_range_iff [OF assms(3)]
  show ?thesis by (auto simp: validate_range_def range_contains_def)
next
  case False
  with contains_range_iff [OF assms(3)] show ?thesis by (auto simp: validate_range_def)
qed

subsection \<open>Building the address space\<close>

text \<open>The ranges that the entries of a VMAR cover.\<close>

definition covered :: "vmar_world \<Rightarrow> vmar \<Rightarrow> vm_range set" where
  "covered vw v = {entry_range e | p e. bt_get (entries (vmar_state_of vw v)) p = Some e}"

definition user_range :: "vm_layout_segment \<Rightarrow> vm_range" where
  "user_range segment = \<lparr>range_start = segment_start segment, range_end = the (end_exclusive segment)\<rparr>"

lemma allocate_segment_ok:
  assumes ok: "space_ok V vw" and v: "v \<in> V" and seg: "segment \<in> {UserImage, UserHeap, UserMapped, UserMmio, UserStack}"
    and inside: "contains_range (vmar_range v) (user_range segment)"
    and free: "\<forall>r \<in> covered vw v. \<not> overlaps r (user_range segment)"
  shows "\<exists>c vw'. allocate_segment vw v segment = Some (Ok c, vw') \<and> space_ok (insert c V) vw' \<and> c \<notin> V \<and>
    vmar_range c = user_range segment \<and> covered vw' v = insert (user_range segment) (covered vw v)"
proof -
  have al: "aligned_wf (user_range segment)" and sr: "segment_range segment = Ok (user_range segment)"
    using seg by (auto simp: aligned_wf_def range_wf_def is_page_aligned_def is_multiple_of_def user_range_def
        segment_range_def vm_range_new_def)
  from ok v aligned_wfD(5) [OF al] show ?thesis
  proof (cases rule: allocate_child_cases)
    case invalid
    with inside aligned_wfD(6) [OF al] show ?thesis by simp
  next
    case (taken vw' p f)
    then have "entry_range f \<in> covered vw v" by (auto simp: covered_def)
    with free taken(2) show ?thesis by blast
  next
    case (created vw' c s)
    have new: "bt_get (entries (vmar_state_of vw v)) s = None"
      by (rule no_overlap_fresh [OF space_okD(1) [OF ok v] created(4) aligned_wfD(5) [OF al] created(3)])
    have get: "bt_get (entries (vmar_state_of vw' v)) p =
        (if p = s then Some (Region (user_range segment) c) else bt_get (entries (vmar_state_of vw v)) p)" for p
      using created(10) by (simp add: bt_get_insert)
    have "allocate_segment vw v segment = Some (Ok c, vw')"
      using created(8) sr by (simp add: allocate_segment_def)
    moreover have "covered vw' v = insert (user_range segment) (covered vw v)"
      using new by (auto simp: covered_def get split: if_splits) (metis option.distinct(1))+
    ultimately show ?thesis using created(5,6,9) by blast
  qed
qed

text \<open>C21: on an empty root VMAR over the user address space, \<open>VSpace::new\<close> succeeds and gives each of the
  five user segments a child VMAR of its own over exactly the range of the segment.\<close>

theorem vspace_new_segments:
  assumes ok: "space_ok V vw" and v: "v \<in> V" and empty: "entries (vmar_state_of vw v) = []"
    and user: "user_space_range = Some (vmar_range v)"
  shows "\<exists>vs vw' V'. vspace_new vw v = Some (Ok vs, vw') \<and> vs_root vs = v \<and> V \<subseteq> V' \<and> space_ok V' vw' \<and>
    (\<forall>segment \<in> {UserImage, UserHeap, UserMapped, UserMmio, UserStack}.
       \<exists>c \<in> V' - V. vspace_segment vs segment = Some c \<and> vmar_range c = user_range segment)"
proof -
  have r: "vmar_range v = \<lparr>range_start = segment_start UserLowGuard, range_end = the (end_exclusive UserStack)\<rparr>"
    using user by (auto simp: user_space_range_def expect_def vm_range_new_def split: if_splits)
  have inside: "contains_range (vmar_range v) (user_range segment)"
    if "segment \<in> {UserImage, UserHeap, UserMapped, UserMmio, UserStack}" for segment
    using that unfolding r by (auto simp: contains_range_def user_range_def)
  note dis = overlaps_def user_range_def
  have c0: "covered vw v = {}" using empty by (simp add: covered_def bt_get_def)
  obtain c1 w1 where s1: "allocate_segment vw v UserImage = Some (Ok c1, w1)" "space_ok (insert c1 V) w1" "c1 \<notin> V"
      "vmar_range c1 = user_range UserImage" "covered w1 v = insert (user_range UserImage) (covered vw v)"
    using allocate_segment_ok [OF ok v _ inside, of UserImage] c0 by auto
  obtain c2 w2 where s2: "allocate_segment w1 v UserHeap = Some (Ok c2, w2)" "space_ok (insert c2 (insert c1 V)) w2"
      "c2 \<notin> insert c1 V" "vmar_range c2 = user_range UserHeap" "covered w2 v = insert (user_range UserHeap) (covered w1 v)"
    using allocate_segment_ok [OF s1(2) _ _ inside, of UserHeap] v s1(5) c0 by (auto simp: dis)
  obtain c3 w3 where s3: "allocate_segment w2 v UserMapped = Some (Ok c3, w3)" "space_ok (insert c3 (insert c2 (insert c1 V))) w3"
      "c3 \<notin> insert c2 (insert c1 V)" "vmar_range c3 = user_range UserMapped"
      "covered w3 v = insert (user_range UserMapped) (covered w2 v)"
    using allocate_segment_ok [OF s2(2) _ _ inside, of UserMapped] v s1(5) s2(5) c0 by (auto simp: dis)
  obtain c4 w4 where s4: "allocate_segment w3 v UserMmio = Some (Ok c4, w4)"
      "space_ok (insert c4 (insert c3 (insert c2 (insert c1 V)))) w4"
      "c4 \<notin> insert c3 (insert c2 (insert c1 V))" "vmar_range c4 = user_range UserMmio"
      "covered w4 v = insert (user_range UserMmio) (covered w3 v)"
    using allocate_segment_ok [OF s3(2) _ _ inside, of UserMmio] v s1(5) s2(5) s3(5) c0 by (auto simp: dis)
  obtain c5 w5 where s5: "allocate_segment w4 v UserStack = Some (Ok c5, w5)"
      "space_ok (insert c5 (insert c4 (insert c3 (insert c2 (insert c1 V))))) w5"
      "c5 \<notin> insert c4 (insert c3 (insert c2 (insert c1 V)))" "vmar_range c5 = user_range UserStack"
    using allocate_segment_ok [OF s4(2) _ _ inside, of UserStack] v s1(5) s2(5) s3(5) s4(5) c0 by (auto simp: dis)
  let ?s = "\<lparr>user_image = c1, user_heap = c2, user_mapped = c3, user_mmio = c4, user_stack = c5\<rparr>"
  have run: "vspace_new vw v = Some (Ok \<lparr>vs_root = v, vs_segments = ?s\<rparr>, w5)"
    using s1(1) s2(1) s3(1) s4(1) s5(1) by (simp add: vspace_new_def vspace_segments_new_def then_child_def)
  show ?thesis
    using s1 s2 s3 s4 s5
    by (intro exI [of _ "\<lparr>vs_root = v, vs_segments = ?s\<rparr>"] exI [of _ w5]
        exI [of _ "insert c5 (insert c4 (insert c3 (insert c2 (insert c1 V))))"])
      (auto simp: run vspace_segment_def)
qed

end
