(* ===== verification/Vmar_Examples.thy ===== *)
theory Vmar_Examples
  imports VSpace Vmo_Examples
begin

text \<open>
  The theorems on address spaces at a concrete one: the root VMAR of the user address space, with the
  memory object of two committed pages mapped at the start of the image segment.
\<close>

definition user_rng :: vm_range where
  "user_rng = \<lparr>range_start = 0, range_end = 0x800000000000\<rparr>"

definition vw_init :: vmar_world where
  "vw_init = \<lparr>vmar_states = (\<lambda>_. \<lparr>page_count = 0, free_tree = segment_tree_new 0 1, entries = []\<rparr>), next_vmar = 0\<rparr>"

definition root_v :: vmar where
  "root_v = Vmar 0 user_rng"

definition vw_root :: vmar_world where
  "vw_root = snd (the (vmar_new vw_init user_rng))"

lemma aligned_user_rng: "aligned_wf user_rng"
  by (simp add: aligned_wf_def range_wf_def is_page_aligned_def is_multiple_of_def user_rng_def)

lemma vw_root_facts:
  "vmar_new vw_init user_rng = Some (root_v, vw_root)" "entries (vmar_state_of vw_root root_v) = []"
proof -
  obtain st where st: "vmar_new vw_init user_rng = Some (Vmar (next_vmar vw_init) user_rng,
      (set_vmar_state vw_init (Vmar (next_vmar vw_init) user_rng) st)\<lparr>next_vmar := next_vmar vw_init + 1\<rparr>)"
    "entries st = []"
    using vmar_new_ok [OF aligned_user_rng] by metis
  then show "vmar_new vw_init user_rng = Some (root_v, vw_root)"
    by (simp add: vw_root_def root_v_def vw_init_def)
  show "entries (vmar_state_of vw_root root_v) = []"
    using st by (simp add: vw_root_def root_v_def vw_init_def vmar_state_of_def set_vmar_state_def)
qed

lemma space_ok_root: "space_ok {root_v} vw_root"
proof -
  have "space_ok {} vw_init" by (simp add: space_ok_def)
  from vmar_step_keeps [OF vmar_step.new [OF vw_root_facts(1) aligned_user_rng] this] show ?thesis .
qed

theorem reachable_space_ok_witness: "space_ok {root_v} vw_root"
proof -
  have "vmar_step\<^sup>*\<^sup>* (w_init, {}, vw_init) (w_init, {root_v}, vw_root)"
    using vmar_step.new [OF vw_root_facts(1) aligned_user_rng] by blast
  then show ?thesis by (rule reachable_space_ok)
qed

theorem allocate_child_any_first_fit_witness:
  "\<exists>c vw'. allocate_child_any vw_root root_v 0x2000 = Some (Ok c, vw') \<and> range_start (vmar_range c) = 0 \<and>
     bt_get (entries (vmar_state_of vw' root_v)) 0 = Some (Region (vmar_range c) c)"
proof -
  have gap: "gap_at vw_root root_v 0x2000 0"
    by (simp add: gap_at_def contains_range_def vw_root_facts root_v_def user_rng_def bt_get_def)
      (simp add: vw_root_facts [unfolded root_v_def user_rng_def] bt_get_def)
  have z: "page_addr root_v s = 0 \<longleftrightarrow> s = 0" for s
    by (simp add: page_addr_def root_v_def user_rng_def)
  have sz: "\<not> ((0x2000 :: nat) = 0 \<or> \<not> PAGE_SIZE dvd 0x2000)" and root: "root_v \<in> {root_v}" by simp_all
  have "\<exists>res vw'. allocate_child_any vw_root root_v 0x2000 = Some (res, vw') \<and>
    (case res of
       Inl e \<Rightarrow> \<not> (\<exists>a. gap_at vw_root root_v 0x2000 a)
     | Inr c \<Rightarrow> (\<forall>a. gap_at vw_root root_v 0x2000 a \<longrightarrow> range_start (vmar_range c) \<le> a) \<and>
         (\<exists>s. range_start (vmar_range c) = page_addr root_v s \<and>
            bt_get (entries (vmar_state_of vw' root_v)) s = Some (Region (vmar_range c) c)))"
    using allocate_child_any_first_fit [OF space_ok_root root, of "0x2000"] unfolding if_not_P [OF sz]
    by (elim ex_forward conj_forward) (assumption, auto split: sum.splits)
  then obtain c vw' s where c: "allocate_child_any vw_root root_v 0x2000 = Some (Inr c, vw')"
      "range_start (vmar_range c) \<le> 0" "range_start (vmar_range c) = page_addr root_v s"
      "bt_get (entries (vmar_state_of vw' root_v)) s = Some (Region (vmar_range c) c)"
    using gap by (auto simp: split_sum_ex)
  with z [of s] show ?thesis by auto
qed

text \<open>The memory object of the examples, mapped readable and writable at the start of the image.\<close>

definition image_rng :: vm_range where
  "image_rng = \<lparr>range_start = 0x400000, range_end = 0x402000\<rparr>"

definition rw_map :: vm_flags where
  "rw_map = VM_FLAG_READ OR VM_FLAG_WRITE OR VM_FLAG_USER"

definition image_map :: vmar_mapping where
  "image_map = \<lparr>map_range = image_rng, map_flags = rw_map, map_purpose = General, map_vmo = obj, map_vmo_offset = 0\<rparr>"

definition vw_map :: vmar_world where
  "vw_map = snd (the (map_vmo w_full vw_root root_v image_rng obj 0 rw_map General))"

lemma image_wf: "range_wf image_rng" "is_page_aligned image_rng" "contains_range (vmar_range root_v) image_rng"
  by (simp_all add: range_wf_def is_page_aligned_def is_multiple_of_def contains_range_def image_rng_def root_v_def user_rng_def)

lemma classify_image: "classify_range image_rng = Some UserImage"
  unfolding classify_range_iff [OF image_wf(1)]
  by (auto simp: in_segment_def image_rng_def range_contains_def)

lemma image_layout: "validate_layout w_full image_map"
proof -
  have f: "allows_mmu (max_flags UserImage) rw_map" "\<not> contains rw_map VM_FLAG_GLOBAL" "\<not> contains rw_map VM_FLAG_DEVICE"
    "contains rw_flags VM_FLAG_MAP" "contains rw_flags VM_FLAG_READ" "contains rw_flags VM_FLAG_WRITE"
    "\<not> contains rw_map VM_FLAG_EXECUTE"
    by code_simp+
  then have "can_map w_full obj rw_map" by (simp add: can_map_def vmo_flags_def w_full_inner)
  moreover have "saturating_add 0 (range_len image_rng) \<le> vmo_size w_full obj"
    by (simp add: saturating_add_def vmo_size_def w_full_inner range_len_def image_rng_def)
  ultimately show ?thesis
    using f by (simp add: validate_layout_def image_map_def classify_image is_guard_def)
qed

theorem map_vmo_exact_witness:
  "\<exists>vw'. map_vmo w_full vw_root root_v image_rng obj 0 rw_map General = Some (Ok (), vw') \<and>
     locate vw' root_v 0x401234 = Some (vm_pointer_region.Mapping image_map)"
proof -
  have c: "is_multiple_of 0 (vmo_page_size obj)" "range_contains image_rng 0x401234"
    by (simp_all add: is_multiple_of_def range_contains_def image_rng_def)
  show ?thesis
    using map_vmo_exact [OF space_ok_root _ image_wf(1), of root_v w_full obj 0 rw_map General] image_wf image_layout c
    by (auto simp: image_map_def vw_root_facts bt_get_def)
qed

lemma vw_map_facts:
  "map_vmo w_full vw_root root_v image_rng obj 0 rw_map General = Some (Ok (), vw_map)"
  "space_ok {root_v} vw_map" "range_contains image_rng a \<Longrightarrow> locate vw_map root_v a = Some (vm_pointer_region.Mapping image_map)"
  "(\<exists>p. bt_get (entries (vmar_state_of vw_map root_v)) p = Some e) \<longleftrightarrow> e = vmar_entry.Mapping image_map"
proof -
  from space_ok_root have vok: "vmar_ok root_v (vmar_state_of vw_root root_v)" by (simp add: space_okD(1))
  have run: "map_vmo w_full vw_root root_v image_rng obj 0 rw_map General = insert_entry vw_root root_v (vmar_entry.Mapping image_map)"
    using image_wf(2) image_layout by (simp add: map_vmo_def image_map_def is_multiple_of_def)
  have er: "entry_range (vmar_entry.Mapping image_map) = image_rng" by (simp add: image_map_def)
  have en: "entry_ok {root_v} root_v (vmar_entry.Mapping image_map)"
    using validate_layout_mapping [OF image_layout] by (simp add: entry_ok_def)
  have wf: "range_wf (entry_range (vmar_entry.Mapping image_map))" using image_wf(1) er by simp
  have rv: "root_v \<in> {root_v}" by simp
  from space_ok_root rv wf en obtain s vw' where i: "insert_entry vw_root root_v (vmar_entry.Mapping image_map) = Some (Ok (), vw')"
      "space_ok {root_v} vw'" "bt_get (entries (vmar_state_of vw_root root_v)) s = None"
      "entries (vmar_state_of vw' root_v) = bt_insert s (vmar_entry.Mapping image_map) (entries (vmar_state_of vw_root root_v))"
    by (cases rule: insert_entry_effect) (use image_wf er in \<open>auto simp: vw_root_facts bt_get_def\<close>)
  have eq: "vw_map = vw'" by (simp add: vw_map_def run i(1))
  show "map_vmo w_full vw_root root_v image_rng obj 0 rw_map General = Some (Ok (), vw_map)"
    "space_ok {root_v} vw_map" using run i(1,2) eq by simp_all
  show "locate vw_map root_v a = Some (vm_pointer_region.Mapping image_map)" if "range_contains image_rng a"
    using locate_entry [OF space_okD(1) [OF i(2) rv] entry_at_insert(2) [OF i(3,4)], of a] that er eq by simp
  show "(\<exists>p. bt_get (entries (vmar_state_of vw_map root_v)) p = Some e) \<longleftrightarrow> e = vmar_entry.Mapping image_map"
    unfolding eq i(4) bt_get_insert vw_root_facts by (auto simp: bt_get_def)
qed

theorem locate_iff_mapped_witness:
  "\<exists>m. locate vw_map root_v 0x400000 = Some (vm_pointer_region.Mapping m) \<and> below vw_map root_v (vmar_entry.Mapping m)"
  using locate_iff_mapped [OF vw_map_facts(2), of root_v "0x400000"] vw_map_facts(3) [of "0x400000"]
  by (auto simp: range_contains_def image_rng_def)

theorem map_unmap_roundtrip_witness:
  "\<exists>vw''. unmap vw_map root_v 0x400000 = Some (Ok (vmar_entry.Mapping image_map), vw'') \<and>
     entries (vmar_state_of vw'' root_v) = []"
  using map_unmap_roundtrip [OF space_ok_root _ image_wf(1) vw_map_facts(1)]
  by (auto simp: image_map_def vw_root_facts) (auto simp: image_rng_def vw_root_facts)

theorem unmap_exact_witness:
  "\<exists>vw'. unmap vw_map root_v 0x400000 = Some (Ok (vmar_entry.Mapping image_map), vw') \<and>
     locate vw' root_v 0x401234 = Some (Reserved (vmar_range root_v))"
proof -
  have "range_contains image_rng 0x401234" "range_start image_rng = 0x400000" "map_range image_map = image_rng"
    by (simp_all add: range_contains_def image_rng_def image_map_def)
  then show ?thesis
    using unmap_exact [OF vw_map_facts(2), of root_v "0x400000"] vw_map_facts(4)
    by (simp add: split_sum_ex) (metis entry_range.simps(2))
qed

definition ro_map :: vm_flags where
  "ro_map = VM_FLAG_READ OR VM_FLAG_USER"

lemma image_layout_ro: "validate_layout w_full (image_map\<lparr>map_flags := ro_map\<rparr>)"
proof -
  have f: "allows_mmu (max_flags UserImage) ro_map" "\<not> contains ro_map VM_FLAG_GLOBAL" "\<not> contains ro_map VM_FLAG_DEVICE"
    "contains rw_flags VM_FLAG_MAP" "contains rw_flags VM_FLAG_READ" "\<not> contains ro_map VM_FLAG_WRITE"
    "\<not> contains ro_map VM_FLAG_EXECUTE"
    by code_simp+
  then have "can_map w_full obj ro_map" by (simp add: can_map_def vmo_flags_def w_full_inner)
  moreover have "saturating_add 0 (range_len image_rng) \<le> vmo_size w_full obj"
    by (simp add: saturating_add_def vmo_size_def w_full_inner range_len_def image_rng_def)
  ultimately show ?thesis
    using f by (simp add: validate_layout_def image_map_def classify_image is_guard_def)
qed

theorem protect_exact_witness:
  "\<exists>vw'. protect w_full vw_map root_v image_rng ro_map = (Ok (), vw') \<and>
     locate vw' root_v 0x401234 = Some (vm_pointer_region.Mapping (image_map\<lparr>map_flags := ro_map\<rparr>))"
proof -
  obtain res vw' where run: "protect w_full vw_map root_v image_rng ro_map = (res, vw')" by fastforce
  have root: "root_v \<in> {root_v}" and r: "range_contains image_rng 0x401234" "map_range image_map = image_rng"
    by (simp_all add: range_contains_def image_rng_def image_map_def)
  obtain p where p: "bt_get (entries (vmar_state_of vw_map root_v)) p = Some (vmar_entry.Mapping image_map)"
    using vw_map_facts(4) by blast
  note ex = protect_exact [OF vw_map_facts(2) root image_wf(1) run]
  show ?thesis
  proof (cases res)
    case (Inl e)
    with ex p r(2) image_layout_ro show ?thesis by auto
  next
    case (Inr u)
    with ex r(1) vw_map_facts(4) have "locate vw' root_v 0x401234 =
        Some (vm_pointer_region.Mapping (image_map\<lparr>map_flags := ro_map\<rparr>))"
      by auto
    with run Inr show ?thesis by simp
  qed
qed

theorem validate_range_iff_witness:
  "\<exists>vs. vs_root vs = root_v \<and> validate_range vw_map vs image_rng VM_FLAG_READ = Some (Ok ())"
proof -
  let ?vs = "\<lparr>vs_root = root_v, vs_segments = \<lparr>user_image = root_v, user_heap = root_v, user_mapped = root_v,
    user_mmio = root_v, user_stack = root_v\<rparr>\<rparr>"
  have "allows_mmu rw_map VM_FLAG_READ" by code_simp
  then have "\<forall>a. range_contains image_rng a \<longrightarrow>
      range_contains (vmar_range (vs_root ?vs)) a \<and> accessible vw_map (vs_root ?vs) VM_FLAG_READ a"
    using vw_map_facts(3) image_wf(3)
    by (auto simp: accessible_def image_map_def contains_range_def range_contains_def)
  then have "validate_range vw_map ?vs image_rng VM_FLAG_READ = Some (Ok ())"
    using validate_range_iff [OF vw_map_facts(2) _ image_wf(1), of ?vs VM_FLAG_READ] by auto
  then show ?thesis by (intro exI [of _ ?vs]) simp
qed

theorem vspace_new_segments_witness:
  "\<exists>vs vw' c. vspace_new vw_root root_v = Some (Ok vs, vw') \<and> vspace_segment vs UserHeap = Some c \<and>
     vmar_range c = user_range UserHeap"
proof -
  have user: "user_space_range = Some (vmar_range root_v)"
    by (simp add: user_space_range_def expect_def vm_range_new_def root_v_def user_rng_def)
  show ?thesis
    using vspace_new_segments [OF space_ok_root _ vw_root_facts(2) user] by fastforce
qed

end
