(* ===== verification/Object_Caps.thy ===== *)
theory Object_Caps
  imports Syscall_Abi
begin

text \<open>
  Capabilities and tokens, \<open>library/object/src/object/cap.rs\<close>, and the capability check of the
  control-plane modes in \<open>object/mod.rs\<close>. A capability set is its raw 32-bit word; \<open>TRUSTED\<close>
  names every bit, so the complement of a set is the complement of the word.
\<close>

type_synonym capability = u32

definition CAP_CLONE :: capability where "CAP_CLONE = 1"
definition CAP_SEND :: capability where "CAP_SEND = 2"
definition CAP_READ :: capability where "CAP_READ = 4"
definition CAP_WRITE :: capability where "CAP_WRITE = 8"
definition CAP_EXECUTE :: capability where "CAP_EXECUTE = 16"
definition CAP_ADMIN :: capability where "CAP_ADMIN = 32"
definition CAP_AGENT :: capability where "CAP_AGENT = 64"

definition CAP_ADMIN_GRP :: capability where
  "CAP_ADMIN_GRP = CAP_ADMIN OR CAP_READ OR CAP_WRITE OR CAP_EXECUTE OR CAP_AGENT"

definition CAP_AGENT_GRP :: capability where
  "CAP_AGENT_GRP = CAP_AGENT OR CAP_SEND OR CAP_READ OR CAP_WRITE OR CAP_EXECUTE"

definition CAP_TRUSTED :: capability where "CAP_TRUSTED = - 1"

definition U32_MAX :: u32 where "U32_MAX = - 1"

lemmas cap_defs = CAP_CLONE_def CAP_SEND_def CAP_READ_def CAP_WRITE_def CAP_EXECUTE_def CAP_ADMIN_def CAP_AGENT_def
  CAP_ADMIN_GRP_def CAP_AGENT_GRP_def CAP_TRUSTED_def U32_MAX_def

record token =
  tok_id :: "usize option"
  tok_caps :: capability
  tok_icaps :: u32

definition token_new :: "usize option \<Rightarrow> capability \<Rightarrow> u32 \<Rightarrow> token outcome" where
  "token_new oid caps icaps =
     (if icaps \<noteq> U32_MAX \<and> (contains caps CAP_ADMIN \<or> contains caps CAP_AGENT) then Panicked
      else Returned \<lparr>tok_id = oid, tok_caps = caps, tok_icaps = icaps\<rparr>)"

definition token_contains :: "token \<Rightarrow> capability \<Rightarrow> bool" where
  "token_contains self cap \<longleftrightarrow> contains (tok_caps self) cap"

definition token_downgrade :: "token \<Rightarrow> capability \<Rightarrow> u32 \<Rightarrow> token" where
  "token_downgrade self caps icaps =
     self\<lparr>tok_caps := bits_remove (tok_caps self) caps, tok_icaps := tok_icaps self AND NOT icaps\<rparr>"

definition cp_mode_allows :: "cp_access_mode \<Rightarrow> capability \<Rightarrow> (unit, object_error) result" where
  "cp_mode_allows mode caps =
     (let allowed = (case mode of
          cp_access_mode.Read \<Rightarrow> contains caps CAP_READ
        | cp_access_mode.Write \<Rightarrow> contains caps CAP_WRITE
        | cp_access_mode.Execute \<Rightarrow> contains caps CAP_EXECUTE
        | cp_access_mode.Agent \<Rightarrow> contains caps CAP_AGENT
        | cp_access_mode.Admin \<Rightarrow> contains caps CAP_ADMIN)
      in if allowed then Ok () else Err InsufficientCapabilities)"

subsection \<open>Tokens that can be rebuilt\<close>

text \<open>What \<open>Token::new\<close> demands: a token with \<open>ADMIN\<close> or \<open>AGENT\<close> has every interface capability.\<close>

definition token_ok :: "token \<Rightarrow> bool" where
  "token_ok t \<longleftrightarrow> (contains (tok_caps t) CAP_ADMIN \<or> contains (tok_caps t) CAP_AGENT \<longrightarrow> tok_icaps t = U32_MAX)"

lemma token_new_Some: "token_new oid caps icaps = Some t \<longleftrightarrow>
    t = \<lparr>tok_id = oid, tok_caps = caps, tok_icaps = icaps\<rparr> \<and> token_ok t"
  by (auto simp: token_new_def token_ok_def)

lemma token_new_same: "token_new (tok_id t) (tok_caps t) (tok_icaps t) = Some t \<longleftrightarrow> token_ok t"
  by (auto simp: token_new_def token_ok_def)

lemma U32_MAX_or [simp]: "U32_MAX OR x = U32_MAX" "x OR U32_MAX = U32_MAX"
  by (simp_all add: U32_MAX_def)

lemma U32_MAX_and [simp]: "U32_MAX AND x = x" "x AND U32_MAX = x"
  by (simp_all add: U32_MAX_def)

lemma bit_cap:
  "bit CAP_CLONE n \<longleftrightarrow> n = 0" "bit CAP_SEND n \<longleftrightarrow> n = 1" "bit CAP_READ n \<longleftrightarrow> n = 2" "bit CAP_WRITE n \<longleftrightarrow> n = 3"
  "bit CAP_EXECUTE n \<longleftrightarrow> n = 4" "bit CAP_ADMIN n \<longleftrightarrow> n = 5" "bit CAP_AGENT n \<longleftrightarrow> n = 6"
proof -
  have pow: "bit (2 ^ k :: u32) n \<longleftrightarrow> n = k" if "k < 32" for k n
    using that by (auto simp: bit_simps)
  have caps: "CAP_CLONE = 2 ^ 0" "CAP_SEND = 2 ^ 1" "CAP_READ = 2 ^ 2" "CAP_WRITE = 2 ^ 3" "CAP_EXECUTE = 2 ^ 4"
    "CAP_ADMIN = 2 ^ 5" "CAP_AGENT = 2 ^ 6"
    by (simp_all add: cap_defs)
  show "bit CAP_CLONE n \<longleftrightarrow> n = 0" "bit CAP_SEND n \<longleftrightarrow> n = 1" "bit CAP_READ n \<longleftrightarrow> n = 2" "bit CAP_WRITE n \<longleftrightarrow> n = 3"
    "bit CAP_EXECUTE n \<longleftrightarrow> n = 4" "bit CAP_ADMIN n \<longleftrightarrow> n = 5" "bit CAP_AGENT n \<longleftrightarrow> n = 6"
    unfolding caps by (rule pow; simp)+
qed

lemma contains_cap:
  "contains c CAP_CLONE \<longleftrightarrow> bit c 0" "contains c CAP_SEND \<longleftrightarrow> bit c 1" "contains c CAP_READ \<longleftrightarrow> bit c 2"
  "contains c CAP_WRITE \<longleftrightarrow> bit c 3" "contains c CAP_EXECUTE \<longleftrightarrow> bit c 4" "contains c CAP_ADMIN \<longleftrightarrow> bit c 5"
  "contains c CAP_AGENT \<longleftrightarrow> bit c 6"
  by (auto simp: contains_bit bit_cap)

lemmas cap_bits = contains_cap bit_cap bit_simps CAP_ADMIN_GRP_def CAP_AGENT_GRP_def

lemma token_ok_bit: "token_ok t \<longleftrightarrow> (bit (tok_caps t) 5 \<or> bit (tok_caps t) 6 \<longrightarrow> tok_icaps t = U32_MAX)"
  by (simp add: token_ok_def contains_cap)

end
