(* ===== verification/Object_World.thy ===== *)
theory Object_World
  imports Object_Caps BTree_Map "HOL-Library.Char_ord" "HOL-Library.List_Lexorder"
begin

text \<open>
  The object tree, \<open>library/object/src\<close>: objects (\<open>object/mod.rs\<close>), the checks of the container
  (\<open>object/container.rs\<close>), handles and permits (\<open>object/handle.rs\<close>) and the registry
  (\<open>registry.rs\<close>). An \<open>Arc<Object>\<close> is an address into the store of live objects. A removed object
  leaves the registry at once, but its memory is freed only when the collector of the skip list
  gets to it, which is the separate operation \<open>collect\<close>; until then weak references upgrade. The skip
  maps are ordered maps.
\<close>

subsection \<open>Objects\<close>

datatype object_status = Active | Destroying

type_synonym addr = nat

record 'p object =
  obj_registered :: bool
  obj_id :: usize
  obj_parent :: "usize option"
  obj_name :: string
  obj_status :: object_status
  obj_masked_caps :: capability
  obj_lifecycle_flags :: u32
  obj_public_interface_caps :: u32
  obj_payload :: 'p
  obj_children :: "(string, usize) btree"

record index_allocator =
  ia_next :: usize
  ia_reclaimed :: "usize list"

record 'p obj_world =
  objs :: "(addr, 'p object) btree"
  reg_map :: "(usize, addr) btree"
  idx_allocator :: index_allocator
  next_obj :: addr

definition obj_of :: "'p obj_world \<Rightarrow> addr \<Rightarrow> 'p object" where
  "obj_of w a = the (bt_get (objs w) a)"

text \<open>\<open>status.load() == ObjectStatus::Active\<close>.\<close>

definition is_active :: "'p obj_world \<Rightarrow> addr \<Rightarrow> bool" where
  "is_active w a = (case bt_get (objs w) a of None \<Rightarrow> False | Some ob \<Rightarrow> obj_status ob = Active)"

definition set_obj :: "'p obj_world \<Rightarrow> addr \<Rightarrow> 'p object \<Rightarrow> 'p obj_world" where
  "set_obj w a ob = w\<lparr>objs := bt_insert a ob (objs w)\<rparr>"

definition LIFECYCLE_NONE :: u32 where "LIFECYCLE_NONE = 0"
definition LIFECYCLE_STICKY :: u32 where "LIFECYCLE_STICKY = 1"

definition lifecycle_flags :: "'p object \<Rightarrow> u32" where
  "lifecycle_flags self =
     (case object_lifecycle_flags_from_bits (obj_lifecycle_flags self) of None \<Rightarrow> LIFECYCLE_NONE | Some f \<Rightarrow> f)"

definition set_lifecycle_flags :: "'p obj_world \<Rightarrow> addr \<Rightarrow> u32 \<Rightarrow> 'p obj_world" where
  "set_lifecycle_flags w self flags = set_obj w self ((obj_of w self)\<lparr>obj_lifecycle_flags := flags\<rparr>)"

definition is_sticky :: "'p object \<Rightarrow> bool" where
  "is_sticky self = contains (lifecycle_flags self) LIFECYCLE_STICKY"

definition query_child :: "'p object \<Rightarrow> string \<Rightarrow> (usize, object_error) result" where
  "query_child self name = ok_or ObjectNotFound (bt_get (obj_children self) name)"

definition set_masked_caps :: "'p obj_world \<Rightarrow> addr \<Rightarrow> capability \<Rightarrow> 'p obj_world" where
  "set_masked_caps w self caps = set_obj w self ((obj_of w self)\<lparr>obj_masked_caps := caps\<rparr>)"

definition set_public_interface_caps :: "'p obj_world \<Rightarrow> addr \<Rightarrow> u32 \<Rightarrow> 'p obj_world" where
  "set_public_interface_caps w self caps = set_obj w self ((obj_of w self)\<lparr>obj_public_interface_caps := caps\<rparr>)"

subsection \<open>Indices\<close>

definition index_allocator_new :: "usize \<Rightarrow> index_allocator" where
  "index_allocator_new start = \<lparr>ia_next = start, ia_reclaimed = []\<rparr>"

definition allocate_index :: "index_allocator \<Rightarrow> usize \<times> index_allocator" where
  "allocate_index self =
     (case ia_reclaimed self of
        index # rest \<Rightarrow> (index, self\<lparr>ia_reclaimed := rest\<rparr>)
      | [] \<Rightarrow> (ia_next self, self\<lparr>ia_next := (ia_next self + 1) mod 2 ^ 64\<rparr>))"

definition reclaim_index :: "index_allocator \<Rightarrow> usize \<Rightarrow> index_allocator" where
  "reclaim_index self index = self\<lparr>ia_reclaimed := ia_reclaimed self @ [index]\<rparr>"

subsection \<open>Paths\<close>

text \<open>\<open>str::split\<close> at a character.\<close>

fun split_at_char :: "char \<Rightarrow> string \<Rightarrow> string list" where
  "split_at_char c [] = [[]]"
| "split_at_char c (x # xs) =
     (if x = c then [] # split_at_char c xs
      else case split_at_char c xs of [] \<Rightarrow> [[x]] | s # ss \<Rightarrow> (x # s) # ss)"

definition path_is_absolute :: "string \<Rightarrow> bool" where
  "path_is_absolute self = (case self of [] \<Rightarrow> False | c # _ \<Rightarrow> c = CHR ''/'')"

definition path_components :: "string \<Rightarrow> string list" where
  "path_components self = filter (\<lambda>component. component \<noteq> []) (split_at_char (CHR ''/'') self)"

text \<open>\<open>[&str]::join\<close>.\<close>

fun str_join :: "string \<Rightarrow> string list \<Rightarrow> string" where
  "str_join sep [] = []"
| "str_join sep [s] = s"
| "str_join sep (s # t # ss) = s @ sep @ str_join sep (t # ss)"

definition path_parent :: "string \<Rightarrow> string option" where
  "path_parent self =
     (let components = path_components self
      in if components = [] then None
         else Some (CHR ''/'' # str_join ''/'' (butlast components)))"

definition path_join :: "string \<Rightarrow> string \<Rightarrow> string" where
  "path_join self other =
     (let new_path = (if self \<noteq> [] \<and> last self = CHR ''/'' then self else self @ ''/'') in new_path @ other)"

subsection \<open>Containers\<close>

definition verify_capabilities :: "'p object \<Rightarrow> token \<Rightarrow> capability \<Rightarrow> (unit, object_error) result" where
  "verify_capabilities self t required =
     (if obj_status self \<noteq> Active then Err ObjectDestroyed
      else if tok_id t \<noteq> None \<and> tok_id t \<noteq> Some (obj_id self) then Err InvalidArgument
      else if \<not> token_contains t required then Err InsufficientCapabilities
      else Ok ())"

definition derive_token :: "'p object \<Rightarrow> token \<Rightarrow> (token, object_error) result outcome" where
  "derive_token self parent_token =
     (if obj_status self \<noteq> Active then Returned (Err ObjectDestroyed)
      else if tok_id parent_token \<noteq> obj_parent self then Returned (Err InvalidArgument)
      else if \<not> token_contains parent_token CAP_READ then Returned (Err InsufficientCapabilities)
      else
        let masked_caps = obj_masked_caps self;
            final_caps = tok_caps parent_token AND NOT masked_caps;
            interface_caps =
              (if contains final_caps CAP_ADMIN \<or> contains final_caps CAP_AGENT then U32_MAX
               else obj_public_interface_caps self);
            append_caps =
              (if (contains masked_caps CAP_ADMIN \<or> contains masked_caps CAP_AGENT) \<and>
                  (token_contains parent_token CAP_ADMIN \<or> token_contains parent_token CAP_AGENT)
               then CAP_CLONE OR CAP_SEND else 0)
        in map_option Ok (token_new (Some (obj_id self)) (tok_caps parent_token AND NOT masked_caps OR append_caps) interface_caps))"

text \<open>The guarded accesses of a container: the closure runs on the object only after the checks.\<close>

definition container_access :: "'p obj_world \<Rightarrow> addr \<Rightarrow> token \<Rightarrow> capability \<Rightarrow> (addr, object_error) result" where
  "container_access w self t required = map_sum id (\<lambda>_. self) (verify_capabilities (obj_of w self) t required)"

definition container_read_with :: "'p obj_world \<Rightarrow> addr \<Rightarrow> token \<Rightarrow> (addr, object_error) result" where
  "container_read_with w self t = container_access w self t CAP_READ"

definition container_write_with :: "'p obj_world \<Rightarrow> addr \<Rightarrow> token \<Rightarrow> (addr, object_error) result" where
  "container_write_with w self t = container_access w self t CAP_WRITE"

definition container_admin_with :: "'p obj_world \<Rightarrow> addr \<Rightarrow> token \<Rightarrow> (addr, object_error) result" where
  "container_admin_with w self t = container_access w self t CAP_ADMIN_GRP"

text \<open>The accesses to the payload: \<open>typed\<close> is the downcast of \<open>Payload::typed\<close>; the closure gets the
  payload and the interface capabilities of the token, from which the guard is made.\<close>

definition container_cp_access ::
    "'p obj_world \<Rightarrow> addr \<Rightarrow> token \<Rightarrow> capability \<Rightarrow> ('p \<Rightarrow> 't option) \<Rightarrow> ('t \<times> u32, object_error) result" where
  "container_cp_access w self t required typed =
     (case verify_capabilities (obj_of w self) t required of
        Inl e \<Rightarrow> Err e
      | Inr _ \<Rightarrow> (case typed (obj_payload (obj_of w self)) of
            None \<Rightarrow> Err InvalidArgument
          | Some p \<Rightarrow> Ok (p, tok_icaps t)))"

definition container_read_cp_with :: "'p obj_world \<Rightarrow> addr \<Rightarrow> token \<Rightarrow> ('p \<Rightarrow> 't option) \<Rightarrow> ('t \<times> u32, object_error) result" where
  "container_read_cp_with w self t typed = container_cp_access w self t CAP_READ typed"

definition container_write_cp_with :: "'p obj_world \<Rightarrow> addr \<Rightarrow> token \<Rightarrow> ('p \<Rightarrow> 't option) \<Rightarrow> ('t \<times> u32, object_error) result" where
  "container_write_cp_with w self t typed = container_cp_access w self t CAP_WRITE typed"

definition container_execute_cp_with :: "'p obj_world \<Rightarrow> addr \<Rightarrow> token \<Rightarrow> ('p \<Rightarrow> 't option) \<Rightarrow> ('t \<times> u32, object_error) result" where
  "container_execute_cp_with w self t typed = container_cp_access w self t CAP_EXECUTE typed"

definition container_agent_cp_with :: "'p obj_world \<Rightarrow> addr \<Rightarrow> token \<Rightarrow> ('p \<Rightarrow> 't option) \<Rightarrow> ('t \<times> u32, object_error) result" where
  "container_agent_cp_with w self t typed = container_cp_access w self t CAP_AGENT typed"

definition container_admin_cp_with :: "'p obj_world \<Rightarrow> addr \<Rightarrow> token \<Rightarrow> ('p \<Rightarrow> 't option) \<Rightarrow> ('t \<times> u32, object_error) result" where
  "container_admin_cp_with w self t typed = container_cp_access w self t CAP_ADMIN typed"

text \<open>\<open>invoke_cp\<close> up to the dispatch: the payload, and the interface capabilities that the guard of the
  mode gets.\<close>

definition container_invoke_cp :: "'p obj_world \<Rightarrow> addr \<Rightarrow> token \<Rightarrow> cp_access_mode \<Rightarrow> ('p \<times> u32, object_error) result" where
  "container_invoke_cp w self t mode =
     (case verify_capabilities (obj_of w self) t (tok_caps t) of
        Inl e \<Rightarrow> Err e
      | Inr _ \<Rightarrow> (case cp_mode_allows mode (tok_caps t) of
            Inl e \<Rightarrow> Err e
          | Inr _ \<Rightarrow> Ok (obj_payload (obj_of w self), tok_icaps t)))"

subsection \<open>Handles and permits\<close>

datatype object_ref = Shared addr | Owned addr

record handle =
  h_token :: token
  h_registered :: bool
  h_object :: object_ref

datatype permit_kind = OneShot | Permanent

record permit =
  permit_token :: token
  permit_kind :: permit_kind

definition upgrade_ref :: "'p obj_world \<Rightarrow> object_ref \<Rightarrow> addr option" where
  "upgrade_ref w self =
     (case self of
        Shared a \<Rightarrow> if bt_get (objs w) a = None then None else Some a
      | Owned a \<Rightarrow> Some a)"

primrec into_shared :: "object_ref \<Rightarrow> object_ref" where
  "into_shared (Shared a) = Shared a"
| "into_shared (Owned a) = Shared a"

definition new_anonymous :: "'p obj_world \<Rightarrow> 'p \<Rightarrow> capability \<Rightarrow> (handle \<times> 'p obj_world) outcome" where
  "new_anonymous w payload masked_caps = do {
     let ob = \<lparr>obj_registered = False, obj_id = 0, obj_parent = None, obj_name = ''#anonymous'', obj_status = Active,
                   obj_masked_caps = masked_caps, obj_lifecycle_flags = LIFECYCLE_NONE, obj_public_interface_caps = 0,
                   obj_payload = payload, obj_children = []\<rparr>;
     let a = next_obj w;
     t \<leftarrow> token_new None CAP_ADMIN_GRP U32_MAX;
     Returned (\<lparr>h_token = t, h_registered = False, h_object = Owned a\<rparr>, (set_obj w a ob)\<lparr>next_obj := a + 1\<rparr>)
   }"

definition is_valid :: "'p obj_world \<Rightarrow> handle \<Rightarrow> bool" where
  "is_valid w self =
     (case upgrade_ref w (h_object self) of None \<Rightarrow> False | Some a \<Rightarrow> is_active w a)"

definition is_anonymous :: "handle \<Rightarrow> bool" where
  "is_anonymous self = (case h_object self of Owned _ \<Rightarrow> True | Shared _ \<Rightarrow> False)"

abbreviation capabilities :: "handle \<Rightarrow> capability" where
  "capabilities self \<equiv> tok_caps (h_token self)"

abbreviation interface_caps :: "handle \<Rightarrow> u32" where
  "interface_caps self \<equiv> tok_icaps (h_token self)"

definition object_key :: "'p obj_world \<Rightarrow> handle \<Rightarrow> (addr, object_error) result" where
  "object_key w self = ok_or ObjectDestroyed (upgrade_ref w (h_object self))"

definition handle_set_lifecycle_flags :: "'p obj_world \<Rightarrow> handle \<Rightarrow> u32 \<Rightarrow> (unit, object_error) result \<times> 'p obj_world" where
  "handle_set_lifecycle_flags w self flags =
     (case upgrade_ref w (h_object self) of
        None \<Rightarrow> (Err ObjectDestroyed, w)
      | Some a \<Rightarrow> (Ok (), set_lifecycle_flags w a flags))"

definition handle_downgrade :: "handle \<Rightarrow> capability \<Rightarrow> u32 \<Rightarrow> handle" where
  "handle_downgrade self caps icaps = self\<lparr>h_token := token_downgrade (h_token self) caps icaps\<rparr>"

definition issue_permit :: "'p obj_world \<Rightarrow> handle \<Rightarrow> capability \<Rightarrow> bool \<Rightarrow> u32 \<Rightarrow> (permit, object_error) result outcome" where
  "issue_permit w self cap oneshot icaps =
     (if \<not> is_valid w self then Returned (Err ObjectDestroyed)
      else if \<not> contains (capabilities self) CAP_ADMIN \<and> \<not> contains (capabilities self) CAP_AGENT
      then Returned (Err InsufficientCapabilities)
      else if contains cap CAP_ADMIN \<or> contains cap CAP_AGENT then Returned (Err InvalidArgument)
      else do {
        t \<leftarrow> token_new (tok_id (h_token self)) cap icaps;
        Returned (Ok \<lparr>permit_token = t, permit_kind = (if oneshot then OneShot else Permanent)\<rparr>)
      })"

text \<open>The handle that \<open>upgrade_oneshot\<close> lends to its closure.\<close>

definition upgrade_oneshot :: "'p obj_world \<Rightarrow> permit \<Rightarrow> handle \<Rightarrow> (handle, object_error) result outcome" where
  "upgrade_oneshot w self h =
     (if permit_kind self \<noteq> OneShot then Returned (Err InvalidArgument)
      else if \<not> is_valid w h then Returned (Err ObjectDestroyed)
      else if tok_id (permit_token self) \<noteq> tok_id (h_token h) then Returned (Err InvalidArgument)
      else do {
        t \<leftarrow> token_new (tok_id (h_token h)) (capabilities h OR tok_caps (permit_token self))
               (interface_caps h OR tok_icaps (permit_token self));
        Returned (Ok \<lparr>h_token = t, h_registered = h_registered h, h_object = into_shared (h_object h)\<rparr>)
      })"

definition handle_upgrade :: "'p obj_world \<Rightarrow> handle \<Rightarrow> permit \<Rightarrow> (handle, object_error) result outcome" where
  "handle_upgrade w self permit =
     (if permit_kind permit \<noteq> Permanent then Returned (Err InvalidArgument)
      else if \<not> is_valid w self then Returned (Err ObjectDestroyed)
      else if tok_id (permit_token permit) \<noteq> tok_id (h_token self) then Returned (Err InvalidArgument)
      else do {
        t \<leftarrow> token_new (tok_id (h_token self)) (capabilities self OR tok_caps (permit_token permit))
               (interface_caps self OR tok_icaps (permit_token permit));
        Returned (Ok (self\<lparr>h_token := t\<rparr>))
      })"

text \<open>A handle upgrades its reference and passes its token to the container.\<close>

definition handle_with :: "'p obj_world \<Rightarrow> handle \<Rightarrow> (addr \<Rightarrow> token \<Rightarrow> ('a, object_error) result) \<Rightarrow> ('a, object_error) result" where
  "handle_with w self f =
     (case upgrade_ref w (h_object self) of
        None \<Rightarrow> Err ObjectDestroyed
      | Some a \<Rightarrow> f a (h_token self))"

definition read_with :: "'p obj_world \<Rightarrow> handle \<Rightarrow> (addr, object_error) result" where
  "read_with w self = handle_with w self (container_read_with w)"

definition write_with :: "'p obj_world \<Rightarrow> handle \<Rightarrow> (addr, object_error) result" where
  "write_with w self = handle_with w self (container_write_with w)"

definition admin_with :: "'p obj_world \<Rightarrow> handle \<Rightarrow> (addr, object_error) result" where
  "admin_with w self = handle_with w self (container_admin_with w)"

definition read_cp_with :: "'p obj_world \<Rightarrow> handle \<Rightarrow> ('p \<Rightarrow> 't option) \<Rightarrow> ('t \<times> u32, object_error) result" where
  "read_cp_with w self typed = handle_with w self (\<lambda>a t. container_read_cp_with w a t typed)"

definition write_cp_with :: "'p obj_world \<Rightarrow> handle \<Rightarrow> ('p \<Rightarrow> 't option) \<Rightarrow> ('t \<times> u32, object_error) result" where
  "write_cp_with w self typed = handle_with w self (\<lambda>a t. container_write_cp_with w a t typed)"

definition execute_cp_with :: "'p obj_world \<Rightarrow> handle \<Rightarrow> ('p \<Rightarrow> 't option) \<Rightarrow> ('t \<times> u32, object_error) result" where
  "execute_cp_with w self typed = handle_with w self (\<lambda>a t. container_execute_cp_with w a t typed)"

definition agent_cp_with :: "'p obj_world \<Rightarrow> handle \<Rightarrow> ('p \<Rightarrow> 't option) \<Rightarrow> ('t \<times> u32, object_error) result" where
  "agent_cp_with w self typed = handle_with w self (\<lambda>a t. container_agent_cp_with w a t typed)"

definition admin_cp_with :: "'p obj_world \<Rightarrow> handle \<Rightarrow> ('p \<Rightarrow> 't option) \<Rightarrow> ('t \<times> u32, object_error) result" where
  "admin_cp_with w self typed = handle_with w self (\<lambda>a t. container_admin_cp_with w a t typed)"

definition invoke_cp :: "'p obj_world \<Rightarrow> handle \<Rightarrow> cp_access_mode \<Rightarrow> ('p \<times> u32, object_error) result" where
  "invoke_cp w self mode =
     handle_with w self (\<lambda>a t. case cp_mode_allows mode (capabilities self) of
        Inl e \<Rightarrow> Err e
      | Inr _ \<Rightarrow> container_invoke_cp w a t mode)"

definition derive_handle :: "'p obj_world \<Rightarrow> handle \<Rightarrow> capability \<Rightarrow> u32 \<Rightarrow> (handle, object_error) result outcome" where
  "derive_handle w self cap icaps =
     (if \<not> is_valid w self then Returned (Err ObjectDestroyed)
      else
        let derivation =
          (if contains (capabilities self) CAP_ADMIN
           then Some (CAP_CLONE OR CAP_SEND OR CAP_READ OR CAP_WRITE OR CAP_EXECUTE OR CAP_AGENT, U32_MAX)
           else if contains (capabilities self) CAP_AGENT
           then Some (CAP_CLONE OR CAP_SEND OR CAP_READ OR CAP_WRITE OR CAP_EXECUTE, U32_MAX)
           else if contains (capabilities self) CAP_CLONE
           then Some (capabilities self, interface_caps self)
           else None)
        in case derivation of
          None \<Rightarrow> Returned (Err InsufficientCapabilities)
        | Some (derivable, effective_interface_caps) \<Rightarrow>
            if \<not> contains derivable cap \<or> (icaps \<noteq> 0 \<and> \<not> contains (capabilities self) CAP_EXECUTE) \<or>
               effective_interface_caps AND icaps \<noteq> icaps
            then Returned (Err InsufficientCapabilities)
            else do {
              t \<leftarrow> token_new (tok_id (h_token self)) cap icaps;
              Returned (Ok \<lparr>h_token = t, h_registered = h_registered self, h_object = into_shared (h_object self)\<rparr>)
            })"

definition acquire_ref :: "'p obj_world \<Rightarrow> handle \<Rightarrow> (handle, object_error) result" where
  "acquire_ref w self =
     (if \<not> is_valid w self then Err ObjectDestroyed else Ok (self\<lparr>h_object := into_shared (h_object self)\<rparr>))"

definition try_clone :: "'p obj_world \<Rightarrow> handle \<Rightarrow> (handle, object_error) result" where
  "try_clone w self =
     (if \<not> contains (capabilities self) CAP_CLONE then Err InsufficientCapabilities else acquire_ref w self)"

subsection \<open>The registry\<close>

definition PRE_ROOT_TOKEN :: token where
  "PRE_ROOT_TOKEN = \<lparr>tok_id = None, tok_caps = CAP_SEND OR CAP_READ, tok_icaps = 0\<rparr>"

definition registry_new :: "'p obj_world" where
  "registry_new = \<lparr>objs = [], reg_map = [], idx_allocator = index_allocator_new 1, next_obj = 0\<rparr>"

text \<open>\<open>namespace\<close> is the payload \<open>NameSpace\<close>.\<close>

definition init_root :: "'p obj_world \<Rightarrow> 'p \<Rightarrow> ((handle, object_error) result \<times> 'p obj_world) outcome" where
  "init_root w namespace = do {
     let ob = \<lparr>obj_registered = True, obj_id = 0, obj_parent = None, obj_name = [], obj_status = Active,
                   obj_masked_caps = CAP_EXECUTE OR CAP_ADMIN OR CAP_AGENT, obj_lifecycle_flags = LIFECYCLE_STICKY,
                   obj_public_interface_caps = 0, obj_payload = namespace, obj_children = []\<rparr>;
     let a = next_obj w;
     right \<leftarrow> token_new None CAP_TRUSTED U32_MAX;
     res \<leftarrow> derive_token ob right;
     (case res of
        Inl e \<Rightarrow> Returned (Err e, w)
      | Inr t \<Rightarrow> Returned (Ok \<lparr>h_token = t, h_registered = True, h_object = Shared a\<rparr>,
          (set_obj w a ob)\<lparr>next_obj := a + 1, reg_map := bt_insert 0 a (reg_map w)\<rparr>))
   }"

text \<open>Unregister the object from the children of its parent, if the entry is its own.\<close>

definition unregister :: "'p obj_world \<Rightarrow> 'p object \<Rightarrow> 'p obj_world" where
  "unregister w ob =
     (case obj_parent ob of
        None \<Rightarrow> w
      | Some parent_id \<Rightarrow> (case bt_get (reg_map w) parent_id of
            None \<Rightarrow> w
          | Some pa \<Rightarrow>
              if bt_get (obj_children (obj_of w pa)) (obj_name ob) = Some (obj_id ob)
              then set_obj w pa ((obj_of w pa)\<lparr>obj_children := bt_remove (obj_name ob) (obj_children (obj_of w pa))\<rparr>)
              else w))"

text \<open>The compare-and-exchange of a status from \<open>Active\<close> to \<open>Destroying\<close>, when it succeeds.\<close>

definition mark_destroying :: "'p obj_world \<Rightarrow> addr \<Rightarrow> 'p obj_world" where
  "mark_destroying w a = set_obj w a ((obj_of w a)\<lparr>obj_status := Destroying\<rparr>)"

fun mark_children :: "'p obj_world \<Rightarrow> usize list \<Rightarrow> addr list \<Rightarrow> 'p obj_world \<times> addr list" where
  "mark_children w [] queue = (w, queue)"
| "mark_children w (child_id # rest) queue =
     (case bt_get (reg_map w) child_id of
        None \<Rightarrow> mark_children w rest queue
      | Some child \<Rightarrow>
          if \<not> is_active w child then mark_children w rest queue
          else mark_children (mark_destroying w child) rest (queue @ [child]))"

definition active_objs :: "'p obj_world \<Rightarrow> addr set" where
  "active_objs w = {a. is_active w a}"

lemma finite_active_objs [simp]: "finite (active_objs w)"
proof -
  have "active_objs w \<subseteq> fst ` set (objs w)"
    by (auto simp: active_objs_def is_active_def bt_get_def split: option.splits) (metis fst_conv image_eqI map_of_SomeD)
  then show ?thesis by (rule finite_subset) simp
qed

lemma obj_of_set: "obj_of (set_obj w a ob) b = (if b = a then ob else obj_of w b)"
  by (simp add: obj_of_def set_obj_def bt_get_insert)

lemma bt_get_set_obj: "bt_get (objs (set_obj w a ob)) b = (if b = a then Some ob else bt_get (objs w) b)"
  by (simp add: set_obj_def bt_get_insert)

lemma is_active_set: "is_active (set_obj w a ob) b = (if b = a then obj_status ob = Active else is_active w b)"
  by (simp add: is_active_def bt_get_set_obj)

lemma set_obj_fields [simp]:
  "reg_map (set_obj w a ob) = reg_map w" "idx_allocator (set_obj w a ob) = idx_allocator w"
  "next_obj (set_obj w a ob) = next_obj w"
  by (simp_all add: set_obj_def)

lemma active_mark: "active_objs (mark_destroying w a) = active_objs w - {a}"
  by (auto simp: active_objs_def mark_destroying_def is_active_set split: if_splits)

lemma mark_children_count:
  "mark_children w ids queue = (w', queue') \<Longrightarrow>
   card (active_objs w') + length queue' = card (active_objs w) + length queue"
proof (induction w ids queue rule: mark_children.induct)
  case (2 w child_id rest queue)
  show ?case
  proof (cases "\<exists>child. bt_get (reg_map w) child_id = Some child \<and> is_active w child")
    case True
    then obtain child where c: "bt_get (reg_map w) child_id = Some child" "is_active w child" by blast
    then have "child \<in> active_objs w" by (simp add: active_objs_def)
    then have "0 < card (active_objs w)" by (simp add: card_gt_0_iff) blast
    with "2.IH"(3) [OF c(1)] "2.prems" c \<open>child \<in> active_objs w\<close> show ?thesis
      by (simp add: active_mark card_Diff_singleton)
  next
    case False
    with 2 show ?thesis by (auto split: option.splits)
  qed
qed simp

function destroy_loop :: "'p obj_world \<Rightarrow> addr list \<Rightarrow> addr list \<Rightarrow> addr list \<times> 'p obj_world" where
  "destroy_loop w [] visited = (visited, w)"
| "destroy_loop w (ptr # queue) visited =
     (case mark_children w (bt_values (obj_children (obj_of w ptr))) queue of
        (w', queue') \<Rightarrow> destroy_loop w' queue' (ptr # visited))"
  by pat_completeness auto

termination
  by (relation "measure (\<lambda>(w, queue, visited). card (active_objs w) + length queue)")
     (auto dest!: mark_children_count [OF sym])

definition reclaim_object :: "'p obj_world \<Rightarrow> addr \<Rightarrow> 'p obj_world" where
  "reclaim_object w a =
     (let i = obj_id (obj_of w a)
      in w\<lparr>reg_map := bt_remove i (reg_map w), idx_allocator := reclaim_index (idx_allocator w) i\<rparr>)"

definition remove_internal :: "'p obj_world \<Rightarrow> addr \<Rightarrow> (unit, object_error) result \<times> 'p obj_world" where
  "remove_internal w a =
     (let w1 = unregister w (obj_of w a)
      in if \<not> is_active w1 a then (Err ObjectDestroyed, w1)
         else case destroy_loop (mark_destroying w1 a) [a] [] of
           (visited, w2) \<Rightarrow> (Ok (), fold (\<lambda>ptr w. reclaim_object w ptr) visited w2))"

definition registry_remove :: "'p obj_world \<Rightarrow> handle \<Rightarrow> bool \<Rightarrow> (unit, object_error) result \<times> 'p obj_world" where
  "registry_remove w h is_kernel =
     (if \<not> contains (capabilities h) CAP_ADMIN then (Err InsufficientCapabilities, w)
      else case upgrade_ref w (h_object h) of
        None \<Rightarrow> (Err ObjectDestroyed, w)
      | Some a \<Rightarrow>
          if \<not> is_kernel \<and> is_sticky (obj_of w a) then (Err InvalidArgument, w)
          else remove_internal w a)"

definition insert_internal :: "'p obj_world \<Rightarrow> addr \<Rightarrow> (handle \<times> 'p obj_world) outcome" where
  "insert_internal w a = do {
     let i = obj_id (obj_of w a);
     t \<leftarrow> token_new (Some i) CAP_ADMIN_GRP U32_MAX;
     Returned (\<lparr>h_token = t, h_registered = True, h_object = Shared a\<rparr>, w\<lparr>reg_map := bt_insert i a (reg_map w)\<rparr>)
   }"

text \<open>\<open>Handle::drop\<close>, and the drop of the reference in the handle: an owned object is freed.\<close>

definition handle_drop :: "'p obj_world \<Rightarrow> handle \<Rightarrow> 'p obj_world outcome" where
  "handle_drop w self = do {
     w' \<leftarrow> (if contains (capabilities self) CAP_ADMIN \<and> h_registered self \<and> tok_id (h_token self) \<noteq> None
           then (case registry_remove w self True of
                   (Inr _, w') \<Rightarrow> Returned w'
                 | (Inl ObjectDestroyed, w') \<Rightarrow> Returned w'
                 | _ \<Rightarrow> Panicked)
           else Returned w);
     Returned (case h_object self of Owned a \<Rightarrow> w'\<lparr>objs := bt_remove a (objs w')\<rparr> | Shared _ \<Rightarrow> w')
   }"

text \<open>The skip list frees a removed object.\<close>

definition collect :: "'p obj_world \<Rightarrow> addr \<Rightarrow> 'p obj_world" where
  "collect w a = (if is_active w a then w else w\<lparr>objs := bt_remove a (objs w)\<rparr>)"

subsection \<open>Children\<close>

definition add_child ::
    "'p obj_world \<Rightarrow> addr \<Rightarrow> string \<Rightarrow> capability \<Rightarrow> 'p \<Rightarrow> ((handle, object_error) result \<times> 'p obj_world) outcome" where
  "add_child w self name masked_caps payload =
     (if name = [] \<or> name = ''self'' then Returned (Err DangerousName, w)
      else if bt_get (obj_children (obj_of w self)) name \<noteq> None then Returned (Err DuplicateChildName, w)
      else if \<not> obj_registered (obj_of w self) then Panicked
      else do {
        let (i, ia) = allocate_index (idx_allocator w);
        let child = \<lparr>obj_registered = True, obj_id = i, obj_parent = Some (obj_id (obj_of w self)), obj_name = name,
                     obj_status = Active, obj_masked_caps = masked_caps, obj_lifecycle_flags = LIFECYCLE_NONE,
                     obj_public_interface_caps = 0, obj_payload = payload, obj_children = []\<rparr>;
        let a = next_obj w;
        (h, w1) \<leftarrow> insert_internal ((set_obj w a child)\<lparr>idx_allocator := ia, next_obj := a + 1\<rparr>) a;
        let existing = bt_get (obj_children (obj_of w1 self)) name;
        let w2 = (if existing = None
                  then set_obj w1 self ((obj_of w1 self)\<lparr>obj_children := bt_insert name i (obj_children (obj_of w1 self))\<rparr>)
                  else w1);
        (if existing \<noteq> None \<and> existing \<noteq> Some i then do {
           w3 \<leftarrow> handle_drop (snd (remove_internal w2 a)) h;
           Returned (Err DuplicateChildName, w3)
         } else if \<not> is_active w2 self then do {
           w3 \<leftarrow> handle_drop (snd (remove_internal w2 a)) h;
           Returned (Err ObjectDestroyed, w3)
         } else Returned (Ok h, w2))
      })"

definition remove_child ::
    "'p obj_world \<Rightarrow> addr \<Rightarrow> string \<Rightarrow> bool \<Rightarrow> ((usize, object_error) result \<times> 'p obj_world) outcome" where
  "remove_child w self name is_kernel =
     (if \<not> is_kernel \<and> is_sticky (obj_of w self) then Returned (Err InvalidArgument, w)
      else case bt_get (obj_children (obj_of w self)) name of
        None \<Rightarrow> Returned (Err ObjectNotFound, w)
      | Some child_id \<Rightarrow>
          if \<not> obj_registered (obj_of w self) then Panicked
          else (case bt_get (reg_map w) child_id of
            None \<Rightarrow> Returned (Err ObjectNotFound, w)
          | Some child \<Rightarrow>
              if contains (obj_masked_caps (obj_of w child)) CAP_WRITE then Returned (Err InsufficientCapabilities, w)
              else
                let w1 = set_obj w self ((obj_of w self)\<lparr>obj_children := bt_remove name (obj_children (obj_of w self))\<rparr>)
                in Returned (map_prod (map_sum id (\<lambda>_. child_id)) id (remove_internal w1 child))))"

definition admin_remove_child ::
    "'p obj_world \<Rightarrow> addr \<Rightarrow> string \<Rightarrow> bool \<Rightarrow> ((usize, object_error) result \<times> 'p obj_world) outcome" where
  "admin_remove_child w self name is_kernel =
     (if is_kernel \<and> is_sticky (obj_of w self) then Returned (Err InvalidArgument, w)
      else case bt_get (obj_children (obj_of w self)) name of
        None \<Rightarrow> Returned (Err ObjectNotFound, w)
      | Some child_id \<Rightarrow>
          let w1 = set_obj w self ((obj_of w self)\<lparr>obj_children := bt_remove name (obj_children (obj_of w self))\<rparr>)
          in if \<not> obj_registered (obj_of w self) then Panicked
             else (case bt_get (reg_map w1) child_id of
                None \<Rightarrow> Returned (Err ObjectNotFound, w1)
              | Some child \<Rightarrow> Returned (map_prod (map_sum id (\<lambda>_. child_id)) id (remove_internal w1 child))))"

subsection \<open>Locating objects\<close>

fun traverse :: "'p obj_world \<Rightarrow> token \<Rightarrow> string list \<Rightarrow> (token, object_error) result outcome" where
  "traverse w current [] = Returned (Ok current)"
| "traverse w current (name # rest) =
     (if name = ''self'' then traverse w current rest
      else case tok_id current of
        None \<Rightarrow> Returned (Err InvalidArgument)
      | Some current_id \<Rightarrow> (case bt_get (reg_map w) current_id of
            None \<Rightarrow> Returned (Err ObjectNotFound)
          | Some a \<Rightarrow> (case bt_get (obj_children (obj_of w a)) name of
                None \<Rightarrow> Returned (Err ObjectNotFound)
              | Some child_id \<Rightarrow> (case bt_get (reg_map w) child_id of
                    None \<Rightarrow> Returned (Err ObjectNotFound)
                  | Some c \<Rightarrow> do {
                      res \<leftarrow> derive_token (obj_of w c) current;
                      (case res of Inl e \<Rightarrow> Returned (Err e) | Inr t \<Rightarrow> traverse w t rest)
                    }))))"

definition start_token :: "'p obj_world \<Rightarrow> handle option \<Rightarrow> string \<Rightarrow> (token, object_error) result outcome" where
  "start_token w cur path =
     (case (cur, path_is_absolute path) of
        (Some h, False) \<Rightarrow> map_option Ok (token_new (tok_id (h_token h)) (capabilities h) (interface_caps h))
      | (Some h, True) \<Rightarrow>
          if tok_id (h_token h) = Some 0 then map_option Ok (token_new (tok_id (h_token h)) (capabilities h) (interface_caps h))
          else Returned (Err InvalidArgument)
      | (None, True) \<Rightarrow> (case bt_get (reg_map w) 0 of
            None \<Rightarrow> Returned (Err ObjectNotFound)
          | Some a \<Rightarrow> derive_token (obj_of w a) PRE_ROOT_TOKEN)
      | (None, False) \<Rightarrow> Returned (Err InvalidArgument))"

definition locate_and_then :: "'p obj_world \<Rightarrow> handle option \<Rightarrow> string \<Rightarrow> (handle, object_error) result outcome" where
  "locate_and_then w cur path = do {
     start \<leftarrow> start_token w cur path;
     (case start of
        Inl e \<Rightarrow> Returned (Err e)
      | Inr t0 \<Rightarrow> do {
          res \<leftarrow> traverse w t0 (path_components path);
          Returned (case res of
             Inl e \<Rightarrow> Err e
           | Inr t \<Rightarrow> (case tok_id t of
                 None \<Rightarrow> Err InvalidArgument
               | Some final_id \<Rightarrow> (case bt_get (reg_map w) final_id of
                     None \<Rightarrow> Err ObjectNotFound
                   | Some a \<Rightarrow> Ok \<lparr>h_token = t, h_registered = obj_registered (obj_of w a), h_object = Shared a\<rparr>)))
        })
   }"

definition handle_locate :: "'p obj_world \<Rightarrow> handle \<Rightarrow> string \<Rightarrow> (handle, object_error) result outcome" where
  "handle_locate w self path =
     (if \<not> h_registered self then Returned (Err InvalidArgument) else locate_and_then w (Some self) path)"

end
