(* ===== verification/Object_System.thy ===== *)
theory Object_System
  imports Object_World
begin

text \<open>
  The invariant of the object tree and the effect of its operations: removal destroys exactly the
  subtree of an object, and every operation keeps the registry, the indices and the children consistent.
\<close>

subsection \<open>Marking objects\<close>

text \<open>The two worlds differ only in the status of the objects of a set, which are being destroyed.\<close>

definition marked :: "addr set \<Rightarrow> 'p obj_world \<Rightarrow> 'p obj_world \<Rightarrow> bool" where
  "marked S w w' \<longleftrightarrow> reg_map w' = reg_map w \<and> idx_allocator w' = idx_allocator w \<and> next_obj w' = next_obj w \<and>
     (\<forall>a. bt_get (objs w') a =
        map_option (\<lambda>ob. if a \<in> S then ob\<lparr>obj_status := Destroying\<rparr> else ob) (bt_get (objs w) a))"

lemma marked_refl [simp]: "marked {} w w"
  by (simp add: marked_def option.map_ident)

lemma marked_trans:
  assumes "marked S w w'" and "marked T w' w''"
  shows "marked (S \<union> T) w w''"
  using assms by (auto simp: marked_def option.map_comp o_def split: option.splits intro!: option.map_cong0)

lemma marked_mark: "is_active w a \<Longrightarrow> marked {a} w (mark_destroying w a)"
  by (auto simp: marked_def mark_destroying_def bt_get_set_obj obj_of_def is_active_def option.map_ident split: option.splits)

lemma marked_active: "marked S w w' \<Longrightarrow> is_active w' a \<longleftrightarrow> is_active w a \<and> a \<notin> S"
  by (auto simp: marked_def is_active_def split: option.splits)

lemma marked_obj:
  assumes "marked S w w'"
  shows "obj_children (obj_of w' a) = obj_children (obj_of w a)" "obj_id (obj_of w' a) = obj_id (obj_of w a)"
proof -
  have "bt_get (objs w') a = map_option (\<lambda>ob. if a \<in> S then ob\<lparr>obj_status := Destroying\<rparr> else ob) (bt_get (objs w) a)"
    using assms by (simp add: marked_def)
  then show "obj_children (obj_of w' a) = obj_children (obj_of w a)" "obj_id (obj_of w' a) = obj_id (obj_of w a)"
    by (cases "bt_get (objs w) a"; simp add: obj_of_def)+
qed

lemma marked_fields: "marked S w w' \<Longrightarrow> reg_map w' = reg_map w \<and> idx_allocator w' = idx_allocator w \<and> next_obj w' = next_obj w"
  by (simp add: marked_def)

lemma mark_children_marked:
  assumes "mark_children w ids queue = (w', queue')"
  shows "\<exists>L. queue' = queue @ L \<and> distinct L \<and> marked (set L) w w' \<and>
    set L = {c. is_active w c \<and> (\<exists>i \<in> set ids. bt_get (reg_map w) i = Some c)}"
  using assms
proof (induction w ids queue arbitrary: w' queue' rule: mark_children.induct)
  case (2 w child_id rest queue)
  show ?case
  proof (cases "\<exists>child. bt_get (reg_map w) child_id = Some child \<and> is_active w child")
    case True
    then obtain child where c: "bt_get (reg_map w) child_id = Some child" "is_active w child" by blast
    let ?w1 = "mark_destroying w child"
    have m1: "marked {child} w ?w1" by (rule marked_mark [OF c(2)])
    from "2.IH"(3) [OF c(1)] "2.prems" c obtain L where L: "queue' = (queue @ [child]) @ L" "distinct L" "marked (set L) ?w1 w'"
      "set L = {c. is_active ?w1 c \<and> (\<exists>i \<in> set rest. bt_get (reg_map ?w1) i = Some c)}"
      by auto
    have set_L: "set L = {c'. c' \<noteq> child \<and> is_active w c' \<and> (\<exists>i \<in> set rest. bt_get (reg_map w) i = Some c')}"
      using L(4) marked_active [OF m1] marked_fields [OF m1] by auto
    have "marked (set (child # L)) w w'" using marked_trans [OF m1 L(3)] by simp
    moreover have "set (child # L) = {c. is_active w c \<and> (\<exists>i \<in> set (child_id # rest). bt_get (reg_map w) i = Some c)}"
      using set_L c by auto
    moreover have "distinct (child # L)" using L(2) set_L by auto
    ultimately show ?thesis using L(1) by (intro exI [of _ "child # L"]) simp
  next
    case False
    then have "mark_children w rest queue = (w', queue')" using "2.prems" by (auto split: option.splits)
    with False "2.IH"(1,2) obtain L where L: "queue' = queue @ L" "distinct L" "marked (set L) w w'"
      "set L = {c. is_active w c \<and> (\<exists>i \<in> set rest. bt_get (reg_map w) i = Some c)}"
      by (cases "bt_get (reg_map w) child_id") fastforce+
    with False show ?thesis by (intro exI [of _ L]) auto
  qed
qed simp

subsection \<open>The subtree of an object\<close>

definition kid :: "'p obj_world \<Rightarrow> addr \<Rightarrow> addr \<Rightarrow> bool" where
  "kid w a b \<longleftrightarrow> (\<exists>n i. bt_get (obj_children (obj_of w a)) n = Some i \<and> bt_get (reg_map w) i = Some b)"

lemma kid_marked: "marked S w w' \<Longrightarrow> kid w' = kid w"
  by (intro ext) (simp add: kid_def marked_obj marked_fields)

definition children_wf :: "'p obj_world \<Rightarrow> bool" where
  "children_wf w \<longleftrightarrow> (\<forall>a ob. bt_get (objs w) a = Some ob \<longrightarrow> bt_wf (obj_children ob))"

lemma children_wf_marked: "marked S w w' \<Longrightarrow> children_wf w' = children_wf w"
  by (auto simp: children_wf_def marked_def map_option_case split: option.splits if_splits)

lemma kid_values:
  assumes "children_wf w" and "bt_get (objs w) a \<noteq> None"
  shows "kid w a b \<longleftrightarrow> (\<exists>i \<in> set (bt_values (obj_children (obj_of w a))). bt_get (reg_map w) i = Some b)"
proof -
  have "bt_wf (obj_children (obj_of w a))" using assms by (auto simp: children_wf_def obj_of_def)
  then have "bt_get (obj_children (obj_of w a)) n = Some i \<longleftrightarrow> (n, i) \<in> set (obj_children (obj_of w a))" for n i
    by (rule bt_get_Some_iff)
  then show ?thesis by (force simp: kid_def bt_values_def)
qed

lemma destroy_loop_marks:
  assumes "destroy_loop w queue visited = (visited', w')" and "children_wf w"
    and "\<forall>a \<in> set queue. bt_get (objs w) a \<noteq> None"
    and "distinct (queue @ visited)" and "\<forall>a \<in> set queue \<union> set visited. \<not> is_active w a"
  shows "\<exists>S. marked S w w' \<and> S \<subseteq> active_objs w \<and> set visited' = set visited \<union> set queue \<union> S \<and> distinct visited' \<and>
    (\<forall>b \<in> S. \<exists>a \<in> set queue. (kid w)\<^sup>+\<^sup>+ a b) \<and> (\<forall>a \<in> set queue \<union> S. \<forall>b. kid w a b \<longrightarrow> \<not> is_active w' b)"
  using assms
proof (induction w queue visited rule: destroy_loop.induct)
  case (1 w visited)
  then show ?case by (intro exI [of _ "{}"]) auto
next
  case (2 w ptr queue visited)
  obtain w1 queue1 where mc: "mark_children w (bt_values (obj_children (obj_of w ptr))) queue = (w1, queue1)"
    by (metis surj_pair)
  from mark_children_marked [OF mc] obtain L where L: "queue1 = queue @ L" "distinct L" "marked (set L) w w1"
    "set L = {c. is_active w c \<and> (\<exists>i \<in> set (bt_values (obj_children (obj_of w ptr))). bt_get (reg_map w) i = Some c)}"
    by blast
  have kids: "set L = {c. is_active w c \<and> kid w ptr c}"
    using L(4) kid_values [OF "2.prems"(2), of ptr] "2.prems"(3) by auto
  note m = L(3)
  have "destroy_loop w1 queue1 (ptr # visited) = (visited', w')" using "2.prems"(1) mc by simp
  moreover have "children_wf w1" using "2.prems"(2) children_wf_marked [OF m] by simp
  moreover have "\<forall>a \<in> set queue1. bt_get (objs w1) a \<noteq> None"
    using "2.prems"(3) L(1) kids m by (auto simp: marked_def is_active_def split: option.splits)
  moreover have "distinct (queue1 @ ptr # visited)"
    using "2.prems"(4,5) L(1,2) kids by (auto simp: active_objs_def)
  moreover have "\<forall>a \<in> set queue1 \<union> set (ptr # visited). \<not> is_active w1 a"
    using "2.prems"(5) L(1) marked_active [OF m] by auto
  ultimately obtain S where S: "marked S w1 w'" "S \<subseteq> active_objs w1"
    "set visited' = set (ptr # visited) \<union> set queue1 \<union> S" "distinct visited'"
    "\<forall>b \<in> S. \<exists>a \<in> set queue1. (kid w1)\<^sup>+\<^sup>+ a b" "\<forall>a \<in> set queue1 \<union> S. \<forall>b. kid w1 a b \<longrightarrow> \<not> is_active w' b"
    using "2.IH" [OF mc [symmetric]] by blast
  have kw: "kid w1 = kid w" by (rule kid_marked [OF m])
  have "marked (set L \<union> S) w w'" by (rule marked_trans [OF m S(1)])
  moreover have "set L \<union> S \<subseteq> active_objs w"
    using S(2) kids marked_active [OF m] by (auto simp: active_objs_def)
  moreover have "set visited' = set visited \<union> set (ptr # queue) \<union> (set L \<union> S)" using S(3) L(1) by auto
  moreover have "\<forall>b \<in> set L \<union> S. \<exists>a \<in> set (ptr # queue). (kid w)\<^sup>+\<^sup>+ a b"
  proof
    have ptr: "kid w ptr c" if "c \<in> set L" for c using that kids by simp
    fix b assume "b \<in> set L \<union> S"
    then consider "b \<in> set L" | a where "a \<in> set queue \<union> set L" "(kid w)\<^sup>+\<^sup>+ a b"
      using S(5) L(1) kw by auto
    then show "\<exists>a \<in> set (ptr # queue). (kid w)\<^sup>+\<^sup>+ a b"
    proof cases
      case 1
      then show ?thesis using ptr by auto
    next
      case 2
      then show ?thesis using ptr tranclp_into_tranclp2 [of "kid w" ptr a b] by auto
    qed
  qed
  moreover have "\<forall>a \<in> set (ptr # queue) \<union> (set L \<union> S). \<forall>b. kid w a b \<longrightarrow> \<not> is_active w' b"
  proof (intro ballI allI impI)
    fix a b assume a: "a \<in> set (ptr # queue) \<union> (set L \<union> S)" and k: "kid w a b"
    show "\<not> is_active w' b"
    proof (cases "a \<in> set queue1 \<union> S")
      case True
      with S(6) k kw show ?thesis by auto
    next
      case False
      with a L(1) have "a = ptr" by auto
      with k kids have "\<not> is_active w b \<or> b \<in> set L" by auto
      then show ?thesis using marked_active [OF m, of b] marked_active [OF S(1), of b] by auto
    qed
  qed
  ultimately show ?case using S(4) by (intro exI [of _ "set L \<union> S"]) simp
qed

subsection \<open>The invariant\<close>

text \<open>The registry maps an index to the active object with that index, and to nothing else; free indices
  are not in use; every entry of the children of a registered object names a registered object with that
  parent and that name.\<close>

definition reg_ok :: "'p obj_world \<Rightarrow> bool" where
  "reg_ok w \<longleftrightarrow>
     children_wf w \<and>
     (\<forall>i a. bt_get (reg_map w) i = Some a \<longrightarrow> is_active w a \<and> obj_id (obj_of w a) = i \<and> obj_registered (obj_of w a)) \<and>
     (\<forall>a. is_active w a \<longrightarrow> obj_registered (obj_of w a) \<longrightarrow> bt_get (reg_map w) (obj_id (obj_of w a)) = Some a) \<and>
     distinct (ia_reclaimed (idx_allocator w)) \<and>
     (\<forall>i \<in> set (ia_reclaimed (idx_allocator w)). i < ia_next (idx_allocator w) \<and> bt_get (reg_map w) i = None) \<and>
     (\<forall>i a. bt_get (reg_map w) i = Some a \<longrightarrow> i < ia_next (idx_allocator w)) \<and>
     (\<forall>i a n c. bt_get (reg_map w) i = Some a \<longrightarrow> bt_get (obj_children (obj_of w a)) n = Some c \<longrightarrow>
        (\<exists>b. bt_get (reg_map w) c = Some b \<and> obj_parent (obj_of w b) = Some i \<and> obj_name (obj_of w b) = n)) \<and>
     (\<forall>a. bt_get (objs w) a \<noteq> None \<longrightarrow> a < next_obj w)"

lemma reg_okD:
  assumes "reg_ok w"
  shows "children_wf w"
    and "bt_get (reg_map w) i = Some a \<Longrightarrow> is_active w a"
    and "bt_get (reg_map w) i = Some a \<Longrightarrow> obj_id (obj_of w a) = i"
    and "bt_get (reg_map w) i = Some a \<Longrightarrow> obj_registered (obj_of w a)"
    and "is_active w a \<Longrightarrow> obj_registered (obj_of w a) \<Longrightarrow> bt_get (reg_map w) (obj_id (obj_of w a)) = Some a"
    and "distinct (ia_reclaimed (idx_allocator w))"
    and "i \<in> set (ia_reclaimed (idx_allocator w)) \<Longrightarrow> i < ia_next (idx_allocator w) \<and> bt_get (reg_map w) i = None"
    and "bt_get (reg_map w) i = Some a \<Longrightarrow> i < ia_next (idx_allocator w)"
    and "bt_get (reg_map w) i = Some a \<Longrightarrow> bt_get (obj_children (obj_of w a)) n = Some c \<Longrightarrow>
        (\<exists>b. bt_get (reg_map w) c = Some b \<and> obj_parent (obj_of w b) = Some i \<and> obj_name (obj_of w b) = n)"
    and "bt_get (objs w) a \<noteq> None \<Longrightarrow> a < next_obj w"
  using assms unfolding reg_ok_def by blast+

text \<open>Changing one object in a way that keeps its identity and only drops children keeps the invariant.\<close>

lemma reg_ok_set_obj:
  assumes ok: "reg_ok w" and a: "bt_get (objs w) a = Some ob"
    and ob': "obj_id ob' = obj_id ob" "obj_registered ob' = obj_registered ob" "obj_status ob' = obj_status ob"
      "obj_parent ob' = obj_parent ob" "obj_name ob' = obj_name ob" "bt_wf (obj_children ob')"
      "\<And>n c. bt_get (obj_children ob') n = Some c \<Longrightarrow> bt_get (obj_children ob) n = Some c"
  shows "reg_ok (set_obj w a ob')"
proof -
  have ow: "obj_of w a = ob" using a by (simp add: obj_of_def)
  have act: "is_active (set_obj w a ob') b = is_active w b" for b
    using a ob'(3) by (simp add: is_active_def bt_get_set_obj)
  have same: "obj_id (obj_of (set_obj w a ob') b) = obj_id (obj_of w b)"
    "obj_registered (obj_of (set_obj w a ob') b) = obj_registered (obj_of w b)"
    "obj_parent (obj_of (set_obj w a ob') b) = obj_parent (obj_of w b)"
    "obj_name (obj_of (set_obj w a ob') b) = obj_name (obj_of w b)" for b
    using ow ob' by (simp_all add: obj_of_set)
  have kids: "bt_get (obj_children (obj_of (set_obj w a ob') b)) n = Some c \<Longrightarrow> bt_get (obj_children (obj_of w b)) n = Some c" for b n c
    using ow ob'(7) by (auto simp: obj_of_set split: if_splits)
  note D = reg_okD [OF ok]
  have "children_wf (set_obj w a ob')"
    using D(1) ob'(6) by (auto simp: children_wf_def bt_get_set_obj)
  moreover have "\<exists>b. bt_get (reg_map w) c = Some b \<and> obj_parent (obj_of w b) = Some i \<and> obj_name (obj_of w b) = n"
    if "bt_get (reg_map w) i = Some b'" "bt_get (obj_children (obj_of (set_obj w a ob') b')) n = Some c" for i b' n c
    using D(9) [OF that(1) kids [OF that(2)]] .
  moreover have "b < next_obj w" if "bt_get (objs (set_obj w a ob')) b \<noteq> None" for b
    using that D(10) [of b] D(10) [of a] a by (auto simp: bt_get_set_obj split: if_splits)
  ultimately show ?thesis
    unfolding reg_ok_def act same set_obj_fields using D(2-8) by blast
qed

lemma unregister_cases:
  obtains (same) "unregister w ob = w"
      "\<And>i pa. obj_parent ob = Some i \<Longrightarrow> bt_get (reg_map w) i = Some pa \<Longrightarrow>
         bt_get (obj_children (obj_of w pa)) (obj_name ob) \<noteq> Some (obj_id ob)"
  | (removed) i pa where "obj_parent ob = Some i" "bt_get (reg_map w) i = Some pa"
      "bt_get (obj_children (obj_of w pa)) (obj_name ob) = Some (obj_id ob)"
      "unregister w ob = set_obj w pa ((obj_of w pa)\<lparr>obj_children := bt_remove (obj_name ob) (obj_children (obj_of w pa))\<rparr>)"
  by (cases "\<exists>i pa. obj_parent ob = Some i \<and> bt_get (reg_map w) i = Some pa \<and>
         bt_get (obj_children (obj_of w pa)) (obj_name ob) = Some (obj_id ob)")
     (auto simp: unregister_def split: option.splits)

lemma drop_child_ok:
  assumes ok: "reg_ok w" and a: "bt_get (objs w) a \<noteq> None"
  shows "reg_ok (set_obj w a ((obj_of w a)\<lparr>obj_children := bt_remove n (obj_children (obj_of w a))\<rparr>))"
proof -
  from a obtain ob where ob: "bt_get (objs w) a = Some ob" by blast
  then have ow: "obj_of w a = ob" by (simp add: obj_of_def)
  have "bt_wf (obj_children ob)" using reg_okD(1) [OF ok] ob by (simp add: children_wf_def)
  then show ?thesis
    unfolding ow by (intro reg_ok_set_obj [OF ok ob]) (auto simp: bt_wf_remove bt_get_remove split: if_splits)
qed

lemma reg_map_live: "reg_ok w \<Longrightarrow> bt_get (reg_map w) i = Some a \<Longrightarrow> bt_get (objs w) a \<noteq> None"
  using reg_okD(2) [of w i a] by (auto simp: is_active_def split: option.splits)

lemma unregister_ok:
  assumes ok: "reg_ok w"
  shows "reg_ok (unregister w ob)"
proof (cases rule: unregister_cases [of w ob])
  case same
  with ok show ?thesis by simp
next
  case (removed i pa)
  show ?thesis unfolding removed(4) by (rule drop_child_ok [OF ok reg_map_live [OF ok removed(2)]])
qed

lemma unregister_fields [simp]:
  "reg_map (unregister w ob) = reg_map w" "idx_allocator (unregister w ob) = idx_allocator w" "next_obj (unregister w ob) = next_obj w"
  by (auto simp: unregister_def split: option.splits)

subsection \<open>Removing a subtree\<close>

lemma fold_reclaim:
  "objs (fold (\<lambda>ptr w. reclaim_object w ptr) visited w) = objs w"
  "next_obj (fold (\<lambda>ptr w. reclaim_object w ptr) visited w) = next_obj w"
  "ia_next (idx_allocator (fold (\<lambda>ptr w. reclaim_object w ptr) visited w)) = ia_next (idx_allocator w)"
  "ia_reclaimed (idx_allocator (fold (\<lambda>ptr w. reclaim_object w ptr) visited w)) =
     ia_reclaimed (idx_allocator w) @ map (\<lambda>ptr. obj_id (obj_of w ptr)) visited"
  "bt_get (reg_map (fold (\<lambda>ptr w. reclaim_object w ptr) visited w)) i =
     (if i \<in> (\<lambda>ptr. obj_id (obj_of w ptr)) ` set visited then None else bt_get (reg_map w) i)"
proof (induction visited arbitrary: w)
  case (Cons ptr visited)
  {
    case 1 show ?case by (simp add: Cons.IH(1)) (simp add: reclaim_object_def Let_def)
  next
    case 2 show ?case by (simp add: Cons.IH(2)) (simp add: reclaim_object_def Let_def)
  next
    case 3 show ?case by (simp add: Cons.IH(3)) (simp add: reclaim_object_def reclaim_index_def Let_def)
  next
    case 4 show ?case by (simp add: Cons.IH(4)) (simp add: reclaim_object_def reclaim_index_def Let_def obj_of_def)
  next
    case 5 show ?case by (simp add: Cons.IH(5)) (simp add: reclaim_object_def Let_def bt_get_remove obj_of_def)
  }
qed simp_all

text \<open>The world after the destruction of the objects \<open>M\<close>.\<close>

definition destroyed :: "addr set \<Rightarrow> 'p obj_world \<Rightarrow> 'p obj_world \<Rightarrow> bool" where
  "destroyed M w w' \<longleftrightarrow> next_obj w' = next_obj w \<and> ia_next (idx_allocator w') = ia_next (idx_allocator w) \<and>
     (\<exists>ids. ia_reclaimed (idx_allocator w') = ia_reclaimed (idx_allocator w) @ ids \<and> distinct ids \<and>
        set ids = (\<lambda>a. obj_id (obj_of w a)) ` M) \<and>
     (\<forall>i. bt_get (reg_map w') i = (if i \<in> (\<lambda>a. obj_id (obj_of w a)) ` M then None else bt_get (reg_map w) i)) \<and>
     (\<forall>a. bt_get (objs w') a =
        map_option (\<lambda>ob. if a \<in> M then ob\<lparr>obj_status := Destroying\<rparr> else ob) (bt_get (objs w) a))"

lemma reach_ids:
  assumes "reg_ok w" and "is_active w a" and "obj_registered (obj_of w a)" and "(kid w)\<^sup>*\<^sup>* a b"
  shows "bt_get (reg_map w) (obj_id (obj_of w b)) = Some b"
  using assms(4)
proof (cases rule: rtranclp.cases)
  case rtrancl_refl
  with reg_okD(5) [OF assms(1-3)] show ?thesis by simp
next
  case (rtrancl_into_rtrancl x)
  then obtain i where i: "bt_get (reg_map w) i = Some b" by (auto simp: kid_def)
  with reg_okD(3) [OF assms(1) i] show ?thesis by simp
qed

lemma destroy_loop_destroys:
  assumes ok: "reg_ok w" and a: "is_active w a" "obj_registered (obj_of w a)"
    and run: "destroy_loop (mark_destroying w a) [a] [] = (visited, w2)"
  shows "destroyed {b. (kid w)\<^sup>*\<^sup>* a b} w (fold (\<lambda>ptr w. reclaim_object w ptr) visited w2)"
proof -
  let ?w1 = "mark_destroying w a" and ?M = "{b. (kid w)\<^sup>*\<^sup>* a b}"
  have m1: "marked {a} w ?w1" by (rule marked_mark [OF a(1)])
  have kw: "kid ?w1 = kid w" by (rule kid_marked [OF m1])
  have "bt_get (objs ?w1) a \<noteq> None"
    by (simp add: mark_destroying_def bt_get_set_obj)
  with run obtain S where S: "marked S ?w1 w2" "S \<subseteq> active_objs ?w1" "set visited = {a} \<union> S" "distinct visited"
    "\<forall>b \<in> S. (kid w)\<^sup>+\<^sup>+ a b" "\<forall>x \<in> {a} \<union> S. \<forall>b. kid w x b \<longrightarrow> \<not> is_active w2 b"
    using destroy_loop_marks [OF run] reg_okD(1) [OF ok] children_wf_marked [OF m1] marked_active [OF m1] kw by auto
  have m: "marked ({a} \<union> S) w w2" by (rule marked_trans [OF m1 S(1)])
  have "b \<in> {a} \<union> S" if "(kid w)\<^sup>*\<^sup>* a b" for b
    using that
  proof (induction rule: rtranclp_induct)
    case (step x y)
    then obtain i where "bt_get (reg_map w) i = Some y" by (auto simp: kid_def)
    then have "is_active w y" by (rule reg_okD(2) [OF ok])
    moreover have "\<not> is_active w2 y" using S(6) step by blast
    ultimately show ?case using marked_active [OF m, of y] by blast
  qed simp
  then have M: "?M = {a} \<union> S" using S(5) by (auto intro: tranclp_into_rtranclp)
  have inj: "inj_on (\<lambda>b. obj_id (obj_of w b)) ?M"
    using reach_ids [OF ok a] by (intro inj_onI) (metis mem_Collect_eq option.inject)
  have ids: "(\<lambda>ptr. obj_id (obj_of w2 ptr)) = (\<lambda>ptr. obj_id (obj_of w ptr))"
    by (rule ext) (rule marked_obj(2) [OF m])
  have "distinct (map (\<lambda>ptr. obj_id (obj_of w ptr)) visited)"
    using S(3,4) inj M by (simp add: distinct_map)
  then show ?thesis
    using m S(3) M unfolding destroyed_def fold_reclaim marked_def ids by auto
qed

lemma destroyed_facts:
  assumes "destroyed M w w'"
  shows "is_active w' a \<longleftrightarrow> is_active w a \<and> a \<notin> M"
    and "obj_children (obj_of w' a) = obj_children (obj_of w a)" "obj_id (obj_of w' a) = obj_id (obj_of w a)"
    "obj_parent (obj_of w' a) = obj_parent (obj_of w a)" "obj_name (obj_of w' a) = obj_name (obj_of w a)"
    "obj_registered (obj_of w' a) = obj_registered (obj_of w a)"
proof -
  have get: "bt_get (objs w') a = map_option (\<lambda>ob. if a \<in> M then ob\<lparr>obj_status := Destroying\<rparr> else ob) (bt_get (objs w) a)"
    using assms by (simp add: destroyed_def)
  show "is_active w' a \<longleftrightarrow> is_active w a \<and> a \<notin> M"
    using get by (cases "bt_get (objs w) a") (auto simp: is_active_def)
  show "obj_children (obj_of w' a) = obj_children (obj_of w a)" "obj_id (obj_of w' a) = obj_id (obj_of w a)"
    "obj_parent (obj_of w' a) = obj_parent (obj_of w a)" "obj_name (obj_of w' a) = obj_name (obj_of w a)"
    "obj_registered (obj_of w' a) = obj_registered (obj_of w a)"
    using get by (cases "bt_get (objs w) a"; simp add: obj_of_def)+
qed

lemma reg_ok_destroyed:
  assumes ok: "reg_ok w" and a: "is_active w a" "obj_registered (obj_of w a)"
    and des: "destroyed {b. (kid w)\<^sup>*\<^sup>* a b} w w'"
    and out: "\<And>i pa. obj_parent (obj_of w a) = Some i \<Longrightarrow> bt_get (reg_map w) i = Some pa \<Longrightarrow>
      bt_get (obj_children (obj_of w pa)) (obj_name (obj_of w a)) \<noteq> Some (obj_id (obj_of w a))"
  shows "reg_ok w'"
proof -
  let ?M = "{b. (kid w)\<^sup>*\<^sup>* a b}"
  note D = reg_okD [OF ok] and F = destroyed_facts [OF des]
  have M: "bt_get (reg_map w) (obj_id (obj_of w b)) = Some b" if "b \<in> ?M" for b
    using reach_ids [OF ok a] that by blast
  have reg: "bt_get (reg_map w') i = Some b \<longleftrightarrow> bt_get (reg_map w) i = Some b \<and> b \<notin> ?M" for i b
  proof -
    have "i \<in> (\<lambda>b. obj_id (obj_of w b)) ` ?M \<longleftrightarrow> (\<exists>b \<in> ?M. bt_get (reg_map w) i = Some b)"
      using M D(3) by blast
    then show ?thesis using des by (auto simp: destroyed_def)
  qed
  obtain ids where ids: "ia_reclaimed (idx_allocator w') = ia_reclaimed (idx_allocator w) @ ids" "distinct ids"
    "set ids = (\<lambda>a. obj_id (obj_of w a)) ` ?M" and nx: "ia_next (idx_allocator w') = ia_next (idx_allocator w)"
    "next_obj w' = next_obj w"
    using des by (auto simp: destroyed_def)
  have "children_wf w'"
    using D(1) des by (auto simp: children_wf_def destroyed_def map_option_case split: option.splits if_splits)
  moreover have "is_active w' b \<and> obj_id (obj_of w' b) = i \<and> obj_registered (obj_of w' b)"
    if "bt_get (reg_map w') i = Some b" for i b
    using that D(2-4) unfolding reg F by blast
  moreover have "bt_get (reg_map w') (obj_id (obj_of w' b)) = Some b"
    if "is_active w' b" "obj_registered (obj_of w' b)" for b
    using that D(5) unfolding reg F by blast
  moreover have "distinct (ia_reclaimed (idx_allocator w'))"
  proof -
    have "bt_get (reg_map w) i \<noteq> None" if "i \<in> set ids" for i using that ids(3) M by auto
    then have "set (ia_reclaimed (idx_allocator w)) \<inter> set ids = {}" using D(7) by blast
    with ids D(6) show ?thesis by simp
  qed
  moreover have "i < ia_next (idx_allocator w') \<and> bt_get (reg_map w') i = None"
    if i: "i \<in> set (ia_reclaimed (idx_allocator w'))" for i
  proof -
    consider "i \<in> set (ia_reclaimed (idx_allocator w))" | b where "b \<in> ?M" "i = obj_id (obj_of w b)"
      using i ids by auto
    then show ?thesis
    proof cases
      case 1
      with D(7) nx des show ?thesis by (auto simp: destroyed_def)
    next
      case 2
      then show ?thesis using D(8) [OF M [OF 2(1)]] nx des by (auto simp: destroyed_def)
    qed
  qed
  moreover have "i < ia_next (idx_allocator w')" if "bt_get (reg_map w') i = Some b" for i b
    using that D(8) nx unfolding reg by auto
  moreover have "\<exists>b. bt_get (reg_map w') c = Some b \<and> obj_parent (obj_of w' b) = Some i \<and> obj_name (obj_of w' b) = n"
    if i: "bt_get (reg_map w') i = Some x" and n: "bt_get (obj_children (obj_of w' x)) n = Some c" for i x n c
  proof -
    have x: "bt_get (reg_map w) i = Some x" "x \<notin> ?M" using i by (simp_all add: reg)
    have xn: "bt_get (obj_children (obj_of w x)) n = Some c" using n by (simp add: F)
    from D(9) [OF x(1) xn] obtain b where b: "bt_get (reg_map w) c = Some b" "obj_parent (obj_of w b) = Some i"
      "obj_name (obj_of w b) = n" by blast
    have "b \<notin> ?M"
    proof
      assume "b \<in> ?M"
      then have "(kid w)\<^sup>*\<^sup>* a b" by simp
      then show False
      proof (cases rule: rtranclp.cases)
        case rtrancl_refl
        then show False using out [of i x] b x(1) xn D(3) [OF b(1)] by auto
      next
        case (rtrancl_into_rtrancl y)
        from rtrancl_into_rtrancl(2) obtain n' c' where yn: "bt_get (obj_children (obj_of w y)) n' = Some c'"
          "bt_get (reg_map w) c' = Some b" by (auto simp: kid_def)
        have y: "bt_get (reg_map w) (obj_id (obj_of w y)) = Some y" using M rtrancl_into_rtrancl(1) by simp
        from D(9) [OF y yn(1)] yn(2) b(2) have "obj_id (obj_of w y) = i" by auto
        with y x(1) have "y = x" by simp
        with rtrancl_into_rtrancl(1) x(2) show False by simp
      qed
    qed
    with b show ?thesis by (auto simp: reg F)
  qed
  moreover have "b < next_obj w'" if "bt_get (objs w') b \<noteq> None" for b
    using that D(10) [of b] des nx by (auto simp: destroyed_def)
  ultimately show ?thesis unfolding reg_ok_def by blast
qed

lemma unregister_facts:
  assumes ok: "reg_ok w"
  shows "is_active (unregister w ob) b \<longleftrightarrow> is_active w b"
    and "obj_id (obj_of (unregister w ob) b) = obj_id (obj_of w b)"
    "obj_parent (obj_of (unregister w ob) b) = obj_parent (obj_of w b)" "obj_name (obj_of (unregister w ob) b) = obj_name (obj_of w b)"
    "obj_registered (obj_of (unregister w ob) b) = obj_registered (obj_of w b)"
    "bt_get (objs (unregister w ob)) b = None \<longleftrightarrow> bt_get (objs w) b = None"
  by (cases rule: unregister_cases [of w ob];
      insert reg_map_live [OF ok]; auto simp: is_active_def obj_of_def bt_get_set_obj split: option.splits)+

lemma unregister_out:
  assumes ok: "reg_ok w" and "obj_parent ob = Some i" and "bt_get (reg_map w) i = Some pa"
  shows "bt_get (obj_children (obj_of (unregister w ob) pa)) (obj_name ob) \<noteq> Some (obj_id ob)"
  using assms by (cases rule: unregister_cases [of w ob]) (auto simp: obj_of_set bt_get_remove)

text \<open>Cutting the edge into an object does not change what is below it.\<close>

lemma kid_unregister:
  assumes ok: "reg_ok w" and a: "bt_get (reg_map w) (obj_id (obj_of w a)) = Some a"
  shows "(kid (unregister w (obj_of w a)))\<^sup>*\<^sup>* a b \<longleftrightarrow> (kid w)\<^sup>*\<^sup>* a b"
proof
  let ?w1 = "unregister w (obj_of w a)"
  have sub: "kid ?w1 x y \<Longrightarrow> kid w x y" for x y
    by (cases rule: unregister_cases [of w "obj_of w a"]) (auto simp: kid_def obj_of_set bt_get_remove split: if_splits)
  then show "(kid ?w1)\<^sup>*\<^sup>* a b \<Longrightarrow> (kid w)\<^sup>*\<^sup>* a b"
    by (metis mono_rtranclp)
  have sup: "kid ?w1 x y \<or> y = a" if "kid w x y" for x y
  proof (cases rule: unregister_cases [of w "obj_of w a"])
    case same
    with that show ?thesis by simp
  next
    case (removed i pa)
    from that obtain n c where n: "bt_get (obj_children (obj_of w x)) n = Some c" "bt_get (reg_map w) c = Some y"
      by (auto simp: kid_def)
    show ?thesis
    proof (cases "x = pa \<and> n = obj_name (obj_of w a)")
      case True
      with n removed(3) a show ?thesis by simp
    next
      case False
      then have "bt_get (obj_children (obj_of ?w1 x)) n = Some c"
        using n(1) removed(4) by (auto simp: obj_of_set bt_get_remove)
      with n(2) show ?thesis by (auto simp: kid_def)
    qed
  qed
  show "(kid w)\<^sup>*\<^sup>* a b \<Longrightarrow> (kid ?w1)\<^sup>*\<^sup>* a b"
  proof (induction rule: rtranclp_induct)
    case (step x y)
    with sup [of x y] show ?case by (auto intro: rtranclp.rtrancl_into_rtrancl)
  qed simp
qed

text \<open>\<open>remove_internal\<close> in full: what it does to a live object and to one already being destroyed.\<close>

lemma remove_internal_dead:
  assumes ok: "reg_ok w" and "\<not> is_active w a"
  shows "remove_internal w a = (Err ObjectDestroyed, unregister w (obj_of w a))"
  using assms unregister_facts(1) [OF ok] by (simp add: remove_internal_def Let_def)

lemma remove_internal_live:
  assumes ok: "reg_ok w" and a: "is_active w a" "obj_registered (obj_of w a)"
  obtains w' where "remove_internal w a = (Ok (), w')" "reg_ok w'"
    "destroyed {b. (kid w)\<^sup>*\<^sup>* a b} (unregister w (obj_of w a)) w'"
proof -
  let ?w1 = "unregister w (obj_of w a)"
  note U = unregister_facts [OF ok, of "obj_of w a"]
  have ok1: "reg_ok ?w1" by (rule unregister_ok [OF ok])
  have a1: "is_active ?w1 a" "obj_registered (obj_of ?w1 a)" using a U by simp_all
  obtain visited w2 where run: "destroy_loop (mark_destroying ?w1 a) [a] [] = (visited, w2)" by (metis surj_pair)
  let ?w' = "fold (\<lambda>ptr w. reclaim_object w ptr) visited w2"
  have des: "destroyed {b. (kid ?w1)\<^sup>*\<^sup>* a b} ?w1 ?w'" by (rule destroy_loop_destroys [OF ok1 a1 run])
  have "reg_ok ?w'"
  proof (rule reg_ok_destroyed [OF ok1 a1 des])
    fix i pa assume "obj_parent (obj_of ?w1 a) = Some i" "bt_get (reg_map ?w1) i = Some pa"
    then show "bt_get (obj_children (obj_of ?w1 pa)) (obj_name (obj_of ?w1 a)) \<noteq> Some (obj_id (obj_of ?w1 a))"
      using unregister_out [OF ok, of "obj_of w a" i pa] U by simp
  qed
  moreover have "remove_internal w a = (Ok (), ?w')" using a1(1) run by (simp add: remove_internal_def Let_def)
  moreover have "{b. (kid ?w1)\<^sup>*\<^sup>* a b} = {b. (kid w)\<^sup>*\<^sup>* a b}"
    using kid_unregister [OF ok reg_okD(5) [OF ok a]] by simp
  ultimately show thesis using that des by simp
qed

end
