(* ===== verification/Object_Reach.thy ===== *)
theory Object_Reach
  imports Object_System "HOL-Library.Multiset"
begin

text \<open>
  The states that the operations of the object library reach: a world and the handles that are held.
  Addresses are never reused, as a weak reference keeps the allocation of its object.
\<close>

subsection \<open>Handles\<close>

text \<open>A handle refers to its object; a \<open>strict\<close> handle has moreover a token that can be rebuilt from its
  capabilities. \<open>Handle::downgrade\<close> may take interface capabilities from a holder of \<open>ADMIN\<close> or \<open>AGENT\<close> and
  leave a token that cannot.\<close>

definition handle_inv :: "bool \<Rightarrow> 'p obj_world \<Rightarrow> handle \<Rightarrow> bool" where
  "handle_inv strict w h \<longleftrightarrow> (strict \<longrightarrow> token_ok (h_token h)) \<and>
     (case h_object h of
        Shared a \<Rightarrow> a < next_obj w \<and> (\<forall>ob. bt_get (objs w) a = Some ob \<longrightarrow>
          obj_registered ob = h_registered h \<and> tok_id (h_token h) = (if h_registered h then Some (obj_id ob) else None))
      | Owned a \<Rightarrow> \<not> h_registered h \<and> tok_id (h_token h) = None \<and>
          (\<exists>ob. bt_get (objs w) a = Some ob \<and> \<not> obj_registered ob \<and> obj_status ob = Active))"

abbreviation handle_ok :: "'p obj_world \<Rightarrow> handle \<Rightarrow> bool" where
  "handle_ok \<equiv> handle_inv True"

definition owners :: "addr \<Rightarrow> handle multiset \<Rightarrow> handle multiset" where
  "owners a H = filter_mset (\<lambda>h. h_object h = Owned a) H"

definition objects_inv :: "bool \<Rightarrow> 'p obj_world \<Rightarrow> handle multiset \<Rightarrow> bool" where
  "objects_inv strict w H \<longleftrightarrow> reg_ok w \<and> (\<forall>h \<in># H. handle_inv strict w h) \<and> (\<forall>a. size (owners a H) \<le> 1) \<and>
     (\<forall>a ob. bt_get (objs w) a = Some ob \<longrightarrow> \<not> obj_registered ob \<longrightarrow> obj_status ob = Active \<and> obj_children ob = [])"

abbreviation objects_ok :: "'p obj_world \<Rightarrow> handle multiset \<Rightarrow> bool" where
  "objects_ok \<equiv> objects_inv True"

text \<open>What a change of the world must keep for the handles to stay correct.\<close>

definition keeps_objs :: "'p obj_world \<Rightarrow> 'p obj_world \<Rightarrow> bool" where
  "keeps_objs w w' \<longleftrightarrow> next_obj w \<le> next_obj w' \<and>
     (\<forall>a ob'. a < next_obj w \<longrightarrow> bt_get (objs w') a = Some ob' \<longrightarrow>
        (\<exists>ob. bt_get (objs w) a = Some ob \<and> obj_registered ob' = obj_registered ob \<and> obj_id ob' = obj_id ob)) \<and>
     (\<forall>a ob. bt_get (objs w) a = Some ob \<longrightarrow> \<not> obj_registered ob \<longrightarrow>
        (\<exists>ob'. bt_get (objs w') a = Some ob' \<and> \<not> obj_registered ob' \<and> obj_status ob' = obj_status ob \<and>
           obj_children ob' = obj_children ob))"

lemma keeps_objs_refl [simp]: "keeps_objs w w"
  by (simp add: keeps_objs_def)

lemma keeps_objsD:
  assumes "keeps_objs w w'"
  shows "next_obj w \<le> next_obj w'"
    and "a < next_obj w \<Longrightarrow> bt_get (objs w') a = Some ob' \<Longrightarrow>
        \<exists>ob. bt_get (objs w) a = Some ob \<and> obj_registered ob' = obj_registered ob \<and> obj_id ob' = obj_id ob"
    and "bt_get (objs w) a = Some ob \<Longrightarrow> \<not> obj_registered ob \<Longrightarrow>
        \<exists>ob'. bt_get (objs w') a = Some ob' \<and> \<not> obj_registered ob' \<and> obj_status ob' = obj_status ob \<and>
           obj_children ob' = obj_children ob"
  using assms by (simp_all add: keeps_objs_def)

lemma keeps_objs_trans:
  assumes k: "keeps_objs w w'" "keeps_objs w' w''"
  shows "keeps_objs w w''"
proof -
  have "\<exists>ob. bt_get (objs w) a = Some ob \<and> obj_registered ob'' = obj_registered ob \<and> obj_id ob'' = obj_id ob"
    if a: "a < next_obj w" "bt_get (objs w'') a = Some ob''" for a ob''
  proof -
    have "a < next_obj w'" using a(1) keeps_objsD(1) [OF k(1)] by simp
    from keeps_objsD(2) [OF k(2) this a(2)] obtain ob' where ob': "bt_get (objs w') a = Some ob'"
      "obj_registered ob'' = obj_registered ob'" "obj_id ob'' = obj_id ob'" by blast
    with keeps_objsD(2) [OF k(1) a(1) ob'(1)] show ?thesis by auto
  qed
  moreover have "\<exists>ob''. bt_get (objs w'') a = Some ob'' \<and> \<not> obj_registered ob'' \<and> obj_status ob'' = obj_status ob \<and>
      obj_children ob'' = obj_children ob" if a: "bt_get (objs w) a = Some ob" "\<not> obj_registered ob" for a ob
  proof -
    from keeps_objsD(3) [OF k(1) a] obtain ob' where ob': "bt_get (objs w') a = Some ob'" "\<not> obj_registered ob'"
      "obj_status ob' = obj_status ob" "obj_children ob' = obj_children ob" by blast
    with keeps_objsD(3) [OF k(2) ob'(1,2)] show ?thesis by auto
  qed
  ultimately show ?thesis
    using keeps_objsD(1) [OF k(1)] keeps_objsD(1) [OF k(2)] by (auto simp: keeps_objs_def)
qed

lemma handle_ok_keeps:
  assumes k: "keeps_objs w w'" and h: "handle_inv q w h"
  shows "handle_inv q w' h"
proof (cases "h_object h")
  case (Shared a)
  with h have a: "q \<longrightarrow> token_ok (h_token h)" "a < next_obj w" "\<And>ob. bt_get (objs w) a = Some ob \<Longrightarrow>
      obj_registered ob = h_registered h \<and> tok_id (h_token h) = (if h_registered h then Some (obj_id ob) else None)"
    by (auto simp: handle_inv_def)
  have "obj_registered ob' = h_registered h \<and> tok_id (h_token h) = (if h_registered h then Some (obj_id ob') else None)"
    if ob': "bt_get (objs w') a = Some ob'" for ob'
  proof -
    from k a(2) ob' obtain ob where "bt_get (objs w) a = Some ob" "obj_registered ob' = obj_registered ob" "obj_id ob' = obj_id ob"
      using keeps_objsD(2) [OF k a(2) ob'] by blast
    with a(3) show ?thesis by auto
  qed
  moreover have "a < next_obj w'" using a(2) k by (auto simp: keeps_objs_def)
  ultimately show ?thesis using Shared a(1) by (simp add: handle_inv_def)
next
  case (Owned a)
  with h obtain ob where "bt_get (objs w) a = Some ob" "\<not> obj_registered ob" "obj_status ob = Active"
    by (auto simp: handle_inv_def)
  moreover from this(1,2) obtain ob' where "bt_get (objs w') a = Some ob'" "\<not> obj_registered ob'" "obj_status ob' = obj_status ob"
    using keeps_objsD(3) [OF k] by blast
  ultimately show ?thesis using Owned h by (simp add: handle_inv_def)
qed

lemma keeps_objs_set:
  assumes "bt_get (objs w) a = Some ob" and "obj_registered ob' = obj_registered ob" and "obj_id ob' = obj_id ob"
    and "\<not> obj_registered ob \<Longrightarrow> obj_status ob' = obj_status ob \<and> obj_children ob' = obj_children ob"
  shows "keeps_objs w (set_obj w a ob')"
  using assms by (auto simp: keeps_objs_def bt_get_set_obj)

lemma keeps_objs_destroyed:
  assumes des: "destroyed M w w'" and M: "\<And>a ob. a \<in> M \<Longrightarrow> bt_get (objs w) a = Some ob \<Longrightarrow> obj_registered ob"
  shows "keeps_objs w w'"
proof -
  have get: "bt_get (objs w') a = map_option (\<lambda>ob. if a \<in> M then ob\<lparr>obj_status := Destroying\<rparr> else ob) (bt_get (objs w) a)" for a
    using des by (simp add: destroyed_def)
  have "next_obj w' = next_obj w" using des by (simp add: destroyed_def)
  then show ?thesis unfolding keeps_objs_def get using M by (auto split: if_splits)
qed

subsection \<open>Worlds\<close>

lemma objects_okD:
  assumes "objects_inv q w H"
  shows "reg_ok w" and "h \<in># H \<Longrightarrow> handle_inv q w h" and "size (owners a H) \<le> 1"
    and "bt_get (objs w) a = Some ob \<Longrightarrow> \<not> obj_registered ob \<Longrightarrow> obj_status ob = Active \<and> obj_children ob = []"
  using assms by (simp_all add: objects_inv_def)

lemma objects_ok_keeps:
  assumes ok: "objects_inv q w H" and "reg_ok w'" and k: "keeps_objs w w'"
    and new: "\<And>a ob. next_obj w \<le> a \<Longrightarrow> bt_get (objs w') a = Some ob \<Longrightarrow> obj_registered ob"
  shows "objects_inv q w' H"
proof -
  have "obj_status ob' = Active \<and> obj_children ob' = []"
    if ob': "bt_get (objs w') a = Some ob'" "\<not> obj_registered ob'" for a ob'
  proof -
    have "a < next_obj w" using new [of a ob'] ob' by force
    from keeps_objsD(2) [OF k this ob'(1)] ob'(2) obtain ob where ob: "bt_get (objs w) a = Some ob" "\<not> obj_registered ob" by auto
    from keeps_objsD(3) [OF k ob] ob' objects_okD(4) [OF ok ob] show ?thesis by auto
  qed
  then show ?thesis
    using assms(2) handle_ok_keeps [OF k] objects_okD(2,3) [OF ok] by (auto simp: objects_inv_def)
qed

lemma objects_ok_add:
  assumes "objects_inv q w H" and "handle_inv q w h" and "\<not> is_anonymous h"
  shows "objects_inv q w (add_mset h H)"
proof -
  have "owners a (add_mset h H) = owners a H" for a
    using assms(3) by (cases "h_object h") (auto simp: owners_def is_anonymous_def)
  with assms(1,2) show ?thesis by (auto simp: objects_inv_def)
qed

lemma owners_mono: "owners a (H - {#h#}) \<subseteq># owners a H"
  unfolding owners_def by (rule multiset_filter_mono) simp

lemma objects_ok_forget:
  assumes ok: "objects_inv q w H"
  shows "objects_inv q w (H - {#h#})"
proof -
  have "size (owners a (H - {#h#})) \<le> 1" for a
    using size_mset_mono [OF owners_mono, of a H h] objects_okD(3) [OF ok, of a] by simp
  with ok show ?thesis by (auto simp: objects_inv_def dest: in_diffD)
qed

lemma objects_ok_replace:
  assumes ok: "objects_inv q w H" and h: "h \<in># H" and "handle_inv q w h'" and "h_object h' = h_object h"
  shows "objects_inv q w (add_mset h' (H - {#h#}))"
proof -
  have "size (owners a (add_mset h' (H - {#h#}))) = size (owners a H)" for a
  proof -
    obtain H' where "H = add_mset h H'" using h by (metis mset_add)
    then show ?thesis using assms(4) by (simp add: owners_def)
  qed
  with assms show ?thesis by (auto simp: objects_inv_def dest: in_diffD)
qed

subsection \<open>Adding a child\<close>

lemma allocate_index_fresh:
  assumes ok: "reg_ok w" and "allocate_index (idx_allocator w) = (i, ia)" and "ia_next (idx_allocator w) < usize_max"
  shows "bt_get (reg_map w) i = None" "i < ia_next ia" "ia_next (idx_allocator w) \<le> ia_next ia" "distinct (ia_reclaimed ia)"
    "set (ia_reclaimed ia) \<subseteq> set (ia_reclaimed (idx_allocator w))" "i \<notin> set (ia_reclaimed ia)"
proof -
  note D = reg_okD [OF ok]
  show "bt_get (reg_map w) i = None"
    using assms(2) D(7) [of i] D(8) [of i] by (auto simp: allocate_index_def split: list.splits) fastforce
  have n: "ia_reclaimed (idx_allocator w) = [] \<Longrightarrow> (ia_next (idx_allocator w) + 1) mod 2 ^ 64 = ia_next (idx_allocator w) + 1"
    using assms(3) by simp
  show "i < ia_next ia" "ia_next (idx_allocator w) \<le> ia_next ia" "distinct (ia_reclaimed ia)"
    "set (ia_reclaimed ia) \<subseteq> set (ia_reclaimed (idx_allocator w))" "i \<notin> set (ia_reclaimed ia)"
    using assms(2) D(6) D(7) [of i] n by (auto simp: allocate_index_def split: list.splits)
qed

definition new_child :: "usize \<Rightarrow> usize \<Rightarrow> string \<Rightarrow> capability \<Rightarrow> 'p \<Rightarrow> 'p object" where
  "new_child i parent name masked payload =
     \<lparr>obj_registered = True, obj_id = i, obj_parent = Some parent, obj_name = name, obj_status = Active,
      obj_masked_caps = masked, obj_lifecycle_flags = LIFECYCLE_NONE, obj_public_interface_caps = 0,
      obj_payload = payload, obj_children = []\<rparr>"

definition with_child :: "'p obj_world \<Rightarrow> addr \<Rightarrow> usize \<Rightarrow> index_allocator \<Rightarrow> string \<Rightarrow> capability \<Rightarrow> 'p \<Rightarrow> 'p obj_world" where
  "with_child w self i ia name masked payload =
     w\<lparr>objs := bt_insert self ((obj_of w self)\<lparr>obj_children := bt_insert name i (obj_children (obj_of w self))\<rparr>)
         (bt_insert (next_obj w) (new_child i (obj_id (obj_of w self)) name masked payload) (objs w)),
       reg_map := bt_insert i (next_obj w) (reg_map w), idx_allocator := ia, next_obj := next_obj w + 1\<rparr>"

lemma add_child_cases:
  assumes ok: "reg_ok w" and self: "is_active w self"
  obtains (refused) e where "add_child w self name masked payload = Some (Err e, w)"
      "name = [] \<or> name = ''self'' \<or> bt_get (obj_children (obj_of w self)) name \<noteq> None"
  | (created) i ia where "allocate_index (idx_allocator w) = (i, ia)" "bt_get (obj_children (obj_of w self)) name = None"
      "obj_registered (obj_of w self)" "name \<noteq> []" "name \<noteq> ''self''"
      "add_child w self name masked payload =
         Some (Ok \<lparr>h_token = \<lparr>tok_id = Some i, tok_caps = CAP_ADMIN_GRP, tok_icaps = U32_MAX\<rparr>, h_registered = True,
                  h_object = Shared (next_obj w)\<rparr>, with_child w self i ia name masked payload)"
  | (unregistered) "\<not> obj_registered (obj_of w self)" "add_child w self name masked payload = None"
proof (cases "name = [] \<or> name = ''self'' \<or> bt_get (obj_children (obj_of w self)) name \<noteq> None")
  case True
  then have "\<exists>e. add_child w self name masked payload = Some (Err e, w)" by (auto simp: add_child_def)
  with True show thesis using refused by blast
next
  case False
  show thesis
  proof (cases "obj_registered (obj_of w self)")
    case True
    obtain i ia where al: "allocate_index (idx_allocator w) = (i, ia)" by (metis surj_pair)
    have ne: "self \<noteq> next_obj w" using self reg_okD(10) [OF ok, of self] by (auto simp: is_active_def split: option.splits)
    let ?c = "new_child i (obj_id (obj_of w self)) name masked payload"
    let ?w0 = "(set_obj w (next_obj w) ?c)\<lparr>idx_allocator := ia, next_obj := next_obj w + 1\<rparr>"
    have tok: "token_new (Some i) CAP_ADMIN_GRP U32_MAX = Some \<lparr>tok_id = Some i, tok_caps = CAP_ADMIN_GRP, tok_icaps = U32_MAX\<rparr>"
      by (simp add: token_new_def)
    have o1: "obj_of (w\<lparr>objs := bt_insert (next_obj w) ?c (objs w), idx_allocator := ia, next_obj := Suc (next_obj w),
        reg_map := r\<rparr>) self = obj_of w self" for r
      using ne by (simp add: obj_of_def bt_get_insert)
    have o2: "obj_id (obj_of ?w0 (next_obj w)) = i"
      by (simp add: obj_of_def set_obj_def bt_get_insert new_child_def)
    have "insert_internal ?w0 (next_obj w) = Some (\<lparr>h_token = \<lparr>tok_id = Some i, tok_caps = CAP_ADMIN_GRP, tok_icaps = U32_MAX\<rparr>,
        h_registered = True, h_object = Shared (next_obj w)\<rparr>, ?w0\<lparr>reg_map := bt_insert i (next_obj w) (reg_map w)\<rparr>)"
      unfolding insert_internal_def Let_def o2 tok by simp
    moreover have act: "is_active w2 self" if "objs w2 = objs (with_child w self i ia name masked payload)" for w2
      using self that by (auto simp: with_child_def is_active_def bt_get_insert obj_of_def split: option.splits)
    ultimately have "add_child w self name masked payload =
         Some (Ok \<lparr>h_token = \<lparr>tok_id = Some i, tok_caps = CAP_ADMIN_GRP, tok_icaps = U32_MAX\<rparr>, h_registered = True,
                  h_object = Shared (next_obj w)\<rparr>, with_child w self i ia name masked payload)"
      using False True al
      by (simp add: add_child_def Let_def new_child_def [symmetric] set_obj_def o1) (simp add: act with_child_def)
    with al False True show thesis using created by blast
  next
    case unreg: False
    with False have "add_child w self name masked payload = None" by (simp add: add_child_def)
    with unreg show thesis by (rule unregistered)
  qed
qed

lemma with_child_objs:
  "bt_get (objs (with_child w self i ia name masked payload)) a =
     (if a = self then Some ((obj_of w self)\<lparr>obj_children := bt_insert name i (obj_children (obj_of w self))\<rparr>)
      else if a = next_obj w then Some (new_child i (obj_id (obj_of w self)) name masked payload)
      else bt_get (objs w) a)"
  by (simp add: with_child_def bt_get_insert)

lemma with_child_fields:
  "bt_get (reg_map (with_child w self i ia name masked payload)) j = (if j = i then Some (next_obj w) else bt_get (reg_map w) j)"
  "idx_allocator (with_child w self i ia name masked payload) = ia"
  "next_obj (with_child w self i ia name masked payload) = next_obj w + 1"
  by (simp_all add: with_child_def bt_get_insert)

lemma reg_ok_with_child:
  assumes ok: "reg_ok w" and self: "is_active w self" "obj_registered (obj_of w self)"
    and al: "allocate_index (idx_allocator w) = (i, ia)" "ia_next (idx_allocator w) < usize_max"
    and free: "bt_get (obj_children (obj_of w self)) name = None"
  shows "reg_ok (with_child w self i ia name masked payload)" (is "reg_ok ?w")
proof -
  note D = reg_okD [OF ok] and I = allocate_index_fresh [OF ok al]
  obtain ob where ob: "bt_get (objs w) self = Some ob" "obj_status ob = Active"
    using self(1) by (auto simp: is_active_def split: option.splits)
  have ow: "obj_of w self = ob" using ob by (simp add: obj_of_def)
  have ne: "self \<noteq> next_obj w" using D(10) [of self] ob by auto
  have reg_self: "bt_get (reg_map w) (obj_id ob) = Some self" using D(5) [OF self] ow by simp
  have act: "is_active ?w a \<longleftrightarrow> a = next_obj w \<or> is_active w a" for a
    using ob ow by (auto simp: is_active_def with_child_objs new_child_def)
  have new: "bt_get (objs w) (next_obj w) = None" using D(10) [of "next_obj w"] by (meson less_irrefl)
  have at: "obj_of ?w a = (if a = self then ob\<lparr>obj_children := bt_insert name i (obj_children ob)\<rparr>
      else if a = next_obj w then new_child i (obj_id ob) name masked payload else obj_of w a)" for a
    using ow by (simp add: obj_of_def with_child_objs)
  have used: "a \<noteq> next_obj w" if "bt_get (reg_map w) j = Some a" for j a
    using reg_map_live [OF ok that] new by auto
  have fields: "obj_id (obj_of ?w a) = (if a = next_obj w then i else obj_id (obj_of w a))"
    "obj_registered (obj_of ?w a) = (if a = next_obj w then True else obj_registered (obj_of w a))" for a
    using ne ow by (auto simp: at new_child_def)
  have "bt_wf (obj_children ob)" using D(1) ob by (simp add: children_wf_def)
  then have "children_wf ?w"
    using D(1) ow by (auto simp: children_wf_def with_child_objs bt_wf_insert new_child_def split: if_splits)
  moreover have "is_active ?w a \<and> obj_id (obj_of ?w a) = j \<and> obj_registered (obj_of ?w a)"
    if "bt_get (reg_map ?w) j = Some a" for j a
    using that D(2-4) [of j a] used [of j a] unfolding act fields with_child_fields by (auto split: if_splits)
  moreover have "bt_get (reg_map ?w) (obj_id (obj_of ?w a)) = Some a" if "is_active ?w a" "obj_registered (obj_of ?w a)" for a
    using that D(5) [of a] I(1) unfolding act fields with_child_fields by (auto split: if_splits)
  moreover have "j < ia_next ia \<and> bt_get (reg_map ?w) j = None" if "j \<in> set (ia_reclaimed ia)" for j
    using that I(3,5,6) D(7) [of j] unfolding with_child_fields by auto
  moreover have "j < ia_next ia" if "bt_get (reg_map ?w) j = Some a" for j a
    using that I(2,3) D(8) [of j a] unfolding with_child_fields by (auto split: if_splits)
  moreover have "\<exists>b. bt_get (reg_map ?w) c = Some b \<and> obj_parent (obj_of ?w b) = Some j \<and> obj_name (obj_of ?w b) = n"
    if j: "bt_get (reg_map ?w) j = Some a" and n: "bt_get (obj_children (obj_of ?w a)) n = Some c" for j a n c
  proof (cases "a = self \<and> n = name")
    case True
    have "j = obj_id ob" using calculation(2) [OF j] True ne ow fields(1) by simp
    moreover have "c = i" using n True by (simp add: at bt_get_insert)
    ultimately show ?thesis using ne True by (simp add: with_child_fields at new_child_def)
  next
    case False
    have "a \<noteq> next_obj w" using n ne by (auto simp: at new_child_def bt_get_def)
    then have j': "bt_get (reg_map w) j = Some a" using j by (auto simp: with_child_fields split: if_splits)
    have n': "bt_get (obj_children (obj_of w a)) n = Some c"
      using n False \<open>a \<noteq> next_obj w\<close> ow by (auto simp: at bt_get_insert split: if_splits)
    from D(9) [OF j' n'] obtain b where b: "bt_get (reg_map w) c = Some b" "obj_parent (obj_of w b) = Some j" "obj_name (obj_of w b) = n"
      by blast
    have "c \<noteq> i" using b(1) I(1) by auto
    then show ?thesis using b used [OF b(1)] ow by (auto simp: with_child_fields at)
  qed
  moreover have "a < next_obj ?w" if "bt_get (objs ?w) a \<noteq> None" for a
    using that D(10) [of a] D(10) [of self] ob unfolding with_child_fields with_child_objs by (auto split: if_splits)
  ultimately show ?thesis unfolding reg_ok_def with_child_fields(2) using I(4) by blast
qed

lemma keeps_with_child:
  assumes ok: "reg_ok w" and self: "is_active w self" "obj_registered (obj_of w self)"
  shows "keeps_objs w (with_child w self i ia name masked payload)"
proof -
  obtain ob where ob: "bt_get (objs w) self = Some ob" using self(1) by (auto simp: is_active_def split: option.splits)
  have ow: "obj_of w self = ob" using ob by (simp add: obj_of_def)
  have "a \<noteq> next_obj w" if "bt_get (objs w) a = Some ob'" for a ob' using reg_okD(10) [OF ok, of a] that by auto
  then show ?thesis
    using ob ow self(2) unfolding keeps_objs_def with_child_objs with_child_fields by auto
qed

subsection \<open>Removing and dropping\<close>

text \<open>The facts that carry the invariant from one world to the next.\<close>

definition moves_to :: "'p obj_world \<Rightarrow> 'p obj_world \<Rightarrow> bool" where
  "moves_to w w' \<longleftrightarrow> reg_ok w' \<and> keeps_objs w w' \<and> next_obj w' = next_obj w"

lemma moves_to_trans: "moves_to w w' \<Longrightarrow> moves_to w' w'' \<Longrightarrow> moves_to w w''"
  unfolding moves_to_def using keeps_objs_trans by metis

lemma objects_ok_moves:
  assumes "objects_inv q w H" and "moves_to w w'"
  shows "objects_inv q w' H"
proof (rule objects_ok_keeps [OF assms(1)])
  show "reg_ok w'" "keeps_objs w w'" using assms(2) by (simp_all add: moves_to_def)
  fix a ob assume "next_obj w \<le> a" "bt_get (objs w') a = Some ob"
  then show "obj_registered ob" using assms(2) reg_okD(10) [of w' a] by (auto simp: moves_to_def)
qed

lemma moves_set_obj:
  assumes ok: "reg_ok w" and ob: "bt_get (objs w) a = Some ob"
    and "obj_id ob' = obj_id ob" "obj_registered ob' = obj_registered ob" "obj_status ob' = obj_status ob"
      "obj_parent ob' = obj_parent ob" "obj_name ob' = obj_name ob" "obj_children ob' = obj_children ob"
  shows "moves_to w (set_obj w a ob')"
proof -
  have "bt_wf (obj_children ob')" using reg_okD(1) [OF ok] ob assms(8) by (simp add: children_wf_def)
  then have "reg_ok (set_obj w a ob')" using assms by (intro reg_ok_set_obj [OF ok ob]) simp_all
  moreover have "keeps_objs w (set_obj w a ob')" using assms by (intro keeps_objs_set [OF ob]) simp_all
  ultimately show ?thesis by (simp add: moves_to_def)
qed

lemma moves_drop_child:
  assumes ok: "reg_ok w" and a: "bt_get (objs w) a \<noteq> None" and reg: "obj_registered (obj_of w a)"
  shows "moves_to w (set_obj w a ((obj_of w a)\<lparr>obj_children := bt_remove n (obj_children (obj_of w a))\<rparr>))"
proof -
  from a obtain ob where ob: "bt_get (objs w) a = Some ob" by blast
  then have "obj_of w a = ob" by (simp add: obj_of_def)
  with reg have "keeps_objs w (set_obj w a ((obj_of w a)\<lparr>obj_children := bt_remove n (obj_children (obj_of w a))\<rparr>))"
    by (intro keeps_objs_set [OF ob]) simp_all
  then show ?thesis using drop_child_ok [OF ok a] by (simp add: moves_to_def)
qed

lemma moves_unregister:
  assumes ok: "reg_ok w"
  shows "moves_to w (unregister w ob)"
proof (cases rule: unregister_cases [of w ob])
  case same
  with ok show ?thesis by (simp add: moves_to_def)
next
  case (removed i pa)
  show ?thesis unfolding removed(4)
    by (rule moves_drop_child [OF ok reg_map_live [OF ok removed(2)] reg_okD(4) [OF ok removed(2)]])
qed

lemma moves_remove_internal:
  assumes ok: "reg_ok w" and reg: "obj_registered (obj_of w a)"
  shows "moves_to w (snd (remove_internal w a))"
proof (cases "is_active w a")
  case True
  from remove_internal_live [OF ok this reg] obtain w' where w': "remove_internal w a = (Ok (), w')" "reg_ok w'"
    "destroyed {b. (kid w)\<^sup>*\<^sup>* a b} (unregister w (obj_of w a)) w'" .
  let ?w1 = "unregister w (obj_of w a)"
  have m: "moves_to w ?w1" by (rule moves_unregister [OF ok])
  have "keeps_objs ?w1 w'"
  proof (rule keeps_objs_destroyed [OF w'(3)])
    fix b ob assume b: "b \<in> {b. (kid w)\<^sup>*\<^sup>* a b}" "bt_get (objs ?w1) b = Some ob"
    then have "bt_get (reg_map w) (obj_id (obj_of w b)) = Some b" using reach_ids [OF ok True reg] by simp
    then have "obj_registered (obj_of w b)" by (rule reg_okD(4) [OF ok])
    then show "obj_registered ob" using unregister_facts(5) [OF ok, of "obj_of w a" b] b(2) by (simp add: obj_of_def)
  qed
  then show ?thesis using w' m keeps_objs_trans by (auto simp: moves_to_def destroyed_def)
next
  case False
  then show ?thesis using remove_internal_dead [OF ok] moves_unregister [OF ok] by simp
qed

lemma handle_drop_moves:
  assumes ok: "reg_ok w" and h: "handle_inv q w h"
  obtains w' where "moves_to w w'"
    "handle_drop w h = Some (case h_object h of Owned a \<Rightarrow> w'\<lparr>objs := bt_remove a (objs w')\<rparr> | Shared _ \<Rightarrow> w')"
proof (cases "contains (capabilities h) CAP_ADMIN \<and> h_registered h \<and> tok_id (h_token h) \<noteq> None")
  case True
  then obtain a where a: "h_object h = Shared a" using h by (cases "h_object h") (auto simp: handle_inv_def)
  show thesis
  proof (cases "bt_get (objs w) a")
    case None
    with True a have "registry_remove w h True = (Err ObjectDestroyed, w)" by (simp add: registry_remove_def upgrade_ref_def)
    with True a have "handle_drop w h = Some w" by (simp add: handle_drop_def)
    with ok a show thesis using that [of w] by (simp add: moves_to_def)
  next
    case (Some ob)
    then have reg: "obj_registered (obj_of w a)" using h a True by (auto simp: handle_inv_def obj_of_def)
    have rr: "registry_remove w h True = remove_internal w a"
      using Some True a by (simp add: registry_remove_def upgrade_ref_def)
    have "fst (remove_internal w a) = Ok () \<or> fst (remove_internal w a) = Err ObjectDestroyed"
      by (auto simp: remove_internal_def Let_def split: prod.splits)
    then have "handle_drop w h = Some (snd (remove_internal w a))"
      using True a rr by (cases "remove_internal w a") (auto simp: handle_drop_def)
    then show thesis using that moves_remove_internal [OF ok reg] a by simp
  qed
next
  case False
  then have "handle_drop w h = Some (case h_object h of Owned a \<Rightarrow> w\<lparr>objs := bt_remove a (objs w)\<rparr> | Shared _ \<Rightarrow> w)"
    unfolding handle_drop_def by (simp only: if_False) simp
  then show thesis using that [of w] ok by (simp add: moves_to_def)
qed

lemma free_objs: "bt_get (objs (w\<lparr>objs := bt_remove a (objs w)\<rparr>)) b = (if b = a then None else bt_get (objs w) b)"
  by (simp add: bt_get_remove)

lemma reg_ok_free:
  assumes ok: "reg_ok w" and a: "\<And>i. bt_get (reg_map w) i \<noteq> Some a"
  shows "reg_ok (w\<lparr>objs := bt_remove a (objs w)\<rparr>)" (is "reg_ok ?w")
proof -
  note D = reg_okD [OF ok]
  have act: "is_active ?w b \<longleftrightarrow> is_active w b \<and> b \<noteq> a" for b
    unfolding is_active_def free_objs by simp
  have at: "obj_of ?w b = obj_of w b" if "b \<noteq> a" for b
    unfolding obj_of_def free_objs using that by simp
  have "children_wf ?w" using D(1) unfolding children_wf_def free_objs by auto
  moreover have "b < next_obj w" if "bt_get (objs ?w) b \<noteq> None" for b
    using that D(10) [of b] unfolding free_objs by (auto split: if_splits)
  moreover have "is_active ?w b \<and> obj_id (obj_of ?w b) = i \<and> obj_registered (obj_of ?w b)" if "bt_get (reg_map w) i = Some b" for i b
  proof -
    have "b \<noteq> a" using a that by blast
    then show ?thesis using D(2-4) [OF that] by (simp add: act at)
  qed
  moreover have "bt_get (reg_map w) (obj_id (obj_of ?w b)) = Some b" if "is_active ?w b" "obj_registered (obj_of ?w b)" for b
    using that D(5) [of b] at [of b] by (auto simp: act)
  moreover have "\<exists>b. bt_get (reg_map w) c = Some b \<and> obj_parent (obj_of ?w b) = Some i \<and> obj_name (obj_of ?w b) = n"
    if i: "bt_get (reg_map w) i = Some x" and n: "bt_get (obj_children (obj_of ?w x)) n = Some c" for i x n c
  proof -
    have "x \<noteq> a" using a i by blast
    with D(9) [OF i, of n c] n obtain b where b: "bt_get (reg_map w) c = Some b" "obj_parent (obj_of w b) = Some i"
      "obj_name (obj_of w b) = n" by (auto simp: at)
    moreover have "b \<noteq> a" using a b by blast
    ultimately show ?thesis using at by auto
  qed
  ultimately show ?thesis using D(6-8) unfolding reg_ok_def by simp
qed

lemma objects_ok_free:
  assumes ok: "objects_inv q w H" and a: "\<And>i. bt_get (reg_map w) i \<noteq> Some a" and own: "owners a H = {#}"
  shows "objects_inv q (w\<lparr>objs := bt_remove a (objs w)\<rparr>) H" (is "objects_inv q ?w H")
proof -
  have "handle_inv q ?w h" if h: "h \<in># H" for h
  proof -
    have "h_object h \<noteq> Owned a"
    proof
      assume "h_object h = Owned a"
      with h have "h \<in># owners a H" by (simp add: owners_def)
      with own show False by simp
    qed
    then show ?thesis using objects_okD(2) [OF ok h] unfolding handle_inv_def free_objs by (cases "h_object h") auto
  qed
  moreover have "obj_status ob = Active \<and> obj_children ob = []"
    if "bt_get (objs ?w) b = Some ob" "\<not> obj_registered ob" for b ob
    using that objects_okD(4) [OF ok, of b ob] unfolding free_objs by (auto split: if_splits)
  ultimately show ?thesis
    using reg_ok_free [OF objects_okD(1) [OF ok] a] objects_okD(3) [OF ok] by (simp add: objects_inv_def)
qed

lemma objects_ok_drop:
  assumes ok: "objects_inv q w H" and h: "h \<in># H"
  obtains w' where "handle_drop w h = Some w'" "objects_inv q w' (H - {#h#})"
proof -
  obtain w1 where w1: "moves_to w w1"
    "handle_drop w h = Some (case h_object h of Owned a \<Rightarrow> w1\<lparr>objs := bt_remove a (objs w1)\<rparr> | Shared _ \<Rightarrow> w1)"
    using handle_drop_moves [OF objects_okD(1) [OF ok] objects_okD(2) [OF ok h]] by blast
  have ok1: "objects_inv q w1 H" and ok1': "objects_inv q w1 (H - {#h#})"
    using objects_ok_moves [OF ok w1(1)] objects_ok_forget by blast+
  show thesis
  proof (cases "h_object h")
    case (Shared a)
    then show thesis using that w1(2) ok1' by simp
  next
    case (Owned a)
    obtain H' where H': "H = add_mset h H'" using h by (metis mset_add)
    have "size (owners a H) \<le> 1" by (rule objects_okD(3) [OF ok])
    then have own: "owners a (H - {#h#}) = {#}" using Owned H' by (simp add: owners_def)
    from objects_okD(2) [OF ok1 h] Owned obtain ob where ob: "bt_get (objs w1) a = Some ob" "\<not> obj_registered ob"
      by (auto simp: handle_inv_def)
    have "bt_get (reg_map w1) i \<noteq> Some a" for i
      using reg_okD(4) [OF objects_okD(1) [OF ok1], of i a] ob by (auto simp: obj_of_def)
    from objects_ok_free [OF ok1' this own] show thesis using that w1(2) Owned by simp
  qed
qed

subsection \<open>New handles\<close>

lemma handle_ok_shared:
  assumes ok: "reg_ok w" and h: "handle_inv q w h" and t: "q \<longrightarrow> token_ok t" "tok_id t = tok_id (h_token h)"
  shows "handle_inv q w \<lparr>h_token = t, h_registered = h_registered h, h_object = into_shared (h_object h)\<rparr>"
proof (cases "h_object h")
  case (Shared a)
  with h t show ?thesis by (auto simp: handle_inv_def)
next
  case (Owned a)
  with h obtain ob where "bt_get (objs w) a = Some ob" "\<not> obj_registered ob" by (auto simp: handle_inv_def)
  moreover from this have "a < next_obj w" using reg_okD(10) [OF ok, of a] by simp
  ultimately show ?thesis using Owned h t by (auto simp: handle_inv_def)
qed

lemma derive_handle_Ok:
  assumes "derive_handle w h cap icaps = Some (Ok h')"
  shows "h' = \<lparr>h_token = \<lparr>tok_id = tok_id (h_token h), tok_caps = cap, tok_icaps = icaps\<rparr>, h_registered = h_registered h,
      h_object = into_shared (h_object h)\<rparr>" "token_ok (h_token h')"
  using assms
  by (auto simp: derive_handle_def Let_def token_new_Some split: if_splits option.splits bind_splits)

lemma acquire_ref_Ok:
  "acquire_ref w h = Ok h' \<Longrightarrow>
     h' = \<lparr>h_token = h_token h, h_registered = h_registered h, h_object = into_shared (h_object h)\<rparr>"
  by (auto simp: acquire_ref_def split: if_splits)

lemma derive_token_Ok:
  "derive_token ob t = Some (Ok t') \<Longrightarrow> token_ok t' \<and> tok_id t' = Some (obj_id ob)"
  by (auto simp: derive_token_def Let_def token_new_Some simp del: if_split split: if_split_asm)

lemma traverse_token_ok:
  "token_ok t \<Longrightarrow> traverse w t names = Some (Ok t') \<Longrightarrow> token_ok t'"
proof (induction w t names rule: traverse.induct)
  case (2 w t name rest)
  show ?case
  proof (cases "name = ''self''")
    case True
    with 2 show ?thesis by simp
  next
    case False
    with "2.prems"(2) obtain i a c j t1 where s: "tok_id t = Some i" "bt_get (reg_map w) i = Some a"
      "bt_get (obj_children (obj_of w a)) name = Some j" "bt_get (reg_map w) j = Some c"
      "derive_token (obj_of w c) t = Some (Ok t1)" "traverse w t1 rest = Some (Ok t')"
      by (auto split: option.splits sum.splits bind_splits)
    with "2.IH"(2) [OF False s(1-4)] derive_token_Ok [OF s(5)] show ?thesis by simp
  qed
qed simp

lemma start_token_ok: "start_token w cur path = Some (Ok t) \<Longrightarrow> token_ok t"
  by (auto simp: start_token_def token_new_Some dest: derive_token_Ok split: option.splits bool.splits if_splits)

lemma locate_handle_ok:
  assumes ok: "reg_ok w" and run: "locate_and_then w cur path = Some (Ok h)"
  shows "handle_inv q w h" "\<not> is_anonymous h"
proof -
  from run obtain t0 t i a where t: "start_token w cur path = Some (Ok t0)" "traverse w t0 (path_components path) = Some (Ok t)"
    "tok_id t = Some i" "bt_get (reg_map w) i = Some a"
    and h: "h = \<lparr>h_token = t, h_registered = obj_registered (obj_of w a), h_object = Shared a\<rparr>"
    by (auto simp: locate_and_then_def split: bind_splits sum.splits option.splits)
  have "token_ok t" by (rule traverse_token_ok [OF start_token_ok [OF t(1)] t(2)])
  moreover obtain ob where ob: "bt_get (objs w) a = Some ob" using reg_map_live [OF ok t(4)] by blast
  moreover have "obj_registered ob" "obj_id ob = i"
    using reg_okD(3,4) [OF ok t(4)] ob by (simp_all add: obj_of_def)
  moreover have "a < next_obj w" using reg_okD(10) [OF ok, of a] ob by simp
  ultimately show "handle_inv q w h" using h t(3) by (simp add: handle_inv_def obj_of_def)
  show "\<not> is_anonymous h" using h by (simp add: is_anonymous_def)
qed

lemma upgrade_Ok:
  assumes "handle_upgrade w h p = Some (Ok h')"
  shows "\<exists>t. h' = h\<lparr>h_token := t\<rparr> \<and> token_ok t \<and> tok_id t = tok_id (h_token h)"
  using assms by (auto simp: handle_upgrade_def token_new_Some split: if_splits bind_splits)

lemma upgrade_oneshot_Ok:
  assumes "upgrade_oneshot w p h = Some (Ok h')"
  shows "\<exists>t. h' = \<lparr>h_token = t, h_registered = h_registered h, h_object = into_shared (h_object h)\<rparr> \<and> token_ok t \<and>
    tok_id t = tok_id (h_token h)"
  using assms by (auto simp: upgrade_oneshot_def token_new_Some split: if_splits bind_splits)

lemma not_anonymous_shared [simp]: "\<not> is_anonymous \<lparr>h_token = t, h_registered = r, h_object = into_shared ob\<rparr>"
  by (cases ob) (simp_all add: is_anonymous_def)

lemma objects_ok_shared:
  assumes "objects_inv q w H" and "h \<in># H" and "q \<longrightarrow> token_ok t" and "tok_id t = tok_id (h_token h)"
  shows "objects_inv q w (add_mset \<lparr>h_token = t, h_registered = h_registered h, h_object = into_shared (h_object h)\<rparr> H)"
  using assms by (intro objects_ok_add handle_ok_shared) (auto dest: objects_okD)

subsection \<open>Steps\<close>

text \<open>The calls of the library. Fewer than \<open>2 ^ 64\<close> indices are handed out and memory of a registered object
  is collected only after its removal. Every downgrade is a step; of the \<open>strict\<close> steps only those that
  leave a token that can be rebuilt.\<close>

inductive obj_step :: "bool \<Rightarrow> 'p obj_world \<times> handle multiset \<Rightarrow> 'p obj_world \<times> handle multiset \<Rightarrow> bool"
  for strict where
  anonymous: "new_anonymous w payload masked = Some (h, w') \<Longrightarrow> obj_step strict (w, H) (w', add_mset h H)"
| derive: "h \<in># H \<Longrightarrow> derive_handle w h cap icaps = Some (Ok h') \<Longrightarrow> obj_step strict (w, H) (w, add_mset h' H)"
| clone: "h \<in># H \<Longrightarrow> try_clone w h = Ok h' \<Longrightarrow> obj_step strict (w, H) (w, add_mset h' H)"
| acquire: "h \<in># H \<Longrightarrow> acquire_ref w h = Ok h' \<Longrightarrow> obj_step strict (w, H) (w, add_mset h' H)"
| downgrade: "h \<in># H \<Longrightarrow> (strict \<longrightarrow> token_ok (token_downgrade (h_token h) caps icaps)) \<Longrightarrow>
    obj_step strict (w, H) (w, add_mset (handle_downgrade h caps icaps) (H - {#h#}))"
| upgrade: "h \<in># H \<Longrightarrow> handle_upgrade w h permit = Some (Ok h') \<Longrightarrow> obj_step strict (w, H) (w, add_mset h' (H - {#h#}))"
| oneshot: "h \<in># H \<Longrightarrow> upgrade_oneshot w permit h = Some (Ok h') \<Longrightarrow> obj_step strict (w, H) (w, add_mset h' H)"
| locate: "locate_and_then w cur path = Some (Ok h') \<Longrightarrow> obj_step strict (w, H) (w, add_mset h' H)"
| masked: "h \<in># H \<Longrightarrow> write_with w h = Ok a \<Longrightarrow> obj_step strict (w, H) (set_masked_caps w a caps, H)"
| public: "h \<in># H \<Longrightarrow> write_with w h = Ok a \<Longrightarrow> obj_step strict (w, H) (set_public_interface_caps w a icaps, H)"
| lifecycle: "h \<in># H \<Longrightarrow> handle_set_lifecycle_flags w h flags = (res, w') \<Longrightarrow> obj_step strict (w, H) (w', H)"
| add: "h \<in># H \<Longrightarrow> write_with w h = Ok a \<Longrightarrow> ia_next (idx_allocator w) < usize_max \<Longrightarrow>
    add_child w a name masked payload = Some (Ok h', w') \<Longrightarrow> obj_step strict (w, H) (w', add_mset h' H)"
| add_fails: "h \<in># H \<Longrightarrow> write_with w h = Ok a \<Longrightarrow>
    add_child w a name masked payload = Some (Err e, w') \<Longrightarrow> obj_step strict (w, H) (w', H)"
| remove: "h \<in># H \<Longrightarrow> write_with w h = Ok a \<Longrightarrow> remove_child w a name is_kernel = Some (res, w') \<Longrightarrow> obj_step strict (w, H) (w', H)"
| admin_remove: "h \<in># H \<Longrightarrow> admin_with w h = Ok a \<Longrightarrow> admin_remove_child w a name is_kernel = Some (res, w') \<Longrightarrow>
    obj_step strict (w, H) (w', H)"
| drop: "h \<in># H \<Longrightarrow> handle_drop w h = Some w' \<Longrightarrow> obj_step strict (w, H) (w', H - {#h#})"
| collect: "obj_registered (obj_of w a) \<Longrightarrow> obj_step strict (w, H) (collect w a, H)"

definition handle_access :: "'p obj_world \<Rightarrow> handle \<Rightarrow> capability \<Rightarrow> (addr, object_error) result" where
  "handle_access w h required =
     (case upgrade_ref w (h_object h) of
        None \<Rightarrow> Err ObjectDestroyed
      | Some a \<Rightarrow> map_sum id (\<lambda>_. a) (verify_capabilities (obj_of w a) (h_token h) required))"

lemma with_access:
  "read_with w h = handle_access w h CAP_READ" "write_with w h = handle_access w h CAP_WRITE"
  "admin_with w h = handle_access w h CAP_ADMIN_GRP"
  by (simp_all add: read_with_def write_with_def admin_with_def handle_with_def handle_access_def container_access_def
      container_read_with_def container_write_with_def container_admin_with_def split: option.splits)

lemma handle_access_Ok:
  assumes run: "handle_access w h required = Ok a" and h: "handle_inv q w h"
  shows "is_active w a" "upgrade_ref w (h_object h) = Some a" "contains (capabilities h) required"
proof -
  from run obtain u where up: "upgrade_ref w (h_object h) = Some a" and v: "verify_capabilities (obj_of w a) (h_token h) required = Inr u"
    unfolding handle_access_def
    by (cases "upgrade_ref w (h_object h)"; cases "verify_capabilities (obj_of w (the (upgrade_ref w (h_object h)))) (h_token h) required") auto
  show "upgrade_ref w (h_object h) = Some a" by (rule up)
  from v show "contains (capabilities h) required"
    by (simp add: verify_capabilities_def token_contains_def split: if_splits)
  have "obj_status (obj_of w a) = Active" using v by (simp add: verify_capabilities_def split: if_splits)
  moreover have "bt_get (objs w) a \<noteq> None"
    using up h by (cases "h_object h") (auto simp: upgrade_ref_def handle_inv_def split: if_splits)
  ultimately show "is_active w a" by (auto simp: is_active_def obj_of_def)
qed

lemma is_active_Some: "is_active w a \<Longrightarrow> bt_get (objs w) a = Some (obj_of w a)"
  by (auto simp: is_active_def obj_of_def split: option.splits)

lemma objects_ok_new_anonymous:
  assumes ok: "objects_inv q w H" and run: "new_anonymous w payload masked = Some (h, w')"
  shows "objects_inv q w' (add_mset h H)"
proof -
  let ?a = "next_obj w"
  from run obtain ob where w': "w' = (set_obj w ?a ob)\<lparr>next_obj := ?a + 1\<rparr>"
    and ob: "\<not> obj_registered ob" "obj_status ob = Active" "obj_children ob = []"
    and h: "h = \<lparr>h_token = \<lparr>tok_id = None, tok_caps = CAP_ADMIN_GRP, tok_icaps = U32_MAX\<rparr>, h_registered = False, h_object = Owned ?a\<rparr>"
    by (auto simp: new_anonymous_def Let_def token_new_def)
  note D = reg_okD [OF objects_okD(1) [OF ok]]
  have new: "bt_get (objs w) ?a = None" using D(10) [of ?a] by (meson less_irrefl)
  have get: "bt_get (objs w') b = (if b = ?a then Some ob else bt_get (objs w) b)" for b
    using w' by (simp add: set_obj_def bt_get_insert)
  have rest: "reg_map w' = reg_map w" "idx_allocator w' = idx_allocator w" "next_obj w' = ?a + 1"
    using w' by simp_all
  have used: "b \<noteq> ?a" if "bt_get (reg_map w) i = Some b" for i b
    using reg_map_live [OF objects_okD(1) [OF ok] that] new by auto
  have at: "obj_of w' b = (if b = ?a then ob else obj_of w b)" for b by (simp add: obj_of_def get)
  have act: "is_active w' b \<longleftrightarrow> b = ?a \<or> is_active w b" for b using ob by (simp add: is_active_def get)
  have keep: "keeps_objs w w'" using new unfolding keeps_objs_def get rest by auto
  have "reg_ok w'"
  proof -
    have "children_wf w'" using D(1) ob(3) by (auto simp: children_wf_def get)
    moreover have "is_active w' b \<and> obj_id (obj_of w' b) = i \<and> obj_registered (obj_of w' b)" if "bt_get (reg_map w) i = Some b" for i b
      using that D(2-4) [OF that] used [OF that] by (simp add: act at)
    moreover have "bt_get (reg_map w) (obj_id (obj_of w' b)) = Some b" if "is_active w' b" "obj_registered (obj_of w' b)" for b
      using that D(5) [of b] ob(1) by (auto simp: act at split: if_splits)
    moreover have "\<exists>b. bt_get (reg_map w) c = Some b \<and> obj_parent (obj_of w' b) = Some i \<and> obj_name (obj_of w' b) = n"
      if "bt_get (reg_map w) i = Some x" "bt_get (obj_children (obj_of w' x)) n = Some c" for i x n c
      using that D(9) [OF that(1), of n c] used [OF that(1)] used by (auto simp: at)
    moreover have "b < next_obj w'" if "bt_get (objs w') b \<noteq> None" for b
      using that D(10) [of b] by (auto simp: get rest split: if_splits)
    ultimately show ?thesis using D(6-8) unfolding reg_ok_def rest(1,2) by blast
  qed
  moreover have "handle_inv q w' g" if "g \<in># add_mset h H" for g
  proof (cases "g = h")
    case True
    then show ?thesis using h ob get by (simp add: handle_inv_def token_ok_def)
  next
    case False
    then show ?thesis using that objects_okD(2) [OF ok] handle_ok_keeps [OF keep] by auto
  qed
  moreover have "size (owners b (add_mset h H)) \<le> 1" for b
  proof (cases "b = ?a")
    case True
    have "g \<in># H \<Longrightarrow> h_object g \<noteq> Owned ?a" for g
      using objects_okD(2) [OF ok, of g] new by (auto simp: handle_inv_def)
    then have "owners ?a H = {#}" by (subst set_mset_eq_empty_iff [symmetric]) (auto simp: owners_def)
    with True h show ?thesis by (simp add: owners_def)
  next
    case False
    then show ?thesis using h objects_okD(3) [OF ok, of b] by (simp add: owners_def)
  qed
  moreover have "obj_status ob' = Active \<and> obj_children ob' = []"
    if "bt_get (objs w') b = Some ob'" "\<not> obj_registered ob'" for b ob'
    using that objects_okD(4) [OF ok, of b ob'] ob by (auto simp: get split: if_splits)
  ultimately show ?thesis unfolding objects_inv_def by blast
qed

lemma moves_remove_child:
  assumes ok: "objects_inv q w H" and a: "is_active w a" and run: "remove_child w a name is_kernel = Some (res, w')"
  shows "moves_to w w'"
proof -
  have r: "reg_ok w" by (rule objects_okD(1) [OF ok])
  let ?w1 = "set_obj w a ((obj_of w a)\<lparr>obj_children := bt_remove name (obj_children (obj_of w a))\<rparr>)"
  consider "w' = w" | c child where "obj_registered (obj_of w a)" "bt_get (reg_map w) c = Some child" "w' = snd (remove_internal ?w1 child)"
  proof (cases "bt_get (obj_children (obj_of w a)) name")
    case None
    with run have "w' = w" by (simp add: remove_child_def split: if_splits)
    then show thesis by (rule that(1))
  next
    case (Some c)
    with run show thesis
      by (cases "bt_get (reg_map w) c"; cases "remove_internal ?w1 (the (bt_get (reg_map w) c))")
         (auto simp: remove_child_def Let_def split: if_splits intro: that)
  qed
  then show ?thesis
  proof cases
    case 1
    with r show ?thesis by (simp add: moves_to_def)
  next
    case 2
    have m: "moves_to w ?w1" using moves_drop_child [OF r _ 2(1)] is_active_Some [OF a] by simp
    have "obj_registered (obj_of ?w1 child)" using reg_okD(4) [OF r 2(2)] by (auto simp: obj_of_set)
    with m moves_remove_internal [of ?w1 child] 2(3) show ?thesis
      by (intro moves_to_trans [OF m]) (simp add: moves_to_def)
  qed
qed

lemma moves_admin_remove_child:
  assumes ok: "objects_inv q w H" and a: "is_active w a" and run: "admin_remove_child w a name is_kernel = Some (res, w')"
  shows "moves_to w w'"
proof -
  have r: "reg_ok w" by (rule objects_okD(1) [OF ok])
  let ?w1 = "set_obj w a ((obj_of w a)\<lparr>obj_children := bt_remove name (obj_children (obj_of w a))\<rparr>)"
  consider "w' = w" | "obj_registered (obj_of w a)" "w' = ?w1"
    | c child where "obj_registered (obj_of w a)" "bt_get (reg_map w) c = Some child" "w' = snd (remove_internal ?w1 child)"
  proof (cases "bt_get (obj_children (obj_of w a)) name")
    case None
    with run have "w' = w" by (simp add: admin_remove_child_def split: if_splits)
    then show thesis by (rule that(1))
  next
    case (Some c)
    with run show thesis
      by (cases "bt_get (reg_map w) c"; cases "remove_internal ?w1 (the (bt_get (reg_map w) c))")
         (auto simp: admin_remove_child_def Let_def split: if_splits intro: that)
  qed
  then show ?thesis
  proof cases
    case 1
    with r show ?thesis by (simp add: moves_to_def)
  next
    case 2
    then show ?thesis using moves_drop_child [OF r] is_active_Some [OF a] by simp
  next
    case 3
    have m: "moves_to w ?w1" using moves_drop_child [OF r _ 3(1)] is_active_Some [OF a] by simp
    have "obj_registered (obj_of ?w1 child)" using reg_okD(4) [OF r 3(2)] by (auto simp: obj_of_set)
    with m moves_remove_internal [of ?w1 child] 3(3) show ?thesis
      by (intro moves_to_trans [OF m]) (simp add: moves_to_def)
  qed
qed

lemma objects_ok_add_child:
  assumes ok: "objects_inv q w H" and a: "is_active w a" and n: "ia_next (idx_allocator w) < usize_max"
    and run: "add_child w a name masked payload = Some (Ok h, w')"
  shows "objects_inv q w' (add_mset h H)"
  using objects_okD(1) [OF ok] a
proof (cases rule: add_child_cases [of w a name masked payload])
  case (created i ia)
  have w': "w' = with_child w a i ia name masked payload"
    and h: "h = \<lparr>h_token = \<lparr>tok_id = Some i, tok_caps = CAP_ADMIN_GRP, tok_icaps = U32_MAX\<rparr>, h_registered = True,
                  h_object = Shared (next_obj w)\<rparr>"
    using run created(6) by simp_all
  have "reg_ok w'" unfolding w' by (rule reg_ok_with_child [OF objects_okD(1) [OF ok] a created(3,1) n created(2)])
  moreover have "keeps_objs w w'" unfolding w' by (rule keeps_with_child [OF objects_okD(1) [OF ok] a created(3)])
  moreover have "a \<noteq> next_obj w" using is_active_Some [OF a] reg_okD(10) [OF objects_okD(1) [OF ok], of a] by auto
  moreover have "obj_registered ob" if "next_obj w \<le> b" "bt_get (objs w') b = Some ob" for b ob
    using that created(3) reg_okD(10) [OF objects_okD(1) [OF ok], of b]
    unfolding w' with_child_objs by (auto simp: new_child_def split: if_splits)
  ultimately have "objects_inv q w' H" by (intro objects_ok_keeps [OF ok]) auto
  moreover have "handle_inv q w' h"
    using \<open>a \<noteq> next_obj w\<close> unfolding h w' handle_inv_def with_child_objs with_child_fields
    by (simp add: new_child_def token_ok_def)
  ultimately show ?thesis using h by (intro objects_ok_add) (simp_all add: is_anonymous_def)
qed (use run in auto)

lemma obj_step_keeps:
  assumes "obj_step q (w, H) (w', H')" and ok: "objects_inv q w H"
  shows "objects_inv q w' H'"
  using assms(1)
proof (cases rule: obj_step.cases)
  case (derive h cap icaps h')
  show ?thesis
    using objects_ok_shared [OF ok derive(3)] derive_handle_Ok [OF derive(4)] derive(1,2) by simp
next
  case (clone h h')
  then have "acquire_ref w h = Ok h'" by (simp add: try_clone_def split: if_splits)
  from acquire_ref_Ok [OF this] show ?thesis
    using objects_ok_shared [OF ok clone(3)] objects_okD(2) [OF ok clone(3)] clone(1,2) by (simp add: handle_inv_def)
next
  case (acquire h h')
  from acquire_ref_Ok [OF acquire(4)] show ?thesis
    using objects_ok_shared [OF ok acquire(3)] objects_okD(2) [OF ok acquire(3)] acquire(1,2) by (simp add: handle_inv_def)
next
  case (downgrade h caps icaps)
  have "handle_inv q w (handle_downgrade h caps icaps)"
    using objects_okD(2) [OF ok downgrade(3)] downgrade(4)
    by (cases "h_object h") (simp_all add: handle_inv_def handle_downgrade_def token_downgrade_def)
  then show ?thesis using objects_ok_replace [OF ok downgrade(3)] downgrade(1,2) by (simp add: handle_downgrade_def)
next
  case (upgrade h permit h')
  from upgrade_Ok [OF upgrade(4)] obtain t where t: "h' = h\<lparr>h_token := t\<rparr>" "token_ok t" "tok_id t = tok_id (h_token h)" by blast
  then have "handle_inv q w h'" using objects_okD(2) [OF ok upgrade(3)] by (cases "h_object h") (simp_all add: handle_inv_def)
  then show ?thesis using objects_ok_replace [OF ok upgrade(3)] upgrade(1,2) t(1) by simp
next
  case (oneshot h permit h')
  from upgrade_oneshot_Ok [OF oneshot(4)] show ?thesis using objects_ok_shared [OF ok oneshot(3)] oneshot(1,2) by auto
next
  case (locate cur path h')
  show ?thesis using objects_ok_add [OF ok locate_handle_ok [OF objects_okD(1) [OF ok] locate(3)]] locate(1,2) by simp
next
  case (masked h a caps)
  have "is_active w a" by (rule handle_access_Ok(1) [OF masked(4) [unfolded with_access] objects_okD(2) [OF ok masked(3)]])
  then have "moves_to w w'"
    unfolding masked(1) set_masked_caps_def by (intro moves_set_obj [OF objects_okD(1) [OF ok] is_active_Some]) simp_all
  with objects_ok_moves [OF ok] masked(2) show ?thesis by simp
next
  case (public h a icaps)
  have "is_active w a" by (rule handle_access_Ok(1) [OF public(4) [unfolded with_access] objects_okD(2) [OF ok public(3)]])
  then have "moves_to w w'"
    unfolding public(1) set_public_interface_caps_def by (intro moves_set_obj [OF objects_okD(1) [OF ok] is_active_Some]) simp_all
  with objects_ok_moves [OF ok] public(2) show ?thesis by simp
next
  case (lifecycle h flags res)
  show ?thesis
  proof (cases "upgrade_ref w (h_object h)")
    case None
    with lifecycle ok show ?thesis by (simp add: handle_set_lifecycle_flags_def)
  next
    case (Some a)
    then obtain ob where ob: "bt_get (objs w) a = Some ob"
      using objects_okD(2) [OF ok lifecycle(2)] by (auto simp: upgrade_ref_def handle_inv_def split: object_ref.splits if_splits)
    then have "obj_of w a = ob" by (simp add: obj_of_def)
    with moves_set_obj [OF objects_okD(1) [OF ok] ob, of "ob\<lparr>obj_lifecycle_flags := flags\<rparr>"] Some lifecycle
    have "moves_to w w'" by (simp add: handle_set_lifecycle_flags_def set_lifecycle_flags_def)
    with objects_ok_moves [OF ok] lifecycle(1) show ?thesis by simp
  qed
next
  case (add h a name masked payload h')
  have "is_active w a" by (rule handle_access_Ok(1) [OF add(3) [unfolded with_access] objects_okD(2) [OF ok add(2)]])
  from objects_ok_add_child [OF ok this add(4,5)] show ?thesis using add(1) by simp
next
  case (add_fails h a name masked payload e)
  have "is_active w a" by (rule handle_access_Ok(1) [OF add_fails(3) [unfolded with_access] objects_okD(2) [OF ok add_fails(2)]])
  from add_child_cases [OF objects_okD(1) [OF ok] this, of name masked payload] have "w' = w"
    using add_fails(4) by (metis Inl_Inr_False option.distinct(1) option.inject prod.inject)
  with ok add_fails(1) show ?thesis by simp
next
  case (remove h a name is_kernel res)
  have "is_active w a" by (rule handle_access_Ok(1) [OF remove(3) [unfolded with_access] objects_okD(2) [OF ok remove(2)]])
  from objects_ok_moves [OF ok moves_remove_child [OF ok this remove(4)]] show ?thesis using remove(1) by simp
next
  case (admin_remove h a name is_kernel res)
  have "is_active w a" by (rule handle_access_Ok(1) [OF admin_remove(3) [unfolded with_access] objects_okD(2) [OF ok admin_remove(2)]])
  from objects_ok_moves [OF ok moves_admin_remove_child [OF ok this admin_remove(4)]] show ?thesis using admin_remove(1) by simp
next
  case (drop h)
  then show ?thesis using objects_ok_drop [OF ok drop(2)] by auto
next
  case (collect a)
  show ?thesis
  proof (cases "is_active w a")
    case True
    with collect ok show ?thesis by (simp add: Object_World.collect_def)
  next
    case False
    have "bt_get (reg_map w) i \<noteq> Some a" for i using reg_okD(2) [OF objects_okD(1) [OF ok], of i a] False by blast
    moreover have "owners a H = {#}"
    proof -
      have "h_object g \<noteq> Owned a" if "g \<in># H" for g
        using objects_okD(2) [OF ok that] False by (auto simp: handle_inv_def is_active_def)
      then show ?thesis by (subst set_mset_eq_empty_iff [symmetric]) (auto simp: owners_def)
    qed
    ultimately show ?thesis
      using objects_ok_free [OF ok] collect False by (simp add: Object_World.collect_def)
  qed
qed (use ok in \<open>auto intro: objects_ok_new_anonymous\<close>)

lemma init_root_eq:
  "init_root w ns = Some (Ok \<lparr>h_token = \<lparr>tok_id = Some 0, tok_caps = NOT (CAP_EXECUTE OR CAP_ADMIN OR CAP_AGENT), tok_icaps = 0\<rparr>,
       h_registered = True, h_object = Shared (next_obj w)\<rparr>,
     (set_obj w (next_obj w) \<lparr>obj_registered = True, obj_id = 0, obj_parent = None, obj_name = [], obj_status = Active,
        obj_masked_caps = CAP_EXECUTE OR CAP_ADMIN OR CAP_AGENT, obj_lifecycle_flags = LIFECYCLE_STICKY,
        obj_public_interface_caps = 0, obj_payload = ns, obj_children = []\<rparr>)
       \<lparr>next_obj := next_obj w + 1, reg_map := bt_insert 0 (next_obj w) (reg_map w)\<rparr>)"
proof -
  define m where "m = CAP_EXECUTE OR CAP_ADMIN OR CAP_AGENT"
  have m: "bit m n \<longleftrightarrow> n = 4 \<or> n = 5 \<or> n = 6" for n
    by (auto simp: m_def bit_simps bit_cap)
  have app: "CAP_TRUSTED AND NOT m OR (CAP_CLONE OR CAP_SEND) = NOT m"
    by (rule bit_eqI) (auto simp: bit_simps bit_cap m CAP_TRUSTED_def)
  have no: "\<not> contains (CAP_TRUSTED AND NOT m) CAP_ADMIN" "\<not> contains (CAP_TRUSTED AND NOT m) CAP_AGENT"
    "\<not> contains (NOT m) CAP_ADMIN" "\<not> contains (NOT m) CAP_AGENT"
    by (simp_all add: contains_cap bit_simps m)
  have yes: "contains m CAP_ADMIN" "contains CAP_TRUSTED CAP_ADMIN" "contains CAP_TRUSTED CAP_READ"
    by (simp_all add: contains_cap bit_simps m CAP_TRUSTED_def)
  have t: "token_new None CAP_TRUSTED U32_MAX = Some \<lparr>tok_id = None, tok_caps = CAP_TRUSTED, tok_icaps = U32_MAX\<rparr>"
    by (simp add: token_new_def)
  show ?thesis
    unfolding init_root_def Let_def t m_def [symmetric]
    by (simp add: derive_token_def token_contains_def Let_def no yes app token_new_def)
qed

lemma objects_ok_init:
  assumes run: "init_root registry_new ns = Some (Ok h, w)"
  shows "objects_inv q w {#h#}"
proof -
  have w: "objs w = [(0, \<lparr>obj_registered = True, obj_id = 0, obj_parent = None, obj_name = [], obj_status = Active,
        obj_masked_caps = CAP_EXECUTE OR CAP_ADMIN OR CAP_AGENT, obj_lifecycle_flags = LIFECYCLE_STICKY,
        obj_public_interface_caps = 0, obj_payload = ns, obj_children = []\<rparr>)]" "reg_map w = [(0, 0)]"
    "idx_allocator w = \<lparr>ia_next = 1, ia_reclaimed = []\<rparr>" "next_obj w = 1"
    and h: "h = \<lparr>h_token = \<lparr>tok_id = Some 0, tok_caps = NOT (CAP_EXECUTE OR CAP_ADMIN OR CAP_AGENT), tok_icaps = 0\<rparr>,
       h_registered = True, h_object = Shared 0\<rparr>"
    using run unfolding init_root_eq registry_new_def by (auto simp: set_obj_def index_allocator_new_def)
  have "reg_ok w"
    by (simp add: reg_ok_def children_wf_def is_active_def obj_of_def w bt_get_def)
  moreover have "handle_inv q w h"
    by (simp add: handle_inv_def h w bt_get_def token_ok_bit cap_bits)
  ultimately show ?thesis
    by (simp add: objects_inv_def owners_def h) (simp add: w bt_get_def)
qed

text \<open>C22: in every state that the library reaches from a new registry, the registry maps every index to the
  one active object with that index, no free index is in use, every entry of a children map is an object
  with that parent and name, every handle refers to its object and no owned object has two owners; and as
  long as no downgrade takes interface capabilities from a handle with ADMIN or AGENT, every handle also has
  a token that can be rebuilt.\<close>

theorem reachable_objects_ok:
  assumes "init_root registry_new ns = Some (Ok h0, w0)" and "(obj_step strict)\<^sup>*\<^sup>* (w0, {#h0#}) (w, H)"
  shows "objects_inv strict w H"
  using assms(2)
proof (induction "(w, H)" arbitrary: w H rule: rtranclp_induct)
  case base
  show ?case by (rule objects_ok_init [OF assms(1)])
next
  case (step s)
  obtain w1 H1 where s: "s = (w1, H1)" by (cases s)
  show ?case by (rule obj_step_keeps [OF step(2) [unfolded s] step(3) [OF s]])
qed

end
