(* ===== verification/Object_Access.thy ===== *)
theory Object_Access
  imports Object_Reach
begin

text \<open>
  What the object library guarantees its clients: which objects a path reaches and with which
  capabilities, what a removal destroys, and how far a derived handle can go.
\<close>

subsection \<open>Walking a path\<close>

text \<open>The indices of the objects that a path names, from the object with index \<open>i\<close> on.\<close>

fun walk :: "'p obj_world \<Rightarrow> usize \<Rightarrow> string list \<Rightarrow> usize list option" where
  "walk w i [] = Some []"
| "walk w i (name # rest) =
     (if name = ''self'' then walk w i rest
      else case bt_get (reg_map w) i of
        None \<Rightarrow> None
      | Some a \<Rightarrow> (case bt_get (obj_children (obj_of w a)) name of
            None \<Rightarrow> None
          | Some c \<Rightarrow> map_option ((#) c) (walk w c rest)))"

text \<open>The object with an index.\<close>

definition at_index :: "'p obj_world \<Rightarrow> usize \<Rightarrow> 'p object" where
  "at_index w i = obj_of w (the (bt_get (reg_map w) i))"

lemma derive_token_caps:
  assumes "derive_token ob t = Some (Ok t')"
  shows "n \<noteq> 0 \<Longrightarrow> n \<noteq> 1 \<Longrightarrow> bit (tok_caps t') n \<longleftrightarrow> bit (tok_caps t) n \<and> \<not> bit (obj_masked_caps ob) n"
    and "\<not> contains (tok_caps t) CAP_ADMIN \<Longrightarrow> \<not> contains (tok_caps t) CAP_AGENT \<Longrightarrow> tok_caps t' = tok_caps t AND NOT (obj_masked_caps ob)"
    and "tok_icaps t' = (if contains (tok_caps t') CAP_ADMIN \<or> contains (tok_caps t') CAP_AGENT then U32_MAX
           else obj_public_interface_caps ob)"
proof -
  define app where "app = (if (contains (obj_masked_caps ob) CAP_ADMIN \<or> contains (obj_masked_caps ob) CAP_AGENT) \<and>
      (contains (tok_caps t) CAP_ADMIN \<or> contains (tok_caps t) CAP_AGENT) then CAP_CLONE OR CAP_SEND else 0)"
  define ic where "ic = (if contains (tok_caps t AND NOT (obj_masked_caps ob)) CAP_ADMIN \<or>
          contains (tok_caps t AND NOT (obj_masked_caps ob)) CAP_AGENT then U32_MAX else obj_public_interface_caps ob)"
  have t': "t' = \<lparr>tok_id = Some (obj_id ob), tok_caps = tok_caps t AND NOT (obj_masked_caps ob) OR app, tok_icaps = ic\<rparr>"
    using assms unfolding derive_token_def Let_def token_contains_def app_def [symmetric] ic_def [symmetric]
    by (auto simp: token_new_Some split: if_split_asm)
  have app: "app = 0 \<or> app = CAP_CLONE OR CAP_SEND"
      "\<not> contains (tok_caps t) CAP_ADMIN \<Longrightarrow> \<not> contains (tok_caps t) CAP_AGENT \<Longrightarrow> app = 0"
    by (auto simp: app_def)
  have bits: "bit app n \<Longrightarrow> n = 0 \<or> n = 1" for n using app(1) by (auto simp: bit_simps bit_cap)
  show "n \<noteq> 0 \<Longrightarrow> n \<noteq> 1 \<Longrightarrow> bit (tok_caps t') n \<longleftrightarrow> bit (tok_caps t) n \<and> \<not> bit (obj_masked_caps ob) n"
    using t' bits [of n] by (auto simp: bit_simps dest: bit_imp_le_length)
  show "\<not> contains (tok_caps t) CAP_ADMIN \<Longrightarrow> \<not> contains (tok_caps t) CAP_AGENT \<Longrightarrow> tok_caps t' = tok_caps t AND NOT (obj_masked_caps ob)"
    using t' app(2) by simp
  have "bit (tok_caps t AND NOT (obj_masked_caps ob) OR app) n \<longleftrightarrow> bit (tok_caps t AND NOT (obj_masked_caps ob)) n" if "n = 5 \<or> n = 6" for n
    using that bits [of n] by (auto simp: bit_simps)
  then show "tok_icaps t' = (if contains (tok_caps t') CAP_ADMIN \<or> contains (tok_caps t') CAP_AGENT then U32_MAX
           else obj_public_interface_caps ob)"
    unfolding t' ic_def contains_cap by simp
qed

lemma derive_token_child:
  assumes ok: "reg_ok w" and a: "bt_get (reg_map w) i = Some a" "bt_get (obj_children (obj_of w a)) name = Some c" and t: "tok_id t = Some i"
  obtains b where "bt_get (reg_map w) c = Some b"
    "\<not> contains (tok_caps t) CAP_READ \<Longrightarrow> derive_token (obj_of w b) t = Some (Err InsufficientCapabilities)"
    "contains (tok_caps t) CAP_READ \<Longrightarrow> \<exists>t'. derive_token (obj_of w b) t = Some (Ok t') \<and> tok_id t' = Some c"
proof -
  from reg_okD(9) [OF ok a] obtain b where b: "bt_get (reg_map w) c = Some b" "obj_parent (obj_of w b) = Some i" by blast
  have st: "obj_status (obj_of w b) = Active" using reg_okD(2) [OF ok b(1)] by (auto simp: is_active_def obj_of_def split: option.splits)
  have id: "obj_id (obj_of w b) = c" by (rule reg_okD(3) [OF ok b(1)])
  have "\<exists>t'. derive_token (obj_of w b) t = Some (Ok t') \<and> tok_id t' = Some c" if r: "contains (tok_caps t) CAP_READ"
  proof -
    let ?caps = "tok_caps t AND NOT (obj_masked_caps (obj_of w b))"
    define app where "app = (if (contains (obj_masked_caps (obj_of w b)) CAP_ADMIN \<or> contains (obj_masked_caps (obj_of w b)) CAP_AGENT) \<and>
      (contains (tok_caps t) CAP_ADMIN \<or> contains (tok_caps t) CAP_AGENT) then CAP_CLONE OR CAP_SEND else 0)"
    define ic where "ic = (if contains ?caps CAP_ADMIN \<or> contains ?caps CAP_AGENT then U32_MAX
      else obj_public_interface_caps (obj_of w b))"
    have "contains (?caps OR app) CAP_ADMIN \<longleftrightarrow> contains ?caps CAP_ADMIN" "contains (?caps OR app) CAP_AGENT \<longleftrightarrow> contains ?caps CAP_AGENT"
      by (auto simp: contains_cap bit_simps bit_cap app_def)
    then have "token_new (Some c) (?caps OR app) ic = Some \<lparr>tok_id = Some c, tok_caps = ?caps OR app, tok_icaps = ic\<rparr>"
      by (simp add: token_new_def ic_def)
    then show ?thesis
      using st id t r b(2)
      unfolding derive_token_def Let_def token_contains_def app_def [symmetric] ic_def [symmetric] by simp
  qed
  moreover have "derive_token (obj_of w b) t = Some (Err InsufficientCapabilities)" if "\<not> contains (tok_caps t) CAP_READ"
    using that st t b(2) by (simp add: derive_token_def token_contains_def)
  ultimately show thesis using that b(1) by blast
qed

text \<open>A traversal fails only where a name is missing or where \<open>READ\<close> is masked above the last object.\<close>

definition readable :: "'p obj_world \<Rightarrow> token \<Rightarrow> usize list \<Rightarrow> bool" where
  "readable w t js \<longleftrightarrow> (js \<noteq> [] \<longrightarrow> contains (tok_caps t) CAP_READ) \<and>
     (\<forall>j \<in> set (butlast js). \<not> contains (obj_masked_caps (at_index w j)) CAP_READ)"

text \<open>What a traversal from the object \<open>i\<close> with the token \<open>t\<close> must give.\<close>

definition resolves :: "'p obj_world \<Rightarrow> token \<Rightarrow> usize \<Rightarrow> string list \<Rightarrow> (token, object_error) result \<Rightarrow> bool" where
  "resolves w t i names res \<longleftrightarrow>
    (case res of
       Inl _ \<Rightarrow> \<not> (\<exists>js. walk w i names = Some js \<and> readable w t js)
     | Inr t' \<Rightarrow> \<exists>js. walk w i names = Some js \<and> readable w t js \<and> tok_id t' = Some (last (i # js)) \<and>
         bt_get (reg_map w) (last (i # js)) \<noteq> None \<and>
         (\<forall>n. n \<noteq> 0 \<longrightarrow> n \<noteq> 1 \<longrightarrow> bit (tok_caps t') n \<longleftrightarrow>
            bit (tok_caps t) n \<and> (\<forall>j \<in> set js. \<not> bit (obj_masked_caps (at_index w j)) n)) \<and>
         (\<not> contains (tok_caps t) CAP_ADMIN \<longrightarrow> \<not> contains (tok_caps t) CAP_AGENT \<longrightarrow> contains (tok_caps t) (tok_caps t')))"

lemma traverse_exact:
  assumes ok: "reg_ok w"
  shows "tok_id t = Some i \<Longrightarrow> bt_get (reg_map w) i \<noteq> None \<Longrightarrow> \<exists>res. traverse w t names = Some res \<and> resolves w t i names res"
proof (induction names arbitrary: t i)
  case Nil
  then show ?case by (auto simp: readable_def resolves_def)
next
  case (Cons name rest)
  show ?case
  proof (cases "name = ''self''")
    case True
    then have eq: "walk w i (name # rest) = walk w i rest" "traverse w t (name # rest) = traverse w t rest" by simp_all
    from Cons.IH [OF Cons.prems] show ?thesis unfolding resolves_def eq .
  next
    case False
    from Cons.prems(2) obtain a where a: "bt_get (reg_map w) i = Some a" by blast
    show ?thesis
    proof (cases "bt_get (obj_children (obj_of w a)) name")
      case None
      with False a Cons.prems(1) have "walk w i (name # rest) = None" "traverse w t (name # rest) = Some (Err ObjectNotFound)" by simp_all
      then show ?thesis unfolding resolves_def by simp
    next
      case (Some c)
      from derive_token_child [OF ok a Some Cons.prems(1)] obtain b where b: "bt_get (reg_map w) c = Some b"
        "\<not> contains (tok_caps t) CAP_READ \<Longrightarrow> derive_token (obj_of w b) t = Some (Err InsufficientCapabilities)"
        "contains (tok_caps t) CAP_READ \<Longrightarrow> \<exists>t'. derive_token (obj_of w b) t = Some (Ok t') \<and> tok_id t' = Some c" by blast
      have wk: "walk w i (name # rest) = map_option ((#) c) (walk w c rest)" using False a Some by simp
      show ?thesis
      proof (cases "contains (tok_caps t) CAP_READ")
        case no: False
        with b(2) False a Some b(1) Cons.prems(1) have "traverse w t (name # rest) = Some (Err InsufficientCapabilities)" by simp
        with no wk show ?thesis by (auto simp: readable_def resolves_def)
      next
        case r: True
        with b(3) obtain t1 where t1: "derive_token (obj_of w b) t = Some (Ok t1)" "tok_id t1 = Some c" by blast
        have tr: "traverse w t (name # rest) = traverse w t1 rest" using False a Some b(1) Cons.prems(1) t1(1) by simp
        have at: "at_index w c = obj_of w b" using b(1) by (simp add: at_index_def)
        note caps = derive_token_caps [OF t1(1)]
        have r1: "readable w t (c # js) \<longleftrightarrow> readable w t1 js" for js
          using r caps(1) [of 2] by (auto simp: readable_def contains_cap at)
        have weak: "contains (tok_caps t) x" if "\<not> contains (tok_caps t) CAP_ADMIN" "\<not> contains (tok_caps t) CAP_AGENT"
          "contains (tok_caps t1) x" for x
          using that caps(2) by (simp add: contains_and_left)
        have keep: "\<not> contains (tok_caps t) CAP_ADMIN \<Longrightarrow> \<not> contains (tok_caps t1) CAP_ADMIN"
          "\<not> contains (tok_caps t) CAP_AGENT \<Longrightarrow> \<not> contains (tok_caps t1) CAP_AGENT"
          using caps(1) [of 5] caps(1) [of 6] by (auto simp: contains_cap)
        from Cons.IH [OF t1(2)] b(1) obtain res where res: "traverse w t1 rest = Some res" "resolves w t1 c rest res" by auto
        show ?thesis
        proof (cases res)
          case (Inl e)
          with res tr wk r1 show ?thesis by (auto simp: resolves_def)
        next
          case (Inr t')
          with res(2) obtain js where js: "walk w c rest = Some js" "readable w t1 js" "tok_id t' = Some (last (c # js))"
            "bt_get (reg_map w) (last (c # js)) \<noteq> None"
            "\<forall>n. n \<noteq> 0 \<longrightarrow> n \<noteq> 1 \<longrightarrow> bit (tok_caps t') n \<longleftrightarrow>
                bit (tok_caps t1) n \<and> (\<forall>j \<in> set js. \<not> bit (obj_masked_caps (at_index w j)) n)"
            "\<not> contains (tok_caps t1) CAP_ADMIN \<longrightarrow> \<not> contains (tok_caps t1) CAP_AGENT \<longrightarrow> contains (tok_caps t1) (tok_caps t')"
            by (auto simp: resolves_def)
          have "\<forall>n. n \<noteq> 0 \<longrightarrow> n \<noteq> 1 \<longrightarrow> bit (tok_caps t') n \<longleftrightarrow>
              bit (tok_caps t) n \<and> (\<forall>j \<in> set (c # js). \<not> bit (obj_masked_caps (at_index w j)) n)"
            using js(5) caps(1) at by auto
          moreover have "\<not> contains (tok_caps t) CAP_ADMIN \<longrightarrow> \<not> contains (tok_caps t) CAP_AGENT \<longrightarrow> contains (tok_caps t) (tok_caps t')"
            using js(6) keep weak by blast
          ultimately have "resolves w t i (name # rest) (Ok t')"
            unfolding resolves_def wk sum.case using js(1-4) r1 by (intro exI [of _ "c # js"]) simp
          then show ?thesis using Inr res(1) unfolding tr by simp
        qed
      qed
    qed
  qed
qed

lemma valid_handle:
  assumes ok: "objects_inv q w H" and h: "h \<in># H" and v: "is_valid w h" and r: "h_registered h"
  obtains i a where "tok_id (h_token h) = Some i" "bt_get (reg_map w) i = Some a" "h_object h = Shared a"
proof -
  have hk: "handle_inv q w h" by (rule objects_okD(2) [OF ok h])
  with r obtain a where a: "h_object h = Shared a" by (cases "h_object h") (auto simp: handle_inv_def)
  with v have act: "is_active w a" by (auto simp: is_valid_def upgrade_ref_def split: if_splits)
  with hk a r have "obj_registered (obj_of w a)" "tok_id (h_token h) = Some (obj_id (obj_of w a))"
    using is_active_Some [OF act] by (auto simp: handle_inv_def)
  with reg_okD(5) [OF objects_okD(1) [OF ok] act] a show thesis using that by simp
qed

lemma locate_spec:
  assumes ok: "objects_ok w H" and h: "h \<in># H" and v: "is_valid w h" and r: "h_registered h" and rel: "\<not> path_is_absolute path"
  shows "\<exists>i res. tok_id (h_token h) = Some i \<and> handle_locate w h path = Some res \<and>
    (case res of
       Inl _ \<Rightarrow> \<not> (\<exists>js. walk w i (path_components path) = Some js \<and> readable w (h_token h) js)
     | Inr g \<Rightarrow> \<exists>js a. walk w i (path_components path) = Some js \<and> readable w (h_token h) js \<and>
         bt_get (reg_map w) (last (i # js)) = Some a \<and> h_object g = Shared a \<and> is_valid w g \<and>
         (\<forall>n. n \<noteq> 0 \<longrightarrow> n \<noteq> 1 \<longrightarrow> bit (capabilities g) n \<longleftrightarrow>
            bit (capabilities h) n \<and> (\<forall>j \<in> set js. \<not> bit (obj_masked_caps (at_index w j)) n)) \<and>
         (\<not> contains (capabilities h) CAP_ADMIN \<longrightarrow> \<not> contains (capabilities h) CAP_AGENT \<longrightarrow>
            contains (capabilities h) (capabilities g)))"
proof -
  from valid_handle [OF ok h v r] obtain i a where i: "tok_id (h_token h) = Some i" "bt_get (reg_map w) i = Some a" by blast
  have "token_ok (h_token h)" using objects_okD(2) [OF ok h] by (simp add: handle_inv_def)
  then have st: "start_token w (Some h) path = Some (Ok (h_token h))"
    using rel by (simp add: start_token_def token_new_same)
  from traverse_exact [OF objects_okD(1) [OF ok] i(1), of "path_components path"] i(2) obtain res
    where tr: "traverse w (h_token h) (path_components path) = Some res" "resolves w (h_token h) i (path_components path) res" by auto
  show ?thesis
  proof (cases res)
    case (Inl e)
    then have "handle_locate w h path = Some (Err e)" using r st tr(1) by (simp add: handle_locate_def locate_and_then_def)
    with Inl tr(2) i(1) show ?thesis by (auto simp: resolves_def)
  next
    case (Inr t)
    with tr(2) obtain js b where js: "walk w i (path_components path) = Some js" "readable w (h_token h) js"
      "tok_id t = Some (last (i # js))" "bt_get (reg_map w) (last (i # js)) = Some b"
      and caps: "\<forall>n. n \<noteq> 0 \<longrightarrow> n \<noteq> 1 \<longrightarrow> bit (tok_caps t) n \<longleftrightarrow>
            bit (capabilities h) n \<and> (\<forall>j \<in> set js. \<not> bit (obj_masked_caps (at_index w j)) n)"
        "\<not> contains (capabilities h) CAP_ADMIN \<longrightarrow> \<not> contains (capabilities h) CAP_AGENT \<longrightarrow> contains (capabilities h) (tok_caps t)"
      by (auto simp: resolves_def)
    let ?g = "\<lparr>h_token = t, h_registered = obj_registered (obj_of w b), h_object = Shared b\<rparr>"
    have "handle_locate w h path = Some (Ok ?g)"
      using r st tr(1) Inr js(3,4) by (simp add: handle_locate_def locate_and_then_def)
    moreover have "is_valid w ?g"
      using reg_okD(2) [OF objects_okD(1) [OF ok] js(4)] is_active_Some by (fastforce simp: is_valid_def upgrade_ref_def)
    ultimately show ?thesis using i(1) js caps by (intro exI [of _ i] exI [of _ "Ok ?g"]) auto
  qed
qed

text \<open>C24: locating a relative path from a valid handle returns. It finds the object that the names lead to
  exactly when every name exists and the handle may read every object above the last one; the new handle
  is valid, refers to that object, and has of each right other than clone and send what the first handle
  has and no object on the way masks. Without ADMIN and AGENT it has no right that the first handle lacks.\<close>

theorem locate_exact:
  assumes ok: "objects_ok w H" and h: "h \<in># H" and v: "is_valid w h" and r: "h_registered h" and rel: "\<not> path_is_absolute path"
  shows "\<exists>i res. tok_id (h_token h) = Some i \<and> handle_locate w h path = Some res \<and>
    (case res of
       Inl _ \<Rightarrow> \<not> (\<exists>js. walk w i (path_components path) = Some js \<and> readable w (h_token h) js)
     | Inr g \<Rightarrow> \<exists>js a. walk w i (path_components path) = Some js \<and> readable w (h_token h) js \<and>
         bt_get (reg_map w) (last (i # js)) = Some a \<and> h_object g = Shared a \<and> is_valid w g \<and>
         (\<forall>n. n \<noteq> 0 \<longrightarrow> n \<noteq> 1 \<longrightarrow> bit (capabilities g) n \<longleftrightarrow>
            bit (capabilities h) n \<and> (\<forall>j \<in> set js. \<not> bit (obj_masked_caps (at_index w j)) n)) \<and>
         (\<not> contains (capabilities h) CAP_ADMIN \<longrightarrow> \<not> contains (capabilities h) CAP_AGENT \<longrightarrow>
            contains (capabilities h) (capabilities g)))"
  by (rule locate_spec [OF assms])

subsection \<open>Adding a child\<close>

lemma split_no_sep: "c \<notin> set xs \<Longrightarrow> split_at_char c xs = [xs]"
  by (induction xs) auto

lemma components_name:
  assumes "name \<noteq> []" and "CHR ''/'' \<notin> set name"
  shows "path_components name = [name]" "\<not> path_is_absolute name"
  using assms by (auto simp: path_components_def split_no_sep path_is_absolute_def split: list.splits)


subsection \<open>Removing a subtree\<close>

text \<open>C23: removing a live object destroys exactly the object and what is below it: their indices leave the
  registry and become free, no handle to them is valid any more, every other object stays registered and
  valid, and only the entry of the object in the children of its parent goes.\<close>

theorem remove_destroys_subtree:
  assumes ok: "objects_inv q w H" and h: "h \<in># H" "is_valid w h" "h_registered h" "contains (capabilities h) CAP_ADMIN"
    and a: "h_object h = Shared a" and k: "is_kernel \<or> \<not> is_sticky (obj_of w a)"
  shows "\<exists>w'. registry_remove w h is_kernel = (Ok (), w') \<and> objects_inv q w' H \<and>
    (\<forall>b. is_active w' b \<longleftrightarrow> is_active w b \<and> \<not> (kid w)\<^sup>*\<^sup>* a b) \<and>
    (\<forall>i b. bt_get (reg_map w') i = Some b \<longleftrightarrow> bt_get (reg_map w) i = Some b \<and> \<not> (kid w)\<^sup>*\<^sup>* a b) \<and>
    (\<forall>b. (kid w)\<^sup>*\<^sup>* a b \<longrightarrow> obj_id (obj_of w b) \<in> set (ia_reclaimed (idx_allocator w'))) \<and>
    (\<forall>b n c. bt_get (obj_children (obj_of w' b)) n = Some c \<longleftrightarrow> bt_get (obj_children (obj_of w b)) n = Some c \<and>
       \<not> (n = obj_name (obj_of w a) \<and> c = obj_id (obj_of w a) \<and>
          (\<exists>i. obj_parent (obj_of w a) = Some i \<and> bt_get (reg_map w) i = Some b)))"
proof -
  have ro: "reg_ok w" by (rule objects_okD(1) [OF ok])
  have act: "is_active w a" using h(2) a by (auto simp: is_valid_def upgrade_ref_def split: if_splits)
  have reg: "obj_registered (obj_of w a)"
    using objects_okD(2) [OF ok h(1)] a h(3) is_active_Some [OF act] by (auto simp: handle_inv_def)
  from remove_internal_live [OF ro act reg] obtain w' where w': "remove_internal w a = (Ok (), w')" "reg_ok w'"
    "destroyed {b. (kid w)\<^sup>*\<^sup>* a b} (unregister w (obj_of w a)) w'" .
  note U = unregister_facts [OF ro, of "obj_of w a"] and F = destroyed_facts [OF w'(3)]
  have run: "registry_remove w h is_kernel = (Ok (), w')"
    using h(4) a k is_active_Some [OF act] w'(1) by (auto simp: registry_remove_def upgrade_ref_def)
  have ok': "objects_inv q w' H"
    using objects_ok_moves [OF ok moves_remove_internal [OF ro reg]] w'(1) by simp
  have regs: "bt_get (reg_map w') i = Some b \<longleftrightarrow> bt_get (reg_map w) i = Some b \<and> \<not> (kid w)\<^sup>*\<^sup>* a b" for i b
  proof -
    have "i \<in> (\<lambda>b. obj_id (obj_of w b)) ` {b. (kid w)\<^sup>*\<^sup>* a b} \<longleftrightarrow> (\<exists>b. (kid w)\<^sup>*\<^sup>* a b \<and> bt_get (reg_map w) i = Some b)"
      using reach_ids [OF ro act reg] reg_okD(3) [OF ro] by blast
    then show ?thesis using w'(3) U(2) by (auto simp: destroyed_def)
  qed
  have free: "obj_id (obj_of w b) \<in> set (ia_reclaimed (idx_allocator w'))" if "(kid w)\<^sup>*\<^sup>* a b" for b
    using w'(3) that U(2) by (auto simp: destroyed_def)
  have kids: "bt_get (obj_children (obj_of w' b)) n = Some c \<longleftrightarrow> bt_get (obj_children (obj_of w b)) n = Some c \<and>
       \<not> (n = obj_name (obj_of w a) \<and> c = obj_id (obj_of w a) \<and>
          (\<exists>i. obj_parent (obj_of w a) = Some i \<and> bt_get (reg_map w) i = Some b))" for b n c
    unfolding F(2)
    by (cases rule: unregister_cases [of w "obj_of w a"]) (auto simp: obj_of_set bt_get_remove)
  show ?thesis using run ok' F(1) U(1) regs free kids by auto
qed

subsection \<open>Deriving handles\<close>

text \<open>C25: deriving from a valid handle. A derived handle never has ADMIN, and it has AGENT only if the first
  handle has ADMIN. If the first handle has neither ADMIN nor AGENT, the derived one has no right and no
  interface capability that the first one lacks; a holder of ADMIN or AGENT may derive rights that it
  does not have itself. The call panics exactly when a holder of ADMIN asks for AGENT with less than every
  interface capability, within the rights that it may derive.\<close>

theorem derive_handle_attenuates:
  assumes v: "is_valid w h"
  shows "(derive_handle w h cap icaps = None \<longleftrightarrow>
      contains (capabilities h) CAP_ADMIN \<and> contains cap CAP_AGENT \<and> icaps \<noteq> U32_MAX \<and>
      contains (CAP_CLONE OR CAP_SEND OR CAP_READ OR CAP_WRITE OR CAP_EXECUTE OR CAP_AGENT) cap \<and>
      (icaps = 0 \<or> contains (capabilities h) CAP_EXECUTE)) \<and>
    (\<forall>g. derive_handle w h cap icaps = Some (Ok g) \<longrightarrow>
      capabilities g = cap \<and> interface_caps g = icaps \<and> upgrade_ref w (h_object g) = upgrade_ref w (h_object h) \<and>
      \<not> contains cap CAP_ADMIN \<and> (contains cap CAP_AGENT \<longrightarrow> contains (capabilities h) CAP_ADMIN) \<and>
      (\<not> contains (capabilities h) CAP_ADMIN \<longrightarrow> \<not> contains (capabilities h) CAP_AGENT \<longrightarrow>
         contains (capabilities h) cap \<and> contains (interface_caps h) icaps))"
proof -
  let ?all = "CAP_CLONE OR CAP_SEND OR CAP_READ OR CAP_WRITE OR CAP_EXECUTE OR CAP_AGENT"
  let ?low = "CAP_CLONE OR CAP_SEND OR CAP_READ OR CAP_WRITE OR CAP_EXECUTE"
  have all: "\<not> contains ?all CAP_ADMIN" by (simp add: contains_cap bit_simps bit_cap)
  have low: "\<not> contains ?low CAP_ADMIN" "\<not> contains ?low CAP_AGENT" by (simp_all add: contains_cap bit_simps bit_cap)
  have sub: "contains x c" if "contains x cap" "contains cap c" for x c using that by (rule contains_trans)
  have new: "token_new i cap icaps = None \<longleftrightarrow> icaps \<noteq> U32_MAX \<and> (contains cap CAP_ADMIN \<or> contains cap CAP_AGENT)" for i
    by (simp add: token_new_def)
  have up: "upgrade_ref w (into_shared (h_object h)) = upgrade_ref w (h_object h)"
    using v by (cases "h_object h") (auto simp: upgrade_ref_def is_valid_def is_active_def split: option.splits)
  have ic: "x AND icaps = icaps \<longleftrightarrow> contains x icaps" for x by (simp add: contains_def)
  consider (admin) "contains (capabilities h) CAP_ADMIN"
    | (agent) "\<not> contains (capabilities h) CAP_ADMIN" "contains (capabilities h) CAP_AGENT"
    | (low) "\<not> contains (capabilities h) CAP_ADMIN" "\<not> contains (capabilities h) CAP_AGENT" by blast
  then show ?thesis
  proof cases
    case admin
    then show ?thesis
      using v all sub [of ?all CAP_ADMIN] up
      by (auto simp: derive_handle_def new token_new_Some token_ok_def simp del: contains_or split: if_splits bind_splits)
  next
    case agent
    then show ?thesis
      using v low sub [of ?low CAP_ADMIN] sub [of ?low CAP_AGENT] up
      by (auto simp: derive_handle_def new token_new_Some token_ok_def simp del: contains_or split: if_splits bind_splits)
  next
    case low
    then show ?thesis
      using v sub [of "capabilities h" CAP_ADMIN] sub [of "capabilities h" CAP_AGENT] up ic
      by (auto simp: derive_handle_def new token_new_Some token_ok_def simp del: contains_or split: if_splits bind_splits)
  qed
qed

text \<open>A token that a downgrade has left without every interface capability, but with ADMIN or AGENT, cannot
  be rebuilt: locating a relative path from such a handle panics.\<close>

lemma locate_downgraded_panics:
  assumes "h_registered h" and "\<not> token_ok (h_token h)" and "\<not> path_is_absolute path"
  shows "handle_locate w h path = None"
proof -
  have "token_new (tok_id (h_token h)) (capabilities h) (interface_caps h) = None"
    using assms(2) by (auto simp: token_new_def token_ok_def)
  with assms show ?thesis by (simp add: handle_locate_def locate_and_then_def start_token_def)
qed

lemma downgrade_breaks_token:
  "\<not> token_ok (token_downgrade (h_token h) 0 icaps) \<longleftrightarrow>
     (contains (capabilities h) CAP_ADMIN \<or> contains (capabilities h) CAP_AGENT) \<and> interface_caps h AND NOT icaps \<noteq> U32_MAX"
  by (auto simp: token_ok_def token_downgrade_def bits_remove_def)

text \<open>C27: dropping a reference that \<open>acquire_ref\<close> made of an ADMIN handle of a registered object destroys the object, so
  the handle it was made from is no longer valid.\<close>

theorem acquire_ref_drop_destroys:
  assumes ok: "objects_inv q w H" and h: "h \<in># H" "h_registered h" "contains (capabilities h) CAP_ADMIN"
    and ref: "acquire_ref w h = Ok g"
  shows "\<exists>w'. handle_drop w g = Some w' \<and> \<not> is_valid w' h"
proof -
  have v: "is_valid w h" using ref by (simp add: acquire_ref_def split: if_splits)
  from valid_handle [OF ok h(1) v h(2)] obtain i a where a: "tok_id (h_token h) = Some i" "bt_get (reg_map w) i = Some a"
    "h_object h = Shared a" .
  have ro: "reg_ok w" by (rule objects_okD(1) [OF ok])
  from remove_internal_live [OF ro reg_okD(2,4) [OF ro a(2)]] obtain w' where w': "remove_internal w a = (Ok (), w')"
    "destroyed {b. (kid w)\<^sup>*\<^sup>* a b} (unregister w (obj_of w a)) w'" by blast
  have g: "h_object g = Shared a" "h_registered g" "h_token g = h_token h" using acquire_ref_Ok [OF ref] a(3) h(2) by simp_all
  have "registry_remove w g True = (Ok (), w')"
    using g h(3) w'(1) reg_map_live [OF ro a(2)] by (auto simp: registry_remove_def upgrade_ref_def)
  then have "handle_drop w g = Some w'" using g h(3) a(1) by (simp add: handle_drop_def)
  moreover have "\<not> is_valid w' h"
    using destroyed_facts(1) [OF w'(2), of a] a(3) by (auto simp: is_valid_def upgrade_ref_def)
  ultimately show ?thesis by blast
qed

end
