(* ===== verification/Object_Examples.thy ===== *)
theory Object_Examples
  imports Object_Access
begin

text \<open>
  A concrete object tree: a root, a child \<open>x\<close> that its parent removes while the owner keeps its handle,
  and a new child \<open>x\<close>, which gets the index of the first.
\<close>

definition ex_root :: handle where
  "ex_root = \<lparr>h_token = \<lparr>tok_id = Some 0, tok_caps = NOT (CAP_EXECUTE OR CAP_ADMIN OR CAP_AGENT), tok_icaps = 0\<rparr>, h_registered = True, h_object = Shared 0\<rparr>"

definition ex_owner :: "addr \<Rightarrow> handle" where
  "ex_owner a = \<lparr>h_token = \<lparr>tok_id = Some 1, tok_caps = CAP_ADMIN_GRP, tok_icaps = U32_MAX\<rparr>, h_registered = True, h_object = Shared a\<rparr>"

definition ex_obj :: "usize \<Rightarrow> usize option \<Rightarrow> string \<Rightarrow> object_status \<Rightarrow> capability \<Rightarrow> u32 \<Rightarrow> (string, usize) btree \<Rightarrow> unit object" where
  "ex_obj i parent name st masked flags kids = \<lparr>obj_registered = True, obj_id = i, obj_parent = parent, obj_name = name, obj_status = st,
     obj_masked_caps = masked, obj_lifecycle_flags = flags, obj_public_interface_caps = 0, obj_payload = (), obj_children = kids\<rparr>"

definition ex_w0 :: "unit obj_world" where
  "ex_w0 = \<lparr>objs = [(0, ex_obj 0 None [] Active (CAP_EXECUTE OR CAP_ADMIN OR CAP_AGENT) LIFECYCLE_STICKY [])], reg_map = [(0, 0)],
     idx_allocator = \<lparr>ia_next = 1, ia_reclaimed = []\<rparr>, next_obj = 1\<rparr>"

definition ex_w1 :: "unit obj_world" where
  "ex_w1 = \<lparr>objs = [(0, ex_obj 0 None [] Active (CAP_EXECUTE OR CAP_ADMIN OR CAP_AGENT) LIFECYCLE_STICKY [(''x'', 1)]), (1, ex_obj 1 (Some 0) ''x'' Active 0 LIFECYCLE_NONE [])],
     reg_map = [(0, 0), (1, 1)], idx_allocator = \<lparr>ia_next = 2, ia_reclaimed = []\<rparr>, next_obj = 2\<rparr>"

definition ex_w2 :: "unit obj_world" where
  "ex_w2 = \<lparr>objs = [(0, ex_obj 0 None [] Active (CAP_EXECUTE OR CAP_ADMIN OR CAP_AGENT) LIFECYCLE_STICKY []), (1, ex_obj 1 (Some 0) ''x'' Destroying 0 LIFECYCLE_NONE [])],
     reg_map = [(0, 0)], idx_allocator = \<lparr>ia_next = 2, ia_reclaimed = [1]\<rparr>, next_obj = 2\<rparr>"

definition ex_w3 :: "unit obj_world" where
  "ex_w3 = \<lparr>objs = [(0, ex_obj 0 None [] Active (CAP_EXECUTE OR CAP_ADMIN OR CAP_AGENT) LIFECYCLE_STICKY [(''x'', 1)]), (1, ex_obj 1 (Some 0) ''x'' Destroying 0 LIFECYCLE_NONE []),
       (2, ex_obj 1 (Some 0) ''x'' Active 0 LIFECYCLE_NONE [])],
     reg_map = [(0, 0), (1, 2)], idx_allocator = \<lparr>ia_next = 2, ia_reclaimed = []\<rparr>, next_obj = 3\<rparr>"

lemmas ex_defs = ex_root_def ex_owner_def ex_obj_def ex_w0_def ex_w1_def ex_w2_def ex_w3_def

lemmas ex_eval = ex_defs bt_get_def bt_remove_def bt_values_def obj_of_def set_obj_def is_active_def upgrade_ref_def

lemma ex_write:
  "write_with ex_w0 ex_root = Ok 0" "write_with ex_w1 ex_root = Ok 0" "write_with ex_w2 ex_root = Ok 0"
  by (simp_all add: with_access handle_access_def verify_capabilities_def token_contains_def contains_cap bit_simps bit_cap ex_eval)

lemma ex_init: "init_root registry_new () = Some (Ok ex_root, ex_w0)"
  by (simp add: init_root_eq registry_new_def index_allocator_new_def ex_eval)

lemma ex_add:
  "add_child ex_w0 0 ''x'' 0 () = Some (Ok (ex_owner 1), ex_w1)"
  "add_child ex_w2 0 ''x'' 0 () = Some (Ok (ex_owner 2), ex_w3)"
  by (simp_all add: add_child_def insert_internal_def token_new_def allocate_index_def Let_def ex_eval)

lemma ex_remove: "remove_child ex_w1 0 ''x'' True = Some (Ok 1, ex_w2)"
  by (simp add: remove_child_def remove_internal_def unregister_def mark_destroying_def reclaim_object_def reclaim_index_def
      contains_cap Let_def ex_eval)

lemma ex_steps:
  "(obj_step q)\<^sup>*\<^sup>* (ex_w0, {#ex_root#}) (ex_w1, {#ex_owner 1, ex_root#})"
  "(obj_step q)\<^sup>*\<^sup>* (ex_w0, {#ex_root#}) (ex_w3, {#ex_owner 2, ex_owner 1, ex_root#})"
proof -
  have n: "ia_next (idx_allocator ex_w0) < usize_max" "ia_next (idx_allocator ex_w2) < usize_max"
    by (simp_all add: ex_defs)
  have 1: "obj_step q (ex_w0, {#ex_root#}) (ex_w1, {#ex_owner 1, ex_root#})"
    by (rule obj_step.add [OF _ ex_write(1) n(1) ex_add(1)]) simp
  have 2: "obj_step q (ex_w1, {#ex_owner 1, ex_root#}) (ex_w2, {#ex_owner 1, ex_root#})"
    by (rule obj_step.remove [OF _ ex_write(2) ex_remove]) simp
  have 3: "obj_step q (ex_w2, {#ex_owner 1, ex_root#}) (ex_w3, {#ex_owner 2, ex_owner 1, ex_root#})"
    by (rule obj_step.add [OF _ ex_write(3) n(2) ex_add(2)]) simp
  show "(obj_step q)\<^sup>*\<^sup>* (ex_w0, {#ex_root#}) (ex_w1, {#ex_owner 1, ex_root#})" using 1 by blast
  show "(obj_step q)\<^sup>*\<^sup>* (ex_w0, {#ex_root#}) (ex_w3, {#ex_owner 2, ex_owner 1, ex_root#})" 
    by (rule converse_rtranclp_into_rtranclp [OF 1 converse_rtranclp_into_rtranclp [of "obj_step q", OF 2 r_into_rtranclp [of "obj_step q", OF 3]]])
qed

lemma ex_valid:
  "\<not> is_valid ex_w3 (ex_owner 1)" "is_valid ex_w3 (ex_owner 2)" "is_valid ex_w1 (ex_owner 1)" "is_valid ex_w1 ex_root" "is_valid ex_w0 ex_root"
  by (simp_all add: is_valid_def ex_eval)

definition ex_w4 :: "unit obj_world" where
  "ex_w4 = ex_w3\<lparr>objs := [(0, ex_obj 0 None [] Active (CAP_EXECUTE OR CAP_ADMIN OR CAP_AGENT) LIFECYCLE_STICKY []),
     (1, ex_obj 1 (Some 0) ''x'' Destroying 0 LIFECYCLE_NONE []), (2, ex_obj 1 (Some 0) ''x'' Active 0 LIFECYCLE_NONE [])]\<rparr>"

lemma ex_drop: "handle_drop ex_w3 (ex_owner 1) = Some ex_w4"
  by (simp add: handle_drop_def registry_remove_def remove_internal_def unregister_def contains_cap CAP_ADMIN_GRP_def bit_simps bit_cap
      Let_def ex_w4_def ex_eval)

lemma ex_locate:
  "\<exists>g. handle_locate ex_w3 ex_root ''x'' = Some (Ok g) \<and> h_object g = Shared 2"
  "handle_locate ex_w4 ex_root ''x'' = Some (Err ObjectNotFound)"
  "handle_locate ex_w3 (ex_owner 1) ''self'' = Some (Ok (ex_owner 2))"
  by (simp_all add: handle_locate_def locate_and_then_def start_token_def path_is_absolute_def path_components_def token_new_def
      derive_token_def token_contains_def contains_cap bit_simps bit_cap Let_def ex_w4_def ex_eval)

text \<open>C28: a state is reachable in which a handle to a destroyed object is dropped while the collector still holds the
  memory of the object, its index has gone to a new child with the same name, and the drop takes the new
  child out of its parent: the child stays registered and its handles valid, but its path is gone.\<close>

theorem stale_drop_unlinks_new_child:
  "\<exists>w0 h0 w H h g l w'. init_root registry_new () = Some (Ok h0, w0) \<and> (obj_step True)\<^sup>*\<^sup>* (w0, {#h0#}) (w, H) \<and>
     h \<in># H \<and> \<not> is_valid w h \<and> g \<in># H \<and> is_valid w g \<and> handle_locate w h0 ''x'' = Some (Ok l) \<and> h_object l = h_object g \<and>
     handle_drop w h = Some w' \<and> is_valid w' g \<and> handle_locate w' h0 ''x'' = Some (Err ObjectNotFound)"
proof -
  from ex_locate(1) obtain l where l: "handle_locate ex_w3 ex_root ''x'' = Some (Ok l)" "h_object l = Shared 2" by blast
  have "is_valid ex_w4 (ex_owner 2)" by (simp add: is_valid_def ex_w4_def ex_eval)
  then show ?thesis
    using l ex_init ex_steps(2) ex_valid(1,2) ex_drop ex_locate(2)
    by (intro exI [of _ ex_w0] exI [of _ ex_root] exI [of _ ex_w3] exI [of _ "{#ex_owner 2, ex_owner 1, ex_root#}"]
        exI [of _ "ex_owner 1"] exI [of _ "ex_owner 2"] exI [of _ l] exI [of _ ex_w4]) (simp add: ex_owner_def)
qed

text \<open>C29: a state is reachable in which locating from a handle to a destroyed object succeeds and gives a handle to
  another object, the one that got the index, with every right of the old handle.\<close>

theorem stale_locate_rebinds:
  "\<exists>w0 h0 w H h g. init_root registry_new () = Some (Ok h0, w0) \<and> (obj_step True)\<^sup>*\<^sup>* (w0, {#h0#}) (w, H) \<and>
     h \<in># H \<and> \<not> is_valid w h \<and> handle_locate w h ''self'' = Some (Ok g) \<and> is_valid w g \<and> h_object g \<noteq> h_object h \<and>
     capabilities g = capabilities h \<and> contains (capabilities g) CAP_ADMIN"
  using ex_init ex_steps(2) ex_valid(1,2) ex_locate(3)
  by (intro exI [of _ ex_w0] exI [of _ ex_root] exI [of _ ex_w3] exI [of _ "{#ex_owner 2, ex_owner 1, ex_root#}"]
      exI [of _ "ex_owner 1"] exI [of _ "ex_owner 2"]) (simp add: ex_owner_def contains_cap CAP_ADMIN_GRP_def bit_simps bit_cap)

subsection \<open>Witnesses\<close>

theorem reachable_objects_ok_witness:
  "init_root registry_new () = Some (Ok ex_root, ex_w0) \<and> objects_ok ex_w3 {#ex_owner 2, ex_owner 1, ex_root#}"
  using reachable_objects_ok [OF ex_init ex_steps(2)] ex_init by simp

lemma ex_ok: "objects_ok ex_w0 {#ex_root#}" "objects_ok ex_w1 {#ex_owner 1, ex_root#}"
proof -
  show 0: "objects_ok ex_w0 {#ex_root#}" by (rule objects_ok_init [OF ex_init])
  have "is_active ex_w0 0" "ia_next (idx_allocator ex_w0) < usize_max" by (simp_all add: ex_eval)
  then show "objects_ok ex_w1 {#ex_owner 1, ex_root#}" using objects_ok_add_child [OF 0 _ _ ex_add(1)] by simp
qed

theorem locate_exact_witness:
  "\<exists>g. handle_locate ex_w1 ex_root ''x'' = Some (Ok g) \<and> h_object g = Shared 1 \<and> \<not> bit (capabilities g) 5"
proof -
  have mem: "ex_root \<in># {#ex_owner 1, ex_root#}" and reg: "h_registered ex_root" and rel: "\<not> path_is_absolute ''x''"
    by (simp_all add: ex_defs path_is_absolute_def)
  have w: "walk ex_w1 0 (path_components ''x'') = Some [1]"
    by (simp add: path_components_def ex_eval)
  have r: "readable ex_w1 (h_token ex_root) [1]"
    by (simp add: readable_def contains_cap bit_simps bit_cap ex_eval)
  have m: "bt_get (reg_map ex_w1) 1 = Some 1" "tok_id (h_token ex_root) = Some 0" "\<not> bit (capabilities ex_root) 5"
    by (simp_all add: bit_simps bit_cap ex_eval)
  from locate_exact [OF ex_ok(2) mem ex_valid(4) reg rel] obtain res where run: "handle_locate ex_w1 ex_root ''x'' = Some res"
    and res: "case res of
       Inl _ \<Rightarrow> \<not> (\<exists>js. walk ex_w1 0 (path_components ''x'') = Some js \<and> readable ex_w1 (h_token ex_root) js)
     | Inr g \<Rightarrow> \<exists>js a. walk ex_w1 0 (path_components ''x'') = Some js \<and> bt_get (reg_map ex_w1) (last (0 # js)) = Some a \<and>
         h_object g = Shared a \<and> (\<forall>n. n \<noteq> 0 \<longrightarrow> n \<noteq> 1 \<longrightarrow> bit (capabilities g) n \<longrightarrow> bit (capabilities ex_root) n)"
    using m(2) by (fastforce split: sum.splits)
  show ?thesis
  proof (cases res)
    case (Inl e)
    with res w r show ?thesis by auto
  next
    case (Inr g)
    with res w m have "h_object g = Shared 1" "\<not> bit (capabilities g) 5" by auto
    with run Inr show ?thesis by simp
  qed
qed


theorem remove_destroys_subtree_witness:
  "\<exists>w'. registry_remove ex_w1 (ex_owner 1) False = (Ok (), w') \<and> \<not> is_active w' 1"
proof -
  have "ex_owner 1 \<in># {#ex_owner 1, ex_root#}" "h_registered (ex_owner 1)" "contains (capabilities (ex_owner 1)) CAP_ADMIN"
    "h_object (ex_owner 1) = Shared 1" "False \<or> \<not> is_sticky (obj_of ex_w1 1)"
    by (simp_all add: contains_cap CAP_ADMIN_GRP_def bit_simps bit_cap is_sticky_def lifecycle_flags_def LIFECYCLE_NONE_def
        LIFECYCLE_STICKY_def object_lifecycle_flags_from_bits_def flags_from_bits_def contains_def ex_eval)
  from remove_destroys_subtree [OF ex_ok(2) this(1) ex_valid(3) this(2-5)] show ?thesis by blast
qed

theorem derive_handle_attenuates_witness:
  "is_valid ex_w1 (ex_owner 1) \<and> derive_handle ex_w1 (ex_owner 1) CAP_AGENT 0 = None"
proof -
  from derive_handle_attenuates [OF ex_valid(3), of CAP_AGENT 0] show ?thesis
    using ex_valid(3) by (simp add: contains_bit bit_simps bit_cap contains_cap CAP_ADMIN_GRP_def ex_defs U32_MAX_def)
qed

theorem acquire_ref_drop_destroys_witness:
  "\<exists>g w'. acquire_ref ex_w1 (ex_owner 1) = Ok g \<and> handle_drop ex_w1 g = Some w' \<and> \<not> is_valid w' (ex_owner 1)"
proof -
  have h: "ex_owner 1 \<in># {#ex_owner 1, ex_root#}" "h_registered (ex_owner 1)" "contains (capabilities (ex_owner 1)) CAP_ADMIN"
    by (simp_all add: contains_cap CAP_ADMIN_GRP_def bit_simps bit_cap ex_defs)
  have r: "acquire_ref ex_w1 (ex_owner 1) = Ok (ex_owner 1)" using ex_valid(3) by (simp add: acquire_ref_def ex_owner_def)
  from acquire_ref_drop_destroys [OF ex_ok(2) h r] r show ?thesis by blast
qed

end
