(* ===== verification/Linked_Nodes.thy ===== *)
theory Linked_Nodes
  imports BTree_Map
begin

text \<open>
  Doubly linked nodes in a heap of boxes: \<open>dlinks n p xs\<close> says that the successor function \<open>n\<close> and
  the predecessor function \<open>p\<close> of a heap chain the addresses \<open>xs\<close> in this order. The lemmas cut and
  join chains and carry them over updates of links that lie outside.
\<close>

type_synonym ptr = nat

abbreviation (input) null :: ptr where
  "null \<equiv> 0"

fun dlinks :: "(ptr \<Rightarrow> ptr option) \<Rightarrow> (ptr \<Rightarrow> ptr option) \<Rightarrow> ptr list \<Rightarrow> bool" where
  "dlinks n p (x # y # zs) \<longleftrightarrow> n x = Some y \<and> p y = Some x \<and> dlinks n p (y # zs)"
| "dlinks n p xs \<longleftrightarrow> True"

lemma dlinks_snoc: "dlinks n p (xs @ [x, y]) \<longleftrightarrow> dlinks n p (xs @ [x]) \<and> n x = Some y \<and> p y = Some x"
  by (induction n p xs rule: dlinks.induct) auto

lemma dlinks_split: "dlinks n p (xs @ x # ys) \<longleftrightarrow> dlinks n p (xs @ [x]) \<and> dlinks n p (x # ys)"
proof (induction xs)
  case (Cons z zs)
  then show ?case by (cases zs) auto
qed simp

lemma dlinks_cong:
  assumes "\<And>a. a \<in> set (butlast xs) \<Longrightarrow> n' a = n a" and "\<And>a. a \<in> set (tl xs) \<Longrightarrow> p' a = p a"
  shows "dlinks n' p' xs \<longleftrightarrow> dlinks n p xs"
  using assms by (induction n p xs rule: dlinks.induct) auto

lemma dlinks_defined:
  assumes "dlinks n p (x # xs @ [y])" and "a \<in> set (x # xs)"
  shows "n a \<noteq> None"
  using assms
proof (induction xs arbitrary: x)
  case (Cons z zs)
  then show ?case by (cases "a = x") auto
qed simp

lemma dlinks_defined_prev:
  assumes "dlinks n p (x # xs @ [y])" and "a \<in> set (xs @ [y])"
  shows "p a \<noteq> None"
  using assms
proof (induction xs arbitrary: x)
  case (Cons z zs)
  then show ?case by (cases "a = z") auto
qed simp

text \<open>A node inside a chain has its neighbours on both sides.\<close>

lemma dlinks_around:
  assumes "dlinks n p (h # xs @ [t])" and "xs = us @ x # vs"
  obtains pre a b post where "h # us = pre @ [a]" and "vs @ [t] = b # post"
    and "h # xs @ [t] = pre @ a # x # b # post" and "h # us @ vs @ [t] = pre @ a # b # post"
    and "n x = Some b" and "p x = Some a"
proof -
  obtain pre a where pre: "h # us = pre @ [a]"
    by (metis append_butlast_last_id list.distinct(1))
  obtain b post where post: "vs @ [t] = b # post"
    by (cases "vs @ [t]") auto
  have whole: "h # xs @ [t] = pre @ a # x # b # post"
    using assms(2) arg_cong [OF pre, of "\<lambda>us. us @ x # b # post"] post by simp
  have short: "h # us @ vs @ [t] = pre @ a # b # post"
    using arg_cong [OF pre, of "\<lambda>us. us @ b # post"] post by simp
  have "dlinks n p (a # x # b # post)"
    using assms(1) dlinks_split [of n p pre a "x # b # post"] unfolding whole by blast
  then show ?thesis
    using that [OF pre post whole short] by simp
qed

text \<open>Taking one node out of a chain, and putting one in.\<close>

lemma dlinks_prefix_cong:
  assumes "\<And>z. z \<in> set pre \<Longrightarrow> n' z = n z" and "\<And>z. z \<in> set (pre @ [a]) \<Longrightarrow> p' z = p z"
  shows "dlinks n' p' (pre @ [a]) \<longleftrightarrow> dlinks n p (pre @ [a])"
proof (rule dlinks_cong)
  fix z assume "z \<in> set (tl (pre @ [a]))"
  then have "z \<in> set (pre @ [a])" by (cases pre) auto
  then show "p' z = p z" by (rule assms(2))
qed (simp add: assms(1))

lemma dlinks_suffix_cong:
  assumes "\<And>z. z \<in> set (b # post) \<Longrightarrow> n' z = n z" and "\<And>z. z \<in> set post \<Longrightarrow> p' z = p z"
  shows "dlinks n' p' (b # post) \<longleftrightarrow> dlinks n p (b # post)"
proof (rule dlinks_cong)
  fix z assume "z \<in> set (butlast (b # post))"
  then have "z \<in> set (b # post)" by (rule in_set_butlastD)
  then show "n' z = n z" by (rule assms(1))
qed (simp add: assms(2))

lemma dlinks_bypass:
  assumes "dlinks n p (pre @ a # x # b # post)" and "distinct (pre @ a # x # b # post)"
  shows "dlinks (n(a \<mapsto> b)) (p(b \<mapsto> a)) (pre @ a # b # post)"
proof -
  let ?n = "n(a \<mapsto> b)" and ?p = "p(b \<mapsto> a)"
  have l: "dlinks n p (pre @ [a])" and r: "dlinks n p (b # post)"
    using assms(1) dlinks_split [of n p pre a "x # b # post"] by auto
  have "dlinks ?n ?p (pre @ [a]) \<longleftrightarrow> dlinks n p (pre @ [a])"
    by (rule dlinks_prefix_cong) (use assms(2) in auto)
  moreover have "dlinks ?n ?p (b # post) \<longleftrightarrow> dlinks n p (b # post)"
    by (rule dlinks_suffix_cong) (use assms(2) in auto)
  ultimately show ?thesis
    using l r by (simp add: dlinks_split [of _ _ pre a "b # post"])
qed

lemma dlinks_insert:
  assumes "dlinks n p (pre @ a # b # post)" and "distinct (pre @ a # b # post)" and "x \<notin> set (pre @ a # b # post)"
  shows "dlinks (n(x \<mapsto> b, a \<mapsto> x)) (p(x \<mapsto> a, b \<mapsto> x)) (pre @ a # x # b # post)"
proof -
  let ?n = "n(x \<mapsto> b, a \<mapsto> x)" and ?p = "p(x \<mapsto> a, b \<mapsto> x)"
  have l: "dlinks n p (pre @ [a])" and r: "dlinks n p (b # post)"
    using assms(1) dlinks_split [of n p pre a "b # post"] by auto
  have "dlinks ?n ?p (pre @ [a]) \<longleftrightarrow> dlinks n p (pre @ [a])"
    by (rule dlinks_prefix_cong) (use assms(2,3) in auto)
  moreover have "dlinks ?n ?p (b # post) \<longleftrightarrow> dlinks n p (b # post)"
    by (rule dlinks_suffix_cong) (use assms(2,3) in auto)
  moreover have "?n a = Some x" "?n x = Some b" "?p x = Some a" "?p b = Some x"
    using assms(2,3) by auto
  ultimately show ?thesis
    using l r by (simp add: dlinks_split [of _ _ pre a "x # b # post"])
qed

end
