(* ===== verification/Lru_Cache.thy ===== *)
theory Lru_Cache
  imports Linked_Nodes
begin

text \<open>
  The least recently used cache of \<open>library/collections/src/cache/lru.rs\<close>: boxed nodes linked
  between two sentinels, and a hash map from keys to nodes. The heap of boxes is explicit; touching a
  box that is not allocated, freeing it twice or reading an uninitialised key or value ends the
  model's call in \<open>Panicked\<close>, so that a call that returns is one that is memory safe. The calls
  of the eviction handler are kept in \<open>evict_log\<close>. Allocation does not fail.
\<close>

subsection \<open>Nodes and boxes\<close>

record ('k, 'v) lru_entry =
  e_key :: "'k option"
  e_val :: "'v option"
  e_prev :: ptr
  e_next :: ptr

record ('k, 'v) lru_heap =
  cells :: "ptr \<Rightarrow> ('k, 'v) lru_entry option"
  next_box :: ptr
  evict_log :: "('k \<times> 'v) list"

definition entry_new :: "'k \<Rightarrow> 'v \<Rightarrow> ('k, 'v) lru_entry" where
  "entry_new k v = \<lparr>e_key = Some k, e_val = Some v, e_prev = null, e_next = null\<rparr>"

definition new_sigil :: "('k, 'v) lru_entry" where
  "new_sigil = \<lparr>e_key = None, e_val = None, e_prev = null, e_next = null\<rparr>"

definition box_new :: "('k, 'v) lru_entry \<Rightarrow> ('k, 'v) lru_heap \<Rightarrow> ptr \<times> ('k, 'v) lru_heap" where
  "box_new e h =
     (next_box h, h\<lparr>cells := (cells h)(next_box h \<mapsto> e), next_box := Suc (next_box h)\<rparr>)"

definition box_from_raw :: "ptr \<Rightarrow> ('k, 'v) lru_heap \<Rightarrow> (('k, 'v) lru_entry \<times> ('k, 'v) lru_heap) outcome" where
  "box_from_raw a h =
     do { e \<leftarrow> cells h a; Returned (e, h\<lparr>cells := (cells h)(a := None)\<rparr>) }"

definition set_next :: "ptr \<Rightarrow> ptr \<Rightarrow> ('k, 'v) lru_heap \<Rightarrow> ('k, 'v) lru_heap outcome" where
  "set_next a x h = do { e \<leftarrow> cells h a; Returned (h\<lparr>cells := (cells h)(a \<mapsto> e\<lparr>e_next := x\<rparr>)\<rparr>) }"

definition set_prev :: "ptr \<Rightarrow> ptr \<Rightarrow> ('k, 'v) lru_heap \<Rightarrow> ('k, 'v) lru_heap outcome" where
  "set_prev a x h = do { e \<leftarrow> cells h a; Returned (h\<lparr>cells := (cells h)(a \<mapsto> e\<lparr>e_prev := x\<rparr>)\<rparr>) }"

definition set_val :: "ptr \<Rightarrow> 'v \<Rightarrow> ('k, 'v) lru_heap \<Rightarrow> ('k, 'v) lru_heap outcome" where
  "set_val a v h = do { e \<leftarrow> cells h a; _ \<leftarrow> e_val e; Returned (h\<lparr>cells := (cells h)(a \<mapsto> e\<lparr>e_val := Some v\<rparr>)\<rparr>) }"

definition key_ref :: "ptr \<Rightarrow> ('k, 'v) lru_heap \<Rightarrow> 'k outcome" where
  "key_ref a h = do { e \<leftarrow> cells h a; e_key e }"

definition val_ref :: "ptr \<Rightarrow> ('k, 'v) lru_heap \<Rightarrow> 'v outcome" where
  "val_ref a h = do { e \<leftarrow> cells h a; e_val e }"

text \<open>\<open>Box::from_raw\<close> and moving the key and the value out of the box.\<close>

definition unbox :: "ptr \<Rightarrow> ('k, 'v) lru_heap \<Rightarrow> (('k \<times> 'v) \<times> ('k, 'v) lru_heap) outcome" where
  "unbox a h = do { (e, h') \<leftarrow> box_from_raw a h; k \<leftarrow> e_key e; v \<leftarrow> e_val e; Returned ((k, v), h') }"

definition free_node :: "ptr \<Rightarrow> ('k, 'v) lru_heap \<Rightarrow> ('k, 'v) lru_heap outcome" where
  "free_node a h = map_option snd (box_from_raw a h)"

subsection \<open>The cache\<close>

datatype on_evict = NoOpEvict | EvictHandler

record 'k lru_cache =
  lru_capacity :: usize
  lru_map :: "('k \<times> ptr) list"
  lru_head :: ptr
  lru_tail :: ptr
  lru_on_evict :: on_evict

type_synonym ('k, 'v) lru_state = "'k lru_cache \<times> ('k, 'v) lru_heap"

definition call_on_evict :: "on_evict \<Rightarrow> 'k \<times> 'v \<Rightarrow> ('k, 'v) lru_heap \<Rightarrow> ('k, 'v) lru_heap" where
  "call_on_evict ev kv h =
     (case ev of NoOpEvict \<Rightarrow> h | EvictHandler \<Rightarrow> h\<lparr>evict_log := evict_log h @ [kv]\<rparr>)"

text \<open>The hash map, whose order nothing observes: insertion replaces, removal filters.\<close>

definition hm_insert :: "'k \<Rightarrow> 'a \<Rightarrow> ('k \<times> 'a) list \<Rightarrow> ('k \<times> 'a) list" where
  "hm_insert k a m = (k, a) # bt_remove k m"

definition attach :: "'k lru_cache \<Rightarrow> ptr \<Rightarrow> ('k, 'v) lru_heap \<Rightarrow> ('k, 'v) lru_heap outcome" where
  "attach c node h0 = do {
     hd \<leftarrow> cells h0 (lru_head c);
     h1 \<leftarrow> set_next node (e_next hd) h0;
     h2 \<leftarrow> set_prev node (lru_head c) h1;
     hd2 \<leftarrow> cells h2 (lru_head c);
     h3 \<leftarrow> set_prev (e_next hd2) node h2;
     set_next (lru_head c) node h3
   }"

definition detach :: "ptr \<Rightarrow> ('k, 'v) lru_heap \<Rightarrow> ('k, 'v) lru_heap outcome" where
  "detach node h0 = do {
     e \<leftarrow> cells h0 node;
     h1 \<leftarrow> set_next (e_prev e) (e_next e) h0;
     e1 \<leftarrow> cells h1 node;
     set_prev (e_next e1) (e_prev e1) h1
   }"

definition move_to_head :: "'k lru_cache \<Rightarrow> ptr \<Rightarrow> ('k, 'v) lru_heap \<Rightarrow> ('k, 'v) lru_heap outcome" where
  "move_to_head c node h = do { h1 \<leftarrow> detach node h; attach c node h1 }"

definition with_on_evict :: "usize \<Rightarrow> on_evict \<Rightarrow> ('k, 'v) lru_heap \<Rightarrow> ('k, 'v) lru_state outcome" where
  "with_on_evict capacity ev h0 =
     (let (hd, h1) = box_new new_sigil h0; (tl, h2) = box_new new_sigil h1
      in do {
        h3 \<leftarrow> set_next hd tl h2;
        h4 \<leftarrow> set_prev tl hd h3;
        Returned (\<lparr>lru_capacity = capacity, lru_map = [], lru_head = hd, lru_tail = tl,
                   lru_on_evict = ev\<rparr>, h4)
      })"

definition lru_new :: "usize \<Rightarrow> ('k, 'v) lru_heap \<Rightarrow> ('k, 'v) lru_state outcome" where
  "lru_new capacity h = with_on_evict capacity NoOpEvict h"

definition lru_len :: "'k lru_cache \<Rightarrow> usize" where
  "lru_len c = length (lru_map c)"

definition lru_is_empty :: "'k lru_cache \<Rightarrow> bool" where
  "lru_is_empty c \<longleftrightarrow> lru_map c = []"

definition lru_contains :: "'k lru_cache \<Rightarrow> 'k \<Rightarrow> bool" where
  "lru_contains c k \<longleftrightarrow> bt_get (lru_map c) k \<noteq> None"

definition map_drop :: "'k \<Rightarrow> 'k lru_cache \<Rightarrow> 'k lru_cache" where
  "map_drop k c = c\<lparr>lru_map := bt_remove k (lru_map c)\<rparr>"

definition map_put :: "'k \<Rightarrow> ptr \<Rightarrow> 'k lru_cache \<Rightarrow> 'k lru_cache" where
  "map_put k a c = c\<lparr>lru_map := hm_insert k a (lru_map c)\<rparr>"

text \<open>The steps that \<open>pop_front\<close>, \<open>pop_back_internal\<close> and \<open>remove_lru_node\<close> share.\<close>

definition unlink_node :: "'k lru_cache \<Rightarrow> ptr \<Rightarrow> ('k, 'v) lru_heap \<Rightarrow> ('k, 'v) lru_state outcome" where
  "unlink_node c node h = do { h1 \<leftarrow> detach node h; k \<leftarrow> key_ref node h1; Returned (map_drop k c, h1) }"

definition lru_pop_front :: "'k lru_cache \<Rightarrow> ('k, 'v) lru_heap \<Rightarrow> (('k \<times> 'v) option \<times> ('k, 'v) lru_state) outcome" where
  "lru_pop_front c h = do {
     e \<leftarrow> cells h (lru_head c);
     if e_next e = lru_tail c then Returned (None, c, h)
     else do {
       (c1, h1) \<leftarrow> unlink_node c (e_next e) h;
       (kv, h2) \<leftarrow> unbox (e_next e) h1;
       Returned (Some kv, c1, h2)
     }
   }"

definition pop_back_internal :: "'k lru_cache \<Rightarrow> ('k, 'v) lru_heap \<Rightarrow> (('k \<times> 'v) option \<times> ('k, 'v) lru_state) outcome" where
  "pop_back_internal c h = do {
     e \<leftarrow> cells h (lru_tail c);
     if e_prev e = lru_head c then Returned (None, c, h)
     else do {
       (c1, h1) \<leftarrow> unlink_node c (e_prev e) h;
       (kv, h2) \<leftarrow> unbox (e_prev e) h1;
       Returned (Some kv, c1, h2)
     }
   }"

definition lru_pop_back :: "'k lru_cache \<Rightarrow> ('k, 'v) lru_heap \<Rightarrow> (('k \<times> 'v) option \<times> ('k, 'v) lru_state) outcome" where
  "lru_pop_back c h = pop_back_internal c h"

definition remove_lru_node :: "'k lru_cache \<Rightarrow> ('k, 'v) lru_heap \<Rightarrow> (ptr option \<times> ('k, 'v) lru_state) outcome" where
  "remove_lru_node c h = do {
     e \<leftarrow> cells h (lru_tail c);
     if e_prev e = lru_head c then Returned (None, c, h)
     else do { (c1, h1) \<leftarrow> unlink_node c (e_prev e) h; Returned (Some (e_prev e), c1, h1) }
   }"

text \<open>The eviction that makes room in \<open>put\<close>.\<close>

definition put_evict :: "'k lru_cache \<Rightarrow> ('k, 'v) lru_heap \<Rightarrow> (('k \<times> 'v) option \<times> ('k, 'v) lru_state) outcome" where
  "put_evict c h =
     (if lru_len c \<ge> lru_capacity c
      then do {
        (evicted, c1, h1) \<leftarrow> pop_back_internal c h;
        Returned (evicted, c1,
          case evicted of None \<Rightarrow> h1 | Some e \<Rightarrow> call_on_evict (lru_on_evict c1) e h1)
      }
      else Returned (None, c, h))"

definition lru_put :: "'k lru_cache \<Rightarrow> 'k \<Rightarrow> 'v \<Rightarrow> ('k, 'v) lru_heap \<Rightarrow> (('k \<times> 'v) option \<times> ('k, 'v) lru_state) outcome" where
  "lru_put c key value h =
     (case bt_get (lru_map c) key of
        Some node \<Rightarrow> do {
          old \<leftarrow> val_ref node h;
          h1 \<leftarrow> set_val node value h;
          h2 \<leftarrow> move_to_head c node h1;
          Returned (Some (key, old), c, h2)
        }
      | None \<Rightarrow> do {
          (evicted, c1, h1) \<leftarrow> put_evict c h;
          let (node, h2) = box_new (entry_new key value) h1;
          h3 \<leftarrow> attach c1 node h2;
          Returned (evicted, map_put key node c1, h3)
        })"

definition put_node :: "'k lru_cache \<Rightarrow> ptr \<Rightarrow> ('k, 'v) lru_heap \<Rightarrow> (ptr option \<times> ('k, 'v) lru_state) outcome" where
  "put_node c node h = do {
     (evicted, c1, h1) \<leftarrow>
       (if lru_len c \<ge> lru_capacity c then remove_lru_node c h else Returned (None, c, h));
     k \<leftarrow> key_ref node h1;
     h2 \<leftarrow> attach c1 node h1;
     Returned (evicted, map_put k node c1, h2)
   }"

definition get_with :: "'k lru_cache \<Rightarrow> 'k \<Rightarrow> ('k \<Rightarrow> 'v \<Rightarrow> 'r) \<Rightarrow> ('k, 'v) lru_heap \<Rightarrow> ('r option \<times> ('k, 'v) lru_heap) outcome" where
  "get_with c key f h =
     (case bt_get (lru_map c) key of
        None \<Rightarrow> Returned (None, h)
      | Some node \<Rightarrow> do {
          h1 \<leftarrow> move_to_head c node h;
          k \<leftarrow> key_ref node h1;
          v \<leftarrow> val_ref node h1;
          Returned (Some (f k v), h1)
        })"

definition peek_with :: "'k lru_cache \<Rightarrow> 'k \<Rightarrow> ('k \<Rightarrow> 'v \<Rightarrow> 'r) \<Rightarrow> ('k, 'v) lru_heap \<Rightarrow> 'r option outcome" where
  "peek_with c key f h =
     (case bt_get (lru_map c) key of
        None \<Rightarrow> Returned None
      | Some node \<Rightarrow> do { k \<leftarrow> key_ref node h; v \<leftarrow> val_ref node h; Returned (Some (f k v)) })"

definition front_with :: "'k lru_cache \<Rightarrow> ('k \<Rightarrow> 'v \<Rightarrow> 'r) \<Rightarrow> ('k, 'v) lru_heap \<Rightarrow> 'r option outcome" where
  "front_with c f h = do {
     e \<leftarrow> cells h (lru_head c);
     if e_next e = lru_tail c then Returned None
     else do { k \<leftarrow> key_ref (e_next e) h; v \<leftarrow> val_ref (e_next e) h; Returned (Some (f k v)) }
   }"

definition back_with :: "'k lru_cache \<Rightarrow> ('k \<Rightarrow> 'v \<Rightarrow> 'r) \<Rightarrow> ('k, 'v) lru_heap \<Rightarrow> 'r option outcome" where
  "back_with c f h = do {
     e \<leftarrow> cells h (lru_tail c);
     if e_prev e = lru_head c then Returned None
     else do { k \<leftarrow> key_ref (e_prev e) h; v \<leftarrow> val_ref (e_prev e) h; Returned (Some (f k v)) }
   }"

definition lru_front :: "'k lru_cache \<Rightarrow> ('k, 'v) lru_heap \<Rightarrow> ('k \<times> 'v) option outcome" where
  "lru_front c h = front_with c Pair h"

definition lru_back :: "'k lru_cache \<Rightarrow> ('k, 'v) lru_heap \<Rightarrow> ('k \<times> 'v) option outcome" where
  "lru_back c h = back_with c Pair h"

definition get_owned :: "'k lru_cache \<Rightarrow> 'k \<Rightarrow> ('k, 'v) lru_heap \<Rightarrow> (('k \<times> 'v) option \<times> ('k, 'v) lru_heap) outcome" where
  "get_owned c key h = get_with c key Pair h"

definition peek_owned :: "'k lru_cache \<Rightarrow> 'k \<Rightarrow> ('k, 'v) lru_heap \<Rightarrow> ('k \<times> 'v) option outcome" where
  "peek_owned c key h = peek_with c key Pair h"

definition remove_node :: "'k lru_cache \<Rightarrow> 'k \<Rightarrow> ('k, 'v) lru_heap \<Rightarrow> (ptr option \<times> ('k, 'v) lru_state) outcome" where
  "remove_node c key h =
     (case bt_get (lru_map c) key of
        None \<Rightarrow> Returned (None, c, h)
      | Some node \<Rightarrow> do { h1 \<leftarrow> detach node h; Returned (Some node, map_drop key c, h1) })"

definition lru_remove :: "'k lru_cache \<Rightarrow> 'k \<Rightarrow> ('k, 'v) lru_heap \<Rightarrow> (('k \<times> 'v) option \<times> ('k, 'v) lru_state) outcome" where
  "lru_remove c key h =
     (case bt_get (lru_map c) key of
        None \<Rightarrow> Returned (None, c, h)
      | Some node \<Rightarrow> do {
          h1 \<leftarrow> detach node h;
          (kv, h2) \<leftarrow> unbox node h1;
          Returned (Some kv, map_drop key c, h2)
        })"

text \<open>
  The loops of \<open>resize\<close>, \<open>resize_to_nodes\<close>, \<open>clone\<close> and \<open>drop\<close>. A corrupted list may make them
  run forever, which is the outcome \<open>Panicked\<close>.
\<close>

partial_function (option) resize_loop ::
    "'k lru_cache \<Rightarrow> ('k \<times> 'v) list \<Rightarrow> ('k, 'v) lru_heap \<Rightarrow> (('k \<times> 'v) list \<times> ('k, 'v) lru_state) option" where
  "resize_loop c evicted h =
     (if \<not> lru_len c > lru_capacity c then Some (evicted, c, h)
      else do {
        (r, c1, h1) \<leftarrow> pop_back_internal c h;
        (case r of
           None \<Rightarrow> Some (evicted, c1, h1)
         | Some kv \<Rightarrow> resize_loop c1 (evicted @ [kv]) (call_on_evict (lru_on_evict c1) kv h1))
      })"

definition lru_resize :: "'k lru_cache \<Rightarrow> usize \<Rightarrow> ('k, 'v) lru_heap \<Rightarrow> (('k \<times> 'v) list \<times> ('k, 'v) lru_state) outcome" where
  "lru_resize c new_capacity h = resize_loop (c\<lparr>lru_capacity := new_capacity\<rparr>) [] h"

partial_function (option) resize_nodes_loop ::
    "'k lru_cache \<Rightarrow> ptr list \<Rightarrow> ('k, 'v) lru_heap \<Rightarrow> (ptr list \<times> ('k, 'v) lru_state) option" where
  "resize_nodes_loop c evicted h =
     (if \<not> lru_len c > lru_capacity c then Some (evicted, c, h)
      else do {
        (r, c1, h1) \<leftarrow> remove_lru_node c h;
        (case r of
           None \<Rightarrow> Some (evicted, c1, h1)
         | Some node \<Rightarrow> resize_nodes_loop c1 (evicted @ [node]) h1)
      })"

definition resize_to_nodes :: "'k lru_cache \<Rightarrow> usize \<Rightarrow> ('k, 'v) lru_heap \<Rightarrow> (ptr list \<times> ('k, 'v) lru_state) outcome" where
  "resize_to_nodes c new_capacity h = resize_nodes_loop (c\<lparr>lru_capacity := new_capacity\<rparr>) [] h"

partial_function (option) clone_loop ::
    "'k lru_cache \<Rightarrow> ptr \<Rightarrow> 'k lru_cache \<Rightarrow> ('k, 'v) lru_heap \<Rightarrow> ('k, 'v) lru_state option" where
  "clone_loop self current new_cache h =
     (if current = lru_head self then Some (new_cache, h)
      else do {
        key \<leftarrow> key_ref current h;
        val \<leftarrow> val_ref current h;
        (_, new_cache1, h1) \<leftarrow> lru_put new_cache key val h;
        e \<leftarrow> cells h1 current;
        clone_loop self (e_prev e) new_cache1 h1
      })"

definition lru_clone :: "'k lru_cache \<Rightarrow> ('k, 'v) lru_heap \<Rightarrow> ('k, 'v) lru_state outcome" where
  "lru_clone self h = do {
     (new_cache, h1) \<leftarrow> with_on_evict (lru_capacity self) (lru_on_evict self) h;
     e \<leftarrow> cells h1 (lru_tail self);
     clone_loop self (e_prev e) new_cache h1
   }"

partial_function (option) drop_loop ::
    "'k lru_cache \<Rightarrow> ptr \<Rightarrow> ('k, 'v) lru_heap \<Rightarrow> ('k, 'v) lru_heap option" where
  "drop_loop c current h =
     (if current = lru_tail c then Some h
      else do {
        e \<leftarrow> cells h current;
        (_, h1) \<leftarrow> box_from_raw current h;
        drop_loop c (e_next e) h1
      })"

definition lru_drop :: "'k lru_cache \<Rightarrow> ('k, 'v) lru_heap \<Rightarrow> ('k, 'v) lru_state outcome" where
  "lru_drop c h = do {
     e \<leftarrow> cells h (lru_head c);
     h1 \<leftarrow> drop_loop c (e_next e) h;
     (_, h2) \<leftarrow> box_from_raw (lru_head c) h1;
     (_, h3) \<leftarrow> box_from_raw (lru_tail c) h2;
     Returned (c\<lparr>lru_map := []\<rparr>, h3)
   }"

end
