(* ===== verification/Lru_Refine.thy ===== *)
theory Lru_Refine
  imports Lru_Cache
begin

text \<open>
  The cache as a list of pairs, the most recently used first: the relation \<open>lru_rep\<close> between the
  heap and that list, and one refinement lemma per operation. \<open>moves F F' l h h'\<close> describes the
  rest of the heap: the boxes \<open>F\<close> have become the boxes \<open>F'\<close>, the log has grown by \<open>l\<close> and nothing
  else has changed.
\<close>

subsection \<open>Heaps\<close>

definition nx :: "('k, 'v) lru_heap \<Rightarrow> ptr \<Rightarrow> ptr option" where
  "nx h a = map_option e_next (cells h a)"

definition pv :: "('k, 'v) lru_heap \<Rightarrow> ptr \<Rightarrow> ptr option" where
  "pv h a = map_option e_prev (cells h a)"

definition pair_at :: "('k, 'v) lru_heap \<Rightarrow> ptr \<Rightarrow> ('k \<times> 'v) option" where
  "pair_at h a = do { k \<leftarrow> key_ref a h; v \<leftarrow> val_ref a h; Some (k, v) }"

definition heap_ok :: "('k, 'v) lru_heap \<Rightarrow> bool" where
  "heap_ok h \<longleftrightarrow> (\<forall>a \<in> dom (cells h). a < next_box h)"

definition moves :: "ptr set \<Rightarrow> ptr set \<Rightarrow> ('k \<times> 'v) list \<Rightarrow> ('k, 'v) lru_heap \<Rightarrow> ('k, 'v) lru_heap \<Rightarrow> bool" where
  "moves F F' l h h' \<longleftrightarrow> heap_ok h' \<and> (\<forall>a. a \<notin> F \<longrightarrow> a \<notin> F' \<longrightarrow> cells h' a = cells h a)
     \<and> F \<subseteq> dom (cells h) \<and> F' \<inter> dom (cells h) \<subseteq> F \<and> dom (cells h') = dom (cells h) - F \<union> F'
     \<and> evict_log h' = evict_log h @ l"

lemma moves_refl: "heap_ok h \<Longrightarrow> F \<subseteq> dom (cells h) \<Longrightarrow> moves F F [] h h"
  by (auto simp: moves_def)

lemma moves_heap_ok: "moves F F' l h h' \<Longrightarrow> heap_ok h'"
  by (simp add: moves_def)

lemma movesD:
  assumes "moves F F' l h h'"
  shows "heap_ok h'" and "\<And>a. a \<notin> F \<Longrightarrow> a \<notin> F' \<Longrightarrow> cells h' a = cells h a" and "F \<subseteq> dom (cells h)"
    and "F' \<inter> dom (cells h) \<subseteq> F" and "dom (cells h') = dom (cells h) - F \<union> F'"
    and "evict_log h' = evict_log h @ l"
  using assms by (simp_all add: moves_def)

lemma moves_trans:
  assumes "moves F F' l h h'" and "moves F' F'' l' h' h''"
  shows "moves F F'' (l @ l') h h''"
proof -
  note a = movesD [OF assms(1)] and b = movesD [OF assms(2)]
  have "cells h'' x = cells h x" if x: "x \<notin> F" "x \<notin> F''" for x
  proof (cases "x \<in> F'")
    case True
    then have "x \<notin> dom (cells h)" using a(4) x(1) by blast
    moreover have "x \<notin> dom (cells h'')" using True b(5) x(2) by blast
    ultimately show ?thesis by (simp add: domIff)
  next
    case False
    then show ?thesis using a(2) b(2) x by simp
  qed
  moreover have "F'' \<inter> dom (cells h) \<subseteq> F"
    using a(4,5) b(4) by blast
  moreover have "dom (cells h'') = dom (cells h) - F \<union> F''"
    unfolding b(5) a(5) using a(4) by blast
  ultimately show ?thesis
    using a(3,6) b(1,6) by (simp add: moves_def)
qed

lemma moves_frame:
  assumes "moves F F' l h h'" and "G \<subseteq> dom (cells h)" and "G \<inter> F = {}"
  shows "moves (F \<union> G) (F' \<union> G) l h h'"
proof -
  note a = movesD [OF assms(1)]
  have "dom (cells h') = dom (cells h) - (F \<union> G) \<union> (F' \<union> G)"
    using a(5) assms(2,3) by blast
  moreover have "(F' \<union> G) \<inter> dom (cells h) \<subseteq> F \<union> G"
    using a(4) by blast
  ultimately show ?thesis
    using a(1,2,3,6) assms(2) by (simp add: moves_def)
qed

lemma moves_eq: "moves F F' l h h' \<Longrightarrow> G = F \<Longrightarrow> G' = F' \<Longrightarrow> moves G G' l h h'"
  by simp

lemma moves_apart:
  assumes "moves F F' l h h'" and "G \<subseteq> dom (cells h)" and "G \<inter> F = {}"
  shows "G \<inter> F' = {}" and "G \<subseteq> dom (cells h')" and "\<And>a. a \<in> G \<Longrightarrow> cells h' a = cells h a"
proof -
  note a = movesD [OF assms(1)]
  show "G \<inter> F' = {}" using a(4) assms(2,3) by blast
  show "G \<subseteq> dom (cells h')" using a(5) assms(2,3) by blast
  show "cells h' a = cells h a" if "a \<in> G" for a
    by (rule a(2)) (use that \<open>G \<inter> F' = {}\<close> assms(3) in blast)+
qed

text \<open>Heaps that agree up to links.\<close>

definition relinked :: "ptr set \<Rightarrow> ('k, 'v) lru_heap \<Rightarrow> ('k, 'v) lru_heap \<Rightarrow> bool" where
  "relinked S h h' \<longleftrightarrow> (\<forall>a. a \<notin> S \<longrightarrow> cells h' a = cells h a) \<and> dom (cells h') = dom (cells h)
     \<and> pair_at h' = pair_at h \<and> next_box h' = next_box h \<and> evict_log h' = evict_log h"

lemma relinked_moves:
  "relinked S h h' \<Longrightarrow> S \<subseteq> F \<Longrightarrow> F \<subseteq> dom (cells h) \<Longrightarrow> heap_ok h \<Longrightarrow> moves F F [] h h'"
  by (auto simp: relinked_def moves_def heap_ok_def)

lemma set_next_cell:
  assumes "cells h a = Some e"
  obtains h' where "set_next a x h = Some h'" and "nx h' = (nx h)(a \<mapsto> x)" and "pv h' = pv h"
    and "relinked {a} h h'"
proof
  let ?h' = "h\<lparr>cells := (cells h)(a \<mapsto> e\<lparr>e_next := x\<rparr>)\<rparr>"
  show "set_next a x h = Some ?h'" using assms by (simp add: set_next_def)
  show "nx ?h' = (nx h)(a \<mapsto> x)" by (rule ext) (simp add: nx_def)
  show "pv ?h' = pv h" using assms by (intro ext) (simp add: pv_def)
  show "relinked {a} h ?h'"
    using assms by (auto simp: relinked_def pair_at_def key_ref_def val_ref_def)
qed

lemma set_prev_cell:
  assumes "cells h a = Some e"
  obtains h' where "set_prev a x h = Some h'" and "pv h' = (pv h)(a \<mapsto> x)" and "nx h' = nx h"
    and "relinked {a} h h'"
proof
  let ?h' = "h\<lparr>cells := (cells h)(a \<mapsto> e\<lparr>e_prev := x\<rparr>)\<rparr>"
  show "set_prev a x h = Some ?h'" using assms by (simp add: set_prev_def)
  show "pv ?h' = (pv h)(a \<mapsto> x)" by (rule ext) (simp add: pv_def)
  show "nx ?h' = nx h" using assms by (intro ext) (simp add: nx_def)
  show "relinked {a} h ?h'"
    using assms by (auto simp: relinked_def pair_at_def key_ref_def val_ref_def)
qed

lemma relinked_trans: "relinked S h h' \<Longrightarrow> relinked T h' h'' \<Longrightarrow> relinked (S \<union> T) h h''"
  by (auto simp: relinked_def)

lemma nx_Some: "nx h a = Some x \<longleftrightarrow> (\<exists>e. cells h a = Some e \<and> e_next e = x)"
  by (auto simp: nx_def)

lemma pv_Some: "pv h a = Some x \<longleftrightarrow> (\<exists>e. cells h a = Some e \<and> e_prev e = x)"
  by (auto simp: pv_def)

lemma nx_dom: "nx h a \<noteq> None \<longleftrightarrow> a \<in> dom (cells h)"
  by (auto simp: nx_def)

lemma pv_dom: "pv h a \<noteq> None \<longleftrightarrow> a \<in> dom (cells h)"
  by (auto simp: pv_def)

lemma pair_at_Some: "pair_at h a = Some (k, v) \<longleftrightarrow> key_ref a h = Some k \<and> val_ref a h = Some v"
  by (auto simp: pair_at_def split: bind_splits)

lemma pair_at_dom: "pair_at h a = Some p \<Longrightarrow> a \<in> dom (cells h)"
  by (cases p) (auto simp: pair_at_Some key_ref_def split: bind_splits)

subsection \<open>Chains in the heap\<close>

lemma detach_chain:
  assumes l: "dlinks (nx h) (pv h) (pre @ a # x # b # post)" and d: "distinct (pre @ a # x # b # post)"
  obtains h' where "detach x h = Some h'" and "dlinks (nx h') (pv h') (pre @ a # b # post)"
    and "relinked {a, b} h h'"
proof -
  have "dlinks (nx h) (pv h) (a # x # b # post)"
    using l dlinks_split [of "nx h" "pv h" pre a "x # b # post"] by blast
  then have "nx h a = Some x" and nx: "nx h x = Some b" and "pv h x = Some a" and "pv h b = Some x"
    by simp_all
  then obtain ea ex eb where ea: "cells h a = Some ea" and ex: "cells h x = Some ex" "e_next ex = b" "e_prev ex = a"
    and eb: "cells h b = Some eb"
    by (auto simp: nx_Some pv_Some)
  from ea obtain h1 where h1: "set_next a b h = Some h1" "nx h1 = (nx h)(a \<mapsto> b)" "pv h1 = pv h"
    "relinked {a} h h1"
    by (rule set_next_cell)
  have "cells h1 x = Some ex" "cells h1 b = Some eb"
    using h1(4) ex eb d by (auto simp: relinked_def)
  moreover from this(2) obtain h2 where h2: "set_prev b a h1 = Some h2" "pv h2 = (pv h1)(b \<mapsto> a)" "nx h2 = nx h1"
    "relinked {b} h1 h2"
    by (rule set_prev_cell)
  ultimately have "detach x h = Some h2"
    using ex h1(1) by (simp add: detach_def)
  moreover have "dlinks (nx h2) (pv h2) (pre @ a # b # post)"
    using dlinks_bypass [OF l d] h1 h2 by simp
  moreover have "relinked {a, b} h h2"
    using relinked_trans [OF h1(4) h2(4)] by (simp add: insert_commute)
  ultimately show ?thesis by (rule that)
qed

lemma attach_chain:
  assumes l: "dlinks (nx h) (pv h) (lru_head c # b # post)" and d: "distinct (lru_head c # b # post)"
    and x: "x \<notin> set (lru_head c # b # post)" "x \<in> dom (cells h)"
  obtains h' where "attach c x h = Some h'" and "dlinks (nx h') (pv h') (lru_head c # x # b # post)"
    and "relinked {lru_head c, x, b} h h'"
proof -
  let ?a = "lru_head c"
  have "nx h ?a = Some b" and "pv h b = Some ?a"
    using l by simp_all
  then obtain ea eb where ea: "cells h ?a = Some ea" "e_next ea = b" and eb: "cells h b = Some eb"
    by (auto simp: nx_Some pv_Some)
  obtain ex where ex: "cells h x = Some ex" using x(2) by auto
  from ex obtain h1 where h1: "set_next x b h = Some h1" "nx h1 = (nx h)(x \<mapsto> b)" "pv h1 = pv h"
    "relinked {x} h h1"
    by (rule set_next_cell)
  have "x \<in> dom (cells h1)" using x(2) h1(4) by (simp add: relinked_def)
  then obtain ex1 where "cells h1 x = Some ex1" by auto
  from this obtain h2 where h2: "set_prev x ?a h1 = Some h2" "pv h2 = (pv h1)(x \<mapsto> ?a)" "nx h2 = nx h1"
    "relinked {x} h1 h2"
    by (rule set_prev_cell)
  have c2: "cells h2 ?a = Some ea" "cells h2 b = Some eb"
    using h1(4) h2(4) ea eb x(1) by (auto simp: relinked_def)
  from c2(2) obtain h3 where h3: "set_prev b x h2 = Some h3" "pv h3 = (pv h2)(b \<mapsto> x)" "nx h3 = nx h2"
    "relinked {b} h2 h3"
    by (rule set_prev_cell)
  have "cells h3 ?a = Some ea"
    using h3(4) c2 d by (auto simp: relinked_def)
  from this obtain h4 where h4: "set_next ?a x h3 = Some h4" "nx h4 = (nx h3)(?a \<mapsto> x)" "pv h4 = pv h3"
    "relinked {?a} h3 h4"
    by (rule set_next_cell)
  have "attach c x h = Some h4"
    using ea c2 h1(1) h2(1) h3(1) h4(1) by (simp add: attach_def)
  moreover have "dlinks (nx h4) (pv h4) (?a # x # b # post)"
    using dlinks_insert [of "nx h" "pv h" "[]" ?a b post x] l d x(1) h1 h2 h3 h4 by simp
  moreover have "relinked {?a, x, b} h h4"
    using relinked_trans [OF relinked_trans [OF relinked_trans [OF h1(4) h2(4)] h3(4)] h4(4)]
    by (simp add: insert_commute Un_commute insert_absorb2)
  ultimately show ?thesis by (rule that)
qed

subsection \<open>The representation of a cache\<close>

definition lru_rep :: "('k, 'v) lru_heap \<Rightarrow> 'k lru_cache \<Rightarrow> ptr list \<Rightarrow> ('k \<times> 'v) list \<Rightarrow> bool" where
  "lru_rep h c as kvs \<longleftrightarrow> dlinks (nx h) (pv h) (lru_head c # as @ [lru_tail c])
     \<and> distinct (lru_head c # as @ [lru_tail c]) \<and> map (pair_at h) as = map Some kvs
     \<and> distinct (map fst kvs) \<and> distinct (map fst (lru_map c))
     \<and> set (lru_map c) = set (zip (map fst kvs) as)"

definition footprint :: "'k lru_cache \<Rightarrow> ptr list \<Rightarrow> ptr set" where
  "footprint c as = insert (lru_head c) (insert (lru_tail c) (set as))"

lemma lru_repD:
  assumes "lru_rep h c as kvs"
  shows "dlinks (nx h) (pv h) (lru_head c # as @ [lru_tail c])"
    and "distinct (lru_head c # as @ [lru_tail c])" and "map (pair_at h) as = map Some kvs"
    and "distinct (map fst kvs)" and "distinct (map fst (lru_map c))"
    and "set (lru_map c) = set (zip (map fst kvs) as)" and "length kvs = length as"
  using assms map_eq_imp_length_eq [of "pair_at h" as Some kvs] by (simp_all add: lru_rep_def)

lemma rep_footprint:
  assumes "lru_rep h c as kvs"
  shows "footprint c as \<subseteq> dom (cells h)"
proof
  fix a assume "a \<in> footprint c as"
  then have "a \<in> set (lru_head c # as) \<or> a \<in> set (as @ [lru_tail c])"
    by (auto simp: footprint_def)
  then have "nx h a \<noteq> None \<or> pv h a \<noteq> None"
    using dlinks_defined [OF lru_repD(1) [OF assms]] dlinks_defined_prev [OF lru_repD(1) [OF assms]] by blast
  then show "a \<in> dom (cells h)" unfolding nx_dom pv_dom by simp
qed

lemma rep_len:
  assumes "lru_rep h c as kvs"
  shows "lru_len c = length kvs"
proof -
  note r = lru_repD [OF assms]
  have "distinct (lru_map c)" using r(5) by (simp add: distinct_map)
  moreover have "distinct (zip (map fst kvs) as)" using r(4) by (simp add: distinct_zipI1)
  ultimately have "length (lru_map c) = length (zip (map fst kvs) as)"
    using r(6) by (metis distinct_card)
  then show ?thesis using r(7) by (simp add: lru_len_def)
qed

lemma rep_lookup_Some:
  assumes "lru_rep h c as kvs" and "bt_get (lru_map c) k = Some a"
  obtains us vs xs ys v where "as = us @ a # vs" and "kvs = xs @ (k, v) # ys" and "length us = length xs"
proof -
  note r = lru_repD [OF assms(1)]
  have "(k, a) \<in> set (zip (map fst kvs) as)"
    using assms(2) r(5,6) by (simp add: bt_get_def)
  then obtain i where i: "i < length as" "map fst kvs ! i = k" "as ! i = a"
    using r(7) by (auto simp: in_set_zip)
  have "as = take i as @ a # drop (Suc i) as" using i by (metis id_take_nth_drop)
  moreover obtain v where "kvs ! i = (k, v)" using i r(7) by (cases "kvs ! i") auto
  then have "kvs = take i kvs @ (k, v) # drop (Suc i) kvs"
    using i(1) r(7) by (metis id_take_nth_drop)
  moreover have "length (take i as) = length (take i kvs)" using r(7) by simp
  ultimately show ?thesis by (rule that)
qed

lemma rep_lookup_None:
  assumes "lru_rep h c as kvs" and "bt_get (lru_map c) k = None"
  shows "k \<notin> fst ` set kvs"
proof
  note r = lru_repD [OF assms(1)]
  assume "k \<in> fst ` set kvs"
  then obtain i where "i < length as" "map fst kvs ! i = k"
    using r(7) by (auto simp: in_set_conv_nth)
  then have "(k, as ! i) \<in> set (lru_map c)"
    unfolding r(6) in_set_zip using r(7) by (intro exI [of _ i]) auto
  then show False
    using assms(2) by (force simp: bt_get_def map_of_eq_None_iff)
qed

lemma rep_lookup:
  assumes "lru_rep h c as kvs"
  shows "map_option snd (Option.bind (bt_get (lru_map c) k) (pair_at h)) = map_of kvs k"
proof (cases "bt_get (lru_map c) k")
  case None
  then have "map_of kvs k = None"
    using rep_lookup_None [OF assms] by (simp add: map_of_eq_None_iff)
  then show ?thesis using None by simp
next
  case (Some a)
  from rep_lookup_Some [OF assms this] obtain us vs xs ys v
    where s: "as = us @ a # vs" "kvs = xs @ (k, v) # ys" "length us = length xs" .
  note r = lru_repD [OF assms]
  have "pair_at h a = Some (k, v)" using r(3) s by simp
  moreover have "map_of kvs k = Some v" by (rule map_of_is_SomeI [OF r(4)]) (simp add: s(2))
  ultimately show ?thesis using Some by simp
qed

text \<open>Only the set of entries of the map matters, and a heap only through the footprint.\<close>

lemma rep_map_cong:
  assumes "lru_rep h c as kvs" and "lru_head c' = lru_head c" and "lru_tail c' = lru_tail c"
    and "set (lru_map c') = set (lru_map c)" and "distinct (map fst (lru_map c'))"
  shows "lru_rep h c' as kvs"
  using assms by (simp add: lru_rep_def)

lemma rep_heap_cong:
  assumes "lru_rep h c as kvs" and "\<And>a. a \<in> footprint c as \<Longrightarrow> cells h' a = cells h a"
  shows "lru_rep h' c as kvs"
proof -
  note r = lru_repD [OF assms(1)]
  have c: "cells h' a = cells h a" if "a \<in> set (lru_head c # as @ [lru_tail c])" for a
    using assms(2) that by (auto simp: footprint_def)
  have "dlinks (nx h') (pv h') (lru_head c # as @ [lru_tail c])
        \<longleftrightarrow> dlinks (nx h) (pv h) (lru_head c # as @ [lru_tail c])"
  proof (rule dlinks_cong)
    show "nx h' a = nx h a" if "a \<in> set (butlast (lru_head c # as @ [lru_tail c]))" for a
      using c [OF in_set_butlastD [OF that]] by (simp add: nx_def)
    show "pv h' a = pv h a" if "a \<in> set (tl (lru_head c # as @ [lru_tail c]))" for a
      using c [OF list.set_sel(2) [OF _ that]] by (simp add: pv_def)
  qed
  moreover have "map (pair_at h') as = map (pair_at h) as"
    using c by (simp add: pair_at_def key_ref_def val_ref_def)
  ultimately show ?thesis
    using r by (simp add: lru_rep_def)
qed

lemma rep_frame:
  assumes "lru_rep h d bs kvs" and "moves F F' l h h'" and "footprint d bs \<inter> F = {}"
  shows "lru_rep h' d bs kvs"
  using rep_heap_cong [OF assms(1)] moves_apart(3) [OF assms(2) rep_footprint [OF assms(1)] assms(3)]
  by simp

subsection \<open>Taking a node out and putting it first\<close>

lemma rep_keys: "lru_rep h c as kvs \<Longrightarrow> fst ` set (lru_map c) = fst ` set kvs"
  using lru_repD [of h c as kvs] by (metis length_map list.set_map map_fst_zip)

lemma map_drop_sel [simp]:
  "lru_head (map_drop k c) = lru_head c" "lru_tail (map_drop k c) = lru_tail c"
  "lru_capacity (map_drop k c) = lru_capacity c" "lru_on_evict (map_drop k c) = lru_on_evict c"
  "lru_map (map_drop k c) = bt_remove k (lru_map c)" "footprint (map_drop k c) as = footprint c as"
  by (simp_all add: map_drop_def footprint_def)

lemma map_put_sel [simp]:
  "lru_head (map_put k a c) = lru_head c" "lru_tail (map_put k a c) = lru_tail c"
  "lru_capacity (map_put k a c) = lru_capacity c" "lru_on_evict (map_put k a c) = lru_on_evict c"
  "lru_map (map_put k a c) = (k, a) # bt_remove k (lru_map c)" "footprint (map_put k a c) as = footprint c as"
  by (simp_all add: map_put_def hm_insert_def footprint_def)

lemma distinct_bt_remove: "distinct (map fst m) \<Longrightarrow> distinct (map fst (bt_remove k m))"
  by (simp add: bt_remove_def distinct_map_filter)

lemma bt_remove_notin: "k \<notin> fst ` set m \<Longrightarrow> bt_remove k m = m"
  by (force simp: bt_remove_def filter_id_conv)

lemma bt_remove_middle:
  "distinct (map fst (xs @ (k, v) # ys)) \<Longrightarrow> bt_remove k (xs @ (k, v) # ys) = xs @ ys"
  using bt_remove_notin [of k xs] bt_remove_notin [of k ys] by (simp add: bt_remove_def)

lemma detach_rep:
  assumes rep: "lru_rep h c (us @ a # vs) (xs @ (k, v) # ys)" and len: "length us = length xs"
  obtains h' where "detach a h = Some h'" and "lru_rep h' (map_drop k c) (us @ vs) (xs @ ys)"
    and "relinked (footprint c (us @ vs)) h h'" and "pair_at h' a = Some (k, v)" and "pair_at h a = Some (k, v)"
    and "a \<notin> footprint c (us @ vs)"
proof -
  note r = lru_repD [OF rep]
  from dlinks_around [OF r(1) refl] obtain pre x b post
    where ends: "lru_head c # us = pre @ [x]" "vs @ [lru_tail c] = b # post"
      and whole: "lru_head c # (us @ a # vs) @ [lru_tail c] = pre @ x # a # b # post"
      and short: "lru_head c # us @ vs @ [lru_tail c] = pre @ x # b # post" .
  from detach_chain [OF r(1,2) [unfolded whole]] obtain h'
    where h': "detach a h = Some h'" "dlinks (nx h') (pv h') (pre @ x # b # post)" "relinked {x, b} h h'" .
  have "x \<in> set (lru_head c # us)" "b \<in> set (vs @ [lru_tail c])"
    using ends by simp_all
  then have sub: "{x, b} \<subseteq> footprint c (us @ vs)"
    by (auto simp: footprint_def)
  have kv: "pair_at h' = pair_at h" using h'(3) by (simp add: relinked_def)
  have maps: "map (pair_at h) us = map Some xs" "pair_at h a = Some (k, v)" "map (pair_at h) vs = map Some ys"
    using r(3) len by (simp_all add: append_eq_append_conv)
  have z: "zip (map fst (xs @ (k, v) # ys)) (us @ a # vs) = zip (map fst xs) us @ (k, a) # zip (map fst ys) vs"
    using len by simp
  have "k \<notin> fst ` set xs" "k \<notin> fst ` set ys" using r(4) by auto
  then have "set (bt_remove k (lru_map c)) = set (zip (map fst (xs @ ys)) (us @ vs))"
    using r(6) len unfolding z by (auto simp: bt_remove_def dest: in_set_zipE)
  moreover have "distinct (lru_head c # us @ vs @ [lru_tail c])"
    using r(2) by auto
  moreover have "dlinks (nx h') (pv h') (lru_head c # us @ vs @ [lru_tail c])"
    using h'(2) unfolding short .
  ultimately have "lru_rep h' (map_drop k c) (us @ vs) (xs @ ys)"
    using r(4) maps kv distinct_bt_remove [OF r(5)] by (simp add: lru_rep_def)
  moreover have "relinked (footprint c (us @ vs)) h h'"
    using h'(3) sub unfolding relinked_def by blast
  moreover have "a \<notin> footprint c (us @ vs)"
    using r(2) by (auto simp: footprint_def)
  ultimately show ?thesis
    using that [OF h'(1)] maps(2) kv by simp
qed

lemma attach_rep:
  assumes rep: "lru_rep h c as kvs" and a: "a \<notin> footprint c as" "pair_at h a = Some (k, v)"
    and k: "k \<notin> fst ` set kvs"
  obtains h' where "attach c a h = Some h'" and "lru_rep h' (map_put k a c) (a # as) ((k, v) # kvs)"
    and "relinked (insert a (footprint c as)) h h'"
proof -
  note r = lru_repD [OF rep]
  obtain b post where b: "as @ [lru_tail c] = b # post" by (cases "as @ [lru_tail c]") auto
  have ab: "a \<notin> set (lru_head c # b # post)"
    using a(1) unfolding b [symmetric] by (auto simp: footprint_def)
  from attach_chain [OF r(1,2) [unfolded b] ab pair_at_dom [OF a(2)]] obtain h'
    where h': "attach c a h = Some h'" "dlinks (nx h') (pv h') (lru_head c # a # b # post)"
      "relinked {lru_head c, a, b} h h'" .
  have "b \<in> set (as @ [lru_tail c])" using b by simp
  then have sub: "{lru_head c, a, b} \<subseteq> insert a (footprint c as)"
    by (auto simp: footprint_def)
  have kv: "pair_at h' = pair_at h" using h'(3) by (simp add: relinked_def)
  have nk: "bt_remove k (lru_map c) = lru_map c"
    using rep_keys [OF rep] k by (simp add: bt_remove_notin)
  have "k \<notin> fst ` set (lru_map c)" using rep_keys [OF rep] k by simp
  then have "lru_rep h' (map_put k a c) (a # as) ((k, v) # kvs)"
    using r h'(2) kv a k ab nk b by (auto simp: lru_rep_def)
  moreover have "relinked (insert a (footprint c as)) h h'"
    using h'(3) sub unfolding relinked_def by blast
  ultimately show ?thesis using that [OF h'(1)] by simp
qed

subsection \<open>The operations\<close>

definition same_shell :: "'k lru_cache \<Rightarrow> 'k lru_cache \<Rightarrow> bool" where
  "same_shell c c' \<longleftrightarrow> lru_head c' = lru_head c \<and> lru_tail c' = lru_tail c
     \<and> lru_capacity c' = lru_capacity c \<and> lru_on_evict c' = lru_on_evict c"

lemma same_shell_simps [simp]: "same_shell c c" "same_shell c (map_drop k c)" "same_shell c (map_put k a c)"
  by (simp_all add: same_shell_def)

lemma same_shell_trans: "same_shell c c' \<Longrightarrow> same_shell c' c'' \<Longrightarrow> same_shell c c''"
  by (simp add: same_shell_def)

lemma same_shell_footprint: "same_shell c c' \<Longrightarrow> footprint c' as = footprint c as"
  by (simp add: same_shell_def footprint_def)

lemma rep_head:
  assumes "lru_rep h c as kvs"
  obtains e where "cells h (lru_head c) = Some e" and "e_next e = hd (as @ [lru_tail c])"
proof -
  obtain b post where b: "as @ [lru_tail c] = b # post" by (cases "as @ [lru_tail c]") auto
  then have "nx h (lru_head c) = Some b"
    using lru_repD(1) [OF assms] by simp
  then show ?thesis using that b by (auto simp: nx_Some)
qed

lemma rep_tail:
  assumes "lru_rep h c as kvs"
  obtains e where "cells h (lru_tail c) = Some e" and "e_prev e = last (lru_head c # as)"
proof -
  obtain pre a where a: "lru_head c # as = pre @ [a]"
    by (metis append_butlast_last_id list.distinct(1))
  have w: "lru_head c # as @ [lru_tail c] = pre @ [a, lru_tail c]"
    using arg_cong [OF a, of "\<lambda>l. l @ [lru_tail c]"] by simp
  have "pv h (lru_tail c) = Some a"
    using lru_repD(1) [OF assms] unfolding w dlinks_snoc by simp
  then show ?thesis using that a by (auto simp: pv_Some)
qed

lemma unlink_rep:
  assumes rep: "lru_rep h c (us @ a # vs) (xs @ (k, v) # ys)" and len: "length us = length xs" and ok: "heap_ok h"
  obtains h' where "detach a h = Some h'" and "unlink_node c a h = Some (map_drop k c, h')"
    and "lru_rep h' (map_drop k c) (us @ vs) (xs @ ys)" and "pair_at h' a = Some (k, v)"
    and "a \<notin> footprint c (us @ vs)"
    and "moves (footprint c (us @ a # vs)) (footprint c (us @ a # vs)) [] h h'"
proof -
  from detach_rep [OF rep len] obtain h' where h': "detach a h = Some h'"
    "lru_rep h' (map_drop k c) (us @ vs) (xs @ ys)" "relinked (footprint c (us @ vs)) h h'"
    "pair_at h' a = Some (k, v)" "a \<notin> footprint c (us @ vs)" by blast
  have "footprint c (us @ vs) \<subseteq> footprint c (us @ a # vs)" by (auto simp: footprint_def)
  then have "moves (footprint c (us @ a # vs)) (footprint c (us @ a # vs)) [] h h'"
    by (rule relinked_moves [OF h'(3) _ rep_footprint [OF rep] ok])
  moreover have "unlink_node c a h = Some (map_drop k c, h')"
    using h'(1,4) by (simp add: unlink_node_def pair_at_Some)
  ultimately show ?thesis using that h' by blast
qed

lemma unbox_moves:
  assumes "pair_at h a = Some (k, v)" and "heap_ok h"
  obtains h' where "unbox a h = Some ((k, v), h')" and "moves {a} {} [] h h'"
proof -
  obtain e where e: "cells h a = Some e" using pair_at_dom [OF assms(1)] by auto
  let ?h' = "h\<lparr>cells := (cells h)(a := None)\<rparr>"
  have "unbox a h = Some ((k, v), ?h')"
    using assms(1) e by (simp add: unbox_def box_from_raw_def pair_at_Some key_ref_def val_ref_def)
  moreover have "moves {a} {} [] h ?h'"
    using assms(2) e by (auto simp: moves_def heap_ok_def)
  ultimately show ?thesis by (rule that)
qed

lemma free_node_moves:
  assumes "a \<in> dom (cells h)" and "heap_ok h"
  obtains h' where "free_node a h = Some h'" and "moves {a} {} [] h h'"
proof -
  obtain e where e: "cells h a = Some e" using assms(1) by auto
  let ?h' = "h\<lparr>cells := (cells h)(a := None)\<rparr>"
  have "free_node a h = Some ?h'"
    using e by (simp add: free_node_def box_from_raw_def)
  moreover have "moves {a} {} [] h ?h'"
    using assms(2) e by (auto simp: moves_def heap_ok_def)
  ultimately show ?thesis by (rule that)
qed

lemma box_new_moves:
  assumes "heap_ok h"
  obtains h' where "box_new e h = (next_box h, h')" and "moves {} {next_box h} [] h h'"
    and "cells h' (next_box h) = Some e" and "next_box h \<notin> dom (cells h)"
proof -
  have f: "next_box h \<notin> dom (cells h)"
    using assms unfolding heap_ok_def by blast
  let ?h' = "h\<lparr>cells := (cells h)(next_box h \<mapsto> e), next_box := Suc (next_box h)\<rparr>"
  have "heap_ok ?h'" using assms by (auto simp: heap_ok_def less_Suc_eq)
  then have "moves {} {next_box h} [] h ?h'"
    using f by (auto simp: moves_def)
  then show ?thesis using that f by (simp add: box_new_def)
qed

text \<open>What a handler has seen of the evictions \<open>l\<close>.\<close>

definition logged :: "on_evict \<Rightarrow> ('k \<times> 'v) list \<Rightarrow> ('k \<times> 'v) list" where
  "logged ev l = (if ev = EvictHandler then l else [])"

lemma logged_simps [simp]: "logged ev [] = []" "logged ev (l @ m) = logged ev l @ logged ev m"
  "logged NoOpEvict l = []" "logged EvictHandler l = l"
  by (simp_all add: logged_def)

lemma logged_Cons: "logged ev (e # l) = logged ev [e] @ logged ev l"
  by (simp add: logged_def)

lemma log_moves:
  assumes "heap_ok h" and "F \<subseteq> dom (cells h)"
  shows "moves F F (logged ev [e]) h (call_on_evict ev e h)"
  using assms by (cases ev) (auto simp: moves_def call_on_evict_def heap_ok_def)

lemma rep_last:
  assumes "lru_rep h c as kvs" and "kvs \<noteq> []"
  obtains us a xs k v where "as = us @ [a]" and "kvs = xs @ [(k, v)]" and "length us = length xs"
    and "last (lru_head c # as) = a" and "a \<noteq> lru_head c" and "a \<noteq> lru_tail c"
proof -
  note r = lru_repD [OF assms(1)]
  from assms(2) r(7) have "as \<noteq> []" by auto
  then obtain us a where us: "as = us @ [a]" by (metis append_butlast_last_id)
  from assms(2) obtain xs k v where "kvs = xs @ [(k, v)]"
    by (metis append_butlast_last_id surj_pair)
  then show ?thesis using that us r(2,7) by auto
qed

lemma remove_lru_node_spec:
  assumes rep: "lru_rep h c as kvs" and ok: "heap_ok h"
  obtains (Empty) "kvs = []" and "remove_lru_node c h = Some (None, c, h)"
  | (Node) us a xs k v h' where "as = us @ [a]" and "kvs = xs @ [(k, v)]"
      and "remove_lru_node c h = Some (Some a, map_drop k c, h')" and "lru_rep h' (map_drop k c) us xs"
      and "pair_at h' a = Some (k, v)" and "a \<notin> footprint c us" and "moves (footprint c as) (footprint c as) [] h h'"
proof -
  from rep_tail [OF rep] obtain e where e: "cells h (lru_tail c) = Some e" "e_prev e = last (lru_head c # as)" .
  show ?thesis
  proof (cases "kvs = []")
    case True
    then have "as = []" using lru_repD(7) [OF rep] by simp
    then show ?thesis
      using Empty [OF True] e by (simp add: remove_lru_node_def)
  next
    case False
    from rep_last [OF rep this] obtain us a xs k v where s: "as = us @ [a]" "kvs = xs @ [(k, v)]"
      "length us = length xs" "last (lru_head c # as) = a" "a \<noteq> lru_head c" .
    have "lru_rep h c (us @ a # []) (xs @ (k, v) # [])" using rep s by simp
    from unlink_rep [OF this s(3) ok] obtain h' where h': "unlink_node c a h = Some (map_drop k c, h')"
      "lru_rep h' (map_drop k c) us xs" "pair_at h' a = Some (k, v)" "a \<notin> footprint c us"
      "moves (footprint c as) (footprint c as) [] h h'"
      using s(1) by auto
    have "remove_lru_node c h = Some (Some a, map_drop k c, h')"
      using e s(4,5) h'(1) by (simp add: remove_lru_node_def)
    then show ?thesis using Node [OF s(1,2)] h' by blast
  qed
qed

lemma pop_back_internal_node:
  "pop_back_internal c h = do {
     (r, c1, h1) \<leftarrow> remove_lru_node c h;
     (case r of None \<Rightarrow> Some (None, c1, h1)
      | Some a \<Rightarrow> do { (e, h2) \<leftarrow> unbox a h1; Some (Some e, c1, h2) })
   }"
  by (auto simp: pop_back_internal_def remove_lru_node_def split: bind_splits)

lemma footprint_snoc: "footprint c (us @ [a]) = insert a (footprint c us)"
  by (auto simp: footprint_def)

lemma footprint_Cons: "footprint c (a # us) = insert a (footprint c us)"
  by (auto simp: footprint_def)

lemma moves_free:
  assumes "moves F (insert a G) l h h'" and "moves {a} {} [] h' h''" and "a \<notin> G"
  shows "moves F G l h h''"
proof -
  have "insert a G \<subseteq> dom (cells h')" using movesD(5) [OF assms(1)] by blast
  then have "moves ({a} \<union> G) ({} \<union> G) [] h' h''"
    using moves_frame [OF assms(2), of G] assms(3) by simp
  then show ?thesis
    using moves_trans [OF assms(1), of G "[]" h''] by simp
qed

lemma pop_back_spec:
  assumes rep: "lru_rep h c as kvs" and ok: "heap_ok h"
  obtains (Empty) "kvs = []" and "pop_back_internal c h = Some (None, c, h)"
  | (Popped) us a xs k v h' where "as = us @ [a]" and "kvs = xs @ [(k, v)]"
      and "pop_back_internal c h = Some (Some (k, v), map_drop k c, h')" and "lru_rep h' (map_drop k c) us xs"
      and "moves (footprint c as) (footprint c us) [] h h'"
  using rep ok
proof (cases rule: remove_lru_node_spec)
  case Empty
  then show ?thesis using that(1) by (simp add: pop_back_internal_node)
next
  case (Node us a xs k v h')
  from unbox_moves [OF Node(5) moves_heap_ok [OF Node(7)]] obtain h''
    where h'': "unbox a h' = Some ((k, v), h'')" "moves {a} {} [] h' h''" .
  have "moves (footprint c as) (footprint c us) [] h h''"
    using moves_free [OF _ h''(2) Node(6)] Node(7) by (simp add: Node(1) footprint_snoc)
  moreover have "lru_rep h'' (map_drop k c) us xs"
    using rep_frame [OF Node(4) h''(2)] Node(6) by simp
  moreover have "pop_back_internal c h = Some (Some (k, v), map_drop k c, h'')"
    using Node(3) h''(1) by (simp add: pop_back_internal_node)
  ultimately show ?thesis using that(2) Node(1,2) by blast
qed

lemma move_to_head_rep:
  assumes rep: "lru_rep h c (us @ a # vs) (xs @ (k, v) # ys)" and len: "length us = length xs" and ok: "heap_ok h"
  obtains h' where "move_to_head c a h = Some h'" and "lru_rep h' c (a # us @ vs) ((k, v) # xs @ ys)"
    and "moves (footprint c (us @ a # vs)) (footprint c (a # us @ vs)) [] h h'" and "pair_at h' a = Some (k, v)"
proof -
  let ?c = "map_drop k c" and ?F = "footprint c (us @ a # vs)"
  note r = lru_repD [OF rep]
  from unlink_rep [OF rep len ok] obtain h1 where h1: "detach a h = Some h1"
    "lru_rep h1 ?c (us @ vs) (xs @ ys)" "pair_at h1 a = Some (k, v)" "a \<notin> footprint c (us @ vs)" "moves ?F ?F [] h h1" .
  have "k \<notin> fst ` set (xs @ ys)" using r(4) by auto
  from attach_rep [OF h1(2) _ h1(3) this] h1(4) obtain h2 where h2: "attach ?c a h1 = Some h2"
    "lru_rep h2 (map_put k a ?c) (a # us @ vs) ((k, v) # xs @ ys)" "relinked (insert a (footprint c (us @ vs))) h1 h2"
    by auto
  have F: "insert a (footprint c (us @ vs)) = ?F" and F': "footprint c (a # us @ vs) = ?F"
    by (auto simp: footprint_def)
  have "?F \<subseteq> dom (cells h1)" using movesD(5) [OF h1(5)] by blast
  then have "moves ?F ?F [] h1 h2"
    using relinked_moves [OF h2(3) _ _ moves_heap_ok [OF h1(5)]] F by blast
  then have m: "moves ?F (footprint c (a # us @ vs)) [] h h2"
    using moves_trans [OF h1(5)] F' by fastforce
  have at: "attach c a h1 = Some h2" using h2(1) by (simp add: attach_def)
  have in_map: "(k, a) \<in> set (lru_map c)" using r(6) len by simp
  have "set (lru_map (map_put k a ?c)) = set (lru_map c)"
    using in_map r(5) by (auto simp: bt_remove_def dest: eq_key_imp_eq_value)
  then have "lru_rep h2 c (a # us @ vs) ((k, v) # xs @ ys)"
    by (intro rep_map_cong [OF h2(2)]) (simp_all add: r(5))
  moreover have "pair_at h2 a = Some (k, v)" using h1(3) h2(3) by (simp add: relinked_def)
  ultimately show ?thesis using that h1(1) at m by (simp add: move_to_head_def)
qed

lemma set_val_rep:
  assumes rep: "lru_rep h c (us @ a # vs) (xs @ (k, v) # ys)" and len: "length us = length xs" and ok: "heap_ok h"
  obtains h' where "set_val a w h = Some h'" and "lru_rep h' c (us @ a # vs) (xs @ (k, w) # ys)"
    and "moves (footprint c (us @ a # vs)) (footprint c (us @ a # vs)) [] h h'"
proof -
  note r = lru_repD [OF rep]
  have maps: "map (pair_at h) us = map Some xs" "pair_at h a = Some (k, v)" "map (pair_at h) vs = map Some ys"
    using r(3) len by (simp_all add: append_eq_append_conv)
  then obtain e where e: "cells h a = Some e" "e_key e = Some k" "e_val e = Some v"
    by (auto simp: pair_at_Some key_ref_def val_ref_def split: bind_splits)
  let ?h' = "h\<lparr>cells := (cells h)(a \<mapsto> e\<lparr>e_val := Some w\<rparr>)\<rparr>"
  have s: "set_val a w h = Some ?h'" using e by (simp add: set_val_def)
  have "nx ?h' = nx h" "pv ?h' = pv h" using e by (auto simp: nx_def pv_def)
  moreover have p: "pair_at ?h' x = pair_at h x" if "x \<noteq> a" for x
    using that by (simp add: pair_at_def key_ref_def val_ref_def)
  have "map (pair_at ?h') us = map (pair_at h) us" "map (pair_at ?h') vs = map (pair_at h) vs"
    using r(2) by (auto intro!: p)
  moreover have "pair_at ?h' a = Some (k, w)" using e by (simp add: pair_at_Some key_ref_def val_ref_def)
  ultimately have "lru_rep ?h' c (us @ a # vs) (xs @ (k, w) # ys)"
    using r maps by (auto simp: lru_rep_def)
  moreover have "moves (footprint c (us @ a # vs)) (footprint c (us @ a # vs)) [] h ?h'"
    using rep_footprint [OF rep] ok e by (auto simp: moves_def heap_ok_def footprint_def)
  ultimately show ?thesis using that s by blast
qed

text \<open>The operations on the list of pairs.\<close>

definition al_put :: "usize \<Rightarrow> 'k \<Rightarrow> 'v \<Rightarrow> ('k \<times> 'v) list \<Rightarrow> ('k \<times> 'v) option \<times> ('k \<times> 'v) list" where
  "al_put cap k v kvs =
     (case map_of kvs k of
        Some old \<Rightarrow> (Some (k, old), (k, v) # bt_remove k kvs)
      | None \<Rightarrow> if cap \<le> length kvs \<and> kvs \<noteq> [] then (Some (last kvs), (k, v) # butlast kvs)
                else (None, (k, v) # kvs))"

definition al_evicts :: "on_evict \<Rightarrow> usize \<Rightarrow> 'k \<Rightarrow> ('k \<times> 'v) list \<Rightarrow> ('k \<times> 'v) list" where
  "al_evicts ev cap k kvs =
     logged ev (if map_of kvs k = None \<and> cap \<le> length kvs \<and> kvs \<noteq> [] then [last kvs] else [])"

definition al_touch :: "'k \<Rightarrow> ('k \<times> 'v) list \<Rightarrow> ('k \<times> 'v) list" where
  "al_touch k kvs = (case map_of kvs k of None \<Rightarrow> kvs | Some v \<Rightarrow> (k, v) # bt_remove k kvs)"

lemma map_of_middle: "distinct (map fst (xs @ (k, v) # ys)) \<Longrightarrow> map_of (xs @ (k, v) # ys) k = Some v"
  by (rule map_of_is_SomeI) auto

lemma moves_alloc:
  assumes m: "moves F G l h h1" and b: "moves {} {p} [] h1 h2" and p: "p \<notin> dom (cells h1)"
  shows "moves F (insert p G) l h h2"
proof -
  have "G \<subseteq> dom (cells h1)" using movesD(5) [OF m] by blast
  from moves_frame [OF b this] have "moves G (insert p G) [] h1 h2" by simp
  from moves_trans [OF m this] show ?thesis by simp
qed

text \<open>Putting a node of its own first.\<close>

lemma attach_moves:
  assumes rep: "lru_rep h c as kvs" and a: "a \<notin> footprint c as" "pair_at h a = Some (k, v)"
    and k: "k \<notin> fst ` set kvs" and ok: "heap_ok h"
  obtains h' where "attach c a h = Some h'" and "lru_rep h' (map_put k a c) (a # as) ((k, v) # kvs)"
    and "moves (insert a (footprint c as)) (footprint c (a # as)) [] h h'"
proof -
  from attach_rep [OF rep a k] obtain h' where h': "attach c a h = Some h'"
    "lru_rep h' (map_put k a c) (a # as) ((k, v) # kvs)" "relinked (insert a (footprint c as)) h h'" .
  have "insert a (footprint c as) \<subseteq> dom (cells h)"
    using rep_footprint [OF rep] pair_at_dom [OF a(2)] by blast
  from relinked_moves [OF h'(3) order_refl this ok] show ?thesis
    using that h' by (simp add: footprint_Cons)
qed

lemma lru_put_insert:
  assumes rep: "lru_rep h c as kvs" and ok: "heap_ok h" and k: "k \<notin> fst ` set kvs"
  obtains h2 h' where "box_new (entry_new k v) h = (next_box h, h2)" and "attach c (next_box h) h2 = Some h'"
    and "lru_rep h' (map_put k (next_box h) c) (next_box h # as) ((k, v) # kvs)"
    and "moves (footprint c as) (footprint c (next_box h # as)) [] h h'"
proof -
  let ?p = "next_box h"
  from box_new_moves [OF ok] obtain h2 where h2: "box_new (entry_new k v) h = (?p, h2)" "moves {} {?p} [] h h2"
    "cells h2 ?p = Some (entry_new k v)" "?p \<notin> dom (cells h)" .
  have rep2: "lru_rep h2 c as kvs" using rep_frame [OF rep h2(2)] by simp
  have "?p \<notin> footprint c as" using h2(4) rep_footprint [OF rep] by blast
  moreover have "pair_at h2 ?p = Some (k, v)"
    using h2(3) by (simp add: pair_at_Some key_ref_def val_ref_def entry_new_def)
  ultimately obtain h' where h': "attach c ?p h2 = Some h'"
    "lru_rep h' (map_put k ?p c) (?p # as) ((k, v) # kvs)"
    "moves (insert ?p (footprint c as)) (footprint c (?p # as)) [] h2 h'"
    using attach_moves [OF rep2 _ _ k moves_heap_ok [OF h2(2)]] by blast
  have "moves (footprint c as) (insert ?p (footprint c as)) [] h h2"
    by (rule moves_alloc [OF moves_refl [OF ok rep_footprint [OF rep]] h2(2,4)])
  from moves_trans [OF this h'(3)] show ?thesis using that h2(1) h'(1,2) by simp
qed

theorem lru_put_refines:
  assumes rep: "lru_rep h c as kvs" and ok: "heap_ok h"
  shows "\<exists>c' as' h'. lru_put c k v h = Some (fst (al_put (lru_capacity c) k v kvs), c', h')
     \<and> lru_rep h' c' as' (snd (al_put (lru_capacity c) k v kvs)) \<and> same_shell c c'
     \<and> moves (footprint c as) (footprint c' as') (al_evicts (lru_on_evict c) (lru_capacity c) k kvs) h h'"
proof (cases "bt_get (lru_map c) k")
  case (Some a)
  from rep_lookup_Some [OF rep this] obtain us vs xs ys old
    where s: "as = us @ a # vs" "kvs = xs @ (k, old) # ys" "length us = length xs" .
  note rep' = rep [unfolded s(1,2)]
  have old: "map_of kvs k = Some old" "bt_remove k kvs = xs @ ys"
    using lru_repD(4) [OF rep] unfolding s(2) by (simp_all only: map_of_middle bt_remove_middle)
  have "pair_at h a = Some (k, old)" using lru_repD(3) [OF rep] s by simp
  then have v: "val_ref a h = Some old" by (simp add: pair_at_Some)
  from set_val_rep [OF rep' s(3) ok, of v] obtain h1 where h1: "set_val a v h = Some h1"
    "lru_rep h1 c (us @ a # vs) (xs @ (k, v) # ys)" "moves (footprint c as) (footprint c as) [] h h1"
    unfolding s(1) by blast
  from move_to_head_rep [OF h1(2) s(3) moves_heap_ok [OF h1(3)]] obtain h2 where h2: "move_to_head c a h1 = Some h2"
    "lru_rep h2 c (a # us @ vs) ((k, v) # xs @ ys)" "moves (footprint c as) (footprint c (a # us @ vs)) [] h1 h2"
    unfolding s(1) by blast
  have "lru_put c k v h = Some (Some (k, old), c, h2)"
    using Some v h1(1) h2(1) by (simp add: lru_put_def)
  then show ?thesis
    using h2(2) moves_trans [OF h1(3) h2(3)] old
    by (intro exI [of _ c] exI [of _ "a # us @ vs"] exI [of _ h2]) (simp add: al_put_def al_evicts_def)
next
  case None
  have k: "k \<notin> fst ` set kvs" by (rule rep_lookup_None [OF rep None])
  then have nk: "map_of kvs k = None" by (simp add: map_of_eq_None_iff)
  show ?thesis
  proof (cases "lru_capacity c \<le> length kvs \<and> kvs \<noteq> []")
    case False
    have pop: "put_evict c h = Some (None, c, h)"
      using rep ok
    proof (cases rule: pop_back_spec)
      case (Popped us a xs k v h')
      then show ?thesis using False by (simp add: put_evict_def rep_len [OF rep])
    qed (simp add: put_evict_def)
    from lru_put_insert [OF rep ok k, of v] obtain h2 h' where p: "box_new (entry_new k v) h = (next_box h, h2)"
      "attach c (next_box h) h2 = Some h'" "lru_rep h' (map_put k (next_box h) c) (next_box h # as) ((k, v) # kvs)"
      "moves (footprint c as) (footprint c (next_box h # as)) [] h h'" .
    have "lru_put c k v h = Some (None, map_put k (next_box h) c, h')"
      unfolding lru_put_def None option.case pop using p(1,2) by simp
    then show ?thesis
      using p(3,4) nk False
      by (intro exI [of _ "map_put k (next_box h) c"] exI [of _ "next_box h # as"] exI [of _ h'])
         (auto simp: al_put_def al_evicts_def)
  next
    case True
    from rep ok show ?thesis
    proof (cases rule: pop_back_spec)
      case Empty
      then show ?thesis using True by simp
    next
      case (Popped us a xs k1 v1 h1)
      let ?c1 = "map_drop k1 c" and ?h1 = "call_on_evict (lru_on_evict c) (k1, v1) h1"
      let ?l = "logged (lru_on_evict c) [(k1, v1)]"
      have lg: "moves (footprint c us) (footprint c us) ?l h1 ?h1"
        by (rule log_moves [OF moves_heap_ok [OF Popped(5)]]) (use rep_footprint [OF Popped(4)] in simp)
      have rep1: "lru_rep ?h1 ?c1 us xs"
        by (rule rep_heap_cong [OF Popped(4)]) (simp add: call_on_evict_def split: on_evict.splits)
      have "k \<notin> fst ` set xs" using k Popped(2) by auto
      from lru_put_insert [OF rep1 moves_heap_ok [OF lg] this, of v] obtain h2 h' where
        p: "box_new (entry_new k v) ?h1 = (next_box ?h1, h2)" "attach ?c1 (next_box ?h1) h2 = Some h'"
          "lru_rep h' (map_put k (next_box ?h1) ?c1) (next_box ?h1 # us) ((k, v) # xs)"
          "moves (footprint ?c1 us) (footprint ?c1 (next_box ?h1 # us)) [] ?h1 h'" .
      have pop: "put_evict c h = Some (Some (k1, v1), ?c1, ?h1)"
        using True Popped(3) by (simp add: put_evict_def rep_len [OF rep])
      have put: "lru_put c k v h = Some (Some (k1, v1), map_put k (next_box ?h1) ?c1, h')"
        unfolding lru_put_def None option.case pop using p(1,2) by simp
      have m: "moves (footprint c as) (footprint c (next_box ?h1 # us)) ?l h h'"
        using moves_trans [OF Popped(5) moves_trans [OF lg]] p(4) by fastforce
      have spec: "al_put (lru_capacity c) k v kvs = (Some (k1, v1), (k, v) # xs)"
        "al_evicts (lru_on_evict c) (lru_capacity c) k kvs = ?l"
        unfolding al_put_def al_evicts_def nk using True by (simp_all add: Popped(2))
      have "same_shell c (map_put k (next_box ?h1) ?c1)" by (simp add: same_shell_def)
      then show ?thesis
        unfolding spec using put p(3) m by auto
    qed
  qed
qed

lemma with_on_evict_rep:
  assumes ok: "heap_ok h"
  obtains c h' where "with_on_evict cap ev h = Some (c, h')" and "lru_rep h' c [] []"
    and "moves {} (footprint c []) [] h h'" and "lru_capacity c = cap" and "lru_on_evict c = ev"
proof -
  from box_new_moves [OF ok] obtain h1 where h1: "box_new new_sigil h = (next_box h, h1)"
    "moves {} {next_box h} [] h h1" "cells h1 (next_box h) = Some new_sigil" "next_box h \<notin> dom (cells h)" .
  from box_new_moves [OF moves_heap_ok [OF h1(2)]] obtain h2 where h2: "box_new new_sigil h1 = (next_box h1, h2)"
    "moves {} {next_box h1} [] h1 h2" "cells h2 (next_box h1) = Some new_sigil" "next_box h1 \<notin> dom (cells h1)" .
  let ?a = "next_box h" and ?b = "next_box h1"
  have ab: "?a \<noteq> ?b" using h1(3) h2(4) by auto
  have "cells h2 ?a = Some new_sigil"
    using movesD(2) [OF h2(2), of ?a] ab h1(3) by simp
  from this obtain h3 where h3: "set_next ?a ?b h2 = Some h3" "nx h3 = (nx h2)(?a \<mapsto> ?b)" "pv h3 = pv h2"
    "relinked {?a} h2 h3" by (rule set_next_cell)
  have "cells h3 ?b = Some new_sigil" using h3(4) h2(3) ab by (simp add: relinked_def)
  from this obtain h4 where h4: "set_prev ?b ?a h3 = Some h4" "pv h4 = (pv h3)(?b \<mapsto> ?a)" "nx h4 = nx h3"
    "relinked {?b} h3 h4" by (rule set_prev_cell)
  let ?c = "\<lparr>lru_capacity = cap, lru_map = [], lru_head = ?a, lru_tail = ?b, lru_on_evict = ev\<rparr>"
  have call: "with_on_evict cap ev h = Some (?c, h4)"
    using h1(1) h2(1) h3(1) h4(1) by (simp add: with_on_evict_def)
  have rep: "lru_rep h4 ?c [] []"
    using h3(2) h4(2,3) ab by (simp add: lru_rep_def)
  have m: "moves {} {?b, ?a} [] h h2" by (rule moves_alloc [OF h1(2) h2(2,4)])
  have "relinked {?b, ?a} h2 h4" using relinked_trans [OF h3(4) h4(4)] by (simp add: insert_commute)
  from relinked_moves [OF this order_refl _ moves_heap_ok [OF m]] movesD(5) [OF m]
  have "moves {?b, ?a} {?b, ?a} [] h2 h4" by blast
  from moves_trans [OF m this] have "moves {} (footprint ?c []) [] h h4"
    by (simp add: footprint_def insert_commute)
  then show ?thesis using that [OF call rep] by simp
qed

lemma put_node_spec:
  assumes rep: "lru_rep h c as kvs" and a: "a \<notin> footprint c as" "pair_at h a = Some (k, v)"
    and k: "k \<notin> fst ` set kvs" and ok: "heap_ok h"
  obtains (Kept) c' h' where "length kvs < lru_capacity c \<or> kvs = []" and "put_node c a h = Some (None, c', h')"
      and "lru_rep h' c' (a # as) ((k, v) # kvs)" and "same_shell c c'"
      and "moves (insert a (footprint c as)) (footprint c (a # as)) [] h h'"
  | (Evicted) us b xs e c' h' where "lru_capacity c \<le> length kvs" and "as = us @ [b]" and "kvs = xs @ [e]"
      and "put_node c a h = Some (Some b, c', h')" and "lru_rep h' c' (a # us) ((k, v) # xs)"
      and "same_shell c c'" and "pair_at h' b = Some e" and "b \<notin> footprint c (a # us)"
      and "moves (insert a (footprint c as)) (insert b (footprint c (a # us))) [] h h'"
proof (cases "lru_capacity c \<le> length kvs \<and> kvs \<noteq> []")
  case False
  have r: "(if lru_len c \<ge> lru_capacity c then remove_lru_node c h else Some (None, c, h)) = Some (None, c, h)"
    using rep ok
  proof (cases rule: remove_lru_node_spec)
    case (Node us a xs k v h')
    then show ?thesis using False by (simp add: rep_len [OF rep])
  qed simp
  from attach_moves [OF rep a k ok] obtain h' where h': "attach c a h = Some h'"
    "lru_rep h' (map_put k a c) (a # as) ((k, v) # kvs)"
    "moves (insert a (footprint c as)) (footprint c (a # as)) [] h h'" .
  have "put_node c a h = Some (None, map_put k a c, h')"
    unfolding put_node_def r using a(2) h'(1) by (simp add: pair_at_Some)
  then show ?thesis using Kept [OF _ _ h'(2) _ h'(3)] False by force
next
  case True
  from rep ok show ?thesis
  proof (cases rule: remove_lru_node_spec)
    case Empty
    then show ?thesis using True by simp
  next
    case (Node us b xs k1 v1 h1)
    let ?c1 = "map_drop k1 c" and ?F = "footprint c as"
    have aF: "{a} \<subseteq> dom (cells h)" "{a} \<inter> ?F = {}" using pair_at_dom [OF a(2)] a(1) by auto
    have a1: "a \<notin> footprint ?c1 us" "a \<noteq> b" using a(1) Node(1) by (auto simp: footprint_def)
    have "cells h1 a = cells h a" using moves_apart(3) [OF Node(7) aF] by simp
    then have kv1: "pair_at h1 a = Some (k, v)" using a(2) by (simp add: pair_at_def key_ref_def val_ref_def)
    have k1: "k \<notin> fst ` set xs" using k Node(2) by auto
    from attach_moves [OF Node(4) a1(1) kv1 k1 moves_heap_ok [OF Node(7)]] obtain h'
      where h': "attach ?c1 a h1 = Some h'" "lru_rep h' (map_put k a ?c1) (a # us) ((k, v) # xs)"
        "moves (insert a (footprint c us)) (footprint c (a # us)) [] h1 h'" by auto
    have bG: "{b} \<subseteq> dom (cells h1)" "{b} \<inter> insert a (footprint c us) = {}"
      using pair_at_dom [OF Node(5)] Node(6) a1(2) by auto
    have "pair_at h' b = pair_at h1 b"
      using moves_apart(3) [OF h'(3) bG] by (simp add: pair_at_def key_ref_def val_ref_def)
    then have pb: "pair_at h' b = Some (k1, v1)" using Node(5) by simp
    have bF: "b \<notin> footprint c (a # us)" using Node(6) a1(2) by (auto simp: footprint_Cons)
    have m1: "moves (insert a ?F) (insert a ?F) [] h h1"
      using moves_frame [OF Node(7) aF] by simp
    have "moves (insert b (insert a (footprint c us))) (insert b (footprint c (a # us))) [] h1 h'"
      using moves_frame [OF h'(3) bG] by simp
    then have m: "moves (insert a ?F) (insert b (footprint c (a # us))) [] h h'"
      using moves_trans [OF m1] by (fastforce simp: Node(1) footprint_snoc insert_commute)
    have call: "put_node c a h = Some (Some b, map_put k a ?c1, h')"
      using True Node(3) h'(1) kv1 by (simp add: put_node_def rep_len [OF rep] pair_at_Some)
    have "same_shell c (map_put k a ?c1)" by (simp add: same_shell_def)
    then show ?thesis
      using Evicted [OF _ Node(1,2) call h'(2) _ pb bF m] True by blast
  qed
qed

theorem get_with_refines:
  assumes rep: "lru_rep h c as kvs" and ok: "heap_ok h"
  shows "\<exists>as' h'. get_with c k f h = Some (map_option (f k) (map_of kvs k), h')
     \<and> lru_rep h' c as' (al_touch k kvs) \<and> moves (footprint c as) (footprint c as') [] h h'"
proof (cases "bt_get (lru_map c) k")
  case None
  then have "map_of kvs k = None" using rep_lookup [OF rep, of k] by simp
  then show ?thesis
    using None rep moves_refl [OF ok rep_footprint [OF rep]] by (auto simp: get_with_def al_touch_def)
next
  case (Some a)
  from rep_lookup_Some [OF rep this] obtain us vs xs ys v
    where s: "as = us @ a # vs" "kvs = xs @ (k, v) # ys" "length us = length xs" .
  have kv: "map_of kvs k = Some v" "bt_remove k kvs = xs @ ys"
    using lru_repD(4) [OF rep] unfolding s(2) by (simp_all only: map_of_middle bt_remove_middle)
  from move_to_head_rep [OF rep [unfolded s(1,2)] s(3) ok] obtain h1 where h1: "move_to_head c a h = Some h1"
    "lru_rep h1 c (a # us @ vs) ((k, v) # xs @ ys)"
    "moves (footprint c as) (footprint c (a # us @ vs)) [] h h1" "pair_at h1 a = Some (k, v)"
    unfolding s(1) by blast
  have "get_with c k f h = Some (Some (f k v), h1)"
    using Some h1(1,4) by (simp add: get_with_def pair_at_Some)
  then show ?thesis
    using h1(2,3) kv by (auto simp: al_touch_def)
qed

theorem peek_with_refines:
  assumes rep: "lru_rep h c as kvs"
  shows "peek_with c k f h = Some (map_option (f k) (map_of kvs k))"
proof (cases "bt_get (lru_map c) k")
  case None
  then show ?thesis using rep_lookup [OF rep, of k] by (simp add: peek_with_def)
next
  case (Some a)
  from rep_lookup_Some [OF rep this] obtain us vs xs ys v
    where s: "as = us @ a # vs" "kvs = xs @ (k, v) # ys" "length us = length xs" .
  have "pair_at h a = Some (k, v)" using lru_repD(3) [OF rep] s by simp
  moreover have "map_of kvs k = Some v"
    using lru_repD(4) [OF rep] unfolding s(2) by (simp only: map_of_middle)
  ultimately show ?thesis using Some by (simp add: peek_with_def pair_at_Some)
qed

lemma lru_contains_iff: "lru_rep h c as kvs \<Longrightarrow> lru_contains c k \<longleftrightarrow> k \<in> fst ` set kvs"
  using rep_keys [of h c as kvs] by (simp add: lru_contains_def bt_get_def map_of_eq_None_iff)

lemma front_with_refines:
  assumes rep: "lru_rep h c as kvs"
  shows "front_with c f h = Some (case kvs of [] \<Rightarrow> None | (k, v) # _ \<Rightarrow> Some (f k v))"
proof -
  note r = lru_repD [OF rep]
  from rep_head [OF rep] obtain e where e: "cells h (lru_head c) = Some e" "e_next e = hd (as @ [lru_tail c])" .
  show ?thesis
  proof (cases as)
    case Nil
    then show ?thesis using e r(7) by (simp add: front_with_def)
  next
    case (Cons a bs)
    then obtain k v ys where "kvs = (k, v) # ys" using r(7) by (cases kvs) auto
    then show ?thesis using e r(2,3) Cons by (auto simp: front_with_def pair_at_Some)
  qed
qed

lemma back_with_refines:
  assumes rep: "lru_rep h c as kvs"
  shows "back_with c f h = Some (if kvs = [] then None else Some (f (fst (last kvs)) (snd (last kvs))))"
proof -
  note r = lru_repD [OF rep]
  from rep_tail [OF rep] obtain e where e: "cells h (lru_tail c) = Some e" "e_prev e = last (lru_head c # as)" .
  show ?thesis
  proof (cases "kvs = []")
    case True
    then show ?thesis using e r(7) by (simp add: back_with_def)
  next
    case False
    from rep_last [OF rep this] obtain us a xs k v where s: "as = us @ [a]" "kvs = xs @ [(k, v)]"
      "length us = length xs" "last (lru_head c # as) = a" "a \<noteq> lru_head c" .
    have "pair_at h a = Some (k, v)" using r(3) s by simp
    then show ?thesis using e s by (simp add: back_with_def pair_at_Some)
  qed
qed

lemma remove_node_spec:
  assumes rep: "lru_rep h c as kvs" and ok: "heap_ok h"
  obtains (Absent) "k \<notin> fst ` set kvs" and "remove_node c k h = Some (None, c, h)"
  | (Node) us a vs xs v ys h' where "as = us @ a # vs" and "kvs = xs @ (k, v) # ys"
      and "remove_node c k h = Some (Some a, map_drop k c, h')" and "lru_rep h' (map_drop k c) (us @ vs) (xs @ ys)"
      and "pair_at h' a = Some (k, v)" and "a \<notin> footprint c (us @ vs)"
      and "moves (footprint c as) (insert a (footprint c (us @ vs))) [] h h'"
proof (cases "bt_get (lru_map c) k")
  case None
  then show ?thesis using Absent rep_lookup_None [OF rep None] by (simp add: remove_node_def)
next
  case (Some a)
  from rep_lookup_Some [OF rep this] obtain us vs xs ys v
    where s: "as = us @ a # vs" "kvs = xs @ (k, v) # ys" "length us = length xs" .
  from unlink_rep [OF rep [unfolded s(1,2)] s(3) ok] obtain h' where h': "detach a h = Some h'"
    "lru_rep h' (map_drop k c) (us @ vs) (xs @ ys)" "pair_at h' a = Some (k, v)" "a \<notin> footprint c (us @ vs)"
    "moves (footprint c (us @ a # vs)) (footprint c (us @ a # vs)) [] h h'" .
  have "footprint c (us @ a # vs) = insert a (footprint c (us @ vs))" by (auto simp: footprint_def)
  then show ?thesis
    using Node [OF s(1,2) _ h'(2-4)] Some h'(1,5) s(1) by (simp add: remove_node_def)
qed

lemma lru_remove_node:
  "lru_remove c k h = do {
     (r, c1, h1) \<leftarrow> remove_node c k h;
     (case r of None \<Rightarrow> Some (None, c1, h1)
      | Some a \<Rightarrow> do { (e, h2) \<leftarrow> unbox a h1; Some (Some e, c1, h2) })
   }"
  by (auto simp: lru_remove_def remove_node_def split: bind_splits option.splits)

theorem lru_remove_refines:
  assumes rep: "lru_rep h c as kvs" and ok: "heap_ok h"
  shows "\<exists>c' as' h'. lru_remove c k h = Some (map_option (Pair k) (map_of kvs k), c', h')
     \<and> lru_rep h' c' as' (bt_remove k kvs) \<and> same_shell c c' \<and> moves (footprint c as) (footprint c as') [] h h'"
  using rep ok
proof (cases rule: remove_node_spec [of h c as kvs k])
  case Absent
  then have "map_of kvs k = None" "bt_remove k kvs = kvs" by (simp_all add: map_of_eq_None_iff bt_remove_notin)
  then show ?thesis
    using Absent(2) rep moves_refl [OF ok rep_footprint [OF rep]] by (auto simp: lru_remove_node)
next
  case (Node us a vs xs v ys h1)
  have kv: "map_of kvs k = Some v" "bt_remove k kvs = xs @ ys"
    using lru_repD(4) [OF rep] unfolding Node(2) by (simp_all only: map_of_middle bt_remove_middle)
  from unbox_moves [OF Node(5) moves_heap_ok [OF Node(7)]] obtain h2
    where h2: "unbox a h1 = Some ((k, v), h2)" "moves {a} {} [] h1 h2" .
  have "lru_rep h2 (map_drop k c) (us @ vs) (xs @ ys)"
    using rep_frame [OF Node(4) h2(2)] Node(6) by simp
  moreover have "moves (footprint c as) (footprint c (us @ vs)) [] h h2"
    by (rule moves_free [OF Node(7) h2(2) Node(6)])
  ultimately show ?thesis
    using Node(3) h2(1) kv by (intro exI [of _ "map_drop k c"] exI [of _ "us @ vs"] exI [of _ h2])
      (simp add: lru_remove_node)
qed

theorem lru_pop_front_refines:
  assumes rep: "lru_rep h c as kvs" and ok: "heap_ok h"
  shows "\<exists>c' h'. lru_pop_front c h = Some (if kvs = [] then None else Some (hd kvs), c', h')
     \<and> lru_rep h' c' (tl as) (tl kvs) \<and> same_shell c c' \<and> moves (footprint c as) (footprint c (tl as)) [] h h'"
proof -
  note r = lru_repD [OF rep]
  from rep_head [OF rep] obtain e where e: "cells h (lru_head c) = Some e" "e_next e = hd (as @ [lru_tail c])" .
  show ?thesis
  proof (cases as)
    case Nil
    then show ?thesis
      using e r(7) rep moves_refl [OF ok rep_footprint [OF rep]] by (auto simp: lru_pop_front_def)
  next
    case (Cons a bs)
    then obtain k v ys where kvs: "kvs = (k, v) # ys" using r(7) by (cases kvs) auto
    have "lru_rep h c ([] @ a # bs) ([] @ (k, v) # ys)" using rep Cons kvs by simp
    from unlink_rep [OF this _ ok] obtain h1 where h1: "unlink_node c a h = Some (map_drop k c, h1)"
      "lru_rep h1 (map_drop k c) bs ys" "pair_at h1 a = Some (k, v)" "a \<notin> footprint c bs"
      "moves (footprint c as) (footprint c as) [] h h1"
      by (auto simp: Cons)
    from unbox_moves [OF h1(3) moves_heap_ok [OF h1(5)]] obtain h2
      where h2: "unbox a h1 = Some ((k, v), h2)" "moves {a} {} [] h1 h2" .
    have "a \<noteq> lru_tail c" using r(2) Cons by auto
    then have "lru_pop_front c h = Some (Some (k, v), map_drop k c, h2)"
      using e Cons h1(1) h2(1) by (simp add: lru_pop_front_def)
    moreover have "lru_rep h2 (map_drop k c) bs ys"
      using rep_frame [OF h1(2) h2(2)] h1(4) by simp
    moreover have "moves (footprint c as) (footprint c bs) [] h h2"
      using moves_free [OF _ h2(2) h1(4)] h1(5) by (simp add: Cons footprint_Cons)
    ultimately show ?thesis using Cons kvs by auto
  qed
qed

subsection \<open>The loops\<close>

lemma resize_loop_spec:
  assumes "lru_rep h c as kvs" and "heap_ok h"
  shows "\<exists>c' as' h'. resize_loop c evicted h = Some (evicted @ rev (drop (lru_capacity c) kvs), c', h')
     \<and> lru_rep h' c' as' (take (lru_capacity c) kvs) \<and> same_shell c c'
     \<and> moves (footprint c as) (footprint c as') (logged (lru_on_evict c) (rev (drop (lru_capacity c) kvs))) h h'"
  using assms
proof (induction "length kvs" arbitrary: h c as kvs evicted rule: less_induct)
  case less
  note rep = less.prems(1) and ok = less.prems(2)
  show ?case
  proof (cases "length kvs \<le> lru_capacity c")
    case True
    then have "resize_loop c evicted h = Some (evicted, c, h)"
      by (subst resize_loop.simps) (simp add: rep_len [OF rep])
    then show ?thesis
      using True rep moves_refl [OF ok rep_footprint [OF rep]] by auto
  next
    case False
    show ?thesis using rep ok
    proof (cases rule: pop_back_spec)
      case Empty
      then show ?thesis using False by simp
    next
      case (Popped us a xs k v h1)
      let ?c1 = "map_drop k c" and ?h1 = "call_on_evict (lru_on_evict c) (k, v) h1"
      let ?cap = "lru_capacity c"
      have lg: "moves (footprint c us) (footprint c us) (logged (lru_on_evict c) [(k, v)]) h1 ?h1"
        by (rule log_moves [OF moves_heap_ok [OF Popped(5)]]) (use rep_footprint [OF Popped(4)] in simp)
      have rep1: "lru_rep ?h1 ?c1 us xs"
        by (rule rep_heap_cong [OF Popped(4)]) (simp add: call_on_evict_def split: on_evict.splits)
      have "length xs < length kvs" using Popped(2) by simp
      from less.hyps [OF this rep1 moves_heap_ok [OF lg], of "evicted @ [(k, v)]"] obtain c' as' h'
        where ih: "resize_loop ?c1 (evicted @ [(k, v)]) ?h1 = Some ((evicted @ [(k, v)]) @ rev (drop ?cap xs), c', h')"
          "lru_rep h' c' as' (take ?cap xs)" "same_shell ?c1 c'"
          "moves (footprint c us) (footprint c as') (logged (lru_on_evict c) (rev (drop ?cap xs))) ?h1 h'"
        by auto
      have cut: "drop ?cap kvs = drop ?cap xs @ [(k, v)]" "take ?cap kvs = take ?cap xs"
        using False Popped(2) by simp_all
      have "resize_loop c evicted h = resize_loop ?c1 (evicted @ [(k, v)]) ?h1"
        using False Popped(3) by (subst resize_loop.simps) (simp add: rep_len [OF rep])
      moreover have "moves (footprint c as) (footprint c as')
          (logged (lru_on_evict c) (rev (drop ?cap kvs))) h h'"
        using moves_trans [OF Popped(5) moves_trans [OF lg ih(4)]] by (simp add: cut logged_Cons [of _ _ "rev _"])
      moreover have "same_shell c c'" using ih(3) by (simp add: same_shell_def)
      ultimately show ?thesis using ih(1,2) cut by auto
    qed
  qed
qed

theorem lru_resize_refines:
  assumes rep: "lru_rep h c as kvs" and ok: "heap_ok h"
  shows "\<exists>c' as' h'. lru_resize c n h = Some (rev (drop n kvs), c', h')
     \<and> lru_rep h' c' as' (take n kvs) \<and> same_shell (c\<lparr>lru_capacity := n\<rparr>) c'
     \<and> moves (footprint c as) (footprint c as') (logged (lru_on_evict c) (rev (drop n kvs))) h h'"
proof -
  have "lru_rep h (c\<lparr>lru_capacity := n\<rparr>) as kvs"
    by (rule rep_map_cong [OF rep]) (simp_all add: lru_repD(5) [OF rep])
  from resize_loop_spec [OF this ok, of "[]"] show ?thesis
    by (simp add: lru_resize_def footprint_def)
qed

lemma resize_nodes_loop_spec:
  assumes "lru_rep h c as kvs" and "heap_ok h"
  shows "\<exists>c' us bs h'. resize_nodes_loop c evicted h = Some (evicted @ bs, c', h')
     \<and> lru_rep h' c' us (take (lru_capacity c) kvs) \<and> same_shell c c' \<and> distinct bs
     \<and> set bs \<inter> footprint c us = {} \<and> moves (footprint c as) (footprint c us \<union> set bs) [] h h'"
  using assms
proof (induction "length kvs" arbitrary: h c as kvs evicted rule: less_induct)
  case less
  note rep = less.prems(1) and ok = less.prems(2)
  show ?case
  proof (cases "length kvs \<le> lru_capacity c")
    case True
    then have "resize_nodes_loop c evicted h = Some (evicted, c, h)"
      by (subst resize_nodes_loop.simps) (simp add: rep_len [OF rep])
    then show ?thesis
      using True rep moves_refl [OF ok rep_footprint [OF rep]]
      by (intro exI [of _ c] exI [of _ as] exI [of _ "[]"] exI [of _ h]) auto
  next
    case False
    show ?thesis using rep ok
    proof (cases rule: remove_lru_node_spec)
      case Empty
      then show ?thesis using False by simp
    next
      case (Node us a xs k v h1)
      let ?c1 = "map_drop k c"
      have "length xs < length kvs" using Node(2) by simp
      from less.hyps [OF this Node(4) moves_heap_ok [OF Node(7)], of "evicted @ [a]"] obtain c' us' bs h'
        where ih: "resize_nodes_loop ?c1 (evicted @ [a]) h1 = Some ((evicted @ [a]) @ bs, c', h')"
          "lru_rep h' c' us' (take (lru_capacity c) xs)" "same_shell ?c1 c'" "distinct bs"
          "set bs \<inter> footprint c us' = {}" "moves (footprint c us) (footprint c us' \<union> set bs) [] h1 h'"
        by auto
      have aG: "{a} \<subseteq> dom (cells h1)" "{a} \<inter> footprint c us = {}"
        using pair_at_dom [OF Node(5)] Node(6) by auto
      have "moves (insert a (footprint c us)) (insert a (footprint c us' \<union> set bs)) [] h1 h'"
        using moves_frame [OF ih(6) aG] by simp
      then have m: "moves (footprint c as) (footprint c us' \<union> set (a # bs)) [] h h'"
        using moves_trans [OF Node(7)] by (fastforce simp: Node(1) footprint_snoc)
      have a': "a \<notin> footprint c us' \<union> set bs" using moves_apart(1) [OF ih(6) aG] by auto
      have "resize_nodes_loop c evicted h = resize_nodes_loop ?c1 (evicted @ [a]) h1"
        using False Node(3) by (subst resize_nodes_loop.simps) (simp add: rep_len [OF rep])
      then have "resize_nodes_loop c evicted h = Some (evicted @ a # bs, c', h')"
        using ih(1) by simp
      moreover have "same_shell c c'" using ih(3) by (simp add: same_shell_def)
      moreover have "take (lru_capacity c) kvs = take (lru_capacity c) xs" using False Node(2) by simp
      ultimately show ?thesis
        using ih(2,4,5) a' m by (intro exI [of _ c'] exI [of _ us'] exI [of _ "a # bs"] exI [of _ h']) simp
    qed
  qed
qed

lemma resize_to_nodes_spec:
  assumes rep: "lru_rep h c as kvs" and ok: "heap_ok h"
  obtains c' us bs h' where "resize_to_nodes c n h = Some (bs, c', h')" and "lru_rep h' c' us (take n kvs)"
    and "same_shell (c\<lparr>lru_capacity := n\<rparr>) c'" and "distinct bs" and "set bs \<inter> footprint c us = {}"
    and "moves (footprint c as) (footprint c us \<union> set bs) [] h h'"
proof -
  have "lru_rep h (c\<lparr>lru_capacity := n\<rparr>) as kvs"
    by (rule rep_map_cong [OF rep]) (simp_all add: lru_repD(5) [OF rep])
  from resize_nodes_loop_spec [OF this ok, of "[]"] show ?thesis
    using that by (auto simp: resize_to_nodes_def footprint_def)
qed

lemma drop_loop_spec:
  assumes "dlinks (nx h) (pv h) (as @ [lru_tail c])" and "distinct (as @ [lru_tail c])"
    and "set as \<subseteq> dom (cells h)" and "heap_ok h"
  shows "\<exists>h'. drop_loop c (hd (as @ [lru_tail c])) h = Some h' \<and> moves (set as) {} [] h h'"
  using assms
proof (induction as arbitrary: h)
  case Nil
  have "drop_loop c (lru_tail c) h = Some h" by (subst drop_loop.simps) simp
  then show ?case using moves_refl [OF Nil(4), of "{}"] by simp
next
  case (Cons a as)
  obtain b post where b: "as @ [lru_tail c] = b # post" by (cases "as @ [lru_tail c]") auto
  have "nx h a = Some b" using Cons.prems(1) b by simp
  then obtain e where e: "cells h a = Some e" "e_next e = b" by (auto simp: nx_Some)
  let ?h = "h\<lparr>cells := (cells h)(a := None)\<rparr>"
  have m: "moves {a} {} [] h ?h"
    using Cons.prems(4) e by (auto simp: moves_def heap_ok_def)
  have "dlinks (nx ?h) (pv ?h) (as @ [lru_tail c]) \<longleftrightarrow> dlinks (nx h) (pv h) (as @ [lru_tail c])"
    unfolding b by (rule dlinks_suffix_cong)
      (use Cons.prems(2) b in \<open>auto simp: nx_def pv_def dest: arg_cong [where f = set]\<close>)
  moreover have "dlinks (nx h) (pv h) (as @ [lru_tail c])" using Cons.prems(1) b by simp
  ultimately have l: "dlinks (nx ?h) (pv ?h) (as @ [lru_tail c])" by simp
  have "set as \<subseteq> dom (cells ?h)" "distinct (as @ [lru_tail c])" using Cons.prems(2,3) by auto
  from Cons.IH [OF l this(2,1) moves_heap_ok [OF m]] obtain h'
    where h': "drop_loop c (hd (as @ [lru_tail c])) ?h = Some h'" "moves (set as) {} [] ?h h'" by blast
  have "a \<noteq> lru_tail c" using Cons.prems(2) by auto
  then have "drop_loop c (hd ((a # as) @ [lru_tail c])) h = Some h'"
    using e h'(1) b by (subst drop_loop.simps) (simp add: box_from_raw_def)
  moreover have "moves ({a} \<union> set as) ({} \<union> set as) [] h ?h"
    by (rule moves_frame [OF m]) (use Cons.prems(2,3) in auto)
  then have "moves (set (a # as)) {} [] h h'"
    using moves_trans [OF _ h'(2)] by fastforce
  ultimately show ?case by blast
qed

theorem lru_drop_frees:
  assumes rep: "lru_rep h c as kvs" and ok: "heap_ok h"
  shows "\<exists>h'. lru_drop c h = Some (c\<lparr>lru_map := []\<rparr>, h') \<and> moves (footprint c as) {} [] h h'"
proof -
  note r = lru_repD [OF rep]
  from rep_head [OF rep] obtain e where e: "cells h (lru_head c) = Some e" "e_next e = hd (as @ [lru_tail c])" .
  have fp: "footprint c as \<subseteq> dom (cells h)" by (rule rep_footprint [OF rep])
  obtain b post where b: "as @ [lru_tail c] = b # post" by (cases "as @ [lru_tail c]") auto
  have "dlinks (nx h) (pv h) (as @ [lru_tail c])" using r(1) b by simp
  from drop_loop_spec [OF this _ _ ok] r(2) fp obtain h1
    where h1: "drop_loop c (hd (as @ [lru_tail c])) h = Some h1" "moves (set as) {} [] h h1"
    by (auto simp: footprint_def)
  let ?G = "{lru_head c, lru_tail c}"
  have G: "?G \<subseteq> dom (cells h)" "?G \<inter> set as = {}" using fp r(2) by (auto simp: footprint_def)
  have m1: "moves (footprint c as) ?G [] h h1"
    using moves_frame [OF h1(2) G] by (simp add: footprint_def insert_commute Un_commute)
  have "?G \<subseteq> dom (cells h1)" by (rule moves_apart(2) [OF h1(2) G])
  then obtain e1 e2 where c1: "cells h1 (lru_head c) = Some e1" and c2: "cells h1 (lru_tail c) = Some e2"
    by auto
  let ?h2 = "h1\<lparr>cells := (cells h1)(lru_head c := None)\<rparr>"
  let ?h3 = "?h2\<lparr>cells := (cells ?h2)(lru_tail c := None)\<rparr>"
  have ne: "lru_head c \<noteq> lru_tail c" using r(2) by auto
  have "lru_drop c h = Some (c\<lparr>lru_map := []\<rparr>, ?h3)"
    using e h1(1) c1 c2 ne by (simp add: lru_drop_def box_from_raw_def)
  moreover have "moves ?G {} [] h1 ?h3"
    using moves_heap_ok [OF m1] c1 c2 by (auto simp: moves_def heap_ok_def)
  ultimately show ?thesis using moves_trans [OF m1] by fastforce
qed

lemma clone_loop_spec:
  assumes "lru_rep h c as kvs" and "as = us @ vs" and "kvs = xs @ ys" and "length us = length xs"
    and "lru_rep h d bs ys" and "footprint c as \<inter> footprint d bs = {}" and "heap_ok h"
    and "length kvs \<le> max 1 (lru_capacity d)"
  shows "\<exists>d' bs' h'. clone_loop c (last (lru_head c # us)) d h = Some (d', h') \<and> lru_rep h' d' bs' kvs
     \<and> same_shell d d' \<and> moves (footprint d bs) (footprint d bs') [] h h'"
  using assms
proof (induction "length us" arbitrary: h us vs xs ys d bs)
  case 0
  then have "clone_loop c (last (lru_head c # us)) d h = Some (d, h)"
    by (subst clone_loop.simps) simp
  then show ?case
    using 0 moves_refl [OF \<open>heap_ok h\<close> rep_footprint [OF \<open>lru_rep h d bs ys\<close>]] by auto
next
  case (Suc n)
  note rep = Suc.prems(1) and repd = Suc.prems(5) and ok = Suc.prems(7)
  obtain us1 a where us: "us = us1 @ [a]" using Suc.hyps(2) by (cases us rule: rev_cases) auto
  obtain xs1 k v where xs: "xs = xs1 @ [(k, v)]"
    using Suc.prems(4) us by (cases xs rule: rev_cases) auto
  have len1: "length us1 = length xs1" using Suc.prems(4) us xs by simp
  note r = lru_repD [OF rep]
  have kva: "pair_at h a = Some (k, v)" using r(3) Suc.prems(2,3) us xs len1 by simp
  have ne: "a \<noteq> lru_head c" using r(2) Suc.prems(2) us by auto
  have kn: "map_of ys k = None" using r(4) Suc.prems(3) xs by (auto simp: map_of_eq_None_iff)
  have room: "\<not> (lru_capacity d \<le> length ys \<and> ys \<noteq> [])"
    using Suc.prems(3,8) xs by (cases ys) auto
  have spec: "al_put (lru_capacity d) k v ys = (None, (k, v) # ys)"
    "al_evicts (lru_on_evict d) (lru_capacity d) k ys = []"
    using room kn by (auto simp: al_put_def al_evicts_def)
  from lru_put_refines [OF repd ok, of k v, unfolded spec] obtain d1 bs1 h1 where
    p: "lru_put d k v h = Some (None, d1, h1)" "lru_rep h1 d1 bs1 ((k, v) # ys)" "same_shell d d1"
      "moves (footprint d bs) (footprint d1 bs1) [] h h1" by auto
  have rep1: "lru_rep h1 c as kvs" by (rule rep_frame [OF rep p(4) Suc.prems(6)])
  have apart: "footprint c as \<inter> footprint d1 bs1 = {}"
    by (rule moves_apart(1) [OF p(4) rep_footprint [OF rep] Suc.prems(6)])
  have "as = us1 @ a # vs" using Suc.prems(2) us by simp
  from dlinks_around [OF lru_repD(1) [OF rep1] this] obtain pre z
    where z: "lru_head c # us1 = pre @ [z]" "pv h1 a = Some z" by metis
  then obtain e where e: "cells h1 a = Some e" "e_prev e = last (lru_head c # us1)" by (auto simp: pv_Some)
  have "length kvs \<le> max 1 (lru_capacity d1)" using Suc.prems(8) p(3) by (simp add: same_shell_def)
  moreover have "n = length us1" using Suc.hyps(2) us by simp
  ultimately obtain d' bs' h' where ih: "clone_loop c (last (lru_head c # us1)) d1 h1 = Some (d', h')"
    "lru_rep h' d' bs' kvs" "same_shell d1 d'" "moves (footprint d1 bs1) (footprint d1 bs') [] h1 h'"
    using Suc.hyps(1) [of us1 h1 "a # vs" xs1 "(k, v) # ys" d1 bs1] rep1 Suc.prems(2,3) us xs len1 p(2) apart
      moves_heap_ok [OF p(4)] by auto
  have "clone_loop c (last (lru_head c # us)) d h = Some (d', h')"
    using ne kva p(1) e ih(1) us by (subst clone_loop.simps) (simp add: pair_at_Some)
  moreover have "moves (footprint d bs) (footprint d bs') [] h h'"
    using moves_trans [OF p(4) ih(4)] same_shell_footprint [OF p(3)] by simp
  ultimately show ?case using ih(2) same_shell_trans [OF p(3) ih(3)] by blast
qed

theorem lru_clone_refines:
  assumes rep: "lru_rep h c as kvs" and ok: "heap_ok h" and len: "length kvs \<le> max 1 (lru_capacity c)"
  shows "\<exists>d bs h'. lru_clone c h = Some (d, h') \<and> lru_rep h' d bs kvs \<and> lru_rep h' c as kvs
     \<and> footprint c as \<inter> footprint d bs = {} \<and> lru_capacity d = lru_capacity c
     \<and> lru_on_evict d = lru_on_evict c \<and> moves {} (footprint d bs) [] h h'"
proof -
  from with_on_evict_rep [OF ok] obtain d h1 where d: "with_on_evict (lru_capacity c) (lru_on_evict c) h = Some (d, h1)"
    "lru_rep h1 d [] []" "moves {} (footprint d []) [] h h1" "lru_capacity d = lru_capacity c"
    "lru_on_evict d = lru_on_evict c" .
  have rep1: "lru_rep h1 c as kvs" by (rule rep_frame [OF rep d(3)]) simp
  have apart: "footprint c as \<inter> footprint d [] = {}"
    by (rule moves_apart(1) [OF d(3) rep_footprint [OF rep]]) simp
  have "length kvs \<le> max 1 (lru_capacity d)" using len d(4) by simp
  from clone_loop_spec [OF rep1 _ _ lru_repD(7) [OF rep1, symmetric] d(2) apart moves_heap_ok [OF d(3)] this, of "[]"]
  obtain d' bs h' where l: "clone_loop c (last (lru_head c # as)) d h1 = Some (d', h')" "lru_rep h' d' bs kvs"
    "same_shell d d'" "moves (footprint d []) (footprint d bs) [] h1 h'" by auto
  from rep_tail [OF rep1] obtain e where e: "cells h1 (lru_tail c) = Some e" "e_prev e = last (lru_head c # as)" .
  have call: "lru_clone c h = Some (d', h')"
    unfolding lru_clone_def using d(1) e l(1) by simp
  have rep': "lru_rep h' c as kvs" by (rule rep_frame [OF rep1 l(4) apart])
  have "footprint c as \<inter> footprint d bs = {}"
    by (rule moves_apart(1) [OF l(4) rep_footprint [OF rep1] apart])
  moreover have "moves {} (footprint d bs) [] h h'" using moves_trans [OF d(3) l(4)] by simp
  moreover have "footprint d' bs = footprint d bs" by (rule same_shell_footprint [OF l(3)])
  ultimately show ?thesis
    using call l(2,3) rep' d(4,5) by (intro exI [of _ d'] exI [of _ bs] exI [of _ h']) (simp add: same_shell_def)
qed

end
