(* ===== verification/Arc_Cache.thy ===== *)
theory Arc_Cache
  imports Lru_Refine
begin

text \<open>
  The adaptive replacement cache of \<open>library/collections/src/cache/arc.rs\<close>: four least recently used
  caches between which nodes move without being reallocated. The sum and the product of sizes that
  the code computes without a check are \<open>Panicked\<close> when they overflow.
\<close>

record 'k arc_cache =
  arc_p :: usize
  arc_capacity :: usize
  arc_recent :: "'k lru_cache"
  arc_recent_evict :: "'k lru_cache"
  arc_frequent :: "'k lru_cache"
  arc_frequent_evict :: "'k lru_cache"
  arc_on_evict :: on_evict

datatype arc_list = Recent | RecentEvict | Frequent | FrequentEvict

fun arc_sel :: "'k arc_cache \<Rightarrow> arc_list \<Rightarrow> 'k lru_cache" where
  "arc_sel a Recent = arc_recent a"
| "arc_sel a RecentEvict = arc_recent_evict a"
| "arc_sel a Frequent = arc_frequent a"
| "arc_sel a FrequentEvict = arc_frequent_evict a"

fun arc_set :: "'k arc_cache \<Rightarrow> arc_list \<Rightarrow> 'k lru_cache \<Rightarrow> 'k arc_cache" where
  "arc_set a Recent c = a\<lparr>arc_recent := c\<rparr>"
| "arc_set a RecentEvict c = a\<lparr>arc_recent_evict := c\<rparr>"
| "arc_set a Frequent c = a\<lparr>arc_frequent := c\<rparr>"
| "arc_set a FrequentEvict c = a\<lparr>arc_frequent_evict := c\<rparr>"

type_synonym ('k, 'v) arc_state = "'k arc_cache \<times> ('k, 'v) lru_heap"

definition arc_with_on_evict :: "usize \<Rightarrow> on_evict \<Rightarrow> ('k, 'v) lru_heap \<Rightarrow> ('k, 'v) arc_state outcome" where
  "arc_with_on_evict capacity ev h = do {
     (r, h1) \<leftarrow> lru_new capacity h;
     (re, h2) \<leftarrow> lru_new capacity h1;
     (f, h3) \<leftarrow> lru_new capacity h2;
     (fe, h4) \<leftarrow> lru_new capacity h3;
     Returned (\<lparr>arc_p = capacity div 2, arc_capacity = capacity, arc_recent = r, arc_recent_evict = re,
       arc_frequent = f, arc_frequent_evict = fe, arc_on_evict = ev\<rparr>, h4)
   }"

definition arc_new :: "usize \<Rightarrow> ('k, 'v) lru_heap \<Rightarrow> ('k, 'v) arc_state outcome" where
  "arc_new capacity h = arc_with_on_evict capacity NoOpEvict h"

definition evict_to_ghost ::
    "on_evict \<Rightarrow> ptr \<Rightarrow> 'k lru_cache \<Rightarrow> ('k, 'v) lru_heap \<Rightarrow> ('k, 'v) lru_state outcome" where
  "evict_to_ghost ev node ghost_list h = do {
     k \<leftarrow> key_ref node h;
     v \<leftarrow> val_ref node h;
     (evicted_ghost, ghost1, h1) \<leftarrow> put_node ghost_list node (call_on_evict ev (k, v) h);
     (case evicted_ghost of
        None \<Rightarrow> Returned (ghost1, h1)
      | Some g \<Rightarrow> do { h2 \<leftarrow> free_node g h1; Returned (ghost1, h2) })
   }"

definition arc_replace :: "'k arc_cache \<Rightarrow> bool \<Rightarrow> ('k, 'v) lru_heap \<Rightarrow> ('k, 'v) arc_state outcome" where
  "arc_replace a freq_contains_key h =
     (if lru_len (arc_recent a) + lru_len (arc_frequent a) < arc_capacity a then Returned (a, h)
      else let recent_len = lru_len (arc_recent a)
      in if recent_len > 0 \<and> (recent_len > arc_p a \<or> recent_len = arc_p a \<and> freq_contains_key)
      then do {
        (r, c, h1) \<leftarrow> remove_lru_node (arc_recent a) h;
        (case r of
           None \<Rightarrow> Returned (a\<lparr>arc_recent := c\<rparr>, h1)
         | Some node \<Rightarrow> do {
             (g, h2) \<leftarrow> evict_to_ghost (arc_on_evict a) node (arc_recent_evict a) h1;
             Returned (a\<lparr>arc_recent := c, arc_recent_evict := g\<rparr>, h2)
           })
      }
      else if lru_len (arc_frequent a) > 0
      then do {
        (r, c, h1) \<leftarrow> remove_lru_node (arc_frequent a) h;
        (case r of
           None \<Rightarrow> Returned (a\<lparr>arc_frequent := c\<rparr>, h1)
         | Some node \<Rightarrow> do {
             (g, h2) \<leftarrow> evict_to_ghost (arc_on_evict a) node (arc_frequent_evict a) h1;
             Returned (a\<lparr>arc_frequent := c, arc_frequent_evict := g\<rparr>, h2)
           })
      }
      else Returned (a, h))"

text \<open>
  The insertion of a node into the frequent list whose evicted node goes to the ghost list, as
  \<open>transfer_ghost_to_frequent\<close>, \<open>put\<close> and \<open>get_with\<close> write it out.
\<close>

definition arc_promote :: "'k arc_cache \<Rightarrow> ptr \<Rightarrow> ('k, 'v) lru_heap \<Rightarrow> ('k, 'v) arc_state outcome" where
  "arc_promote a node h = do {
     (evicted, f, h1) \<leftarrow> put_node (arc_frequent a) node h;
     (case evicted of
        None \<Rightarrow> Returned (a\<lparr>arc_frequent := f\<rparr>, h1)
      | Some e \<Rightarrow> do {
          (g, h2) \<leftarrow> evict_to_ghost (arc_on_evict a) e (arc_frequent_evict a) h1;
          Returned (a\<lparr>arc_frequent := f, arc_frequent_evict := g\<rparr>, h2)
        })
   }"

definition transfer_ghost_to_frequent ::
    "'k arc_cache \<Rightarrow> ptr \<Rightarrow> bool \<Rightarrow> ('k, 'v) lru_heap \<Rightarrow> ('k, 'v) arc_state outcome" where
  "transfer_ghost_to_frequent a node freq_contains_key h = do {
     (a1, h1) \<leftarrow> arc_replace a freq_contains_key h;
     arc_promote a1 node h1
   }"

definition arc_put_recent_ghost :: "'k arc_cache \<Rightarrow> ptr \<Rightarrow> 'v \<Rightarrow> ('k, 'v) lru_heap \<Rightarrow> ('k, 'v) arc_state outcome" where
  "arc_put_recent_ghost a node value h = do {
     let delta = max 1 (lru_len (arc_frequent_evict a) div max (lru_len (arc_recent_evict a)) 1);
     sum \<leftarrow> checked_add (arc_p a) delta;
     h1 \<leftarrow> set_val node value h;
     transfer_ghost_to_frequent (a\<lparr>arc_p := min (arc_capacity a) sum\<rparr>) node False h1
   }"

definition arc_put_frequent_ghost :: "'k arc_cache \<Rightarrow> ptr \<Rightarrow> 'v \<Rightarrow> ('k, 'v) lru_heap \<Rightarrow> ('k, 'v) arc_state outcome" where
  "arc_put_frequent_ghost a node value h = do {
     let delta = max 1 (lru_len (arc_recent_evict a) div max (lru_len (arc_frequent_evict a)) 1);
     h1 \<leftarrow> set_val node value h;
     transfer_ghost_to_frequent (a\<lparr>arc_p := saturating_sub (arc_p a) delta\<rparr>) node True h1
   }"

definition arc_put_new :: "'k arc_cache \<Rightarrow> 'k \<Rightarrow> 'v \<Rightarrow> ('k, 'v) lru_heap \<Rightarrow> ('k, 'v) arc_state outcome" where
  "arc_put_new a key value h = do {
     (a1, h1) \<leftarrow> arc_replace a False h;
     (_, r, h2) \<leftarrow> lru_put (arc_recent a1) key value h1;
     Returned (a1\<lparr>arc_recent := r\<rparr>, h2)
   }"

definition arc_put :: "'k arc_cache \<Rightarrow> 'k \<Rightarrow> 'v \<Rightarrow> ('k, 'v) lru_heap \<Rightarrow> ('k, 'v) arc_state outcome" where
  "arc_put a key value h = do {
     (n1, r, h1) \<leftarrow> remove_node (arc_recent a) key h;
     (case n1 of
        Some node \<Rightarrow> do {
          h2 \<leftarrow> set_val node value h1;
          arc_promote (a\<lparr>arc_recent := r\<rparr>) node h2
        }
      | None \<Rightarrow> do {
     (n2, f, h1) \<leftarrow> remove_node (arc_frequent a) key h1;
     (case n2 of
        Some node \<Rightarrow> do {
          h2 \<leftarrow> set_val node value h1;
          (_, f', h3) \<leftarrow> put_node f node h2;
          Returned (a\<lparr>arc_frequent := f'\<rparr>, h3)
        }
      | None \<Rightarrow> do {
     (n3, re, h1) \<leftarrow> remove_node (arc_recent_evict a) key h1;
     (case n3 of
        Some node \<Rightarrow> arc_put_recent_ghost (a\<lparr>arc_recent_evict := re\<rparr>) node value h1
      | None \<Rightarrow> do {
     (n4, fe, h1) \<leftarrow> remove_node (arc_frequent_evict a) key h1;
     (case n4 of
        Some node \<Rightarrow> arc_put_frequent_ghost (a\<lparr>arc_frequent_evict := fe\<rparr>) node value h1
      | None \<Rightarrow> arc_put_new a key value h1) }) }) }) }"

definition arc_get_with :: "'k arc_cache \<Rightarrow> 'k \<Rightarrow> ('k \<Rightarrow> 'v \<Rightarrow> 'r) \<Rightarrow> ('k, 'v) lru_heap \<Rightarrow> ('r option \<times> ('k, 'v) arc_state) outcome" where
  "arc_get_with a key f h =
     (if lru_contains (arc_frequent a) key
      then do { (r, h1) \<leftarrow> get_with (arc_frequent a) key f h; Returned (r, a, h1) }
      else do {
        (n, r, h1) \<leftarrow> remove_node (arc_recent a) key h;
        (case n of
           None \<Rightarrow> Returned (None, a, h1)
         | Some node \<Rightarrow> do {
             (a1, h2) \<leftarrow> arc_promote (a\<lparr>arc_recent := r\<rparr>) node h1;
             res \<leftarrow> front_with (arc_frequent a1) f h2;
             Returned (res, a1, h2)
           })
      })"

definition arc_peek_with :: "'k arc_cache \<Rightarrow> 'k \<Rightarrow> ('k \<Rightarrow> 'v \<Rightarrow> 'r) \<Rightarrow> ('k, 'v) lru_heap \<Rightarrow> 'r option outcome" where
  "arc_peek_with a key f h =
     (if lru_contains (arc_frequent a) key then peek_with (arc_frequent a) key f h
      else peek_with (arc_recent a) key f h)"

definition arc_contains :: "'k arc_cache \<Rightarrow> 'k \<Rightarrow> bool" where
  "arc_contains a key \<longleftrightarrow> lru_contains (arc_recent a) key \<or> lru_contains (arc_frequent a) key"

definition arc_len :: "'k arc_cache \<Rightarrow> usize" where
  "arc_len a = lru_len (arc_recent a) + lru_len (arc_frequent a)"

definition arc_is_empty :: "'k arc_cache \<Rightarrow> bool" where
  "arc_is_empty a \<longleftrightarrow> arc_len a = 0"

definition arc_remove :: "'k arc_cache \<Rightarrow> 'k \<Rightarrow> ('k, 'v) lru_heap \<Rightarrow> (('k \<times> 'v) option \<times> ('k, 'v) arc_state) outcome" where
  "arc_remove a key h = do {
     (r, c, h1) \<leftarrow> lru_remove (arc_recent a) key h;
     (case r of
        Some e \<Rightarrow> Returned (Some e, a\<lparr>arc_recent := c\<rparr>, h1)
      | None \<Rightarrow> do {
          (r2, c2, h2) \<leftarrow> lru_remove (arc_frequent a) key h1;
          Returned (r2, a\<lparr>arc_frequent := c2\<rparr>, h2)
        })
   }"

definition arc_get_owned :: "'k arc_cache \<Rightarrow> 'k \<Rightarrow> ('k, 'v) lru_heap \<Rightarrow> (('k \<times> 'v) option \<times> ('k, 'v) arc_state) outcome" where
  "arc_get_owned a key h = arc_get_with a key Pair h"

definition arc_peek_owned :: "'k arc_cache \<Rightarrow> 'k \<Rightarrow> ('k, 'v) lru_heap \<Rightarrow> ('k \<times> 'v) option outcome" where
  "arc_peek_owned a key h = arc_peek_with a key Pair h"

subsection \<open>Resizing\<close>

text \<open>
  The three eviction loops have one shape: while the two lists are over the capacity, and for the
  first loop the list is over its target, pop the least recently used pair of one list and report it.
\<close>

partial_function (option) arc_shrink ::
    "arc_list \<Rightarrow> usize option \<Rightarrow> usize \<Rightarrow> 'k arc_cache \<Rightarrow> ('k \<times> 'v) list \<Rightarrow> ('k, 'v) lru_heap
     \<Rightarrow> (('k \<times> 'v) list \<times> ('k, 'v) arc_state) option" where
  "arc_shrink i target n a evicted h =
     (if \<not> ((case target of None \<Rightarrow> True | Some p \<Rightarrow> lru_len (arc_sel a i) > p) \<and> arc_len a > n)
      then Some (evicted, a, h)
      else do {
        (r, c, h1) \<leftarrow> lru_pop_back (arc_sel a i) h;
        (case r of
           None \<Rightarrow> Some (evicted, arc_set a i c, h1)
         | Some e \<Rightarrow> arc_shrink i target n (arc_set a i c) (evicted @ [e]) (call_on_evict (arc_on_evict a) e h1))
      })"

fun free_nodes :: "ptr list \<Rightarrow> ('k, 'v) lru_heap \<Rightarrow> ('k, 'v) lru_heap outcome" where
  "free_nodes [] h = Returned h"
| "free_nodes (x # xs) h = do { h1 \<leftarrow> free_node x h; free_nodes xs h1 }"

definition arc_evict_excess ::
    "usize \<Rightarrow> usize \<Rightarrow> 'k arc_cache \<Rightarrow> ('k, 'v) lru_heap \<Rightarrow> (('k \<times> 'v) list \<times> ('k, 'v) arc_state) outcome" where
  "arc_evict_excess p n a h =
     (if arc_len a > n
      then do {
        (e1, a1, h1) \<leftarrow> arc_shrink Recent (Some p) n a [] h;
        (e2, a2, h2) \<leftarrow> arc_shrink Frequent None n a1 e1 h1;
        arc_shrink Recent None n a2 e2 h2
      }
      else Returned ([], a, h))"

definition arc_resize :: "'k arc_cache \<Rightarrow> usize \<Rightarrow> ('k, 'v) lru_heap \<Rightarrow> (('k \<times> 'v) list \<times> ('k, 'v) arc_state) outcome" where
  "arc_resize a new_capacity h =
     (if new_capacity = arc_capacity a then Returned ([], a, h)
      else do {
        scaled \<leftarrow> (if arc_capacity a > 0
                   then (if arc_p a * new_capacity \<le> usize_max
                         then Returned (arc_p a * new_capacity div arc_capacity a) else Panicked)
                   else Returned (new_capacity div 2));
        let p = min scaled new_capacity;
        (n1, re, h1) \<leftarrow> resize_to_nodes (arc_recent_evict a) new_capacity h;
        h2 \<leftarrow> free_nodes n1 h1;
        (n2, fe, h3) \<leftarrow> resize_to_nodes (arc_frequent_evict a) new_capacity h2;
        h4 \<leftarrow> free_nodes n2 h3;
        let a1 = a\<lparr>arc_p := p, arc_capacity := new_capacity, arc_recent_evict := re, arc_frequent_evict := fe\<rparr>;
        (evicted, a2, h5) \<leftarrow> arc_evict_excess p new_capacity a1 h4;
        (_, r, h6) \<leftarrow> lru_resize (arc_recent a2) new_capacity h5;
        (_, f, h7) \<leftarrow> lru_resize (arc_frequent a2) new_capacity h6;
        Returned (evicted, a2\<lparr>arc_recent := r, arc_frequent := f\<rparr>, h7)
      })"

end
