(* ===== verification/Arc_Refine.thy ===== *)
theory Arc_Refine
  imports Arc_Cache
begin

text \<open>
  The adaptive cache as four lists of pairs. \<open>arc_rep\<close> relates the heap to them; nodes that are in
  none of the lists for the moment are the set \<open>N\<close>. Every operation refines one on the lists, and
  \<open>moves\<close> over the boxes of the whole cache shows that no box is leaked or freed twice.
\<close>

lemma arc_sel_upd [simp]:
  "arc_sel (a\<lparr>arc_recent := c\<rparr>) = (arc_sel a)(Recent := c)"
  "arc_sel (a\<lparr>arc_recent_evict := c\<rparr>) = (arc_sel a)(RecentEvict := c)"
  "arc_sel (a\<lparr>arc_frequent := c\<rparr>) = (arc_sel a)(Frequent := c)"
  "arc_sel (a\<lparr>arc_frequent_evict := c\<rparr>) = (arc_sel a)(FrequentEvict := c)"
  "arc_sel (a\<lparr>arc_p := n\<rparr>) = arc_sel a" "arc_sel (a\<lparr>arc_capacity := n\<rparr>) = arc_sel a"
proof -
  show "arc_sel (a\<lparr>arc_recent := c\<rparr>) = (arc_sel a)(Recent := c)"
    by (rule ext, rename_tac i, case_tac i) simp_all
  show "arc_sel (a\<lparr>arc_recent_evict := c\<rparr>) = (arc_sel a)(RecentEvict := c)"
    by (rule ext, rename_tac i, case_tac i) simp_all
  show "arc_sel (a\<lparr>arc_frequent := c\<rparr>) = (arc_sel a)(Frequent := c)"
    by (rule ext, rename_tac i, case_tac i) simp_all
  show "arc_sel (a\<lparr>arc_frequent_evict := c\<rparr>) = (arc_sel a)(FrequentEvict := c)"
    by (rule ext, rename_tac i, case_tac i) simp_all
  show "arc_sel (a\<lparr>arc_p := n\<rparr>) = arc_sel a" "arc_sel (a\<lparr>arc_capacity := n\<rparr>) = arc_sel a"
    by (rule ext, rename_tac i, case_tac i, simp_all)+
qed

type_synonym ('k, 'v) arc_lists = "arc_list \<Rightarrow> ('k \<times> 'v) list"
type_synonym arc_addrs = "arc_list \<Rightarrow> ptr list"

definition arc_rep :: "('k, 'v) lru_heap \<Rightarrow> (arc_list \<Rightarrow> 'k lru_cache) \<Rightarrow> arc_addrs \<Rightarrow> ('k, 'v) arc_lists \<Rightarrow> ptr set \<Rightarrow> bool" where
  "arc_rep h C A K N \<longleftrightarrow> heap_ok h \<and> (\<forall>i. lru_rep h (C i) (A i) (K i))
     \<and> (\<forall>i j. i \<noteq> j \<longrightarrow> footprint (C i) (A i) \<inter> footprint (C j) (A j) = {})
     \<and> (\<forall>i. N \<inter> footprint (C i) (A i) = {}) \<and> N \<subseteq> dom (cells h)"

definition arc_total :: "(arc_list \<Rightarrow> 'k lru_cache) \<Rightarrow> arc_addrs \<Rightarrow> ptr set \<Rightarrow> ptr set" where
  "arc_total C A N = (\<Union>i. footprint (C i) (A i)) \<union> N"

lemma arc_repD:
  assumes "arc_rep h C A K N"
  shows "heap_ok h" and "lru_rep h (C i) (A i) (K i)"
    and "i \<noteq> j \<Longrightarrow> footprint (C i) (A i) \<inter> footprint (C j) (A j) = {}"
    and "N \<inter> footprint (C i) (A i) = {}" and "N \<subseteq> dom (cells h)"
  using assms by (simp_all add: arc_rep_def)

lemma arc_rep_total: "arc_rep h C A K N \<Longrightarrow> arc_total C A N \<subseteq> dom (cells h)"
  using arc_repD(2,5) rep_footprint unfolding arc_total_def by blast

text \<open>One list changes, and with it the set of loose nodes.\<close>

lemma arc_rep_step:
  assumes rep: "arc_rep h C A K N" and m: "moves (footprint (C i) (A i) \<union> N) (footprint c as \<union> M) l h h'"
    and new: "lru_rep h' c as kvs" and M: "M \<inter> footprint c as = {}"
  shows "arc_rep h' (C(i := c)) (A(i := as)) (K(i := kvs)) M"
    and "moves (arc_total C A N) (arc_total (C(i := c)) (A(i := as)) M) l h h'"
proof -
  let ?C = "C(i := c)" and ?A = "A(i := as)" and ?K = "K(i := kvs)"
  let ?F = "footprint (C i) (A i) \<union> N" and ?F' = "footprint c as \<union> M"
  have apart: "footprint (C j) (A j) \<inter> ?F = {}" if "j \<noteq> i" for j
    using arc_repD(3) [OF rep that] arc_repD(4) [OF rep, of j] by blast
  have sub: "footprint (C j) (A j) \<subseteq> dom (cells h)" for j
    by (rule rep_footprint [OF arc_repD(2) [OF rep]])
  have apart': "footprint (C j) (A j) \<inter> ?F' = {}" if "j \<noteq> i" for j
    by (rule moves_apart(1) [OF m sub apart [OF that]])
  have reps: "lru_rep h' (?C j) (?A j) (?K j)" for j
    using rep_frame [OF arc_repD(2) [OF rep, of j] m apart] new by simp
  have dis: "footprint (?C j) (?A j) \<inter> footprint (?C k) (?A k) = {}" if "j \<noteq> k" for j k
    using that apart' [of j] apart' [of k] arc_repD(3) [OF rep that]
    by (cases "j = i"; cases "k = i") (simp_all, blast+)
  have loose: "M \<inter> footprint (?C j) (?A j) = {}" for j
    using M apart' [of j] by (cases "j = i") (simp_all, blast)
  have "M \<subseteq> dom (cells h')" using movesD(5) [OF m] by blast
  then show "arc_rep h' ?C ?A ?K M"
    using moves_heap_ok [OF m] reps dis loose by (simp add: arc_rep_def)
  let ?G = "\<Union>j \<in> - {i}. footprint (C j) (A j)"
  have "?G \<subseteq> dom (cells h)" "?G \<inter> ?F = {}" using sub apart by blast+
  from moves_frame [OF m this] have "moves (?F \<union> ?G) (?F' \<union> ?G) l h h'" .
  moreover have "arc_total C A N = ?F \<union> ?G" unfolding arc_total_def by blast
  moreover have "(\<Union>j. footprint (?C j) (?A j)) = footprint c as \<union> ?G"
  proof -
    have "(\<Union>j. footprint (?C j) (?A j)) = footprint (?C i) (?A i) \<union> (\<Union>j \<in> - {i}. footprint (?C j) (?A j))"
      by blast
    moreover have "(\<Union>j \<in> - {i}. footprint (?C j) (?A j)) = ?G"
      by (rule SUP_cong) auto
    ultimately show ?thesis by simp
  qed
  then have "arc_total ?C ?A M = ?F' \<union> ?G" unfolding arc_total_def by blast
  ultimately show "moves (arc_total C A N) (arc_total ?C ?A M) l h h'" by simp
qed

text \<open>Nothing but the log and the links of loose nodes changes.\<close>

lemma arc_rep_loose:
  assumes rep: "arc_rep h C A K N" and m: "moves N M l h h'"
  shows "arc_rep h' C A K M" and "moves (arc_total C A N) (arc_total C A M) l h h'"
proof -
  have fp: "footprint (C Recent) (A Recent) \<subseteq> dom (cells h)"
    by (rule rep_footprint [OF arc_repD(2) [OF rep]])
  have apart: "footprint (C Recent) (A Recent) \<inter> N = {}"
    using arc_repD(4) [OF rep, of Recent] by blast
  have r: "lru_rep h' (C Recent) (A Recent) (K Recent)"
    by (rule rep_frame [OF arc_repD(2) [OF rep] m apart])
  have m': "moves (footprint (C Recent) (A Recent) \<union> N) (footprint (C Recent) (A Recent) \<union> M) l h h'"
    using moves_frame [OF m fp apart] by (simp add: Un_commute)
  have "M \<inter> footprint (C Recent) (A Recent) = {}"
    using moves_apart(1) [OF m fp apart] by blast
  from arc_rep_step [OF rep m' r this]
  show "arc_rep h' C A K M" "moves (arc_total C A N) (arc_total C A M) l h h'" by simp_all
qed

lemma pair_at_cell: "cells h' n = cells h n \<Longrightarrow> pair_at h' n = pair_at h n"
  by (simp add: pair_at_def key_ref_def val_ref_def)

definition keeps_pairs :: "ptr set \<Rightarrow> ('k, 'v) lru_heap \<Rightarrow> ('k, 'v) lru_heap \<Rightarrow> bool" where
  "keeps_pairs N h h' \<longleftrightarrow> (\<forall>n \<in> N. pair_at h' n = pair_at h n)"

lemma keeps_pairs_trans: "keeps_pairs N h h1 \<Longrightarrow> keeps_pairs N h1 h2 \<Longrightarrow> keeps_pairs N h h2"
  by (simp add: keeps_pairs_def)

lemma arc_rep_step_frame:
  assumes rep: "arc_rep h C A K (L \<union> N)" and LN: "L \<inter> N = {}"
    and m: "moves (footprint (C i) (A i) \<union> L) (footprint c as \<union> M) l h h'"
    and new: "lru_rep h' c as kvs" and M: "M \<inter> footprint c as = {}"
  shows "arc_rep h' (C(i := c)) (A(i := as)) (K(i := kvs)) (M \<union> N)"
    and "moves (arc_total C A (L \<union> N)) (arc_total (C(i := c)) (A(i := as)) (M \<union> N)) l h h'"
    and "keeps_pairs N h h'" and "M \<inter> N = {}"
proof -
  have N: "N \<subseteq> dom (cells h)" "N \<inter> (footprint (C i) (A i) \<union> L) = {}"
    using arc_repD(4,5) [OF rep] LN by blast+
  note ap = moves_apart [OF m N]
  have m': "moves (footprint (C i) (A i) \<union> (L \<union> N)) (footprint c as \<union> (M \<union> N)) l h h'"
    using moves_frame [OF m N] by (simp add: Un_assoc)
  have "(M \<union> N) \<inter> footprint c as = {}" using M ap(1) by blast
  from arc_rep_step [OF rep m' new this]
  show "arc_rep h' (C(i := c)) (A(i := as)) (K(i := kvs)) (M \<union> N)"
    "moves (arc_total C A (L \<union> N)) (arc_total (C(i := c)) (A(i := as)) (M \<union> N)) l h h'" .
  show "keeps_pairs N h h'"
    unfolding keeps_pairs_def using pair_at_cell [OF ap(3)] by blast
  show "M \<inter> N = {}" using ap(1) by blast
qed

subsection \<open>Moving nodes between the lists\<close>

lemma arc_remove_node_spec:
  assumes rep: "arc_rep h C A K {}"
  obtains (Absent) "k \<notin> fst ` set (K i)" and "remove_node (C i) k h = Some (None, C i, h)"
  | (Node) a v as h' where "map_of (K i) k = Some v" and "remove_node (C i) k h = Some (Some a, map_drop k (C i), h')"
      and "arc_rep h' (C(i := map_drop k (C i))) (A(i := as)) (K(i := bt_remove k (K i))) {a}"
      and "pair_at h' a = Some (k, v)"
      and "moves (arc_total C A {}) (arc_total (C(i := map_drop k (C i))) (A(i := as)) {a}) [] h h'"
  using arc_repD(2,1) [OF rep]
proof (cases rule: remove_node_spec [of h "C i" "A i" "K i" k])
  case Absent
  then show ?thesis by (rule that(1))
next
  case (Node us a vs xs v ys h')
  let ?c = "map_drop k (C i)"
  have kv: "map_of (K i) k = Some v" "bt_remove k (K i) = xs @ ys"
    using lru_repD(4) [OF arc_repD(2) [OF rep, of i]] unfolding Node(2)
    by (simp_all only: map_of_middle bt_remove_middle)
  have m: "moves (footprint (C i) (A i) \<union> {}) (footprint ?c (us @ vs) \<union> {a}) [] h h'"
    using Node(7) by (simp add: insert_commute)
  have M: "{a} \<inter> footprint ?c (us @ vs) = {}" using Node(6) by simp
  from arc_rep_step [OF rep m Node(4) M] show ?thesis
    using that(2) [OF kv(1) Node(3) _ Node(5)] kv(2) by simp
qed

lemma arc_remove_lru_spec:
  assumes rep: "arc_rep h C A K N" and ne: "K i \<noteq> []"
  obtains a c as h' where "remove_lru_node (C i) h = Some (Some a, c, h')" and "same_shell (C i) c"
    and "arc_rep h' (C(i := c)) (A(i := as)) (K(i := butlast (K i))) (insert a N)"
    and "pair_at h' a = Some (last (K i))" and "keeps_pairs N h h'" and "a \<notin> N"
    and "moves (arc_total C A N) (arc_total (C(i := c)) (A(i := as)) (insert a N)) [] h h'"
  using arc_repD(2,1) [OF rep]
proof (cases rule: remove_lru_node_spec [of h "C i" "A i" "K i"])
  case Empty
  then show ?thesis using ne by simp
next
  case (Node us a xs k v h')
  let ?c = "map_drop k (C i)"
  have "footprint (C i) (A i) = footprint (C i) us \<union> {a}" using Node(1) by (simp add: footprint_snoc)
  then have m: "moves (footprint (C i) (A i) \<union> {}) (footprint ?c us \<union> {a}) [] h h'"
    using Node(7) by simp
  have M: "{a} \<inter> footprint ?c us = {}" using Node(6) by simp
  have rep': "arc_rep h C A K ({} \<union> N)" using rep by simp
  note s = arc_rep_step_frame [OF rep' _ m Node(4) M, simplified]
  show ?thesis
    by (rule that [of a ?c h' us]) (use s Node(2,3,5) in simp_all)
qed

definition al_push :: "usize \<Rightarrow> 'k \<times> 'v \<Rightarrow> ('k \<times> 'v) list \<Rightarrow> ('k \<times> 'v) list" where
  "al_push cap e kvs = e # (if cap \<le> length kvs \<and> kvs \<noteq> [] then butlast kvs else kvs)"

lemma arc_put_node_spec:
  assumes rep: "arc_rep h C A K (insert a N)" and aN: "a \<notin> N" and a: "pair_at h a = Some (k, v)"
    and k: "k \<notin> fst ` set (K i)"
  obtains (Kept) c as h' where "length (K i) < lru_capacity (C i) \<or> K i = []"
      and "put_node (C i) a h = Some (None, c, h')" and "same_shell (C i) c"
      and "arc_rep h' (C(i := c)) (A(i := as)) (K(i := (k, v) # K i)) N"
      and "keeps_pairs N h h'"
      and "moves (arc_total C A (insert a N)) (arc_total (C(i := c)) (A(i := as)) N) [] h h'"
  | (Evicted) b c as h' where "lru_capacity (C i) \<le> length (K i)" and "K i \<noteq> []"
      and "put_node (C i) a h = Some (Some b, c, h')" and "same_shell (C i) c"
      and "arc_rep h' (C(i := c)) (A(i := as)) (K(i := (k, v) # butlast (K i))) (insert b N)"
      and "pair_at h' b = Some (last (K i))" and "b \<notin> N"
      and "keeps_pairs N h h'"
      and "moves (arc_total C A (insert a N)) (arc_total (C(i := c)) (A(i := as)) (insert b N)) [] h h'"
proof -
  have af: "a \<notin> footprint (C i) (A i)" using arc_repD(4) [OF rep, of i] by blast
  have rep': "arc_rep h C A K ({a} \<union> N)" and LN: "{a} \<inter> N = {}" using rep aN by simp_all
  from arc_repD(2) [OF rep, of i] af a k arc_repD(1) [OF rep] show ?thesis
  proof (cases rule: put_node_spec)
    case (Kept c h')
    have m: "moves (footprint (C i) (A i) \<union> {a}) (footprint c (a # A i) \<union> {}) [] h h'"
      using Kept(5) same_shell_footprint [OF Kept(4)] by simp
    note s = arc_rep_step_frame [OF rep' LN m Kept(3), simplified]
    show ?thesis by (rule that(1) [OF Kept(1,2,4)]) (use s in simp_all)
  next
    case (Evicted us b xs e c h')
    have m: "moves (footprint (C i) (A i) \<union> {a}) (footprint c (a # us) \<union> {b}) [] h h'"
      using Evicted(9) same_shell_footprint [OF Evicted(6)] by simp
    have M: "{b} \<inter> footprint c (a # us) = {}"
      using Evicted(8) same_shell_footprint [OF Evicted(6)] by simp
    note s = arc_rep_step_frame [OF rep' LN m Evicted(5) M, simplified]
    show ?thesis
      by (rule that(2) [OF Evicted(1) _ Evicted(4,6), of "a # us"]) (use s Evicted(3,7) in simp_all)
  qed
qed

lemma evict_to_ghost_spec:
  assumes rep: "arc_rep h C A K (insert a N)" and aN: "a \<notin> N" and a: "pair_at h a = Some (k, v)"
    and k: "k \<notin> fst ` set (K i)"
  obtains c as h' where "evict_to_ghost ev a (C i) h = Some (c, h')" and "same_shell (C i) c"
    and "arc_rep h' (C(i := c)) (A(i := as)) (K(i := al_push (lru_capacity (C i)) (k, v) (K i))) N"
    and "keeps_pairs N h h'"
    and "moves (arc_total C A (insert a N)) (arc_total (C(i := c)) (A(i := as)) N) (logged ev [(k, v)]) h h'"
proof -
  let ?h = "call_on_evict ev (k, v) h"
  have cells: "cells ?h = cells h" by (simp add: call_on_evict_def split: on_evict.splits)
  have lm: "moves (insert a N) (insert a N) (logged ev [(k, v)]) h ?h"
    by (rule log_moves [OF arc_repD(1,5) [OF rep]])
  note lr = arc_rep_loose [OF rep lm]
  have pa: "pair_at ?h n = pair_at h n" for n by (rule pair_at_cell) (simp add: cells)
  have a': "pair_at ?h a = Some (k, v)" using pa a by simp
  from lr(1) aN a' k show ?thesis
  proof (cases rule: arc_put_node_spec)
    case (Kept c as h')
    have "evict_to_ghost ev a (C i) h = Some (c, h')"
      using a Kept(2) by (simp add: evict_to_ghost_def pair_at_Some)
    then show ?thesis
      by (rule that [of c h' as]) (use Kept pa moves_trans [OF lr(2) Kept(6)] in \<open>auto simp: al_push_def keeps_pairs_def\<close>)
  next
    case (Evicted b c as h1)
    have "b \<in> dom (cells h1)" using arc_repD(5) [OF Evicted(5)] by blast
    from free_node_moves [OF this arc_repD(1) [OF Evicted(5)]] obtain h'
      where h': "free_node b h1 = Some h'" "moves {b} {} [] h1 h'" .
    have nb: "N \<subseteq> dom (cells h1)" "N \<inter> {b} = {}" using arc_repD(5) [OF Evicted(5)] Evicted(7) by auto
    have mN: "moves (insert b N) N [] h1 h'" using moves_frame [OF h'(2) nb] by simp
    note fr = arc_rep_loose [OF Evicted(5) mN]
    have "evict_to_ghost ev a (C i) h = Some (c, h')"
      using a Evicted(3) h'(1) by (simp add: evict_to_ghost_def pair_at_Some)
    moreover have "keeps_pairs N h h'"
      using pair_at_cell [OF moves_apart(3) [OF h'(2) nb]] Evicted(8) pa by (simp add: keeps_pairs_def)
    moreover have "moves (arc_total C A (insert a N)) (arc_total (C(i := c)) (A(i := as)) N) (logged ev [(k, v)]) h h'"
      using moves_trans [OF lr(2) moves_trans [OF Evicted(9) fr(2)]] by simp
    ultimately show ?thesis
      using that [of c h' as] Evicted(1,2,4) fr(1) by (simp add: al_push_def)
  qed
qed

subsection \<open>The policy on the lists\<close>

abbreviation keys :: "('k \<times> 'v) list \<Rightarrow> 'k set" where
  "keys kvs \<equiv> fst ` set kvs"

definition all_keys :: "('k, 'v) arc_lists \<Rightarrow> 'k set" where
  "all_keys K = (\<Union>i. keys (K i))"

definition apart :: "('k, 'v) arc_lists \<Rightarrow> bool" where
  "apart K \<longleftrightarrow> (\<forall>i j. i \<noteq> j \<longrightarrow> keys (K i) \<inter> keys (K j) = {})"

text \<open>The least recently used pair of the list \<open>i\<close> goes to the ghost list \<open>g\<close>.\<close>

definition al_demote :: "usize \<Rightarrow> arc_list \<Rightarrow> arc_list \<Rightarrow> ('k, 'v) arc_lists \<Rightarrow> ('k, 'v) arc_lists" where
  "al_demote cap i g K = K(i := butlast (K i), g := al_push cap (last (K i)) (K g))"

definition al_replace :: "usize \<Rightarrow> usize \<Rightarrow> bool \<Rightarrow> ('k, 'v) arc_lists \<Rightarrow> ('k, 'v) arc_lists \<times> ('k \<times> 'v) list" where
  "al_replace cap p fck K =
     (if length (K Recent) + length (K Frequent) < cap then (K, [])
      else if K Recent \<noteq> [] \<and> (p < length (K Recent) \<or> length (K Recent) = p \<and> fck)
      then (al_demote cap Recent RecentEvict K, [last (K Recent)])
      else if K Frequent \<noteq> []
      then (al_demote cap Frequent FrequentEvict K, [last (K Frequent)])
      else (K, []))"

definition al_promote :: "usize \<Rightarrow> 'k \<times> 'v \<Rightarrow> ('k, 'v) arc_lists \<Rightarrow> ('k, 'v) arc_lists \<times> ('k \<times> 'v) list" where
  "al_promote cap e K =
     (if cap \<le> length (K Frequent) \<and> K Frequent \<noteq> []
      then (K(Frequent := e # butlast (K Frequent), FrequentEvict := al_push cap (last (K Frequent)) (K FrequentEvict)),
            [last (K Frequent)])
      else (K(Frequent := e # K Frequent), []))"

lemma butlast_keys: "keys (butlast kvs) \<subseteq> keys kvs"
  by (auto dest: in_set_butlastD)

lemma last_key: "kvs \<noteq> [] \<Longrightarrow> fst (last kvs) \<in> keys kvs"
  by simp

lemma last_key_butlast: "distinct (map fst kvs) \<Longrightarrow> kvs \<noteq> [] \<Longrightarrow> fst (last kvs) \<notin> keys (butlast kvs)"
  by (cases kvs rule: rev_cases) auto

lemma al_push_keys: "keys (al_push cap e kvs) \<subseteq> insert (fst e) (keys kvs)"
  using butlast_keys [of kvs] by (auto simp: al_push_def)

lemma apart_sub:
  assumes "apart K" and "\<And>i. keys (K' i) \<subseteq> keys (K i)"
  shows "apart K'"
  unfolding apart_def
proof (intro allI impI)
  fix i j :: arc_list assume "i \<noteq> j"
  then have "keys (K i) \<inter> keys (K j) = {}" using assms(1) by (simp add: apart_def)
  then show "keys (K' i) \<inter> keys (K' j) = {}" using assms(2) [of i] assms(2) [of j] by blast
qed

lemma all_keys_sub: "(\<And>i. keys (K' i) \<subseteq> keys (K i)) \<Longrightarrow> all_keys K' \<subseteq> all_keys K"
  unfolding all_keys_def by blast

lemma demote_keys:
  assumes "apart K" and "K i \<noteq> []" and "distinct (map fst (K i))" and "i \<noteq> g"
  shows "apart (al_demote cap i g K)" and "all_keys (al_demote cap i g K) \<subseteq> all_keys K"
proof -
  let ?x = "fst (last (K i))"
  have x: "?x \<in> keys (K i)" using assms(2) by simp
  have xb: "?x \<notin> keys (butlast (K i))" by (rule last_key_butlast [OF assms(3,2)])
  have g: "keys (al_push cap (last (K i)) (K g)) \<subseteq> insert ?x (keys (K g))" by (rule al_push_keys)
  have sub: "keys (al_demote cap i g K j) \<subseteq> (if j = g then insert ?x (keys (K g)) else if j = i then keys (K i) - {?x} else keys (K j))" for j
  proof -
    have "keys (butlast (K i)) \<subseteq> keys (K i) - {?x}" using butlast_keys [of "K i"] xb by blast
    then show ?thesis using g assms(4) unfolding al_demote_def by (cases "j = g"; cases "j = i") simp_all
  qed
  have ap: "keys (K j) \<inter> keys (K l) = {}" if "j \<noteq> l" for j l
    using assms(1) that by (simp add: apart_def)
  have to_g: "keys (al_demote cap i g K l) \<inter> keys (al_demote cap i g K g) = {}" if "l \<noteq> g" for l
  proof -
    have "keys (al_demote cap i g K l) \<inter> insert ?x (keys (K g)) = {}"
    proof (cases "l = i")
      case True
      then show ?thesis using sub [of l] that ap [of i g] by auto
    next
      case False
      then have "?x \<notin> keys (K l)" using ap [of i l] x by blast
      then show ?thesis using sub [of l] that False ap [of l g] by auto
    qed
    moreover have "keys (al_demote cap i g K g) \<subseteq> insert ?x (keys (K g))" using sub [of g] by simp
    ultimately show ?thesis by blast
  qed
  show "apart (al_demote cap i g K)"
    unfolding apart_def
  proof (intro allI impI)
    fix j l :: arc_list assume jl: "j \<noteq> l"
    consider "j = g" | "l = g" | "j \<noteq> g" "l \<noteq> g" by blast
    then show "keys (al_demote cap i g K j) \<inter> keys (al_demote cap i g K l) = {}"
    proof cases
      case 1
      then show ?thesis using to_g [of l] jl by blast
    next
      case 2
      then show ?thesis using to_g [of j] jl by blast
    next
      case 3
      then have "keys (al_demote cap i g K j) \<subseteq> keys (K j)" "keys (al_demote cap i g K l) \<subseteq> keys (K l)"
        using sub [of j] sub [of l] by (auto split: if_splits)
      then show ?thesis using ap [OF jl] by blast
    qed
  qed
  show "all_keys (al_demote cap i g K) \<subseteq> all_keys K"
  proof -
    have "keys (al_demote cap i g K j) \<subseteq> all_keys K" for j
    proof -
      have "keys (K l) \<subseteq> all_keys K" for l unfolding all_keys_def by blast
      note all = this
      show ?thesis
      proof (cases "j = g")
        case True
        then have "keys (al_demote cap i g K j) \<subseteq> insert ?x (keys (K g))" using sub [of j] by simp
        moreover have "insert ?x (keys (K g)) \<subseteq> all_keys K" using all [of g] subsetD [OF all x] by simp
        ultimately show ?thesis by (rule order_trans)
      next
        case False
        then have "keys (al_demote cap i g K j) \<subseteq> keys (K j)" using sub [of j] by (auto split: if_splits)
        then show ?thesis using all [of j] by (rule order_trans)
      qed
    qed
    then show ?thesis unfolding all_keys_def [of "al_demote cap i g K"] by blast
  qed
qed

definition arc_ok :: "('k, 'v) lru_heap \<Rightarrow> 'k arc_cache \<Rightarrow> arc_addrs \<Rightarrow> ('k, 'v) arc_lists \<Rightarrow> ptr set \<Rightarrow> bool" where
  "arc_ok h a A K N \<longleftrightarrow> arc_rep h (arc_sel a) A K N \<and> apart K
     \<and> (\<forall>i. lru_capacity (arc_sel a i) = arc_capacity a \<and> lru_on_evict (arc_sel a i) = NoOpEvict)"

lemma arc_okD:
  assumes "arc_ok h a A K N"
  shows "arc_rep h (arc_sel a) A K N" and "apart K" and "lru_capacity (arc_sel a i) = arc_capacity a"
    and "lru_on_evict (arc_sel a i) = NoOpEvict" and "lru_rep h (arc_sel a i) (A i) (K i)"
    and "distinct (map fst (K i))" and "lru_len (arc_sel a i) = length (K i)"
proof -
  show r: "arc_rep h (arc_sel a) A K N" and "apart K" and "lru_capacity (arc_sel a i) = arc_capacity a"
    and "lru_on_evict (arc_sel a i) = NoOpEvict"
    using assms by (simp_all add: arc_ok_def)
  show l: "lru_rep h (arc_sel a i) (A i) (K i)" by (rule arc_repD(2) [OF r])
  show "distinct (map fst (K i))" by (rule lru_repD(4) [OF l])
  show "lru_len (arc_sel a i) = length (K i)" by (rule rep_len [OF l])
qed

definition same_arc :: "'k arc_cache \<Rightarrow> 'k arc_cache \<Rightarrow> bool" where
  "same_arc a b \<longleftrightarrow> arc_p b = arc_p a \<and> arc_capacity b = arc_capacity a \<and> arc_on_evict b = arc_on_evict a"

lemma same_arc_simps [simp]:
  "same_arc a a" "same_arc a (a\<lparr>arc_recent := c\<rparr>)" "same_arc a (a\<lparr>arc_recent_evict := c\<rparr>)"
  "same_arc a (a\<lparr>arc_frequent := c\<rparr>)" "same_arc a (a\<lparr>arc_frequent_evict := c\<rparr>)"
  by (simp_all add: same_arc_def)

text \<open>The result of an operation on the whole cache.\<close>

definition arc_result ::
    "('k, 'v) lru_heap \<Rightarrow> 'k arc_cache \<Rightarrow> arc_addrs \<Rightarrow> ptr set \<Rightarrow> ('k, 'v) arc_lists \<Rightarrow> ptr set \<Rightarrow> ('k \<times> 'v) list
     \<Rightarrow> 'k arc_cache \<Rightarrow> ('k, 'v) lru_heap \<Rightarrow> bool" where
  "arc_result h a A N K' N' l a' h' \<longleftrightarrow> (\<exists>A'. arc_ok h' a' A' K' N'
     \<and> moves (arc_total (arc_sel a) A N) (arc_total (arc_sel a') A' N') (logged (arc_on_evict a) l) h h')"

lemma arc_ok_upd:
  assumes ok: "arc_ok h a A K N" and sel: "arc_sel a' = (arc_sel a)(i := c)" and cap: "arc_capacity a' = arc_capacity a"
    and sh: "same_shell (arc_sel a i) c" and rep: "arc_rep h' (arc_sel a') A' K' N'" and ap: "apart K'"
  shows "arc_ok h' a' A' K' N'"
  using arc_okD(3,4) [OF ok] sh rep ap cap unfolding arc_ok_def sel by (simp add: same_shell_def)

lemma arc_demote_spec:
  assumes ok: "arc_ok h a A K N" and ne: "K i \<noteq> []" and ig: "i \<noteq> g"
  obtains b c d A' h1 h' where "remove_lru_node (arc_sel a i) h = Some (Some b, c, h1)"
    and "evict_to_ghost ev b (arc_sel a g) h1 = Some (d, h')"
    and "arc_rep h' ((arc_sel a)(i := c, g := d)) A' (al_demote (arc_capacity a) i g K) N"
    and "same_shell (arc_sel a i) c" and "same_shell (arc_sel a g) d"
    and "keeps_pairs N h h'"
    and "moves (arc_total (arc_sel a) A N) (arc_total ((arc_sel a)(i := c, g := d)) A' N) (logged ev [last (K i)]) h h'"
proof -
  note o = arc_okD [OF ok]
  obtain k v where kv: "last (K i) = (k, v)" by (cases "last (K i)")
  obtain b c as h1 where r: "remove_lru_node (arc_sel a i) h = Some (Some b, c, h1)"
    "same_shell (arc_sel a i) c" "arc_rep h1 ((arc_sel a)(i := c)) (A(i := as)) (K(i := butlast (K i))) (insert b N)"
    "pair_at h1 b = Some (last (K i))" "keeps_pairs N h h1" "b \<notin> N"
    "moves (arc_total (arc_sel a) A N) (arc_total ((arc_sel a)(i := c)) (A(i := as)) (insert b N)) [] h h1" using arc_remove_lru_spec [OF o(1) ne] by metis
  have "k \<in> keys (K i)" using last_key [OF ne] kv by simp
  then have "k \<notin> fst ` set ((K(i := butlast (K i))) g)"
    using o(2) ig unfolding apart_def by auto
  note k = this
  have g: "((arc_sel a)(i := c)) g = arc_sel a g" "(K(i := butlast (K i))) g = K g" using ig by simp_all
  obtain d as' h' where
    e: "evict_to_ghost ev b (arc_sel a g) h1 = Some (d, h')" "same_shell (arc_sel a g) d"
      "arc_rep h' ((arc_sel a)(i := c, g := d)) (A(i := as, g := as')) (al_demote (arc_capacity a) i g K) N"
      "keeps_pairs N h1 h'"
      "moves (arc_total ((arc_sel a)(i := c)) (A(i := as)) (insert b N))
         (arc_total ((arc_sel a)(i := c, g := d)) (A(i := as, g := as')) N) (logged ev [(k, v)]) h1 h'"
    using evict_to_ghost_spec [OF r(3,6) r(4) [unfolded kv] k, of ev, unfolded g o(3)]
    unfolding al_demote_def kv by metis
  show ?thesis
    by (rule that [OF r(1) e(1,3) r(2) e(2)]) (use keeps_pairs_trans [OF r(5) e(4)] moves_trans [OF r(7) e(5)] kv in simp_all)
qed

lemma arc_replace_spec:
  assumes ok: "arc_ok h a A K N"
  obtains a' h' where "arc_replace a fck h = Some (a', h')" and "same_arc a a'"
    and "arc_result h a A N (fst (al_replace (arc_capacity a) (arc_p a) fck K)) N
           (snd (al_replace (arc_capacity a) (arc_p a) fck K)) a' h'"
    and "keeps_pairs N h h'"
proof -
  note result = that
  note o = arc_okD [OF ok]
  have len: "lru_len (arc_recent a) = length (K Recent)" "lru_len (arc_frequent a) = length (K Frequent)"
    using o(7) [of Recent] o(7) [of Frequent] by simp_all
  have stay: ?thesis if "arc_replace a fck h = Some (a, h)" "al_replace (arc_capacity a) (arc_p a) fck K = (K, [])"
    using that(1) moves_refl [OF arc_repD(1) [OF o(1)] arc_rep_total [OF o(1)]] ok
    by (intro result [of a h]) (auto simp: arc_result_def that(2) keeps_pairs_def)
  have demote: ?thesis if i: "K i \<noteq> []" "i \<noteq> g" and spec: "al_replace (arc_capacity a) (arc_p a) fck K = (al_demote (arc_capacity a) i g K, [last (K i)])"
    and run: "\<And>b c d h1 h'. remove_lru_node (arc_sel a i) h = Some (Some b, c, h1) \<Longrightarrow>
       evict_to_ghost (arc_on_evict a) b (arc_sel a g) h1 = Some (d, h') \<Longrightarrow>
       \<exists>a'. arc_replace a fck h = Some (a', h') \<and> same_arc a a' \<and> arc_sel a' = (arc_sel a)(i := c, g := d)" for i g
  proof -
    obtain b c d A' h1 h' where
      s: "remove_lru_node (arc_sel a i) h = Some (Some b, c, h1)" "evict_to_ghost (arc_on_evict a) b (arc_sel a g) h1 = Some (d, h')"
        "arc_rep h' ((arc_sel a)(i := c, g := d)) A' (al_demote (arc_capacity a) i g K) N"
        "same_shell (arc_sel a i) c" "same_shell (arc_sel a g) d" "keeps_pairs N h h'"
        "moves (arc_total (arc_sel a) A N) (arc_total ((arc_sel a)(i := c, g := d)) A' N)
           (logged (arc_on_evict a) [last (K i)]) h h'" using arc_demote_spec [OF ok i] by metis
    from run [OF s(1,2)] obtain a' where a': "arc_replace a fck h = Some (a', h')" "same_arc a a'"
      "arc_sel a' = (arc_sel a)(i := c, g := d)" by blast
    have "apart (al_demote (arc_capacity a) i g K)" by (rule demote_keys(1) [OF o(2) i(1) o(6) i(2)])
    then have "arc_ok h' a' A' (al_demote (arc_capacity a) i g K) N"
      using s(3-5) o(3,4) a'(2) unfolding arc_ok_def a'(3) same_arc_def same_shell_def by auto
    then have "arc_result h a A N (al_demote (arc_capacity a) i g K) N [last (K i)] a' h'"
      unfolding arc_result_def using s(7) a'(3) by auto
    then show ?thesis using result [OF a'(1,2)] s(6) spec by simp
  qed
  show ?thesis
  proof (cases "length (K Recent) + length (K Frequent) < arc_capacity a")
    case True
    then show ?thesis by (intro stay) (simp_all add: arc_replace_def al_replace_def len)
  next
    case full: False
    show ?thesis
    proof (cases "K Recent \<noteq> [] \<and> (arc_p a < length (K Recent) \<or> length (K Recent) = arc_p a \<and> fck)")
      case True
      then show ?thesis
        using full by (intro demote [of Recent RecentEvict]) (auto simp: arc_replace_def al_replace_def len same_arc_def)
    next
      case nr: False
      show ?thesis
      proof (cases "K Frequent = []")
        case True
        then show ?thesis
          using full nr by (intro stay) (auto simp: arc_replace_def al_replace_def len)
      next
        case False
        then show ?thesis
          using full nr by (intro demote [of Frequent FrequentEvict])
            (auto simp: arc_replace_def al_replace_def len same_arc_def)
      qed
    qed
  qed
qed


lemma arc_result_trans:
  assumes "arc_result h a A N K1 N1 l1 a1 h1" and "arc_on_evict a1 = arc_on_evict a"
    and "\<And>A1. arc_ok h1 a1 A1 K1 N1 \<Longrightarrow> arc_result h1 a1 A1 N1 K2 N2 l2 a2 h2"
  shows "arc_result h a A N K2 N2 (l1 @ l2) a2 h2"
proof -
  from assms(1) obtain A1 where 1: "arc_ok h1 a1 A1 K1 N1"
    "moves (arc_total (arc_sel a) A N) (arc_total (arc_sel a1) A1 N1) (logged (arc_on_evict a) l1) h h1"
    by (auto simp: arc_result_def)
  from assms(3) [OF 1(1)] obtain A2 where 2: "arc_ok h2 a2 A2 K2 N2"
    "moves (arc_total (arc_sel a1) A1 N1) (arc_total (arc_sel a2) A2 N2) (logged (arc_on_evict a) l2) h1 h2"
    using assms(2) by (auto simp: arc_result_def)
  show ?thesis
    unfolding arc_result_def using 2(1) moves_trans [OF 1(2) 2(2)] by auto
qed

lemma arc_set_val:
  assumes ok: "arc_ok h a A K {n}" and n: "pair_at h n = Some (k, v)"
  obtains h' where "set_val n w h = Some h'" and "arc_ok h' a A K {n}" and "pair_at h' n = Some (k, w)"
    and "moves (arc_total (arc_sel a) A {n}) (arc_total (arc_sel a) A {n}) [] h h'"
proof -
  note r = arc_okD(1) [OF ok]
  from n obtain e where e: "cells h n = Some e" "e_key e = Some k" "e_val e = Some v"
    by (auto simp: pair_at_Some key_ref_def val_ref_def split: bind_splits)
  let ?h' = "h\<lparr>cells := (cells h)(n \<mapsto> e\<lparr>e_val := Some w\<rparr>)\<rparr>"
  have m: "moves {n} {n} [] h ?h'"
    using arc_repD(1) [OF r] e by (auto simp: moves_def heap_ok_def)
  note l = arc_rep_loose [OF r m]
  have "arc_ok ?h' a A K {n}" using l(1) ok by (simp add: arc_ok_def)
  moreover have "set_val n w h = Some ?h'" using e by (simp add: set_val_def)
  moreover have "pair_at ?h' n = Some (k, w)" using e by (simp add: pair_at_Some key_ref_def val_ref_def)
  ultimately show ?thesis using that l(2) by blast
qed

lemma apart_upd:
  assumes "apart K" and "\<And>j. j \<noteq> i \<Longrightarrow> keys (K j) \<inter> keys kvs = {}"
  shows "apart (K(i := kvs))"
  unfolding apart_def
proof (intro allI impI)
  fix j l :: arc_list assume "j \<noteq> l"
  moreover from this have "keys (K j) \<inter> keys (K l) = {}" using assms(1) by (simp add: apart_def)
  ultimately show "keys ((K(i := kvs)) j) \<inter> keys ((K(i := kvs)) l) = {}"
    using assms(2) [of j] assms(2) [of l] by (auto split: if_splits)
qed

lemma not_all_keys: "k \<notin> all_keys K \<longleftrightarrow> (\<forall>i. k \<notin> keys (K i))"
  by (simp add: all_keys_def)

lemma apart_cons: "apart K \<Longrightarrow> k \<notin> all_keys K \<Longrightarrow> apart (K(i := (k, v) # K i))"
  by (rule apart_upd) (auto simp: apart_def not_all_keys)

lemma promote_room: "\<not> (cap \<le> length (K Frequent) \<and> K Frequent \<noteq> []) \<Longrightarrow>
    al_promote cap e K = (K(Frequent := e # K Frequent), [])"
  unfolding al_promote_def by simp

lemma promote_full: "cap \<le> length (K Frequent) \<Longrightarrow> K Frequent \<noteq> [] \<Longrightarrow>
    al_promote cap e K = ((al_demote cap Frequent FrequentEvict K)(Frequent := e # butlast (K Frequent)), [last (K Frequent)])"
  by (simp add: al_promote_def al_demote_def fun_upd_twist)

lemma promote_keys:
  assumes "apart K" and "distinct (map fst (K Frequent))" and "k \<notin> all_keys K"
  shows "apart (fst (al_promote cap (k, v) K))"
proof (cases "cap \<le> length (K Frequent) \<and> K Frequent \<noteq> []")
  case False
  show ?thesis unfolding promote_room [of cap K "(k, v)", OF False] fst_conv by (rule apart_cons [OF assms(1,3)])
next
  case True
  let ?K = "al_demote cap Frequent FrequentEvict K"
  have "apart ?K" "all_keys ?K \<subseteq> all_keys K"
    using demote_keys [OF assms(1) _ assms(2), of FrequentEvict cap] True by simp_all
  then have "apart (?K(Frequent := (k, v) # ?K Frequent))"
    using assms(3) by (intro apart_cons) auto
  moreover have "?K Frequent = butlast (K Frequent)" by (simp add: al_demote_def)
  ultimately show ?thesis using True by (simp add: promote_full)
qed

lemma arc_promote_spec:
  assumes ok: "arc_ok h a A K {n}" and n: "pair_at h n = Some (k, v)" and k: "k \<notin> all_keys K"
  obtains a' h' where "arc_promote a n h = Some (a', h')" and "same_arc a a'"
    and "arc_result h a A {n} (fst (al_promote (arc_capacity a) (k, v) K)) {}
           (snd (al_promote (arc_capacity a) (k, v) K)) a' h'"
proof -
  let ?cap = "arc_capacity a" and ?F = "arc_frequent a"
  note o = arc_okD [OF ok]
  have ap: "apart (fst (al_promote ?cap (k, v) K))" by (rule promote_keys [OF o(2,6) k])
  have cap: "lru_capacity ?F = ?cap" using o(3) [of Frequent] by simp
  have rep: "arc_rep h (arc_sel a) A K (insert n {})" and nN: "n \<notin> {}" using o(1) by simp_all
  have kF: "k \<notin> fst ` set (K Frequent)" using k by (simp add: not_all_keys)
  from rep nN n kF show ?thesis
  proof (cases rule: arc_put_node_spec [where i = Frequent])
    case (Kept c as h')
    let ?a = "a\<lparr>arc_frequent := c\<rparr>"
    have spec: "al_promote ?cap (k, v) K = (K(Frequent := (k, v) # K Frequent), [])"
      by (rule promote_room) (use Kept(1) cap in auto)
    have "arc_ok h' ?a (A(Frequent := as)) (fst (al_promote ?cap (k, v) K)) {}"
      by (rule arc_ok_upd [OF ok, of _ Frequent c]) (use Kept(3,4) spec ap in simp_all)
    moreover have "arc_promote a n h = Some (?a, h')" using Kept(2) by (simp add: arc_promote_def)
    ultimately show ?thesis
      using Kept(6) spec by (intro that [of ?a h']) (auto simp: arc_result_def)
  next
    case (Evicted b c as h1)
    obtain k1 v1 where e: "last (K Frequent) = (k1, v1)" by (cases "last (K Frequent)")
    have "k1 \<in> keys (K Frequent)" using last_key [OF Evicted(2)] e by simp
    then have k1: "k1 \<notin> fst ` set ((K(Frequent := (k, v) # butlast (K Frequent))) FrequentEvict)"
      using o(2) unfolding apart_def by auto
    have g0: "((arc_sel a)(Frequent := c)) FrequentEvict = arc_frequent_evict a"
      "(K(Frequent := (k, v) # butlast (K Frequent))) FrequentEvict = K FrequentEvict" by simp_all
    have cap': "lru_capacity (arc_frequent_evict a) = ?cap" using o(3) [of FrequentEvict] by simp
    obtain d as' h' where g: "evict_to_ghost (arc_on_evict a) b (arc_frequent_evict a) h1 = Some (d, h')"
      "same_shell (arc_frequent_evict a) d"
      "arc_rep h' ((arc_sel a)(Frequent := c, FrequentEvict := d)) (A(Frequent := as, FrequentEvict := as'))
         (K(Frequent := (k, v) # butlast (K Frequent), FrequentEvict := al_push ?cap (k1, v1) (K FrequentEvict))) {}"
      "moves (arc_total ((arc_sel a)(Frequent := c)) (A(Frequent := as)) {b})
         (arc_total ((arc_sel a)(Frequent := c, FrequentEvict := d)) (A(Frequent := as, FrequentEvict := as')) {})
         (logged (arc_on_evict a) [(k1, v1)]) h1 h'"
      using evict_to_ghost_spec [OF Evicted(5,7) Evicted(6) [unfolded e] k1, of "arc_on_evict a", unfolded g0 cap'] by metis
    let ?a = "a\<lparr>arc_frequent := c, arc_frequent_evict := d\<rparr>"
    have spec: "al_promote ?cap (k, v) K =
        (K(Frequent := (k, v) # butlast (K Frequent), FrequentEvict := al_push ?cap (k1, v1) (K FrequentEvict)), [(k1, v1)])"
      using Evicted(1,2) cap e by (simp add: al_promote_def)
    have "arc_ok h' ?a (A(Frequent := as, FrequentEvict := as')) (fst (al_promote ?cap (k, v) K)) {}"
      using g(2,3) Evicted(4) o(3,4) [of Frequent] o(3,4) [of FrequentEvict] o(3,4) ap
      unfolding arc_ok_def spec same_shell_def by simp
    moreover have "arc_promote a n h = Some (?a, h')" using Evicted(3) g(1) by (simp add: arc_promote_def)
    moreover have "moves (arc_total (arc_sel a) A {n}) (arc_total (arc_sel ?a) (A(Frequent := as, FrequentEvict := as')) {})
        (logged (arc_on_evict a) [(k1, v1)]) h h'"
      using moves_trans [OF Evicted(9) g(4)] by simp
    ultimately show ?thesis
      using spec by (intro that [of ?a h']) (auto simp: arc_result_def same_arc_def)
  qed
qed

end
