(* ===== verification/Arc_System.thy ===== *)
theory Arc_System
  imports Arc_Refine
begin

text \<open>
  The operations of the adaptive cache against their specification on the four lists, the bounds that
  every operation keeps, and the caches that a program can reach.
\<close>

subsection \<open>Insertion\<close>

definition al_arc_put :: "usize \<Rightarrow> usize \<Rightarrow> 'k \<Rightarrow> 'v \<Rightarrow> ('k, 'v) arc_lists \<Rightarrow> usize \<times> ('k, 'v) arc_lists \<times> ('k \<times> 'v) list" where
  "al_arc_put cap p k v K =
     (if k \<in> keys (K Recent)
      then (p, al_promote cap (k, v) (K(Recent := bt_remove k (K Recent))))
      else if k \<in> keys (K Frequent)
      then (p, K(Frequent := (k, v) # bt_remove k (K Frequent)), [])
      else if k \<in> keys (K RecentEvict)
      then let K1 = K(RecentEvict := bt_remove k (K RecentEvict));
               p1 = min cap (p + max 1 (length (K1 FrequentEvict) div max (length (K1 RecentEvict)) 1));
               (K2, l2) = al_replace cap p1 False K1; (K3, l3) = al_promote cap (k, v) K2
           in (p1, K3, l2 @ l3)
      else if k \<in> keys (K FrequentEvict)
      then let K1 = K(FrequentEvict := bt_remove k (K FrequentEvict));
               p1 = saturating_sub p (max 1 (length (K1 RecentEvict) div max (length (K1 FrequentEvict)) 1));
               (K2, l2) = al_replace cap p1 True K1; (K3, l3) = al_promote cap (k, v) K2
           in (p1, K3, l2 @ l3)
      else let (K1, l1) = al_replace cap p False K
           in (p, K1(Recent := snd (al_put cap k v (K1 Recent))), l1))"

definition arc_inv :: "usize \<Rightarrow> usize \<Rightarrow> ('k, 'v) arc_lists \<Rightarrow> bool" where
  "arc_inv cap p K \<longleftrightarrow> p \<le> cap \<and> (\<forall>i. length (K i) \<le> max 1 cap)
     \<and> length (K Recent) + length (K Frequent) \<le> Suc cap"

lemma arc_take:
  assumes ok: "arc_ok h a A K {}"
  obtains (Absent) "k \<notin> keys (K i)" and "remove_node (arc_sel a i) k h = Some (None, arc_sel a i, h)"
  | (Node) n v c A' h' where "k \<in> keys (K i)" and "map_of (K i) k = Some v"
      and "remove_node (arc_sel a i) k h = Some (Some n, c, h')" and "pair_at h' n = Some (k, v)"
      and "k \<notin> all_keys (K(i := bt_remove k (K i)))" and "lru_capacity c = arc_capacity a"
      and "\<And>b. arc_sel b = (arc_sel a)(i := c) \<Longrightarrow> arc_capacity b = arc_capacity a \<Longrightarrow>
             arc_ok h' b A' (K(i := bt_remove k (K i))) {n}
             \<and> moves (arc_total (arc_sel a) A {}) (arc_total (arc_sel b) A' {n}) [] h h'"
  using arc_okD(1) [OF ok]
proof (cases rule: arc_remove_node_spec [where i = i and k = k])
  case Absent
  then show ?thesis by (rule that(1))
next
  case (Node n v as h')
  note o = arc_okD [OF ok]
  let ?K = "K(i := bt_remove k (K i))" and ?c = "map_drop k (arc_sel a i)"
  have ki: "k \<in> keys (K i)" using Node(1) by (metis fst_conv image_eqI map_of_SomeD)
  have sub: "keys (bt_remove k (K i)) \<subseteq> keys (K i) - {k}" by (auto simp: bt_remove_def)
  have ap: "apart ?K" by (rule apart_sub [OF o(2)]) (use sub in auto)
  have kj: "k \<notin> keys (K j)" if "j \<noteq> i" for j
    using o(2) ki that unfolding apart_def by blast
  have notin: "k \<notin> all_keys ?K" unfolding not_all_keys using sub kj by auto
  show ?thesis
  proof (rule that(2) [OF ki Node(1,2,4) notin])
    show "lru_capacity ?c = arc_capacity a" using o(3) [of i] by simp
    fix b assume b: "arc_sel b = (arc_sel a)(i := ?c)" "arc_capacity b = arc_capacity a"
    show "arc_ok h' b (A(i := as)) ?K {n}
        \<and> moves (arc_total (arc_sel a) A {}) (arc_total (arc_sel b) (A(i := as)) {n}) [] h h'"
      using arc_ok_upd [OF ok b, of h' "A(i := as)" ?K "{n}"] Node(3,5) ap b by simp
  qed
qed

lemma arc_result_ok: "arc_ok h' b A' K' N' \<Longrightarrow> moves (arc_total (arc_sel a) A N) (arc_total (arc_sel b) A' N') [] h h' \<Longrightarrow>
    arc_result h a A N K' N' [] b h'"
  by (auto simp: arc_result_def)

lemma arc_result_seq:
  assumes "moves (arc_total (arc_sel a) A N) (arc_total (arc_sel b) A' M) [] h h1"
    and "arc_result h1 b A' M K N' l a' h'" and "arc_on_evict b = arc_on_evict a"
  shows "arc_result h a A N K N' l a' h'"
  using assms(2,3) moves_trans [OF assms(1)] unfolding arc_result_def by fastforce

lemma arc_resultE:
  assumes "arc_result h a A N K' N' l a' h'"
  obtains A' where "arc_ok h' a' A' K' N'"
    and "moves (arc_total (arc_sel a) A N) (arc_total (arc_sel a') A' N') (logged (arc_on_evict a) l) h h'"
  using assms by (auto simp: arc_result_def)

lemma al_replace_keys:
  assumes "apart K" and "\<And>i. distinct (map fst (K i))"
  shows "all_keys (fst (al_replace cap p fck K)) \<subseteq> all_keys K"
  using demote_keys(2) [OF assms(1) _ assms(2), of Recent RecentEvict cap]
    demote_keys(2) [OF assms(1) _ assms(2), of Frequent FrequentEvict cap]
  by (simp add: al_replace_def)

lemma transfer_spec:
  assumes ok: "arc_ok h a A K {n}" and n: "pair_at h n = Some (k, v)" and k: "k \<notin> all_keys K"
    and r: "al_replace (arc_capacity a) (arc_p a) fck K = (K1, l1)"
    and pr: "al_promote (arc_capacity a) (k, v) K1 = (K2, l2)"
  obtains a' h' where "transfer_ghost_to_frequent a n fck h = Some (a', h')" and "same_arc a a'"
    and "arc_result h a A {n} K2 {} (l1 @ l2) a' h'"
proof -
  obtain a1 h1 where 1: "arc_replace a fck h = Some (a1, h1)" "same_arc a a1" "arc_result h a A {n} K1 {n} l1 a1 h1"
    "keeps_pairs {n} h h1"
    using arc_replace_spec [OF ok, of fck, unfolded r fst_conv snd_conv] by metis
  from 1(3) obtain A1 where ok1: "arc_ok h1 a1 A1 K1 {n}" by (rule arc_resultE)
  have n1: "pair_at h1 n = Some (k, v)" using 1(4) n by (simp add: keeps_pairs_def)
  have k1: "k \<notin> all_keys K1"
    using al_replace_keys [OF arc_okD(2,6) [OF ok], of "arc_capacity a" "arc_p a" fck] r k by auto
  have cap: "arc_capacity a1 = arc_capacity a" "arc_on_evict a1 = arc_on_evict a"
    using 1(2) by (simp_all add: same_arc_def)
  obtain a2 h2 where 2: "arc_promote a1 n h1 = Some (a2, h2)" "same_arc a1 a2"
    using arc_promote_spec [OF ok1 n1 k1] by metis
  have "arc_result h1 a1 B {n} K2 {} l2 a2 h2" if "arc_ok h1 a1 B K1 {n}" for B
    using arc_promote_spec [OF that n1 k1, unfolded cap pr fst_conv snd_conv] 2(1) by auto
  from arc_result_trans [OF 1(3) cap(2) this] have "arc_result h a A {n} K2 {} (l1 @ l2) a2 h2" .
  then show ?thesis
    using that [of a2 h2] 1(1,2) 2 by (simp add: transfer_ghost_to_frequent_def same_arc_def)
qed


text \<open>The five cases of \<open>put\<close>, each for a node that has been taken out of its list.\<close>

lemma put_promote:
  assumes ok: "arc_ok h a A K {n}" and n: "pair_at h n = Some (k, old)" and k: "k \<notin> all_keys K"
  obtains h1 a' h' where "set_val n v h = Some h1" and "arc_promote a n h1 = Some (a', h')" and "same_arc a a'"
    and "arc_result h a A {n} (fst (al_promote (arc_capacity a) (k, v) K)) {}
          (snd (al_promote (arc_capacity a) (k, v) K)) a' h'"
proof -
  from arc_set_val [OF ok n, of v] obtain h1 where 1: "set_val n v h = Some h1" "arc_ok h1 a A K {n}"
    "pair_at h1 n = Some (k, v)" "moves (arc_total (arc_sel a) A {n}) (arc_total (arc_sel a) A {n}) [] h h1" .
  from arc_promote_spec [OF 1(2,3) k] obtain a' h' where 2: "arc_promote a n h1 = Some (a', h')" "same_arc a a'"
    "arc_result h1 a A {n} (fst (al_promote (arc_capacity a) (k, v) K)) {}
          (snd (al_promote (arc_capacity a) (k, v) K)) a' h'" .
  from 2(3) obtain A' where "arc_ok h' a' A' (fst (al_promote (arc_capacity a) (k, v) K)) {}"
    "moves (arc_total (arc_sel a) A {n}) (arc_total (arc_sel a') A' {})
       (logged (arc_on_evict a) (snd (al_promote (arc_capacity a) (k, v) K))) h1 h'" by (rule arc_resultE)
  then show ?thesis
    using that [OF 1(1) 2(1,2)] moves_trans [OF 1(4)] unfolding arc_result_def by fastforce
qed

lemma put_transfer:
  assumes ok: "arc_ok h a A K {n}" and n: "pair_at h n = Some (k, old)" and k: "k \<notin> all_keys K"
    and r: "al_replace (arc_capacity a) p fck K = (K1, l1)"
    and pr: "al_promote (arc_capacity a) (k, v) K1 = (K2, l2)"
  obtains h1 a' h' where "set_val n v h = Some h1"
    and "transfer_ghost_to_frequent (a\<lparr>arc_p := p\<rparr>) n fck h1 = Some (a', h')" and "same_arc (a\<lparr>arc_p := p\<rparr>) a'"
    and "arc_result h a A {n} K2 {} (l1 @ l2) a' h'"
proof -
  let ?a = "a\<lparr>arc_p := p\<rparr>"
  have ok': "arc_ok h ?a A K {n}" using ok by (simp add: arc_ok_def)
  from arc_set_val [OF ok' n, of v] obtain h1 where 1: "set_val n v h = Some h1" "arc_ok h1 ?a A K {n}"
    "pair_at h1 n = Some (k, v)" "moves (arc_total (arc_sel ?a) A {n}) (arc_total (arc_sel ?a) A {n}) [] h h1" .
  have "al_replace (arc_capacity ?a) (arc_p ?a) fck K = (K1, l1)" "al_promote (arc_capacity ?a) (k, v) K1 = (K2, l2)"
    using r pr by simp_all
  from transfer_spec [OF 1(2,3) k this] obtain a' h' where
    2: "transfer_ghost_to_frequent ?a n fck h1 = Some (a', h')" "same_arc ?a a'" "arc_result h1 ?a A {n} K2 {} (l1 @ l2) a' h'" .
  from 2(3) obtain A' where "arc_ok h' a' A' K2 {}"
    "moves (arc_total (arc_sel a) A {n}) (arc_total (arc_sel a') A' {}) (logged (arc_on_evict a) (l1 @ l2)) h1 h'"
    by (auto elim: arc_resultE)
  then show ?thesis
    using that [OF 1(1) 2(1,2)] moves_trans [of _ _ "[]"] 1(4) unfolding arc_result_def by fastforce
qed

lemma put_recent_new:
  assumes ok: "arc_ok h a A K {}" and k: "k \<notin> all_keys K"
    and r: "al_replace (arc_capacity a) (arc_p a) False K = (K1, l1)"
  obtains a' h' where "arc_put_new a k v h = Some (a', h')" and "same_arc a a'"
    and "arc_result h a A {} (K1(Recent := snd (al_put (arc_capacity a) k v (K1 Recent)))) {} l1 a' h'"
proof -
  obtain a1 h1 where 1: "arc_replace a False h = Some (a1, h1)" "same_arc a a1" "arc_result h a A {} K1 {} l1 a1 h1"
    using arc_replace_spec [OF ok, of False, unfolded r fst_conv snd_conv] by metis
  have cap: "arc_capacity a1 = arc_capacity a" "arc_on_evict a1 = arc_on_evict a"
    using 1(2) by (simp_all add: same_arc_def)
  from 1(3) obtain A1 where A1: "arc_ok h1 a1 A1 K1 {}"
    "moves (arc_total (arc_sel a) A {}) (arc_total (arc_sel a1) A1 {}) (logged (arc_on_evict a) l1) h h1" by (rule arc_resultE)
  note o = arc_okD [OF A1(1)]
  let ?kvs = "snd (al_put (arc_capacity a) k v (K1 Recent))" and ?r = "fst (al_put (arc_capacity a) k v (K1 Recent))"
  have lc: "lru_capacity (arc_recent a1) = arc_capacity a" "lru_on_evict (arc_recent a1) = NoOpEvict"
    using o(3,4) [of Recent] cap by simp_all
  obtain c as h2 where 2: "lru_put (arc_recent a1) k v h1 = Some (?r, c, h2)" "lru_rep h2 c as ?kvs"
    "same_shell (arc_recent a1) c" "moves (footprint (arc_recent a1) (A1 Recent)) (footprint c as) [] h1 h2"
    using lru_put_refines [OF o(5) [of Recent] arc_repD(1) [OF o(1)], of k v] lc by (auto simp: al_evicts_def)
  have m: "moves (footprint (arc_sel a1 Recent) (A1 Recent) \<union> {}) (footprint c as \<union> {}) [] h1 h2" using 2(4) by simp
  note s = arc_rep_step [OF o(1) m 2(2)]
  have k1: "k \<notin> all_keys K1"
    using al_replace_keys [OF arc_okD(2,6) [OF ok], of "arc_capacity a" "arc_p a" False] r k by auto
  have "keys ?kvs \<subseteq> insert k (keys (K1 Recent))"
    using butlast_keys [of "K1 Recent"] by (auto simp: al_put_def bt_remove_def split: option.splits)
  note sub = this
  have ap: "apart (K1(Recent := ?kvs))"
  proof (rule apart_upd [OF o(2)])
    fix j :: arc_list assume "j \<noteq> Recent"
    then have "keys (K1 j) \<inter> keys (K1 Recent) = {}" "k \<notin> keys (K1 j)"
      using o(2) k1 by (simp_all add: apart_def not_all_keys)
    then show "keys (K1 j) \<inter> keys ?kvs = {}" using sub by blast
  qed
  let ?a = "a1\<lparr>arc_recent := c\<rparr>"
  have "arc_ok h2 ?a (A1(Recent := as)) (K1(Recent := ?kvs)) {}"
    by (rule arc_ok_upd [OF A1(1), of _ Recent c]) (use s(1) 2(3) ap in simp_all)
  moreover have "moves (arc_total (arc_sel a) A {}) (arc_total (arc_sel ?a) (A1(Recent := as)) {})
      (logged (arc_on_evict a) l1) h h2"
    using moves_trans [OF A1(2) s(2)] by simp
  ultimately have "arc_result h a A {} (K1(Recent := ?kvs)) {} l1 ?a h2"
    unfolding arc_result_def by blast
  moreover have "arc_put_new a k v h = Some (?a, h2)" using 1(1) 2(1) by (simp add: arc_put_new_def)
  ultimately show ?thesis using that 1(2) by (simp add: same_arc_def)
qed


text \<open>The value of the case analysis once it is known which list holds the key.\<close>

lemma arc_put_recent:
  "remove_node (arc_recent a) k h = Some (Some n, r, h1) \<Longrightarrow>
   arc_put a k v h = do { h2 \<leftarrow> set_val n v h1; arc_promote (a\<lparr>arc_recent := r\<rparr>) n h2 }"
  by (simp add: arc_put_def)

lemma arc_put_frequent:
  "remove_node (arc_recent a) k h = Some (None, r, h) \<Longrightarrow> remove_node (arc_frequent a) k h = Some (Some n, f, h1) \<Longrightarrow>
   arc_put a k v h = do { h2 \<leftarrow> set_val n v h1; (_, f', h3) \<leftarrow> put_node f n h2; Some (a\<lparr>arc_frequent := f'\<rparr>, h3) }"
  by (simp add: arc_put_def)

lemma arc_put_recent_evict:
  "remove_node (arc_recent a) k h = Some (None, r, h) \<Longrightarrow> remove_node (arc_frequent a) k h = Some (None, f, h) \<Longrightarrow>
   remove_node (arc_recent_evict a) k h = Some (Some n, re, h1) \<Longrightarrow>
   arc_put a k v h = arc_put_recent_ghost (a\<lparr>arc_recent_evict := re\<rparr>) n v h1"
  by (simp add: arc_put_def)

lemma arc_put_frequent_evict:
  "remove_node (arc_recent a) k h = Some (None, r, h) \<Longrightarrow> remove_node (arc_frequent a) k h = Some (None, f, h) \<Longrightarrow>
   remove_node (arc_recent_evict a) k h = Some (None, re, h) \<Longrightarrow> remove_node (arc_frequent_evict a) k h = Some (Some n, fe, h1) \<Longrightarrow>
   arc_put a k v h = arc_put_frequent_ghost (a\<lparr>arc_frequent_evict := fe\<rparr>) n v h1"
  by (simp add: arc_put_def)

lemma arc_put_absent:
  "remove_node (arc_recent a) k h = Some (None, r, h) \<Longrightarrow> remove_node (arc_frequent a) k h = Some (None, f, h) \<Longrightarrow>
   remove_node (arc_recent_evict a) k h = Some (None, re, h) \<Longrightarrow> remove_node (arc_frequent_evict a) k h = Some (None, fe, h) \<Longrightarrow>
   arc_put a k v h = arc_put_new a k v h"
  by (simp add: arc_put_def)

lemma div_max_le: "m div max n 1 \<le> (m :: nat)"
  by simp

lemma delta_bound:
  assumes "arc_inv cap p K" and "cap \<le> 9223372036854775807"
  shows "p + max 1 (length (K i) div max m 1) \<le> usize_max"
proof -
  have "length (K i) \<le> max 1 cap" "p \<le> cap" using assms(1) by (simp_all add: arc_inv_def)
  have "length (K i) div max m 1 \<le> max 1 cap"
    by (rule order_trans [OF div_max_le]) fact
  then have "max 1 (length (K i) div max m 1) \<le> max 1 cap" by (simp only: max.bounded_iff) simp
  then show ?thesis using \<open>p \<le> cap\<close> assms(2) by linarith
qed

theorem arc_put_refines:
  assumes ok: "arc_ok h a A K {}" and inv: "arc_inv (arc_capacity a) (arc_p a) K"
    and cap: "arc_capacity a \<le> 9223372036854775807"
    and spec: "al_arc_put (arc_capacity a) (arc_p a) k v K = (p', K', l)"
  shows "\<exists>a' h'. arc_put a k v h = Some (a', h') \<and> arc_p a' = p' \<and> arc_capacity a' = arc_capacity a
     \<and> arc_on_evict a' = arc_on_evict a \<and> arc_result h a A {} K' {} l a' h'"
  using ok
proof (cases rule: arc_take [where i = Recent and k = k])
  case (Node n old c A' h1)
  let ?a = "a\<lparr>arc_recent := c\<rparr>" and ?K = "K(Recent := bt_remove k (K Recent))"
  have b: "arc_ok h1 ?a A' ?K {n}" "moves (arc_total (arc_sel a) A {}) (arc_total (arc_sel ?a) A' {n}) [] h h1"
    using Node(7) [of ?a] by simp_all
  from put_promote [OF b(1) Node(4,5), of v] obtain h2 a' h' where
    p: "set_val n v h1 = Some h2" "arc_promote ?a n h2 = Some (a', h')" "same_arc ?a a'"
      "arc_result h1 ?a A' {n} (fst (al_promote (arc_capacity a) (k, v) ?K)) {}
          (snd (al_promote (arc_capacity a) (k, v) ?K)) a' h'" by auto
  have "arc_put a k v h = Some (a', h')"
    using Node(3) p(1,2) by (simp add: arc_put_recent)
  moreover have "p' = arc_p a" "fst (al_promote (arc_capacity a) (k, v) ?K) = K'" "snd (al_promote (arc_capacity a) (k, v) ?K) = l"
    using spec Node(1) by (simp_all add: al_arc_put_def)
  moreover have "arc_result h a A {} K' {} l a' h'"
        by (rule arc_result_seq [OF b(2)]) (use p(4) calculation in auto)
  ultimately show ?thesis using p(3) by (auto simp: same_arc_def)
next
  case 1: Absent
  from ok show ?thesis
  proof (cases rule: arc_take [where i = Frequent and k = k])
    case (Node n old c A' h1)
    let ?a = "a\<lparr>arc_frequent := c\<rparr>" and ?K = "K(Frequent := bt_remove k (K Frequent))"
    have b: "arc_ok h1 ?a A' ?K {n}" "moves (arc_total (arc_sel a) A {}) (arc_total (arc_sel ?a) A' {n}) [] h h1"
      using Node(7) [of ?a] by simp_all
    from arc_set_val [OF b(1) Node(4), of v] obtain h2 where 2: "set_val n v h1 = Some h2" "arc_ok h2 ?a A' ?K {n}"
      "pair_at h2 n = Some (k, v)" "moves (arc_total (arc_sel ?a) A' {n}) (arc_total (arc_sel ?a) A' {n}) [] h1 h2" .
    note o = arc_okD [OF 2(2)]
    have rep: "arc_rep h2 (arc_sel ?a) A' ?K (insert n {})" "n \<notin> {}" using o(1) by simp_all
    have kF: "k \<notin> fst ` set (?K Frequent)" using Node(5) unfolding not_all_keys by blast
    have lt: "length (?K Frequent) < length (K Frequent)"
    proof -
      obtain e where "e \<in> set (K Frequent)" "fst e = k" using Node(1) by auto
      then show ?thesis by (simp add: bt_remove_def length_filter_less)
    qed
    have room: "length (?K Frequent) < arc_capacity a \<or> ?K Frequent = []"
      using lt inv unfolding arc_inv_def by (metis (no_types, lifting) One_nat_def Suc_leI Suc_le_lessD
          less_Suc0 less_le_trans length_0_conv max_def not_less)
    from rep 2(3) kF show ?thesis
    proof (cases rule: arc_put_node_spec [where i = Frequent])
      case (Evicted b c' as h3)
      then show ?thesis using room o(3) [of Frequent] by simp
    next
      case (Kept c' as h3)
      let ?a' = "a\<lparr>arc_frequent := c'\<rparr>" and ?K' = "K(Frequent := (k, v) # bt_remove k (K Frequent))"
      note r4 = Kept(4) [unfolded fun_upd_same fun_upd_upd]
      have ap: "apart ?K'" using apart_cons [OF o(2) Node(5), of Frequent v, unfolded fun_upd_same fun_upd_upd] .
      have ok': "arc_ok h3 ?a' (A'(Frequent := as)) ?K' {}"
        by (rule arc_ok_upd [OF 2(2), of _ Frequent c'])
          (use Kept(3) r4 ap in simp_all)
      have "moves (arc_total (arc_sel a) A {}) (arc_total (arc_sel ?a') (A'(Frequent := as)) {}) [] h h3"
        using moves_trans [OF b(2) moves_trans [OF 2(4)]] Kept(6) by simp
      then have "arc_result h a A {} ?K' {} [] ?a' h3" by (rule arc_result_ok [OF ok'])
      moreover have "arc_put a k v h = Some (?a', h3)"
        using 1 Node(3) 2(1) Kept(2) by (simp add: arc_put_frequent)
      moreover have "p' = arc_p a" "K' = ?K'" "l = []"
        using spec Node(1) 1 by (simp_all add: al_arc_put_def)
      ultimately show ?thesis by auto
    qed
  next
    case 2: Absent
    from ok show ?thesis
    proof (cases rule: arc_take [where i = RecentEvict and k = k])
      case (Node n old c A' h1)
      let ?a = "a\<lparr>arc_recent_evict := c\<rparr>" and ?K = "K(RecentEvict := bt_remove k (K RecentEvict))"
      let ?d = "max 1 (length (K FrequentEvict) div max (length (bt_remove k (K RecentEvict))) 1)"
      let ?p = "min (arc_capacity a) (arc_p a + ?d)"
      have b: "arc_ok h1 ?a A' ?K {n}" "moves (arc_total (arc_sel a) A {}) (arc_total (arc_sel ?a) A' {n}) [] h h1"
        using Node(7) [of ?a] by simp_all
      obtain K2 l2 K3 l3 where r: "al_replace (arc_capacity a) ?p False ?K = (K2, l2)"
        and pr: "al_promote (arc_capacity a) (k, v) K2 = (K3, l3)" by fastforce
      from put_transfer [OF b(1) Node(4,5), of ?p False K2 l2 v K3 l3] r pr obtain h2 a' h' where
        t: "set_val n v h1 = Some h2" "transfer_ghost_to_frequent (?a\<lparr>arc_p := ?p\<rparr>) n False h2 = Some (a', h')"
          "same_arc (?a\<lparr>arc_p := ?p\<rparr>) a'" "arc_result h1 ?a A' {n} K3 {} (l2 @ l3) a' h'" by auto
      have len: "lru_len c = length (bt_remove k (K RecentEvict))" "lru_len (arc_frequent_evict a) = length (K FrequentEvict)"
        using arc_okD(7) [OF b(1), of RecentEvict] arc_okD(7) [OF b(1), of FrequentEvict] by simp_all
      have "arc_put a k v h = Some (a', h')"
        using 1 2 Node(3) t(1,2) delta_bound [OF inv cap, of FrequentEvict "length (bt_remove k (K RecentEvict))"]
        by (simp add: arc_put_recent_evict arc_put_recent_ghost_def len checked_add_def)
      moreover have "p' = ?p" "K' = K3" "l = l2 @ l3"
        using spec Node(1) 1 2 r pr by (simp_all add: al_arc_put_def Let_def)
      moreover have "arc_result h a A {} K' {} l a' h'"
        by (rule arc_result_seq [OF b(2)]) (use t(4) calculation in auto)
      ultimately show ?thesis using t(3) by (auto simp: same_arc_def)
    next
      case 3: Absent
      from ok show ?thesis
      proof (cases rule: arc_take [where i = FrequentEvict and k = k])
        case (Node n old c A' h1)
        let ?a = "a\<lparr>arc_frequent_evict := c\<rparr>" and ?K = "K(FrequentEvict := bt_remove k (K FrequentEvict))"
        let ?d = "max 1 (length (K RecentEvict) div max (length (bt_remove k (K FrequentEvict))) 1)"
        let ?p = "saturating_sub (arc_p a) ?d"
        have b: "arc_ok h1 ?a A' ?K {n}" "moves (arc_total (arc_sel a) A {}) (arc_total (arc_sel ?a) A' {n}) [] h h1"
          using Node(7) [of ?a] by simp_all
        obtain K2 l2 K3 l3 where r: "al_replace (arc_capacity a) ?p True ?K = (K2, l2)"
          and pr: "al_promote (arc_capacity a) (k, v) K2 = (K3, l3)" by fastforce
        from put_transfer [OF b(1) Node(4,5), of ?p True K2 l2 v K3 l3] r pr obtain h2 a' h' where
          t: "set_val n v h1 = Some h2" "transfer_ghost_to_frequent (?a\<lparr>arc_p := ?p\<rparr>) n True h2 = Some (a', h')"
            "same_arc (?a\<lparr>arc_p := ?p\<rparr>) a'" "arc_result h1 ?a A' {n} K3 {} (l2 @ l3) a' h'" by auto
        have len: "lru_len c = length (bt_remove k (K FrequentEvict))" "lru_len (arc_recent_evict a) = length (K RecentEvict)"
          using arc_okD(7) [OF b(1), of FrequentEvict] arc_okD(7) [OF b(1), of RecentEvict] by simp_all
        have "arc_put a k v h = Some (a', h')"
          using 1 2 3 Node(3) t(1,2) by (simp add: arc_put_frequent_evict arc_put_frequent_ghost_def len)
        moreover have "p' = ?p" "K' = K3" "l = l2 @ l3"
          using spec Node(1) 1 2 3 r pr by (simp_all add: al_arc_put_def Let_def)
        moreover have "arc_result h a A {} K' {} l a' h'"
        by (rule arc_result_seq [OF b(2)]) (use t(4) calculation in auto)
        ultimately show ?thesis using t(3) by (auto simp: same_arc_def)
      next
        case 4: Absent
        have "k \<notin> keys (K i)" for i using 1(1) 2(1) 3(1) 4(1) by (cases i) simp_all
        then have k: "k \<notin> all_keys K" by (simp add: not_all_keys)
        obtain K1 l1 where r: "al_replace (arc_capacity a) (arc_p a) False K = (K1, l1)" by fastforce
        from put_recent_new [OF ok k r, of v] obtain a' h' where n: "arc_put_new a k v h = Some (a', h')" "same_arc a a'"
          "arc_result h a A {} (K1(Recent := snd (al_put (arc_capacity a) k v (K1 Recent)))) {} l1 a' h'" .
        have "arc_put a k v h = Some (a', h')" using 1 2 3 4 n(1) by (simp add: arc_put_absent)
        moreover have "p' = arc_p a" "K' = K1(Recent := snd (al_put (arc_capacity a) k v (K1 Recent)))" "l = l1"
          using spec 1 2 3 4 r by (simp_all add: al_arc_put_def)
        ultimately show ?thesis using n(2,3) by (auto simp: same_arc_def)
      qed
    qed
  qed
qed

subsection \<open>Bounds\<close>

lemma al_push_length: "length kvs \<le> max 1 cap \<Longrightarrow> length (al_push cap e kvs) \<le> max 1 cap"
  by (cases kvs) (auto simp: al_push_def)

lemma al_put_length: "length kvs \<le> max 1 cap \<Longrightarrow> length (snd (al_put cap k v kvs)) \<le> max 1 cap"
  and al_put_grows: "length (snd (al_put cap k v kvs)) \<le> Suc (length kvs)"
proof -
  have le: "length (bt_remove k kvs) \<le> length kvs" by (simp add: bt_remove_def)
  then show "length (snd (al_put cap k v kvs)) \<le> Suc (length kvs)"
    by (auto simp: al_put_def split: option.splits)
  have "length (bt_remove k kvs) < length kvs" if "map_of kvs k = Some w" for w
  proof -
    have "(k, w) \<in> set kvs" using that by (rule map_of_SomeD)
    then show ?thesis unfolding bt_remove_def by (rule length_filter_less) simp
  qed
  then show "length (snd (al_put cap k v kvs)) \<le> max 1 cap" if "length kvs \<le> max 1 cap"
    using that by (cases kvs) (auto simp: al_put_def split: option.splits intro: Suc_leI less_le_trans)
qed

definition main_length :: "('k, 'v) arc_lists \<Rightarrow> nat" where
  "main_length K = length (K Recent) + length (K Frequent)"

definition fits :: "usize \<Rightarrow> ('k, 'v) arc_lists \<Rightarrow> bool" where
  "fits cap K \<longleftrightarrow> (\<forall>i. length (K i) \<le> max 1 cap)"

lemma fits_upd: "fits cap K \<Longrightarrow> length kvs \<le> max 1 cap \<Longrightarrow> fits cap (K(i := kvs))"
  by (simp add: fits_def)

lemma fitsD: "fits cap K \<Longrightarrow> length (K i) \<le> max 1 cap"
  by (simp add: fits_def)

lemma fits_demote: "fits cap K \<Longrightarrow> fits cap (al_demote cap i g K)"
  unfolding al_demote_def
proof (intro fits_upd)
  assume f: "fits cap K"
  then show "fits cap K" .
  show "length (butlast (K i)) \<le> max 1 cap" using fitsD [OF f, of i] by simp
  show "length (al_push cap (last (K i)) (K g)) \<le> max 1 cap" by (rule al_push_length [OF fitsD [OF f]])
qed

lemma al_replace_fits: "fits cap K \<Longrightarrow> fits cap (fst (al_replace cap p fck K))"
  unfolding al_replace_def by (simp only: fits_demote fst_conv split: if_split) simp

lemma al_replace_main:
  assumes "p \<le> cap" and "main_length K \<le> Suc cap"
  shows "main_length (fst (al_replace cap p fck K)) \<le> cap"
proof -
  have drop: "main_length (al_demote cap i g K) \<le> cap" if i: "i \<in> {Recent, Frequent}" "K i \<noteq> []" "g \<in> {RecentEvict, FrequentEvict}" for i g
  proof -
    obtain m where "length (K i) = Suc m" using i(2) by (cases "K i") auto
    then show ?thesis using i assms(2) by (auto simp: al_demote_def main_length_def)
  qed
  show ?thesis
    using assms drop [of Recent RecentEvict] drop [of Frequent FrequentEvict]
    unfolding al_replace_def by (auto simp: main_length_def)
qed

lemma al_promote_fits: "fits cap K \<Longrightarrow> fits cap (fst (al_promote cap e K))"
proof (cases "cap \<le> length (K Frequent) \<and> K Frequent \<noteq> []")
  case True
  assume f: "fits cap K"
  have "length (e # butlast (K Frequent)) = length (K Frequent)" using True by simp
  then have "length (e # butlast (K Frequent)) \<le> max 1 cap" using fitsD [OF f, of Frequent] by simp
  then have "fits cap (K(Frequent := e # butlast (K Frequent), FrequentEvict := al_push cap (last (K Frequent)) (K FrequentEvict)))"
    by (intro fits_upd [OF fits_upd [OF f]] al_push_length fitsD [OF f])
  then show ?thesis using True by (simp add: al_promote_def)
next
  case False
  assume f: "fits cap K"
  have "length (e # K Frequent) \<le> max 1 cap" using False by auto
  then show ?thesis using fits_upd [OF f] promote_room [of cap K e, OF False] by simp
qed

lemma al_promote_main: "main_length (fst (al_promote cap e K)) \<le> Suc (main_length K)"
  by (simp add: al_promote_def main_length_def)

lemma length_bt_remove_less: "k \<in> keys kvs \<Longrightarrow> length (bt_remove k kvs) < length kvs"
proof -
  assume "k \<in> keys kvs"
  then obtain e where "e \<in> set kvs" "fst e = k" by auto
  then show ?thesis by (simp add: bt_remove_def length_filter_less)
qed

lemma fits_remove:
  assumes "fits cap K"
  shows "fits cap (K(i := bt_remove k (K i)))"
proof (rule fits_upd [OF assms])
  show "length (bt_remove k (K i)) \<le> max 1 cap"
    unfolding bt_remove_def by (rule order_trans [OF length_filter_le fitsD [OF assms]])
qed

lemma al_arc_put_inv:
  assumes "arc_inv cap p K" and "al_arc_put cap p k v K = (p', K', l)"
  shows "arc_inv cap p' K'"
proof -
  have p: "p \<le> cap" and fits: "fits cap K" and main: "main_length K \<le> Suc cap"
    using assms(1) by (simp_all add: arc_inv_def fits_def main_length_def)
  have goal: "arc_inv cap p' K'" if "p' \<le> cap" "fits cap K'" "main_length K' \<le> Suc cap"
    using that by (simp add: arc_inv_def fits_def main_length_def)
  have transfer: "fits cap (fst (al_promote cap e (fst (al_replace cap q b K1)))) \<and>
      main_length (fst (al_promote cap e (fst (al_replace cap q b K1)))) \<le> Suc cap"
    if "q \<le> cap" "fits cap K1" "main_length K1 \<le> Suc cap" for q b K1 and e :: "'a \<times> 'b"
    using al_promote_fits [OF al_replace_fits [OF that(2), of q b], of e] al_replace_main [OF that(1,3), of b]
      al_promote_main [of cap e "fst (al_replace cap q b K1)"] by simp
  consider "k \<in> keys (K Recent)" | "k \<notin> keys (K Recent)" "k \<in> keys (K Frequent)"
    | "k \<notin> keys (K Recent)" "k \<notin> keys (K Frequent)" "k \<in> keys (K RecentEvict)"
    | "k \<notin> keys (K Recent)" "k \<notin> keys (K Frequent)" "k \<notin> keys (K RecentEvict)" "k \<in> keys (K FrequentEvict)"
    | "k \<notin> keys (K Recent)" "k \<notin> keys (K Frequent)" "k \<notin> keys (K RecentEvict)" "k \<notin> keys (K FrequentEvict)"
    by blast
  then show ?thesis
  proof cases
    case 1
    let ?K = "K(Recent := bt_remove k (K Recent))"
    have "p' = p" "K' = fst (al_promote cap (k, v) ?K)" using assms(2) 1 by (auto simp: al_arc_put_def)
    moreover have "main_length ?K < main_length K"
      using length_bt_remove_less [OF 1] by (simp add: main_length_def)
    ultimately show ?thesis
      using goal p main al_promote_fits [OF fits_remove [OF fits]] al_promote_main [of cap "(k, v)" ?K] by fastforce
  next
    case 2
    have "p' = p" "K' = K(Frequent := (k, v) # bt_remove k (K Frequent))"
      using assms(2) 2 by (auto simp: al_arc_put_def)
    moreover have "length (bt_remove k (K Frequent)) < length (K Frequent)" by (rule length_bt_remove_less [OF 2(2)])
    ultimately show ?thesis
      using goal p main fits_upd [OF fits, of _ Frequent] fitsD [OF fits, of Frequent] by (force simp: main_length_def)
  next
    case 3
    let ?K = "K(RecentEvict := bt_remove k (K RecentEvict))"
    have "p' \<le> cap \<and> K' = fst (al_promote cap (k, v) (fst (al_replace cap p' False ?K)))"
      using assms(2) 3 by (auto simp: al_arc_put_def Let_def split: prod.splits)
    then show ?thesis
      using goal transfer [of p' ?K "(k, v)" False] fits_remove [OF fits] main by (simp add: main_length_def)
  next
    case 4
    let ?K = "K(FrequentEvict := bt_remove k (K FrequentEvict))"
    have "p' \<le> p \<and> K' = fst (al_promote cap (k, v) (fst (al_replace cap p' True ?K)))"
      using assms(2) 4 by (auto simp: al_arc_put_def Let_def saturating_sub_def split: prod.splits)
    then show ?thesis
      using goal transfer [of p' ?K "(k, v)" True] fits_remove [OF fits] main p by (simp add: main_length_def)
  next
    case 5
    let ?K = "fst (al_replace cap p False K)"
    have "p' = p" and K': "K' = ?K(Recent := snd (al_put cap k v (?K Recent)))"
      using assms(2) 5 by (auto simp: al_arc_put_def split: prod.splits)
    moreover have "fits cap K'"
      unfolding K' by (rule fits_upd [OF al_replace_fits [OF fits] al_put_length [OF fitsD [OF al_replace_fits [OF fits]]]])
    moreover have "main_length K' \<le> Suc (main_length ?K)"
      using al_put_grows [of cap k v "?K Recent"] by (simp add: main_length_def K')
    ultimately show ?thesis using goal p al_replace_main [OF p main, of False] by simp
  qed
qed

end
