(* ===== verification/Arc_Reach.thy ===== *)
theory Arc_Reach
  imports Arc_System
begin

text \<open>
  Lookup, removal and resizing of the adaptive cache, and the invariant of every cache that a
  program reaches: its lists are well formed and bounded, and its boxes are exactly the live ones.
\<close>

lemma UNIV_arc_list: "UNIV = {Recent, RecentEvict, Frequent, FrequentEvict}"
  using arc_list.exhaust by auto

lemma arc_sel_set [simp]: "arc_sel (arc_set a i c) = (arc_sel a)(i := c)"
  by (cases i) simp_all

lemma arc_set_sel [simp]:
  "arc_p (arc_set a i c) = arc_p a" "arc_capacity (arc_set a i c) = arc_capacity a"
  "arc_on_evict (arc_set a i c) = arc_on_evict a"
  by (cases i; simp)+

subsection \<open>Lookup and removal\<close>

definition arc_lookup :: "('k, 'v) arc_lists \<Rightarrow> 'k \<Rightarrow> 'v option" where
  "arc_lookup K k = (if k \<in> keys (K Frequent) then map_of (K Frequent) k else map_of (K Recent) k)"

lemma arc_peek_refines:
  assumes "arc_ok h a A K N"
  shows "arc_peek_with a k f h = Some (map_option (f k) (arc_lookup K k))"
proof -
  note F = arc_okD(5) [OF assms, of Frequent] and R = arc_okD(5) [OF assms, of Recent]
  show ?thesis
    using lru_contains_iff [OF F] peek_with_refines [OF F, of k f] peek_with_refines [OF R, of k f]
    by (simp add: arc_peek_with_def arc_lookup_def)
qed

definition al_arc_get :: "usize \<Rightarrow> 'k \<Rightarrow> ('k, 'v) arc_lists \<Rightarrow> ('k, 'v) arc_lists \<times> ('k \<times> 'v) list" where
  "al_arc_get cap k K =
     (if k \<in> keys (K Frequent) then (K(Frequent := al_touch k (K Frequent)), [])
      else case map_of (K Recent) k of
        None \<Rightarrow> (K, [])
      | Some v \<Rightarrow> al_promote cap (k, v) (K(Recent := bt_remove k (K Recent))))"

lemma al_touch_keys: "keys (al_touch k kvs) \<subseteq> keys kvs"
  by (auto simp: al_touch_def bt_remove_def split: option.splits dest: map_of_SomeD intro: rev_image_eqI)

lemma arc_get_refines:
  assumes ok: "arc_ok h a A K {}" and spec: "al_arc_get (arc_capacity a) k K = (K', l)"
  obtains a' h' where "arc_get_with a k f h = Some (map_option (f k) (arc_lookup K k), a', h')"
    and "same_arc a a'" and "arc_result h a A {} K' {} l a' h'"
proof -
  note o = arc_okD [OF ok]
  have cF: "lru_contains (arc_frequent a) k \<longleftrightarrow> k \<in> keys (K Frequent)"
    using lru_contains_iff [OF o(5) [of Frequent]] by simp
  show ?thesis
  proof (cases "k \<in> keys (K Frequent)")
    case True
    obtain as h' where g: "get_with (arc_frequent a) k f h = Some (map_option (f k) (map_of (K Frequent) k), h')"
      "lru_rep h' (arc_frequent a) as (al_touch k (K Frequent))"
      "moves (footprint (arc_frequent a) (A Frequent)) (footprint (arc_frequent a) as) [] h h'"
      using get_with_refines [OF o(5) [of Frequent] arc_repD(1) [OF o(1)], of k f] by auto
    have m: "moves (footprint (arc_sel a Frequent) (A Frequent) \<union> {}) (footprint (arc_frequent a) as \<union> {}) [] h h'"
      using g(3) by simp
    note s = arc_rep_step [OF o(1) m g(2)]
    have sel: "(arc_sel a)(Frequent := arc_frequent a) = arc_sel a" by (rule fun_upd_idem) simp
    have ap: "apart (K(Frequent := al_touch k (K Frequent)))"
      by (rule apart_sub [OF o(2)]) (simp add: al_touch_keys)
    have "arc_ok h' a (A(Frequent := as)) (K(Frequent := al_touch k (K Frequent))) {}"
      using s(1) ap o(3,4) unfolding arc_ok_def sel by simp
    moreover have "moves (arc_total (arc_sel a) A {}) (arc_total (arc_sel a) (A(Frequent := as)) {}) [] h h'"
      using s(2) unfolding sel by simp
    ultimately have "arc_result h a A {} K' {} l a h'"
      using spec True by (auto simp: al_arc_get_def arc_result_def)
    then show ?thesis
      using that [of a h'] g(1) True cF by (simp add: arc_get_with_def arc_lookup_def)
  next
    case False
    from ok show ?thesis
    proof (cases rule: arc_take [where i = Recent and k = k])
      case Absent
      then have "map_of (K Recent) k = None" by (simp add: map_of_eq_None_iff)
      then have "K' = K" "l = []" "arc_lookup K k = None"
        using spec False by (auto simp: al_arc_get_def arc_lookup_def)
      moreover have "moves (arc_total (arc_sel a) A {}) (arc_total (arc_sel a) A {}) [] h h"
        by (rule moves_refl [OF arc_repD(1) [OF o(1)] arc_rep_total [OF o(1)]])
      ultimately show ?thesis
        using that [of a h] ok False cF Absent(2) by (auto simp: arc_get_with_def arc_result_def)
    next
      case (Node n v c A' h1)
      let ?a = "a\<lparr>arc_recent := c\<rparr>" and ?K = "K(Recent := bt_remove k (K Recent))"
      have b: "arc_ok h1 ?a A' ?K {n}" "moves (arc_total (arc_sel a) A {}) (arc_total (arc_sel ?a) A' {n}) [] h h1"
        using Node(7) [of ?a] by simp_all
      have sp: "al_promote (arc_capacity ?a) (k, v) ?K = (K', l)"
        using spec False Node(2) by (simp add: al_arc_get_def)
      from arc_promote_spec [OF b(1) Node(4,5), unfolded sp fst_conv snd_conv] obtain a' h' where
        p: "arc_promote ?a n h1 = Some (a', h')" "same_arc ?a a'" "arc_result h1 ?a A' {n} K' {} l a' h'" .
      from p(3) obtain A2 where A2: "arc_ok h' a' A2 K' {}" by (rule arc_resultE)
      obtain rest where "K' Frequent = (k, v) # rest" using sp by (auto simp: al_promote_def split: if_splits)
      then have "front_with (arc_frequent a') f h' = Some (Some (f k v))"
        using front_with_refines [OF arc_okD(5) [OF A2, of Frequent], of f] by simp
      moreover have "arc_lookup K k = Some v" using False Node(2) by (simp add: arc_lookup_def)
      ultimately have "arc_get_with a k f h = Some (map_option (f k) (arc_lookup K k), a', h')"
        using False cF Node(3) p(1) by (simp add: arc_get_with_def)
      moreover have "arc_result h a A {} K' {} l a' h'"
        by (rule arc_result_seq [OF b(2) p(3)]) simp
      ultimately show ?thesis using that p(2) by (simp add: same_arc_def)
    qed
  qed
qed

definition al_arc_remove :: "'k \<Rightarrow> ('k, 'v) arc_lists \<Rightarrow> ('k, 'v) arc_lists" where
  "al_arc_remove k K =
     (if k \<in> keys (K Recent) then K(Recent := bt_remove k (K Recent))
      else K(Frequent := bt_remove k (K Frequent)))"

lemma arc_remove_at:
  assumes ok: "arc_ok h a A K {}"
  obtains c A' h' where "lru_remove (arc_sel a i) k h = Some (map_option (Pair k) (map_of (K i) k), c, h')"
    and "arc_ok h' (arc_set a i c) A' (K(i := bt_remove k (K i))) {}"
    and "moves (arc_total (arc_sel a) A {}) (arc_total (arc_sel (arc_set a i c)) A' {}) [] h h'"
proof -
  note o = arc_okD [OF ok]
  obtain c as h' where r: "lru_remove (arc_sel a i) k h = Some (map_option (Pair k) (map_of (K i) k), c, h')"
    "lru_rep h' c as (bt_remove k (K i))" "same_shell (arc_sel a i) c"
    "moves (footprint (arc_sel a i) (A i)) (footprint c as) [] h h'"
    using lru_remove_refines [OF o(5) [of i] arc_repD(1) [OF o(1)], of k] same_shell_footprint by fastforce
  have m: "moves (footprint (arc_sel a i) (A i) \<union> {}) (footprint c as \<union> {}) [] h h'" using r(4) by simp
  note s = arc_rep_step [OF o(1) m r(2)]
  have "keys (bt_remove k (K i)) \<subseteq> keys (K i)" by (auto simp: bt_remove_def)
  then have ap: "apart (K(i := bt_remove k (K i)))" by (intro apart_sub [OF o(2)]) (auto split: if_splits)
  have "arc_ok h' (arc_set a i c) (A(i := as)) (K(i := bt_remove k (K i))) {}"
    by (rule arc_ok_upd [OF ok, of _ i c]) (use s(1) r(3) ap in simp_all)
  then show ?thesis using that r(1) s(2) by simp
qed

lemma arc_remove_refines:
  assumes ok: "arc_ok h a A K {}"
  obtains a' h' where "arc_remove a k h = Some (map_option (Pair k) (arc_lookup K k), a', h')"
    and "same_arc a a'" and "arc_result h a A {} (al_arc_remove k K) {} [] a' h'"
proof -
  have dis: "keys (K Recent) \<inter> keys (K Frequent) = {}" using arc_okD(2) [OF ok] by (simp add: apart_def)
  from arc_remove_at [OF ok, where i = Recent and k = k, unfolded arc_sel.simps arc_set.simps] obtain c A' h1 where
    r: "lru_remove (arc_recent a) k h = Some (map_option (Pair k) (map_of (K Recent) k), c, h1)"
      "arc_ok h1 (a\<lparr>arc_recent := c\<rparr>) A' (K(Recent := bt_remove k (K Recent))) {}"
      "moves (arc_total (arc_sel a) A {}) (arc_total (arc_sel (a\<lparr>arc_recent := c\<rparr>)) A' {}) [] h h1" .
  show ?thesis
  proof (cases "map_of (K Recent) k")
    case (Some v)
    then have k: "k \<in> keys (K Recent)" by (metis map_of_eq_None_iff option.distinct(1))
    then have "k \<notin> keys (K Frequent)" using dis by blast
    then have "arc_lookup K k = Some v" using Some by (simp add: arc_lookup_def)
    then show ?thesis
      using that [of "a\<lparr>arc_recent := c\<rparr>" h1] r Some k arc_result_ok [OF r(2,3)]
      by (simp add: arc_remove_def al_arc_remove_def)
  next
    case None
    then have k: "k \<notin> keys (K Recent)" by (simp add: map_of_eq_None_iff)
    have "h1 = h"
      using r(1) None by (auto simp: lru_remove_def bt_get_def split: option.splits bind_splits)
    from arc_remove_at [OF ok, where i = Frequent and k = k, unfolded arc_sel.simps arc_set.simps] obtain c2 A2 h2 where
      f: "lru_remove (arc_frequent a) k h = Some (map_option (Pair k) (map_of (K Frequent) k), c2, h2)"
        "arc_ok h2 (a\<lparr>arc_frequent := c2\<rparr>) A2 (K(Frequent := bt_remove k (K Frequent))) {}"
        "moves (arc_total (arc_sel a) A {}) (arc_total (arc_sel (a\<lparr>arc_frequent := c2\<rparr>)) A2 {}) [] h h2" .
    have "arc_lookup K k = map_of (K Frequent) k"
    proof (cases "k \<in> keys (K Frequent)")
      case False
      then have "map_of (K Frequent) k = None" by (simp add: map_of_eq_None_iff)
      then show ?thesis using None False by (simp add: arc_lookup_def)
    qed (simp add: arc_lookup_def)
    then show ?thesis
      using that [of "a\<lparr>arc_frequent := c2\<rparr>" h2] r(1) f None k \<open>h1 = h\<close> arc_result_ok [OF f(2,3)]
      by (simp add: arc_remove_def al_arc_remove_def)
  qed
qed


subsection \<open>Resizing\<close>

lemma arc_pop_spec:
  assumes rep: "arc_rep h C A K {}" and ne: "K i \<noteq> []"
  obtains c as h' where "lru_pop_back (C i) h = Some (Some (last (K i)), c, h')" and "same_shell (C i) c"
    and "arc_rep h' (C(i := c)) (A(i := as)) (K(i := butlast (K i))) {}"
    and "moves (arc_total C A {}) (arc_total (C(i := c)) (A(i := as)) {}) [] h h'"
  using arc_repD(2,1) [OF rep]
proof (cases rule: pop_back_spec [of h "C i" "A i" "K i"])
  case Empty
  then show ?thesis using ne by simp
next
  case (Popped us a xs k v h')
  let ?c = "map_drop k (C i)"
  have m: "moves (footprint (C i) (A i) \<union> {}) (footprint ?c us \<union> {}) [] h h'" using Popped(5) by simp
  note s = arc_rep_step [OF rep m Popped(4)]
  show ?thesis by (rule that [of ?c h' us]) (use s Popped(2,3) in \<open>simp_all add: lru_pop_back_def\<close>)
qed

abbreviation other_list :: "arc_list \<Rightarrow> arc_list" where
  "other_list i \<equiv> (if i = Recent then Frequent else Recent)"

definition shrunk_length :: "arc_list \<Rightarrow> usize option \<Rightarrow> usize \<Rightarrow> ('k, 'v) arc_lists \<Rightarrow> nat" where
  "shrunk_length i target n K =
     (case target of None \<Rightarrow> n - length (K (other_list i)) | Some p \<Rightarrow> max p (n - length (K (other_list i))))"

lemma arc_shrink_spec:
  assumes "arc_rep h (arc_sel a) A K {}" and "i \<in> {Recent, Frequent}"
  shows "\<exists>a' A' h'. arc_shrink i target n a evicted h =
       Some (evicted @ rev (drop (shrunk_length i target n K) (K i)), a', h')
     \<and> arc_rep h' (arc_sel a') A' (K(i := take (shrunk_length i target n K) (K i))) {}
     \<and> (\<exists>c. a' = arc_set a i c \<and> same_shell (arc_sel a i) c)
     \<and> moves (arc_total (arc_sel a) A {}) (arc_total (arc_sel a') A' {})
         (logged (arc_on_evict a) (rev (drop (shrunk_length i target n K) (K i)))) h h'"
  using assms
proof (induction "length (K i)" arbitrary: h a A K evicted rule: less_induct)
  case less
  note rep = less.prems(1) and i = less.prems(2)
  let ?m = "shrunk_length i target n K"
  have len: "lru_len (arc_sel a j) = length (K j)" for j by (rule rep_len [OF arc_repD(2) [OF rep]])
  have alen: "arc_len a = length (K i) + length (K (other_list i))"
    using i len [of Recent] len [of Frequent] by (auto simp: arc_len_def)
  have guard: "((case target of None \<Rightarrow> True | Some p \<Rightarrow> lru_len (arc_sel a i) > p) \<and> arc_len a > n) \<longleftrightarrow> ?m < length (K i) \<or>
      (target = None \<and> K i = [] \<and> n < length (K (other_list i)))"
  proof -
    define x y where "x = length (K i)" and "y = length (K (other_list i))"
    have "K i = [] \<longleftrightarrow> x = 0" by (simp add: x_def)
    then show ?thesis
      unfolding len alen shrunk_length_def x_def [symmetric] y_def [symmetric] by (cases target) auto
  qed
  show ?case
  proof (cases "?m < length (K i)")
    case False
    have run: "arc_shrink i target n a evicted h = Some (evicted, a, h) \<or>
      (\<exists>c. arc_shrink i target n a evicted h = Some (evicted, arc_set a i c, h) \<and> c = arc_sel a i)"
    proof (cases "K i = []")
      case True
      from arc_repD(2,1) [OF rep] have "lru_pop_back (arc_sel a i) h = Some (None, arc_sel a i, h)"
        by (cases rule: pop_back_spec [of h "arc_sel a i" "A i" "K i"]) (simp_all add: True lru_pop_back_def)
      then show ?thesis by (subst arc_shrink.simps, subst arc_shrink.simps) auto
    next
      case ne: False
      then show ?thesis using False guard by (subst arc_shrink.simps) auto
    qed
    have "arc_set a i (arc_sel a i) = a" by (cases i) simp_all
    then have run: "arc_shrink i target n a evicted h = Some (evicted, a, h)" using run by auto
    have "K(i := take ?m (K i)) = K" using False by (intro fun_upd_idem) simp
    then show ?thesis
      using run False rep moves_refl [OF arc_repD(1) [OF rep] arc_rep_total [OF rep]] \<open>arc_set a i (arc_sel a i) = a\<close>
      by (intro exI [of _ a] exI [of _ A] exI [of _ h]) (auto intro!: exI [of _ "arc_sel a i"])
  next
    case True
    then have ne: "K i \<noteq> []" by auto
    from arc_pop_spec [OF rep ne] obtain c as h1 where
      p: "lru_pop_back (arc_sel a i) h = Some (Some (last (K i)), c, h1)" "same_shell (arc_sel a i) c"
        "arc_rep h1 ((arc_sel a)(i := c)) (A(i := as)) (K(i := butlast (K i))) {}"
        "moves (arc_total (arc_sel a) A {}) (arc_total ((arc_sel a)(i := c)) (A(i := as)) {}) [] h h1" .
    let ?a = "arc_set a i c" and ?K = "K(i := butlast (K i))" and ?h1 = "call_on_evict (arc_on_evict a) (last (K i)) h1"
    have lg: "moves {} {} (logged (arc_on_evict a) [last (K i)]) h1 ?h1"
      by (rule log_moves [OF arc_repD(1) [OF p(3)]]) simp
    note l = arc_rep_loose [OF p(3) lg]
    have m: "shrunk_length i target n ?K = ?m" using i by (auto simp: shrunk_length_def split: option.splits)
    have "length (?K i) < length (K i)" using ne by simp
    moreover have "arc_rep ?h1 (arc_sel ?a) (A(i := as)) ?K {}" using l(1) by simp
    ultimately obtain a' A' h' where ih:
      "arc_shrink i target n ?a (evicted @ [last (K i)]) ?h1 = Some ((evicted @ [last (K i)]) @ rev (drop ?m (?K i)), a', h')"
      "arc_rep h' (arc_sel a') A' (?K(i := take ?m (?K i))) {}"
      "\<exists>c'. a' = arc_set ?a i c' \<and> same_shell (arc_sel ?a i) c'"
      "moves (arc_total (arc_sel ?a) (A(i := as)) {}) (arc_total (arc_sel a') A' {})
         (logged (arc_on_evict ?a) (rev (drop ?m (?K i)))) ?h1 h'"
      using less.hyps [of ?K ?h1 ?a "A(i := as)" "evicted @ [last (K i)]"] i unfolding m by blast
    obtain xs e where xs: "K i = xs @ [e]" using ne by (cases "K i" rule: rev_cases) auto
    have cut: "rev (drop ?m (K i)) = last (K i) # rev (drop ?m (?K i))" "take ?m (K i) = take ?m (?K i)"
      using True xs by simp_all
    have "arc_shrink i target n a evicted h = arc_shrink i target n ?a (evicted @ [last (K i)]) ?h1"
      using True guard p(1) by (subst arc_shrink.simps) simp
    moreover have "(?K(i := take ?m (?K i))) = K(i := take ?m (K i))" unfolding cut by simp
    moreover have "moves (arc_total (arc_sel a) A {}) (arc_total (arc_sel a') A' {})
         (logged (arc_on_evict a) (rev (drop ?m (K i)))) h h'"
      using moves_trans [OF p(4) moves_trans [OF l(2)]] ih(4) unfolding cut by (simp add: logged_Cons [of _ _ "rev _"])
    moreover have "\<exists>c'. a' = arc_set a i c' \<and> same_shell (arc_sel a i) c'"
    proof -
      from ih(3) obtain c' where "a' = arc_set ?a i c'" "same_shell c c'" by auto
      moreover have "arc_set ?a i c' = arc_set a i c'" by (cases i) simp_all
      ultimately show ?thesis using same_shell_trans [OF p(2)] by auto
    qed
    ultimately show ?thesis using ih(1,2) cut(1) by auto
  qed
qed


lemma free_nodes_spec:
  assumes "arc_rep h C A K (set bs)" and "distinct bs"
  shows "\<exists>h'. free_nodes bs h = Some h' \<and> arc_rep h' C A K {}
     \<and> moves (arc_total C A (set bs)) (arc_total C A {}) [] h h'"
  using assms
proof (induction bs arbitrary: h)
  case Nil
  then show ?case using moves_refl [OF arc_repD(1) arc_rep_total] by fastforce
next
  case (Cons b bs)
  have "b \<in> dom (cells h)" using arc_repD(5) [OF Cons.prems(1)] by simp
  from free_node_moves [OF this arc_repD(1) [OF Cons.prems(1)]] obtain h1
    where f: "free_node b h = Some h1" "moves {b} {} [] h h1" .
  have "moves ({b} \<union> set bs) ({} \<union> set bs) [] h h1"
    by (rule moves_frame [OF f(2)]) (use arc_repD(5) [OF Cons.prems(1)] Cons.prems(2) in auto)
  then have m: "moves (set (b # bs)) (set bs) [] h h1" by simp
  note l = arc_rep_loose [OF Cons.prems(1) m]
  from Cons.IH [OF l(1)] Cons.prems(2) obtain h' where "free_nodes bs h1 = Some h'" "arc_rep h' C A K {}"
    "moves (arc_total C A (set bs)) (arc_total C A {}) [] h1 h'" by auto
  then show ?case using f(1) moves_trans [OF l(2)] by fastforce
qed

lemma resize_ghost_spec:
  assumes rep: "arc_rep h C A K {}"
  obtains bs c A' h1 h2 where "resize_to_nodes (C i) n h = Some (bs, c, h1)" and "free_nodes bs h1 = Some h2"
    and "arc_rep h2 (C(i := c)) A' (K(i := take n (K i))) {}" and "same_shell ((C i)\<lparr>lru_capacity := n\<rparr>) c"
    and "moves (arc_total C A {}) (arc_total (C(i := c)) A' {}) [] h h2"
proof -
  from resize_to_nodes_spec [OF arc_repD(2) [OF rep, of i] arc_repD(1) [OF rep], where n = n] obtain c us bs h1 where
    r: "resize_to_nodes (C i) n h = Some (bs, c, h1)" "lru_rep h1 c us (take n (K i))"
      "same_shell ((C i)\<lparr>lru_capacity := n\<rparr>) c" "distinct bs" "set bs \<inter> footprint (C i) us = {}"
      "moves (footprint (C i) (A i)) (footprint (C i) us \<union> set bs) [] h h1" .
  have fp: "footprint c us = footprint (C i) us" using r(3) by (simp add: same_shell_def footprint_def)
  have m: "moves (footprint (C i) (A i) \<union> {}) (footprint c us \<union> set bs) [] h h1" using r(6) fp by simp
  have M: "set bs \<inter> footprint c us = {}" using r(5) fp by simp
  note s = arc_rep_step [OF rep m r(2) M]
  from free_nodes_spec [OF s(1) r(4)] obtain h2 where f: "free_nodes bs h1 = Some h2"
    "arc_rep h2 (C(i := c)) (A(i := us)) (K(i := take n (K i))) {}"
    "moves (arc_total (C(i := c)) (A(i := us)) (set bs)) (arc_total (C(i := c)) (A(i := us)) {}) [] h1 h2" by blast
  show ?thesis
    by (rule that [OF r(1) f(1,2) r(3)]) (use moves_trans [OF s(2) f(3)] in simp)
qed

lemma resize_main_spec:
  assumes rep: "arc_rep h C A K {}" and ev: "lru_on_evict (C i) = NoOpEvict"
  obtains l c A' h' where "lru_resize (C i) n h = Some (l, c, h')"
    and "arc_rep h' (C(i := c)) A' (K(i := take n (K i))) {}" and "same_shell ((C i)\<lparr>lru_capacity := n\<rparr>) c"
    and "moves (arc_total C A {}) (arc_total (C(i := c)) A' {}) [] h h'"
proof -
  from lru_resize_refines [OF arc_repD(2,1) [OF rep], of i n] obtain c as h' where
    r: "lru_resize (C i) n h = Some (rev (drop n (K i)), c, h')" "lru_rep h' c as (take n (K i))"
      "same_shell ((C i)\<lparr>lru_capacity := n\<rparr>) c" "moves (footprint (C i) (A i)) (footprint (C i) as) [] h h'"
    using ev by auto
  have "footprint c as = footprint (C i) as" using r(3) by (simp add: same_shell_def footprint_def)
  then have m: "moves (footprint (C i) (A i) \<union> {}) (footprint c as \<union> {}) [] h h'" using r(4) by simp
  note s = arc_rep_step [OF rep m r(2)]
  show ?thesis by (rule that [OF r(1) _ r(3), of "A(i := as)"]) (use s in simp_all)
qed

definition al_arc_resize ::
    "usize \<Rightarrow> usize \<Rightarrow> usize \<Rightarrow> ('k, 'v) arc_lists \<Rightarrow> usize \<times> ('k, 'v) arc_lists \<times> ('k \<times> 'v) list" where
  "al_arc_resize cap p n K =
     (if n = cap then (p, K, [])
      else let p1 = min (if cap > 0 then p * n div cap else n div 2) n;
               m1 = max p1 (n - length (K Frequent)); r1 = take m1 (K Recent);
               m2 = n - length r1; f1 = take m2 (K Frequent); m3 = n - length f1
           in (p1, K(RecentEvict := take n (K RecentEvict), FrequentEvict := take n (K FrequentEvict),
                     Recent := take m3 r1, Frequent := f1),
               rev (drop m1 (K Recent)) @ rev (drop m2 (K Frequent)) @ rev (drop m3 r1)))"

lemma apart_take: "apart K \<Longrightarrow> (\<And>i. keys (K' i) \<subseteq> keys (K i)) \<Longrightarrow> apart K'"
  by (rule apart_sub)

lemma arc_shrink_all:
  assumes rep: "arc_rep h (arc_sel a) A K {}"
    and r1: "r1 = take (max p (n - length (K Frequent))) (K Recent)"
    and f1: "f1 = take (n - length r1) (K Frequent)"
  obtains c d A' h' where
    "arc_evict_excess p n a h =
     Some (rev (drop (max p (n - length (K Frequent))) (K Recent)) @ rev (drop (n - length r1) (K Frequent))
             @ rev (drop (n - length f1) r1), a\<lparr>arc_recent := c, arc_frequent := d\<rparr>, h')"
    and "arc_rep h' ((arc_sel a)(Recent := c, Frequent := d)) A' (K(Recent := take (n - length f1) r1, Frequent := f1)) {}"
    and "same_shell (arc_recent a) c" and "same_shell (arc_frequent a) d"
    and "moves (arc_total (arc_sel a) A {}) (arc_total ((arc_sel a)(Recent := c, Frequent := d)) A' {})
          (logged (arc_on_evict a) (rev (drop (max p (n - length (K Frequent))) (K Recent))
             @ rev (drop (n - length r1) (K Frequent)) @ rev (drop (n - length f1) r1))) h h'"
proof -
  let ?m1 = "max p (n - length (K Frequent))" and ?m2 = "n - length r1" and ?m3 = "n - length f1"
  let ?l = "rev (drop ?m1 (K Recent)) @ rev (drop ?m2 (K Frequent)) @ rev (drop ?m3 r1)"
  show ?thesis
  proof (cases "arc_len a > n")
    case False
    have "arc_len a = length (K Recent) + length (K Frequent)"
      using rep_len [OF arc_repD(2) [OF rep, of Recent]] rep_len [OF arc_repD(2) [OF rep, of Frequent]]
      by (simp add: arc_len_def)
    then have le: "length (K Recent) + length (K Frequent) \<le> n" using False by simp
    then have R: "r1 = K Recent" "drop ?m1 (K Recent) = []" using r1 by auto
    then have F: "f1 = K Frequent" "drop ?m2 (K Frequent) = []" using f1 le by auto
    have T: "take ?m3 r1 = K Recent" "drop ?m3 r1 = []" using R F le by auto
    have "K(Recent := take ?m3 r1, Frequent := f1) = K" by (simp only: T(1)) (simp only: F(1) fun_upd_triv)
    moreover have "(arc_sel a)(Recent := arc_recent a, Frequent := arc_frequent a) = arc_sel a"
      by (simp add: fun_upd_idem)
    ultimately have id: "K(Recent := take ?m3 r1, Frequent := f1) = K"
      "(arc_sel a)(Recent := arc_recent a, Frequent := arc_frequent a) = arc_sel a" .
    have a: "a\<lparr>arc_recent := arc_recent a, arc_frequent := arc_frequent a\<rparr> = a" by simp
    have l: "?l = []" using R F T by simp
    show ?thesis
      by (rule that [where c = "arc_recent a" and d = "arc_frequent a" and h' = h and A' = A])
        (use False rep moves_refl [OF arc_repD(1) [OF rep] arc_rep_total [OF rep]] in \<open>simp_all add: id a l arc_evict_excess_def\<close>)
  next
    case True
    have s1: "shrunk_length Recent (Some p) n K = ?m1" by (simp add: shrunk_length_def)
    obtain c1 A1 h1 where 1: "arc_shrink Recent (Some p) n a [] h = Some (rev (drop ?m1 (K Recent)), a\<lparr>arc_recent := c1\<rparr>, h1)"
      "arc_rep h1 (arc_sel (a\<lparr>arc_recent := c1\<rparr>)) A1 (K(Recent := r1)) {}" "same_shell (arc_recent a) c1"
      "moves (arc_total (arc_sel a) A {}) (arc_total (arc_sel (a\<lparr>arc_recent := c1\<rparr>)) A1 {})
         (logged (arc_on_evict a) (rev (drop ?m1 (K Recent)))) h h1"
      using arc_shrink_spec [OF rep, of Recent "Some p" n "[]", unfolded s1 r1 [symmetric]] by auto
    let ?a1 = "a\<lparr>arc_recent := c1\<rparr>" and ?K1 = "K(Recent := r1)"
    have s2: "shrunk_length Frequent None n ?K1 = ?m2" "take ?m2 (?K1 Frequent) = f1"
      using f1 by (simp_all add: shrunk_length_def)
    obtain d A2 h2 where 2: "arc_shrink Frequent None n ?a1 (rev (drop ?m1 (K Recent))) h1 =
        Some (rev (drop ?m1 (K Recent)) @ rev (drop ?m2 (K Frequent)), ?a1\<lparr>arc_frequent := d\<rparr>, h2)"
      "arc_rep h2 (arc_sel (?a1\<lparr>arc_frequent := d\<rparr>)) A2 (?K1(Frequent := f1)) {}" "same_shell (arc_frequent a) d"
      "moves (arc_total (arc_sel ?a1) A1 {}) (arc_total (arc_sel (?a1\<lparr>arc_frequent := d\<rparr>)) A2 {})
         (logged (arc_on_evict a) (rev (drop ?m2 (K Frequent)))) h1 h2"
      using arc_shrink_spec [OF 1(2), of Frequent None n "rev (drop ?m1 (K Recent))", unfolded s2] by auto
    let ?a2 = "?a1\<lparr>arc_frequent := d\<rparr>" and ?K2 = "?K1(Frequent := f1)"
    have s3: "shrunk_length Recent None n ?K2 = ?m3" by (simp add: shrunk_length_def)
    obtain c A3 h3 where 3: "arc_shrink Recent None n ?a2 (rev (drop ?m1 (K Recent)) @ rev (drop ?m2 (K Frequent))) h2 =
        Some ((rev (drop ?m1 (K Recent)) @ rev (drop ?m2 (K Frequent))) @ rev (drop ?m3 r1), ?a2\<lparr>arc_recent := c\<rparr>, h3)"
      "arc_rep h3 (arc_sel (?a2\<lparr>arc_recent := c\<rparr>)) A3 (?K2(Recent := take ?m3 r1)) {}" "same_shell c1 c"
      "moves (arc_total (arc_sel ?a2) A2 {}) (arc_total (arc_sel (?a2\<lparr>arc_recent := c\<rparr>)) A3 {})
         (logged (arc_on_evict a) (rev (drop ?m3 r1))) h2 h3"
      using arc_shrink_spec [OF 2(2), of Recent None n "rev (drop ?m1 (K Recent)) @ rev (drop ?m2 (K Frequent))", unfolded s3]
      by auto
    have sel: "arc_sel (?a2\<lparr>arc_recent := c\<rparr>) = (arc_sel a)(Recent := c, Frequent := d)"
      by (rule ext, rename_tac i, case_tac i) simp_all
    have K3: "?K2(Recent := take ?m3 r1) = K(Recent := take ?m3 r1, Frequent := f1)"
      by (rule ext) simp
    have a3: "?a2\<lparr>arc_recent := c\<rparr> = a\<lparr>arc_recent := c, arc_frequent := d\<rparr>" by simp
    show ?thesis
    proof (rule that [where c = c and d = d and h' = h3 and A' = A3])
      show "same_shell (arc_recent a) c" by (rule same_shell_trans [OF 1(3) 3(3)])
      show "same_shell (arc_frequent a) d" by (rule 2(3))
      show "arc_rep h3 ((arc_sel a)(Recent := c, Frequent := d)) A3 (K(Recent := take ?m3 r1, Frequent := f1)) {}"
        using 3(2) unfolding sel K3 .
      show "moves (arc_total (arc_sel a) A {}) (arc_total ((arc_sel a)(Recent := c, Frequent := d)) A3 {})
          (logged (arc_on_evict a) ?l) h h3"
        using moves_trans [OF 1(4) moves_trans [OF 2(4) 3(4)]] unfolding sel by simp
    qed (use True 1(1) 2(1) 3(1) in \<open>simp add: arc_evict_excess_def\<close>)
  qed
qed


theorem arc_resize_refines:
  assumes ok: "arc_ok h a A K {}" and mul: "arc_p a * n \<le> usize_max"
    and spec: "al_arc_resize (arc_capacity a) (arc_p a) n K = (p', K', l)"
  shows "\<exists>a' h'. arc_resize a n h = Some (l, a', h') \<and> arc_p a' = p' \<and> arc_capacity a' = n
     \<and> arc_on_evict a' = arc_on_evict a \<and> arc_result h a A {} K' {} l a' h'"
proof (cases "n = arc_capacity a")
  case True
  note o = arc_okD [OF ok]
  have "K' = K" "l = []" "p' = arc_p a" using spec True by (simp_all add: al_arc_resize_def)
  then show ?thesis
    using True ok moves_refl [OF arc_repD(1) [OF o(1)] arc_rep_total [OF o(1)]]
    by (auto simp: arc_resize_def arc_result_def)
next
  case False
  note o = arc_okD [OF ok]
  define p1 where "p1 = min (if arc_capacity a > 0 then arc_p a * n div arc_capacity a else n div 2) n"
  define m1 where "m1 = max p1 (n - length (K Frequent))"
  define r1 where "r1 = take m1 (K Recent)"
  define f1 where "f1 = take (n - length r1) (K Frequent)"
  let ?KG = "K(RecentEvict := take n (K RecentEvict), FrequentEvict := take n (K FrequentEvict))"
  let ?l = "rev (drop m1 (K Recent)) @ rev (drop (n - length r1) (K Frequent)) @ rev (drop (n - length f1) r1)"
  have "al_arc_resize (arc_capacity a) (arc_p a) n K = (p1, ?KG(Recent := take (n - length f1) r1, Frequent := f1), ?l)"
    unfolding al_arc_resize_def Let_def if_not_P [OF False] p1_def m1_def r1_def f1_def by (rule refl)
  then have sp: "p' = p1" "K' = ?KG(Recent := take (n - length f1) r1, Frequent := f1)" "l = ?l"
    using spec by simp_all
  obtain bs1 re A1 h1 h2 where 1: "resize_to_nodes (arc_recent_evict a) n h = Some (bs1, re, h1)" "free_nodes bs1 h1 = Some h2"
    "arc_rep h2 ((arc_sel a)(RecentEvict := re)) A1 (K(RecentEvict := take n (K RecentEvict))) {}"
    "same_shell ((arc_recent_evict a)\<lparr>lru_capacity := n\<rparr>) re"
    "moves (arc_total (arc_sel a) A {}) (arc_total ((arc_sel a)(RecentEvict := re)) A1 {}) [] h h2"
    by (rule resize_ghost_spec [OF o(1), of RecentEvict n]) auto
  obtain bs2 fe A2 h3 h4 where 2: "resize_to_nodes (arc_frequent_evict a) n h2 = Some (bs2, fe, h3)" "free_nodes bs2 h3 = Some h4"
    "arc_rep h4 ((arc_sel a)(RecentEvict := re, FrequentEvict := fe)) A2 ?KG {}"
    "same_shell ((arc_frequent_evict a)\<lparr>lru_capacity := n\<rparr>) fe"
    "moves (arc_total ((arc_sel a)(RecentEvict := re)) A1 {}) (arc_total ((arc_sel a)(RecentEvict := re, FrequentEvict := fe)) A2 {}) [] h2 h4"
    by (rule resize_ghost_spec [OF 1(3), of FrequentEvict n]) auto
  let ?a1 = "a\<lparr>arc_p := p1, arc_capacity := n, arc_recent_evict := re, arc_frequent_evict := fe\<rparr>"
  have rep1: "arc_rep h4 (arc_sel ?a1) A2 ?KG {}" using 2(3) by simp
  have r1': "r1 = take (max p1 (n - length (?KG Frequent))) (?KG Recent)"
    and f1': "f1 = take (n - length r1) (?KG Frequent)" by (simp_all add: r1_def f1_def m1_def)
  have K: "?KG Recent = K Recent" "?KG Frequent = K Frequent" by simp_all
  from arc_shrink_all [OF rep1 r1' f1', unfolded K, folded m1_def sp(2)] obtain c d A3 h5 where 3:
    "arc_evict_excess p1 n ?a1 h4 = Some (?l, ?a1\<lparr>arc_recent := c, arc_frequent := d\<rparr>, h5)"
    "arc_rep h5 ((arc_sel ?a1)(Recent := c, Frequent := d)) A3 K' {}"
    "same_shell (arc_recent ?a1) c" "same_shell (arc_frequent ?a1) d"
    "moves (arc_total (arc_sel ?a1) A2 {}) (arc_total ((arc_sel ?a1)(Recent := c, Frequent := d)) A3 {})
       (logged (arc_on_evict ?a1) ?l) h4 h5" .
  let ?C3 = "(arc_sel ?a1)(Recent := c, Frequent := d)"
  have ev: "lru_on_evict c = NoOpEvict" "lru_on_evict d = NoOpEvict"
    using o(4) [of Recent] o(4) [of Frequent] 3(3,4) by (simp_all add: same_shell_def)
  have short: "take n (K' Recent) = K' Recent" "take n (K' Frequent) = K' Frequent"
    by (simp_all add: sp(2) f1_def)
  have idem: "K'(Recent := take n (K' Recent)) = K'" "K'(Frequent := take n (K' Frequent)) = K'"
    unfolding short by (rule fun_upd_triv)+
  have at: "?C3 Recent = c" "(?C3(Recent := c0)) Frequent = d" for c0 by simp_all
  from resize_main_spec [OF 3(2), of Recent n, unfolded idem at, OF ev(1)] obtain e6 c' A4 h6 where 4: "lru_resize c n h5 = Some (e6, c', h6)"
    "arc_rep h6 (?C3(Recent := c')) A4 K' {}" "same_shell (c\<lparr>lru_capacity := n\<rparr>) c'"
    "moves (arc_total ?C3 A3 {}) (arc_total (?C3(Recent := c')) A4 {}) [] h5 h6" .
  from resize_main_spec [OF 4(2), of Frequent n, unfolded idem at, OF ev(2)] obtain e7 d' A5 h7 where 5: "lru_resize d n h6 = Some (e7, d', h7)"
    "arc_rep h7 (?C3(Recent := c', Frequent := d')) A5 K' {}" "same_shell (d\<lparr>lru_capacity := n\<rparr>) d'"
    "moves (arc_total (?C3(Recent := c')) A4 {}) (arc_total (?C3(Recent := c', Frequent := d')) A5 {}) [] h6 h7" .
  let ?a' = "?a1\<lparr>arc_recent := c', arc_frequent := d'\<rparr>"
  have sel: "arc_sel ?a' = ?C3(Recent := c', Frequent := d')"
    by (rule ext, rename_tac i, case_tac i) simp_all
  have "(if arc_capacity a > 0 then (if arc_p a * n \<le> usize_max then Some (arc_p a * n div arc_capacity a) else None)
        else Some (n div 2)) = Some (if arc_capacity a > 0 then arc_p a * n div arc_capacity a else n div 2)"
    using mul by simp
  then have call: "arc_resize a n h = Some (?l, ?a', h7)"
    using False 1(1,2) 2(1,2) 3(1) 4(1) 5(1)
    unfolding arc_resize_def by (simp add: p1_def [symmetric] Let_def)
  have ap: "apart K'"
  proof (rule apart_sub [OF o(2)])
    show "keys (K' i) \<subseteq> keys (K i)" for i
      unfolding sp(2) r1_def f1_def by (cases i) (auto dest: in_set_takeD)
  qed
  have "lru_capacity (arc_sel ?a' i) = n \<and> lru_on_evict (arc_sel ?a' i) = NoOpEvict" for i
    using o(4) [of i] 1(4) 2(4) 3(3,4) 4(3) 5(3) by (cases i) (simp_all add: same_shell_def)
  then have "arc_ok h7 ?a' A5 K' {}"
    using 5(2) ap unfolding arc_ok_def sel [symmetric] by simp
  moreover have "moves (arc_total (arc_sel a) A {}) (arc_total (arc_sel ?a') A5 {}) (logged (arc_on_evict a) ?l) h h7"
    using moves_trans [OF 1(5) moves_trans [OF 2(5) moves_trans [OF _ moves_trans [OF 4(4) 5(4)]]], of "logged (arc_on_evict a) ?l"]
      3(5) unfolding sel by simp
  ultimately have "arc_result h a A {} K' {} l ?a' h7" unfolding arc_result_def sp(3) by blast
  then show ?thesis using call sp(1,3) by simp
qed


subsection \<open>The caches that a program reaches\<close>

definition empty_heap :: "('k, 'v) lru_heap" where
  "empty_heap = \<lparr>cells = (\<lambda>_. None), next_box = 1, evict_log = []\<rparr>"

definition isize_max :: usize where
  "isize_max = 9223372036854775807"

inductive arc_step :: "('k, 'v) arc_state \<Rightarrow> ('k, 'v) arc_state \<Rightarrow> bool" where
  Put: "arc_put a k v h = Some s \<Longrightarrow> arc_step (a, h) s"
| Get: "arc_get_owned a k h = Some (r, s) \<Longrightarrow> arc_step (a, h) s"
| Remove: "arc_remove a k h = Some (r, s) \<Longrightarrow> arc_step (a, h) s"
| Resize: "arc_resize a n h = Some (r, s) \<Longrightarrow> n \<le> isize_max \<Longrightarrow> arc_step (a, h) s"

definition arc_live :: "('k, 'v) arc_state \<Rightarrow> arc_addrs \<Rightarrow> ('k, 'v) arc_lists \<Rightarrow> bool" where
  "arc_live s A K \<longleftrightarrow> (case s of (a, h) \<Rightarrow> arc_ok h a A K {} \<and> arc_inv (arc_capacity a) (arc_p a) K
     \<and> arc_capacity a \<le> isize_max \<and> dom (cells h) = arc_total (arc_sel a) A {})"

lemma al_arc_get_inv: "arc_inv cap p K \<Longrightarrow> al_arc_get cap k K = (K', l) \<Longrightarrow> arc_inv cap p K'"
proof -
  assume inv: "arc_inv cap p K" and g: "al_arc_get cap k K = (K', l)"
  have p: "p \<le> cap" and fits: "fits cap K" and main: "main_length K \<le> Suc cap"
    using inv by (simp_all add: arc_inv_def fits_def main_length_def)
  have goal: "arc_inv cap p K'" if "fits cap K'" "main_length K' \<le> Suc cap"
    using that p by (simp add: arc_inv_def fits_def main_length_def)
  show ?thesis
  proof (cases "k \<in> keys (K Frequent)")
    case True
    then obtain v where v: "map_of (K Frequent) k = Some v"
      by (metis map_of_eq_None_iff option.exhaust)
    have K': "K' = K(Frequent := (k, v) # bt_remove k (K Frequent))"
      using g True v by (simp add: al_arc_get_def al_touch_def)
    have "length (bt_remove k (K Frequent)) < length (K Frequent)" by (rule length_bt_remove_less [OF True])
    then show ?thesis
      using goal main fits_upd [OF fits, of _ Frequent] fitsD [OF fits, of Frequent]
      by (force simp: main_length_def K')
  next
    case False
    show ?thesis
    proof (cases "map_of (K Recent) k")
      case None
      then show ?thesis using g False inv by (simp add: al_arc_get_def)
    next
      case (Some v)
      let ?K = "K(Recent := bt_remove k (K Recent))"
      have K': "K' = fst (al_promote cap (k, v) ?K)" using g False Some by (simp add: al_arc_get_def)
      have "k \<in> keys (K Recent)" using Some by (metis map_of_eq_None_iff option.distinct(1))
      then have "main_length ?K < main_length K" using length_bt_remove_less by (simp add: main_length_def)
      then show ?thesis
        using goal main al_promote_fits [OF fits_remove [OF fits]] al_promote_main [of cap "(k, v)" ?K]
        by (fastforce simp: K')
    qed
  qed
qed

lemma al_arc_remove_inv: "arc_inv cap p K \<Longrightarrow> arc_inv cap p (al_arc_remove k K)"
proof -
  assume inv: "arc_inv cap p K"
  then have fits: "fits cap K" by (simp add: arc_inv_def fits_def)
  have le: "length (bt_remove k (K i)) \<le> length (K i)" for i by (simp add: bt_remove_def)
  show ?thesis
    using inv fits_remove [OF fits, of Recent k] fits_remove [OF fits, of Frequent k] le [of Recent] le [of Frequent]
    unfolding al_arc_remove_def arc_inv_def fits_def by simp
qed

lemma al_arc_resize_inv:
  assumes "arc_inv cap p K" and "al_arc_resize cap p n K = (p', K', l)"
  shows "arc_inv n p' K'"
proof (cases "n = cap")
  case True
  then show ?thesis using assms by (simp add: al_arc_resize_def)
next
  case False
  define r where "r = take (max p' (n - length (K Frequent))) (K Recent)"
  define f where "f = take (n - length r) (K Frequent)"
  have p': "p' = min (if cap > 0 then p * n div cap else n div 2) n"
    using assms(2) unfolding al_arc_resize_def Let_def if_not_P [OF False] prod.inject by blast
  have K': "K' = K(RecentEvict := take n (K RecentEvict), FrequentEvict := take n (K FrequentEvict),
                     Recent := take (n - length f) r, Frequent := f)"
    using assms(2) unfolding al_arc_resize_def Let_def if_not_P [OF False] prod.inject r_def f_def p' by blast
  have f: "length f \<le> n" by (simp add: f_def)
  have r: "length (take (n - length f) r) \<le> n - length f" by simp
  have "length (K' i) \<le> n" for i
    unfolding K' using f r by (cases i) (simp_all del: length_take add: length_take [of n])
  then have "length (K' i) \<le> max 1 n" for i by (simp add: le_max_iff_disj)
  moreover have "p' \<le> n" by (simp add: p')
  moreover have "length (K' Recent) + length (K' Frequent) \<le> Suc n"
    unfolding K' using f r by (simp del: length_take)
  ultimately show ?thesis unfolding arc_inv_def by blast
qed

lemma arc_live_result:
  assumes live: "arc_live (a, h) A K" and res: "arc_result h a A {} K' {} l a' h'"
    and inv: "arc_inv (arc_capacity a') (arc_p a') K'" and cap: "arc_capacity a' \<le> isize_max"
  shows "\<exists>A'. arc_live (a', h') A' K'"
proof -
  from res obtain A' where A': "arc_ok h' a' A' K' {}"
    "moves (arc_total (arc_sel a) A {}) (arc_total (arc_sel a') A' {}) (logged (arc_on_evict a) l) h h'"
    by (rule arc_resultE)
  have "dom (cells h') = arc_total (arc_sel a') A' {}"
    using movesD(5) [OF A'(2)] live by (simp add: arc_live_def)
  then show ?thesis using A'(1) inv cap unfolding arc_live_def by auto
qed

lemma arc_liveD:
  assumes "arc_live (a, h) A K"
  shows "arc_ok h a A K {}" and "arc_inv (arc_capacity a) (arc_p a) K" and "arc_capacity a \<le> isize_max"
  using assms by (simp_all add: arc_live_def)

lemma arc_step_live:
  assumes "arc_step s s'" and "arc_live s A K"
  shows "\<exists>A' K'. arc_live s' A' K'"
  using assms
proof (cases rule: arc_step.cases)
  case (Put a k v h)
  note l = arc_liveD [OF assms(2) [unfolded Put(1)]]
  obtain p' K' l' where sp: "al_arc_put (arc_capacity a) (arc_p a) k v K = (p', K', l')" by (metis prod_cases3)
  obtain a' h' where r: "arc_put a k v h = Some (a', h')" "arc_p a' = p'" "arc_capacity a' = arc_capacity a"
    "arc_result h a A {} K' {} l' a' h'"
    using arc_put_refines [OF l(1,2) l(3) [unfolded isize_max_def] sp] by blast
  then show ?thesis
    using arc_live_result [OF assms(2) [unfolded Put(1)] r(4)] al_arc_put_inv [OF l(2) sp] l(3) Put(2) by auto
next
  case (Get a k h r)
  note l = arc_liveD [OF assms(2) [unfolded Get(1)]]
  obtain K' l' where sp: "al_arc_get (arc_capacity a) k K = (K', l')" by fastforce
  obtain a' h' where g: "arc_get_owned a k h = Some (map_option (Pair k) (arc_lookup K k), a', h')" "same_arc a a'"
    "arc_result h a A {} K' {} l' a' h'"
    using arc_get_refines [OF l(1) sp, of Pair] unfolding arc_get_owned_def by metis
  then show ?thesis
    using arc_live_result [OF assms(2) [unfolded Get(1)] g(3)] al_arc_get_inv [OF l(2) sp] l(3) Get(2)
    by (auto simp: same_arc_def)
next
  case (Remove a k h r)
  note l = arc_liveD [OF assms(2) [unfolded Remove(1)]]
  obtain a' h' where g: "arc_remove a k h = Some (map_option (Pair k) (arc_lookup K k), a', h')" "same_arc a a'"
    "arc_result h a A {} (al_arc_remove k K) {} [] a' h'"
    using arc_remove_refines [OF l(1)] by metis
  then show ?thesis
    using arc_live_result [OF assms(2) [unfolded Remove(1)] g(3)] al_arc_remove_inv [OF l(2), of k] l(3) Remove(2)
    by (auto simp: same_arc_def)
next
  case (Resize a n h r)
  note l = arc_liveD [OF assms(2) [unfolded Resize(1)]]
  obtain p' K' l' where sp: "al_arc_resize (arc_capacity a) (arc_p a) n K = (p', K', l')" by (metis prod_cases3)
  show ?thesis
  proof (cases "arc_p a * n \<le> usize_max")
    case True
    obtain a' h' where g: "arc_resize a n h = Some (l', a', h')" "arc_p a' = p'" "arc_capacity a' = n"
      "arc_result h a A {} K' {} l' a' h'"
      using arc_resize_refines [OF l(1) True sp] by blast
    then show ?thesis
      using arc_live_result [OF assms(2) [unfolded Resize(1)] g(4)] al_arc_resize_inv [OF l(2) sp] Resize(2,3) by auto
  next
    case False
    then have "arc_p a \<noteq> 0" by (intro notI) simp
    then have "arc_capacity a > 0" using l(2) by (simp add: arc_inv_def)
    then have "n = arc_capacity a" "s' = (a, h)"
      using Resize(2) False by (auto simp: arc_resize_def split: if_splits)
    then show ?thesis using assms(2) Resize(1) by auto
  qed
qed


lemma arc_with_on_evict_rep:
  assumes ok: "heap_ok h"
  obtains a A h' where "arc_with_on_evict cap ev h = Some (a, h')" and "arc_ok h' a A (\<lambda>_. []) {}"
    and "arc_capacity a = cap" and "arc_p a = cap div 2" and "arc_on_evict a = ev"
    and "moves {} (arc_total (arc_sel a) A {}) [] h h'"
proof -
  from with_on_evict_rep [OF ok] obtain c1 h1 where 1: "with_on_evict cap NoOpEvict h = Some (c1, h1)" "lru_rep h1 c1 [] []"
    "moves {} (footprint c1 []) [] h h1" "lru_capacity c1 = cap" "lru_on_evict c1 = NoOpEvict" .
  from with_on_evict_rep [OF moves_heap_ok [OF 1(3)]] obtain c2 h2 where 2: "with_on_evict cap NoOpEvict h1 = Some (c2, h2)"
    "lru_rep h2 c2 [] []" "moves {} (footprint c2 []) [] h1 h2" "lru_capacity c2 = cap" "lru_on_evict c2 = NoOpEvict" .
  from with_on_evict_rep [OF moves_heap_ok [OF 2(3)]] obtain c3 h3 where 3: "with_on_evict cap NoOpEvict h2 = Some (c3, h3)"
    "lru_rep h3 c3 [] []" "moves {} (footprint c3 []) [] h2 h3" "lru_capacity c3 = cap" "lru_on_evict c3 = NoOpEvict" .
  from with_on_evict_rep [OF moves_heap_ok [OF 3(3)]] obtain c4 h4 where 4: "with_on_evict cap NoOpEvict h3 = Some (c4, h4)"
    "lru_rep h4 c4 [] []" "moves {} (footprint c4 []) [] h3 h4" "lru_capacity c4 = cap" "lru_on_evict c4 = NoOpEvict" .
  let ?a = "\<lparr>arc_p = cap div 2, arc_capacity = cap, arc_recent = c1, arc_recent_evict = c2,
      arc_frequent = c3, arc_frequent_evict = c4, arc_on_evict = ev\<rparr>"
  have call: "arc_with_on_evict cap ev h = Some (?a, h4)"
    using 1(1) 2(1) 3(1) 4(1) by (simp add: arc_with_on_evict_def lru_new_def)
  have r1: "lru_rep h2 c1 [] []" "lru_rep h3 c1 [] []" "lru_rep h4 c1 [] []"
    using rep_frame [OF _ 2(3)] rep_frame [OF _ 3(3)] rep_frame [OF _ 4(3)] 1(2) by simp_all
  have r2: "lru_rep h3 c2 [] []" "lru_rep h4 c2 [] []"
    using rep_frame [OF _ 3(3)] rep_frame [OF _ 4(3)] 2(2) by simp_all
  have r3: "lru_rep h4 c3 [] []" using rep_frame [OF _ 4(3)] 3(2) by simp
  have d12: "footprint c1 [] \<inter> footprint c2 [] = {}" by (rule moves_apart(1) [OF 2(3) rep_footprint [OF 1(2)]]) simp
  have d13: "footprint c1 [] \<inter> footprint c3 [] = {}" by (rule moves_apart(1) [OF 3(3) rep_footprint [OF r1(1)]]) simp
  have d14: "footprint c1 [] \<inter> footprint c4 [] = {}" by (rule moves_apart(1) [OF 4(3) rep_footprint [OF r1(2)]]) simp
  have d23: "footprint c2 [] \<inter> footprint c3 [] = {}" by (rule moves_apart(1) [OF 3(3) rep_footprint [OF 2(2)]]) simp
  have d24: "footprint c2 [] \<inter> footprint c4 [] = {}" by (rule moves_apart(1) [OF 4(3) rep_footprint [OF r2(1)]]) simp
  have d34: "footprint c3 [] \<inter> footprint c4 [] = {}" by (rule moves_apart(1) [OF 4(3) rep_footprint [OF 3(2)]]) simp
  have reps: "lru_rep h4 (arc_sel ?a i) [] []" for i using r1(3) r2(2) r3 4(2) by (cases i) simp_all
  have dis: "footprint (arc_sel ?a i) [] \<inter> footprint (arc_sel ?a j) [] = {}" if "i \<noteq> j" for i j
    using that d12 d13 d14 d23 d24 d34 by (cases i; cases j) (simp_all add: Int_commute)
  have caps: "lru_capacity (arc_sel ?a i) = cap \<and> lru_on_evict (arc_sel ?a i) = NoOpEvict" for i
    using 1(4,5) 2(4,5) 3(4,5) 4(4,5) by (cases i) simp_all
  have "arc_ok h4 ?a (\<lambda>_. []) (\<lambda>_. []) {}"
    unfolding arc_ok_def arc_rep_def apart_def using reps dis moves_heap_ok [OF 4(3)] caps by simp
  moreover have "moves {} (arc_total (arc_sel ?a) (\<lambda>_. []) {}) [] h h4"
  proof -
    have m2: "moves {} (footprint c2 [] \<union> footprint c1 []) [] h h2"
      using moves_trans [OF 1(3)] moves_frame [OF 2(3) rep_footprint [OF 1(2)]] by simp
    have m3: "moves {} (footprint c3 [] \<union> (footprint c2 [] \<union> footprint c1 [])) [] h h3"
      using moves_trans [OF m2] moves_frame [OF 3(3), of "footprint c2 [] \<union> footprint c1 []"]
        rep_footprint [OF 2(2)] rep_footprint [OF r1(1)] by simp
    have m4: "moves {} (footprint c4 [] \<union> (footprint c3 [] \<union> (footprint c2 [] \<union> footprint c1 []))) [] h h4"
      using moves_trans [OF m3] moves_frame [OF 4(3), of "footprint c3 [] \<union> (footprint c2 [] \<union> footprint c1 [])"]
        rep_footprint [OF 3(2)] rep_footprint [OF r2(1)] rep_footprint [OF r1(2)] by simp
    have "arc_total (arc_sel ?a) (\<lambda>_. []) {} = footprint c4 [] \<union> (footprint c3 [] \<union> (footprint c2 [] \<union> footprint c1 []))"
      unfolding arc_total_def UNIV_arc_list by auto
    then show ?thesis using m4 by simp
  qed
  ultimately show ?thesis using that [OF call] by simp
qed

end
