(* ===== verification/Cache_Props.thy ===== *)
theory Cache_Props
  imports Arc_Reach
begin

text \<open>
  The properties of the two caches, with concrete runs.
\<close>

subsection \<open>Lookups\<close>

definition main_pairs :: "('k, 'v) arc_lists \<Rightarrow> ('k \<times> 'v) set" where
  "main_pairs K = set (K Recent) \<union> set (K Frequent)"

lemma arc_lookup_iff:
  assumes "arc_ok h a A K N"
  shows "arc_lookup K j = Some w \<longleftrightarrow> (j, w) \<in> main_pairs K"
proof -
  note o = arc_okD [OF assms]
  have dis: "keys (K Recent) \<inter> keys (K Frequent) = {}" using o(2) by (simp add: apart_def)
  have R: "map_of (K Recent) j = Some w \<longleftrightarrow> (j, w) \<in> set (K Recent)"
    and F: "map_of (K Frequent) j = Some w \<longleftrightarrow> (j, w) \<in> set (K Frequent)"
    using map_of_eq_Some_iff [OF o(6) [of Recent]] map_of_eq_Some_iff [OF o(6) [of Frequent]] by simp_all
  show ?thesis
  proof (cases "j \<in> keys (K Frequent)")
    case True
    then have "j \<notin> keys (K Recent)" using dis by blast
    then have "(j, w) \<notin> set (K Recent)" by force
    then show ?thesis using True F by (simp add: arc_lookup_def main_pairs_def)
  next
    case False
    then have "(j, w) \<notin> set (K Frequent)" by force
    then show ?thesis using False R by (simp add: arc_lookup_def main_pairs_def)
  qed
qed

lemma demote_main: "i \<in> {Recent, Frequent} \<Longrightarrow> g \<in> {RecentEvict, FrequentEvict} \<Longrightarrow> main_pairs (al_demote cap i g K) \<subseteq> main_pairs K"
  by (auto simp: al_demote_def main_pairs_def dest: in_set_butlastD)

lemma al_replace_main_pairs: "main_pairs (fst (al_replace cap p fck K)) \<subseteq> main_pairs K"
  using demote_main [of Recent RecentEvict cap K] demote_main [of Frequent FrequentEvict cap K]
  by (simp add: al_replace_def)

lemma al_promote_main_pairs:
  "e \<in> main_pairs (fst (al_promote cap e K))" "main_pairs (fst (al_promote cap e K)) \<subseteq> insert e (main_pairs K)"
  by (auto simp: al_promote_def main_pairs_def dest: in_set_butlastD)

lemma al_arc_put_main_pairs:
  assumes "al_arc_put cap p k v K = (p', K', l)"
  shows "(k, v) \<in> main_pairs K'" and "main_pairs K' \<subseteq> insert (k, v) (main_pairs K)"
proof -
  have rm: "main_pairs (K(i := bt_remove k (K i))) \<subseteq> main_pairs K" for i
    by (auto simp: main_pairs_def bt_remove_def split: if_splits)
  have tr: "(k, v) \<in> main_pairs (fst (al_promote cap (k, v) (fst (al_replace cap q b (K(i := bt_remove k (K i))))))) \<and>
      main_pairs (fst (al_promote cap (k, v) (fst (al_replace cap q b (K(i := bt_remove k (K i))))))) \<subseteq> insert (k, v) (main_pairs K)" for q b i
    using al_promote_main_pairs [where e = "(k, v)" and cap = cap and K = "fst (al_replace cap q b (K(i := bt_remove k (K i))))"]
      al_replace_main_pairs [of cap q b "K(i := bt_remove k (K i))"] rm [of i] by blast
  consider "k \<in> keys (K Recent)" | "k \<notin> keys (K Recent)" "k \<in> keys (K Frequent)"
    | "k \<notin> keys (K Recent)" "k \<notin> keys (K Frequent)" "k \<in> keys (K RecentEvict)"
    | "k \<notin> keys (K Recent)" "k \<notin> keys (K Frequent)" "k \<notin> keys (K RecentEvict)" "k \<in> keys (K FrequentEvict)"
    | "k \<notin> keys (K Recent)" "k \<notin> keys (K Frequent)" "k \<notin> keys (K RecentEvict)" "k \<notin> keys (K FrequentEvict)"
    by blast
  then have "(k, v) \<in> main_pairs K' \<and> main_pairs K' \<subseteq> insert (k, v) (main_pairs K)"
  proof cases
    case 1
    then have "K' = fst (al_promote cap (k, v) (K(Recent := bt_remove k (K Recent))))"
      using assms by (auto simp: al_arc_put_def)
    then show ?thesis
      using al_promote_main_pairs [where e = "(k, v)" and cap = cap and K = "K(Recent := bt_remove k (K Recent))"] rm [of Recent] by blast
  next
    case 2
    then have "K' = K(Frequent := (k, v) # bt_remove k (K Frequent))" using assms by (auto simp: al_arc_put_def)
    then show ?thesis by (auto simp: main_pairs_def bt_remove_def)
  next
    case 3
    then have "K' = fst (al_promote cap (k, v) (fst (al_replace cap p' False (K(RecentEvict := bt_remove k (K RecentEvict))))))"
      using assms by (auto simp: al_arc_put_def Let_def split: prod.splits)
    then show ?thesis using tr by simp
  next
    case 4
    then have "K' = fst (al_promote cap (k, v) (fst (al_replace cap p' True (K(FrequentEvict := bt_remove k (K FrequentEvict))))))"
      using assms by (auto simp: al_arc_put_def Let_def split: prod.splits)
    then show ?thesis using tr by simp
  next
    case 5
    let ?K = "fst (al_replace cap p False K)"
    have K': "K' = ?K(Recent := snd (al_put cap k v (?K Recent)))"
      using assms 5 by (auto simp: al_arc_put_def split: prod.splits)
    have "(k, v) \<in> set (snd (al_put cap k v kvs))" "set (snd (al_put cap k v kvs)) \<subseteq> insert (k, v) (set kvs)" for kvs
      by (auto simp: al_put_def bt_remove_def split: option.splits dest: in_set_butlastD)
    then show ?thesis
      using al_replace_main_pairs [of cap p False K] unfolding K' main_pairs_def by auto
  qed
  then show "(k, v) \<in> main_pairs K'" "main_pairs K' \<subseteq> insert (k, v) (main_pairs K)" by blast+
qed

subsection \<open>Reachable caches\<close>

definition arc_reachable :: "usize \<Rightarrow> on_evict \<Rightarrow> ('k, 'v) arc_state \<Rightarrow> bool" where
  "arc_reachable cap ev s \<longleftrightarrow> (\<exists>s0. arc_with_on_evict cap ev empty_heap = Some s0 \<and> arc_step\<^sup>*\<^sup>* s0 s)"

lemma empty_heap_ok: "heap_ok empty_heap" "dom (cells empty_heap) = {}"
  by (simp_all add: heap_ok_def empty_heap_def)

lemma arc_start_live:
  fixes s0 :: "('k, 'v) arc_state"
  assumes "arc_with_on_evict cap ev empty_heap = Some s0" and "cap \<le> isize_max"
  shows "\<exists>A. arc_live s0 A (\<lambda>_. [])"
proof -
  obtain a A and h' :: "('k, 'v) lru_heap" where
    r: "arc_with_on_evict cap ev empty_heap = Some (a, h')" "arc_ok h' a A (\<lambda>_. []) {}" "arc_capacity a = cap"
      "arc_p a = cap div 2" "moves {} (arc_total (arc_sel a) A {}) [] empty_heap h'"
    using arc_with_on_evict_rep [OF empty_heap_ok(1)] by metis
  have "dom (cells h') = arc_total (arc_sel a) A {}" using movesD(5) [OF r(5)] by (simp add: empty_heap_def)
  then have "arc_live (a, h') A (\<lambda>_. [])" using r(2-4) assms(2) by (simp add: arc_live_def arc_inv_def)
  then show ?thesis using assms(1) r(1) by auto
qed

lemma arc_steps_live: "arc_step\<^sup>*\<^sup>* s s' \<Longrightarrow> arc_live s A K \<Longrightarrow> \<exists>A' K'. arc_live s' A' K'"
  by (induction rule: rtranclp_induct) (auto dest: arc_step_live)

lemma arc_reachable_live:
  assumes "arc_reachable cap ev s" and "cap \<le> isize_max"
  obtains A K where "arc_live s A K"
  using assms arc_start_live arc_steps_live unfolding arc_reachable_def by blast

lemma arc_live_len: "arc_live (a, h) A K \<Longrightarrow> arc_len a = length (K Recent) + length (K Frequent)"
  using arc_okD(7) [of h a A K "{}" Recent] arc_okD(7) [of h a A K "{}" Frequent]
  by (simp add: arc_live_def arc_len_def)


text \<open>
  C31: Every adaptive cache that a program reaches is well formed: its four lists are linked
  through live boxes and indexed by their hash maps, no key is in two of them, each list holds at
  most as many pairs as its capacity (one when the capacity is zero), and the live boxes are exactly
  the nodes and sentinels of the lists, so nothing is leaked and nothing is freed while in use.
\<close>

theorem arc_reachable_ok:
  assumes "arc_reachable cap ev (a, h)" and "cap \<le> isize_max"
  shows "\<exists>A K. arc_rep h (arc_sel a) A K {} \<and> apart K \<and> (\<forall>i. length (K i) \<le> max 1 (arc_capacity a))
     \<and> dom (cells h) = arc_total (arc_sel a) A {}"
proof -
  from arc_reachable_live [OF assms] obtain A K where l: "arc_live (a, h) A K" .
  then show ?thesis unfolding arc_live_def arc_ok_def arc_inv_def by auto
qed

text \<open>
  C32: In every adaptive cache that a program reaches, insertion returns, a lookup of the key then
  gives the value, and a lookup of another key gives what it gave before or nothing.
\<close>

theorem arc_put_then_peek:
  assumes "arc_reachable cap ev (a, h)" and "cap \<le> isize_max"
  shows "\<exists>a' h'. arc_put a k v h = Some (a', h') \<and> arc_peek_owned a' k h' = Some (Some (k, v))
     \<and> (\<forall>j. j \<noteq> k \<longrightarrow> arc_peek_owned a' j h' \<in> {Some None, arc_peek_owned a j h})"
proof -
  from arc_reachable_live [OF assms] obtain A K where live: "arc_live (a, h) A K" .
  note l = arc_liveD [OF live]
  obtain p' K' l' where sp: "al_arc_put (arc_capacity a) (arc_p a) k v K = (p', K', l')" by (metis prod_cases3)
  obtain a' h' where r: "arc_put a k v h = Some (a', h')" "arc_result h a A {} K' {} l' a' h'"
    using arc_put_refines [OF l(1,2) l(3) [unfolded isize_max_def] sp] by blast
  from r(2) obtain A' where ok': "arc_ok h' a' A' K' {}" by (rule arc_resultE)
  note pairs = al_arc_put_main_pairs [OF sp] and look = arc_lookup_iff [OF l(1)] and look' = arc_lookup_iff [OF ok']
  have peek: "arc_peek_owned a j h = Some (map_option (Pair j) (arc_lookup K j))"
    "arc_peek_owned a' j h' = Some (map_option (Pair j) (arc_lookup K' j))" for j
    unfolding arc_peek_owned_def by (rule arc_peek_refines [OF l(1)], rule arc_peek_refines [OF ok'])
  have "arc_lookup K' k = Some v" using look' [of k v] pairs(1) by simp
  have "arc_lookup K' j \<in> {None, arc_lookup K j}" if "j \<noteq> k" for j
  proof (cases "arc_lookup K' j")
    case (Some w)
    then have "(j, w) \<in> main_pairs K" using look' [of j w] pairs(2) that by auto
    then show ?thesis using look [of j w] Some by simp
  qed simp
  note other = this
  have "arc_peek_owned a' j h' \<in> {Some None, arc_peek_owned a j h}" if "j \<noteq> k" for j
    using other [OF that] unfolding peek by auto
  moreover have "arc_peek_owned a' k h' = Some (Some (k, v))"
    using \<open>arc_lookup K' k = Some v\<close> unfolding peek by simp
  ultimately show ?thesis using r(1) by blast
qed

text \<open>
  C33: An adaptive cache never holds more than one pair more than its capacity.
\<close>

theorem arc_len_bound:
  assumes "arc_reachable cap ev (a, h)" and "cap \<le> isize_max"
  shows "arc_len a \<le> arc_capacity a + 1"
proof -
  from arc_reachable_live [OF assms] obtain A K where l: "arc_live (a, h) A K" .
  then show ?thesis using arc_live_len [OF l] by (simp add: arc_live_def arc_inv_def)
qed


text \<open>
  C30: Insertion into the least recently used cache implements insertion into a list of pairs:
  on a heap that represents a list it returns, what it returns and the list that the heap represents
  afterwards are those of the list operation, the handler is called exactly for an evicted pair, and
  no other box of the heap changes.
\<close>

theorem lru_put_implements_list:
  assumes "lru_rep h c as kvs" and "heap_ok h"
  shows "\<exists>c' as' h'. lru_put c k v h = Some (fst (al_put (lru_capacity c) k v kvs), c', h')
     \<and> lru_rep h' c' as' (snd (al_put (lru_capacity c) k v kvs))
     \<and> moves (footprint c as) (footprint c' as') (al_evicts (lru_on_evict c) (lru_capacity c) k kvs) h h'"
  using lru_put_refines [OF assms] by blast

subsection \<open>Concrete runs\<close>

lemma arc_live_put:
  assumes live: "arc_live (a, h) A K" and sp: "al_arc_put (arc_capacity a) (arc_p a) k v K = (p', K', l')"
  obtains a' h' A' where "arc_put a k v h = Some (a', h')" and "arc_live (a', h') A' K'" and "arc_p a' = p'"
    and "arc_capacity a' = arc_capacity a" and "arc_on_evict a' = arc_on_evict a"
    and "evict_log h' = evict_log h @ logged (arc_on_evict a) l'"
proof -
  note l = arc_liveD [OF live]
  obtain a' h' where r: "arc_put a k v h = Some (a', h')" "arc_p a' = p'" "arc_capacity a' = arc_capacity a"
    "arc_on_evict a' = arc_on_evict a" "arc_result h a A {} K' {} l' a' h'"
    using arc_put_refines [OF l(1,2) l(3) [unfolded isize_max_def] sp] by blast
  have "arc_inv (arc_capacity a') (arc_p a') K'" using al_arc_put_inv [OF l(2) sp] r(2,3) by simp
  from arc_live_result [OF live r(5) this] l(3) r(3) obtain A' where "arc_live (a', h') A' K'" by auto
  moreover have "evict_log h' = evict_log h @ logged (arc_on_evict a) l'"
    using r(5) by (auto simp: arc_result_def dest: movesD(6))
  ultimately show ?thesis using that r(1-4) by blast
qed

lemma arc_live_contains: "arc_live (a, h) A K \<Longrightarrow> arc_contains a k \<longleftrightarrow> k \<in> keys (K Recent) \<or> k \<in> keys (K Frequent)"
  using lru_contains_iff [OF arc_okD(5) [of h a A K "{}" Recent]] lru_contains_iff [OF arc_okD(5) [of h a A K "{}" Frequent]]
  by (simp add: arc_live_def arc_contains_def)

definition ex_lists :: "(nat \<times> nat) list \<Rightarrow> (nat \<times> nat) list \<Rightarrow> (nat \<times> nat) list \<Rightarrow> (nat \<times> nat) list \<Rightarrow> (nat, nat) arc_lists" where
  "ex_lists r re f fe i = (case i of Recent \<Rightarrow> r | RecentEvict \<Rightarrow> re | Frequent \<Rightarrow> f | FrequentEvict \<Rightarrow> fe)"

lemma ex_lists_simps [simp]:
  "ex_lists r re f fe Recent = r" "ex_lists r re f fe RecentEvict = re"
  "ex_lists r re f fe Frequent = f" "ex_lists r re f fe FrequentEvict = fe"
  "(ex_lists r re f fe)(Recent := x) = ex_lists x re f fe" "(ex_lists r re f fe)(RecentEvict := x) = ex_lists r x f fe"
  "(ex_lists r re f fe)(Frequent := x) = ex_lists r re x fe" "(ex_lists r re f fe)(FrequentEvict := x) = ex_lists r re f x"
  by (auto simp: ex_lists_def split: arc_list.splits)

lemmas ex_cache_eval = al_arc_put_def al_replace_def al_promote_def al_demote_def al_push_def al_put_def bt_remove_def

lemma ex_cache_runs:
  "al_arc_put 2 1 1 10 (ex_lists [] [] [] []) = (1, ex_lists [(1, 10)] [] [] [], [])"
  "al_arc_put 2 1 2 20 (ex_lists [(1, 10)] [] [] []) = (1, ex_lists [(2, 20), (1, 10)] [] [] [], [])"
  "al_arc_put 2 1 3 30 (ex_lists [(2, 20), (1, 10)] [] [] []) = (1, ex_lists [(3, 30), (2, 20)] [(1, 10)] [] [], [(1, 10)])"
  "al_arc_put 2 1 1 11 (ex_lists [(3, 30), (2, 20)] [(1, 10)] [] []) = (2, ex_lists [(3, 30), (2, 20)] [] [(1, 11)] [], [])"
  "al_arc_put 2 2 4 40 (ex_lists [(3, 30), (2, 20)] [] [(1, 11)] []) = (2, ex_lists [(4, 40), (3, 30)] [] [] [(1, 11)], [(1, 11)])"
  by (simp_all add: ex_cache_eval)

text \<open>
  C34: A run of an adaptive cache of capacity 2 after which it holds three pairs, and in which the
  next insertion drops a pair that is neither reported to the eviction handler nor kept in a ghost
  list: the entry for key 2 is gone and no call of the handler names it.
\<close>

theorem arc_over_capacity_drop:
  "\<exists>a h a' h'. arc_reachable 2 EvictHandler (a, h :: (nat, nat) lru_heap) \<and> arc_capacity a = 2 \<and> arc_len a = 3
     \<and> arc_contains a 2 \<and> arc_put a 4 40 h = Some (a', h') \<and> \<not> arc_contains a' 2
     \<and> \<not> lru_contains (arc_recent_evict a') 2 \<and> \<not> lru_contains (arc_frequent_evict a') 2
     \<and> 2 \<notin> fst ` set (evict_log h')"
proof -
  obtain a0 A0 and h0 :: "(nat, nat) lru_heap" where 0: "arc_with_on_evict 2 EvictHandler empty_heap = Some (a0, h0)"
    "arc_capacity a0 = 2" "arc_p a0 = 1" "arc_on_evict a0 = EvictHandler" "moves {} (arc_total (arc_sel a0) A0 {}) [] empty_heap h0"
    by (rule arc_with_on_evict_rep [OF empty_heap_ok(1), of 2 EvictHandler]) simp
  have nil: "(\<lambda>_. []) = ex_lists [] [] [] []" by (auto simp: ex_lists_def split: arc_list.splits)
  have log0: "evict_log h0 = []" using movesD(6) [OF 0(5)] by (simp add: empty_heap_def)
  from arc_start_live [OF 0(1)] obtain B where l0: "arc_live (a0, h0) B (ex_lists [] [] [] [])"
    by (auto simp: isize_max_def nil)
  obtain a1 h1 A1 where 1: "arc_put a0 1 10 h0 = Some (a1, h1)" "arc_live (a1, h1) A1 (ex_lists [(1, 10)] [] [] [])"
    "arc_p a1 = 1" "arc_capacity a1 = 2" "arc_on_evict a1 = EvictHandler" "evict_log h1 = []"
    by (rule arc_live_put [OF l0, unfolded 0 log0, OF ex_cache_runs(1)]) simp
  obtain a2 h2 A2 where 2: "arc_put a1 2 20 h1 = Some (a2, h2)" "arc_live (a2, h2) A2 (ex_lists [(2, 20), (1, 10)] [] [] [])"
    "arc_p a2 = 1" "arc_capacity a2 = 2" "arc_on_evict a2 = EvictHandler" "evict_log h2 = []"
    by (rule arc_live_put [OF 1(2), unfolded 1, OF ex_cache_runs(2)]) simp
  obtain a3 h3 A3 where 3: "arc_put a2 3 30 h2 = Some (a3, h3)" "arc_live (a3, h3) A3 (ex_lists [(3, 30), (2, 20)] [(1, 10)] [] [])"
    "arc_p a3 = 1" "arc_capacity a3 = 2" "arc_on_evict a3 = EvictHandler" "evict_log h3 = [(1, 10)]"
    by (rule arc_live_put [OF 2(2), unfolded 2, OF ex_cache_runs(3)]) simp
  obtain a4 h4 A4 where 4: "arc_put a3 1 11 h3 = Some (a4, h4)" "arc_live (a4, h4) A4 (ex_lists [(3, 30), (2, 20)] [] [(1, 11)] [])"
    "arc_p a4 = 2" "arc_capacity a4 = 2" "arc_on_evict a4 = EvictHandler" "evict_log h4 = [(1, 10)]"
    by (rule arc_live_put [OF 3(2), unfolded 3, OF ex_cache_runs(4)]) simp
  obtain a5 h5 A5 where 5: "arc_put a4 4 40 h4 = Some (a5, h5)" "arc_live (a5, h5) A5 (ex_lists [(4, 40), (3, 30)] [] [] [(1, 11)])"
    "evict_log h5 = [(1, 10), (1, 11)]"
    by (rule arc_live_put [OF 4(2), unfolded 4, OF ex_cache_runs(5)]) simp
  have "arc_step\<^sup>*\<^sup>* (a0, h0) (a4, h4)"
    using arc_step.Put [OF 1(1)] arc_step.Put [OF 2(1)] arc_step.Put [OF 3(1)] arc_step.Put [OF 4(1)]
    by (meson converse_rtranclp_into_rtranclp r_into_rtranclp)
  then have "arc_reachable 2 EvictHandler (a4, h4)" using 0(1) unfolding arc_reachable_def by blast
  moreover have "arc_len a4 = 3" "arc_contains a4 2" "\<not> arc_contains a5 2"
    using arc_live_len [OF 4(2)] arc_live_contains [OF 4(2)] arc_live_contains [OF 5(2)] by simp_all
  moreover have "\<not> lru_contains (arc_recent_evict a5) 2" "\<not> lru_contains (arc_frequent_evict a5) 2"
    using lru_contains_iff [OF arc_okD(5) [OF arc_liveD(1) [OF 5(2)], of RecentEvict]]
      lru_contains_iff [OF arc_okD(5) [OF arc_liveD(1) [OF 5(2)], of FrequentEvict]] by simp_all
  ultimately show ?thesis using 4(4) 5(1,3) by (intro exI [of _ a4] exI [of _ h4] exI [of _ a5] exI [of _ h5]) simp
qed


text \<open>The properties at an empty cache of capacity 1.\<close>

lemma ex_fresh_cache: "\<exists>a h. arc_reachable 1 NoOpEvict (a, h :: (nat, nat) lru_heap)"
proof -
  obtain a A and h :: "(nat, nat) lru_heap" where "arc_with_on_evict 1 NoOpEvict empty_heap = Some (a, h)"
    by (rule arc_with_on_evict_rep [OF empty_heap_ok(1), of 1 NoOpEvict])
  then show ?thesis unfolding arc_reachable_def by blast
qed

theorem arc_reachable_ok_witness:
  "\<exists>a h A K. arc_reachable 1 NoOpEvict (a, h :: (nat, nat) lru_heap) \<and> arc_rep h (arc_sel a) A K {}
     \<and> dom (cells h) = arc_total (arc_sel a) A {}"
proof -
  from ex_fresh_cache obtain a and h :: "(nat, nat) lru_heap" where r: "arc_reachable 1 NoOpEvict (a, h)" by blast
  from arc_reachable_ok [OF r] r show ?thesis by (auto simp: isize_max_def)
qed

theorem arc_put_then_peek_witness:
  "\<exists>a h a' h'. arc_reachable 1 NoOpEvict (a, h :: (nat, nat) lru_heap) \<and> arc_put a 7 70 h = Some (a', h')
     \<and> arc_peek_owned a' 7 h' = Some (Some (7, 70))"
proof -
  from ex_fresh_cache obtain a and h :: "(nat, nat) lru_heap" where r: "arc_reachable 1 NoOpEvict (a, h)" by blast
  from arc_put_then_peek [OF r, of 7 70] r show ?thesis by (auto simp: isize_max_def)
qed

theorem arc_len_bound_witness:
  "\<exists>a h. arc_reachable 1 NoOpEvict (a, h :: (nat, nat) lru_heap) \<and> arc_len a \<le> arc_capacity a + 1"
proof -
  from ex_fresh_cache obtain a and h :: "(nat, nat) lru_heap" where r: "arc_reachable 1 NoOpEvict (a, h)" by blast
  from arc_len_bound [OF r] r show ?thesis by (auto simp: isize_max_def)
qed

theorem lru_put_implements_list_witness:
  "\<exists>c h c' as' h'. with_on_evict 1 EvictHandler empty_heap = Some (c, h)
     \<and> lru_put c (3 :: nat) True h = Some (None, c', h') \<and> lru_rep h' c' as' [(3, True)]"
proof -
  obtain c and h :: "(nat, bool) lru_heap" where w: "with_on_evict 1 EvictHandler empty_heap = Some (c, h)" "lru_rep h c [] []"
    "moves {} (footprint c []) [] empty_heap h" "lru_capacity c = 1"
    by (rule with_on_evict_rep [OF empty_heap_ok(1), of 1 EvictHandler])
  from lru_put_implements_list [OF w(2) moves_heap_ok [OF w(3)], of 3 True] show ?thesis
    using w(1,4) by (auto simp: al_put_def)
qed

end
