(* ===== verification/Early_Alloc.thy ===== *)
theory Early_Alloc
  imports Machine_Align Phys_Memory Linked_Nodes
begin

text \<open>
  The allocator of early boot (\<open>kernel/src/memory/early.rs\<close>) with the two functions of
  \<open>kernel/src/memory/heap.rs\<close> through which the kernel heap calls it. Free memory is a list of
  regions, highest address first, whose headers are stored at the start of the regions themselves;
  an allocation takes the end of the first region that is large enough. The model keeps the headers
  in a store indexed by virtual address, and arithmetic that would overflow is \<open>Panicked\<close>.
\<close>

subsection \<open>Definitions\<close>

abbreviation LOW_MEM_THRESHOLD :: usize where
  "LOW_MEM_THRESHOLD \<equiv> 0x10000"

text \<open>\<open>align_of\<close> and \<open>size_of\<close> of the header: a pointer and a \<open>usize\<close>.\<close>

abbreviation REGION_ALIGN :: usize where
  "REGION_ALIGN \<equiv> 8"

abbreviation REGION_SIZE :: usize where
  "REGION_SIZE \<equiv> 16"

record free_region =
  region_next :: ptr
  region_size :: usize

type_synonym region_mem = "ptr \<rightharpoonup> free_region"

definition region_init :: "usize \<Rightarrow> usize \<Rightarrow> region_mem \<Rightarrow> ptr \<times> region_mem" where
  "region_init addr sz m = (addr, m(addr \<mapsto> \<lparr>region_next = null, region_size = sz\<rparr>))"

definition region_end :: "ptr \<Rightarrow> free_region \<Rightarrow> usize outcome" where
  "region_end a r = checked_add a (region_size r)"

record early_allocator =
  early_head :: ptr

type_synonym early_state = "early_allocator \<times> region_mem"

definition early_new :: early_allocator where
  "early_new = \<lparr>early_head = null\<rparr>"

definition early_is_empty :: "early_allocator \<Rightarrow> bool" where
  "early_is_empty self \<longleftrightarrow> early_head self = null"

text \<open>The loop of \<open>insert_node\<close>: the last node above the new address.\<close>

partial_function (option) insert_seek :: "region_mem \<Rightarrow> ptr \<Rightarrow> ptr \<Rightarrow> ptr outcome" where
  "insert_seek m prev new_addr = do {
     r \<leftarrow> m prev;
     if region_next r \<noteq> null \<and> region_next r > new_addr then insert_seek m (region_next r) new_addr
     else Returned prev
   }"

definition insert_node :: "early_allocator \<Rightarrow> ptr \<Rightarrow> region_mem \<Rightarrow> early_state outcome" where
  "insert_node self new_node m =
     (if early_head self = null \<or> new_node > early_head self
      then do {
        n \<leftarrow> m new_node;
        Returned (self\<lparr>early_head := new_node\<rparr>, m(new_node \<mapsto> n\<lparr>region_next := early_head self\<rparr>))
      }
      else do {
        prev \<leftarrow> insert_seek m (early_head self) new_node;
        p \<leftarrow> m prev;
        n \<leftarrow> m new_node;
        let m1 = m(new_node \<mapsto> n\<lparr>region_next := region_next p\<rparr>);
        q \<leftarrow> m1 prev;
        Returned (self, m1(prev \<mapsto> q\<lparr>region_next := new_node\<rparr>))
      })"

text \<open>The part of a region above the low 64 KiB, if any.\<close>

definition clip_low :: "usize \<Rightarrow> usize \<Rightarrow> (usize \<times> usize) option outcome" where
  "clip_low phys_start sz =
     (if phys_start < LOW_MEM_THRESHOLD
      then do {
        end \<leftarrow> checked_add phys_start sz;
        Returned (if end \<le> LOW_MEM_THRESHOLD then None
                  else Some (LOW_MEM_THRESHOLD, end - LOW_MEM_THRESHOLD))
      }
      else Returned (Some (phys_start, sz)))"

definition add_region :: "usize \<Rightarrow> usize \<Rightarrow> usize \<Rightarrow> early_state \<Rightarrow> early_state outcome" where
  "add_region off phys_start sz0 s = do {
     clipped \<leftarrow> clip_low phys_start sz0;
     (case clipped of
        None \<Rightarrow> Returned s
      | Some (start, sz) \<Rightarrow> do {
          padded \<leftarrow> checked_add start REGION_ALIGN;
          let aligned_start = align_down_mask (padded - 1) REGION_ALIGN;
          end \<leftarrow> checked_add start sz;
          if aligned_start \<ge> end then Returned s
          else if end - aligned_start < REGION_SIZE then Returned s
          else do {
            virt_addr \<leftarrow> phys_to_virt off aligned_start;
            let (new_node, m) = region_init virt_addr (end - aligned_start) (snd s);
            insert_node (fst s) new_node m
          }
        })
   }"

record layout =
  layout_size :: usize
  layout_align :: usize

text \<open>What happens to the list when the block at \<open>alloc_start\<close> is cut from the region \<open>cur\<close>.\<close>

definition cut_region ::
    "early_allocator \<Rightarrow> ptr \<Rightarrow> ptr \<Rightarrow> free_region \<Rightarrow> usize \<Rightarrow> region_mem \<Rightarrow> early_state outcome" where
  "cut_region self prev cur region alloc_start m =
     (let leftover = alloc_start - cur
      in if leftover < REGION_SIZE
      then (if prev = null then Returned (self\<lparr>early_head := region_next region\<rparr>, m)
            else do { p \<leftarrow> m prev; Returned (self, m(prev \<mapsto> p\<lparr>region_next := region_next region\<rparr>)) })
      else Returned (self, m(cur \<mapsto> region\<lparr>region_size := leftover\<rparr>)))"

partial_function (option) early_alloc_loop ::
    "usize \<Rightarrow> usize \<Rightarrow> usize \<Rightarrow> early_allocator \<Rightarrow> region_mem \<Rightarrow> ptr \<Rightarrow> ptr \<Rightarrow> (usize option \<times> early_state) outcome" where
  "early_alloc_loop off sz align self m prev cur =
     (if cur = null then Returned (None, self, m)
      else do {
        region \<leftarrow> m cur;
        rend \<leftarrow> region_end cur region;
        (case checked_sub rend sz of
           None \<Rightarrow> early_alloc_loop off sz align self m cur (region_next region)
         | Some unaligned \<Rightarrow>
             let alloc_start = align_down_mask unaligned align
             in if alloc_start \<ge> cur
             then do {
               s \<leftarrow> cut_region self prev cur region alloc_start m;
               phys \<leftarrow> virt_to_phys off alloc_start;
               Returned (Some phys, s)
             }
             else early_alloc_loop off sz align self m cur (region_next region))
      })"

definition early_alloc :: "usize \<Rightarrow> layout \<Rightarrow> early_state \<Rightarrow> (usize option \<times> early_state) outcome" where
  "early_alloc off l s =
     (let sz = max (layout_size l) 1;
          align = max (layout_align l) 8
      in early_alloc_loop off sz align (fst s) (snd s) null (early_head (fst s)))"

text \<open>The regions as \<open>iter_regions\<close> yields them, by physical address.\<close>

partial_function (option) iter_regions :: "usize \<Rightarrow> region_mem \<Rightarrow> ptr \<Rightarrow> (usize \<times> usize) list outcome" where
  "iter_regions off m current =
     (if current = null then Returned []
      else do {
        region \<leftarrow> m current;
        phys_start \<leftarrow> virt_to_phys off current;
        rest \<leftarrow> iter_regions off m (region_next region);
        Returned ((phys_start, region_size region) # rest)
      })"

datatype arena_reserve_reason = X86GlobalDescriptorTable

datatype arena_kind =
    Usable
  | Reserved
  | AcpiReclaimable
  | AcpiNvs
  | BadMemory
  | BootloaderProvideInfo
  | BootloaderReserved arena_reserve_reason
  | ExecutableAndModules
  | KernelStack
  | KernelPageTable
  | KernelSymbolTable
  | KernelReserved
  | Framebuffer
  | EndOfMemoryMap
  | UnknownArena usize

record arena =
  arena_start :: usize
  arena_end :: usize
  arena_kind :: arena_kind

text \<open>The memory map up to its end marker.\<close>

primrec memory_map_iter :: "arena list \<Rightarrow> arena list" where
  "memory_map_iter [] = []"
| "memory_map_iter (a # as) = (if arena_kind a = EndOfMemoryMap then [] else a # memory_map_iter as)"

primrec init_from_map :: "usize \<Rightarrow> arena list \<Rightarrow> early_state \<Rightarrow> early_state outcome" where
  "init_from_map off [] s = Returned s"
| "init_from_map off (a # as) s =
     (if arena_kind a = Usable
      then do {
        sz \<leftarrow> checked_sub (arena_end a) (arena_start a);
        s1 \<leftarrow> add_region off (arena_start a) sz s;
        init_from_map off as s1
      }
      else init_from_map off as s)"

text \<open>\<open>boot_heap_alloc\<close> and \<open>boot_heap_dealloc\<close> of the kernel heap.\<close>

definition boot_heap_alloc :: "usize \<Rightarrow> layout \<Rightarrow> early_state \<Rightarrow> (ptr option \<times> early_state) outcome" where
  "boot_heap_alloc off l s = do {
     (r, s1) \<leftarrow> early_alloc off l s;
     Returned (case r of
        None \<Rightarrow> (None, s1)
      | Some phys \<Rightarrow> (case phys_to_virt off phys of
           None \<Rightarrow> (None, s1)
         | Some virt \<Rightarrow> (if virt = null then None else Some virt, s1)))
   }"

definition boot_heap_dealloc :: "usize \<Rightarrow> ptr \<Rightarrow> layout \<Rightarrow> early_state \<Rightarrow> early_state outcome" where
  "boot_heap_dealloc off p l s =
     (case virt_to_phys off p of
        None \<Rightarrow> Returned s
      | Some phys \<Rightarrow> add_region off phys (max (layout_size l) 1) s)"

end
