(* ===== verification/Early_Refine.thy ===== *)
theory Early_Refine
  imports Early_Alloc
begin

text \<open>
  The early allocator implements first fit on a list of disjoint regions. \<open>free_list m a rs\<close> says
  that the headers in \<open>m\<close> chain the regions \<open>rs\<close> from the address \<open>a\<close>; \<open>region_insert\<close> and
  \<open>early_take\<close> are the list versions of insertion and allocation.
\<close>

subsection \<open>The chain of headers\<close>

type_synonym region = "usize \<times> usize"

fun free_list :: "region_mem \<Rightarrow> ptr \<Rightarrow> region list \<Rightarrow> bool" where
  "free_list m a [] \<longleftrightarrow> a = null"
| "free_list m a ((b, n) # rs) \<longleftrightarrow>
     a = b \<and> b \<noteq> null \<and> (\<exists>r. m b = Some r \<and> region_size r = n \<and> free_list m (region_next r) rs)"

abbreviation starts :: "region list \<Rightarrow> usize set" where
  "starts rs \<equiv> fst ` set rs"

lemma free_list_null [simp]: "free_list m 0 rs \<longleftrightarrow> rs = []"
  by (cases rs) auto

lemma free_list_cong:
  "(\<And>x. x \<in> starts rs \<Longrightarrow> m' x = m x) \<Longrightarrow> free_list m' a rs \<longleftrightarrow> free_list m a rs"
  by (induction m a rs rule: free_list.induct) auto

lemma free_list_upd [simp]: "x \<notin> starts rs \<Longrightarrow> free_list (m(x := v)) a rs \<longleftrightarrow> free_list m a rs"
  by (rule free_list_cong) auto

lemma free_list_not_null: "free_list m a rs \<Longrightarrow> null \<notin> starts rs"
  by (induction m a rs rule: free_list.induct) auto

lemma free_list_ConsE:
  assumes "free_list m a ((b, n) # rs)"
  obtains r where "a = b" "b \<noteq> null" "m b = Some r" "region_size r = n" "free_list m (region_next r) rs"
  using assms by auto

lemma free_list_Cons_intro:
  "m b = Some r \<Longrightarrow> region_size r = n \<Longrightarrow> b \<noteq> null \<Longrightarrow> free_list m (region_next r) rs \<Longrightarrow> free_list m b ((b, n) # rs)"
  by auto

subsection \<open>Insertion\<close>

fun region_insert :: "region \<Rightarrow> region list \<Rightarrow> region list" where
  "region_insert e [] = [e]"
| "region_insert e (x # xs) = (if fst e > fst x then e # x # xs else x # region_insert e xs)"

lemma set_region_insert [simp]: "set (region_insert e rs) = insert e (set rs)"
  by (induction e rs rule: region_insert.induct) auto

lemma insert_seek_refines:
  assumes "free_list m a ((a, k) # rs)" and "distinct (map fst ((a, k) # rs))"
    and "new \<notin> starts ((a, k) # rs)" and "new < a" and "new \<noteq> null"
    and "m new = Some N"
  shows "\<exists>prev p. insert_seek m a new = Some prev \<and> m prev = Some p \<and> prev \<in> starts ((a, k) # rs)
     \<and> free_list (m(new \<mapsto> N\<lparr>region_next := region_next p\<rparr>, prev \<mapsto> p\<lparr>region_next := new\<rparr>)) a
         (region_insert (new, region_size N) ((a, k) # rs))"
  using assms
proof (induction rs arbitrary: a k)
  case Nil
  then obtain r where r: "m a = Some r" "region_size r = k" "region_next r = null" "a \<noteq> null" by auto
  then have "insert_seek m a new = Some a" by (subst insert_seek.simps) simp
  then show ?case using Nil r by simp
next
  case (Cons x rs)
  obtain b kb where x: "x = (b, kb)" by (cases x)
  from Cons.prems(1) obtain r where r: "a \<noteq> null" "m a = Some r" "region_size r = k" "free_list m (region_next r) (x # rs)"
    by (rule free_list_ConsE)
  from r(4) have b: "region_next r = b" "b \<noteq> null" unfolding x by auto
  show ?case
  proof (cases "new < b")
    case True
    have "\<exists>prev p. insert_seek m b new = Some prev \<and> m prev = Some p \<and> prev \<in> starts ((b, kb) # rs)
     \<and> free_list (m(new \<mapsto> N\<lparr>region_next := region_next p\<rparr>, prev \<mapsto> p\<lparr>region_next := new\<rparr>)) b
         (region_insert (new, region_size N) ((b, kb) # rs))"
      by (rule Cons.IH) (use Cons.prems r b x True in auto)
    then obtain prev p where p: "insert_seek m b new = Some prev" "m prev = Some p" "prev \<in> starts ((b, kb) # rs)"
      "free_list (m(new \<mapsto> N\<lparr>region_next := region_next p\<rparr>, prev \<mapsto> p\<lparr>region_next := new\<rparr>)) b
         (region_insert (new, region_size N) ((b, kb) # rs))" by blast
    have "insert_seek m a new = Some prev"
      using r b p(1) True by (subst insert_seek.simps) simp
    moreover have ne: "a \<noteq> prev" "a \<noteq> new" using Cons.prems(2-4) p(3) x by auto
    have "free_list (m(new \<mapsto> N\<lparr>region_next := region_next p\<rparr>, prev \<mapsto> p\<lparr>region_next := new\<rparr>)) a
         ((a, k) # region_insert (new, region_size N) ((b, kb) # rs))"
      by (rule free_list_Cons_intro [where r = r]) (use r b ne p(4) in simp_all)
    then have "free_list (m(new \<mapsto> N\<lparr>region_next := region_next p\<rparr>, prev \<mapsto> p\<lparr>region_next := new\<rparr>)) a
         (region_insert (new, region_size N) ((a, k) # x # rs))"
      using Cons.prems(4) unfolding x by (subst region_insert.simps(2)) simp
    moreover have "prev \<in> starts ((a, k) # x # rs)" using p(3) x by simp
    ultimately show ?thesis using p(2) by blast
  next
    case False
    then have lt: "b < new" using Cons.prems(3) x by (cases "b = new") auto
    have seek: "insert_seek m a new = Some a"
      using r b lt by (subst insert_seek.simps) simp
    have fl: "free_list (m(new \<mapsto> N\<lparr>region_next := region_next r\<rparr>, a \<mapsto> r\<lparr>region_next := new\<rparr>)) a
        ((a, k) # (new, region_size N) # x # rs)"
    proof -
      let ?m = "m(new \<mapsto> N\<lparr>region_next := region_next r\<rparr>, a \<mapsto> r\<lparr>region_next := new\<rparr>)"
      have "a \<notin> starts (x # rs)" "new \<notin> starts (x # rs)" "a \<noteq> new" using Cons.prems(2,3) by auto
      then have "free_list ?m (region_next r) (x # rs)" using r(4) by (subst free_list_cong [where m = m]) auto
      then have "free_list ?m new ((new, region_size N) # x # rs)"
        using Cons.prems(5) \<open>a \<noteq> new\<close> by (intro free_list_Cons_intro [where r = "N\<lparr>region_next := region_next r\<rparr>"]) auto
      then show ?thesis
        using r by (intro free_list_Cons_intro [where r = "r\<lparr>region_next := new\<rparr>"]) auto
    qed
    have ins: "region_insert (new, region_size N) ((a, k) # x # rs) = (a, k) # (new, region_size N) # x # rs"
      using lt Cons.prems(4) x by simp
    show ?thesis
      unfolding ins by (intro exI conjI, rule seek, rule r(2), simp, rule fl)
  qed
qed

lemma insert_node_refines:
  assumes "free_list m (early_head self) rs" and "distinct (map fst rs)"
    and "new \<notin> starts rs" and "new \<noteq> null" and "m new = Some N"
  obtains self' m' where "insert_node self new m = Some (self', m')"
    and "free_list m' (early_head self') (region_insert (new, region_size N) rs)"
    and "\<And>x. x \<notin> insert new (starts rs) \<Longrightarrow> m' x = m x"
proof (cases "early_head self = null \<or> new > early_head self")
  case True
  let ?m = "m(new \<mapsto> N\<lparr>region_next := early_head self\<rparr>)"
  have "free_list ?m new ((new, region_size N) # rs)"
    using assms by (intro free_list_Cons_intro [where r = "N\<lparr>region_next := early_head self\<rparr>"]) auto
  moreover have "region_insert (new, region_size N) rs = (new, region_size N) # rs"
    using True assms(1) by (cases rs) auto
  ultimately show ?thesis
    using True assms(5) by (intro that [of "self\<lparr>early_head := new\<rparr>" ?m]) (auto simp: insert_node_def)
next
  case False
  then obtain k qs where rs: "rs = (early_head self, k) # qs"
    using assms(1) by (cases rs) auto
  then have "early_head self \<noteq> new" using assms(3) by auto
  then have lt: "new < early_head self" using False by auto
  from insert_seek_refines [of m "early_head self" k qs new N] assms lt
  obtain prev p where p: "insert_seek m (early_head self) new = Some prev" "m prev = Some p" "prev \<in> starts rs"
      "free_list (m(new \<mapsto> N\<lparr>region_next := region_next p\<rparr>, prev \<mapsto> p\<lparr>region_next := new\<rparr>)) (early_head self)
         (region_insert (new, region_size N) rs)"
    unfolding rs by blast
  have "prev \<noteq> new" using p(3) assms(3) by auto
  then show ?thesis
    using False p assms(5)
    by (intro that [of self "m(new \<mapsto> N\<lparr>region_next := region_next p\<rparr>, prev \<mapsto> p\<lparr>region_next := new\<rparr>)"])
      (auto simp: insert_node_def)
qed

subsection \<open>Allocation\<close>

definition region_fit :: "usize \<Rightarrow> usize \<Rightarrow> region \<Rightarrow> usize option" where
  "region_fit sz align e =
     (if sz \<le> fst e + snd e \<and> fst e \<le> align_down_mask (fst e + snd e - sz) align
      then Some (align_down_mask (fst e + snd e - sz) align) else None)"

fun early_take :: "usize \<Rightarrow> usize \<Rightarrow> region list \<Rightarrow> (usize \<times> region list) option" where
  "early_take sz align [] = None"
| "early_take sz align (e # rs) =
     (case region_fit sz align e of
        Some s \<Rightarrow> Some (s, if s - fst e < REGION_SIZE then rs else (fst e, s - fst e) # rs)
      | None \<Rightarrow> map_option (\<lambda>(s, rs'). (s, e # rs')) (early_take sz align rs))"

definition points_to :: "region_mem \<Rightarrow> early_allocator \<Rightarrow> ptr \<Rightarrow> ptr \<Rightarrow> bool" where
  "points_to m self prev cur \<longleftrightarrow>
     (if prev = null then early_head self = cur else \<exists>p. m prev = Some p \<and> region_next p = cur)"

text \<open>What the allocation loop leaves behind: \<open>prev\<close> now points to the rest of the list.\<close>

definition cut_result ::
    "early_state \<Rightarrow> ptr \<Rightarrow> region list \<Rightarrow> region list \<Rightarrow> early_state \<Rightarrow> bool" where
  "cut_result s prev rs rs' s' \<longleftrightarrow>
     (\<exists>c. points_to (snd s') (fst s') prev c \<and> free_list (snd s') c rs')
     \<and> (prev \<noteq> null \<longrightarrow> fst s' = fst s \<and> map_option region_size (snd s' prev) = map_option region_size (snd s prev))
     \<and> (\<forall>x. x \<notin> insert prev (starts rs) \<longrightarrow> snd s' x = snd s x)
     \<and> dom (snd s') = dom (snd s)"

definition regions_fit :: "usize \<Rightarrow> region list \<Rightarrow> bool" where
  "regions_fit off rs \<longleftrightarrow> (\<forall>(a, n) \<in> set rs. off \<le> a \<and> a + n \<le> usize_max)"

lemma cut_region_refines:
  assumes fl: "free_list m cur ((cur, n) # rs)" and d: "distinct (map fst ((cur, n) # rs))"
    and pt: "points_to m self prev cur" and pn: "prev \<notin> starts ((cur, n) # rs)" and r: "m cur = Some r"
  shows "\<exists>s'. cut_region self prev cur r s m = Some s'
     \<and> cut_result (self, m) prev ((cur, n) # rs) (if s - cur < REGION_SIZE then rs else (cur, s - cur) # rs) s'"
proof -
  have next_: "free_list m (region_next r) rs" and c0: "cur \<noteq> null" and nin: "cur \<notin> starts rs"
    using fl d r by auto
  have pd: "prev \<noteq> null \<Longrightarrow> \<exists>p. m prev = Some p" using pt by (auto simp: points_to_def)
  show ?thesis
  proof (cases "s - cur < REGION_SIZE")
    case True
    show ?thesis
    proof (cases "prev = null")
      case True
      then show ?thesis
        using \<open>s - cur < REGION_SIZE\<close> next_ by (simp add: cut_region_def cut_result_def points_to_def)
    next
      case False
      then obtain p where p: "m prev = Some p" using pd by blast
      then show ?thesis
        using \<open>s - cur < REGION_SIZE\<close> next_ False pn
        by (auto simp: cut_region_def cut_result_def points_to_def)
    qed
  next
    case False
    let ?m = "m(cur \<mapsto> r\<lparr>region_size := s - cur\<rparr>)"
    have "free_list ?m cur ((cur, s - cur) # rs)"
      using next_ nin c0 by (intro free_list_Cons_intro [where r = "r\<lparr>region_size := s - cur\<rparr>"]) auto
    moreover have "points_to ?m self prev cur" using pt pn by (auto simp: points_to_def)
    ultimately show ?thesis
      using False pn r by (auto simp: cut_region_def cut_result_def)
  qed
qed

lemma early_alloc_loop_refines:
  assumes "free_list m cur rs" and "distinct (map fst rs)" and "points_to m self prev cur"
    and "prev \<notin> starts rs" and "regions_fit off rs"
  shows "case early_take sz align rs of
       None \<Rightarrow> early_alloc_loop off sz align self m prev cur = Some (None, self, m)
     | Some (s, rs') \<Rightarrow> \<exists>s'. early_alloc_loop off sz align self m prev cur = Some (Some (s - off), s')
         \<and> cut_result (self, m) prev rs rs' s'"
  using assms
proof (induction rs arbitrary: prev cur)
  case Nil
  then show ?case by (simp add: early_alloc_loop.simps)
next
  case (Cons e rs)
  obtain a n where e: "e = (a, n)" by (cases e)
  from Cons.prems(1) [unfolded e] obtain r where r: "cur = a" "a \<noteq> null" "m a = Some r" "region_size r = n"
    "free_list m (region_next r) rs"
    by (rule free_list_ConsE)
  have fit: "off \<le> a" "a + n \<le> usize_max" "regions_fit off rs"
    using Cons.prems(5) by (auto simp: regions_fit_def e)
  have rend: "region_end cur r = Some (a + n)" using r fit by (simp add: region_end_def)
  show ?case
  proof (cases "region_fit sz align e")
    case (Some s)
    then have s: "sz \<le> a + n" "a \<le> s" "s = align_down_mask (a + n - sz) align"
      by (auto simp: region_fit_def e split: if_splits)
    obtain s' where s': "cut_region self prev cur r s m = Some s'"
      "cut_result (self, m) prev (e # rs) (if s - cur < REGION_SIZE then rs else (cur, s - cur) # rs) s'"
      using cut_region_refines [of m cur n rs self prev r s] Cons.prems r(1-4) e by auto
    have "virt_to_phys off s = Some (s - off)" using s(2) fit(1) by (simp add: virt_to_phys_def checked_sub_def)
    then have "early_alloc_loop off sz align self m prev cur = Some (Some (s - off), s')"
      using r rend s s'(1) by (subst early_alloc_loop.simps) (simp add: checked_sub_def)
    then show ?thesis using s'(2) Some unfolding r(1) e by (cases "s - a < REGION_SIZE") simp_all
  next
    case None
    have skip: "early_alloc_loop off sz align self m prev cur = early_alloc_loop off sz align self m cur (region_next r)"
      using None r rend by (subst early_alloc_loop.simps) (auto simp: region_fit_def e checked_sub_def Let_def)
    have nin: "cur \<notin> starts rs" using Cons.prems(2) e r(1) by simp
    have ih: "case early_take sz align rs of
       None \<Rightarrow> early_alloc_loop off sz align self m cur (region_next r) = Some (None, self, m)
     | Some (s, rs') \<Rightarrow> \<exists>s'. early_alloc_loop off sz align self m cur (region_next r) = Some (Some (s - off), s')
         \<and> cut_result (self, m) cur rs rs' s'"
      by (rule Cons.IH) (use Cons.prems r nin fit in \<open>auto simp: points_to_def\<close>)
    show ?thesis
    proof (cases "early_take sz align rs")
      case None
      then show ?thesis using ih skip \<open>region_fit sz align e = None\<close> by simp
    next
      case (Some x)
      obtain s rs' where x: "x = (s, rs')" by (cases x)
      obtain s' where s': "early_alloc_loop off sz align self m cur (region_next r) = Some (Some (s - off), s')"
        "cut_result (self, m) cur rs rs' s'" using ih Some x by auto
      obtain p c where c: "fst s' = self" "snd s' cur = Some p" "region_size p = n" "region_next p = c" "free_list (snd s') c rs'"
        using s'(2) r(1-4) unfolding cut_result_def points_to_def by auto
      have fl: "free_list (snd s') cur ((cur, n) # rs')"
        using c r(1,2) by (intro free_list_Cons_intro [where r = p]) auto
      have same: "snd s' x = m x" if "x \<notin> insert cur (starts rs)" for x
        using s'(2) that by (simp add: cut_result_def)
      have "prev \<notin> insert cur (starts rs)" using Cons.prems(4) e r(1) by auto
      then have "snd s' prev = m prev" by (rule same)
      then have "points_to (snd s') (fst s') prev cur" using Cons.prems(3) c(1) by (simp add: points_to_def)
      then have "cut_result (self, m) prev (e # rs) (e # rs') s'"
        using fl same c(1) e r(1) s'(2) \<open>snd s' prev = m prev\<close> unfolding cut_result_def by auto
      then show ?thesis using s'(1) skip \<open>region_fit sz align e = None\<close> Some x by auto
    qed
  qed
qed

lemma early_alloc_refines:
  fixes l
  defines "sz \<equiv> max (layout_size l) 1" and "align \<equiv> max (layout_align l) 8"
  assumes "free_list m (early_head self) rs" and "distinct (map fst rs)" and "regions_fit off rs"
  shows "early_take sz align rs = None \<Longrightarrow> early_alloc off l (self, m) = Some (None, self, m)"
    and "early_take sz align rs = Some (s, rs') \<Longrightarrow> \<exists>self' m'. early_alloc off l (self, m) = Some (Some (s - off), self', m')
       \<and> free_list m' (early_head self') rs' \<and> dom m' = dom m \<and> (\<forall>x. x \<notin> insert null (starts rs) \<longrightarrow> m' x = m x)"
proof -
  have "null \<notin> starts rs" using assms(3) by (rule free_list_not_null)
  then have "case early_take sz align rs of
       None \<Rightarrow> early_alloc_loop off sz align self m null (early_head self) = Some (None, self, m)
     | Some (s, rs') \<Rightarrow> \<exists>s'. early_alloc_loop off sz align self m null (early_head self) = Some (Some (s - off), s')
         \<and> cut_result (self, m) null rs rs' s'"
    by (intro early_alloc_loop_refines) (use assms in \<open>auto simp: points_to_def\<close>)
  then show "early_take sz align rs = None \<Longrightarrow> early_alloc off l (self, m) = Some (None, self, m)"
    "early_take sz align rs = Some (s, rs') \<Longrightarrow> \<exists>self' m'. early_alloc off l (self, m) = Some (Some (s - off), self', m')
       \<and> free_list m' (early_head self') rs' \<and> dom m' = dom m \<and> (\<forall>x. x \<notin> insert null (starts rs) \<longrightarrow> m' x = m x)"
    unfolding early_alloc_def sz_def align_def cut_result_def points_to_def by auto
qed

lemma iter_regions_refines:
  "free_list m a rs \<Longrightarrow> regions_fit off rs \<Longrightarrow> iter_regions off m a = Some (map (\<lambda>(b, n). (b - off, n)) rs)"
proof (induction m a rs rule: free_list.induct)
  case (2 m a b n rs)
  then show ?case
    by (subst iter_regions.simps) (auto simp: regions_fit_def virt_to_phys_def checked_sub_def)
qed (simp add: iter_regions.simps)

end
