(* ===== verification/Early_System.thy ===== *)
theory Early_System
  imports Early_Refine
begin

text \<open>
  The early allocator as a system: free regions and live blocks, started from a memory map and
  changed by allocation and release. Every state keeps regions and blocks apart, which gives the
  safety of allocation.
\<close>

subsection \<open>Separation\<close>

definition sep :: "region \<Rightarrow> region \<Rightarrow> bool" where
  "sep e f \<longleftrightarrow> fst e + snd e \<le> fst f \<or> fst f + snd f \<le> fst e"

definition within :: "region \<Rightarrow> region \<Rightarrow> bool" where
  "within e f \<longleftrightarrow> fst f \<le> fst e \<and> fst e + snd e \<le> fst f + snd f"

lemma sep_commute: "sep e f \<longleftrightarrow> sep f e"
  by (auto simp: sep_def)

lemma sep_within: "sep f g \<Longrightarrow> within e f \<Longrightarrow> sep e g"
  by (auto simp: sep_def within_def)

lemma within_trans: "within e f \<Longrightarrow> within f g \<Longrightarrow> within e g"
  by (auto simp: within_def)

definition regions_ok :: "usize \<Rightarrow> region list \<Rightarrow> bool" where
  "regions_ok off rs \<longleftrightarrow> sorted_wrt (\<lambda>x y. fst y + snd y \<le> fst x) rs
     \<and> (\<forall>(a, n) \<in> set rs. REGION_SIZE \<le> n \<and> off + LOW_MEM_THRESHOLD \<le> a \<and> a + n + REGION_ALIGN \<le> usize_max)"

lemma regions_okD:
  assumes "regions_ok off rs"
  shows "distinct (map fst rs)" and "regions_fit off rs"
proof -
  have "sorted_wrt (\<lambda>x y. fst y + snd y \<le> fst x) rs \<Longrightarrow> (\<forall>(a, n) \<in> set rs. 0 < n) \<Longrightarrow> distinct (map fst rs)" for rs :: "region list"
  proof (induction rs)
    case (Cons x rs)
    have "fst y \<noteq> fst x" if "y \<in> set rs" for y
    proof -
      have "fst y + snd y \<le> fst x" "0 < snd y" using Cons.prems that by auto
      then show ?thesis by linarith
    qed
    then have "fst x \<notin> fst ` set rs" by (metis (no_types, lifting) imageE)
    then show ?case using Cons by simp
  qed simp
  moreover have "\<forall>(a, n) \<in> set rs. 0 < n" using assms by (auto simp: regions_ok_def)
  ultimately show "distinct (map fst rs)" using assms by (simp add: regions_ok_def)
  show "regions_fit off rs" using assms by (fastforce simp: regions_ok_def regions_fit_def)
qed

lemma regions_ok_Cons:
  "regions_ok off ((a, n) # rs) \<longleftrightarrow> regions_ok off rs \<and> (\<forall>y \<in> set rs. fst y + snd y \<le> a)
     \<and> REGION_SIZE \<le> n \<and> off + LOW_MEM_THRESHOLD \<le> a \<and> a + n + REGION_ALIGN \<le> usize_max"
  by (auto simp: regions_ok_def)

lemma region_insert_ok:
  assumes "regions_ok off rs" and "\<forall>f \<in> set rs. sep (a, n) f"
    and "REGION_SIZE \<le> n" and "off + LOW_MEM_THRESHOLD \<le> a" and "a + n + REGION_ALIGN \<le> usize_max"
  shows "regions_ok off (region_insert (a, n) rs)"
  using assms
proof (induction rs)
  case Nil
  then show ?case by (simp add: regions_ok_def)
next
  case (Cons x rs)
  obtain b k where x: "x = (b, k)" by (cases x)
  have ok: "regions_ok off rs" "\<forall>y \<in> set rs. fst y + snd y \<le> b" "REGION_SIZE \<le> k" "off + LOW_MEM_THRESHOLD \<le> b"
    "b + k + REGION_ALIGN \<le> usize_max"
    using Cons.prems(1) by (simp_all add: x regions_ok_Cons)
  have s: "a + n \<le> b \<or> b + k \<le> a" using Cons.prems(2) by (simp add: x sep_def)
  show ?case
  proof (cases "b < a")
    case True
    then have "b + k \<le> a" using s by linarith
    then have "\<forall>y \<in> set (x # rs). fst y + snd y \<le> a" using ok(2) x by fastforce
    then show ?thesis using True Cons.prems x by (simp add: regions_ok_Cons)
  next
    case False
    then have "a + n \<le> b" using s ok(3) by linarith
    then have "\<forall>y \<in> set (region_insert (a, n) rs). fst y + snd y \<le> b" using ok(2) by auto
    moreover have "regions_ok off (region_insert (a, n) rs)" using Cons ok(1) by simp
    ultimately show ?thesis using False ok x by (simp add: regions_ok_Cons)
  qed
qed

subsection \<open>Layouts and first fit\<close>

definition layout_ok :: "layout \<Rightarrow> bool" where
  "layout_ok l \<longleftrightarrow> (\<exists>k < 64. layout_align l = 2 ^ k)"

lemma layout_ok_align:
  assumes "layout_ok l"
  obtains k where "max (layout_align l) 8 = 2 ^ k" and "k < 64" and "layout_align l dvd 2 ^ k"
proof -
  obtain k where k: "k < 64" "layout_align l = 2 ^ k" using assms by (auto simp: layout_ok_def)
  show ?thesis
  proof (cases "k \<le> 3")
    case True
    then have "(2::nat) ^ k \<le> 2 ^ 3" by (intro power_increasing) auto
    then have "max (layout_align l) 8 = 2 ^ 3" using k(2) by simp
    moreover have "layout_align l dvd 2 ^ 3" unfolding k(2) using True by (rule le_imp_power_dvd)
    ultimately show ?thesis using that [of 3] by simp
  next
    case False
    then have "(2::nat) ^ 3 \<le> 2 ^ k" by (intro power_increasing) auto
    then show ?thesis using k that [of k] by simp
  qed
qed

lemma region_fitD:
  assumes "region_fit sz (2 ^ k) (a, n) = Some s" and "k < 64" and "a + n \<le> usize_max"
  shows "a \<le> s" and "s + sz \<le> a + n" and "2 ^ k dvd s"
proof -
  have s: "sz \<le> a + n" "a \<le> s" "s = align_down_mask (a + n - sz) (2 ^ k)"
    using assms(1) by (auto simp: region_fit_def split: if_splits)
  note b = align_down_mask_bounds [of "a + n - sz" k "2 ^ k"]
  show "a \<le> s" by (rule s(2))
  have "s \<le> a + n - sz" unfolding s(3) using b(1) assms(2,3) by simp
  then show "s + sz \<le> a + n" using s(1) by linarith
  show "2 ^ k dvd s" using b(3) assms s by simp
qed

lemma early_take_ok:
  assumes "regions_ok off rs" and "early_take sz (2 ^ k) rs = Some (s, rs')" and "k < 64"
  shows "regions_ok off rs'" and "\<exists>e \<in> set rs. within (s, sz) e" and "2 ^ k dvd s"
    and "\<forall>f \<in> set rs'. sep f (s, sz) \<and> (\<exists>e \<in> set rs. within f e)"
proof -
  have "regions_ok off rs' \<and> (\<exists>e \<in> set rs. within (s, sz) e) \<and> 2 ^ k dvd s
     \<and> (\<forall>f \<in> set rs'. sep f (s, sz) \<and> (\<exists>e \<in> set rs. within f e)) \<and> (\<forall>f \<in> set rs'. \<exists>e \<in> set rs. fst f + snd f \<le> fst e + snd e)"
    using assms
  proof (induction rs arbitrary: rs')
    case (Cons e rs)
    obtain a n where e: "e = (a, n)" by (cases e)
    have ok: "regions_ok off rs" "\<forall>y \<in> set rs. fst y + snd y \<le> a" "REGION_SIZE \<le> n" "off + LOW_MEM_THRESHOLD \<le> a"
      "a + n + REGION_ALIGN \<le> usize_max"
      using Cons.prems(1) by (simp_all add: e regions_ok_Cons)
    show ?case
    proof (cases "region_fit sz (2 ^ k) e")
      case (Some t)
      then have t: "t = s" "rs' = (if s - a < REGION_SIZE then rs else (a, s - a) # rs)"
        using Cons.prems(2) e by (auto split: if_splits)
      note f = region_fitD [of sz k a n s, OF _ Cons.prems(3)]
      have f: "a \<le> s" "s + sz \<le> a + n" "2 ^ k dvd s" using f Some e t ok(5) by auto
      have old: "sep f (s, sz)" if "f \<in> set rs" for f using ok(2) f(1) that by (fastforce simp: sep_def)
      have "regions_ok off rs'" using ok f t by (auto simp: regions_ok_Cons)
      moreover have "within (s, sz) e" using f by (simp add: within_def e)
      moreover have "sep g (s, sz) \<and> (\<exists>e \<in> set (e # rs). within g e) \<and> (\<exists>e \<in> set (e # rs). fst g + snd g \<le> fst e + snd e)" if "g \<in> set rs'" for g
      proof (cases "g \<in> set rs")
        case True
        then show ?thesis using old by (auto simp: within_def)
      next
        case False
        then have "g = (a, s - a)" using that t by (auto split: if_splits)
        then show ?thesis using f by (simp add: sep_def within_def e)
      qed
      ultimately show ?thesis using f(3) by (metis list.set_intros(1))
    next
      case None
      then obtain qs where q: "early_take sz (2 ^ k) rs = Some (s, qs)" "rs' = e # qs"
        using Cons.prems(2) by auto
      have ih: "regions_ok off qs" "\<exists>e \<in> set rs. within (s, sz) e" "2 ^ k dvd s"
        "\<forall>f \<in> set qs. sep f (s, sz) \<and> (\<exists>e \<in> set rs. within f e)" "\<forall>f \<in> set qs. \<exists>e \<in> set rs. fst f + snd f \<le> fst e + snd e"
        using Cons.IH [OF ok(1) q(1) Cons.prems(3)] by blast+
      have "\<forall>y \<in> set qs. fst y + snd y \<le> a" using ih(5) ok(2) by fastforce
      then have "regions_ok off rs'" using ih(1) ok q(2) e by (simp add: regions_ok_Cons)
      moreover have "sep e (s, sz)" using ih(2) ok(2) by (fastforce simp: sep_def within_def e)
      moreover have "within e e" by (simp add: within_def)
      ultimately show ?thesis using ih q(2) by auto
    qed
  qed simp
  then show "regions_ok off rs'" "\<exists>e \<in> set rs. within (s, sz) e" "2 ^ k dvd s"
    "\<forall>f \<in> set rs'. sep f (s, sz) \<and> (\<exists>e \<in> set rs. within f e)" by blast+
qed

lemma early_take_None: "early_take sz align rs = None \<longleftrightarrow> (\<forall>e \<in> set rs. region_fit sz align e = None)"
  by (induction rs) (auto split: option.splits)

subsection \<open>Adding memory\<close>

lemma clip_low_result:
  assumes "p + n \<le> usize_max"
  obtains "clip_low p n = Some None" "p + n \<le> LOW_MEM_THRESHOLD \<or> n = 0"
  | q k where "clip_low p n = Some (Some (q, k))" "p \<le> q" "q + k = p + n" "LOW_MEM_THRESHOLD \<le> q"
proof -
  consider "p \<ge> LOW_MEM_THRESHOLD" | "p < LOW_MEM_THRESHOLD" "p + n \<le> LOW_MEM_THRESHOLD"
    | "p < LOW_MEM_THRESHOLD" "p + n > LOW_MEM_THRESHOLD" by linarith
  then show ?thesis
  proof cases
    case 1
    then show ?thesis using that(2) [of p n] by (simp add: clip_low_def)
  next
    case 2
    then show ?thesis using that(1) assms by (simp add: clip_low_def checked_add_def)
  next
    case 3
    then show ?thesis using that(2) [of LOW_MEM_THRESHOLD "p + n - LOW_MEM_THRESHOLD"] assms by (simp add: clip_low_def checked_add_def)
  qed
qed

text \<open>Memory that is apart from every region is added as a region inside it, or not at all.\<close>

lemma add_region_refines:
  assumes "free_list m (early_head self) rs" and ok: "regions_ok off rs"
    and "\<forall>f \<in> set rs. sep (off + p, n) f" and b: "off + p + n + REGION_ALIGN \<le> usize_max"
  obtains self' m' rs' where "add_region off p n (self, m) = Some (self', m')"
    and "free_list m' (early_head self') rs'" and "regions_ok off rs'"
    and "set rs \<subseteq> set rs'" and "\<forall>f \<in> set rs' - set rs. within f (off + p, n)"
proof -
  note result = that
  have same: thesis if "add_region off p n (self, m) = Some (self, m)"
    by (rule result [OF that assms(1) ok]) auto
  have "p + n \<le> usize_max" using b by linarith
  then show thesis
  proof (cases rule: clip_low_result)
    case 1
    then show thesis using same by (simp add: add_region_def)
  next
    case (2 q k)
    define a where "a = align_down_mask (q + 7) 8"
    have a: "q \<le> a"
      using align_down_mask_bounds(2) [of "q + 7" 3 8] 2 b unfolding a_def by simp
    have pad: "q + 8 \<le> usize_max" and qk: "q + k \<le> usize_max" using 2 b by linarith+
    have a_eq: "align_down_mask (q + 8 - 1) 8 = a" by (simp add: a_def add.commute)
    have pads: "checked_add q REGION_ALIGN = Some (q + 8)" "checked_add q k = Some (q + k)"
      using pad qk by (simp_all add: checked_add_def)
    have body: "add_region off p n (self, m) =
       (if a \<ge> q + k then Some (self, m) else if q + k - a < REGION_SIZE then Some (self, m)
        else do { v \<leftarrow> phys_to_virt off a;
                  insert_node self v (m(v \<mapsto> \<lparr>region_next = null, region_size = q + k - a\<rparr>)) })"
      unfolding add_region_def 2(1) bind.bind_lunit option.case prod.case pads Let_def a_eq
      by (simp add: region_init_def)
    show thesis
    proof (cases "a \<ge> q + k \<or> q + k - a < REGION_SIZE")
      case True
      then have "add_region off p n (self, m) = Some (self, m)" unfolding body by (simp only: if_True if_cancel split: if_splits) blast
      then show thesis by (rule same)
    next
      case False
      let ?n = "q + k - a" and ?v = "a + off"
      let ?m = "m(?v \<mapsto> \<lparr>region_next = null, region_size = ?n\<rparr>)"
      have v: "?v + ?n + REGION_ALIGN \<le> usize_max" "off + LOW_MEM_THRESHOLD \<le> ?v" "REGION_SIZE \<le> ?n"
        using 2 b a False by linarith+
      have w: "within (?v, ?n) (off + p, n)" using 2 a False by (simp add: within_def)
      then have sp: "\<forall>f \<in> set rs. sep (?v, ?n) f" using assms(3) sep_within by blast
      have new: "?v \<notin> starts rs"
      proof
        assume "?v \<in> starts rs"
        then obtain j where j: "(?v, j) \<in> set rs" by auto
        then have "j \<ge> REGION_SIZE" using ok by (auto simp: regions_ok_def)
        then show False using bspec [OF sp j] v(3) by (simp add: sep_def)
      qed
      have fl: "free_list ?m (early_head self) rs" using assms(1) new by simp
      have nz: "?v \<noteq> null" using v(2) by linarith
      obtain self' m' where r: "insert_node self ?v ?m = Some (self', m')"
        "free_list m' (early_head self') (region_insert (?v, ?n) rs)"
        by (rule insert_node_refines [OF fl regions_okD(1) [OF ok] new nz fun_upd_same, unfolded free_region.select_convs])
      have "add_region off p n (self, m) = Some (self', m')"
        using False r(1) v(1) unfolding body by (simp add: phys_to_virt_def checked_add_def)
      moreover have "regions_ok off (region_insert (?v, ?n) rs)"
        using region_insert_ok [OF ok sp v(3,2)] v(1) by simp
      ultimately show thesis using w by (intro result [OF _ r(2)]) auto
    qed
  qed
qed

subsection \<open>The system\<close>

text \<open>The allocator with the blocks that callers hold, as virtual addresses and sizes.\<close>

type_synonym early_sys = "early_state \<times> region list"

definition block_of :: "ptr \<Rightarrow> layout \<Rightarrow> region" where
  "block_of p l = (p, max (layout_size l) 1)"

inductive early_step :: "usize \<Rightarrow> early_sys \<Rightarrow> early_sys \<Rightarrow> bool" for off where
  alloc: "layout_ok l \<Longrightarrow> boot_heap_alloc off l s = Some (Some p, s') \<Longrightarrow>
    early_step off (s, live) (s', block_of p l # live)"
| alloc_none: "layout_ok l \<Longrightarrow> boot_heap_alloc off l s = Some (None, s') \<Longrightarrow>
    early_step off (s, live) (s', live)"
| dealloc: "block_of p l \<in> set live \<Longrightarrow> boot_heap_dealloc off p l s = Some s' \<Longrightarrow>
    early_step off (s, live) (s', remove1 (block_of p l) live)"

definition usable_areas :: "usize \<Rightarrow> arena list \<Rightarrow> region list" where
  "usable_areas off as =
     map (\<lambda>a. (off + arena_start a, arena_end a - arena_start a)) (filter (\<lambda>a. arena_kind a = Usable) as)"

definition map_ok :: "usize \<Rightarrow> arena list \<Rightarrow> bool" where
  "map_ok off as \<longleftrightarrow> sorted_wrt sep (usable_areas off as)
     \<and> (\<forall>a \<in> set as. arena_kind a = Usable \<longrightarrow>
          arena_start a \<le> arena_end a \<and> off + arena_end a + REGION_ALIGN \<le> usize_max)"

definition early_ok :: "usize \<Rightarrow> region set \<Rightarrow> early_sys \<Rightarrow> region list \<Rightarrow> bool" where
  "early_ok off areas st rs \<longleftrightarrow>
     free_list (snd (fst st)) (early_head (fst (fst st))) rs \<and> regions_ok off rs
     \<and> distinct (snd st) \<and> (\<forall>b \<in> set (snd st). \<forall>c \<in> set (snd st). b \<noteq> c \<longrightarrow> sep b c)
     \<and> (\<forall>b \<in> set (snd st). 0 < snd b \<and> off + LOW_MEM_THRESHOLD \<le> fst b \<and> fst b + snd b + REGION_ALIGN \<le> usize_max
          \<and> (\<forall>f \<in> set rs. sep b f))
     \<and> (\<forall>e \<in> set rs \<union> set (snd st). \<exists>a \<in> areas. within e a)"

lemma early_okD:
  assumes "early_ok off areas ((self, m), live) rs"
  shows "free_list m (early_head self) rs" "regions_ok off rs" "distinct live"
    "\<forall>b \<in> set live. \<forall>c \<in> set live. b \<noteq> c \<longrightarrow> sep b c"
    "\<forall>b \<in> set live. 0 < snd b \<and> off + LOW_MEM_THRESHOLD \<le> fst b \<and> fst b + snd b + REGION_ALIGN \<le> usize_max
          \<and> (\<forall>f \<in> set rs. sep b f)"
    "\<forall>e \<in> set rs \<union> set live. \<exists>a \<in> areas. within e a"
  using assms unfolding early_ok_def by simp_all

text \<open>Allocation in a well-formed system.\<close>

lemma boot_heap_alloc_ok:
  assumes ok: "early_ok off areas ((self, m), live) rs" and l: "layout_ok l"
  obtains (Full) "boot_heap_alloc off l (self, m) = Some (None, self, m)"
    and "\<forall>e \<in> set rs. region_fit (max (layout_size l) 1) (max (layout_align l) 8) e = None"
  | (Taken) p self' m' rs' where "boot_heap_alloc off l (self, m) = Some (Some p, self', m')"
    and "early_ok off areas ((self', m'), block_of p l # live) rs'"
    and "layout_align l dvd p" and "early_take (max (layout_size l) 1) (max (layout_align l) 8) rs = Some (p, rs')"
proof -
  note o = early_okD [OF ok]
  note ref = early_alloc_refines [OF o(1) regions_okD [OF o(2)], where l = l]
  obtain k where k: "max (layout_align l) 8 = 2 ^ k" "k < 64" "layout_align l dvd 2 ^ k"
    using layout_ok_align [OF l] .
  show thesis
  proof (cases "early_take (max (layout_size l) 1) (max (layout_align l) 8) rs")
    case None
    then have "boot_heap_alloc off l (self, m) = Some (None, self, m)"
      using ref(1) by (simp add: boot_heap_alloc_def)
    then show thesis using None Full by (simp add: early_take_None)
  next
    case (Some x)
    obtain p rs' where x: "x = (p, rs')" by (cases x)
    note take = Some [unfolded x]
    obtain self' m' where r: "early_alloc off l (self, m) = Some (Some (p - off), self', m')"
      "free_list m' (early_head self') rs'"
      using ref(2) [OF take] by blast
    note t = early_take_ok [OF o(2) take [unfolded k(1)] k(2)]
    obtain e where e: "e \<in> set rs" "within (p, max (layout_size l) 1) e" using t(2) by blast
    have eb: "off + LOW_MEM_THRESHOLD \<le> fst e" "fst e + snd e + REGION_ALIGN \<le> usize_max"
      using o(2) e(1) by (auto simp: regions_ok_def)
    have pb: "off + LOW_MEM_THRESHOLD \<le> p" "p + max (layout_size l) 1 + REGION_ALIGN \<le> usize_max"
      using e(2) eb by (auto simp: within_def)
    have "boot_heap_alloc off l (self, m) = Some (Some p, self', m')"
      using r(1) pb by (simp add: boot_heap_alloc_def phys_to_virt_def checked_add_def)
    moreover have "early_ok off areas ((self', m'), block_of p l # live) rs'"
    proof -
      have live: "sep (block_of p l) c" if "c \<in> set live" for c
        using o(5) that e sep_within [of e c "(p, max (layout_size l) 1)"] sep_commute by (auto simp: block_of_def)
      have "block_of p l \<notin> set live"
        using live [of "block_of p l"] by (auto simp: sep_def block_of_def)
      moreover have "sep b f" if "b \<in> set live" "f \<in> set rs'" for b f
        using o(5) t(4) that sep_within sep_commute by metis
      moreover have "\<exists>a \<in> areas. within f a" if "f \<in> set rs' \<union> set (block_of p l # live)" for f
      proof -
        have "f \<in> set live \<or> (\<exists>g \<in> set rs. within f g)" using that t(4) e by (auto simp: block_of_def)
        then show ?thesis using o(6) within_trans by (meson UnCI)
      qed
      ultimately show ?thesis
        using r(2) t(1,4) o(3-5) pb live sep_commute unfolding early_ok_def by (auto simp: block_of_def)
    qed
    moreover have "layout_align l dvd p" using k(3) t(3) by (rule dvd_trans)
    ultimately show thesis using Taken take by blast
  qed
qed

text \<open>Release of a live block in a well-formed system.\<close>

lemma boot_heap_dealloc_ok:
  assumes ok: "early_ok off areas ((self, m), live) rs" and b: "block_of p l \<in> set live"
  obtains self' m' rs' where "boot_heap_dealloc off p l (self, m) = Some (self', m')"
    and "early_ok off areas ((self', m'), remove1 (block_of p l) live) rs'"
proof -
  note o = early_okD [OF ok]
  define n where "n = max (layout_size l) 1"
  have blk: "block_of p l = (p, n)" by (simp add: block_of_def n_def)
  have pb: "off + LOW_MEM_THRESHOLD \<le> p" "p + n + REGION_ALIGN \<le> usize_max" "\<forall>f \<in> set rs. sep (p, n) f"
    using o(5) b unfolding blk by auto
  have off: "off + (p - off) = p" using pb(1) by simp
  obtain self' m' rs' where r: "add_region off (p - off) n (self, m) = Some (self', m')"
      "free_list m' (early_head self') rs'" "regions_ok off rs'" "set rs \<subseteq> set rs'"
      "\<forall>f \<in> set rs' - set rs. within f (off + (p - off), n)"
    by (rule add_region_refines [OF o(1,2), where p = "p - off" and n = n]) (use pb off in auto)
  have "boot_heap_dealloc off p l (self, m) = Some (self', m')"
    using r(1) pb(1) by (simp add: boot_heap_dealloc_def virt_to_phys_def checked_sub_def n_def)
  moreover have "early_ok off areas ((self', m'), remove1 (block_of p l) live) rs'"
  proof -
    have rest: "set (remove1 (p, n) live) = set live - {(p, n)}" using o(3) by simp
    have w: "within f (p, n)" if "f \<in> set rs'" "f \<notin> set rs" for f using r(5) off that by simp
    have "sep c f" if "c \<in> set live - {(p, n)}" "f \<in> set rs'" for c f
    proof (cases "f \<in> set rs")
      case True
      then show ?thesis using o(5) that by blast
    next
      case False
      have "sep (p, n) c" using o(4) b that(1) blk by auto
      then show ?thesis using sep_within [OF _ w [OF that(2) False]] sep_commute by blast
    qed
    moreover have "\<exists>a \<in> areas. within f a" if "f \<in> set rs' \<union> set live" for f
    proof -
      obtain a where "a \<in> areas" "within (p, n) a" using o(6) b unfolding blk by (meson UnCI)
      then show ?thesis using o(6) w that within_trans by (cases "f \<in> set rs \<union> set live") blast+
    qed
    ultimately show ?thesis
      unfolding early_ok_def blk fst_conv snd_conv using r(2,3) o(3-5) rest by auto
  qed
  ultimately show thesis by (rule that)
qed

lemma early_step_ok:
  assumes "early_step off st st'" and "early_ok off areas st rs"
  shows "\<exists>rs'. early_ok off areas st' rs'"
  using assms
proof (induction rule: early_step.induct)
  case (alloc l s p s' live)
  obtain self m where s: "s = (self, m)" by (cases s)
  show ?case
    by (rule boot_heap_alloc_ok [OF alloc(3) [unfolded s] alloc(1)]) (use alloc(2) s in auto)
next
  case (alloc_none l s s' live)
  obtain self m where s: "s = (self, m)" by (cases s)
  show ?case
    by (rule boot_heap_alloc_ok [OF alloc_none(3) [unfolded s] alloc_none(1)]) (use alloc_none(2,3) s in auto)
next
  case (dealloc p l live s s')
  obtain self m where s: "s = (self, m)" by (cases s)
  show ?case
    by (rule boot_heap_dealloc_ok [OF dealloc(3) [unfolded s] dealloc(1)]) (use dealloc(2) s in auto)
qed

subsection \<open>Start\<close>

lemma init_from_map_ok:
  assumes "free_list m (early_head self) rs" and "regions_ok off rs" and "map_ok off as"
    and "\<forall>f \<in> set rs. \<forall>a \<in> set (usable_areas off as). sep a f"
  shows "\<exists>self' m' rs'. init_from_map off as (self, m) = Some (self', m') \<and> free_list m' (early_head self') rs'
     \<and> regions_ok off rs' \<and> (\<forall>f \<in> set rs' - set rs. \<exists>a \<in> set (usable_areas off as). within f a)"
  using assms
proof (induction as arbitrary: self m rs)
  case (Cons a as)
  show ?case
  proof (cases "arena_kind a = Usable")
    case False
    then have "usable_areas off (a # as) = usable_areas off as" by (simp add: usable_areas_def)
    moreover have "map_ok off as" using Cons.prems(3) False by (simp add: map_ok_def usable_areas_def)
    ultimately show ?thesis using Cons False by simp
  next
    case True
    let ?n = "arena_end a - arena_start a" and ?e = "(off + arena_start a, arena_end a - arena_start a)"
    have ua: "usable_areas off (a # as) = ?e # usable_areas off as" using True by (simp add: usable_areas_def)
    have mo: "map_ok off as" "\<forall>b \<in> set (usable_areas off as). sep ?e b" "arena_start a \<le> arena_end a"
      "off + arena_end a + REGION_ALIGN \<le> usize_max"
      using Cons.prems(3) True unfolding map_ok_def ua by auto
    have se: "\<forall>f \<in> set rs. sep ?e f" using Cons.prems(4) unfolding ua by auto
    have "off + arena_start a + ?n + REGION_ALIGN \<le> usize_max" using mo(3,4) by simp
    then obtain self1 m1 rs1 where r: "add_region off (arena_start a) ?n (self, m) = Some (self1, m1)"
      "free_list m1 (early_head self1) rs1" "regions_ok off rs1" "set rs \<subseteq> set rs1" "\<forall>f \<in> set rs1 - set rs. within f ?e"
      by (rule add_region_refines [OF Cons.prems(1,2) se])
    have "\<forall>f \<in> set rs1. \<forall>b \<in> set (usable_areas off as). sep b f"
    proof (intro ballI)
      fix f b assume f: "f \<in> set rs1" and b: "b \<in> set (usable_areas off as)"
      show "sep b f"
      proof (cases "f \<in> set rs")
        case True
        then show ?thesis using Cons.prems(4) b ua by auto
      next
        case False
        then have "within f ?e" using r(5) f by blast
        then show ?thesis using mo(2) b sep_within sep_commute by blast
      qed
    qed
    from Cons.IH [OF r(2,3) mo(1) this] obtain self2 m2 rs2 where
      q: "init_from_map off as (self1, m1) = Some (self2, m2)" "free_list m2 (early_head self2) rs2"
      "regions_ok off rs2" "\<forall>f \<in> set rs2 - set rs1. \<exists>a \<in> set (usable_areas off as). within f a" by blast
    have "init_from_map off (a # as) (self, m) = Some (self2, m2)"
      using q(1) r(1) True mo(3) by (simp add: checked_sub_def)
    moreover have "\<forall>f \<in> set rs2 - set rs. \<exists>a \<in> set (?e # usable_areas off as). within f a"
      using q(4) r(5) by (metis DiffD1 DiffD2 DiffI list.set_intros(1,2))
    ultimately show ?thesis using q(2,3) unfolding ua by blast
  qed
next
  case Nil
  then show ?case by (intro exI [of _ self] exI [of _ m] exI [of _ rs]) simp
qed

definition early_reachable :: "usize \<Rightarrow> arena list \<Rightarrow> early_sys \<Rightarrow> bool" where
  "early_reachable off as st \<longleftrightarrow>
     (\<exists>m s. init_from_map off (memory_map_iter as) (early_new, m) = Some s \<and> (early_step off)\<^sup>*\<^sup>* (s, []) st)"

lemma early_reachable_ok:
  assumes "early_reachable off as st" and "map_ok off (memory_map_iter as)"
  obtains rs where "early_ok off (set (usable_areas off (memory_map_iter as))) st rs"
proof -
  obtain m s where s: "init_from_map off (memory_map_iter as) (early_new, m) = Some s" "(early_step off)\<^sup>*\<^sup>* (s, []) st"
    using assms(1) by (auto simp: early_reachable_def)
  have "\<exists>rs. early_ok off (set (usable_areas off (memory_map_iter as))) (s, []) rs"
    using init_from_map_ok [of m early_new "[]" off "memory_map_iter as"] assms(2) s(1)
    by (auto simp: early_ok_def early_new_def regions_ok_def)
  with s(2) have "\<exists>rs. early_ok off (set (usable_areas off (memory_map_iter as))) st rs"
    by (induction rule: rtranclp_induct) (auto dest: early_step_ok)
  then show thesis using that by blast
qed

end
