(* ===== verification/Early_Props.thy ===== *)
theory Early_Props
  imports Early_System
begin

text \<open>
  The safety of the early allocator, with a run on a small memory map.
\<close>

text \<open>
  C35: In every state that the early allocator reaches from a memory map whose usable arenas are
  disjoint and end at least one alignment unit below the last address, an allocation returns. The block it gives has the alignment asked for, lies in a usable
  arena and overlaps no block that is still held; it gives none exactly when no free region has room
  for the block. The release of every block that is held returns as well.
\<close>

theorem early_alloc_safe:
  assumes "early_reachable off as (s, live)" and "map_ok off (memory_map_iter as)" and "layout_ok l"
  shows "(\<exists>r s' regs. boot_heap_alloc off l s = Some (r, s')
      \<and> iter_regions off (snd s) (early_head (fst s)) = Some regs
      \<and> (r = None \<longleftrightarrow> (\<forall>(a, n) \<in> set regs. region_fit (max (layout_size l) 1) (max (layout_align l) 8) (off + a, n) = None))
      \<and> (\<forall>p. r = Some p \<longrightarrow> layout_align l dvd p \<and> (\<forall>b \<in> set live. sep (block_of p l) b)
           \<and> (\<exists>a \<in> set (usable_areas off (memory_map_iter as)). within (block_of p l) a)))
    \<and> (\<forall>p l'. block_of p l' \<in> set live \<longrightarrow> (\<exists>s'. boot_heap_dealloc off p l' s = Some s'))"
proof -
  obtain self m where s: "s = (self, m)" by (cases s)
  obtain rs where ok: "early_ok off (set (usable_areas off (memory_map_iter as))) ((self, m), live) rs"
    using early_reachable_ok [OF assms(1,2)] unfolding s .
  note o = early_okD [OF ok]
  let ?regs = "map (\<lambda>(b, n). (b - off, n)) rs"
  have it: "iter_regions off m (early_head self) = Some ?regs"
    using iter_regions_refines [OF o(1) regions_okD(2) [OF o(2)]] .
  have all: "(\<forall>(a, n) \<in> set ?regs. P (off + a, n)) \<longleftrightarrow> (\<forall>e \<in> set rs. P e)" for P
    using regions_okD(2) [OF o(2)] by (fastforce simp: regions_fit_def)
  have a: "\<exists>r s' regs. boot_heap_alloc off l s = Some (r, s')
      \<and> iter_regions off (snd s) (early_head (fst s)) = Some regs
      \<and> (r = None \<longleftrightarrow> (\<forall>(a, n) \<in> set regs. region_fit (max (layout_size l) 1) (max (layout_align l) 8) (off + a, n) = None))
      \<and> (\<forall>p. r = Some p \<longrightarrow> layout_align l dvd p \<and> (\<forall>b \<in> set live. sep (block_of p l) b)
           \<and> (\<exists>a \<in> set (usable_areas off (memory_map_iter as)). within (block_of p l) a))"
    using ok assms(3)
  proof (cases rule: boot_heap_alloc_ok)
    case Full
    then show ?thesis
      unfolding s using it all [of "\<lambda>e. region_fit (max (layout_size l) 1) (max (layout_align l) 8) e = None"] by auto
  next
    case (Taken p self' m' rs')
    note t = early_okD [OF Taken(2)]
    have "early_take (max (layout_size l) 1) (max (layout_align l) 8) rs \<noteq> None" using Taken(4) by simp
    then have some: "\<not> (\<forall>(a, n) \<in> set ?regs. region_fit (max (layout_size l) 1) (max (layout_align l) 8) (off + a, n) = None)"
      unfolding early_take_None all [of "\<lambda>e. region_fit (max (layout_size l) 1) (max (layout_align l) 8) e = None"] .
    have none: "Some p = None \<longleftrightarrow> (\<forall>(a, n) \<in> set ?regs. region_fit (max (layout_size l) 1) (max (layout_align l) 8) (off + a, n) = None)"
      using some by blast
    have "\<forall>b \<in> set live. sep (block_of p l) b" using t(3,4) by auto
    moreover have "\<exists>a \<in> set (usable_areas off (memory_map_iter as)). within (block_of p l) a" using t(6) by auto
    ultimately have "\<forall>q. Some p = Some q \<longrightarrow> layout_align l dvd q \<and> (\<forall>b \<in> set live. sep (block_of q l) b)
           \<and> (\<exists>a \<in> set (usable_areas off (memory_map_iter as)). within (block_of q l) a)"
      using Taken(3) by blast
    then show ?thesis
      unfolding s fst_conv snd_conv using Taken(1) it none by blast
  qed
  have d: "\<forall>p l'. block_of p l' \<in> set live \<longrightarrow> (\<exists>s'. boot_heap_dealloc off p l' s = Some s')"
    unfolding s using boot_heap_dealloc_ok [OF ok] by metis
  show ?thesis using a d by (rule conjI)
qed

definition demo_map :: "arena list" where
  "demo_map =
     [\<lparr>arena_start = 0, arena_end = 0x9000, arena_kind = Reserved\<rparr>,
      \<lparr>arena_start = 0x100000, arena_end = 0x200000, arena_kind = Usable\<rparr>,
      \<lparr>arena_start = 0, arena_end = 0, arena_kind = EndOfMemoryMap\<rparr>]"

lemma demo_map_ok: "map_ok 0 (memory_map_iter demo_map)"
  by (simp add: demo_map_def map_ok_def usable_areas_def)

lemma demo_reachable: "\<exists>s. early_reachable 0 demo_map (s, [])"
proof -
  have "map_ok 0 (memory_map_iter demo_map)" by (rule demo_map_ok)
  then obtain self m where "init_from_map 0 (memory_map_iter demo_map) (early_new, Map.empty) = Some (self, m)"
    using init_from_map_ok [of Map.empty early_new "[]" 0 "memory_map_iter demo_map"]
    by (auto simp: early_new_def regions_ok_def)
  then show ?thesis unfolding early_reachable_def by blast
qed

theorem early_alloc_safe_witness:
  "\<exists>s. early_reachable 0 demo_map (s, []) \<and> map_ok 0 (memory_map_iter demo_map)
     \<and> layout_ok \<lparr>layout_size = 40, layout_align = 16\<rparr>
     \<and> (\<exists>r s'. boot_heap_alloc 0 \<lparr>layout_size = 40, layout_align = 16\<rparr> s = Some (r, s'))"
proof -
  obtain s where s: "early_reachable 0 demo_map (s, [])" using demo_reachable by blast
  have l: "layout_ok \<lparr>layout_size = 40, layout_align = 16\<rparr>"
    unfolding layout_ok_def by (intro exI [of _ 4]) simp
  show ?thesis using early_alloc_safe [OF s demo_map_ok l] s l demo_map_ok by blast
qed

end
