(* ===== verification/Clock_Time.thy ===== *)
theory Clock_Time
  imports Akarin_Prelude
begin

text \<open>
  Durations and instants (\<open>core/src/clock/time.rs\<close>). A duration is a number of seconds below
  \<open>2 ^ 64\<close> and a number of nanoseconds below \<open>2 ^ 32\<close>; it is normalised when the nanoseconds are
  below one second. Operators panic on overflow, the checked operations return an option.
\<close>

subsection \<open>Definitions\<close>

abbreviation (input) NANOS_PER_SEC :: nat where "NANOS_PER_SEC \<equiv> 1000000000"
abbreviation (input) NANOS_PER_MILLI :: nat where "NANOS_PER_MILLI \<equiv> 1000000"
abbreviation (input) NANOS_PER_MICRO :: nat where "NANOS_PER_MICRO \<equiv> 1000"
abbreviation (input) MILLIS_PER_SEC :: nat where "MILLIS_PER_SEC \<equiv> 1000"
abbreviation (input) MICROS_PER_SEC :: nat where "MICROS_PER_SEC \<equiv> 1000000"
abbreviation (input) u32_limit :: nat where "u32_limit \<equiv> 4294967295"

record duration =
  dur_secs :: nat
  dur_nanos :: nat

abbreviation Dur :: "nat \<Rightarrow> nat \<Rightarrow> duration" where
  "Dur s n \<equiv> \<lparr>dur_secs = s, dur_nanos = n\<rparr>"

definition checked_add_u32 :: "nat \<Rightarrow> nat \<Rightarrow> nat option" where
  "checked_add_u32 a b = (if a + b \<le> u32_limit then Some (a + b) else None)"

definition checked_mul_u64 :: "nat \<Rightarrow> nat \<Rightarrow> nat option" where
  "checked_mul_u64 a b = (if a * b \<le> usize_max then Some (a * b) else None)"

definition dur_max :: duration where
  "dur_max = Dur usize_max (NANOS_PER_SEC - 1)"

definition dur_new :: "nat \<Rightarrow> nat \<Rightarrow> duration outcome" where
  "dur_new secs nanos = do {
     s \<leftarrow> checked_add secs (nanos div NANOS_PER_SEC);
     Returned (Dur s (nanos mod NANOS_PER_SEC))
   }"

definition from_secs :: "nat \<Rightarrow> duration" where
  "from_secs secs = Dur secs 0"

definition from_millis :: "nat \<Rightarrow> duration" where
  "from_millis millis = Dur (millis div MILLIS_PER_SEC) (millis mod MILLIS_PER_SEC * NANOS_PER_MILLI)"

definition from_micros :: "nat \<Rightarrow> duration" where
  "from_micros micros = Dur (micros div MICROS_PER_SEC) (micros mod MICROS_PER_SEC * NANOS_PER_MICRO)"

definition from_nanos :: "nat \<Rightarrow> duration" where
  "from_nanos nanos = Dur (nanos div NANOS_PER_SEC) (nanos mod NANOS_PER_SEC)"

definition as_millis :: "duration \<Rightarrow> nat outcome" where
  "as_millis self = do {
     s \<leftarrow> checked_mul_u64 (dur_secs self) MILLIS_PER_SEC;
     checked_add s (dur_nanos self div NANOS_PER_MILLI)
   }"

definition as_micros :: "duration \<Rightarrow> nat outcome" where
  "as_micros self = do {
     s \<leftarrow> checked_mul_u64 (dur_secs self) MICROS_PER_SEC;
     checked_add s (dur_nanos self div NANOS_PER_MICRO)
   }"

definition as_nanos :: "duration \<Rightarrow> nat" where
  "as_nanos self = dur_secs self * NANOS_PER_SEC + dur_nanos self"

definition dur_checked_add :: "duration \<Rightarrow> duration \<Rightarrow> duration option" where
  "dur_checked_add self other = do {
     secs \<leftarrow> checked_add (dur_secs self) (dur_secs other);
     nanos \<leftarrow> checked_add_u32 (dur_nanos self) (dur_nanos other);
     if nanos > NANOS_PER_SEC
     then do { s \<leftarrow> checked_add secs 1; Some (Dur s (nanos - NANOS_PER_SEC)) }
     else Some (Dur secs nanos)
   }"

definition dur_checked_sub :: "duration \<Rightarrow> duration \<Rightarrow> duration option" where
  "dur_checked_sub self other = do {
     secs \<leftarrow> checked_sub (dur_secs self) (dur_secs other);
     if dur_nanos self < dur_nanos other
     then do {
       s \<leftarrow> checked_sub secs 1;
       Some (Dur s (NANOS_PER_SEC - (dur_nanos other - dur_nanos self)))
     }
     else Some (Dur secs (dur_nanos self - dur_nanos other))
   }"

definition dur_checked_mul :: "duration \<Rightarrow> nat \<Rightarrow> duration option" where
  "dur_checked_mul self other = do {
     secs \<leftarrow> checked_mul_u64 (dur_secs self) other;
     let nanos = dur_nanos self * other;
     s \<leftarrow> checked_add secs (nanos div NANOS_PER_SEC);
     Some (Dur s (nanos mod NANOS_PER_SEC))
   }"

definition div_nanos :: "duration \<Rightarrow> nat \<Rightarrow> nat \<Rightarrow> nat" where
  "div_nanos self secs other = (secs mod other * NANOS_PER_SEC + dur_nanos self) div other mod 2 ^ 32"

definition dur_checked_div :: "duration \<Rightarrow> nat \<Rightarrow> duration option outcome" where
  "dur_checked_div self other =
     (if other = 0 then Returned None
      else let secs = dur_secs self div other
      in map_option Some (dur_new secs (div_nanos self secs other)))"

definition dur_saturating_add :: "duration \<Rightarrow> duration \<Rightarrow> duration" where
  "dur_saturating_add self other = (case dur_checked_add self other of None \<Rightarrow> dur_max | Some d \<Rightarrow> d)"

definition dur_saturating_sub :: "duration \<Rightarrow> duration \<Rightarrow> duration" where
  "dur_saturating_sub self other = (case dur_checked_sub self other of None \<Rightarrow> from_secs 0 | Some d \<Rightarrow> d)"

definition dur_saturating_mul :: "duration \<Rightarrow> nat \<Rightarrow> duration" where
  "dur_saturating_mul self other = (case dur_checked_mul self other of None \<Rightarrow> dur_max | Some d \<Rightarrow> d)"

definition dur_saturating_div :: "duration \<Rightarrow> nat \<Rightarrow> duration outcome" where
  "dur_saturating_div self other =
     map_option (\<lambda>r. case r of None \<Rightarrow> from_secs 0 | Some d \<Rightarrow> d) (dur_checked_div self other)"

definition dur_wrapping_add :: "duration \<Rightarrow> duration \<Rightarrow> duration" where
  "dur_wrapping_add self other =
     Dur ((dur_secs self + dur_secs other) mod 2 ^ 64) ((dur_nanos self + dur_nanos other) mod 2 ^ 32)"

datatype cmp_ordering = Less | Equal | Greater

definition dur_partial_cmp :: "duration \<Rightarrow> duration \<Rightarrow> cmp_ordering option" where
  "dur_partial_cmp self other =
     (case dur_checked_sub self other of
        Some d \<Rightarrow>
          if dur_secs d = 0 \<and> dur_nanos d = 0 then Some Equal
          else if dur_secs d > 0 \<or> dur_nanos d > 0 then Some Greater
          else None
      | None \<Rightarrow> Some Less)"

definition dur_ge :: "duration \<Rightarrow> duration \<Rightarrow> bool" where
  "dur_ge a b \<longleftrightarrow> dur_partial_cmp a b \<in> {Some Greater, Some Equal}"

definition dur_less :: "duration \<Rightarrow> duration \<Rightarrow> bool" where
  "dur_less a b \<longleftrightarrow> dur_partial_cmp a b = Some Less"

definition dur_add :: "duration \<Rightarrow> duration \<Rightarrow> duration outcome" where
  "dur_add self other = do {
     secs \<leftarrow> checked_add (dur_secs self) (dur_secs other);
     nanos \<leftarrow> checked_add_u32 (dur_nanos self) (dur_nanos other);
     if nanos \<ge> NANOS_PER_SEC
     then do { s \<leftarrow> checked_add secs 1; Returned (Dur s (nanos - NANOS_PER_SEC)) }
     else Returned (Dur secs nanos)
   }"

definition dur_sub :: "duration \<Rightarrow> duration \<Rightarrow> duration outcome" where
  "dur_sub self other = do {
     (secs, nanos) \<leftarrow>
       if dur_nanos self < dur_nanos other
       then do {
         s \<leftarrow> checked_sub (dur_secs self) 1;
         Returned (s, NANOS_PER_SEC - (dur_nanos other - dur_nanos self))
       }
       else Returned (dur_secs self, dur_nanos self - dur_nanos other);
     s \<leftarrow> checked_sub secs (dur_secs other);
     Returned (Dur s nanos)
   }"

definition dur_mul :: "duration \<Rightarrow> nat \<Rightarrow> duration outcome" where
  "dur_mul self other = do {
     secs \<leftarrow> checked_mul_u64 (dur_secs self) other;
     let nanos = dur_nanos self * other;
     s \<leftarrow> checked_add secs (nanos div NANOS_PER_SEC);
     Returned (Dur s (nanos mod NANOS_PER_SEC))
   }"

definition dur_div :: "duration \<Rightarrow> nat \<Rightarrow> duration outcome" where
  "dur_div self other =
     (if other = 0 then Panicked
      else let secs = dur_secs self div other
      in dur_new secs (div_nanos self secs other))"

text \<open>An instant wraps the duration since boot.\<close>

type_synonym instant = duration

definition duration_since :: "instant \<Rightarrow> instant \<Rightarrow> duration outcome" where
  "duration_since self earlier = dur_sub self earlier"

definition instant_add :: "instant \<Rightarrow> duration \<Rightarrow> instant outcome" where
  "instant_add self other = dur_add self other"

definition instant_sub :: "instant \<Rightarrow> duration \<Rightarrow> instant outcome" where
  "instant_sub self other = dur_sub self other"

subsection \<open>Normalised durations\<close>

definition dur_wf :: "duration \<Rightarrow> bool" where
  "dur_wf d \<longleftrightarrow> dur_nanos d < NANOS_PER_SEC \<and> dur_secs d \<le> usize_max"

lemma dur_wf_constructors:
  "n \<le> usize_max \<Longrightarrow> dur_wf (from_secs n)" "n \<le> usize_max \<Longrightarrow> dur_wf (from_millis n)"
  "n \<le> usize_max \<Longrightarrow> dur_wf (from_micros n)" "n \<le> usize_max \<Longrightarrow> dur_wf (from_nanos n)"
  "dur_wf dur_max"
proof -
  have le: "n div k \<le> n" for n k :: nat by simp
  show "n \<le> usize_max \<Longrightarrow> dur_wf (from_secs n)" by (simp add: dur_wf_def from_secs_def)
  show "n \<le> usize_max \<Longrightarrow> dur_wf (from_millis n)"
    using le [of n 1000] mod_less_divisor [of 1000 n] by (auto simp: dur_wf_def from_millis_def simp del: mod_less_divisor)
  show "n \<le> usize_max \<Longrightarrow> dur_wf (from_micros n)"
    using le [of n 1000000] mod_less_divisor [of 1000000 n] by (auto simp: dur_wf_def from_micros_def simp del: mod_less_divisor)
  show "n \<le> usize_max \<Longrightarrow> dur_wf (from_nanos n)"
    using le [of n NANOS_PER_SEC] by (auto simp: dur_wf_def from_nanos_def)
  show "dur_wf dur_max" by (simp add: dur_wf_def dur_max_def)
qed

lemma as_nanos_constructors:
  "as_nanos (from_secs n) = n * NANOS_PER_SEC" "as_nanos (from_millis n) = n * NANOS_PER_MILLI"
  "as_nanos (from_micros n) = n * NANOS_PER_MICRO" "as_nanos (from_nanos n) = n"
proof -
  have m: "n div 1000 * 1000 + n mod 1000 = n" "n div 1000000 * 1000000 + n mod 1000000 = n"
    by (rule div_mult_mod_eq)+
  show "as_nanos (from_secs n) = n * NANOS_PER_SEC" by (simp add: as_nanos_def from_secs_def)
  show "as_nanos (from_millis n) = n * NANOS_PER_MILLI"
    unfolding as_nanos_def from_millis_def duration.select_convs using m(1) by linarith
  show "as_nanos (from_micros n) = n * NANOS_PER_MICRO"
    unfolding as_nanos_def from_micros_def duration.select_convs using m(2) by linarith
  show "as_nanos (from_nanos n) = n" by (simp add: as_nanos_def from_nanos_def)
qed

lemma as_nanos_max: "dur_wf d \<Longrightarrow> as_nanos d \<le> as_nanos dur_max"
  by (auto simp: dur_wf_def as_nanos_def dur_max_def)

lemma as_nanos_inj:
  assumes "dur_wf a" and "dur_wf b" and "as_nanos a = as_nanos b"
  shows "a = b"
proof -
  have "dur_nanos a = as_nanos a mod NANOS_PER_SEC" "dur_secs a = as_nanos a div NANOS_PER_SEC"
    using assms(1) by (simp_all add: as_nanos_def dur_wf_def)
  moreover have "dur_nanos b = as_nanos b mod NANOS_PER_SEC" "dur_secs b = as_nanos b div NANOS_PER_SEC"
    using assms(2) by (simp_all add: as_nanos_def dur_wf_def)
  ultimately show ?thesis using assms(3) by simp
qed

lemma dur_add_exact:
  assumes "dur_wf a" and "dur_wf b"
  shows "case dur_add a b of
      Some c \<Rightarrow> dur_wf c \<and> as_nanos c = as_nanos a + as_nanos b
    | None \<Rightarrow> as_nanos a + as_nanos b > as_nanos dur_max"
  using assms by (auto simp: dur_add_def dur_wf_def as_nanos_def dur_max_def checked_add_def checked_add_u32_def)

lemma dur_sub_exact:
  assumes "dur_wf a" and "dur_wf b"
  shows "case dur_sub a b of
      Some c \<Rightarrow> dur_wf c \<and> as_nanos c + as_nanos b = as_nanos a
    | None \<Rightarrow> as_nanos a < as_nanos b"
proof (cases "dur_nanos a < dur_nanos b")
  case True
  then show ?thesis
    using assms by (auto simp: dur_sub_def dur_wf_def as_nanos_def checked_sub_def algebra_simps)
next
  case False
  then show ?thesis
    using assms by (auto simp: dur_sub_def dur_wf_def as_nanos_def checked_sub_def algebra_simps)
qed

lemma dur_checked_sub_eq: "dur_checked_sub a b = dur_sub a b"
  by (auto simp: dur_checked_sub_def dur_sub_def checked_sub_def)

lemma dur_mul_exact:
  assumes "dur_wf a"
  shows "case dur_mul a k of
      Some c \<Rightarrow> dur_wf c \<and> as_nanos c = as_nanos a * k
    | None \<Rightarrow> as_nanos a * k > as_nanos dur_max"
proof -
  let ?n = "dur_nanos a * k"
  have n: "?n = ?n div NANOS_PER_SEC * NANOS_PER_SEC + ?n mod NANOS_PER_SEC" by simp
  have e: "as_nanos a * k = (dur_secs a * k + ?n div NANOS_PER_SEC) * NANOS_PER_SEC + ?n mod NANOS_PER_SEC"
    using n by (simp add: as_nanos_def algebra_simps)
  show ?thesis
    unfolding e by (auto simp: dur_mul_def dur_wf_def as_nanos_def dur_max_def checked_add_def checked_mul_u64_def Let_def)
qed

lemma dur_partial_cmp_exact:
  assumes "dur_wf a" and "dur_wf b"
  shows "dur_partial_cmp a b =
     Some (if as_nanos a < as_nanos b then Less else if as_nanos a = as_nanos b then Equal else Greater)"
proof (cases "dur_sub a b")
  case None
  then show ?thesis using dur_sub_exact [OF assms] by (simp add: dur_partial_cmp_def dur_checked_sub_eq)
next
  case (Some c)
  then have c: "as_nanos c + as_nanos b = as_nanos a" using dur_sub_exact [OF assms] by simp
  have "as_nanos c = 0 \<longleftrightarrow> dur_secs c = 0 \<and> dur_nanos c = 0" by (auto simp: as_nanos_def)
  then show ?thesis using c Some by (auto simp: dur_partial_cmp_def dur_checked_sub_eq)
qed

lemma dur_ge_iff: "dur_wf a \<Longrightarrow> dur_wf b \<Longrightarrow> dur_ge a b \<longleftrightarrow> as_nanos b \<le> as_nanos a"
  by (auto simp: dur_ge_def dur_partial_cmp_exact)

lemma dur_checked_add_exact:
  assumes "dur_wf a" and "dur_wf b"
  shows "case dur_checked_add a b of
      Some c \<Rightarrow> as_nanos c = as_nanos a + as_nanos b \<and> (dur_wf c \<longleftrightarrow> dur_nanos a + dur_nanos b \<noteq> NANOS_PER_SEC)
    | None \<Rightarrow> as_nanos a + as_nanos b > as_nanos dur_max"
  using assms
  by (auto simp: dur_checked_add_def dur_wf_def as_nanos_def dur_max_def checked_add_def checked_add_u32_def)

lemma dur_saturating_add_nanos:
  assumes "dur_wf a" and "dur_wf b"
  shows "as_nanos (dur_saturating_add a b) = min (as_nanos a + as_nanos b) (as_nanos dur_max)
      \<or> as_nanos (dur_saturating_add a b) = as_nanos a + as_nanos b"
  using dur_checked_add_exact [OF assms] by (auto simp: dur_saturating_add_def split: option.splits)



end
