(* ===== verification/Sched_Task.thy ===== *)
theory Sched_Task
  imports Clock_Time Vm_Layout
begin

text \<open>
  What the scheduler sees of a task (\<open>kernel/src/sched/task.rs\<close>) and the arithmetic of virtual time
  (\<open>kernel/src/sched/eevdf.rs\<close>). A task is reached through a shared reference and its fields are
  behind locks and atomics of their own, so tasks live in a store indexed by task id. Virtual times
  are 128-bit, weights 64-bit; both saturate. The future of a task is known only by whether its
  runnable slot is filled; register contexts are not modelled.
\<close>

subsection \<open>Saturating arithmetic\<close>

abbreviation (input) u64_max :: nat where "u64_max \<equiv> 18446744073709551615"
abbreviation (input) u128_max :: nat where "u128_max \<equiv> 340282366920938463463374607431768211455"

definition sat_add128 :: "nat \<Rightarrow> nat \<Rightarrow> nat" where
  "sat_add128 a b = min (a + b) u128_max"

definition sat_mul128 :: "nat \<Rightarrow> nat \<Rightarrow> nat" where
  "sat_mul128 a b = min (a * b) u128_max"

definition abs_diff :: "nat \<Rightarrow> nat \<Rightarrow> nat" where
  "abs_diff a b = (if a < b then b - a else a - b)"

subsection \<open>Virtual time\<close>

type_synonym virtual_time = nat

record eevdf_params =
  ep_weight :: nat
  ep_slice :: duration

abbreviation (input) BASE_WEIGHT :: nat where "BASE_WEIGHT \<equiv> 1024"

definition runtime_to_virtual :: "eevdf_params \<Rightarrow> duration \<Rightarrow> virtual_time" where
  "runtime_to_virtual self runtime =
     (let weight = max (ep_weight self) 1
      in sat_mul128 (as_nanos runtime) BASE_WEIGHT div weight)"

definition slice_to_virtual :: "eevdf_params \<Rightarrow> virtual_time" where
  "slice_to_virtual self = runtime_to_virtual self (ep_slice self)"

definition scheduler_runtime_to_virtual :: "duration \<Rightarrow> nat \<Rightarrow> virtual_time" where
  "scheduler_runtime_to_virtual runtime total_weight =
     (let total_weight = max total_weight 1
      in sat_mul128 (as_nanos runtime) BASE_WEIGHT div total_weight)"

definition eevdf_eligible :: "virtual_time \<Rightarrow> virtual_time \<Rightarrow> virtual_time" where
  "eevdf_eligible scheduler_vtime vruntime = max vruntime scheduler_vtime"

definition deadline_from_eligible :: "eevdf_params \<Rightarrow> virtual_time \<Rightarrow> virtual_time" where
  "deadline_from_eligible self veligible = sat_add128 veligible (slice_to_virtual self)"

subsection \<open>Tasks\<close>

type_synonym task_id = nat

datatype task_exit = Completed | ThreadExited usize | ProcessExited usize | Killed | Faulted | Cancelled

datatype task_sched_state = PreemptReady | AsyncReady | Blocked

definition is_ready :: "task_sched_state \<Rightarrow> bool" where
  "is_ready s \<longleftrightarrow> s \<in> {PreemptReady, AsyncReady}"

datatype task_ready_state = Preempt | Async

record task_state =
  ts_sched :: task_sched_state
  ts_terminal :: "task_exit option"

datatype task_poll_outcome = PollReady | PollBlocked | PollExited task_exit

datatype task_boundary_action = BoundaryCancelled | BoundaryOutcome task_poll_outcome

record task_sched_meta =
  weight :: nat
  vruntime :: virtual_time
  veligible :: virtual_time
  vdeadline :: virtual_time
  slice :: duration
  exec_start :: "instant option"
  exec_runtime :: duration
  meta_cpu :: nat

definition sched_meta_default :: task_sched_meta where
  "sched_meta_default =
     \<lparr>weight = 1024, vruntime = 0, veligible = 0, vdeadline = 0, slice = from_millis 4,
      exec_start = None, exec_runtime = from_secs 0, meta_cpu = 0\<rparr>"

text \<open>
  The fields that the scheduler reads and writes: state, metadata, the recorded ready reason, whether
  the runnable slot is filled, the wake-queue flag, placement, the mapped kernel stack, the cancel flag, the
  published boundary action and the recorded exit.
\<close>

record task =
  t_state :: task_state
  t_meta :: task_sched_meta
  t_ready :: task_ready_state
  t_runnable :: bool
  t_wake_queued :: bool
  t_started :: bool
  t_migration_ready :: bool
  t_migration_allowed :: bool
  t_last_cpu :: nat
  t_last_stop :: nat
  t_stack :: vm_range
  t_cancel :: bool
  t_boundary :: "task_boundary_action option"
  t_exit :: "task_exit option"

definition task_new :: "vm_range \<Rightarrow> task" where
  "task_new kernel_stack =
     \<lparr>t_state = \<lparr>ts_sched = Blocked, ts_terminal = None\<rparr>, t_meta = sched_meta_default, t_ready = Async,
      t_runnable = False, t_wake_queued = False, t_started = False, t_migration_ready = False,
      t_migration_allowed = True, t_last_cpu = usize_max, t_last_stop = 0, t_stack = kernel_stack,
      t_cancel = False, t_boundary = None, t_exit = None\<rparr>"

type_synonym task_store = "task_id \<Rightarrow> task"

definition set_meta :: "task_id \<Rightarrow> task_sched_meta \<Rightarrow> task_store \<Rightarrow> task_store" where
  "set_meta t m st = st(t := (st t)\<lparr>t_meta := m\<rparr>)"

definition set_state :: "task_id \<Rightarrow> task_state \<Rightarrow> task_store \<Rightarrow> task_store" where
  "set_state t s st = st(t := (st t)\<lparr>t_state := s\<rparr>)"

definition mark_ready :: "task_id \<Rightarrow> task_ready_state \<Rightarrow> task_store \<Rightarrow> task_store" where
  "mark_ready t r st = st(t := (st t)\<lparr>t_ready := r\<rparr>)"

text \<open>Read the ready reason and reset it to \<open>Async\<close>.\<close>

definition take_ready_reason :: "task_id \<Rightarrow> task_store \<Rightarrow> task_ready_state \<times> task_store" where
  "take_ready_reason t st = (t_ready (st t), mark_ready t Async st)"

definition set_wake_queued :: "task_id \<Rightarrow> bool \<Rightarrow> task_store \<Rightarrow> task_store" where
  "set_wake_queued t b st = st(t := (st t)\<lparr>t_wake_queued := b\<rparr>)"

definition try_mark_wake_queued :: "task_id \<Rightarrow> task_store \<Rightarrow> bool \<times> task_store" where
  "try_mark_wake_queued t st = (\<not> t_wake_queued (st t), set_wake_queued t True st)"

definition clear_wake_queued :: "task_id \<Rightarrow> task_store \<Rightarrow> bool \<times> task_store" where
  "clear_wake_queued t st = (t_wake_queued (st t), set_wake_queued t False st)"

definition set_migration_ready :: "task_id \<Rightarrow> bool \<Rightarrow> task_store \<Rightarrow> task_store" where
  "set_migration_ready t b st = st(t := (st t)\<lparr>t_migration_ready := b\<rparr>)"

definition instant_nanos :: "instant \<Rightarrow> nat" where
  "instant_nanos now = min (as_nanos now) u64_max"

definition record_stop :: "task_id \<Rightarrow> nat \<Rightarrow> instant \<Rightarrow> task_store \<Rightarrow> task_store" where
  "record_stop t cpu_id now st = st(t := (st t)\<lparr>t_last_cpu := cpu_id, t_last_stop := instant_nanos now\<rparr>)"

definition is_cache_hot_on :: "task \<Rightarrow> nat \<Rightarrow> instant \<Rightarrow> duration \<Rightarrow> bool" where
  "is_cache_hot_on tk cpu_id now threshold =
     (if t_last_cpu tk \<noteq> cpu_id then False
      else instant_nanos now - t_last_stop tk < min (as_nanos threshold) u64_max)"

definition kernel_stack_contains :: "task \<Rightarrow> usize \<Rightarrow> bool" where
  "kernel_stack_contains tk rsp = range_contains (t_stack tk) rsp"

lemma is_ready_simps [simp]: "is_ready PreemptReady" "is_ready AsyncReady" "\<not> is_ready Blocked"
  by (simp_all add: is_ready_def)

lemma deadline_after_eligible: "ve \<le> u128_max \<Longrightarrow> ve \<le> deadline_from_eligible p ve"
  by (simp add: deadline_from_eligible_def sat_add128_def)

end
