(* ===== verification/Scheduler.thy ===== *)
theory Scheduler
  imports Sched_Task
begin

text \<open>
  The scheduler of one CPU (\<open>impl Scheduler\<close> in \<open>kernel/src/sched/mod.rs\<close>). The task table is the
  list of the ids it holds; the two red-black trees are lists in key order, with the key read from
  the task store; the wake inbox is a list. An operation takes the scheduler and the task store and
  returns both. The flag \<open>dbg\<close> is \<open>cfg(debug_assertions)\<close>: when it is set, the operations end with
  \<open>debug_verify\<close>, whose failed assertions are a panic.
\<close>

subsection \<open>State\<close>

record scheduler =
  sc_cpu :: nat
  sc_current :: "task_id option"
  sc_vtime :: virtual_time
  sc_total_weight :: nat
  sc_last_balance :: "instant option"
  sc_tasks :: "task_id list"
  sc_eligible :: "task_id list"
  sc_ineligible :: "task_id list"
  sc_wake_inbox :: "task_id list"

type_synonym sched_state = "scheduler \<times> task_store"

definition scheduler_new :: "nat \<Rightarrow> scheduler" where
  "scheduler_new cpu_id =
     \<lparr>sc_cpu = cpu_id, sc_current = None, sc_vtime = 0, sc_total_weight = 0, sc_last_balance = None,
      sc_tasks = [], sc_eligible = [], sc_ineligible = [], sc_wake_inbox = []\<rparr>"

text \<open>Keys of the trees: virtual deadline or eligible time, then the task id.\<close>

definition key_less :: "(task_id \<Rightarrow> nat) \<Rightarrow> task_id \<Rightarrow> task_id \<Rightarrow> bool" where
  "key_less k a b \<longleftrightarrow> k a < k b \<or> k a = k b \<and> a < b"

fun tree_insert :: "(task_id \<Rightarrow> nat) \<Rightarrow> task_id \<Rightarrow> task_id list \<Rightarrow> task_id list" where
  "tree_insert k t [] = [t]"
| "tree_insert k t (x # xs) = (if key_less k t x then t # x # xs else x # tree_insert k t xs)"

abbreviation deadline_of :: "task_store \<Rightarrow> task_id \<Rightarrow> virtual_time" where
  "deadline_of st t \<equiv> vdeadline (t_meta (st t))"

abbreviation eligible_of :: "task_store \<Rightarrow> task_id \<Rightarrow> virtual_time" where
  "eligible_of st t \<equiv> veligible (t_meta (st t))"

abbreviation ready_in :: "task_store \<Rightarrow> task_id \<Rightarrow> bool" where
  "ready_in st t \<equiv> is_ready (ts_sched (t_state (st t)))"

abbreviation weight_of :: "task_store \<Rightarrow> task_id \<Rightarrow> nat" where
  "weight_of st t \<equiv> max (weight (t_meta (st t))) 1"

subsection \<open>Weight and virtual time\<close>

definition scheduler_state_for_ready :: "task_ready_state \<Rightarrow> task_sched_state" where
  "scheduler_state_for_ready ready = (case ready of Preempt \<Rightarrow> PreemptReady | Async \<Rightarrow> AsyncReady)"

definition add_runnable_weight :: "scheduler \<Rightarrow> task_store \<Rightarrow> task_id \<Rightarrow> scheduler" where
  "add_runnable_weight self st t = self\<lparr>sc_total_weight := min (sc_total_weight self + weight_of st t) u64_max\<rparr>"

definition sub_runnable_weight :: "scheduler \<Rightarrow> task_store \<Rightarrow> task_id \<Rightarrow> scheduler" where
  "sub_runnable_weight self st t = self\<lparr>sc_total_weight := sc_total_weight self - weight_of st t\<rparr>"

definition adjust_vtime_for_departure :: "scheduler \<Rightarrow> task_store \<Rightarrow> task_id \<Rightarrow> scheduler" where
  "adjust_vtime_for_departure self st t =
     (let w = weight_of st t;
          remaining_weight = sc_total_weight self - w
      in if remaining_weight = 0 then self
      else let correction = sat_mul128 (abs_diff (sc_vtime self) (eligible_of st t)) w div remaining_weight
      in if sc_vtime self \<ge> eligible_of st t
      then self\<lparr>sc_vtime := sat_add128 (sc_vtime self) correction\<rparr>
      else self\<lparr>sc_vtime := sc_vtime self - correction\<rparr>)"

definition transition_task_state :: "task_id \<Rightarrow> task_state \<Rightarrow> sched_state \<Rightarrow> sched_state" where
  "transition_task_state t new_state s =
     (let was_runnable = ready_in (snd s) t;
          now_runnable = is_ready (ts_sched new_state);
          self =
            (if \<not> was_runnable \<and> now_runnable then add_runnable_weight (fst s) (snd s) t
             else if was_runnable \<and> \<not> now_runnable
             then sub_runnable_weight (adjust_vtime_for_departure (fst s) (snd s) t) (snd s) t
             else fst s)
      in (self, set_state t new_state (snd s)))"

definition meta_params :: "task_sched_meta \<Rightarrow> eevdf_params" where
  "meta_params m = \<lparr>ep_weight = max (weight m) 1, ep_slice = slice m\<rparr>"

definition refresh_deadlines :: "scheduler \<Rightarrow> task_id \<Rightarrow> task_sched_meta \<Rightarrow> task_store \<Rightarrow> task_store" where
  "refresh_deadlines self t m st =
     (let ve = eevdf_eligible (sc_vtime self) (vruntime m)
      in set_meta t (m\<lparr>veligible := ve, vdeadline := deadline_from_eligible (meta_params m) ve\<rparr>) st)"

subsection \<open>Checks of debug builds\<close>

text \<open>The assertions that hold of every task of one tree.\<close>

definition verify_queued :: "scheduler \<Rightarrow> task_store \<Rightarrow> task_id \<Rightarrow> bool" where
  "verify_queued self st t \<longleftrightarrow>
     ready_in st t \<and> Some t \<noteq> sc_current self \<and> eligible_of st t \<le> deadline_of st t"

definition verify_task :: "scheduler \<Rightarrow> task_store \<Rightarrow> task_id \<Rightarrow> bool" where
  "verify_task self st t \<longleftrightarrow>
     (let in_eligible = t \<in> set (sc_eligible self);
          in_ineligible = t \<in> set (sc_ineligible self)
      in meta_cpu (t_meta (st t)) = sc_cpu self
       \<and> eligible_of st t \<le> deadline_of st t
       \<and> (if ready_in st t
          then if Some t = sc_current self
               then \<not> in_eligible \<and> \<not> in_ineligible \<and> exec_start (t_meta (st t)) \<noteq> None
                 \<and> ts_terminal (t_state (st t)) = None
               else in_eligible \<noteq> in_ineligible \<and> exec_start (t_meta (st t)) = None
          else \<not> in_eligible \<and> \<not> in_ineligible \<and> exec_start (t_meta (st t)) = None))"

definition runnable_weight :: "task_store \<Rightarrow> task_id list \<Rightarrow> nat" where
  "runnable_weight st ts = foldl (\<lambda>w t. if ready_in st t then min (w + weight_of st t) u64_max else w) 0 ts"

definition debug_verify :: "sched_state \<Rightarrow> bool" where
  "debug_verify s \<longleftrightarrow>
     (let self = fst s; st = snd s
      in distinct (sc_eligible self)
       \<and> (\<forall>t \<in> set (sc_eligible self). verify_queued self st t \<and> eligible_of st t \<le> sc_vtime self)
       \<and> distinct (sc_ineligible self)
       \<and> (\<forall>t \<in> set (sc_ineligible self). t \<notin> set (sc_eligible self) \<and> verify_queued self st t)
       \<and> (\<forall>t \<in> set (sc_tasks self). verify_task self st t)
       \<and> runnable_weight st (sc_tasks self) = sc_total_weight self)"

definition debug_checked :: "bool \<Rightarrow> 'a \<times> sched_state \<Rightarrow> ('a \<times> sched_state) outcome" where
  "debug_checked dbg r = do { _ \<leftarrow> assert_that (dbg \<longrightarrow> debug_verify (snd r)); Returned r }"

subsection \<open>Queues\<close>

definition current_task :: "scheduler \<Rightarrow> task_id option" where
  "current_task self = (case sc_current self of None \<Rightarrow> None | Some t \<Rightarrow> if t \<in> set (sc_tasks self) then Some t else None)"

definition should_rebalance :: "scheduler \<Rightarrow> instant \<Rightarrow> duration \<Rightarrow> bool outcome" where
  "should_rebalance self now interval =
     (case sc_last_balance self of
        None \<Rightarrow> Returned True
      | Some earlier \<Rightarrow>
          if dur_less now earlier then Returned True
          else map_option (\<lambda>d. dur_ge d interval) (duration_since now earlier))"

definition mark_rebalanced :: "scheduler \<Rightarrow> instant \<Rightarrow> scheduler" where
  "mark_rebalanced self now = self\<lparr>sc_last_balance := Some now\<rparr>"

definition has_runnable_work :: "scheduler \<Rightarrow> bool" where
  "has_runnable_work self \<longleftrightarrow>
     sc_current self \<noteq> None \<or> sc_eligible self \<noteq> [] \<or> sc_ineligible self \<noteq> [] \<or> sc_wake_inbox self \<noteq> []"

definition runnable_task_count :: "sched_state \<Rightarrow> nat" where
  "runnable_task_count s = length (filter (ready_in (snd s)) (sc_tasks (fst s)))"

definition insert_runnable_pointer :: "task_id \<Rightarrow> task_ready_state \<Rightarrow> sched_state \<Rightarrow> sched_state" where
  "insert_runnable_pointer t ready s =
     (if t \<notin> set (sc_tasks (fst s)) then s
      else let st1 = refresh_deadlines (fst s) t ((t_meta (snd s t))\<lparr>meta_cpu := sc_cpu (fst s)\<rparr>) (snd s);
               s2 = transition_task_state t ((t_state (st1 t))\<lparr>ts_sched := scheduler_state_for_ready ready\<rparr>) (fst s, st1);
               self = fst s2;
               st = mark_ready t Async (snd s2)
      in if eligible_of st t \<le> sc_vtime self
      then (self\<lparr>sc_eligible := tree_insert (deadline_of st) t (sc_eligible self)\<rparr>, st)
      else (self\<lparr>sc_ineligible := tree_insert (eligible_of st) t (sc_ineligible self)\<rparr>, st))"

definition admit_task :: "bool \<Rightarrow> task_id \<Rightarrow> sched_state \<Rightarrow> (task_id \<times> sched_state) outcome" where
  "admit_task dbg t s =
     (if t \<in> set (sc_tasks (fst s)) then Returned (t, s)
      else let st1 = refresh_deadlines (fst s) t ((t_meta (snd s t))\<lparr>meta_cpu := sc_cpu (fst s)\<rparr>) (snd s);
               self1 = (fst s)\<lparr>sc_tasks := t # sc_tasks (fst s)\<rparr>;
               state = t_state (st1 t)
      in debug_checked dbg (t,
           if t_runnable (st1 t) \<or> is_ready (ts_sched state)
           then let ready_state = (case ts_sched state of PreemptReady \<Rightarrow> Preempt | _ \<Rightarrow> Async);
                    self2 = (if is_ready (ts_sched state) then add_runnable_weight self1 st1 t else self1)
                in insert_runnable_pointer t ready_state (self2, st1)
           else (self1, st1)))"

definition remove_task :: "task_id \<Rightarrow> sched_state \<Rightarrow> task_id option \<times> sched_state" where
  "remove_task t s =
     (if t \<notin> set (sc_tasks (fst s)) then (None, s)
      else let self1 = (fst s)\<lparr>sc_tasks := remove1 t (sc_tasks (fst s))\<rparr>;
               (queued, st1) = clear_wake_queued t (snd s);
               self2 = (if queued then self1\<lparr>sc_wake_inbox := remove1 t (sc_wake_inbox self1)\<rparr> else self1)
      in (Some t, if ready_in st1 t then sub_runnable_weight self2 st1 t else self2, st1))"

definition enqueue_wakeup :: "task_id \<Rightarrow> sched_state \<Rightarrow> sched_state" where
  "enqueue_wakeup t s =
     (if t \<notin> set (sc_tasks (fst s)) then s
      else let (marked, st) = try_mark_wake_queued t (snd s)
      in if marked then ((fst s)\<lparr>sc_wake_inbox := sc_wake_inbox (fst s) @ [t]\<rparr>, st) else (fst s, st))"

definition activate_wakeup_task :: "task_id \<Rightarrow> sched_state \<Rightarrow> bool \<times> sched_state" where
  "activate_wakeup_task t s =
     (if t \<notin> set (sc_tasks (fst s)) then (False, s)
      else let state = t_state (snd s t)
      in if is_ready (ts_sched state) then (False, s)
      else let (ready_state, st1) = take_ready_reason t (snd s);
               (self2, st2) = transition_task_state t (state\<lparr>ts_sched := scheduler_state_for_ready ready_state\<rparr>) (fst s, st1);
               st3 = (if t_started (st2 t) then set_migration_ready t True st2 else st2)
      in (True, insert_runnable_pointer t ready_state (self2, st3)))"

fun drain_loop :: "task_id list \<Rightarrow> nat \<Rightarrow> sched_state \<Rightarrow> nat \<times> sched_state" where
  "drain_loop [] drained s = (drained, (fst s)\<lparr>sc_wake_inbox := []\<rparr>, snd s)"
| "drain_loop (t # inbox) drained s =
     (let (_, st) = clear_wake_queued t (snd s);
          (activated, s1) = activate_wakeup_task t ((fst s)\<lparr>sc_wake_inbox := inbox\<rparr>, st)
      in drain_loop inbox (if activated then drained + 1 else drained) s1)"

definition drain_wakeups :: "bool \<Rightarrow> sched_state \<Rightarrow> (nat \<times> sched_state) outcome" where
  "drain_wakeups dbg s = debug_checked dbg (drain_loop (sc_wake_inbox (fst s)) 0 s)"

fun promote_loop :: "task_store \<Rightarrow> task_id list \<Rightarrow> scheduler \<Rightarrow> scheduler" where
  "promote_loop st [] self = self"
| "promote_loop st (t # rest) self =
     (if eligible_of st t > sc_vtime self then self
      else promote_loop st rest
        (self\<lparr>sc_ineligible := rest, sc_eligible := tree_insert (deadline_of st) t (sc_eligible self)\<rparr>))"

definition promote_eligible :: "sched_state \<Rightarrow> scheduler" where
  "promote_eligible s = promote_loop (snd s) (sc_ineligible (fst s)) (fst s)"

subsection \<open>Dispatch\<close>

text \<open>Virtual time jumps to the first eligible time when no task is eligible.\<close>

definition jump_to_eligible :: "sched_state \<Rightarrow> scheduler" where
  "jump_to_eligible s =
     (case sc_ineligible (fst s) of
        [] \<Rightarrow> fst s
      | t # _ \<Rightarrow>
          let next_eligible = eligible_of (snd s) t;
              self = (if next_eligible > sc_vtime (fst s) then (fst s)\<lparr>sc_vtime := next_eligible\<rparr> else fst s)
          in promote_eligible (self, snd s))"

definition pick_next :: "sched_state \<Rightarrow> task_id option \<times> sched_state" where
  "pick_next s =
     (let self1 = promote_eligible s;
          self2 = (if sc_eligible self1 = [] then jump_to_eligible (self1, snd s) else self1)
      in case sc_eligible self2 of
           [] \<Rightarrow> (None, self2, snd s)
         | t # rest \<Rightarrow>
             let self3 = self2\<lparr>sc_eligible := rest\<rparr>
             in if t \<in> set (sc_tasks self3) then (Some t, self3\<lparr>sc_current := Some t\<rparr>, snd s)
                else (None, self3, snd s))"

definition stop_exec :: "task_id \<Rightarrow> task_store \<Rightarrow> task_store" where
  "stop_exec t st = set_meta t ((t_meta (st t))\<lparr>exec_start := None, exec_runtime := from_secs 0\<rparr>) st"

definition take_next :: "bool \<Rightarrow> instant \<Rightarrow> sched_state \<Rightarrow> (task_id option \<times> sched_state) outcome" where
  "take_next dbg now s =
     (case pick_next s of
        (None, s1) \<Rightarrow> Returned (None, s1)
      | (Some t, s1) \<Rightarrow>
          debug_checked dbg (Some t, fst s1,
            set_meta t ((t_meta (snd s1 t))\<lparr>exec_start := Some now, exec_runtime := from_secs 0\<rparr>) (snd s1)))"

text \<open>The current task leaves the CPU: \<open>current.take()\<close> and the lookup in the task table.\<close>

definition take_current :: "sched_state \<Rightarrow> task_id option \<times> sched_state" where
  "take_current s =
     (case sc_current (fst s) of
        None \<Rightarrow> (None, s)
      | Some t \<Rightarrow>
          let self = (fst s)\<lparr>sc_current := None\<rparr>
          in (if t \<in> set (sc_tasks self) then Some t else None, self, snd s))"

definition requeue_current_with :: "task_ready_state \<Rightarrow> sched_state \<Rightarrow> task_id option \<times> sched_state" where
  "requeue_current_with ready s =
     (case take_current s of
        (None, s1) \<Rightarrow> (None, s1)
      | (Some t, s1) \<Rightarrow>
          let state = t_state (snd s1 t)
          in if ts_terminal state \<noteq> None then (Some t, s1)
          else let s2 = transition_task_state t (state\<lparr>ts_sched := scheduler_state_for_ready ready\<rparr>) (fst s1, stop_exec t (snd s1))
          in (Some t, insert_runnable_pointer t ready s2))"

definition block_current :: "sched_state \<Rightarrow> task_id option \<times> sched_state" where
  "block_current s =
     (case take_current s of
        (None, s1) \<Rightarrow> (None, s1)
      | (Some t, s1) \<Rightarrow>
          (Some t, transition_task_state t ((t_state (snd s1 t))\<lparr>ts_sched := Blocked\<rparr>) (fst s1, stop_exec t (snd s1))))"

definition exit_current_with :: "task_exit \<Rightarrow> sched_state \<Rightarrow> task_id option \<times> sched_state" where
  "exit_current_with exit s =
     (case take_current s of
        (None, s1) \<Rightarrow> (None, s1)
      | (Some t, s1) \<Rightarrow>
          (Some t, transition_task_state t ((t_state (snd s1 t))\<lparr>ts_sched := Blocked, ts_terminal := Some exit\<rparr>)
             (fst s1, stop_exec t (snd s1))))"

definition finalize_current_poll :: "task_poll_outcome \<Rightarrow> sched_state \<Rightarrow> task_id option \<times> sched_state" where
  "finalize_current_poll outcome s =
     (case outcome of
        PollReady \<Rightarrow>
          (case current_task (fst s) of
             None \<Rightarrow> (None, s)
           | Some t \<Rightarrow> let (ready, st) = take_ready_reason t (snd s) in requeue_current_with ready (fst s, st))
      | PollBlocked \<Rightarrow> block_current s
      | PollExited exit \<Rightarrow> exit_current_with exit s)"

definition account_current_runtime :: "duration \<Rightarrow> instant \<Rightarrow> sched_state \<Rightarrow> sched_state" where
  "account_current_runtime runtime now s =
     (case current_task (fst s) of
        None \<Rightarrow> s
      | Some t \<Rightarrow>
          let m = t_meta (snd s t);
              task_delta = runtime_to_virtual (meta_params m) runtime;
              sched_delta = scheduler_runtime_to_virtual runtime (max (sc_total_weight (fst s)) 1);
              m1 = m\<lparr>vruntime := sat_add128 (vruntime m) task_delta,
                     exec_runtime := dur_saturating_add (exec_runtime m) runtime, exec_start := Some now\<rparr>;
              self = (fst s)\<lparr>sc_vtime := sat_add128 (sc_vtime (fst s)) sched_delta\<rparr>
          in (self, refresh_deadlines self t m1 (snd s)))"

definition should_preempt_current :: "sched_state \<Rightarrow> bool \<times> scheduler" where
  "should_preempt_current s =
     (case current_task (fst s) of
        None \<Rightarrow> (False, fst s)
      | Some t \<Rightarrow>
          let self = promote_eligible s
          in (case sc_eligible self of
                [] \<Rightarrow> (False, self)
              | contender # _ \<Rightarrow>
                  (deadline_of (snd s) contender < deadline_of (snd s) t
                   \<or> dur_ge (exec_runtime (t_meta (snd s t))) (slice (t_meta (snd s t))) \<and> contender \<noteq> t, self)))"

subsection \<open>Trap boundaries\<close>

definition current_task_from_trap :: "scheduler \<Rightarrow> task_store \<Rightarrow> usize \<Rightarrow> task_id option" where
  "current_task_from_trap self st rsp =
     (case current_task self of
        None \<Rightarrow> None
      | Some t \<Rightarrow> if kernel_stack_contains (st t) rsp then Some t else None)"

text \<open>The time since \<open>exec_start\<close> is accounted when it is positive; the flag says whether it was.\<close>

definition account_since :: "instant \<Rightarrow> instant option \<Rightarrow> sched_state \<Rightarrow> (bool \<times> sched_state) outcome" where
  "account_since now start s =
     (case start of
        None \<Rightarrow> Returned (False, s)
      | Some es \<Rightarrow>
          if dur_ge now es
          then do {
            runtime \<leftarrow> duration_since now es;
            Returned (if as_nanos runtime > 0 then (True, account_current_runtime runtime now s) else (False, s))
          }
          else Returned (False, s))"

definition account_trap_runtime :: "task_id \<Rightarrow> instant option \<Rightarrow> sched_state \<Rightarrow> sched_state outcome" where
  "account_trap_runtime t now s =
     (case now of
        None \<Rightarrow> Returned s
      | Some now \<Rightarrow> map_option snd (account_since now (exec_start (t_meta (snd s t))) s))"

record trap_boundary_finalize =
  tb_reaped :: "task_id option"
  tb_migration_ready :: "task_id option"

definition finalize_action :: "task_boundary_action \<Rightarrow> task_id \<Rightarrow> sched_state \<Rightarrow> trap_boundary_finalize \<times> sched_state" where
  "finalize_action action t s =
     (case action of
        BoundaryCancelled \<Rightarrow>
          let (_, s1) = exit_current_with Cancelled s; (reaped, s2) = remove_task t s1
          in (\<lparr>tb_reaped = reaped, tb_migration_ready = None\<rparr>, s2)
      | BoundaryOutcome outcome \<Rightarrow>
          (case outcome of
             PollExited exit \<Rightarrow>
               let (_, s1) = exit_current_with exit s; (reaped, s2) = remove_task t s1
               in (\<lparr>tb_reaped = reaped, tb_migration_ready = None\<rparr>, s2)
           | _ \<Rightarrow>
               let (result, s1) = finalize_current_poll outcome s
               in (\<lparr>tb_reaped = None,
                    tb_migration_ready = (if result \<noteq> None \<and> outcome = PollReady then Some t else None)\<rparr>, s1)))"

definition finalize_current_boundary ::
    "bool \<Rightarrow> usize \<Rightarrow> task_boundary_action \<Rightarrow> instant option \<Rightarrow> sched_state \<Rightarrow> (trap_boundary_finalize option \<times> sched_state) outcome" where
  "finalize_current_boundary dbg rsp action now s =
     (case current_task_from_trap (fst s) (snd s) rsp of
        None \<Rightarrow> Returned (None, s)
      | Some t \<Rightarrow> do {
          s1 \<leftarrow> account_trap_runtime t now s;
          let s2 = (case now of None \<Rightarrow> s1 | Some now \<Rightarrow> (fst s1, record_stop t (sc_cpu (fst s1)) now (snd s1)));
          let (finalized, s3) = finalize_action action t s2;
          debug_checked dbg (Some finalized, s3)
        })"

definition save_preempted_current ::
    "bool \<Rightarrow> usize \<Rightarrow> instant option \<Rightarrow> sched_state \<Rightarrow> (task_id option \<times> sched_state) outcome" where
  "save_preempted_current dbg rsp now s =
     (case current_task_from_trap (fst s) (snd s) rsp of
        None \<Rightarrow> Returned (None, s)
      | Some t \<Rightarrow> do {
          s1 \<leftarrow> account_trap_runtime t now s;
          let s2 = (case now of None \<Rightarrow> s1 | Some now \<Rightarrow> (fst s1, record_stop t (sc_cpu (fst s1)) now (snd s1)));
          let (requeued, s3) = requeue_current_with Preempt (fst s2, mark_ready t Preempt (snd s2));
          debug_checked dbg (if requeued = Some t then Some t else None, s3)
        })"

definition on_tick :: "bool \<Rightarrow> instant \<Rightarrow> sched_state \<Rightarrow> (bool \<times> sched_state) outcome" where
  "on_tick dbg now s = do {
     (drained, s1) \<leftarrow> drain_wakeups dbg s;
     (accounted, s2) \<leftarrow>
       (case current_task (fst s1) of
          None \<Rightarrow> Returned (False, s1)
        | Some t \<Rightarrow> account_since now (exec_start (t_meta (snd s1 t))) s1);
     let (preempt, s3) =
       (if sc_current (fst s2) = None \<and> drained > 0 then (True, s2)
        else if accounted \<or> drained > 0
        then let (b, self) = should_preempt_current s2 in (b, self, snd s2)
        else (False, s2));
     debug_checked dbg (preempt, s3)
   }"

subsection \<open>Migration\<close>

datatype migration_policy = Steal | BalanceRequest

definition migratable :: "nat \<Rightarrow> instant \<Rightarrow> duration \<Rightarrow> bool \<Rightarrow> task \<Rightarrow> bool" where
  "migratable cpu_id now cache_hot_threshold ignore_cache_hot tk \<longleftrightarrow>
     t_migration_ready tk \<and> t_migration_allowed tk
     \<and> (ignore_cache_hot \<or> \<not> is_cache_hot_on tk cpu_id now cache_hot_threshold)"

definition remove_first_migratable_from_tree ::
    "bool \<Rightarrow> instant \<Rightarrow> duration \<Rightarrow> bool \<Rightarrow> sched_state \<Rightarrow> task_id option \<times> scheduler" where
  "remove_first_migratable_from_tree eligible now threshold ignore_hot s =
     (let self = fst s;
          tree = (if eligible then sc_eligible self else sc_ineligible self)
      in case filter (\<lambda>t. migratable (sc_cpu self) now threshold ignore_hot (snd s t)) tree of
           [] \<Rightarrow> (None, self)
         | t # _ \<Rightarrow>
             (if t \<in> set (sc_tasks self) then Some t else None,
              if eligible then self\<lparr>sc_eligible := remove1 t tree\<rparr> else self\<lparr>sc_ineligible := remove1 t tree\<rparr>))"

definition extract_migratable_task ::
    "instant \<Rightarrow> duration \<Rightarrow> bool \<Rightarrow> sched_state \<Rightarrow> task_id option \<times> scheduler" where
  "extract_migratable_task now threshold relax s =
     (case remove_first_migratable_from_tree True now threshold False s of
        (Some t, self) \<Rightarrow> (Some t, self)
      | (None, self1) \<Rightarrow>
          (case remove_first_migratable_from_tree False now threshold False (self1, snd s) of
             (Some t, self) \<Rightarrow> (Some t, self)
           | (None, self2) \<Rightarrow>
               if \<not> relax then (None, self2)
               else (case remove_first_migratable_from_tree True now threshold True (self2, snd s) of
                       (Some t, self) \<Rightarrow> (Some t, self)
                     | (None, self3) \<Rightarrow> remove_first_migratable_from_tree False now threshold True (self3, snd s))))"

definition take_migratable ::
    "bool \<Rightarrow> instant \<Rightarrow> duration \<Rightarrow> migration_policy \<Rightarrow> sched_state \<Rightarrow> (task_id option \<times> sched_state) outcome" where
  "take_migratable dbg now threshold policy s =
     (case extract_migratable_task now threshold (policy = BalanceRequest) s of
        (None, self) \<Rightarrow> Returned (None, self, snd s)
      | (Some t, self) \<Rightarrow>
          let self1 = self\<lparr>sc_tasks := remove1 t (sc_tasks self)\<rparr>;
              self2 = sub_runnable_weight (adjust_vtime_for_departure self1 (snd s) t) (snd s) t
          in debug_checked dbg (Some t, self2, stop_exec t (snd s)))"

end
