(* ===== verification/Sched_Inv.thy ===== *)
theory Sched_Inv
  imports Scheduler
begin

text \<open>
  The invariant of one CPU's scheduler and the lemmas that move one task at a time: a task is held
  out of the queues while an operation changes it, and then queued, blocked, started or removed.
  \<open>sched_core X\<close> is the invariant with the tasks of \<open>X\<close> held out.
\<close>

subsection \<open>Trees\<close>

lemma key_less_trans: "key_less k a b \<Longrightarrow> key_less k b c \<Longrightarrow> key_less k a c"
  by (auto simp: key_less_def)

lemma key_less_linear: "a \<noteq> b \<Longrightarrow> \<not> key_less k a b \<Longrightarrow> key_less k b a"
  by (auto simp: key_less_def)

lemma set_tree_insert [simp]: "set (tree_insert k t xs) = insert t (set xs)"
  by (induction k t xs rule: tree_insert.induct) auto

lemma distinct_tree_insert [simp]: "distinct (tree_insert k t xs) \<longleftrightarrow> distinct xs \<and> t \<notin> set xs"
  by (induction k t xs rule: tree_insert.induct) auto

lemma sorted_tree_insert:
  assumes "sorted_wrt (key_less k) xs" and "t \<notin> set xs"
  shows "sorted_wrt (key_less k) (tree_insert k t xs)"
  using assms
proof (induction xs)
  case (Cons x xs)
  show ?case
  proof (cases "key_less k t x")
    case True
    have "key_less k t y" if "y \<in> set xs" for y
      using True Cons.prems(1) that by (auto intro: key_less_trans)
    then show ?thesis using True Cons.prems(1) by simp
  next
    case False
    then have "key_less k x t" using key_less_linear [of t x k] Cons.prems(2) by auto
    then show ?thesis using False Cons by auto
  qed
qed simp

lemma sorted_key_cong:
  "(\<And>x. x \<in> set xs \<Longrightarrow> k x = k' x) \<Longrightarrow> sorted_wrt (key_less k) xs \<longleftrightarrow> sorted_wrt (key_less k') xs"
  by (induction xs) (auto simp: key_less_def)

lemma sorted_wrt_remove1: "sorted_wrt P xs \<Longrightarrow> sorted_wrt P (remove1 x xs)"
  by (induction xs) (auto dest: notin_set_remove1 in_set_remove1 [THEN iffD1, rotated] set_remove1_subset [THEN subsetD])

subsection \<open>The invariant\<close>

abbreviation queued :: "scheduler \<Rightarrow> task_id set" where
  "queued self \<equiv> set (sc_eligible self) \<union> set (sc_ineligible self)"

definition ready_weight :: "task_store \<Rightarrow> task_id set \<Rightarrow> nat" where
  "ready_weight st A = sum (weight_of st) {u \<in> A. ready_in st u}"

text \<open>What holds of every task of the table, and of the ones that are not held out.\<close>

definition meta_ok :: "nat \<Rightarrow> task \<Rightarrow> bool" where
  "meta_ok cpu tk \<longleftrightarrow> meta_cpu (t_meta tk) = cpu \<and> veligible (t_meta tk) \<le> vdeadline (t_meta tk)
     \<and> vruntime (t_meta tk) \<le> u128_max \<and> veligible (t_meta tk) \<le> u128_max"

definition idle_ok :: "scheduler \<Rightarrow> task_store \<Rightarrow> task_id \<Rightarrow> bool" where
  "idle_ok self st u \<longleftrightarrow> ts_terminal (t_state (st u)) = None
     \<and> (exec_start (t_meta (st u)) \<noteq> None \<longleftrightarrow> sc_current self = Some u)"

definition queues_ok :: "scheduler \<Rightarrow> task_store \<Rightarrow> bool" where
  "queues_ok self st \<longleftrightarrow> distinct (sc_eligible self @ sc_ineligible self)
     \<and> sorted_wrt (key_less (deadline_of st)) (sc_eligible self)
     \<and> sorted_wrt (key_less (eligible_of st)) (sc_ineligible self)"

definition sched_core :: "task_id set \<Rightarrow> sched_state \<Rightarrow> bool" where
  "sched_core X s \<longleftrightarrow>
     (let self = fst s; st = snd s; T = set (sc_tasks self)
      in distinct (sc_tasks self) \<and> queues_ok self st
       \<and> queued self = {u \<in> T. u \<notin> X \<and> ready_in st u \<and> Some u \<noteq> sc_current self}
       \<and> (\<forall>u. sc_current self = Some u \<longrightarrow> u \<in> T \<and> u \<notin> X \<and> ready_in st u)
       \<and> (\<forall>u \<in> T. meta_ok (sc_cpu self) (st u))
       \<and> (\<forall>u \<in> T - X. idle_ok self st u)
       \<and> sc_total_weight self = ready_weight st T
       \<and> sum (weight_of st) T \<le> u64_max
       \<and> sc_vtime self \<le> u128_max)"

abbreviation sched_ok :: "sched_state \<Rightarrow> bool" where
  "sched_ok s \<equiv> sched_core {} s"

lemma sched_coreD:
  assumes "sched_core X (self, st)"
  shows "distinct (sc_tasks self)" "queues_ok self st"
    "queued self = {u \<in> set (sc_tasks self). u \<notin> X \<and> ready_in st u \<and> Some u \<noteq> sc_current self}"
    "\<And>u. sc_current self = Some u \<Longrightarrow> u \<in> set (sc_tasks self) \<and> u \<notin> X \<and> ready_in st u"
    "\<And>u. u \<in> set (sc_tasks self) \<Longrightarrow> meta_ok (sc_cpu self) (st u)"
    "\<And>u. u \<in> set (sc_tasks self) - X \<Longrightarrow> idle_ok self st u"
    "sc_total_weight self = ready_weight st (set (sc_tasks self))"
    "sum (weight_of st) (set (sc_tasks self)) \<le> u64_max" "sc_vtime self \<le> u128_max"
  using assms by (simp_all add: sched_core_def Let_def)

lemma sched_coreI:
  assumes "distinct (sc_tasks self)" "queues_ok self st"
    "queued self = {u \<in> set (sc_tasks self). u \<notin> X \<and> ready_in st u \<and> Some u \<noteq> sc_current self}"
    "\<And>u. sc_current self = Some u \<Longrightarrow> u \<in> set (sc_tasks self) \<and> u \<notin> X \<and> ready_in st u"
    "\<And>u. u \<in> set (sc_tasks self) \<Longrightarrow> meta_ok (sc_cpu self) (st u)"
    "\<And>u. u \<in> set (sc_tasks self) - X \<Longrightarrow> idle_ok self st u"
    "sc_total_weight self = ready_weight st (set (sc_tasks self))"
    "sum (weight_of st) (set (sc_tasks self)) \<le> u64_max" "sc_vtime self \<le> u128_max"
  shows "sched_core X (self, st)"
  using assms unfolding sched_core_def Let_def fst_conv snd_conv by blast

text \<open>The invariant reads the state and the metadata of the tasks of the table only.\<close>

definition same_task :: "task \<Rightarrow> task \<Rightarrow> bool" where
  "same_task a b \<longleftrightarrow> t_meta a = t_meta b \<and> t_state a = t_state b"

lemma same_task_refl [simp]: "same_task a a"
  by (simp add: same_task_def)

lemma ready_weight_cong:
  "(\<And>u. u \<in> A \<Longrightarrow> (ready_in st' u \<longleftrightarrow> ready_in st u) \<and> weight_of st' u = weight_of st u)
    \<Longrightarrow> ready_weight st' A = ready_weight st A"
  unfolding ready_weight_def by (rule sum.cong) auto

lemma sum_ready_cong:
  "(\<And>u. u \<in> A \<Longrightarrow> same_task (st' u) (st u)) \<Longrightarrow> ready_weight st' A = ready_weight st A"
  unfolding ready_weight_def by (rule sum.cong) (auto simp: same_task_def)

lemma sched_core_cong:
  assumes "sched_core X (self, st)" and "\<And>u. u \<in> set (sc_tasks self) \<Longrightarrow> same_task (st' u) (st u)"
  shows "sched_core X (self, st')"
proof -
  note c = sched_coreD [OF assms(1)]
  have q: "queued self \<subseteq> set (sc_tasks self)" unfolding c(3) by blast
  have "deadline_of st' x = deadline_of st x" "eligible_of st' x = eligible_of st x" if "x \<in> queued self" for x
    using assms(2) q that by (auto simp: same_task_def)
  then have "queues_ok self st'"
    using c(2) sorted_key_cong [of "sc_eligible self" "deadline_of st'" "deadline_of st"]
      sorted_key_cong [of "sc_ineligible self" "eligible_of st'" "eligible_of st"]
    by (simp add: queues_ok_def)
  moreover have "sum (weight_of st') (set (sc_tasks self)) = sum (weight_of st) (set (sc_tasks self))"
    using assms(2) by (intro sum.cong) (auto simp: same_task_def)
  ultimately show ?thesis
    using c(1,3-9) assms(2) sum_ready_cong [of "set (sc_tasks self)" st' st]
    by (intro sched_coreI) (auto simp: same_task_def meta_ok_def idle_ok_def)
qed

subsection \<open>Weights\<close>

lemma ready_weight_split:
  assumes "finite A" and "t \<in> A"
  shows "ready_weight st A = ready_weight st (A - {t}) + (if ready_in st t then weight_of st t else 0)"
proof -
  have "{u \<in> A. ready_in st u} = {u \<in> A - {t}. ready_in st u} \<union> (if ready_in st t then {t} else {})"
    using assms(2) by auto
  then show ?thesis
    using assms(1) by (auto simp: ready_weight_def sum.union_disjoint)
qed

lemma ready_weight_le: "finite A \<Longrightarrow> ready_weight st A \<le> sum (weight_of st) A"
  unfolding ready_weight_def by (intro sum_mono2) auto

lemma ready_weight_others:
  "(\<And>u. u \<in> A \<Longrightarrow> u \<noteq> t \<Longrightarrow> st' u = st u) \<Longrightarrow> ready_weight st' (A - {t}) = ready_weight st (A - {t})"
  by (rule sum_ready_cong) auto

lemma foldl_runnable_weight:
  assumes "w + sum_list (map (weight_of st) (filter (ready_in st) ts)) \<le> u64_max"
  shows "foldl (\<lambda>w t. if ready_in st t then min (w + weight_of st t) u64_max else w) w ts
     = w + sum_list (map (weight_of st) (filter (ready_in st) ts))"
  using assms
proof (induction ts arbitrary: w)
  case (Cons t ts)
  show ?case
  proof (cases "ready_in st t")
    case True
    then have "w + weight_of st t + sum_list (map (weight_of st) (filter (ready_in st) ts)) \<le> u64_max"
      using Cons.prems by simp
    then show ?thesis using Cons.IH [of "w + weight_of st t"] True by (simp add: min_def)
  next
    case False
    then show ?thesis using Cons by simp
  qed
qed simp

lemma runnable_weight_eq:
  assumes "distinct ts" and "sum (weight_of st) (set ts) \<le> u64_max"
  shows "runnable_weight st ts = ready_weight st (set ts)"
proof -
  have e: "sum_list (map (weight_of st) (filter (ready_in st) ts)) = ready_weight st (set ts)"
    using assms(1) by (simp add: ready_weight_def sum_list_distinct_conv_sum_set)
  then have "0 + sum_list (map (weight_of st) (filter (ready_in st) ts)) \<le> u64_max"
    using ready_weight_le [of "set ts" st] assms(2) by simp
  then show ?thesis using foldl_runnable_weight [of 0 st ts] e by (simp add: runnable_weight_def)
qed

text \<open>In a well-formed scheduler the only assertion of debug builds that can fail is the one on the
  eligible times of the eligible tree.\<close>

lemma debug_verify_iff:
  assumes "sched_ok (self, st)"
  shows "debug_verify (self, st) \<longleftrightarrow> (\<forall>t \<in> set (sc_eligible self). eligible_of st t \<le> sc_vtime self)"
proof -
  note c = sched_coreD [OF assms]
  have d: "distinct (sc_eligible self)" "distinct (sc_ineligible self)" "set (sc_eligible self) \<inter> set (sc_ineligible self) = {}"
    using c(2) by (auto simp: queues_ok_def)
  have q: "t \<in> queued self \<longleftrightarrow> t \<in> set (sc_tasks self) \<and> ready_in st t \<and> Some t \<noteq> sc_current self" for t
    unfolding c(3) by simp
  have m: "eligible_of st t \<le> deadline_of st t" if "t \<in> set (sc_tasks self)" for t
    using c(5) [OF that] by (simp add: meta_ok_def)
  have vq: "verify_queued self st t" if "t \<in> queued self" for t
    using q [of t] m [of t] that by (simp add: verify_queued_def)
  have vt: "verify_task self st t" if t: "t \<in> set (sc_tasks self)" for t
  proof -
    have mo: "meta_ok (sc_cpu self) (st t)" using c(5) t by blast
    have ex: "exec_start (t_meta (st t)) \<noteq> None \<longleftrightarrow> sc_current self = Some t" "ts_terminal (t_state (st t)) = None"
      using c(6) [of t] t by (auto simp: idle_ok_def)
    have one: "t \<in> set (sc_eligible self) \<Longrightarrow> t \<notin> set (sc_ineligible self)" using d(3) by blast
    show ?thesis
    proof (cases "ready_in st t \<and> Some t \<noteq> sc_current self")
      case True
      then have "t \<in> queued self" using q t by blast
      then show ?thesis using True mo ex one by (auto simp: verify_task_def meta_ok_def)
    next
      case False
      then have "t \<notin> queued self" using q by blast
      then show ?thesis using False mo ex c(4) [of t] by (auto simp: verify_task_def meta_ok_def)
    qed
  qed
  have "runnable_weight st (sc_tasks self) = sc_total_weight self"
    using runnable_weight_eq [OF c(1,8)] c(7) by simp
  then show ?thesis using d vq vt by (auto simp: debug_verify_def)
qed

end
