(* ===== verification/Sched_Moves.thy ===== *)
theory Sched_Moves
  imports Sched_Inv
begin

text \<open>
  The moves of one task of a scheduler: out of the CPU, a change while it is held out, into a queue,
  off the queue and onto the CPU, out of the table and into it. Each keeps the invariant of the rest.
\<close>

subsection \<open>A task held out\<close>

lemma core_held:
  assumes c: "sched_core {t} (self, st)" and t: "t \<in> set (sc_tasks self)"
    and o: "\<And>u. u \<noteq> t \<Longrightarrow> same_task (st' u) (st u)"
    and m: "meta_ok (sc_cpu self) (st' t)" and w: "weight_of st' t = weight_of st t"
    and v: "v \<le> u128_max" and total: "tw = ready_weight st' (set (sc_tasks self))"
  shows "sched_core {t} (self\<lparr>sc_vtime := v, sc_total_weight := tw\<rparr>, st')"
proof -
  note d = sched_coreD [OF c]
  have nq: "t \<notin> queued self" unfolding d(3) by blast
  have "deadline_of st' x = deadline_of st x" "eligible_of st' x = eligible_of st x" if "x \<in> queued self" for x
  proof -
    have "x \<noteq> t" using nq that by blast
    then show "deadline_of st' x = deadline_of st x" "eligible_of st' x = eligible_of st x"
      using o by (simp_all add: same_task_def)
  qed
  then have q: "queues_ok self st'"
    using d(2) sorted_key_cong [of "sc_eligible self" "deadline_of st'" "deadline_of st"]
      sorted_key_cong [of "sc_ineligible self" "eligible_of st'" "eligible_of st"]
    by (simp add: queues_ok_def)
  have ws: "sum (weight_of st') (set (sc_tasks self)) = sum (weight_of st) (set (sc_tasks self))"
  proof (rule sum.cong [OF refl])
    fix x
    show "weight_of st' x = weight_of st x" using o [of x] w by (cases "x = t") (auto simp: same_task_def)
  qed
  have r: "ready_in st' u \<longleftrightarrow> ready_in st u" if "u \<noteq> t" for u using o [OF that] by (simp add: same_task_def)
  show ?thesis
  proof (rule sched_coreI)
    show "queues_ok (self\<lparr>sc_vtime := v, sc_total_weight := tw\<rparr>) st'" using q by (simp add: queues_ok_def)
    show "queued (self\<lparr>sc_vtime := v, sc_total_weight := tw\<rparr>) =
        {u \<in> set (sc_tasks (self\<lparr>sc_vtime := v, sc_total_weight := tw\<rparr>)). u \<notin> {t} \<and> ready_in st' u
          \<and> Some u \<noteq> sc_current (self\<lparr>sc_vtime := v, sc_total_weight := tw\<rparr>)}"
      using d(3) r by auto
    show "u \<in> set (sc_tasks (self\<lparr>sc_vtime := v, sc_total_weight := tw\<rparr>)) \<and> u \<notin> {t} \<and> ready_in st' u"
      if "sc_current (self\<lparr>sc_vtime := v, sc_total_weight := tw\<rparr>) = Some u" for u
      using d(4) [of u] that r [of u] by auto
    show "meta_ok (sc_cpu (self\<lparr>sc_vtime := v, sc_total_weight := tw\<rparr>)) (st' u)"
      if "u \<in> set (sc_tasks (self\<lparr>sc_vtime := v, sc_total_weight := tw\<rparr>))" for u
      using d(5) [of u] that m o [of u] by (cases "u = t") (auto simp: same_task_def meta_ok_def)
    show "idle_ok (self\<lparr>sc_vtime := v, sc_total_weight := tw\<rparr>) st' u"
      if "u \<in> set (sc_tasks (self\<lparr>sc_vtime := v, sc_total_weight := tw\<rparr>)) - {t}" for u
      using d(6) [of u] that o [of u] by (auto simp: same_task_def idle_ok_def)
  qed (use d(1,8) v total ws in auto)
qed

lemma core_held_same:
  assumes "sched_core {t} (self, st)" and "t \<in> set (sc_tasks self)"
    and "\<And>u. u \<noteq> t \<Longrightarrow> same_task (st' u) (st u)"
    and "meta_ok (sc_cpu self) (st' t)" and "weight_of st' t = weight_of st t"
    and "ready_in st' t \<longleftrightarrow> ready_in st t"
  shows "sched_core {t} (self, st')"
proof -
  note d = sched_coreD [OF assms(1)]
  have "weight_of st' u = weight_of st u \<and> (ready_in st' u \<longleftrightarrow> ready_in st u)" for u
    using assms(3) [of u] assms(5,6) by (cases "u = t") (auto simp: same_task_def)
  then have "ready_weight st' (set (sc_tasks self)) = ready_weight st (set (sc_tasks self))"
    unfolding ready_weight_def by (intro sum.cong) auto
  then have "sched_core {t} (self\<lparr>sc_vtime := sc_vtime self, sc_total_weight := sc_total_weight self\<rparr>, st')"
    by (intro core_held [OF assms(1-5)]) (use d(7,9) in auto)
  then show ?thesis by simp
qed

lemma hold_current:
  assumes "sched_ok (self, st)" and "sc_current self = Some t"
  shows "sched_core {t} (self\<lparr>sc_current := None\<rparr>, st)"
proof (rule sched_coreI)
  note d = sched_coreD [OF assms(1)]
  show "queued (self\<lparr>sc_current := None\<rparr>) = {u \<in> set (sc_tasks (self\<lparr>sc_current := None\<rparr>)). u \<notin> {t} \<and> ready_in st u
      \<and> Some u \<noteq> sc_current (self\<lparr>sc_current := None\<rparr>)}"
    using d(3) assms(2) by auto
  show "queues_ok (self\<lparr>sc_current := None\<rparr>) st" using d(2) by (simp add: queues_ok_def)
  show "idle_ok (self\<lparr>sc_current := None\<rparr>) st u" if "u \<in> set (sc_tasks (self\<lparr>sc_current := None\<rparr>)) - {t}" for u
    using d(6) [of u] that assms(2) by (auto simp: idle_ok_def)
qed (use sched_coreD [OF assms(1)] in auto)

lemma release_idle:
  assumes c: "sched_core {t} (self, st)" and "\<not> ready_in st t" and "exec_start (t_meta (st t)) = None"
    and "ts_terminal (t_state (st t)) = None"
  shows "sched_ok (self, st)"
proof (rule sched_coreI)
  note d = sched_coreD [OF c]
  show "queued self = {u \<in> set (sc_tasks self). u \<notin> {} \<and> ready_in st u \<and> Some u \<noteq> sc_current self}"
    using d(3) assms(2) by auto
  show "idle_ok self st u" if "u \<in> set (sc_tasks self) - {}" for u
    using d(4) [of t] d(6) [of u] that assms(3,4) by (cases "u = t") (auto simp: idle_ok_def)
qed (use sched_coreD [OF c] in auto)

lemma hold_idle:
  assumes c: "sched_ok (self, st)" and "\<not> ready_in st t"
  shows "sched_core {t} (self, st)"
proof (rule sched_coreI)
  note d = sched_coreD [OF c]
  show "queued self = {u \<in> set (sc_tasks self). u \<notin> {t} \<and> ready_in st u \<and> Some u \<noteq> sc_current self}"
    using d(3) assms(2) by auto
  show "u \<in> set (sc_tasks self) \<and> u \<notin> {t} \<and> ready_in st u" if "sc_current self = Some u" for u
    using d(4) [OF that] assms(2) by auto
qed (use sched_coreD [OF c] in auto)

text \<open>The invariant after the two trees are replaced.\<close>

lemma core_retree:
  assumes c: "sched_core X (self, st)"
    and q: "queues_ok (self\<lparr>sc_eligible := xs, sc_ineligible := ys\<rparr>) st"
    and s: "set xs \<union> set ys = {u \<in> set (sc_tasks self). u \<notin> Y \<and> ready_in st u \<and> Some u \<noteq> sc_current self}"
    and cur: "\<And>u. sc_current self = Some u \<Longrightarrow> u \<notin> Y"
    and i: "\<And>u. u \<in> set (sc_tasks self) - Y \<Longrightarrow> idle_ok self st u"
  shows "sched_core Y (self\<lparr>sc_eligible := xs, sc_ineligible := ys\<rparr>, st)"
proof -
  note d = sched_coreD [OF c]
  show ?thesis
  proof (rule sched_coreI)
    show "queued (self\<lparr>sc_eligible := xs, sc_ineligible := ys\<rparr>) =
        {u \<in> set (sc_tasks (self\<lparr>sc_eligible := xs, sc_ineligible := ys\<rparr>)). u \<notin> Y \<and> ready_in st u
          \<and> Some u \<noteq> sc_current (self\<lparr>sc_eligible := xs, sc_ineligible := ys\<rparr>)}"
      using s by simp
    show "idle_ok (self\<lparr>sc_eligible := xs, sc_ineligible := ys\<rparr>) st u"
      if "u \<in> set (sc_tasks (self\<lparr>sc_eligible := xs, sc_ineligible := ys\<rparr>)) - Y" for u
      using i that by (simp add: idle_ok_def)
    show "u \<in> set (sc_tasks (self\<lparr>sc_eligible := xs, sc_ineligible := ys\<rparr>)) \<and> u \<notin> Y \<and> ready_in st u"
      if "sc_current (self\<lparr>sc_eligible := xs, sc_ineligible := ys\<rparr>) = Some u" for u
      using d(4) [of u] cur that by simp
  qed (use q d in auto)
qed

lemma release_queued:
  assumes c: "sched_core {t} (self, st)" and t: "t \<in> set (sc_tasks self)" and r: "ready_in st t"
    and e: "exec_start (t_meta (st t)) = None" and f: "ts_terminal (t_state (st t)) = None"
  shows "sched_ok (self\<lparr>sc_eligible := tree_insert (deadline_of st) t (sc_eligible self)\<rparr>, st)"
    and "sched_ok (self\<lparr>sc_ineligible := tree_insert (eligible_of st) t (sc_ineligible self)\<rparr>, st)"
proof -
  note d = sched_coreD [OF c]
  have nq: "t \<notin> set (sc_eligible self)" "t \<notin> set (sc_ineligible self)" using d(3) by auto
  have nc: "sc_current self \<noteq> Some t" using d(4) [of t] by auto
  have q: "insert t (queued self) = {u \<in> set (sc_tasks self). u \<notin> {} \<and> ready_in st u \<and> Some u \<noteq> sc_current self}"
    unfolding d(3) using t r nc by auto
  have i: "idle_ok self st u" if "u \<in> set (sc_tasks self) - {}" for u
    using d(6) [of u] that nc e f by (cases "u = t") (auto simp: idle_ok_def)
  have q1: "queues_ok (self\<lparr>sc_eligible := tree_insert (deadline_of st) t (sc_eligible self), sc_ineligible := sc_ineligible self\<rparr>) st"
    using d(2) nq sorted_tree_insert [of "deadline_of st" "sc_eligible self" t] by (simp add: queues_ok_def)
  have q2: "queues_ok (self\<lparr>sc_eligible := sc_eligible self, sc_ineligible := tree_insert (eligible_of st) t (sc_ineligible self)\<rparr>) st"
    using d(2) nq sorted_tree_insert [of "eligible_of st" "sc_ineligible self" t] by (simp add: queues_ok_def)
  have "sched_ok (self\<lparr>sc_eligible := tree_insert (deadline_of st) t (sc_eligible self), sc_ineligible := sc_ineligible self\<rparr>, st)"
  proof (rule core_retree [OF c q1 _ _ i])
    show "set (tree_insert (deadline_of st) t (sc_eligible self)) \<union> set (sc_ineligible self) =
        {u \<in> set (sc_tasks self). u \<notin> {} \<and> ready_in st u \<and> Some u \<noteq> sc_current self}"
      unfolding q [symmetric] by simp
  qed simp
  then show "sched_ok (self\<lparr>sc_eligible := tree_insert (deadline_of st) t (sc_eligible self)\<rparr>, st)" by simp
  have "sched_ok (self\<lparr>sc_eligible := sc_eligible self, sc_ineligible := tree_insert (eligible_of st) t (sc_ineligible self)\<rparr>, st)"
  proof (rule core_retree [OF c q2 _ _ i])
    show "set (sc_eligible self) \<union> set (tree_insert (eligible_of st) t (sc_ineligible self)) =
        {u \<in> set (sc_tasks self). u \<notin> {} \<and> ready_in st u \<and> Some u \<noteq> sc_current self}"
      unfolding q [symmetric] by simp
  qed simp
  then show "sched_ok (self\<lparr>sc_ineligible := tree_insert (eligible_of st) t (sc_ineligible self)\<rparr>, st)" by simp
qed

end
