(* ===== verification/Sched_Ops.thy ===== *)
theory Sched_Ops
  imports Sched_Moves
begin

text \<open>
  The operations of the scheduler keep its invariant, and change the state and the metadata of the
  tasks of its own table only.
\<close>

subsection \<open>Store updates\<close>

lemmas store_defs = set_meta_def set_state_def mark_ready_def take_ready_reason_def set_wake_queued_def
  try_mark_wake_queued_def clear_wake_queued_def set_migration_ready_def record_stop_def stop_exec_def

definition keeps :: "sched_state \<Rightarrow> sched_state \<Rightarrow> bool" where
  "keeps s s' \<longleftrightarrow> sc_cpu (fst s') = sc_cpu (fst s) \<and> sc_tasks (fst s') = sc_tasks (fst s)
     \<and> (\<forall>u. u \<notin> set (sc_tasks (fst s)) \<longrightarrow> same_task (snd s' u) (snd s u))
     \<and> (\<forall>u. weight (t_meta (snd s' u)) = weight (t_meta (snd s u)))"

lemma same_task_trans: "same_task a b \<Longrightarrow> same_task b c \<Longrightarrow> same_task a c"
  by (simp add: same_task_def)

lemma keeps_refl [simp]: "keeps s s"
  by (simp add: keeps_def)

lemma keeps_trans: "keeps a b \<Longrightarrow> keeps b c \<Longrightarrow> keeps a c"
  unfolding keeps_def by (auto intro: same_task_trans)

lemma keeps_one:
  assumes "t \<in> set (sc_tasks self)" and "\<And>u. u \<noteq> t \<Longrightarrow> same_task (st' u) (st u)"
    and "sc_tasks self' = sc_tasks self" and "sc_cpu self' = sc_cpu self"
    and "weight (t_meta (st' t)) = weight (t_meta (st t))"
  shows "keeps (self, st) (self', st')"
proof -
  have "weight (t_meta (st' u)) = weight (t_meta (st u))" for u
    using assms(2) [of u] assms(5) by (cases "u = t") (simp_all add: same_task_def)
  then show ?thesis unfolding keeps_def using assms(1-4) by (metis fst_conv snd_conv)
qed

subsection \<open>Weights and virtual time\<close>

lemma adjust_vtime_form:
  assumes "sc_vtime self \<le> u128_max"
  obtains v where "adjust_vtime_for_departure self st t = self\<lparr>sc_vtime := v\<rparr>" and "v \<le> u128_max"
proof -
  let ?r = "adjust_vtime_for_departure self st t"
  have "?r = self\<lparr>sc_vtime := sc_vtime ?r\<rparr>"
    by (simp add: adjust_vtime_for_departure_def Let_def)
  moreover have "sc_vtime ?r \<le> u128_max"
    using assms by (simp add: adjust_vtime_for_departure_def Let_def sat_add128_def diff_le_self [THEN le_trans])
  ultimately show ?thesis using that by blast
qed

lemma core_transition:
  assumes c: "sched_core {t} (self, st)" and t: "t \<in> set (sc_tasks self)"
  shows "sched_core {t} (transition_task_state t new (self, st))"
proof -
  note d = sched_coreD [OF c]
  let ?T = "set (sc_tasks self)"
  let ?st = "set_state t new st"
  have o: "same_task (?st u) (st u)" if "u \<noteq> t" for u using that by (simp add: store_defs)
  have m: "meta_ok (sc_cpu self) (?st t)" using d(5) [OF t] by (simp add: store_defs meta_ok_def)
  have w: "weight_of ?st t = weight_of st t" by (simp add: store_defs)
  have held: "sched_core {t} (self\<lparr>sc_vtime := v, sc_total_weight := ready_weight ?st ?T\<rparr>, ?st)" if "v \<le> u128_max" for v
    using core_held [OF c t o m w that refl] by simp
  have others: "ready_weight ?st (?T - {t}) = ready_weight st (?T - {t})"
    by (rule ready_weight_others) (simp add: store_defs)
  have was: "sc_total_weight self = ready_weight st (?T - {t}) + (if ready_in st t then weight_of st t else 0)"
    using d(7) ready_weight_split [OF _ t, of st] by simp
  have new: "ready_weight ?st ?T = ready_weight st (?T - {t}) + (if is_ready (ts_sched new) then weight_of st t else 0)"
    using ready_weight_split [OF _ t, of ?st] others w by (simp add: store_defs)
  have le: "ready_weight ?st ?T \<le> u64_max"
  proof -
    have "sum (weight_of ?st) ?T = sum (weight_of st) ?T" by (intro sum.cong) (auto simp: store_defs)
    then show ?thesis using ready_weight_le [of ?T ?st] d(8) by simp
  qed
  consider "\<not> ready_in st t" "is_ready (ts_sched new)" | "ready_in st t" "\<not> is_ready (ts_sched new)"
    | "ready_in st t \<longleftrightarrow> is_ready (ts_sched new)" by blast
  then show ?thesis
  proof cases
    case 1
    have "min (sc_total_weight self + weight_of st t) u64_max = ready_weight ?st ?T"
      using was new le 1 by simp
    with held [OF d(9)] show ?thesis
      using 1 by (simp add: transition_task_state_def add_runnable_weight_def)
  next
    case 2
    obtain v where v: "adjust_vtime_for_departure self st t = self\<lparr>sc_vtime := v\<rparr>" "v \<le> u128_max"
      using adjust_vtime_form [OF d(9)] .
    have "sc_total_weight self - weight_of st t = ready_weight ?st ?T"
      using was new 2 by simp
    with held [OF v(2)] show ?thesis
      using 2 v(1) by (simp add: transition_task_state_def sub_runnable_weight_def)
  next
    case 3
    have "ready_weight ?st ?T = sc_total_weight self" using was new 3 by simp
    then have "sched_core {t} (self, ?st)" using held [OF d(9)] by simp
    then show ?thesis using 3 by (auto simp: transition_task_state_def)
  qed
qed

lemma transition_frame:
  "sc_tasks (fst (transition_task_state t new (self, st))) = sc_tasks self"
  "sc_cpu (fst (transition_task_state t new (self, st))) = sc_cpu self"
  "sc_current (fst (transition_task_state t new (self, st))) = sc_current self"
  "sc_eligible (fst (transition_task_state t new (self, st))) = sc_eligible self"
  "sc_ineligible (fst (transition_task_state t new (self, st))) = sc_ineligible self"
  "sc_wake_inbox (fst (transition_task_state t new (self, st))) = sc_wake_inbox self"
  "snd (transition_task_state t new (self, st)) = set_state t new st"
  by (simp_all add: transition_task_state_def add_runnable_weight_def sub_runnable_weight_def
    adjust_vtime_for_departure_def Let_def)

lemma meta_ok_refresh:
  assumes "vruntime m \<le> u128_max" and "meta_cpu m = cpu" and "sc_vtime self \<le> u128_max"
  shows "meta_ok cpu (refresh_deadlines self t m st t)"
  using assms deadline_after_eligible [of "eevdf_eligible (sc_vtime self) (vruntime m)" "meta_params m"]
  by (simp add: meta_ok_def refresh_deadlines_def set_meta_def Let_def eevdf_eligible_def)

lemma refresh_frame:
  "u \<noteq> t \<Longrightarrow> refresh_deadlines self t m st u = st u"
  "t_state (refresh_deadlines self t m st t) = t_state (st t)"
  "exec_start (t_meta (refresh_deadlines self t m st t)) = exec_start m"
  "weight (t_meta (refresh_deadlines self t m st t)) = weight m"
  "t_runnable (refresh_deadlines self t m st u) = t_runnable (st u)"
  "t_wake_queued (refresh_deadlines self t m st u) = t_wake_queued (st u)"
  by (simp_all add: refresh_deadlines_def set_meta_def Let_def)

lemma insert_runnable_ok:
  assumes c: "sched_core {t} (self, st)" and t: "t \<in> set (sc_tasks self)"
    and e: "exec_start (t_meta (st t)) = None" and f: "ts_terminal (t_state (st t)) = None"
  shows "sched_ok (insert_runnable_pointer t r (self, st))"
proof -
  note d = sched_coreD [OF c]
  let ?st1 = "refresh_deadlines self t ((t_meta (st t))\<lparr>meta_cpu := sc_cpu self\<rparr>) st"
  let ?new = "(t_state (?st1 t))\<lparr>ts_sched := scheduler_state_for_ready r\<rparr>"
  have m: "meta_ok (sc_cpu self) (?st1 t)"
    using d(5) [OF t] d(9) by (intro meta_ok_refresh) (auto simp: meta_ok_def)
  have "sched_core {t} (self, ?st1)"
    by (rule core_held_same [OF c t]) (use m in \<open>simp_all add: refresh_frame\<close>)
  then have c2: "sched_core {t} (transition_task_state t ?new (self, ?st1))" using t by (rule core_transition)
  obtain self2 where s2: "transition_task_state t ?new (self, ?st1) = (self2, set_state t ?new ?st1)"
    using transition_frame(7) [of t ?new self ?st1] by (metis prod.collapse)
  have t2: "t \<in> set (sc_tasks self2)" using transition_frame(1) [of t ?new self ?st1] s2 t by simp
  let ?st = "mark_ready t Async (set_state t ?new ?st1)"
  have c3: "sched_core {t} (self2, ?st)"
    using c2 unfolding s2 by (rule sched_core_cong) (simp add: store_defs same_task_def)
  have k: "ready_in ?st t" "exec_start (t_meta (?st t)) = None" "ts_terminal (t_state (?st t)) = None"
    using e f by (simp_all add: store_defs refresh_frame scheduler_state_for_ready_def split: task_ready_state.split)
  note q = release_queued [OF c3 t2 k]
  show ?thesis
    using q t by (simp add: insert_runnable_pointer_def s2 Let_def)
qed

lemma insert_runnable_frame:
  assumes "insert_runnable_pointer t r s = s'"
  shows "sc_tasks (fst s') = sc_tasks (fst s)" "sc_cpu (fst s') = sc_cpu (fst s)"
    "sc_current (fst s') = sc_current (fst s)" "sc_wake_inbox (fst s') = sc_wake_inbox (fst s)"
    "\<And>u. u \<noteq> t \<Longrightarrow> snd s' u = snd s u" "keeps s s'"
    "\<And>u. t_wake_queued (snd s' u) = t_wake_queued (snd s u)"
    "t \<in> set (sc_tasks (fst s)) \<Longrightarrow> ready_in (snd s') t"
  using assms
  by (auto simp: insert_runnable_pointer_def Let_def transition_frame store_defs refresh_frame keeps_def
    same_task_def scheduler_state_for_ready_def split: task_ready_state.splits if_splits)

subsection \<open>Promotion\<close>

lemma core_vtime:
  assumes "sched_core X (self, st)" and "v \<le> u128_max"
  shows "sched_core X (self\<lparr>sc_vtime := v\<rparr>, st)"
  using sched_coreD [OF assms(1)] assms(2) by (intro sched_coreI) (auto simp: queues_ok_def idle_ok_def)

lemma promote_loop_spec:
  assumes "sched_core X (self, st)" and "sc_ineligible self = xs"
  shows "sched_core X (promote_loop st xs self, st)
    \<and> promote_loop st xs self = self\<lparr>
        sc_eligible := foldl (\<lambda>ys t. tree_insert (deadline_of st) t ys) (sc_eligible self)
          (takeWhile (\<lambda>t. eligible_of st t \<le> sc_vtime self) xs),
        sc_ineligible := dropWhile (\<lambda>t. eligible_of st t \<le> sc_vtime self) xs\<rparr>"
  using assms
proof (induction xs arbitrary: self)
  case (Cons t rest)
  show ?case
  proof (cases "eligible_of st t > sc_vtime self")
    case True
    then show ?thesis using Cons.prems by (cases self) auto
  next
    case False
    note d = sched_coreD [OF Cons.prems(1)]
    let ?self = "self\<lparr>sc_ineligible := rest, sc_eligible := tree_insert (deadline_of st) t (sc_eligible self)\<rparr>"
    have q: "queues_ok ?self st"
      using d(2) Cons.prems(2) sorted_tree_insert [of "deadline_of st" "sc_eligible self" t] by (auto simp: queues_ok_def)
    have s: "set (tree_insert (deadline_of st) t (sc_eligible self)) \<union> set rest
        = {u \<in> set (sc_tasks self). u \<notin> X \<and> ready_in st u \<and> Some u \<noteq> sc_current self}"
      unfolding d(3) [symmetric] using Cons.prems(2) by auto
    have "sched_core X (self\<lparr>sc_eligible := tree_insert (deadline_of st) t (sc_eligible self), sc_ineligible := rest\<rparr>, st)"
      by (rule core_retree [OF Cons.prems(1) _ s]) (use q d(4,6) in \<open>auto simp: queues_ok_def\<close>)
    moreover have "self\<lparr>sc_eligible := tree_insert (deadline_of st) t (sc_eligible self), sc_ineligible := rest\<rparr> = ?self"
      by (cases self) simp
    ultimately have cs: "sched_core X (?self, st)" by simp
    have "sc_ineligible ?self = rest" by simp
    note both = Cons.IH [OF cs this]
    note ih = conjunct1 [OF both] conjunct2 [OF both]
    have step: "promote_loop st (t # rest) self = promote_loop st rest ?self" using False by simp
    have "promote_loop st rest ?self = self\<lparr>
        sc_eligible := foldl (\<lambda>ys t. tree_insert (deadline_of st) t ys) (sc_eligible self)
          (takeWhile (\<lambda>t. eligible_of st t \<le> sc_vtime self) (t # rest)),
        sc_ineligible := dropWhile (\<lambda>t. eligible_of st t \<le> sc_vtime self) (t # rest)\<rparr>"
      unfolding ih(2) using False by (cases self) simp
    with ih(1) show ?thesis unfolding step by blast
  qed
next
  case Nil
  then show ?case by (cases self) simp
qed

lemma set_foldl_tree_insert: "set (foldl (\<lambda>ys t. tree_insert k t ys) ys xs) = set xs \<union> set ys"
  by (induction xs arbitrary: ys) auto

lemma promote_eligible_ok:
  assumes "sched_core X (self, st)"
  shows "sched_core X (promote_eligible (self, st), st)"
    and "promote_eligible (self, st) = self\<lparr>sc_eligible := sc_eligible (promote_eligible (self, st)),
      sc_ineligible := sc_ineligible (promote_eligible (self, st))\<rparr>"
    and "queued (promote_eligible (self, st)) = queued self"
    and "set (sc_eligible (promote_eligible (self, st)))
      = set (sc_eligible self) \<union> {t \<in> set (sc_ineligible self). eligible_of st t \<le> sc_vtime self}"
proof -
  let ?xs = "sc_ineligible self"
  let ?P = "\<lambda>t. eligible_of st t \<le> sc_vtime self"
  note p = promote_loop_spec [OF assms refl, folded promote_eligible_def]
  have pe: "promote_eligible (self, st) = promote_loop st ?xs self" by (simp add: promote_eligible_def)
  have srt: "sorted_wrt (key_less (eligible_of st)) ?xs" using sched_coreD(2) [OF assms] by (simp add: queues_ok_def)
  have tw: "set (takeWhile ?P xs) = {t \<in> set xs. ?P t}" if "sorted_wrt (key_less (eligible_of st)) xs" for xs
    using that by (induction xs) (auto simp: key_less_def)
  show "sched_core X (promote_eligible (self, st), st)" unfolding pe using p by blast
  show "promote_eligible (self, st) = self\<lparr>sc_eligible := sc_eligible (promote_eligible (self, st)),
      sc_ineligible := sc_ineligible (promote_eligible (self, st))\<rparr>"
    unfolding pe by (subst conjunct2 [OF p], simp add: p)+
  have e: "set (sc_eligible (promote_loop st ?xs self)) = set (takeWhile ?P ?xs) \<union> set (sc_eligible self)"
    using p by (simp add: set_foldl_tree_insert)
  have i: "sc_ineligible (promote_loop st ?xs self) = dropWhile ?P ?xs" using p by simp
  have td: "set (takeWhile ?P ?xs) \<union> set (dropWhile ?P ?xs) = set ?xs"
    by (metis set_append takeWhile_dropWhile_id)
  show "queued (promote_eligible (self, st)) = queued self" unfolding pe e i using td by blast
  show "set (sc_eligible (promote_eligible (self, st))) = set (sc_eligible self) \<union> {t \<in> set ?xs. ?P t}"
    unfolding pe e tw [OF srt] by blast
qed

subsection \<open>Picking the next task\<close>

definition next_queue :: "sched_state \<Rightarrow> scheduler" where
  "next_queue s =
     (let self1 = promote_eligible s
      in if sc_eligible self1 = [] then jump_to_eligible (self1, snd s) else self1)"

lemma promote_fields:
  assumes "sched_core X (self, st)"
  shows "sc_tasks (promote_eligible (self, st)) = sc_tasks self" "sc_cpu (promote_eligible (self, st)) = sc_cpu self"
    "sc_current (promote_eligible (self, st)) = sc_current self" "sc_vtime (promote_eligible (self, st)) = sc_vtime self"
    "sc_wake_inbox (promote_eligible (self, st)) = sc_wake_inbox self"
  by (subst promote_eligible_ok(2) [OF assms], simp)+

lemma next_queue_ok:
  assumes c: "sched_core X (self, st)"
  defines "r \<equiv> next_queue (self, st)"
  shows "sched_core X (r, st)" "queued r = queued self" "sc_tasks r = sc_tasks self" "sc_cpu r = sc_cpu self"
    "sc_current r = sc_current self" "sc_wake_inbox r = sc_wake_inbox self" "sc_vtime self \<le> sc_vtime r"
    "sc_eligible r = [] \<longleftrightarrow> queued self = {}"
    "\<And>u. u \<in> queued self \<Longrightarrow> eligible_of st u \<le> sc_vtime r \<Longrightarrow> u \<in> set (sc_eligible r)"
proof -
  let ?p = "promote_eligible (self, st)"
  note p = promote_eligible_ok [OF c] and pf = promote_fields [OF c]
  have "sched_core X (r, st) \<and> queued r = queued self \<and> sc_tasks r = sc_tasks self \<and> sc_cpu r = sc_cpu self
    \<and> sc_current r = sc_current self \<and> sc_wake_inbox r = sc_wake_inbox self \<and> sc_vtime self \<le> sc_vtime r
    \<and> (sc_eligible r = [] \<longleftrightarrow> queued self = {})
    \<and> (\<forall>u. u \<in> queued self \<longrightarrow> eligible_of st u \<le> sc_vtime r \<longrightarrow> u \<in> set (sc_eligible r))"
  proof (cases "sc_eligible ?p = [] \<and> sc_ineligible ?p \<noteq> []")
    case False
    then have r: "r = ?p" unfolding r_def next_queue_def jump_to_eligible_def by (auto simp: Let_def split: list.splits)
    have "sc_eligible ?p = [] \<longleftrightarrow> queued self = {}" using False p(3) by (metis Un_empty_left Un_upper1 set_empty subset_empty)
    then show ?thesis unfolding r using p pf by auto
  next
    case True
    then obtain t rest where t: "sc_ineligible ?p = t # rest" by (cases "sc_ineligible ?p") auto
    let ?v = "if eligible_of st t > sc_vtime ?p then ?p\<lparr>sc_vtime := eligible_of st t\<rparr> else ?p"
    have r: "r = promote_eligible (?v, st)"
      unfolding r_def next_queue_def jump_to_eligible_def using True t by (simp add: Let_def)
    have tq: "t \<in> queued ?p" using t by simp
    then have "t \<in> set (sc_tasks ?p)" unfolding sched_coreD(3) [OF p(1)] by blast
    then have "eligible_of st t \<le> u128_max" using sched_coreD(5) [OF p(1)] by (auto simp: meta_ok_def)
    then have cv: "sched_core X (?v, st)" using p(1) core_vtime [OF p(1)] by simp
    note v = promote_eligible_ok [OF cv] and vf = promote_fields [OF cv]
    have "t \<in> set (sc_eligible r)" unfolding r v(4) using t by auto
    moreover have "u \<in> set (sc_eligible r)" if "u \<in> queued self" "eligible_of st u \<le> sc_vtime r" for u
      using that v(3,4) vf(4) p(3) True unfolding r by (auto split: if_splits)
    moreover have "queued r = queued self" unfolding r v(3) using p(3) by simp
    moreover have "queued self \<noteq> {}" using tq unfolding p(3) by (metis empty_iff)
    ultimately show ?thesis using v(1) vf pf unfolding r by (auto split: if_splits)
  qed
  then show "sched_core X (r, st)" "queued r = queued self" "sc_tasks r = sc_tasks self" "sc_cpu r = sc_cpu self"
    "sc_current r = sc_current self" "sc_wake_inbox r = sc_wake_inbox self" "sc_vtime self \<le> sc_vtime r"
    "sc_eligible r = [] \<longleftrightarrow> queued self = {}"
    "\<And>u. u \<in> queued self \<Longrightarrow> eligible_of st u \<le> sc_vtime r \<Longrightarrow> u \<in> set (sc_eligible r)"
    by blast+
qed

text \<open>The first task of the eligible tree leaves it and becomes the running task.\<close>

lemma start_first:
  assumes c: "sched_ok (self, st)" and n: "sc_current self = None" and q: "sc_eligible self = t # rest"
  shows "t \<in> set (sc_tasks self)"
    and "sched_ok (self\<lparr>sc_eligible := rest, sc_current := Some t\<rparr>,
      set_meta t ((t_meta (st t))\<lparr>exec_start := Some now, exec_runtime := d0\<rparr>) st)"
proof -
  note d = sched_coreD [OF c]
  let ?self = "self\<lparr>sc_eligible := rest, sc_current := Some t\<rparr>"
  let ?st = "set_meta t ((t_meta (st t))\<lparr>exec_start := Some now, exec_runtime := d0\<rparr>) st"
  have "t \<in> queued self" using q by simp
  then have t: "t \<in> set (sc_tasks self)" "ready_in st t" unfolding d(3) by auto
  show "t \<in> set (sc_tasks self)" by (fact t(1))
  have k: "deadline_of ?st = deadline_of st" "eligible_of ?st = eligible_of st" "weight_of ?st = weight_of st"
    "ready_in ?st = ready_in st" by (auto simp: store_defs)
  have nq: "t \<notin> set rest" "t \<notin> set (sc_ineligible self)" using d(2) q by (auto simp: queues_ok_def)
  have qs: "queued ?self = queued self - {t}" using q nq by auto
  show "sched_ok (?self, ?st)"
  proof (rule sched_coreI)
    show "queues_ok ?self ?st" unfolding queues_ok_def k using d(2) q by (simp add: queues_ok_def)
    show "queued ?self = {u \<in> set (sc_tasks ?self). u \<notin> {} \<and> ready_in ?st u \<and> Some u \<noteq> sc_current ?self}"
      unfolding qs d(3) using n by (auto simp: store_defs)
    show "meta_ok (sc_cpu ?self) (?st u)" if "u \<in> set (sc_tasks ?self)" for u
      using d(5) [of u] that by (auto simp: meta_ok_def store_defs)
    show "idle_ok ?self ?st u" if "u \<in> set (sc_tasks ?self) - {}" for u
      using d(6) [of u] that n by (auto simp: idle_ok_def store_defs)
    show "sc_total_weight ?self = ready_weight ?st (set (sc_tasks ?self))"
      using d(7) ready_weight_cong [of "set (sc_tasks self)" ?st st] by (simp add: store_defs)
    show "sum (weight_of ?st) (set (sc_tasks ?self)) \<le> u64_max" unfolding k using d(8) by simp
  qed (use d t in \<open>auto simp: store_defs\<close>)
qed

lemma take_next_cases:
  assumes c: "sched_ok (self, st)" and n: "sc_current self = None"
  obtains (empty) r where "queued self = {}" "take_next False now (self, st) = Returned (None, r, st)"
      "sched_ok (r, st)" "keeps (self, st) (r, st)" "sc_current r = None" "queued r = {}"
  | (picked) t r rest where "r = next_queue (self, st)" "sc_eligible r = t # rest" "t \<in> queued self"
      "take_next False now (self, st) = Returned (Some t, r\<lparr>sc_eligible := rest, sc_current := Some t\<rparr>,
         set_meta t ((t_meta (st t))\<lparr>exec_start := Some now, exec_runtime := from_secs 0\<rparr>) st)"
      "sched_ok (r\<lparr>sc_eligible := rest, sc_current := Some t\<rparr>,
         set_meta t ((t_meta (st t))\<lparr>exec_start := Some now, exec_runtime := from_secs 0\<rparr>) st)"
      "sched_ok (r, st)" "sc_tasks r = sc_tasks self" "sc_cpu r = sc_cpu self" "t \<in> set (sc_tasks self)"
proof -
  let ?r = "next_queue (self, st)"
  note r = next_queue_ok [OF c]
  have p: "pick_next (self, st) = (case sc_eligible ?r of
           [] \<Rightarrow> (None, ?r, st)
         | t # rest \<Rightarrow>
             let self3 = ?r\<lparr>sc_eligible := rest\<rparr>
             in if t \<in> set (sc_tasks self3) then (Some t, self3\<lparr>sc_current := Some t\<rparr>, st) else (None, self3, st))"
    by (simp only: pick_next_def next_queue_def Let_def fst_conv snd_conv)
  show ?thesis
  proof (cases "sc_eligible ?r")
    case Nil
    have k: "keeps (self, st) (?r, st)" using r(3,4) by (simp add: keeps_def)
    have e: "queued self = {}" using Nil r(8) by simp
    show ?thesis
      by (rule empty [of ?r]) (use Nil p e r k n in \<open>simp_all add: take_next_def\<close>)
  next
    case (Cons t rest)
    have n2: "sc_current ?r = None" using r(5) n by simp
    note s = start_first [OF r(1) n2 Cons]
    have "t \<in> queued ?r" using Cons by simp
    then have q: "t \<in> queued self" unfolding r(2) .
    have tn: "take_next False now (self, st) = Returned (Some t, ?r\<lparr>sc_eligible := rest, sc_current := Some t\<rparr>,
         set_meta t ((t_meta (st t))\<lparr>exec_start := Some now, exec_runtime := from_secs 0\<rparr>) st)"
      using p Cons s(1) by (simp add: take_next_def debug_checked_def assert_that_def)
    show ?thesis
      using picked [OF refl Cons q tn s(2) r(1) r(3) r(4)] s(1) r(3) by simp
  qed
qed

end
