(* ===== verification/Sched_Keep.thy ===== *)
theory Sched_Keep
  imports Sched_Ops
begin

text \<open>
  Every operation of the scheduler keeps its invariant. \<open>ok_after\<close> joins it with the frame: the
  operation changes the state and the metadata of tasks of its own table only.
\<close>

definition ok_after :: "sched_state \<Rightarrow> sched_state \<Rightarrow> bool" where
  "ok_after s s' \<longleftrightarrow> sched_ok s' \<and> keeps s s'"

lemma ok_after_trans: "ok_after a b \<Longrightarrow> ok_after b c \<Longrightarrow> ok_after a c"
  unfolding ok_after_def using keeps_trans by blast

lemma ok_after_refl: "sched_ok s \<Longrightarrow> ok_after s s"
  by (simp add: ok_after_def)

text \<open>Changes that leave every state and metadata as they are.\<close>

lemma ok_after_flags:
  assumes "sched_ok (self, st)" and "\<And>u. same_task (st' u) (st u)"
  shows "ok_after (self, st) (self, st')"
  using sched_core_cong [OF assms(1), of st'] assms(2) by (simp add: ok_after_def keeps_def same_task_def)

lemma ok_after_inbox:
  assumes "sched_ok (self, st)"
  shows "ok_after (self, st) (self\<lparr>sc_wake_inbox := xs\<rparr>, st)"
proof -
  have "sched_ok (self\<lparr>sc_wake_inbox := xs\<rparr>, st)"
    using sched_coreD [OF assms] by (intro sched_coreI) (auto simp: queues_ok_def idle_ok_def)
  then show ?thesis by (simp add: ok_after_def keeps_def)
qed

subsection \<open>The current task leaves the CPU\<close>

lemma current_task_eq:
  assumes "sched_ok (self, st)"
  shows "current_task self = sc_current self"
  using sched_coreD(4) [OF assms] by (auto simp: current_task_def split: option.split)

lemma take_current_held:
  assumes c: "sched_ok (self, st)" and t: "sc_current self = Some t"
  shows "take_current (self, st) = (Some t, self\<lparr>sc_current := None\<rparr>, st)"
    and "sched_core {t} (self\<lparr>sc_current := None\<rparr>, stop_exec t st)"
    and "t \<in> set (sc_tasks self)" and "ts_terminal (t_state (st t)) = None" and "ready_in st t"
proof -
  note d = sched_coreD [OF c]
  show m: "t \<in> set (sc_tasks self)" "ready_in st t" using d(4) [OF t] by auto
  show "ts_terminal (t_state (st t)) = None" using d(6) [of t] m by (simp add: idle_ok_def)
  show "take_current (self, st) = (Some t, self\<lparr>sc_current := None\<rparr>, st)"
    using t m by (simp add: take_current_def)
  show "sched_core {t} (self\<lparr>sc_current := None\<rparr>, stop_exec t st)"
    by (rule core_held_same [OF hold_current [OF c t]])
      (use m d(5) [OF m(1)] in \<open>auto simp: store_defs meta_ok_def\<close>)
qed

lemma keeps_transition:
  assumes "t \<in> set (sc_tasks self)"
  shows "keeps (self, st) (transition_task_state t new (self, st))"
  using assms by (auto simp: keeps_def transition_frame store_defs)

lemma keeps_stop:
  assumes "t \<in> set (sc_tasks self)"
  shows "keeps (self, st) (self\<lparr>sc_current := None\<rparr>, stop_exec t st)"
  using assms by (auto simp: keeps_def store_defs)

lemma requeue_current_ok:
  assumes c: "sched_ok s"
  shows "ok_after s (snd (requeue_current_with r s))" "sc_current (fst (snd (requeue_current_with r s))) = None"
    "fst (requeue_current_with r s) = sc_current (fst s)"
proof -
  obtain self st where s: "s = (self, st)" by fastforce
  have "ok_after s (snd (requeue_current_with r s)) \<and> sc_current (fst (snd (requeue_current_with r s))) = None
    \<and> fst (requeue_current_with r s) = sc_current (fst s)"
  proof (cases "sc_current self")
    case None
    then show ?thesis using c unfolding s by (simp add: requeue_current_with_def take_current_def ok_after_refl)
  next
    case (Some t)
    note k = take_current_held [OF c [unfolded s] Some]
    let ?self = "self\<lparr>sc_current := None\<rparr>"
    let ?new = "(t_state (st t))\<lparr>ts_sched := scheduler_state_for_ready r\<rparr>"
    let ?s2 = "transition_task_state t ?new (?self, stop_exec t st)"
    have t1: "t \<in> set (sc_tasks ?self)" using k(3) by simp
    have c2: "sched_core {t} ?s2" using k(2) t1 by (rule core_transition)
    have s2: "?s2 = (fst ?s2, set_state t ?new (stop_exec t st))"
      using transition_frame(7) [of t ?new ?self "stop_exec t st"] by (metis prod.collapse)
    have t2: "t \<in> set (sc_tasks (fst ?s2))" using k(3) by (simp add: transition_frame)
    have ok: "sched_ok (insert_runnable_pointer t r ?s2)"
      using c2 by (subst s2, subst (asm) s2, intro insert_runnable_ok)
        (use t2 k(4) in \<open>auto simp: store_defs\<close>)
    note f = insert_runnable_frame [where t = t and r = r and s = ?s2, OF refl]
    have "keeps (self, st) (insert_runnable_pointer t r ?s2)"
      using keeps_trans [OF keeps_trans [OF keeps_stop [OF k(3)] keeps_transition [OF t1]] f(6)] .
    then show ?thesis
      unfolding s using ok f(3) k(1,4) Some
      by (simp add: requeue_current_with_def ok_after_def transition_frame Let_def)
  qed
  then show "ok_after s (snd (requeue_current_with r s))" "sc_current (fst (snd (requeue_current_with r s))) = None"
    "fst (requeue_current_with r s) = sc_current (fst s)" by blast+
qed

lemma block_current_ok:
  assumes c: "sched_ok s"
  shows "ok_after s (snd (block_current s))" "sc_current (fst (snd (block_current s))) = None"
proof -
  obtain self st where s: "s = (self, st)" by fastforce
  have "ok_after s (snd (block_current s)) \<and> sc_current (fst (snd (block_current s))) = None"
  proof (cases "sc_current self")
    case None
    then show ?thesis using c unfolding s by (simp add: block_current_def take_current_def ok_after_refl)
  next
    case (Some t)
    note k = take_current_held [OF c [unfolded s] Some]
    let ?self = "self\<lparr>sc_current := None\<rparr>"
    let ?new = "(t_state (st t))\<lparr>ts_sched := Blocked\<rparr>"
    let ?s2 = "transition_task_state t ?new (?self, stop_exec t st)"
    have t1: "t \<in> set (sc_tasks ?self)" using k(3) by simp
    have c2: "sched_core {t} ?s2" using k(2) t1 by (rule core_transition)
    have s2: "?s2 = (fst ?s2, set_state t ?new (stop_exec t st))"
      using transition_frame(7) [of t ?new ?self "stop_exec t st"] by (metis prod.collapse)
    have ok: "sched_ok ?s2"
      using c2 by (subst s2, subst (asm) s2, intro release_idle) (use k(4) in \<open>auto simp: store_defs\<close>)
    have "keeps (self, st) ?s2" using keeps_trans [OF keeps_stop [OF k(3)] keeps_transition [OF t1]] .
    then show ?thesis
      unfolding s using ok k(1) by (simp add: block_current_def ok_after_def transition_frame)
  qed
  then show "ok_after s (snd (block_current s))" "sc_current (fst (snd (block_current s))) = None" by blast+
qed

subsection \<open>Leaving the table\<close>

lemma drop_held:
  assumes c: "sched_core {t} (self, st)" and t: "t \<in> set (sc_tasks self)"
  shows "sched_ok (self\<lparr>sc_tasks := remove1 t (sc_tasks self), sc_total_weight := sc_total_weight self - (if ready_in st t then weight_of st t else 0)\<rparr>, st)"
proof -
  note d = sched_coreD [OF c]
  have r: "set (remove1 t (sc_tasks self)) = set (sc_tasks self) - {t}" using d(1) by simp
  have w: "sc_total_weight self - (if ready_in st t then weight_of st t else 0) = ready_weight st (set (sc_tasks self) - {t})"
    using d(7) ready_weight_split [OF _ t, of st] by simp
  have s: "sum (weight_of st) (set (sc_tasks self) - {t}) \<le> u64_max"
    using d(8) sum_mono2 [of "set (sc_tasks self)" "set (sc_tasks self) - {t}" "weight_of st"] by fastforce
  show ?thesis
  proof (rule sched_coreI, goal_cases)
    case 3
    show ?case using r by (simp add: d(3))
  next
    case (4 u)
    then show ?case using d(4) [of u] r by auto
  next
    case 7
    show ?case unfolding w using r by simp
  next
    case 8
    show ?case using r s by simp
  qed (use d r in \<open>auto simp: queues_ok_def idle_ok_def\<close>)
qed

definition leaves :: "task_id \<Rightarrow> sched_state \<Rightarrow> sched_state \<Rightarrow> bool" where
  "leaves t s s' \<longleftrightarrow> sched_ok s' \<and> t \<in> set (sc_tasks (fst s)) \<and> sc_cpu (fst s') = sc_cpu (fst s)
     \<and> sc_tasks (fst s') = remove1 t (sc_tasks (fst s))
     \<and> (\<forall>u. u \<notin> set (sc_tasks (fst s)) \<longrightarrow> same_task (snd s' u) (snd s u))
     \<and> (\<forall>u. weight (t_meta (snd s' u)) = weight (t_meta (snd s u)))"

lemma remove_held:
  assumes c: "sched_core {t} (self, st)" and t: "t \<in> set (sc_tasks self)"
  shows "leaves t (self, st) (snd (remove_task t (self, st)))" and "fst (remove_task t (self, st)) = Some t"
    and "sc_current (fst (snd (remove_task t (self, st)))) = sc_current self"
proof -
  let ?w = "if ready_in st t then weight_of st t else 0"
  let ?self = "self\<lparr>sc_tasks := remove1 t (sc_tasks self), sc_total_weight := sc_total_weight self - ?w\<rparr>"
  let ?st = "set_wake_queued t False st"
  let ?in = "if t_wake_queued (st t) then remove1 t (sc_wake_inbox self) else sc_wake_inbox self"
  have e: "remove_task t (self, st) = (Some t, ?self\<lparr>sc_wake_inbox := ?in\<rparr>, ?st)"
    using t by (cases self) (simp add: remove_task_def clear_wake_queued_def sub_runnable_weight_def set_wake_queued_def)
  have k: "ok_after (?self, st) (?self, ?st)"
    by (rule ok_after_flags [OF drop_held [OF c t]]) (simp add: store_defs same_task_def)
  then have "ok_after (?self, st) (?self\<lparr>sc_wake_inbox := ?in\<rparr>, ?st)"
    using ok_after_trans [OF k ok_after_inbox] unfolding ok_after_def by blast
  then have "sched_ok (?self\<lparr>sc_wake_inbox := ?in\<rparr>, ?st)" unfolding ok_after_def by blast
  then show "leaves t (self, st) (snd (remove_task t (self, st)))"
    unfolding e leaves_def using t by (simp add: store_defs same_task_def)
  show "fst (remove_task t (self, st)) = Some t" "sc_current (fst (snd (remove_task t (self, st)))) = sc_current self"
    unfolding e by simp_all
qed

lemma remove_inactive:
  assumes "sched_ok (self, st)" and "t \<in> set (sc_tasks self)" and "\<not> ready_in st t"
  shows "leaves t (self, st) (snd (remove_task t (self, st)))"
  using remove_held(1) [OF hold_idle [OF assms(1,3)] assms(2)] .

lemma exit_remove_ok:
  assumes c: "sched_ok (self, st)" and t: "sc_current self = Some t"
  shows "leaves t (self, st) (snd (remove_task t (snd (exit_current_with ex (self, st)))))"
    and "fst (remove_task t (snd (exit_current_with ex (self, st)))) = Some t"
    and "sc_current (fst (snd (remove_task t (snd (exit_current_with ex (self, st)))))) = None"
proof -
  note k = take_current_held [OF c t]
  let ?self = "self\<lparr>sc_current := None\<rparr>"
  let ?new = "(t_state (st t))\<lparr>ts_sched := Blocked, ts_terminal := Some ex\<rparr>"
  let ?s2 = "transition_task_state t ?new (?self, stop_exec t st)"
  have e: "snd (exit_current_with ex (self, st)) = ?s2"
    using k(1) by (simp add: exit_current_with_def)
  have t1: "t \<in> set (sc_tasks ?self)" using k(3) by simp
  have c2: "sched_core {t} ?s2" using k(2) t1 by (rule core_transition)
  obtain self2 st2 where s2: "?s2 = (self2, st2)" by fastforce
  have t2: "t \<in> set (sc_tasks self2)" and n: "sc_current self2 = None"
    using transition_frame(1,3) [of t ?new ?self "stop_exec t st"] k(3) unfolding s2 by simp_all
  note r = remove_held [OF c2 [unfolded s2] t2]
  have "keeps (self, st) ?s2" using keeps_trans [OF keeps_stop [OF k(3)] keeps_transition [OF t1]] .
  note kp = this [unfolded s2]
  show "leaves t (self, st) (snd (remove_task t (snd (exit_current_with ex (self, st)))))"
    using r(1) kp k(3) unfolding e s2 leaves_def keeps_def by (auto intro: same_task_trans)
  show "fst (remove_task t (snd (exit_current_with ex (self, st)))) = Some t"
    "sc_current (fst (snd (remove_task t (snd (exit_current_with ex (self, st)))))) = None"
    using r(2,3) n unfolding e s2 by simp_all
qed

subsection \<open>Entering the table\<close>

definition admissible :: "scheduler \<Rightarrow> task_store \<Rightarrow> task_id \<Rightarrow> bool" where
  "admissible self st t \<longleftrightarrow> t \<notin> set (sc_tasks self) \<and> exec_start (t_meta (st t)) = None
     \<and> ts_terminal (t_state (st t)) = None \<and> vruntime (t_meta (st t)) \<le> u128_max
     \<and> sum (weight_of st) (set (sc_tasks self)) + weight_of st t \<le> u64_max"

definition enters :: "task_id \<Rightarrow> sched_state \<Rightarrow> sched_state \<Rightarrow> bool" where
  "enters t s s' \<longleftrightarrow> sched_ok s' \<and> sc_cpu (fst s') = sc_cpu (fst s) \<and> sc_tasks (fst s') = t # sc_tasks (fst s)
     \<and> (\<forall>u. u \<notin> set (sc_tasks (fst s)) \<longrightarrow> u \<noteq> t \<longrightarrow> same_task (snd s' u) (snd s u))
     \<and> (\<forall>u. weight (t_meta (snd s' u)) = weight (t_meta (snd s u)))"

lemma add_held:
  assumes c: "sched_ok (self, st)" and t: "t \<notin> set (sc_tasks self)" and m: "meta_ok (sc_cpu self) (st t)"
    and w: "sum (weight_of st) (set (sc_tasks self)) + weight_of st t \<le> u64_max"
  shows "sched_core {t} (self\<lparr>sc_tasks := t # sc_tasks self,
    sc_total_weight := sc_total_weight self + (if ready_in st t then weight_of st t else 0)\<rparr>, st)"
proof -
  note d = sched_coreD [OF c]
  have s: "ready_weight st (insert t (set (sc_tasks self)))
      = ready_weight st (set (sc_tasks self)) + (if ready_in st t then weight_of st t else 0)"
    using ready_weight_split [of "insert t (set (sc_tasks self))" t st] t by simp
  show ?thesis
  proof (rule sched_coreI, goal_cases)
    case 3
    show ?case using t by (simp add: d(3)) blast
  next
    case (4 u)
    then show ?case using d(4) [of u] t by auto
  next
    case 7
    show ?case using s d(7) by simp
  next
    case 8
    show ?case using w t by (simp add: add.commute)
  qed (use d t m in \<open>auto simp: queues_ok_def idle_ok_def\<close>)
qed

lemma admit_task_ok:
  assumes c: "sched_ok (self, st)" and a: "admissible self st t"
  obtains s' where "admit_task False t (self, st) = Returned (t, s')" "enters t (self, st) s'"
    "sc_current (fst s') = sc_current self"
    "ready_in (snd s') t \<longleftrightarrow> t_runnable (st t) \<or> ready_in st t"
proof -
  note d = sched_coreD [OF c]
  have a': "t \<notin> set (sc_tasks self)" "exec_start (t_meta (st t)) = None" "ts_terminal (t_state (st t)) = None"
    "vruntime (t_meta (st t)) \<le> u128_max" "sum (weight_of st) (set (sc_tasks self)) + weight_of st t \<le> u64_max"
    using a by (auto simp: admissible_def)
  let ?st1 = "refresh_deadlines self t ((t_meta (st t))\<lparr>meta_cpu := sc_cpu self\<rparr>) st"
  have c1: "sched_ok (self, ?st1)"
    using c by (rule sched_core_cong) (use a'(1) refresh_frame(1) in \<open>metis same_task_refl\<close>)
  have m: "meta_ok (sc_cpu self) (?st1 t)" by (rule meta_ok_refresh) (use a'(4) d(9) in simp_all)
  have w: "sum (weight_of ?st1) (set (sc_tasks self)) + weight_of ?st1 t \<le> u64_max"
  proof -
    have "sum (weight_of ?st1) (set (sc_tasks self)) = sum (weight_of st) (set (sc_tasks self))"
      by (intro sum.cong refl) (use a'(1) refresh_frame(1) in metis)
    then show ?thesis using a'(5) by (simp add: refresh_frame)
  qed
  let ?w = "if ready_in ?st1 t then weight_of ?st1 t else 0"
  let ?self1 = "self\<lparr>sc_tasks := t # sc_tasks self\<rparr>"
  let ?self2 = "if ready_in ?st1 t then add_runnable_weight ?self1 ?st1 t else ?self1"
  have "sc_total_weight self \<le> sum (weight_of ?st1) (set (sc_tasks self))"
    using sched_coreD(7) [OF c1] ready_weight_le [of "set (sc_tasks self)" ?st1] by simp
  then have "min (sc_total_weight self + weight_of ?st1 t) u64_max = sc_total_weight self + weight_of ?st1 t"
    using w by linarith
  then have s2: "?self2 = self\<lparr>sc_tasks := t # sc_tasks self, sc_total_weight := sc_total_weight self + ?w\<rparr>"
    by (cases self) (simp add: add_runnable_weight_def)
  have h: "sched_core {t} (?self2, ?st1)" unfolding s2 by (rule add_held [OF c1 a'(1) m w])
  have t2: "t \<in> set (sc_tasks ?self2)" and f2: "sc_tasks ?self2 = t # sc_tasks self" "sc_cpu ?self2 = sc_cpu self"
      "sc_current ?self2 = sc_current self"
    unfolding s2 by simp_all
  have e1: "exec_start (t_meta (?st1 t)) = None" "ts_terminal (t_state (?st1 t)) = None"
    using a' by (simp_all add: refresh_frame)
  have rn: "t_runnable (?st1 t) \<or> ready_in ?st1 t \<longleftrightarrow> t_runnable (st t) \<or> ready_in st t" by (simp add: refresh_frame)
  have wt1: "weight (t_meta (?st1 u)) = weight (t_meta (st u))" for u
    by (cases "u = t") (simp_all add: refresh_frame)
  show ?thesis
  proof (cases "t_runnable (?st1 t) \<or> ready_in ?st1 t")
    case True
    let ?r = "case ts_sched (t_state (?st1 t)) of PreemptReady \<Rightarrow> Preempt | _ \<Rightarrow> Async"
    let ?s = "insert_runnable_pointer t ?r (?self2, ?st1)"
    note f = insert_runnable_frame [where t = t and r = ?r and s = "(?self2, ?st1)", OF refl]
    have ad: "admit_task False t (self, st) = Returned (t, ?s)"
      using a'(1) True by (simp add: admit_task_def debug_checked_def assert_that_def Let_def)
    have wt: "weight (t_meta (snd ?s u)) = weight (t_meta (st u))" for u
      using f(6) wt1 [of u] unfolding keeps_def by simp
    have sm: "same_task (snd ?s u) (st u)" if "u \<noteq> t" for u
      using f(5) [OF that] refresh_frame(1) [OF that] by simp
    have en: "enters t (self, st) ?s"
      unfolding enters_def using insert_runnable_ok [OF h t2 e1] f(1,2) f2 wt sm by simp
    show ?thesis
      by (rule that [OF ad en]) (use f(3,8) f2 t2 True rn in auto)
  next
    case False
    then have ad: "admit_task False t (self, st) = Returned (t, ?self1, ?st1)" and s1: "?self2 = ?self1"
      using a'(1) by (simp_all add: admit_task_def debug_checked_def assert_that_def Let_def)
    have "sched_ok (?self1, ?st1)"
      using release_idle [OF h [unfolded s1]] False e1 by blast
    then have en: "enters t (self, st) (?self1, ?st1)" unfolding enters_def using wt1 by (auto simp: refresh_frame(1))
    show ?thesis by (rule that [OF ad en]) (use False rn in auto)
  qed
qed

end
