(* ===== verification/Sched_Trap.thy ===== *)
theory Sched_Trap
  imports Sched_Keep
begin

text \<open>Accounting, trap boundaries, ticks, wakeups and migration keep the invariant.\<close>

subsection \<open>Accounting\<close>

lemma resume_held:
  assumes c: "sched_core {t} (self, st)" and n: "sc_current self = None" and t: "t \<in> set (sc_tasks self)"
    and k: "ready_in st t" "exec_start (t_meta (st t)) \<noteq> None" "ts_terminal (t_state (st t)) = None"
  shows "sched_ok (self\<lparr>sc_current := Some t\<rparr>, st)"
proof -
  note d = sched_coreD [OF c]
  show ?thesis
  proof (rule sched_coreI, goal_cases)
    case 3
    show ?case using n by (simp add: d(3)) blast
  next
    case (6 u)
    then show ?case using d(6) [of u] n k by (cases "u = t") (auto simp: idle_ok_def)
  qed (use d t k in \<open>auto simp: queues_ok_def\<close>)
qed

lemma account_current_ok:
  assumes c: "sched_ok (self, st)"
  shows "ok_after (self, st) (account_current_runtime rt now (self, st))"
    and "sc_current (fst (account_current_runtime rt now (self, st))) = sc_current self"
    and "t_stack (snd (account_current_runtime rt now (self, st)) u) = t_stack (st u)"
proof -
  have "ok_after (self, st) (account_current_runtime rt now (self, st))
    \<and> sc_current (fst (account_current_runtime rt now (self, st))) = sc_current self
    \<and> t_stack (snd (account_current_runtime rt now (self, st)) u) = t_stack (st u)"
  proof (cases "sc_current self")
    case None
    then show ?thesis using c by (simp add: account_current_runtime_def current_task_def ok_after_refl)
  next
    case (Some t)
    note d = sched_coreD [OF c]
    have t: "t \<in> set (sc_tasks self)" "ready_in st t" using d(4) [OF Some] by auto
    let ?m = "t_meta (st t)"
    let ?v = "sat_add128 (sc_vtime self) (scheduler_runtime_to_virtual rt (max (sc_total_weight self) 1))"
    let ?m1 = "?m\<lparr>vruntime := sat_add128 (vruntime ?m) (runtime_to_virtual (meta_params ?m) rt),
                 exec_runtime := dur_saturating_add (exec_runtime ?m) rt, exec_start := Some now\<rparr>"
    let ?self = "self\<lparr>sc_vtime := ?v\<rparr>"
    let ?st = "refresh_deadlines ?self t ?m1 st"
    have e: "account_current_runtime rt now (self, st) = (?self, ?st)"
      using Some current_task_eq [OF c] by (simp add: account_current_runtime_def Let_def)
    have v: "?v \<le> u128_max" by (simp add: sat_add128_def)
    have m: "meta_ok (sc_cpu self) (?st t)"
      by (rule meta_ok_refresh) (use v d(5) [OF t(1)] in \<open>auto simp: meta_ok_def sat_add128_def\<close>)
    let ?off = "self\<lparr>sc_current := None\<rparr>"
    have o: "same_task (?st u) (st u)" if "u \<noteq> t" for u using that by (simp add: refresh_frame)
    have "sched_core {t} (?off\<lparr>sc_vtime := ?v, sc_total_weight := ready_weight ?st (set (sc_tasks ?off))\<rparr>, ?st)"
      by (rule core_held [OF hold_current [OF c Some] _ o _ _ v refl]) (use t m in \<open>simp_all add: refresh_frame\<close>)
    moreover have "ready_weight ?st (set (sc_tasks self)) = sc_total_weight self"
    proof -
      have "(ready_in ?st u \<longleftrightarrow> ready_in st u) \<and> weight_of ?st u = weight_of st u" for u
        by (cases "u = t") (simp_all add: refresh_frame)
      then show ?thesis using d(7) ready_weight_cong [of "set (sc_tasks self)" ?st st] by simp
    qed
    ultimately have "sched_core {t} (?off\<lparr>sc_vtime := ?v\<rparr>, ?st)" by simp
    then have "sched_ok (?off\<lparr>sc_vtime := ?v\<rparr>\<lparr>sc_current := Some t\<rparr>, ?st)"
      by (rule resume_held) (use t d(6) [of t] in \<open>auto simp: refresh_frame idle_ok_def\<close>)
    moreover have "?off\<lparr>sc_vtime := ?v\<rparr>\<lparr>sc_current := Some t\<rparr> = ?self" using Some by (cases self) simp
    ultimately have "sched_ok (?self, ?st)" by simp
    moreover have "keeps (self, st) (?self, ?st)" by (rule keeps_one [OF t(1) o]) (simp_all add: refresh_frame)
    moreover have "t_stack (?st u) = t_stack (st u)" by (simp add: refresh_deadlines_def set_meta_def Let_def)
    ultimately show ?thesis unfolding e ok_after_def by simp
  qed
  then show "ok_after (self, st) (account_current_runtime rt now (self, st))"
    "sc_current (fst (account_current_runtime rt now (self, st))) = sc_current self"
    "t_stack (snd (account_current_runtime rt now (self, st)) u) = t_stack (st u)" by blast+
qed

text \<open>The guard on the instants makes their subtraction total.\<close>

lemma duration_since_total:
  assumes "dur_ge a b"
  obtains d where "duration_since a b = Returned d"
proof -
  have "dur_checked_sub a b \<noteq> None"
    using assms by (auto simp: dur_ge_def dur_partial_cmp_def split: option.splits)
  then have "dur_sub a b \<noteq> None"
    by (auto simp: dur_checked_sub_def dur_sub_def checked_sub_def split: if_splits)
  then show ?thesis using that by (auto simp: duration_since_def)
qed

lemma account_since_ok:
  assumes c: "sched_ok s"
  obtains b s' where "account_since now start s = Returned (b, s')" "ok_after s s'" "sc_current (fst s') = sc_current (fst s)"
proof -
  obtain self st where s: "s = (self, st)" by fastforce
  note a = account_current_ok [OF c [unfolded s]] and r = ok_after_refl [OF c]
  show ?thesis
  proof (cases "\<exists>es. start = Some es \<and> dur_ge now es")
    case True
    then obtain es d where "start = Some es" "dur_ge now es" "duration_since now es = Returned d"
      using duration_since_total by metis
    then have "account_since now start s
        = Returned (if as_nanos d > 0 then (True, account_current_runtime d now s) else (False, s))"
      by (simp add: account_since_def)
    then show ?thesis using a(1,2) [of d now] r unfolding s by (cases "as_nanos d > 0") (auto intro: that [unfolded s])
  next
    case False
    then have "account_since now start s = Returned (False, s)"
      by (auto simp: account_since_def split: option.split)
    then show ?thesis using r that by blast
  qed
qed

lemma account_trap_ok:
  assumes c: "sched_ok s"
  obtains s' where "account_trap_runtime t now s = Returned s'" "ok_after s s'" "sc_current (fst s') = sc_current (fst s)"
proof (cases now)
  case None
  then show ?thesis using that [of s] ok_after_refl [OF c] by (simp add: account_trap_runtime_def)
next
  case (Some n)
  obtain b s' where "account_since n (exec_start (t_meta (snd s t))) s = Returned (b, s')" "ok_after s s'"
    "sc_current (fst s') = sc_current (fst s)"
    using account_since_ok [OF c] .
  then show ?thesis using that [of s'] Some by (simp add: account_trap_runtime_def)
qed

subsection \<open>Trap boundaries\<close>

lemma finalize_poll_ok:
  assumes c: "sched_ok s" and n: "\<And>ex. outcome \<noteq> PollExited ex"
  shows "ok_after s (snd (finalize_current_poll outcome s))"
    "sc_current (fst (snd (finalize_current_poll outcome s))) = None"
proof -
  obtain self st where s: "s = (self, st)" by fastforce
  have "ok_after s (snd (finalize_current_poll outcome s)) \<and> sc_current (fst (snd (finalize_current_poll outcome s))) = None"
  proof (cases outcome)
    case PollReady
    show ?thesis
    proof (cases "sc_current self")
      case None
      then show ?thesis using c PollReady unfolding s
        by (simp add: finalize_current_poll_def current_task_def ok_after_refl)
    next
      case (Some t)
      have k: "ok_after (self, st) (self, mark_ready t Async st)"
        by (rule ok_after_flags [OF c [unfolded s]]) (simp add: store_defs same_task_def)
      then have "sched_ok (self, mark_ready t Async st)" by (simp add: ok_after_def)
      note r = requeue_current_ok [OF this, of "t_ready (st t)"]
      show ?thesis
        using ok_after_trans [OF k r(1)] r(2) PollReady Some current_task_eq [OF c [unfolded s]] unfolding s
        by (simp add: finalize_current_poll_def take_ready_reason_def)
    qed
  next
    case PollBlocked
    then show ?thesis using block_current_ok [OF c] by (simp add: finalize_current_poll_def)
  next
    case (PollExited ex)
    then show ?thesis using n by blast
  qed
  then show "ok_after s (snd (finalize_current_poll outcome s))"
    "sc_current (fst (snd (finalize_current_poll outcome s))) = None" by blast+
qed

text \<open>What a trap boundary of the current task \<open>t\<close> may do: leave the table as it is, or reap \<open>t\<close>.\<close>

lemma finalize_action_ok:
  assumes c: "sched_ok s" and t: "sc_current (fst s) = Some t"
  shows "ok_after s (snd (finalize_action action t s)) \<and> tb_reaped (fst (finalize_action action t s)) = None
      \<or> leaves t s (snd (finalize_action action t s)) \<and> tb_reaped (fst (finalize_action action t s)) = Some t"
    and "sc_current (fst (snd (finalize_action action t s))) = None"
proof -
  obtain self st where s: "s = (self, st)" by fastforce
  have reap: "\<exists>s2. (case exit_current_with ex s of (_, s1) \<Rightarrow> case remove_task t s1 of (reaped, s2) \<Rightarrow>
        (\<lparr>tb_reaped = reaped, tb_migration_ready = None\<rparr>, s2)) = (\<lparr>tb_reaped = Some t, tb_migration_ready = None\<rparr>, s2)
      \<and> leaves t s s2 \<and> sc_current (fst s2) = None" for ex
    using exit_remove_ok [OF c [unfolded s] t [unfolded s fst_conv], of ex] unfolding s
    by (simp add: case_prod_beta)
  consider (out) ex where "action = BoundaryCancelled \<or> action = BoundaryOutcome (PollExited ex)"
    | (stay) oc where "action = BoundaryOutcome oc" "\<And>ex. oc \<noteq> PollExited ex"
  proof (cases action)
    case BoundaryCancelled
    then show thesis using out by blast
  next
    case (BoundaryOutcome oc)
    then show thesis using out stay by (cases oc) auto
  qed
  then have "(ok_after s (snd (finalize_action action t s)) \<and> tb_reaped (fst (finalize_action action t s)) = None
      \<or> leaves t s (snd (finalize_action action t s)) \<and> tb_reaped (fst (finalize_action action t s)) = Some t)
    \<and> sc_current (fst (snd (finalize_action action t s))) = None"
  proof cases
    case out
    then show ?thesis using reap [of ex] reap [of Cancelled] by (auto simp: finalize_action_def)
  next
    case stay
    have e: "finalize_action action t s = (let (result, s1) = finalize_current_poll oc s
        in (\<lparr>tb_reaped = None, tb_migration_ready = (if result \<noteq> None \<and> oc = PollReady then Some t else None)\<rparr>, s1))"
      using stay by (cases oc) (auto simp: finalize_action_def)
    show ?thesis using finalize_poll_ok [OF c, of oc] stay(2) unfolding e by (simp add: case_prod_beta)
  qed
  then show "ok_after s (snd (finalize_action action t s)) \<and> tb_reaped (fst (finalize_action action t s)) = None
      \<or> leaves t s (snd (finalize_action action t s)) \<and> tb_reaped (fst (finalize_action action t s)) = Some t"
    "sc_current (fst (snd (finalize_action action t s))) = None" by blast+
qed

lemma current_from_trap:
  assumes "current_task_from_trap self st rsp = Some t"
  shows "sc_current self = Some t"
  using assms by (auto simp: current_task_from_trap_def current_task_def split: option.splits if_splits)

lemma ok_then_leaves: "ok_after a b \<Longrightarrow> leaves t b c \<Longrightarrow> leaves t a c"
  unfolding ok_after_def keeps_def leaves_def by (auto intro: same_task_trans)

lemma ok_afterD: "ok_after a b \<Longrightarrow> sched_ok b"
  by (simp add: ok_after_def)

text \<open>The accounting and the stop record of a trap of the current task.\<close>

lemma trap_stop_ok:
  assumes c: "sched_ok s"
  obtains s1 where "account_trap_runtime t now s = Returned s1"
    "ok_after s (case now of None \<Rightarrow> s1 | Some n \<Rightarrow> (fst s1, record_stop t (sc_cpu (fst s1)) n (snd s1)))"
    "sc_current (fst (case now of None \<Rightarrow> s1 | Some n \<Rightarrow> (fst s1, record_stop t (sc_cpu (fst s1)) n (snd s1)))) = sc_current (fst s)"
proof -
  obtain s1 where s1: "account_trap_runtime t now s = Returned s1" "ok_after s s1" "sc_current (fst s1) = sc_current (fst s)"
    using account_trap_ok [OF c] .
  have "ok_after s1 (fst s1, record_stop t cpu n (snd s1))" for cpu n
    using ok_after_flags [of "fst s1" "snd s1"] ok_afterD [OF s1(2)] by (simp add: store_defs same_task_def)
  then have "ok_after s (fst s1, record_stop t cpu n (snd s1))" for cpu n using ok_after_trans [OF s1(2)] by blast
  then show ?thesis using that [OF s1(1)] s1(2,3) by (cases now) simp_all
qed

lemma finalize_boundary_ok:
  assumes c: "sched_ok s"
  obtains r s' where "finalize_current_boundary False rsp action now s = Returned (r, s')"
    "ok_after s s' \<or> (\<exists>t. leaves t s s' \<and> sc_current (fst s) = Some t)"
    "r \<noteq> None \<Longrightarrow> sc_current (fst s') = None"
proof (cases "current_task_from_trap (fst s) (snd s) rsp")
  case None
  then show ?thesis using that [of None s] ok_after_refl [OF c] by (simp add: finalize_current_boundary_def)
next
  case (Some t)
  obtain s1 where s1: "account_trap_runtime t now s = Returned s1"
    "ok_after s (case now of None \<Rightarrow> s1 | Some n \<Rightarrow> (fst s1, record_stop t (sc_cpu (fst s1)) n (snd s1)))"
    "sc_current (fst (case now of None \<Rightarrow> s1 | Some n \<Rightarrow> (fst s1, record_stop t (sc_cpu (fst s1)) n (snd s1)))) = sc_current (fst s)"
    using trap_stop_ok [OF c] .
  define s2 where "s2 = (case now of None \<Rightarrow> s1 | Some n \<Rightarrow> (fst s1, record_stop t (sc_cpu (fst s1)) n (snd s1)))"
  have s2: "ok_after s s2" "sc_current (fst s2) = Some t"
    using s1(2,3) current_from_trap [OF Some] unfolding s2_def by simp_all
  note f = finalize_action_ok [OF ok_afterD [OF s2(1)] s2(2), of action]
  let ?f = "finalize_action action t s2"
  have e: "finalize_current_boundary False rsp action now s = Returned (Some (fst ?f), snd ?f)"
    unfolding finalize_current_boundary_def Some using s1(1)
    by (simp add: s2_def [symmetric] debug_checked_def assert_that_def case_prod_beta)
  show ?thesis
  proof (rule that [OF e])
    show "ok_after s (snd ?f) \<or> (\<exists>t. leaves t s (snd ?f) \<and> sc_current (fst s) = Some t)"
      using f(1) ok_after_trans [OF s2(1)] ok_then_leaves [OF s2(1)] current_from_trap [OF Some] by blast
    show "sc_current (fst (snd ?f)) = None" by (rule f(2))
  qed
qed

lemma save_preempted_ok:
  assumes c: "sched_ok s"
  obtains r s' where "save_preempted_current False rsp now s = Returned (r, s')" "ok_after s s'"
    "r \<noteq> None \<Longrightarrow> sc_current (fst s') = None"
proof (cases "current_task_from_trap (fst s) (snd s) rsp")
  case None
  then show ?thesis using that [of None s] ok_after_refl [OF c] by (simp add: save_preempted_current_def)
next
  case (Some t)
  obtain s1 where s1: "account_trap_runtime t now s = Returned s1"
    "ok_after s (case now of None \<Rightarrow> s1 | Some n \<Rightarrow> (fst s1, record_stop t (sc_cpu (fst s1)) n (snd s1)))"
    using trap_stop_ok [OF c] .
  define s2 where "s2 = (case now of None \<Rightarrow> s1 | Some n \<Rightarrow> (fst s1, record_stop t (sc_cpu (fst s1)) n (snd s1)))"
  have k: "ok_after s2 (fst s2, mark_ready t Preempt (snd s2))"
    using ok_after_flags [of "fst s2" "snd s2"] ok_afterD [OF s1(2), folded s2_def] by (simp add: store_defs same_task_def)
  note q = requeue_current_ok [OF ok_afterD [OF k], of Preempt]
  let ?q = "requeue_current_with Preempt (fst s2, mark_ready t Preempt (snd s2))"
  have e: "save_preempted_current False rsp now s = Returned (if fst ?q = Some t then Some t else None, snd ?q)"
    unfolding save_preempted_current_def Some using s1(1)
    by (simp add: s2_def [symmetric] debug_checked_def assert_that_def case_prod_beta)
  show ?thesis
    by (rule that [OF e]) (use ok_after_trans [OF ok_after_trans [OF s1(2) [folded s2_def] k] q(1)] q(2) in auto)
qed

end
