(* ===== verification/Sched_Wake.thy ===== *)
theory Sched_Wake
  imports Sched_Trap
begin

text \<open>Wakeups, ticks and migration keep the invariant; a drained wakeup makes its task runnable.\<close>

subsection \<open>Wakeups\<close>

lemma enqueue_wakeup_ok:
  assumes c: "sched_ok s"
  shows "ok_after s (enqueue_wakeup t s)"
proof -
  obtain self st where s: "s = (self, st)" by fastforce
  have k: "ok_after (self, st) (self, set_wake_queued t True st)"
    by (rule ok_after_flags [OF c [unfolded s]]) (simp add: store_defs same_task_def)
  note ok_after_trans [OF k ok_after_inbox [OF ok_afterD [OF k]]]
  then show ?thesis
    using k ok_after_refl [OF c] unfolding s by (simp add: enqueue_wakeup_def try_mark_wake_queued_def)
qed

lemma activate_ok:
  assumes c: "sched_ok s"
  shows "ok_after s (snd (activate_wakeup_task t s))"
    "t \<in> set (sc_tasks (fst s)) \<Longrightarrow> ready_in (snd (snd (activate_wakeup_task t s))) t"
    "\<And>u. ready_in (snd s) u \<Longrightarrow> ready_in (snd (snd (activate_wakeup_task t s))) u"
    "sc_current (fst (snd (activate_wakeup_task t s))) = sc_current (fst s)"
    "sc_wake_inbox (fst (snd (activate_wakeup_task t s))) = sc_wake_inbox (fst s)"
    "\<And>u. t_wake_queued (snd (snd (activate_wakeup_task t s)) u) = t_wake_queued (snd s u)"
proof -
  obtain self st where s: "s = (self, st)" by fastforce
  let ?r = "activate_wakeup_task t s"
  have "ok_after s (snd ?r) \<and> (t \<in> set (sc_tasks (fst s)) \<longrightarrow> ready_in (snd (snd ?r)) t)
    \<and> (\<forall>u. ready_in (snd s) u \<longrightarrow> ready_in (snd (snd ?r)) u) \<and> sc_current (fst (snd ?r)) = sc_current (fst s)
    \<and> sc_wake_inbox (fst (snd ?r)) = sc_wake_inbox (fst s)
    \<and> (\<forall>u. t_wake_queued (snd (snd ?r) u) = t_wake_queued (snd s u))"
  proof (cases "t \<in> set (sc_tasks self) \<and> \<not> ready_in st t")
    case False
    then show ?thesis using ok_after_refl [OF c] unfolding s by (auto simp: activate_wakeup_task_def)
  next
    case True
    then have t: "t \<in> set (sc_tasks self)" by blast
    let ?r = "t_ready (st t)"
    let ?st1 = "mark_ready t Async st"
    let ?new = "(t_state (st t))\<lparr>ts_sched := scheduler_state_for_ready ?r\<rparr>"
    let ?s2 = "transition_task_state t ?new (self, ?st1)"
    obtain self2 where s2: "?s2 = (self2, set_state t ?new ?st1)"
      using transition_frame(7) [of t ?new self ?st1] by (metis prod.collapse)
    let ?st2 = "set_state t ?new ?st1"
    define st3 where "st3 = (if t_started (?st2 t) then set_migration_ready t True ?st2 else ?st2)"
    have o3: "st3 u = st u" if "u \<noteq> t" for u using that by (simp add: st3_def store_defs)
    have w3: "t_wake_queued (st3 u) = t_wake_queued (st u)" for u by (simp add: st3_def store_defs)
    have k: "ok_after (self, st) (self, ?st1)"
      by (rule ok_after_flags [OF c [unfolded s]]) (simp add: store_defs same_task_def)
    have "\<not> ready_in ?st1 t" using True by (simp add: store_defs)
    from core_transition [OF hold_idle [OF ok_afterD [OF k] this] t, of ?new]
    have "sched_core {t} (self2, ?st2)" unfolding s2 .
    then have c3: "sched_core {t} (self2, st3)"
      by (rule sched_core_cong) (simp add: st3_def set_migration_ready_def same_task_def)
    have f2: "sc_tasks self2 = sc_tasks self" "sc_cpu self2 = sc_cpu self" "sc_current self2 = sc_current self"
        "sc_wake_inbox self2 = sc_wake_inbox self"
      using transition_frame [of t ?new self ?st1] unfolding s2 by simp_all
    have id: "exec_start (t_meta (st t)) = None" "ts_terminal (t_state (st t)) = None"
      using sched_coreD(4,6) [OF c [unfolded s], of t] True by (auto simp: idle_ok_def)
    have e3: "exec_start (t_meta (st3 t)) = None" "ts_terminal (t_state (st3 t)) = None"
      using id by (simp_all add: st3_def store_defs)
    have t2: "t \<in> set (sc_tasks self2)" using t f2 by simp
    define s4 where "s4 = insert_runnable_pointer t ?r (self2, st3)"
    note f = insert_runnable_frame [where t = t and r = ?r and s = "(self2, st3)", OF refl, folded s4_def, unfolded fst_conv snd_conv]
    have ok: "sched_ok s4" using insert_runnable_ok [OF c3 t2 e3] by (simp add: s4_def)
    have o: "snd s4 u = st u" if "u \<noteq> t" for u using f(5) [OF that] o3 [OF that] by simp
    have wt: "weight (t_meta (snd s4 t)) = weight (t_meta (st t))"
      using f(6) unfolding keeps_def by (simp add: st3_def store_defs)
    have "keeps (self, st) (fst s4, snd s4)"
      by (rule keeps_one [OF t]) (use o f(1,2) f2 wt in simp_all)
    then have oa: "ok_after (self, st) s4" using ok by (simp add: ok_after_def)
    have r: "ready_in (snd s4) t" using f(8) t2 .
    have w: "t_wake_queued (snd s4 u) = t_wake_queued (st u)" for u using f(7) [of u] w3 [of u] by simp
    have a: "activate_wakeup_task t (self, st) = (True, s4)"
      unfolding activate_wakeup_task_def s4_def st3_def using True s2 by (simp add: take_ready_reason_def Let_def)
    have m: "ready_in (snd s4) u" if "ready_in st u" for u using o [of u] r that by (cases "u = t") auto
    show ?thesis unfolding s a using oa r m f(3,4) f2 w by simp
  qed
  then show "ok_after s (snd ?r)" "t \<in> set (sc_tasks (fst s)) \<Longrightarrow> ready_in (snd (snd ?r)) t"
    "\<And>u. ready_in (snd s) u \<Longrightarrow> ready_in (snd (snd ?r)) u" "sc_current (fst (snd ?r)) = sc_current (fst s)"
    "sc_wake_inbox (fst (snd ?r)) = sc_wake_inbox (fst s)"
    "\<And>u. t_wake_queued (snd (snd ?r) u) = t_wake_queued (snd s u)" by blast+
qed

lemma drain_loop_ok:
  assumes "sched_ok s"
  shows "ok_after s (snd (drain_loop inbox n s))
    \<and> (\<forall>t \<in> set inbox. t \<in> set (sc_tasks (fst s)) \<longrightarrow> ready_in (snd (snd (drain_loop inbox n s))) t)
    \<and> (\<forall>u. ready_in (snd s) u \<longrightarrow> ready_in (snd (snd (drain_loop inbox n s))) u)
    \<and> sc_current (fst (snd (drain_loop inbox n s))) = sc_current (fst s)
    \<and> sc_wake_inbox (fst (snd (drain_loop inbox n s))) = []
    \<and> (\<forall>u. t_wake_queued (snd (snd (drain_loop inbox n s)) u) \<longleftrightarrow> t_wake_queued (snd s u) \<and> u \<notin> set inbox)"
  using assms
proof (induction inbox arbitrary: n s)
  case Nil
  then show ?case using ok_after_inbox [of "fst s" "snd s" "[]"] by simp
next
  case (Cons t inbox)
  let ?s0 = "((fst s)\<lparr>sc_wake_inbox := inbox\<rparr>, set_wake_queued t False (snd s))"
  have k: "ok_after (fst s, snd s) (fst s, set_wake_queued t False (snd s))"
    by (rule ok_after_flags) (use Cons.prems in \<open>simp_all add: store_defs same_task_def\<close>)
  have k0: "ok_after s ?s0" using ok_after_trans [OF k ok_after_inbox [OF ok_afterD [OF k]]] by simp
  note a = activate_ok [OF ok_afterD [OF k0], where t = t]
  let ?a = "activate_wakeup_task t ?s0"
  obtain b s1 where b: "?a = (b, s1)" by (rule prod.exhaust)
  have step: "drain_loop (t # inbox) n s = drain_loop inbox (if b then n + 1 else n) s1"
    using b by (simp add: clear_wake_queued_def)
  have k1: "ok_after s s1" using ok_after_trans [OF k0 a(1)] unfolding b by simp
  note ih = Cons.IH [OF ok_afterD [OF k1], of "if b then n + 1 else n"]
  have tasks: "sc_tasks (fst s1) = sc_tasks (fst s)" using k1 by (simp add: ok_after_def keeps_def)
  have r0: "ready_in (snd ?s0) u \<longleftrightarrow> ready_in (snd s) u" for u by (simp add: store_defs)
  have r1: "ready_in (snd s1) u" if "ready_in (snd s) u" for u using a(3) [where u = u] that r0 [of u] unfolding b by simp
  have r2: "t \<in> set (sc_tasks (fst s)) \<Longrightarrow> ready_in (snd s1) t" using a(2) unfolding b by simp
  have w: "t_wake_queued (snd s1 u) \<longleftrightarrow> t_wake_queued (snd s u) \<and> u \<noteq> t" for u
    using a(6) [where u = u] unfolding b by (auto simp: store_defs)
  show ?case unfolding step
    using ih ok_after_trans [OF k1] tasks r1 r2 a(4) w unfolding b by simp
qed

lemma drain_wakeups_ok:
  assumes c: "sched_ok s"
  obtains n s' where "drain_wakeups False s = Returned (n, s')" "ok_after s s'"
    "sc_current (fst s') = sc_current (fst s)" "sc_wake_inbox (fst s') = []"
    "\<And>t. t \<in> set (sc_wake_inbox (fst s)) \<Longrightarrow> t \<in> set (sc_tasks (fst s)) \<Longrightarrow> ready_in (snd s') t"
    "\<And>u. ready_in (snd s) u \<Longrightarrow> ready_in (snd s') u"
proof -
  let ?d = "drain_loop (sc_wake_inbox (fst s)) 0 s"
  have e: "drain_wakeups False s = Returned (fst ?d, snd ?d)"
    by (simp add: drain_wakeups_def debug_checked_def assert_that_def)
  note l = drain_loop_ok [OF c, of "sc_wake_inbox (fst s)" 0]
  show ?thesis by (rule that [OF e]) (use l in blast)+
qed

subsection \<open>Ticks\<close>

lemma promote_ok_after:
  assumes "sched_ok (self, st)"
  shows "ok_after (self, st) (promote_eligible (self, st), st)"
  using promote_eligible_ok(1) [OF assms] promote_fields [OF assms] by (simp add: ok_after_def keeps_def)

lemma should_preempt_ok:
  assumes c: "sched_ok s"
  shows "ok_after s (snd (should_preempt_current s), snd s)"
    "sc_current (snd (should_preempt_current s)) = sc_current (fst s)"
proof -
  obtain self st where s: "s = (self, st)" by fastforce
  have "snd (should_preempt_current s) = self \<or> snd (should_preempt_current s) = promote_eligible (self, st)"
    unfolding s by (auto simp: should_preempt_current_def Let_def split: option.split list.split)
  then show "ok_after s (snd (should_preempt_current s), snd s)"
    "sc_current (snd (should_preempt_current s)) = sc_current (fst s)"
    using promote_ok_after [OF c [unfolded s]] promote_fields(3) [OF c [unfolded s]] ok_after_refl [OF c] unfolding s by auto
qed

lemma on_tick_ok:
  assumes c: "sched_ok s"
  obtains b s' where "on_tick False now s = Returned (b, s')" "ok_after s s'" "sc_current (fst s') = sc_current (fst s)"
    "\<And>t. t \<in> set (sc_wake_inbox (fst s)) \<Longrightarrow> t \<in> set (sc_tasks (fst s)) \<Longrightarrow> ready_in (snd s') t"
proof -
  obtain n s1 where s1: "drain_wakeups False s = Returned (n, s1)" "ok_after s s1" "sc_current (fst s1) = sc_current (fst s)"
    "\<And>t. t \<in> set (sc_wake_inbox (fst s)) \<Longrightarrow> t \<in> set (sc_tasks (fst s)) \<Longrightarrow> ready_in (snd s1) t"
    using drain_wakeups_ok [OF c] by metis
  let ?acc = "case current_task (fst s1) of None \<Rightarrow> Returned (False, s1)
        | Some t \<Rightarrow> account_since now (exec_start (t_meta (snd s1 t))) s1"
  obtain a s2 where s2: "?acc = Returned (a, s2)" "ok_after s1 s2" "sc_current (fst s2) = sc_current (fst s1)"
      "\<And>u. t_state (snd s2 u) = t_state (snd s1 u)"
  proof (cases "current_task (fst s1)")
    case None
    then show thesis using that [of False s1] ok_after_refl [OF ok_afterD [OF s1(2)]] by simp
  next
    case (Some t)
    obtain a s2 where a: "account_since now (exec_start (t_meta (snd s1 t))) s1 = Returned (a, s2)" "ok_after s1 s2"
      "sc_current (fst s2) = sc_current (fst s1)"
      using account_since_ok [OF ok_afterD [OF s1(2)]] .
    have "t_state (snd s2 u) = t_state (snd s1 u)" for u
      using a(1) by (auto simp: account_since_def account_current_runtime_def refresh_deadlines_def set_meta_def Let_def
        bind_eq_Some_conv split: option.splits if_splits)
    then show thesis using that [of a s2] a Some by simp
  qed
  let ?p = "if sc_current (fst s2) = None \<and> n > 0 then (True, s2)
        else if a \<or> n > 0 then let (b, self) = should_preempt_current s2 in (b, self, snd s2) else (False, s2)"
  have e: "on_tick False now s = Returned (fst ?p, snd ?p)"
    unfolding on_tick_def using s1(1) s2(1) by (simp add: debug_checked_def assert_that_def case_prod_beta Let_def)
  note sp = should_preempt_ok [OF ok_afterD [OF s2(2)]]
  have p: "ok_after s2 (snd ?p)" "sc_current (fst (snd ?p)) = sc_current (fst s2)" "snd (snd ?p) = snd s2"
    using sp ok_after_refl [OF ok_afterD [OF s2(2)]] by (simp_all add: case_prod_beta)
  show ?thesis
    by (rule that [OF e])
      (use ok_after_trans [OF ok_after_trans [OF s1(2) s2(2)] p(1)] p(2,3) s1(3,4) s2(3,4) in simp_all)
qed

subsection \<open>Migration\<close>

abbreviation unqueue :: "task_id \<Rightarrow> scheduler \<Rightarrow> scheduler" where
  "unqueue t self \<equiv> self\<lparr>sc_eligible := remove1 t (sc_eligible self), sc_ineligible := remove1 t (sc_ineligible self)\<rparr>"

lemma unqueue_held:
  assumes c: "sched_ok (self, st)" and q: "t \<in> queued self"
  shows "sched_core {t} (unqueue t self, st)"
proof -
  note d = sched_coreD [OF c]
  have qo: "queues_ok (unqueue t self) st"
    using d(2) sorted_wrt_remove1 unfolding queues_ok_def by (auto dest: notin_set_remove1 set_remove1_subset [THEN subsetD])
  have ds: "distinct (sc_eligible self)" "distinct (sc_ineligible self)" using d(2) by (auto simp: queues_ok_def)
  have "set (remove1 t (sc_eligible self)) \<union> set (remove1 t (sc_ineligible self)) = queued self - {t}"
    using ds by auto
  also have "\<dots> = {u \<in> set (sc_tasks self). u \<notin> {t} \<and> ready_in st u \<and> Some u \<noteq> sc_current self}" unfolding d(3) by blast
  finally have s: "set (remove1 t (sc_eligible self)) \<union> set (remove1 t (sc_ineligible self))
      = {u \<in> set (sc_tasks self). u \<notin> {t} \<and> ready_in st u \<and> Some u \<noteq> sc_current self}" .
  have nc: "sc_current self \<noteq> Some t" using q unfolding d(3) by auto
  show ?thesis by (rule core_retree [OF c qo s]) (use nc d(6) in auto)
qed

lemma remove_first_cases:
  assumes c: "sched_ok (self, st)"
  obtains "remove_first_migratable_from_tree e now th ig (self, st) = (None, self)"
  | t where "remove_first_migratable_from_tree e now th ig (self, st) = (Some t, unqueue t self)" "t \<in> queued self"
      "migratable (sc_cpu self) now th ig (st t)"
proof -
  note d = sched_coreD [OF c]
  let ?tree = "if e then sc_eligible self else sc_ineligible self"
  let ?P = "\<lambda>t. migratable (sc_cpu self) now th ig (st t)"
  show ?thesis
  proof (cases "filter ?P ?tree")
    case Nil
    then show ?thesis using that(1) by (simp add: remove_first_migratable_from_tree_def)
  next
    case (Cons t ts)
    then have "t \<in> set (filter ?P ?tree)" by simp
    then have t: "t \<in> set ?tree" "?P t" by auto
    then have q: "t \<in> queued self" by (auto split: if_splits)
    then have tt: "t \<in> set (sc_tasks self)" unfolding d(3) by blast
    have disj: "set (sc_eligible self) \<inter> set (sc_ineligible self) = {}" using d(2) by (auto simp: queues_ok_def)
    have "remove_first_migratable_from_tree e now th ig (self, st) = (Some t, unqueue t self)"
    proof (cases e)
      case True
      then have "t \<notin> set (sc_ineligible self)" using t(1) disj by auto
      then have "remove1 t (sc_ineligible self) = sc_ineligible self" by (rule remove1_idem)
      then show ?thesis using True Cons tt by (cases self) (simp add: remove_first_migratable_from_tree_def)
    next
      case False
      then have "t \<notin> set (sc_eligible self)" using t(1) disj by auto
      then have "remove1 t (sc_eligible self) = sc_eligible self" by (rule remove1_idem)
      then show ?thesis using False Cons tt by (cases self) (simp add: remove_first_migratable_from_tree_def)
    qed
    then show ?thesis using that(2) q t(2) by blast
  qed
qed

lemma extract_cases:
  assumes c: "sched_ok (self, st)"
  obtains "extract_migratable_task now th rx (self, st) = (None, self)"
  | t ig where "extract_migratable_task now th rx (self, st) = (Some t, unqueue t self)" "t \<in> queued self"
      "migratable (sc_cpu self) now th ig (st t)"
  unfolding extract_migratable_task_def
  by (rule remove_first_cases [OF c, of True now th False]; rule remove_first_cases [OF c, of False now th False];
    rule remove_first_cases [OF c, of True now th True]; rule remove_first_cases [OF c, of False now th True]; cases rx)
    auto

lemma take_migratable_cases:
  assumes c: "sched_ok (self, st)"
  obtains (none) "take_migratable False now th pol (self, st) = Returned (None, self, st)"
  | (some) t ig self' where "take_migratable False now th pol (self, st) = Returned (Some t, self', stop_exec t st)"
      "leaves t (self, st) (self', stop_exec t st)" "t \<in> queued self" "sc_current self' = sc_current self"
      "migratable (sc_cpu self) now th ig (st t)"
proof (rule extract_cases [OF c, of now th "pol = BalanceRequest"])
  assume "extract_migratable_task now th (pol = BalanceRequest) (self, st) = (None, self)"
  then show ?thesis using none by (simp add: take_migratable_def)
next
  fix t ig
  assume e: "extract_migratable_task now th (pol = BalanceRequest) (self, st) = (Some t, unqueue t self)"
    and q: "t \<in> queued self" and m: "migratable (sc_cpu self) now th ig (st t)"
  have tt: "t \<in> set (sc_tasks self)" "ready_in st t" using q unfolding sched_coreD(3) [OF c] by auto
  let ?u = "unqueue t self"
  let ?self1 = "?u\<lparr>sc_tasks := remove1 t (sc_tasks ?u)\<rparr>"
  obtain v where v: "adjust_vtime_for_departure ?self1 st t = ?self1\<lparr>sc_vtime := v\<rparr>" "v \<le> u128_max"
    using adjust_vtime_form [of ?self1] sched_coreD(9) [OF c] by auto
  let ?d = "?u\<lparr>sc_tasks := remove1 t (sc_tasks ?u), sc_total_weight := sc_total_weight ?u - (if ready_in st t then weight_of st t else 0)\<rparr>"
  have "sched_ok (?d, st)" by (rule drop_held [OF unqueue_held [OF c q]]) (use tt in simp)
  then have "sched_ok (?d\<lparr>sc_vtime := v\<rparr>, st)" using v(2) by (rule core_vtime)
  then have k: "sched_ok (?d\<lparr>sc_vtime := v\<rparr>, stop_exec t st)"
    by (rule sched_core_cong) (use sched_coreD(1) [OF c] in \<open>auto simp: store_defs\<close>)
  have s: "sub_runnable_weight (adjust_vtime_for_departure ?self1 st t) st t = ?d\<lparr>sc_vtime := v\<rparr>"
    unfolding v(1) sub_runnable_weight_def using tt(2) by (cases self) simp
  have r: "take_migratable False now th pol (self, st) = Returned (Some t, ?d\<lparr>sc_vtime := v\<rparr>, stop_exec t st)"
    using e s by (simp add: take_migratable_def debug_checked_def assert_that_def Let_def)
  have "leaves t (self, st) (?d\<lparr>sc_vtime := v\<rparr>, stop_exec t st)"
    unfolding leaves_def using k tt by (auto simp: store_defs)
  then show ?thesis using some [OF r] q m by simp
qed

end
