(* ===== verification/Sched_Cpus.thy ===== *)
theory Sched_Cpus
  imports Sched_Wake
begin

text \<open>
  The schedulers of all CPUs (\<open>kernel/src/sched/scheduler.rs\<close>), the load balancer
  (\<open>balance/mod.rs\<close>), the timer queue (\<open>time.rs\<close>) and the preemption flags (\<open>preempt.rs\<close>). A CPU's
  slot is a list element, \<open>None\<close> before \<open>install\<close>; the task store is shared. The argument \<open>me\<close> is the
  CPU that runs the code (\<open>PerCpu::id()\<close>). A reschedule IPI and a remote balance request are recorded
  when they are sent; the request runs as a step of its own on the CPU that receives it.
\<close>

subsection \<open>State\<close>

datatype scheduler_error = InvalidCpu nat | UninitializedCpu nat | MissingRunnable task_id

record sleep_entry =
  se_deadline :: instant
  se_registered :: bool
  se_completed :: bool
  se_waker :: "task_id option"

record kernel =
  k_slots :: "scheduler option list"
  k_store :: task_store
  k_hint :: nat
  k_need_resched :: "nat \<Rightarrow> bool"
  k_preempt_count :: "nat \<Rightarrow> nat"
  k_deferred :: "nat \<Rightarrow> task_id"
  k_ipis :: "nat list"
  k_requests :: "(nat \<times> nat) list"
  k_cpu0_ticks :: nat
  k_timer :: "(instant \<times> nat) list"
  k_sleeps :: "nat \<Rightarrow> sleep_entry"

type_synonym 'a kernel_result = "(('a, scheduler_error) result \<times> kernel) outcome"

text \<open>The \<open>?\<close> operator on a result that comes with the new state.\<close>

definition and_then :: "'a kernel_result \<Rightarrow> ('a \<Rightarrow> kernel \<Rightarrow> 'b kernel_result) \<Rightarrow> 'b kernel_result" where
  "and_then m k = do {
     (r, w) \<leftarrow> m;
     case r of Inl e \<Rightarrow> Returned (Err e, w) | Inr a \<Rightarrow> k a w
   }"

definition cpu_slot :: "nat \<Rightarrow> kernel \<Rightarrow> (scheduler, scheduler_error) result" where
  "cpu_slot cpu_id w =
     (if cpu_id < length (k_slots w)
      then ok_or (UninitializedCpu cpu_id) (k_slots w ! cpu_id)
      else Err (InvalidCpu cpu_id))"

definition with_cpu :: "nat \<Rightarrow> (scheduler \<Rightarrow> 'a) \<Rightarrow> kernel \<Rightarrow> ('a, scheduler_error) result" where
  "with_cpu cpu_id f w = (case cpu_slot cpu_id w of Inl e \<Rightarrow> Err e | Inr self \<Rightarrow> Ok (f self))"

definition put_cpu :: "nat \<Rightarrow> sched_state \<Rightarrow> kernel \<Rightarrow> kernel" where
  "put_cpu cpu_id s w = w\<lparr>k_slots := (k_slots w)[cpu_id := Some (fst s)], k_store := snd s\<rparr>"

definition with_cpu_mut :: "nat \<Rightarrow> (sched_state \<Rightarrow> ('a \<times> sched_state) outcome) \<Rightarrow> kernel \<Rightarrow> 'a kernel_result" where
  "with_cpu_mut cpu_id f w =
     (case cpu_slot cpu_id w of
        Inl e \<Rightarrow> Returned (Err e, w)
      | Inr self \<Rightarrow> do { (r, s) \<leftarrow> f (self, k_store w); Returned (Ok r, put_cpu cpu_id s w) })"

definition sleep_entry_new :: "instant \<Rightarrow> sleep_entry" where
  "sleep_entry_new deadline = \<lparr>se_deadline = deadline, se_registered = False, se_completed = False, se_waker = None\<rparr>"

text \<open>The slots that \<open>install\<close> fills, and the empty timer queue.\<close>

definition install :: "nat \<Rightarrow> task_store \<Rightarrow> kernel" where
  "install cpu_count st =
     \<lparr>k_slots = map (\<lambda>cpu_id. Some (scheduler_new cpu_id)) [0..<max cpu_count 1], k_store = st, k_hint = 0,
      k_need_resched = (\<lambda>_. False), k_preempt_count = (\<lambda>_. 0), k_deferred = (\<lambda>_. 0), k_ipis = [], k_requests = [],
      k_cpu0_ticks = 0, k_timer = [], k_sleeps = (\<lambda>_. sleep_entry_new (from_nanos 0))\<rparr>"

definition cpu_count :: "kernel \<Rightarrow> nat" where
  "cpu_count w = max (length (k_slots w)) 1"

subsection \<open>Preemption flags\<close>

definition preempt_enter_local :: "nat \<Rightarrow> kernel \<Rightarrow> kernel" where
  "preempt_enter_local me w = w\<lparr>k_preempt_count := (k_preempt_count w)(me := (k_preempt_count w me + 1) mod 2 ^ 64)\<rparr>"

definition preempt_leave_local :: "bool \<Rightarrow> nat \<Rightarrow> kernel \<Rightarrow> (bool \<times> kernel) outcome" where
  "preempt_leave_local dbg me w = do {
     let previous = k_preempt_count w me;
     let w1 = w\<lparr>k_preempt_count := (k_preempt_count w)(me := (previous + 2 ^ 64 - 1) mod 2 ^ 64)\<rparr>;
     _ \<leftarrow> assert_that (dbg \<longrightarrow> previous > 0);
     Returned (previous = 1, w1)
   }"

definition preempt_request_local :: "nat \<Rightarrow> kernel \<Rightarrow> kernel" where
  "preempt_request_local me w = w\<lparr>k_need_resched := (k_need_resched w)(me := True)\<rparr>"

definition preempt_take_local :: "nat \<Rightarrow> kernel \<Rightarrow> bool \<times> kernel" where
  "preempt_take_local me w = (k_need_resched w me, w\<lparr>k_need_resched := (k_need_resched w)(me := False)\<rparr>)"

text \<open>Dropping a \<open>PreemptGuard\<close>: whether it invokes the local reschedule.\<close>

definition preempt_guard_drop :: "bool \<Rightarrow> bool \<Rightarrow> nat \<Rightarrow> kernel \<Rightarrow> (bool \<times> kernel) outcome" where
  "preempt_guard_drop dbg service_on_drop me w = do {
     (zero, w1) \<leftarrow> preempt_leave_local dbg me w;
     Returned (zero \<and> service_on_drop \<and> k_need_resched w1 me, w1)
   }"

subsection \<open>Operations on one CPU\<close>

definition notify_cpu :: "nat \<Rightarrow> nat \<Rightarrow> kernel \<Rightarrow> kernel" where
  "notify_cpu me cpu_id w = (if cpu_id = me then w else w\<lparr>k_ipis := k_ipis w @ [cpu_id]\<rparr>)"

definition task_on_cpu :: "nat \<Rightarrow> task_id \<Rightarrow> kernel \<Rightarrow> task_id option" where
  "task_on_cpu cpu_id t w =
     (case with_cpu cpu_id (\<lambda>self. if t \<in> set (sc_tasks self) then Some t else None) w of Inl _ \<Rightarrow> None | Inr r \<Rightarrow> r)"

definition current_task_on_cpu :: "nat \<Rightarrow> kernel \<Rightarrow> task_id option" where
  "current_task_on_cpu cpu_id w = (case with_cpu cpu_id current_task w of Inl _ \<Rightarrow> None | Inr r \<Rightarrow> r)"

definition cpu_has_work :: "nat \<Rightarrow> kernel \<Rightarrow> bool" where
  "cpu_has_work cpu_id w = (case with_cpu cpu_id has_runnable_work w of Inl _ \<Rightarrow> False | Inr r \<Rightarrow> r)"

definition admit_task_on_cpu :: "bool \<Rightarrow> nat \<Rightarrow> task_id \<Rightarrow> kernel \<Rightarrow> task_id kernel_result" where
  "admit_task_on_cpu dbg cpu_id t w = with_cpu_mut cpu_id (admit_task dbg t) w"

definition withdraw_inactive_task :: "nat \<Rightarrow> task_id \<Rightarrow> kernel \<Rightarrow> bool kernel_result" where
  "withdraw_inactive_task cpu_id t w =
     with_cpu_mut cpu_id (\<lambda>s. let (r, s1) = remove_task t s in Returned (r \<noteq> None, s1)) w"

definition queue_wakeup :: "nat \<Rightarrow> nat \<Rightarrow> task_id \<Rightarrow> kernel \<Rightarrow> unit kernel_result" where
  "queue_wakeup me cpu_id t w =
     and_then (with_cpu_mut cpu_id (\<lambda>s. Returned ((), enqueue_wakeup t s)) w) (\<lambda>_ w1.
       Returned (Ok (), if me = cpu_id then preempt_request_local me w1 else notify_cpu me cpu_id w1))"

definition request_cancel :: "task_id \<Rightarrow> task_store \<Rightarrow> task_store" where
  "request_cancel t st = st(t := (st t)\<lparr>t_cancel := True\<rparr>)"

fun cancel_from :: "nat \<Rightarrow> task_id \<Rightarrow> nat list \<Rightarrow> kernel \<Rightarrow> bool kernel_result" where
  "cancel_from me t [] w = Returned (Ok False, w)"
| "cancel_from me t (cpu_id # cpus) w =
     (case task_on_cpu cpu_id t w of
        None \<Rightarrow> cancel_from me t cpus w
      | Some t \<Rightarrow>
          let w1 = w\<lparr>k_store := request_cancel t (k_store w)\<rparr>
          in and_then (queue_wakeup me (meta_cpu (t_meta (k_store w1 t))) t w1) (\<lambda>_ w2. Returned (Ok True, w2)))"

definition cancel_task :: "nat \<Rightarrow> task_id \<Rightarrow> kernel \<Rightarrow> bool kernel_result" where
  "cancel_task me t w = cancel_from me t [0..<cpu_count w] w"

text \<open>The loop of \<open>least_loaded_cpu\<close>: the candidates and the best weight, count and work flag.\<close>

fun least_loop :: "kernel \<Rightarrow> nat list \<Rightarrow> nat list \<times> nat \<times> nat \<times> bool \<Rightarrow> nat list \<times> nat \<times> nat \<times> bool" where
  "least_loop w [] acc = acc"
| "least_loop w (cpu_id # cpus) (candidates, best_weight, best_runnable, best_has_work) =
     least_loop w cpus
       (case with_cpu cpu_id (\<lambda>self. (has_runnable_work self, sc_total_weight self, runnable_task_count (self, k_store w))) w of
          Inl _ \<Rightarrow> (candidates, best_weight, best_runnable, best_has_work)
        | Inr (has_work, cpu_weight, runnable) \<Rightarrow>
            if cpu_weight < best_weight \<or> cpu_weight = best_weight \<and> runnable < best_runnable
               \<or> cpu_weight = best_weight \<and> runnable = best_runnable \<and> best_has_work \<and> \<not> has_work
            then ([cpu_id], cpu_weight, runnable, has_work)
            else if cpu_weight = best_weight \<and> runnable = best_runnable \<and> has_work = best_has_work
            then (candidates @ [cpu_id], best_weight, best_runnable, best_has_work)
            else (candidates, best_weight, best_runnable, best_has_work))"

definition fetch_hint :: "kernel \<Rightarrow> nat \<times> kernel" where
  "fetch_hint w = (k_hint w, w\<lparr>k_hint := (k_hint w + 1) mod 2 ^ 64\<rparr>)"

definition least_loaded_cpu :: "kernel \<Rightarrow> (nat \<times> kernel) outcome" where
  "least_loaded_cpu w =
     (let (candidates, _) = least_loop w [0..<cpu_count w] ([], u64_max, usize_max, True);
          (hint, w1) = fetch_hint w
      in if candidates = [] then Panicked else Returned (candidates ! (hint mod length candidates), w1))"

subsection \<open>Load balancing\<close>

definition LOAD_BALANCE_WEIGHT_THRESHOLD :: nat where
  "LOAD_BALANCE_WEIGHT_THRESHOLD = 1024"

definition LOAD_BALANCE_INTERVAL :: duration where
  "LOAD_BALANCE_INTERVAL = from_millis 1"

definition CACHE_HOT_THRESHOLD :: duration where
  "CACHE_HOT_THRESHOLD = from_micros 250"

fun source_loop :: "nat \<Rightarrow> kernel \<Rightarrow> nat list \<Rightarrow> nat list \<times> nat \<Rightarrow> nat list \<times> nat" where
  "source_loop self_cpu w [] acc = acc"
| "source_loop self_cpu w (cpu_id # cpus) (candidates, best_weight) =
     source_loop self_cpu w cpus
       (if cpu_id = self_cpu then (candidates, best_weight)
        else case with_cpu cpu_id (\<lambda>self. (has_runnable_work self, sc_total_weight self)) w of
          Inl _ \<Rightarrow> (candidates, best_weight)
        | Inr (has_work, cpu_weight) \<Rightarrow>
            if \<not> has_work \<or> cpu_weight = 0 then (candidates, best_weight)
            else if cpu_weight > best_weight then ([cpu_id], cpu_weight)
            else if cpu_weight = best_weight then (candidates @ [cpu_id], best_weight)
            else (candidates, best_weight))"

definition pick_source :: "nat \<Rightarrow> kernel \<Rightarrow> (nat \<times> nat) option \<times> kernel" where
  "pick_source self_cpu w =
     (let (candidates, best_weight) = source_loop self_cpu w [0..<cpu_count w] ([], 0)
      in if candidates = [] then (None, w)
         else let (index, w1) = fetch_hint w
              in (Some (candidates ! (index mod length candidates), best_weight), w1))"

definition migrate :: "bool \<Rightarrow> nat \<Rightarrow> nat \<Rightarrow> task_id \<Rightarrow> kernel \<Rightarrow> task_id kernel_result" where
  "migrate dbg me cpu_id t w =
     (let w1 = w\<lparr>k_store := set_migration_ready t False (k_store w)\<rparr>
      in and_then (admit_task_on_cpu dbg cpu_id t w1) (\<lambda>t w2. Returned (Ok t, notify_cpu me cpu_id w2)))"

text \<open>Take a task from \<open>cpu_id\<close> and mark that CPU rebalanced when there was one.\<close>

definition steal_from :: "bool \<Rightarrow> nat \<Rightarrow> instant \<Rightarrow> migration_policy \<Rightarrow> kernel \<Rightarrow> task_id option kernel_result" where
  "steal_from dbg cpu_id now policy w =
     with_cpu_mut cpu_id (\<lambda>s. do {
       (t, s1) \<leftarrow> take_migratable dbg now CACHE_HOT_THRESHOLD policy s;
       Returned (t, if t \<noteq> None then (mark_rebalanced (fst s1) now, snd s1) else s1)
     }) w"

definition mark_cpu_rebalanced :: "nat \<Rightarrow> instant \<Rightarrow> kernel \<Rightarrow> unit kernel_result" where
  "mark_cpu_rebalanced cpu_id now w =
     with_cpu_mut cpu_id (\<lambda>s. Returned ((), mark_rebalanced (fst s) now, snd s)) w"

definition request_remote :: "nat \<Rightarrow> nat \<Rightarrow> kernel \<Rightarrow> kernel" where
  "request_remote self_cpu source_cpu w = w\<lparr>k_requests := k_requests w @ [(source_cpu, self_cpu)]\<rparr>"

definition handle_remote_request :: "bool \<Rightarrow> nat \<Rightarrow> instant \<Rightarrow> nat \<Rightarrow> kernel \<Rightarrow> bool kernel_result" where
  "handle_remote_request dbg self_cpu now requester_cpu w =
     (if self_cpu = requester_cpu then Returned (Ok False, w)
      else case with_cpu self_cpu sc_total_weight w of
        Inl e \<Rightarrow> Returned (Err e, w)
      | Inr source_weight \<Rightarrow> (case with_cpu requester_cpu sc_total_weight w of
          Inl e \<Rightarrow> Returned (Err e, w)
        | Inr target_weight \<Rightarrow>
            if source_weight \<le> min (target_weight + LOAD_BALANCE_WEIGHT_THRESHOLD) u64_max then Returned (Ok False, w)
            else and_then (steal_from dbg self_cpu now BalanceRequest w) (\<lambda>r w1.
              case r of
                None \<Rightarrow> Returned (Ok False, w1)
              | Some t \<Rightarrow>
                  and_then (migrate dbg self_cpu requester_cpu t w1) (\<lambda>_ w2.
                    and_then (mark_cpu_rebalanced requester_cpu now w2) (\<lambda>_ w3. Returned (Ok True, w3))))))"

definition pull :: "bool \<Rightarrow> nat \<Rightarrow> instant \<Rightarrow> kernel \<Rightarrow> bool kernel_result" where
  "pull dbg self_cpu now w =
     (case cpu_slot self_cpu w of
        Inl e \<Rightarrow> Returned (Err e, w)
      | Inr self \<Rightarrow> do {
          due \<leftarrow> should_rebalance self now LOAD_BALANCE_INTERVAL;
          if \<not> due then Returned (Ok False, w)
          else case pick_source self_cpu w of
            (None, w1) \<Rightarrow> Returned (Ok False, w1)
          | (Some (source_cpu, source_weight), w1) \<Rightarrow>
              if source_weight \<le> min (sc_total_weight self + LOAD_BALANCE_WEIGHT_THRESHOLD) u64_max
              then Returned (Ok False, w1)
              else and_then (steal_from dbg source_cpu now Steal w1) (\<lambda>r w2.
                case r of
                  None \<Rightarrow>
                    and_then (mark_cpu_rebalanced self_cpu now w2) (\<lambda>_ w3.
                      Returned (Ok False, request_remote self_cpu source_cpu w3))
                | Some t \<Rightarrow>
                    and_then (migrate dbg self_cpu self_cpu t w2) (\<lambda>_ w3.
                      and_then (mark_cpu_rebalanced self_cpu now w3) (\<lambda>_ w4. Returned (Ok True, w4))))
        })"

subsection \<open>The timer\<close>

text \<open>
  The queue holds the keys (deadline, id) of the registered sleeps in order. Waking a sleeper calls
  the waker of its future: \<open>wakes t\<close> says that the executor then schedules task \<open>t\<close>, which it does
  unless the task is gone or already scheduled.
\<close>

definition key_before :: "instant \<times> nat \<Rightarrow> instant \<times> nat \<Rightarrow> bool" where
  "key_before a b \<longleftrightarrow> dur_less (fst a) (fst b) \<or> \<not> dur_less (fst b) (fst a) \<and> snd a < snd b"

fun timer_insert :: "instant \<times> nat \<Rightarrow> (instant \<times> nat) list \<Rightarrow> (instant \<times> nat) list" where
  "timer_insert k [] = [k]"
| "timer_insert k (x # xs) = (if k = x then k # xs else if key_before k x then k # x # xs else x # timer_insert k xs)"

definition set_sleep :: "nat \<Rightarrow> sleep_entry \<Rightarrow> kernel \<Rightarrow> kernel" where
  "set_sleep sid e w = w\<lparr>k_sleeps := (k_sleeps w)(sid := e)\<rparr>"

definition sleep_register :: "nat \<Rightarrow> kernel \<Rightarrow> bool \<times> kernel" where
  "sleep_register sid w =
     (\<not> se_registered (k_sleeps w sid), set_sleep sid ((k_sleeps w sid)\<lparr>se_registered := True\<rparr>) w)"

definition sleep_unregister :: "nat \<Rightarrow> kernel \<Rightarrow> bool \<times> kernel" where
  "sleep_unregister sid w =
     (se_registered (k_sleeps w sid), set_sleep sid ((k_sleeps w sid)\<lparr>se_registered := False\<rparr>) w)"

definition sleep_complete :: "nat \<Rightarrow> kernel \<Rightarrow> bool \<times> kernel" where
  "sleep_complete sid w =
     (\<not> se_completed (k_sleeps w sid), set_sleep sid ((k_sleeps w sid)\<lparr>se_completed := True\<rparr>) w)"

definition timer_register :: "nat \<Rightarrow> kernel \<Rightarrow> kernel" where
  "timer_register sid w = w\<lparr>k_timer := timer_insert (se_deadline (k_sleeps w sid), sid) (k_timer w)\<rparr>"

definition timer_unregister :: "nat \<Rightarrow> kernel \<Rightarrow> kernel" where
  "timer_unregister sid w = w\<lparr>k_timer := remove1 (se_deadline (k_sleeps w sid), sid) (k_timer w)\<rparr>"

definition sleep_poll :: "nat \<Rightarrow> task_id \<Rightarrow> instant \<Rightarrow> kernel \<Rightarrow> bool \<times> kernel" where
  "sleep_poll sid waker now w =
     (if se_completed (k_sleeps w sid) then (True, w)
      else let w1 = set_sleep sid ((k_sleeps w sid)\<lparr>se_waker := Some waker\<rparr>) w;
               (complete, w2) = (if dur_less now (se_deadline (k_sleeps w sid)) then (False, w1)
                                 else sleep_complete sid (snd (sleep_unregister sid w1)))
      in if complete then (True, w2)
      else let (fresh, w3) = sleep_register sid w2;
               w4 = (if fresh then timer_register sid w3 else w3)
      in (se_completed (k_sleeps w4 sid), w4))"

definition sleep_drop :: "nat \<Rightarrow> kernel \<Rightarrow> kernel" where
  "sleep_drop sid w =
     (if se_completed (k_sleeps w sid) then w
      else let (registered, w1) = sleep_unregister sid w
      in if registered then timer_unregister sid w1 else w1)"

text \<open>The schedule function of a task: its runnable goes into the slot and its CPU is woken.\<close>

definition schedule_runnable :: "nat \<Rightarrow> task_id \<Rightarrow> kernel \<Rightarrow> kernel outcome" where
  "schedule_runnable me t w = do {
     _ \<leftarrow> assert_that (\<not> t_runnable (k_store w t));
     let w1 = w\<lparr>k_store := (k_store w)(t := (k_store w t)\<lparr>t_runnable := True\<rparr>)\<rparr>;
     (_, w2) \<leftarrow> queue_wakeup me (meta_cpu (t_meta (k_store w1 t))) t w1;
     Returned w2
   }"

definition sleep_wake :: "(task_id \<Rightarrow> bool) \<Rightarrow> nat \<Rightarrow> nat \<Rightarrow> kernel \<Rightarrow> kernel outcome" where
  "sleep_wake wakes me sid w =
     (let w1 = set_sleep sid ((k_sleeps w sid)\<lparr>se_waker := None\<rparr>) w
      in case se_waker (k_sleeps w sid) of
           Some t \<Rightarrow> if wakes t then schedule_runnable me t w1 else Returned w1
         | None \<Rightarrow> Returned w1)"

fun timer_tick_loop :: "(task_id \<Rightarrow> bool) \<Rightarrow> nat \<Rightarrow> instant \<Rightarrow> (instant \<times> nat) list \<Rightarrow> kernel \<Rightarrow> kernel outcome" where
  "timer_tick_loop wakes me now [] w = Returned w"
| "timer_tick_loop wakes me now (key # queue) w =
     (if dur_less now (fst key) then Returned w
      else let w1 = snd (sleep_unregister (snd key) (w\<lparr>k_timer := queue\<rparr>));
               (complete, w2) = sleep_complete (snd key) w1
      in if complete
         then do { w3 \<leftarrow> sleep_wake wakes me (snd key) w2; timer_tick_loop wakes me now queue w3 }
         else timer_tick_loop wakes me now queue w2)"

definition timer_tick :: "(task_id \<Rightarrow> bool) \<Rightarrow> nat \<Rightarrow> instant \<Rightarrow> kernel \<Rightarrow> kernel outcome" where
  "timer_tick wakes me now w = timer_tick_loop wakes me now (k_timer w) w"

subsection \<open>Ticks and the next task\<close>

definition on_tick_for_cpu ::
    "bool \<Rightarrow> (task_id \<Rightarrow> bool) \<Rightarrow> nat \<Rightarrow> nat \<Rightarrow> instant \<Rightarrow> kernel \<Rightarrow> unit kernel_result" where
  "on_tick_for_cpu dbg wakes me cpu_id now w = do {
     let w1 = (if cpu_id = 0 then w\<lparr>k_cpu0_ticks := (k_cpu0_ticks w + 1) mod 2 ^ 64\<rparr> else w);
     w1' \<leftarrow> timer_tick wakes me now w1;
     and_then (with_cpu_mut cpu_id (on_tick dbg now) w1') (\<lambda>should_reschedule w2.
       and_then (pull dbg cpu_id now w2) (\<lambda>pulled w3.
         Returned (Ok (), if should_reschedule \<or> pulled then preempt_request_local me w3 else w3)))
   }"

definition take_next_task_on_cpu :: "bool \<Rightarrow> nat \<Rightarrow> instant \<Rightarrow> kernel \<Rightarrow> task_id option kernel_result" where
  "take_next_task_on_cpu dbg cpu_id now w =
     and_then (with_cpu_mut cpu_id (drain_wakeups dbg) w) (\<lambda>_ w1.
       and_then (with_cpu_mut cpu_id (take_next dbg now) w1) (\<lambda>next_task w2.
         case next_task of
           Some t \<Rightarrow> Returned (Ok (Some t), w2)
         | None \<Rightarrow>
             and_then (pull dbg cpu_id now w2) (\<lambda>pulled w3.
               if pulled
               then and_then (with_cpu_mut cpu_id (drain_wakeups dbg) w3) (\<lambda>_ w4.
                 with_cpu_mut cpu_id (take_next dbg now) w4)
               else Returned (Ok None, w3))))"

end
