(* ===== verification/Sched_Dispatch.thy ===== *)
theory Sched_Dispatch
  imports Sched_Cpus
begin

text \<open>
  The dispatcher (\<open>kernel/src/sched/dispatch.rs\<close>), the fallback stacks (\<open>stack.rs\<close>) and the trap entry
  \<open>schedule_current_cpu\<close> (\<open>scheduler.rs\<close>). What lies outside the scheduler is an argument: the result
  of running the future of a task, whether the address space of a task has a root, the clock, and the
  sibling tasks that the process table asks to cancel when a task is reaped.
\<close>

subsection \<open>Fallback stacks\<close>

definition DEFAULT_STACK_PAGES :: nat where
  "DEFAULT_STACK_PAGES = 4"

definition GUARD_PAGES :: nat where
  "GUARD_PAGES = 1"

definition fallback_layout :: "nat \<Rightarrow> guarded_stack_layout option" where
  "fallback_layout cpu_id = do {
     reserved_pages \<leftarrow> checked_add DEFAULT_STACK_PAGES GUARD_PAGES;
     slot_size \<leftarrow> checked_mul_u64 reserved_pages PAGE_SIZE;
     offset \<leftarrow> checked_mul_u64 cpu_id slot_size;
     base \<leftarrow> checked_add (segment_start vm_layout_segment.KernelStack) offset;
     stack_size \<leftarrow> checked_mul_u64 DEFAULT_STACK_PAGES PAGE_SIZE;
     from_low_base base stack_size
   }"

definition fallback_contains :: "nat \<Rightarrow> usize \<Rightarrow> bool outcome" where
  "fallback_contains cpu_id rsp =
     map_option (\<lambda>layout. range_contains (guard layout) rsp \<or> range_contains (stack layout) rsp) (fallback_layout cpu_id)"

subsection \<open>Running a task\<close>

text \<open>
  What running the future did: whether it yielded, the exit it recorded, and whether it was
  scheduled again, which fills the runnable slot.
\<close>

record run_result =
  run_yielded :: bool
  run_exit :: "task_exit option"
  run_requeued :: bool

definition poll_once :: "run_result \<Rightarrow> task \<Rightarrow> task_poll_outcome \<times> task" where
  "poll_once run self =
     (if \<not> t_runnable self then (PollBlocked, self)
      else let self1 = self\<lparr>t_runnable := run_requeued run,
                            t_exit := (if run_exit run \<noteq> None then run_exit run else t_exit self)\<rparr>;
               self2 = self1\<lparr>t_exit := None\<rparr>
      in case t_exit self1 of
           Some exit \<Rightarrow> (PollExited exit, self2)
         | None \<Rightarrow> (if run_yielded run \<or> t_runnable self2 then PollReady else PollBlocked, self2))"

definition publish_boundary :: "task_boundary_action \<Rightarrow> task \<Rightarrow> task outcome" where
  "publish_boundary action self =
     do { _ \<leftarrow> assert_that (t_boundary self = None); Returned (self\<lparr>t_boundary := Some action\<rparr>) }"

definition dispatch_task :: "run_result \<Rightarrow> task \<Rightarrow> task outcome" where
  "dispatch_task run self =
     (let self1 = self\<lparr>t_started := True, t_migration_ready := False\<rparr>
      in if t_cancel self1 then publish_boundary BoundaryCancelled self1
         else let (outcome, self2) = poll_once run self1
              in publish_boundary (BoundaryOutcome outcome) self2)"

text \<open>One pass of the runner up to the local reschedule trap.\<close>

definition dispatch_current_task :: "nat \<Rightarrow> run_result \<Rightarrow> kernel \<Rightarrow> kernel outcome" where
  "dispatch_current_task me run w = do {
     t \<leftarrow> current_task_on_cpu me w;
     tk \<leftarrow> dispatch_task run (k_store w t);
     Returned (w\<lparr>k_store := (k_store w)(t := tk)\<rparr>)
   }"

definition defer_migration_ready :: "nat \<Rightarrow> task_id \<Rightarrow> kernel \<Rightarrow> kernel" where
  "defer_migration_ready me t w = w\<lparr>k_deferred := (k_deferred w)(me := t)\<rparr>"

definition flush_deferred_migration_ready :: "nat \<Rightarrow> kernel \<Rightarrow> kernel" where
  "flush_deferred_migration_ready me w =
     (let t = k_deferred w me; w1 = w\<lparr>k_deferred := (k_deferred w)(me := 0)\<rparr>
      in if t = 0 then w1
         else case task_on_cpu me t w1 of
           None \<Rightarrow> w1
         | Some t \<Rightarrow> w1\<lparr>k_store := set_migration_ready t True (k_store w1)\<rparr>)"

subsection \<open>The next frame\<close>

datatype resume_frame = TaskFrame task_id | IdleFrame

definition select_next_or_idle_frame ::
    "bool \<Rightarrow> nat \<Rightarrow> (task_id \<Rightarrow> bool) \<Rightarrow> instant option \<Rightarrow> kernel \<Rightarrow> (resume_frame \<times> kernel) outcome" where
  "select_next_or_idle_frame dbg me has_root clock w = do {
     let now = (case clock of None \<Rightarrow> from_nanos 0 | Some n \<Rightarrow> n);
     (r, w1) \<leftarrow> take_next_task_on_cpu dbg me now w;
     Returned (case r of
         Inr (Some t) \<Rightarrow> if has_root t then TaskFrame t else IdleFrame
       | _ \<Rightarrow> IdleFrame, w1)
   }"

text \<open>Errors of \<open>cancel_task\<close> are logged and the loop goes on.\<close>

fun reap_finished_task :: "nat \<Rightarrow> task_id list \<Rightarrow> kernel \<Rightarrow> kernel outcome" where
  "reap_finished_task me [] w = Returned w"
| "reap_finished_task me (sibling # cancel) w = do {
     (_, w1) \<leftarrow> cancel_task me sibling w;
     reap_finished_task me cancel w1
   }"

record trap_context =
  tc_kernel_mode :: bool
  tc_stack_pointer :: usize

text \<open>The world outside the scheduler at one trap.\<close>

record trap_env =
  te_clock :: "instant option"
  te_next_clock :: "instant option"
  te_has_root :: "task_id \<Rightarrow> bool"
  te_siblings :: "task_id \<Rightarrow> task_id list"

definition take_boundary_action :: "task_id \<Rightarrow> kernel \<Rightarrow> task_boundary_action option \<times> kernel" where
  "take_boundary_action t w =
     (t_boundary (k_store w t), w\<lparr>k_store := (k_store w)(t := (k_store w t)\<lparr>t_boundary := None\<rparr>)\<rparr>)"

definition current_boundary :: "nat \<Rightarrow> kernel \<Rightarrow> task_boundary_action option \<times> kernel" where
  "current_boundary me w =
     (case current_task_on_cpu me w of None \<Rightarrow> (None, w) | Some t \<Rightarrow> take_boundary_action t w)"

definition select_frame ::
    "bool \<Rightarrow> nat \<Rightarrow> trap_env \<Rightarrow> kernel \<Rightarrow> resume_frame option kernel_result" where
  "select_frame dbg me env w = do {
     let w1 = flush_deferred_migration_ready me w;
     (frame, w2) \<leftarrow> select_next_or_idle_frame dbg me (te_has_root env) (te_next_clock env) w1;
     Returned (Ok (Some frame), w2)
   }"

definition finish_boundary ::
    "bool \<Rightarrow> nat \<Rightarrow> trap_env \<Rightarrow> trap_boundary_finalize \<Rightarrow> kernel \<Rightarrow> resume_frame option kernel_result" where
  "finish_boundary dbg me env finalized w = do {
     let w1 = (case tb_migration_ready finalized of None \<Rightarrow> w | Some t \<Rightarrow> defer_migration_ready me t w);
     w2 \<leftarrow> (case tb_reaped finalized of None \<Rightarrow> Returned w1 | Some t \<Rightarrow> reap_finished_task me (te_siblings env t) w1);
     select_frame dbg me env (snd (preempt_take_local me w2))
   }"

definition schedule_current_cpu ::
    "bool \<Rightarrow> nat \<Rightarrow> trap_env \<Rightarrow> trap_context \<Rightarrow> kernel \<Rightarrow> resume_frame option kernel_result" where
  "schedule_current_cpu dbg me env ctx w =
     (if \<not> tc_kernel_mode ctx then Returned (Ok None, w)
      else case cpu_slot me w of
        Inl e \<Rightarrow> Returned (Err e, w)
      | Inr _ \<Rightarrow> do {
          on_fallback \<leftarrow> fallback_contains me (tc_stack_pointer ctx);
          if on_fallback
          then let (pending, w1) = preempt_take_local me w
               in if pending \<or> cpu_has_work me w1 then select_frame dbg me env w1 else Returned (Ok None, w1)
          else case current_boundary me w of
            (Some boundary, w1) \<Rightarrow>
              and_then (with_cpu_mut me (finalize_current_boundary dbg (tc_stack_pointer ctx) boundary (te_clock env)) w1)
                (\<lambda>finalized w2.
                  case finalized of
                    None \<Rightarrow> Returned (Ok None, w2)
                  | Some f \<Rightarrow> finish_boundary dbg me env f w2)
          | (None, w1) \<Rightarrow>
              if k_preempt_count w1 me > 0 \<or> \<not> k_need_resched w1 me then Returned (Ok None, w1)
              else and_then (with_cpu_mut me (save_preempted_current dbg (tc_stack_pointer ctx) (te_clock env)) w1)
                (\<lambda>saved w2.
                  case saved of
                    None \<Rightarrow> Returned (Ok None, w2)
                  | Some t \<Rightarrow> select_frame dbg me env (defer_migration_ready me t (snd (preempt_take_local me w2))))
        })"

end
