(* ===== verification/Sched_World.thy ===== *)
theory Sched_World
  imports Sched_Dispatch
begin

text \<open>
  The invariant of all schedulers together: every CPU's scheduler is well formed, and no task is in
  the tables of two CPUs. The lemmas lift the single-CPU results to the operations that take the lock
  of a CPU, and to the ones that move a task between CPUs.
\<close>

subsection \<open>Invariant\<close>

definition cpu_at :: "kernel \<Rightarrow> nat \<Rightarrow> scheduler \<Rightarrow> bool" where
  "cpu_at w i self \<longleftrightarrow> i < length (k_slots w) \<and> k_slots w ! i = Some self"

definition all_tasks :: "kernel \<Rightarrow> task_id set" where
  "all_tasks w = {t. \<exists>i self. cpu_at w i self \<and> t \<in> set (sc_tasks self)}"

definition kernel_ok :: "kernel \<Rightarrow> bool" where
  "kernel_ok w \<longleftrightarrow>
     (\<forall>i self. cpu_at w i self \<longrightarrow> sc_cpu self = i \<and> sched_ok (self, k_store w))
     \<and> (\<forall>i j self other. cpu_at w i self \<longrightarrow> cpu_at w j other \<longrightarrow> i \<noteq> j \<longrightarrow> set (sc_tasks self) \<inter> set (sc_tasks other) = {})
     \<and> sum (weight_of (k_store w)) (all_tasks w) \<le> u64_max"

lemma cpu_slot_iff: "cpu_slot i w = Ok self \<longleftrightarrow> cpu_at w i self"
  by (auto simp: cpu_slot_def cpu_at_def ok_or_def split: option.splits)

lemma cpu_at_fun: "cpu_at w i a \<Longrightarrow> cpu_at w i b \<Longrightarrow> a = b"
  by (simp add: cpu_at_def)

lemma kernel_okD:
  assumes "kernel_ok w" and "cpu_at w i self"
  shows "sc_cpu self = i" "sched_ok (self, k_store w)"
    "\<And>j other. cpu_at w j other \<Longrightarrow> i \<noteq> j \<Longrightarrow> set (sc_tasks self) \<inter> set (sc_tasks other) = {}"
  using assms unfolding kernel_ok_def by blast+

lemma finite_all_tasks [simp]: "finite (all_tasks w)"
proof -
  have "all_tasks w \<subseteq> (\<Union>s \<in> set (k_slots w). case s of None \<Rightarrow> {} | Some self \<Rightarrow> set (sc_tasks self))"
    unfolding all_tasks_def cpu_at_def by (fastforce dest: nth_mem)
  then show ?thesis by (rule finite_subset) (auto split: option.split)
qed

lemma cpu_at_put:
  assumes "cpu_at w i self"
  shows "cpu_at (put_cpu i s w) j other \<longleftrightarrow> (if j = i then other = fst s else cpu_at w j other)"
  using assms by (auto simp: cpu_at_def put_cpu_def nth_list_update)

lemma put_cpu_store [simp]: "k_store (put_cpu i s w) = snd s"
  by (simp add: put_cpu_def)

lemma all_tasks_put:
  assumes "cpu_at w i self"
  shows "all_tasks (put_cpu i s w) = set (sc_tasks (fst s)) \<union> {t. \<exists>j other. j \<noteq> i \<and> cpu_at w j other \<and> t \<in> set (sc_tasks other)}"
  unfolding all_tasks_def cpu_at_put [OF assms] by auto

lemma all_tasks_split:
  assumes "cpu_at w i self"
  shows "all_tasks w = set (sc_tasks self) \<union> {t. \<exists>j other. j \<noteq> i \<and> cpu_at w j other \<and> t \<in> set (sc_tasks other)}"
proof (intro set_eqI iffI)
  fix t
  assume "t \<in> all_tasks w"
  then obtain j other where j: "cpu_at w j other" "t \<in> set (sc_tasks other)" unfolding all_tasks_def by blast
  then show "t \<in> set (sc_tasks self) \<union> {t. \<exists>j other. j \<noteq> i \<and> cpu_at w j other \<and> t \<in> set (sc_tasks other)}"
    using cpu_at_fun [OF assms, of other] by (cases "j = i") auto
qed (use assms in \<open>auto simp: all_tasks_def\<close>)

text \<open>One CPU's scheduler and the store change; the tasks of the other CPUs keep state and metadata.\<close>

lemma kernel_ok_put:
  assumes w: "kernel_ok w" and at: "cpu_at w i self" and ok: "sched_ok s'" and cpu: "sc_cpu (fst s') = i"
    and same: "\<And>u. u \<in> all_tasks w \<Longrightarrow> u \<notin> set (sc_tasks self) \<Longrightarrow> same_task (snd s' u) (k_store w u)"
    and disj: "\<And>j other. j \<noteq> i \<Longrightarrow> cpu_at w j other \<Longrightarrow> set (sc_tasks (fst s')) \<inter> set (sc_tasks other) = {}"
    and wt: "sum (weight_of (snd s')) (all_tasks (put_cpu i s' w)) \<le> u64_max"
  shows "kernel_ok (put_cpu i s' w)"
proof -
  have other: "sched_ok (other, snd s')" if j: "cpu_at w j other" "j \<noteq> i" for j other
  proof (rule sched_core_cong [OF kernel_okD(2) [OF w j(1)]])
    fix u assume u: "u \<in> set (sc_tasks other)"
    then have "u \<in> all_tasks w" using j(1) unfolding all_tasks_def by blast
    moreover have "u \<notin> set (sc_tasks self)" using kernel_okD(3) [OF w at j(1)] j(2) u by blast
    ultimately show "same_task (snd s' u) (k_store w u)" by (rule same)
  qed
  show ?thesis
    unfolding kernel_ok_def cpu_at_put [OF at] put_cpu_store
  proof (intro conjI allI impI)
    fix j other
    assume j: "if j = i then other = fst s' else cpu_at w j other"
    show "sc_cpu other = j" using j cpu kernel_okD(1) [OF w] by (auto split: if_splits)
    show "sched_ok (other, snd s')" using j ok other by (auto split: if_splits)
  next
    fix j k a b
    assume "if j = i then a = fst s' else cpu_at w j a" "if k = i then b = fst s' else cpu_at w k b" "j \<noteq> k"
    then show "set (sc_tasks a) \<inter> set (sc_tasks b) = {}"
      using disj kernel_okD(3) [OF w] by (metis Int_commute)
  qed (rule wt)
qed

lemma same_weights:
  assumes "\<And>u. u \<in> A \<Longrightarrow> weight_of st' u = weight_of st u"
  shows "sum (weight_of st') A = sum (weight_of st) A"
  using assms by (rule sum.cong [OF refl])

text \<open>The parts of the kernel state that the invariant reads.\<close>

lemma cpu_at_cong: "k_slots w' = k_slots w \<Longrightarrow> cpu_at w' i self = cpu_at w i self"
  by (simp add: cpu_at_def)

lemma all_tasks_cong: "k_slots w' = k_slots w \<Longrightarrow> all_tasks w' = all_tasks w"
  by (simp add: all_tasks_def cpu_at_def)

lemma kernel_ok_cong:
  assumes w: "kernel_ok w" and s: "k_slots w' = k_slots w"
    and t: "\<And>u. u \<in> all_tasks w \<Longrightarrow> same_task (k_store w' u) (k_store w u)"
  shows "kernel_ok w'"
proof -
  have "sched_ok (self, k_store w')" if c: "cpu_at w i self" for i self
    using kernel_okD(2) [OF w c]
    by (rule sched_core_cong) (use c t in \<open>auto simp: all_tasks_def\<close>)
  moreover have "sum (weight_of (k_store w')) (all_tasks w) = sum (weight_of (k_store w)) (all_tasks w)"
    by (rule same_weights) (use t in \<open>auto simp: same_task_def\<close>)
  ultimately show ?thesis
    using w unfolding kernel_ok_def cpu_at_cong [OF s] all_tasks_cong [OF s] by simp
qed

subsection \<open>Lifting the single-CPU results\<close>

lemma put_ok_after:
  assumes w: "kernel_ok w" and at: "cpu_at w i self" and o: "ok_after (self, k_store w) s'"
  shows "kernel_ok (put_cpu i s' w)" "all_tasks (put_cpu i s' w) = all_tasks w"
proof -
  have k: "sched_ok s'" "sc_cpu (fst s') = i" "sc_tasks (fst s') = sc_tasks self"
    "\<And>u. u \<notin> set (sc_tasks self) \<Longrightarrow> same_task (snd s' u) (k_store w u)"
    "\<And>u. weight (t_meta (snd s' u)) = weight (t_meta (k_store w u))"
    using o kernel_okD(1) [OF w at] by (auto simp: ok_after_def keeps_def)
  show a: "all_tasks (put_cpu i s' w) = all_tasks w"
    unfolding all_tasks_put [OF at] all_tasks_split [OF at] k(3) ..
  have "sum (weight_of (snd s')) (all_tasks w) = sum (weight_of (k_store w)) (all_tasks w)"
    by (rule same_weights) (simp add: k(5))
  then have "sum (weight_of (snd s')) (all_tasks (put_cpu i s' w)) \<le> u64_max"
    using w unfolding a kernel_ok_def by simp
  then show "kernel_ok (put_cpu i s' w)"
    by (intro kernel_ok_put [OF w at k(1,2)]) (use k kernel_okD(3) [OF w at] in auto)
qed

lemma put_leaves:
  assumes w: "kernel_ok w" and at: "cpu_at w i self" and l: "leaves t (self, k_store w) s'"
  shows "kernel_ok (put_cpu i s' w)" "all_tasks (put_cpu i s' w) = all_tasks w - {t}" "t \<in> all_tasks w"
    "sum (weight_of (snd s')) (all_tasks (put_cpu i s' w)) + weight_of (snd s') t \<le> u64_max"
proof -
  have k: "sched_ok s'" "t \<in> set (sc_tasks self)" "sc_cpu (fst s') = i" "sc_tasks (fst s') = remove1 t (sc_tasks self)"
    "\<And>u. u \<notin> set (sc_tasks self) \<Longrightarrow> same_task (snd s' u) (k_store w u)"
    "\<And>u. weight (t_meta (snd s' u)) = weight (t_meta (k_store w u))"
    using l kernel_okD(1) [OF w at] by (auto simp: leaves_def)
  have r: "set (sc_tasks (fst s')) = set (sc_tasks self) - {t}"
    unfolding k(4) using sched_coreD(1) [OF kernel_okD(2) [OF w at]] by simp
  show t: "t \<in> all_tasks w" unfolding all_tasks_split [OF at] using k(2) by blast
  have "t \<notin> set (sc_tasks other)" if "j \<noteq> i" "cpu_at w j other" for j other
    using kernel_okD(3) [OF w at that(2)] that(1) k(2) by blast
  then show a: "all_tasks (put_cpu i s' w) = all_tasks w - {t}"
    unfolding all_tasks_put [OF at] all_tasks_split [OF at] r by blast
  have "sum (weight_of (snd s')) (all_tasks w) = sum (weight_of (k_store w)) (all_tasks w)"
    by (rule same_weights) (simp add: k(6))
  then have all: "sum (weight_of (snd s')) (all_tasks w) \<le> u64_max" using w unfolding kernel_ok_def by simp
  then show s: "sum (weight_of (snd s')) (all_tasks (put_cpu i s' w)) + weight_of (snd s') t \<le> u64_max"
    unfolding a using sum.remove [OF finite_all_tasks t, of "weight_of (snd s')"] by simp
  show "kernel_ok (put_cpu i s' w)"
  proof (rule kernel_ok_put [OF w at k(1,3)])
    show "set (sc_tasks (fst s')) \<inter> set (sc_tasks other) = {}" if "j \<noteq> i" "cpu_at w j other" for j other
      using kernel_okD(3) [OF w at that(2)] that(1) r by blast
    show "sum (weight_of (snd s')) (all_tasks (put_cpu i s' w)) \<le> u64_max" using s by simp
  qed (use k(5) in blast)
qed

lemma put_enters:
  assumes w: "kernel_ok w" and at: "cpu_at w i self" and e: "enters t (self, k_store w) s'" and t: "t \<notin> all_tasks w"
    and b: "sum (weight_of (k_store w)) (all_tasks w) + weight_of (k_store w) t \<le> u64_max"
  shows "kernel_ok (put_cpu i s' w)" "all_tasks (put_cpu i s' w) = insert t (all_tasks w)"
proof -
  have k: "sched_ok s'" "sc_cpu (fst s') = i" "sc_tasks (fst s') = t # sc_tasks self"
    "\<And>u. u \<notin> set (sc_tasks self) \<Longrightarrow> u \<noteq> t \<Longrightarrow> same_task (snd s' u) (k_store w u)"
    "\<And>u. weight (t_meta (snd s' u)) = weight (t_meta (k_store w u))"
    using e kernel_okD(1) [OF w at] by (auto simp: enters_def)
  show a: "all_tasks (put_cpu i s' w) = insert t (all_tasks w)"
    unfolding all_tasks_put [OF at] all_tasks_split [OF at] k(3) by auto
  have "sum (weight_of (snd s')) (insert t (all_tasks w)) = sum (weight_of (k_store w)) (insert t (all_tasks w))"
    by (rule same_weights) (simp add: k(5))
  then have s: "sum (weight_of (snd s')) (all_tasks (put_cpu i s' w)) \<le> u64_max" unfolding a using b t by simp
  have nt: "t \<notin> set (sc_tasks other)" if "cpu_at w j other" for j other
    using t that unfolding all_tasks_def by blast
  show "kernel_ok (put_cpu i s' w)"
  proof (rule kernel_ok_put [OF w at k(1,2) _ _ s])
    show "set (sc_tasks (fst s')) \<inter> set (sc_tasks other) = {}" if "j \<noteq> i" "cpu_at w j other" for j other
      using kernel_okD(3) [OF w at that(2)] that(1) nt [OF that(2)] k(3) by auto
    show "same_task (snd s' u) (k_store w u)" if "u \<in> all_tasks w" "u \<notin> set (sc_tasks self)" for u
      using k(4) that t by blast
  qed
qed

end
