(* ===== verification/Sched_Kernel.thy ===== *)
theory Sched_Kernel
  imports Sched_World
begin

text \<open>
  The operations on the schedulers of all CPUs return in release builds, keep the invariant and
  every task: rules for results that carry the state, and one lemma per operation.
\<close>

subsection \<open>Rules\<close>

definition returns :: "'a kernel_result \<Rightarrow> (('a, scheduler_error) result \<Rightarrow> kernel \<Rightarrow> bool) \<Rightarrow> bool" where
  "returns m P \<longleftrightarrow> (\<exists>r w. m = Returned (r, w) \<and> P r w)"

lemma returns_ret [simp]: "returns (Returned (r, w)) P \<longleftrightarrow> P r w"
  by (simp add: returns_def)

lemma returns_mono: "returns m P \<Longrightarrow> (\<And>r w. P r w \<Longrightarrow> Q r w) \<Longrightarrow> returns m Q"
  unfolding returns_def by blast

lemma returns_and_then:
  assumes "returns m Q" and "\<And>e w. Q (Err e) w \<Longrightarrow> P (Err e) w" and "\<And>a w. Q (Ok a) w \<Longrightarrow> returns (k a w) P"
  shows "returns (and_then m k) P"
proof -
  obtain r w where m: "m = Returned (r, w)" "Q r w" using assms(1) unfolding returns_def by blast
  show ?thesis
  proof (cases r)
    case (Inl e)
    then show ?thesis using assms(2) m by (simp add: and_then_def)
  next
    case (Inr a)
    then show ?thesis using assms(3) [of a w] m by (simp add: and_then_def)
  qed
qed

lemma returns_mut:
  assumes "\<And>e. P (Err e) w"
    and "\<And>self. cpu_at w i self \<Longrightarrow> \<exists>a s'. f (self, k_store w) = Returned (a, s') \<and> P (Ok a) (put_cpu i s' w)"
  shows "returns (with_cpu_mut i f w) P"
proof (cases "cpu_slot i w")
  case (Inl e)
  then show ?thesis using assms(1) by (simp add: with_cpu_mut_def)
next
  case (Inr self)
  then obtain a s' where "f (self, k_store w) = Returned (a, s')" "P (Ok a) (put_cpu i s' w)"
    using assms(2) [of self] cpu_slot_iff by blast
  then show ?thesis using Inr by (simp add: with_cpu_mut_def)
qed

text \<open>No CPU starts to run a task, and every task stays in the tables.\<close>

definition idle :: "kernel \<Rightarrow> nat \<Rightarrow> bool" where
  "idle w i \<longleftrightarrow> (\<forall>self. cpu_at w i self \<longrightarrow> sc_current self = None)"

definition steady :: "kernel \<Rightarrow> kernel \<Rightarrow> bool" where
  "steady w w' \<longleftrightarrow> kernel_ok w' \<and> all_tasks w' = all_tasks w \<and> (\<forall>i. idle w i \<longrightarrow> idle w' i)"

lemma steady_refl: "kernel_ok w \<Longrightarrow> steady w w"
  by (simp add: steady_def)

lemma steady_trans: "steady a b \<Longrightarrow> steady b c \<Longrightarrow> steady a c"
  by (simp add: steady_def)

lemma steady_cong:
  assumes "kernel_ok w" and "k_slots w' = k_slots w" and "\<And>u. same_task (k_store w' u) (k_store w u)"
  shows "steady w w'"
  using kernel_ok_cong [OF assms(1,2)] assms(3) all_tasks_cong [OF assms(2)] cpu_at_cong [OF assms(2)]
  by (simp add: steady_def idle_def)

lemma idle_put:
  assumes "cpu_at w i self" and "sc_current (fst s') = sc_current self"
  shows "idle (put_cpu i s' w) j \<longleftrightarrow> idle w j"
proof (cases "j = i")
  case True
  have "idle w i \<longleftrightarrow> sc_current self = None" unfolding idle_def using assms(1) by (metis cpu_at_fun)
  then show ?thesis using True assms(2) unfolding idle_def cpu_at_put [OF assms(1)] by simp
next
  case False
  then show ?thesis unfolding idle_def cpu_at_put [OF assms(1)] by simp
qed

lemma steady_put:
  assumes "kernel_ok w" and "cpu_at w i self" and "ok_after (self, k_store w) s'" and "sc_current (fst s') = sc_current self"
  shows "steady w (put_cpu i s' w)"
  using put_ok_after [OF assms(1-3)] idle_put [OF assms(2,4)] by (simp add: steady_def)

lemma returns_steady_mut:
  assumes "kernel_ok w"
    and "\<And>self. sched_ok (self, k_store w) \<Longrightarrow> \<exists>a s'. f (self, k_store w) = Returned (a, s')
           \<and> ok_after (self, k_store w) s' \<and> sc_current (fst s') = sc_current self"
  shows "returns (with_cpu_mut i f w) (\<lambda>_ w'. steady w w')"
proof (rule returns_mut)
  fix self
  assume at: "cpu_at w i self"
  then obtain a s' where "f (self, k_store w) = Returned (a, s')" "ok_after (self, k_store w) s'" "sc_current (fst s') = sc_current self"
    using assms(2) [OF kernel_okD(2) [OF assms(1) at]] by blast
  then show "\<exists>a s'. f (self, k_store w) = Returned (a, s') \<and> steady w (put_cpu i s' w)"
    using steady_put [OF assms(1) at] by blast
qed (use assms(1) in \<open>simp add: steady_refl\<close>)

lemma steadyD: "steady w w' \<Longrightarrow> kernel_ok w'"
  by (simp add: steady_def)

subsection \<open>Wakeups and cancellation\<close>

lemma enqueue_current: "sc_current (fst (enqueue_wakeup t s)) = sc_current (fst s)"
  by (simp add: enqueue_wakeup_def try_mark_wake_queued_def)

lemma queue_wakeup_ok:
  assumes "kernel_ok w"
  shows "returns (queue_wakeup me cpu t w) (\<lambda>_ w'. steady w w')"
  unfolding queue_wakeup_def
proof (rule returns_and_then [where Q = "\<lambda>_ w'. steady w w'"])
  show "returns (with_cpu_mut cpu (\<lambda>s. Returned ((), enqueue_wakeup t s)) w) (\<lambda>_ w'. steady w w')"
    by (rule returns_steady_mut [OF assms]) (use enqueue_wakeup_ok enqueue_current in fastforce)
  fix w1
  assume s: "steady w w1"
  have "steady w1 (if me = cpu then preempt_request_local me w1 else notify_cpu me cpu w1)"
    by (rule steady_cong [OF steadyD [OF s]]) (simp_all add: preempt_request_local_def notify_cpu_def)
  then show "returns (Returned (Ok (), if me = cpu then preempt_request_local me w1 else notify_cpu me cpu w1)) (\<lambda>_ w'. steady w w')"
    using steady_trans [OF s] by simp
qed simp

lemma task_on_cpu_id: "task_on_cpu cpu t w = None \<or> task_on_cpu cpu t w = Some t"
  by (simp add: task_on_cpu_def with_cpu_def split: sum.split)

lemma cancel_from_ok:
  assumes "kernel_ok w"
  shows "returns (cancel_from me t cpus w) (\<lambda>_ w'. steady w w')"
proof (induction cpus)
  case Nil
  then show ?case using assms by (simp add: steady_refl)
next
  case (Cons cpu cpus)
  let ?w1 = "w\<lparr>k_store := request_cancel t (k_store w)\<rparr>"
  have s: "steady w ?w1" by (rule steady_cong [OF assms]) (simp_all add: request_cancel_def same_task_def)
  have "returns (and_then (queue_wakeup me (meta_cpu (t_meta (k_store ?w1 t))) t ?w1) (\<lambda>_ w2. Returned (Ok True, w2)))
      (\<lambda>_ w'. steady w w')"
    by (rule returns_and_then [OF returns_mono [OF queue_wakeup_ok [OF steadyD [OF s]] steady_trans [OF s]]]) simp_all
  then show ?case using Cons.IH task_on_cpu_id [of cpu t w] by (auto simp: Let_def)
qed

lemma cancel_task_ok: "kernel_ok w \<Longrightarrow> returns (cancel_task me t w) (\<lambda>_ w'. steady w w')"
  unfolding cancel_task_def by (rule cancel_from_ok)

lemma reap_ok:
  assumes "kernel_ok w"
  shows "\<exists>w'. reap_finished_task me cancel w = Returned w' \<and> steady w w'"
  using assms
proof (induction cancel arbitrary: w)
  case Nil
  then show ?case by (simp add: steady_refl)
next
  case (Cons t cancel)
  obtain r w1 where "cancel_task me t w = Returned (r, w1)" "steady w w1"
    using cancel_task_ok [OF Cons.prems] unfolding returns_def by blast
  moreover obtain w2 where "reap_finished_task me cancel w1 = Returned w2" "steady w1 w2"
    using Cons.IH [OF steadyD [OF \<open>steady w w1\<close>]] by blast
  ultimately show ?case using steady_trans by auto
qed

subsection \<open>Entering a table\<close>

definition fresh :: "kernel \<Rightarrow> task_id \<Rightarrow> bool" where
  "fresh w t \<longleftrightarrow> t \<notin> all_tasks w \<and> exec_start (t_meta (k_store w t)) = None \<and> ts_terminal (t_state (k_store w t)) = None
     \<and> vruntime (t_meta (k_store w t)) \<le> u128_max
     \<and> sum (weight_of (k_store w)) (all_tasks w) + weight_of (k_store w) t \<le> u64_max"

definition gains :: "task_id \<Rightarrow> kernel \<Rightarrow> kernel \<Rightarrow> bool" where
  "gains t w w' \<longleftrightarrow> kernel_ok w' \<and> all_tasks w' = insert t (all_tasks w) \<and> (\<forall>i. idle w i \<longrightarrow> idle w' i)"

lemma fresh_admissible:
  assumes w: "kernel_ok w" and f: "fresh w t" and at: "cpu_at w i self"
  shows "admissible self (k_store w) t"
proof -
  have sub: "set (sc_tasks self) \<subseteq> all_tasks w" using at unfolding all_tasks_def by blast
  have "sum (weight_of (k_store w)) (set (sc_tasks self)) \<le> sum (weight_of (k_store w)) (all_tasks w)"
    by (rule sum_mono2 [OF finite_all_tasks sub]) simp
  then show ?thesis using f sub unfolding fresh_def admissible_def by auto
qed

lemma admit_on_cpu_ok:
  assumes w: "kernel_ok w" and f: "fresh w t" and at: "cpu_at w i self"
  shows "returns (admit_task_on_cpu False i t w) (\<lambda>r w'. r = Ok t \<and> gains t w w')"
proof -
  obtain s' where s': "admit_task False t (self, k_store w) = Returned (t, s')" "enters t (self, k_store w) s'"
    "sc_current (fst s') = sc_current self"
    using admit_task_ok [OF kernel_okD(2) [OF w at] fresh_admissible [OF w f at]] by metis
  have n: "t \<notin> all_tasks w" "sum (weight_of (k_store w)) (all_tasks w) + weight_of (k_store w) t \<le> u64_max"
    using f by (auto simp: fresh_def)
  have "gains t w (put_cpu i s' w)"
    using put_enters [OF w at s'(2) n] idle_put [OF at s'(3)] by (simp add: gains_def)
  moreover have "cpu_slot i w = Ok self" using at cpu_slot_iff by blast
  ultimately show ?thesis using s'(1) by (simp add: admit_task_on_cpu_def with_cpu_mut_def)
qed

subsection \<open>Balancing\<close>

lemma should_rebalance_total: "\<exists>b. should_rebalance self now interval = Returned b"
proof (cases "sc_last_balance self")
  case None
  then show ?thesis by (auto simp: should_rebalance_def)
next
  case (Some e)
  show ?thesis
  proof (cases "dur_less now e")
    case True
    then show ?thesis using Some by (auto simp: should_rebalance_def)
  next
    case False
    then have "dur_checked_sub now e \<noteq> None" by (auto simp: dur_less_def dur_partial_cmp_def split: option.splits)
    then have "dur_sub now e \<noteq> None"
      by (auto simp: dur_checked_sub_def dur_sub_def checked_sub_def split: if_splits)
    then show ?thesis using Some False by (auto simp: should_rebalance_def duration_since_def)
  qed
qed

lemma mark_rebalanced_core: "sched_core X (self, st) \<Longrightarrow> sched_core X (mark_rebalanced self now, st)"
  using sched_coreD [of X self st] by (intro sched_coreI) (auto simp: mark_rebalanced_def queues_ok_def idle_ok_def)

lemma mark_cpu_rebalanced_ok:
  assumes "kernel_ok w"
  shows "returns (mark_cpu_rebalanced i now w) (\<lambda>_ w'. steady w w')"
  unfolding mark_cpu_rebalanced_def
  by (rule returns_steady_mut [OF assms])
    (use mark_rebalanced_core in \<open>simp add: ok_after_def keeps_def mark_rebalanced_def\<close>)

definition taken :: "task_id \<Rightarrow> kernel \<Rightarrow> kernel \<Rightarrow> bool" where
  "taken t w w' \<longleftrightarrow> kernel_ok w' \<and> t \<in> all_tasks w \<and> all_tasks w' = all_tasks w - {t} \<and> fresh w' t
     \<and> (\<forall>i. idle w i \<longrightarrow> idle w' i) \<and> (\<forall>i. (\<exists>self. cpu_at w i self) \<longrightarrow> (\<exists>self. cpu_at w' i self))"

lemma steal_from_ok:
  assumes w: "kernel_ok w"
  shows "returns (steal_from False i now pol w) (\<lambda>r w'. case r of
      Inr (Some t) \<Rightarrow> taken t w w' | _ \<Rightarrow> steady w w')"
  unfolding steal_from_def
proof (rule returns_mut)
  fix self
  assume at: "cpu_at w i self"
  note c = kernel_okD(2) [OF w at]
  let ?f = "\<lambda>s. do {
       (t, s1) \<leftarrow> take_migratable False now CACHE_HOT_THRESHOLD pol s;
       Returned (t, if t \<noteq> None then (mark_rebalanced (fst s1) now, snd s1) else s1)
     }"
  show "\<exists>a s'. ?f (self, k_store w) = Returned (a, s')
      \<and> (case Ok a of Inr (Some t) \<Rightarrow> taken t w (put_cpu i s' w) | _ \<Rightarrow> steady w (put_cpu i s' w))"
  proof (rule take_migratable_cases [OF c, of now CACHE_HOT_THRESHOLD pol])
    assume "take_migratable False now CACHE_HOT_THRESHOLD pol (self, k_store w) = Returned (None, self, k_store w)"
    then show ?thesis using steady_put [OF w at ok_after_refl [OF c]] by simp
  next
    fix t ig self'
    assume some: "take_migratable False now CACHE_HOT_THRESHOLD pol (self, k_store w) = Returned (Some t, self', stop_exec t (k_store w))"
      "leaves t (self, k_store w) (self', stop_exec t (k_store w))" "t \<in> queued self" "sc_current self' = sc_current self"
    let ?s = "(mark_rebalanced self' now, stop_exec t (k_store w))"
    have l: "leaves t (self, k_store w) ?s"
      using some(2) mark_rebalanced_core unfolding leaves_def by (simp add: mark_rebalanced_def)
    note p = put_leaves [OF w at l]
    have t: "t \<in> set (sc_tasks self)" using some(3) unfolding sched_coreD(3) [OF c] by blast
    have "fresh (put_cpu i ?s w) t"
      using p(2,4) sched_coreD(5,6) [OF c, of t] t unfolding fresh_def by (simp add: store_defs meta_ok_def idle_ok_def)
    moreover have "idle w j \<Longrightarrow> idle (put_cpu i ?s w) j" for j
      using idle_put [OF at, of ?s] some(4) by (simp add: mark_rebalanced_def)
    moreover have "\<exists>o'. cpu_at (put_cpu i ?s w) j o'" if "\<exists>o'. cpu_at w j o'" for j
      using that cpu_at_put [OF at] by auto
    ultimately have "taken t w (put_cpu i ?s w)" using p(1-3) unfolding taken_def by blast
    then show ?thesis using some(1) by auto
  qed
qed (use w in \<open>simp add: steady_refl\<close>)

lemma migrate_ok:
  assumes w: "kernel_ok w" and f: "fresh w t" and at: "cpu_at w i self"
  shows "returns (migrate False me i t w) (\<lambda>r w'. r = Ok t \<and> gains t w w')"
proof -
  let ?w1 = "w\<lparr>k_store := set_migration_ready t False (k_store w)\<rparr>"
  have s: "steady w ?w1" by (rule steady_cong [OF w]) (simp_all add: set_migration_ready_def same_task_def)
  have sl: "k_slots ?w1 = k_slots w" by simp
  have meta: "t_meta (k_store ?w1 u) = t_meta (k_store w u)" "t_state (k_store ?w1 u) = t_state (k_store w u)" for u
    by (simp_all add: set_migration_ready_def)
  have f1: "fresh ?w1 t" using f unfolding fresh_def meta all_tasks_cong [OF sl] .
  have at1: "cpu_at ?w1 i self" using at unfolding cpu_at_cong [OF sl] .
  have g1: "gains t w w2" if "gains t ?w1 w2" for w2
    using that s unfolding gains_def steady_def by simp
  have n: "k_slots (notify_cpu me i w2) = k_slots w2" "k_store (notify_cpu me i w2) = k_store w2" for w2
    by (simp_all add: notify_cpu_def)
  have g2: "gains t w (notify_cpu me i w2)" if g: "gains t w w2" for w2
  proof -
    have k: "kernel_ok w2" using g by (simp add: gains_def)
    have "steady w2 (notify_cpu me i w2)" using k n(1) by (rule steady_cong) (simp add: n(2))
    then show ?thesis using g unfolding gains_def steady_def by simp
  qed
  have "returns (and_then (admit_task_on_cpu False i t ?w1) (\<lambda>t w2. Returned (Ok t, notify_cpu me i w2)))
      (\<lambda>r w'. r = Ok t \<and> gains t w w')"
    by (rule returns_and_then [OF admit_on_cpu_ok [OF steadyD [OF s] f1 at1]]) (use g1 g2 in auto)
  then show ?thesis unfolding migrate_def by (simp add: Let_def)
qed

lemma taken_gains:
  assumes "taken t w w1" and "gains t w1 w2"
  shows "steady w w2"
  using assms unfolding taken_def gains_def steady_def by auto

text \<open>A stolen task enters the table of the CPU that asked for it.\<close>

lemma steal_then_migrate:
  assumes w: "kernel_ok w" and t: "taken t w w1" and at: "\<exists>self. cpu_at w i self"
  shows "returns (and_then (migrate False me i t w1) (\<lambda>_ w2. and_then (mark_cpu_rebalanced i now w2) (\<lambda>_ w3. Returned (Ok True, w3))))
    (\<lambda>_ w'. steady w w')"
proof -
  obtain self where at1: "cpu_at w1 i self" using at t unfolding taken_def by blast
  have k: "kernel_ok w1" "fresh w1 t" using t by (auto simp: taken_def)
  show ?thesis
  proof (rule returns_and_then [OF migrate_ok [OF k at1]])
    fix a w2
    assume "Ok a = (Ok t :: (task_id, scheduler_error) result) \<and> gains t w1 w2"
    then have s: "steady w w2" using taken_gains [OF t] by blast
    show "returns (and_then (mark_cpu_rebalanced i now w2) (\<lambda>_ w3. Returned (Ok True, w3))) (\<lambda>_ w'. steady w w')"
      by (rule returns_and_then [OF returns_mono [OF mark_cpu_rebalanced_ok [OF steadyD [OF s]] steady_trans [OF s]]]) simp_all
  qed simp
qed

lemma steal_migrate_ok:
  assumes w: "kernel_ok w" and at: "\<exists>self. cpu_at w i self"
    and none: "\<And>w1. steady w w1 \<Longrightarrow> returns (k w1) (\<lambda>_ w'. steady w w')"
  shows "returns (and_then (steal_from False j now pol w) (\<lambda>r w1. case r of
      None \<Rightarrow> k w1
    | Some t \<Rightarrow> and_then (migrate False me i t w1) (\<lambda>_ w2.
        and_then (mark_cpu_rebalanced i now w2) (\<lambda>_ w3. Returned (Ok True, w3))))) (\<lambda>_ w'. steady w w')"
proof (rule returns_and_then [OF steal_from_ok [OF w]])
  fix a w1
  assume "case (Ok a :: (task_id option, scheduler_error) result) of Inr (Some t) \<Rightarrow> taken t w w1 | _ \<Rightarrow> steady w w1"
  then show "returns (case a of None \<Rightarrow> k w1
    | Some t \<Rightarrow> and_then (migrate False me i t w1) (\<lambda>_ w2.
        and_then (mark_cpu_rebalanced i now w2) (\<lambda>_ w3. Returned (Ok True, w3)))) (\<lambda>_ w'. steady w w')"
    using none steal_then_migrate [OF w _ at] by (cases a) simp_all
qed simp

lemma pick_source_steady:
  assumes "kernel_ok w" and "pick_source i w = (r, w1)"
  shows "steady w w1" and "k_slots w1 = k_slots w"
proof -
  show s: "k_slots w1 = k_slots w"
    using assms(2) by (auto simp: pick_source_def fetch_hint_def Let_def split: prod.splits if_splits)
  have "k_store w1 = k_store w"
    using assms(2) by (auto simp: pick_source_def fetch_hint_def Let_def split: prod.splits if_splits)
  then show "steady w w1" using assms(1) s by (intro steady_cong) simp_all
qed

lemma pull_ok:
  assumes w: "kernel_ok w"
  shows "returns (pull False i now w) (\<lambda>_ w'. steady w w')"
proof (cases "cpu_slot i w")
  case (Inl e)
  then show ?thesis using w by (simp add: pull_def steady_refl)
next
  case (Inr self)
  then have at: "cpu_at w i self" using cpu_slot_iff by blast
  obtain due where due: "should_rebalance self now LOAD_BALANCE_INTERVAL = Returned due"
    using should_rebalance_total by blast
  obtain r w1 where p: "pick_source i w = (r, w1)" by (rule prod.exhaust)
  note s1 = pick_source_steady [OF w p]
  have k1: "kernel_ok w1" using s1(1) by (rule steadyD)
  have at1: "\<exists>self. cpu_at w1 i self" using at cpu_at_cong [OF s1(2)] by blast
  have none: "returns (and_then (mark_cpu_rebalanced i now w2) (\<lambda>_ w3. Returned (Ok False, request_remote i src w3))) (\<lambda>_ w'. steady w1 w')"
    if s2: "steady w1 w2" for w2 src
  proof (rule returns_and_then [OF mark_cpu_rebalanced_ok [OF steadyD [OF s2]]])
    fix w3
    assume s3: "steady w2 w3"
    have "steady w3 (request_remote i src w3)"
      by (rule steady_cong [OF steadyD [OF s3]]) (simp_all add: request_remote_def)
    then show "returns (Returned (Ok False, request_remote i src w3)) (\<lambda>_ w'. steady w1 w')"
      using steady_trans [OF steady_trans [OF s2 s3]] by simp
  qed (use steady_trans [OF s2] in simp)
  note st = returns_mono [OF steal_migrate_ok [OF k1 at1 none] steady_trans [OF s1(1)]]
  show ?thesis
    unfolding pull_def Inr sum.case due p using st s1(1) w
    by (auto simp: steady_refl split: option.split prod.split)
qed

lemma handle_remote_ok:
  assumes w: "kernel_ok w"
  shows "returns (handle_remote_request False i now j w) (\<lambda>_ w'. steady w w')"
proof -
  have at: "\<exists>self. cpu_at w j self" if "with_cpu j f w = Ok x" for f :: "scheduler \<Rightarrow> nat" and x
    using that cpu_slot_iff by (auto simp: with_cpu_def split: sum.splits)
  have none: "returns (Returned (Ok False, w1) :: bool kernel_result) (\<lambda>_ w'. steady w w')" if "steady w w1" for w1
    using that by simp
  show ?thesis
    unfolding handle_remote_request_def using w steal_migrate_ok [OF w at none] by (auto simp: steady_refl split: sum.splits)
qed

subsection \<open>Ticks and dispatch\<close>

lemma returns_tick:
  assumes "kernel_ok w"
  shows "returns (with_cpu_mut i (on_tick False now) w) (\<lambda>_ w'. steady w w')"
  by (rule returns_steady_mut [OF assms], erule on_tick_ok [of _ now]) auto

lemma returns_drain:
  assumes "kernel_ok w"
  shows "returns (with_cpu_mut i (drain_wakeups False) w) (\<lambda>_ w'. steady w w')"
  by (rule returns_steady_mut [OF assms], erule drain_wakeups_ok) auto

text \<open>The timer: sleeps are no part of the invariant, and each waker queues one wakeup.\<close>

lemma set_sleep_steady: "kernel_ok w \<Longrightarrow> steady w (set_sleep sid e (w\<lparr>k_timer := q\<rparr>))"
  "kernel_ok w \<Longrightarrow> steady w (set_sleep sid e w)"
  by (rule steady_cong, assumption, simp_all add: set_sleep_def)+

lemma schedule_runnable_steady:
  assumes w: "kernel_ok w" and run: "schedule_runnable me t w = Returned w'"
  shows "steady w w'"
proof -
  let ?w1 = "w\<lparr>k_store := (k_store w)(t := (k_store w t)\<lparr>t_runnable := True\<rparr>)\<rparr>"
  have s: "steady w ?w1" by (rule steady_cong [OF w]) (simp_all add: same_task_def)
  obtain r where "queue_wakeup me (meta_cpu (t_meta (k_store ?w1 t))) t ?w1 = Returned (r, w')"
    using run by (auto simp: schedule_runnable_def bind_eq_Some_conv)
  then have "steady ?w1 w'"
    using queue_wakeup_ok [OF steadyD [OF s], of me "meta_cpu (t_meta (k_store ?w1 t))" t] by (simp add: returns_def)
  then show ?thesis by (rule steady_trans [OF s])
qed

lemma timer_tick_loop_steady:
  "kernel_ok w \<Longrightarrow> timer_tick_loop wakes me now queue w = Returned w' \<Longrightarrow> steady w w'"
proof (induction queue arbitrary: w)
  case Nil
  then show ?case by (simp add: steady_refl)
next
  case (Cons key queue)
  define w1 where "w1 = snd (sleep_unregister (snd key) (w\<lparr>k_timer := queue\<rparr>))"
  define w2 where "w2 = snd (sleep_complete (snd key) w1)"
  have "steady w w1" unfolding w1_def sleep_unregister_def by (simp add: set_sleep_steady(1) [OF Cons.prems(1)])
  then have s2: "steady w w2"
    using set_sleep_steady(2) [OF steadyD] steady_trans unfolding w2_def sleep_complete_def by simp
  show ?case
  proof (cases "dur_less now (fst key)")
    case True
    with Cons.prems show ?thesis by (simp add: steady_refl)
  next
    case False
    show ?thesis
    proof (cases "fst (sleep_complete (snd key) w1)")
      case True
      let ?w = "set_sleep (snd key) ((k_sleeps w2 (snd key))\<lparr>se_waker := None\<rparr>) w2"
      obtain w3 where w3: "sleep_wake wakes me (snd key) w2 = Returned w3" "timer_tick_loop wakes me now queue w3 = Returned w'"
        using Cons.prems(2) False True unfolding w2_def w1_def
        by (auto simp: Let_def bind_eq_Some_conv split: prod.splits)
      have s: "steady w ?w" using steady_trans [OF s2 set_sleep_steady(2) [OF steadyD [OF s2]]] .
      have "w3 = ?w \<or> (\<exists>t. schedule_runnable me t ?w = Returned w3)"
        using w3(1) by (auto simp: sleep_wake_def Let_def split: option.splits if_splits)
      then have "steady w w3" using s steady_trans schedule_runnable_steady [OF steadyD [OF s]] by blast
      then show ?thesis using Cons.IH [OF steadyD w3(2)] steady_trans by blast
    next
      case f: False
      have "timer_tick_loop wakes me now queue w2 = Returned w'"
        using Cons.prems(2) False f unfolding w2_def w1_def by (auto simp: Let_def split: prod.splits)
      then show ?thesis using Cons.IH [OF steadyD [OF s2]] steady_trans [OF s2] by blast
    qed
  qed
qed

text \<open>A tick leaves no sleep at the head of the queue whose deadline has passed.\<close>

lemma schedule_runnable_timer: "schedule_runnable me t w = Returned w' \<Longrightarrow> k_timer w' = k_timer w"
  by (auto simp: schedule_runnable_def queue_wakeup_def and_then_def with_cpu_mut_def put_cpu_def preempt_request_local_def
      notify_cpu_def bind_eq_Some_conv Let_def split: sum.splits if_splits prod.splits)

lemma timer_tick_loop_head:
  "k_timer w = queue \<Longrightarrow> timer_tick_loop wakes me now queue w = Returned w' \<Longrightarrow>
     (case k_timer w' of [] \<Rightarrow> True | key # _ \<Rightarrow> dur_less now (fst key))"
proof (induction queue arbitrary: w)
  case (Cons key queue)
  show ?case
  proof (cases "dur_less now (fst key)")
    case True
    with Cons.prems show ?thesis by simp
  next
    case False
    define w2 where "w2 = snd (sleep_complete (snd key) (snd (sleep_unregister (snd key) (w\<lparr>k_timer := queue\<rparr>))))"
    have q: "k_timer w2 = queue" by (simp add: w2_def sleep_complete_def sleep_unregister_def set_sleep_def)
    obtain w3 where w3: "w3 = w2 \<or> sleep_wake wakes me (snd key) w2 = Returned w3" "timer_tick_loop wakes me now queue w3 = Returned w'"
      using Cons.prems(2) False unfolding w2_def by (auto simp: Let_def bind_eq_Some_conv split: prod.splits if_splits)
    have "k_timer w3 = queue"
      using w3(1) q by (auto simp: sleep_wake_def Let_def set_sleep_def dest: schedule_runnable_timer split: option.splits if_splits)
    then show ?thesis by (rule Cons.IH [OF _ w3(2)])
  qed
qed simp

lemma timer_tick_wakes_expired:
  assumes "timer_tick wakes me now w = Returned w'"
  shows "case k_timer w' of [] \<Rightarrow> True | key # _ \<Rightarrow> dur_less now (fst key)"
  using timer_tick_loop_head [OF refl] assms by (simp add: timer_tick_def)

lemma on_tick_for_cpu_ok:
  assumes w: "kernel_ok w" and run: "on_tick_for_cpu False wakes me i now w = Returned (r, w')"
  shows "steady w w'"
proof -
  let ?w0 = "if i = 0 then w\<lparr>k_cpu0_ticks := (k_cpu0_ticks w + 1) mod 2 ^ 64\<rparr> else w"
  have s0: "steady w ?w0" by (rule steady_cong [OF w]) simp_all
  obtain w1 where w1: "timer_tick wakes me now ?w0 = Returned w1"
    and rest: "and_then (with_cpu_mut i (on_tick False now) w1) (\<lambda>should_reschedule w2.
        and_then (pull False i now w2) (\<lambda>pulled w3.
          Returned (Ok (), if should_reschedule \<or> pulled then preempt_request_local me w3 else w3))) = Returned (r, w')"
    using run unfolding on_tick_for_cpu_def Let_def bind_eq_Some_conv by blast
  have s1: "steady w w1"
    using steady_trans [OF s0 timer_tick_loop_steady [OF steadyD [OF s0] w1 [unfolded timer_tick_def]]] .
  have fin: "steady w (if b then preempt_request_local me w3 else w3)" if s: "steady w w3" for b w3
    by (rule steady_trans [OF s], rule steady_cong [OF steadyD [OF s]]) (simp_all add: preempt_request_local_def)
  have "returns (and_then (with_cpu_mut i (on_tick False now) w1) (\<lambda>should_reschedule w2.
        and_then (pull False i now w2) (\<lambda>pulled w3.
          Returned (Ok (), if should_reschedule \<or> pulled then preempt_request_local me w3 else w3)))) (\<lambda>_ w'. steady w w')"
  proof (rule returns_and_then [OF returns_mono [OF returns_tick [OF steadyD [OF s1]] steady_trans [OF s1]]])
    fix a w2
    assume s2: "steady w w2"
    show "returns (and_then (pull False i now w2) (\<lambda>pulled w3.
        Returned (Ok (), if a \<or> pulled then preempt_request_local me w3 else w3))) (\<lambda>_ w'. steady w w')"
      by (rule returns_and_then [OF returns_mono [OF pull_ok [OF steadyD [OF s2]] steady_trans [OF s2]]])
        (use fin [of _ True] in auto)
  qed simp
  then show ?thesis unfolding rest by simp
qed

text \<open>Picking a task for an idle CPU: it runs the task it returns, and stays idle otherwise.\<close>

definition dispatched :: "nat \<Rightarrow> kernel \<Rightarrow> (task_id option, scheduler_error) result \<Rightarrow> kernel \<Rightarrow> bool" where
  "dispatched i w r w' \<longleftrightarrow> kernel_ok w' \<and> all_tasks w' = all_tasks w \<and> (\<forall>j. j \<noteq> i \<longrightarrow> idle w j \<longrightarrow> idle w' j)
     \<and> (\<forall>t. r = Ok (Some t) \<longrightarrow> current_task_on_cpu i w' = Some t) \<and> ((\<forall>t. r \<noteq> Ok (Some t)) \<longrightarrow> idle w' i)"

lemma current_on_cpu:
  assumes "kernel_ok w" and "cpu_at w i self"
  shows "current_task_on_cpu i w = sc_current self"
proof -
  have "cpu_slot i w = Ok self" using assms(2) cpu_slot_iff by blast
  then show ?thesis using current_task_eq [OF kernel_okD(2) [OF assms]] by (simp add: current_task_on_cpu_def with_cpu_def)
qed

lemma dispatched_steady: "steady w w1 \<Longrightarrow> dispatched i w1 r w' \<Longrightarrow> dispatched i w r w'"
  unfolding dispatched_def steady_def by auto

lemma dispatched_none: "steady w w' \<Longrightarrow> idle w i \<Longrightarrow> (\<And>t. r \<noteq> Ok (Some t)) \<Longrightarrow> dispatched i w r w'"
  unfolding dispatched_def steady_def by auto

lemma returns_take_next:
  assumes w: "kernel_ok w" and n: "idle w i"
  shows "returns (with_cpu_mut i (take_next False now) w) (\<lambda>r w'. dispatched i w r w' \<and> (r = Ok None \<longrightarrow> steady w w'))"
proof (rule returns_mut)
  show "dispatched i w (Err e) w \<and> (Err e = (Ok None :: (task_id option, scheduler_error) result) \<longrightarrow> steady w w)" for e
    using dispatched_none [OF steady_refl [OF w] n] by simp
next
  fix self
  assume at: "cpu_at w i self"
  note c = kernel_okD(2) [OF w at]
  have nc: "sc_current self = None" using n at unfolding idle_def by blast
  show "\<exists>a s'. take_next False now (self, k_store w) = Returned (a, s')
      \<and> dispatched i w (Ok a) (put_cpu i s' w) \<and> (Ok a = (Ok None :: (task_id option, scheduler_error) result) \<longrightarrow> steady w (put_cpu i s' w))"
  proof (rule take_next_cases [OF c nc, of now])
    fix r
    assume r: "take_next False now (self, k_store w) = Returned (None, r, k_store w)" "sched_ok (r, k_store w)"
      "keeps (self, k_store w) (r, k_store w)" "sc_current r = None"
    have "steady w (put_cpu i (r, k_store w) w)"
      by (rule steady_put [OF w at]) (use r nc in \<open>simp_all add: ok_after_def\<close>)
    then show ?thesis using r(1) dispatched_none [OF _ n] by auto
  next
    fix t and r :: scheduler and rest
    let ?s = "(r\<lparr>sc_eligible := rest, sc_current := Some t\<rparr>,
      set_meta t ((t_meta (k_store w t))\<lparr>exec_start := Some now, exec_runtime := from_secs 0\<rparr>) (k_store w))"
    assume r: "take_next False now (self, k_store w) = Returned (Some t, ?s)" "sched_ok ?s" "sc_tasks r = sc_tasks self"
      "sc_cpu r = sc_cpu self" "t \<in> set (sc_tasks self)"
    have "keeps (self, k_store w) ?s"
      by (rule keeps_one [OF r(5)]) (use r(3,4) in \<open>simp_all add: store_defs\<close>)
    then have o: "ok_after (self, k_store w) ?s" using r(2) by (simp add: ok_after_def)
    note p = put_ok_after [OF w at o]
    have "current_task_on_cpu i (put_cpu i ?s w) = Some t"
      using current_on_cpu [OF p(1), of i "fst ?s"] cpu_at_put [OF at, of ?s] by simp
    moreover have "idle (put_cpu i ?s w) j" if "j \<noteq> i" "idle w j" for j
      using that unfolding idle_def cpu_at_put [OF at] by simp
    ultimately have "dispatched i w (Ok (Some t)) (put_cpu i ?s w)" using p unfolding dispatched_def by simp
    then show ?thesis using r(1) by auto
  qed
qed

lemma take_next_task_ok:
  assumes w: "kernel_ok w" and n: "idle w i"
  shows "returns (take_next_task_on_cpu False i now w) (\<lambda>r w'. dispatched i w r w')"
  unfolding take_next_task_on_cpu_def
proof (rule returns_and_then [OF returns_drain [OF w]])
  fix e w1
  show "steady w w1 \<Longrightarrow> dispatched i w (Err e) w1" using dispatched_none [OF _ n] by simp
next
  fix a w1
  assume s1: "steady w w1"
  have n1: "idle w1 i" using s1 n by (simp add: steady_def)
  have tn: "returns (with_cpu_mut i (take_next False now) w1) (\<lambda>r w'. dispatched i w r w' \<and> (r = Ok None \<longrightarrow> steady w w'))"
    by (rule returns_mono [OF returns_take_next [OF steadyD [OF s1] n1]])
      (use dispatched_steady [OF s1] steady_trans [OF s1] in blast)
  show "returns (and_then (with_cpu_mut i (take_next False now) w1) (\<lambda>next_task w2.
         case next_task of
           Some t \<Rightarrow> Returned (Ok (Some t), w2)
         | None \<Rightarrow>
             and_then (pull False i now w2) (\<lambda>pulled w3.
               if pulled
               then and_then (with_cpu_mut i (drain_wakeups False) w3) (\<lambda>_ w4. with_cpu_mut i (take_next False now) w4)
               else Returned (Ok None, w3)))) (\<lambda>r w'. dispatched i w r w')"
  proof (rule returns_and_then [OF tn])
    fix nt w2
    assume d: "dispatched i w (Ok nt) w2 \<and> ((Ok nt :: (task_id option, scheduler_error) result) = Ok None \<longrightarrow> steady w w2)"
    have again: "returns (and_then (with_cpu_mut i (drain_wakeups False) w3) (\<lambda>_ w4. with_cpu_mut i (take_next False now) w4))
        (\<lambda>r w'. dispatched i w r w')" if s3: "steady w w3" for w3
    proof (rule returns_and_then [OF returns_mono [OF returns_drain [OF steadyD [OF s3]] steady_trans [OF s3]]])
      fix b w4
      assume s4: "steady w w4"
      then have "idle w4 i" using n by (simp add: steady_def)
      then show "returns (with_cpu_mut i (take_next False now) w4) (\<lambda>r w'. dispatched i w r w')"
        using returns_mono [OF returns_take_next [OF steadyD [OF s4]]] dispatched_steady [OF s4] by blast
    qed (assumption, erule dispatched_none [OF _ n], simp)
    have "returns (and_then (pull False i now w2) (\<lambda>pulled w3.
        if pulled then and_then (with_cpu_mut i (drain_wakeups False) w3) (\<lambda>_ w4. with_cpu_mut i (take_next False now) w4)
        else Returned (Ok None, w3))) (\<lambda>r w'. dispatched i w r w')" if s2: "steady w w2"
      by (rule returns_and_then [OF returns_mono [OF pull_ok [OF steadyD [OF s2]] steady_trans [OF s2]]])
        (use again dispatched_none [OF _ n] in auto)
    then show "returns (case nt of Some t \<Rightarrow> Returned (Ok (Some t), w2)
         | None \<Rightarrow>
             and_then (pull False i now w2) (\<lambda>pulled w3.
               if pulled
               then and_then (with_cpu_mut i (drain_wakeups False) w3) (\<lambda>_ w4. with_cpu_mut i (take_next False now) w4)
               else Returned (Ok None, w3))) (\<lambda>r w'. dispatched i w r w')"
      using d by (cases nt) auto
  qed simp
qed

end
