(* ===== verification/Sched_Switch.thy ===== *)
theory Sched_Switch
  imports Sched_Kernel
begin

text \<open>
  The scheduler trap: it returns, keeps the invariant, reaps at most the task that ran on the CPU, and
  hands out the frame of the task that the CPU then runs.
\<close>

lemma fallback_contains_total:
  assumes "cpu \<le> 2 ^ 25"
  obtains b where "fallback_contains cpu rsp = Returned b"
proof -
  have a: "is_multiple_of (segment_start vm_layout_segment.KernelStack + cpu * (5 * PAGE_SIZE)) PAGE_SIZE"
    by (simp add: is_multiple_of_def dvd_add_right_iff)
  have "segment_start vm_layout_segment.KernelStack + cpu * (5 * PAGE_SIZE) + 5 * PAGE_SIZE \<le> usize_max"
    using assms by simp
  then have "fallback_layout cpu \<noteq> None"
    using a by (simp add: fallback_layout_def DEFAULT_STACK_PAGES_def GUARD_PAGES_def checked_add_def checked_mul_u64_def from_low_base_def vm_range_new_def)
  then show ?thesis using that by (auto simp: fallback_contains_def)
qed

text \<open>What a trap on CPU \<open>i\<close> may do to the rest of the system.\<close>

definition trapped :: "nat \<Rightarrow> kernel \<Rightarrow> kernel \<Rightarrow> bool" where
  "trapped i w w' \<longleftrightarrow> kernel_ok w' \<and> all_tasks w' \<subseteq> all_tasks w
     \<and> (\<forall>t \<in> all_tasks w - all_tasks w'. current_task_on_cpu i w = Some t)
     \<and> (\<forall>j. j \<noteq> i \<longrightarrow> idle w j \<longrightarrow> idle w' j)"

definition switched :: "nat \<Rightarrow> kernel \<Rightarrow> (resume_frame option, scheduler_error) result \<Rightarrow> kernel \<Rightarrow> bool" where
  "switched i w r w' \<longleftrightarrow> trapped i w w' \<and> (\<forall>t. r = Ok (Some (TaskFrame t)) \<longrightarrow> current_task_on_cpu i w' = Some t)"

lemma steady_trapped: "steady w w' \<Longrightarrow> trapped i w w'"
  unfolding steady_def trapped_def by auto

lemma trapped_steady: "trapped i w w1 \<Longrightarrow> steady w1 w2 \<Longrightarrow> trapped i w w2"
  unfolding steady_def trapped_def by auto

lemma trapped_dispatched: "trapped i w w1 \<Longrightarrow> dispatched i w1 r w2 \<Longrightarrow> trapped i w w2"
  unfolding dispatched_def trapped_def by auto

lemma flush_steady:
  assumes "kernel_ok w"
  shows "steady w (flush_deferred_migration_ready i w)"
proof -
  let ?w1 = "w\<lparr>k_deferred := (k_deferred w)(i := 0)\<rparr>"
  have "flush_deferred_migration_ready i w = ?w1
      \<or> (\<exists>t. flush_deferred_migration_ready i w = ?w1\<lparr>k_store := set_migration_ready t True (k_store ?w1)\<rparr>)"
    by (auto simp: flush_deferred_migration_ready_def Let_def split: option.split)
  then show ?thesis
    by (elim disjE exE; simp only:) (rule steady_cong [OF assms]; simp add: set_migration_ready_def same_task_def)+
qed

lemma select_frame_ok:
  assumes t: "trapped i w w1" and n: "idle w1 i"
  shows "returns (select_frame False i env w1) (switched i w)"
proof -
  have k1: "kernel_ok w1" using t by (simp add: trapped_def)
  let ?w2 = "flush_deferred_migration_ready i w1"
  note f = flush_steady [OF k1, of i]
  have n2: "idle ?w2 i" using f n by (simp add: steady_def)
  let ?now = "case te_next_clock env of None \<Rightarrow> from_nanos 0 | Some n \<Rightarrow> n"
  obtain r w3 where r: "take_next_task_on_cpu False i ?now ?w2 = Returned (r, w3)" "dispatched i ?w2 r w3"
    using take_next_task_ok [OF steadyD [OF f] n2] unfolding returns_def by blast
  have d: "trapped i w w3" using trapped_dispatched [OF trapped_steady [OF t f] r(2)] .
  have "current_task_on_cpu i w3 = Some t"
    if "(case r of Inr (Some t) \<Rightarrow> if te_has_root env t then TaskFrame t else IdleFrame | _ \<Rightarrow> IdleFrame) = TaskFrame t" for t
    using that r(2) by (auto simp: dispatched_def split: sum.splits option.splits if_splits)
  then have "switched i w (Ok (Some (case r of Inr (Some t) \<Rightarrow> if te_has_root env t then TaskFrame t else IdleFrame | _ \<Rightarrow> IdleFrame))) w3"
    using d unfolding switched_def by simp
  then show ?thesis
    using r(1) by (simp add: select_frame_def select_next_or_idle_frame_def Let_def)
qed

lemma returns_finalize:
  assumes w: "kernel_ok w"
  shows "returns (with_cpu_mut i (finalize_current_boundary False rsp action now) w)
    (\<lambda>r w'. trapped i w w' \<and> (\<forall>f. r = Ok (Some f) \<longrightarrow> idle w' i))"
proof (rule returns_mut)
  fix self
  assume at: "cpu_at w i self"
  obtain r s' where r: "finalize_current_boundary False rsp action now (self, k_store w) = Returned (r, s')"
    "ok_after (self, k_store w) s' \<or> (\<exists>t. leaves t (self, k_store w) s' \<and> sc_current self = Some t)"
    "r \<noteq> None \<Longrightarrow> sc_current (fst s') = None"
    by (rule finalize_boundary_ok [OF kernel_okD(2) [OF w at], of rsp action now, unfolded fst_conv]) (rule that)
  have o: "idle (put_cpu i s' w) j" if "j \<noteq> i" "idle w j" for j
    using that unfolding idle_def cpu_at_put [OF at] by simp
  have t: "trapped i w (put_cpu i s' w)"
    using r(2)
  proof
    assume "ok_after (self, k_store w) s'"
    then show ?thesis using put_ok_after [OF w at] o unfolding trapped_def by auto
  next
    assume "\<exists>t. leaves t (self, k_store w) s' \<and> sc_current self = Some t"
    then obtain t where t: "leaves t (self, k_store w) s'" "sc_current self = Some t" by blast
    show ?thesis
      using put_leaves [OF w at t(1)] o current_on_cpu [OF w at] t(2) unfolding trapped_def by auto
  qed
  have "idle (put_cpu i s' w) i" if "r \<noteq> None" using r(3) [OF that] unfolding idle_def cpu_at_put [OF at] by simp
  then show "\<exists>a s'. finalize_current_boundary False rsp action now (self, k_store w) = Returned (a, s')
      \<and> trapped i w (put_cpu i s' w) \<and> (\<forall>f. Ok a = (Ok (Some f) :: (trap_boundary_finalize option, scheduler_error) result) \<longrightarrow> idle (put_cpu i s' w) i)"
    using r(1) t by auto
qed (use steady_trapped [OF steady_refl [OF w]] in simp)

lemma returns_save:
  assumes w: "kernel_ok w"
  shows "returns (with_cpu_mut i (save_preempted_current False rsp now) w)
    (\<lambda>r w'. trapped i w w' \<and> (\<forall>t. r = Ok (Some t) \<longrightarrow> idle w' i))"
proof (rule returns_mut)
  fix self
  assume at: "cpu_at w i self"
  obtain r s' where r: "save_preempted_current False rsp now (self, k_store w) = Returned (r, s')"
    "ok_after (self, k_store w) s'" "r \<noteq> None \<Longrightarrow> sc_current (fst s') = None"
    by (rule save_preempted_ok [OF kernel_okD(2) [OF w at], of rsp now]) (rule that)
  have "idle (put_cpu i s' w) j" if "j \<noteq> i" "idle w j" for j
    using that unfolding idle_def cpu_at_put [OF at] by simp
  then have t: "trapped i w (put_cpu i s' w)" using put_ok_after [OF w at r(2)] unfolding trapped_def by auto
  have "idle (put_cpu i s' w) i" if "r \<noteq> None" using r(3) [OF that] unfolding idle_def cpu_at_put [OF at] by simp
  then show "\<exists>a s'. save_preempted_current False rsp now (self, k_store w) = Returned (a, s')
      \<and> trapped i w (put_cpu i s' w) \<and> (\<forall>t. Ok a = (Ok (Some t) :: (task_id option, scheduler_error) result) \<longrightarrow> idle (put_cpu i s' w) i)"
    using r(1) t by auto
qed (use steady_trapped [OF steady_refl [OF w]] in simp)

lemma finish_boundary_ok:
  assumes t: "trapped i w w1" and n: "idle w1 i"
  shows "returns (finish_boundary False i env f w1) (switched i w)"
proof -
  define w2 where "w2 = (case tb_migration_ready f of None \<Rightarrow> w1 | Some t \<Rightarrow> defer_migration_ready i t w1)"
  have "kernel_ok w1" using t by (simp add: trapped_def)
  then have s2: "steady w1 w2"
    by (rule steady_cong) (simp_all add: w2_def defer_migration_ready_def split: option.split)
  obtain w3 where w3: "(case tb_reaped f of None \<Rightarrow> Returned w2 | Some t \<Rightarrow> reap_finished_task i (te_siblings env t) w2) = Returned w3"
      "steady w2 w3"
    using reap_ok [OF steadyD [OF s2]] steady_refl [OF steadyD [OF s2]] by (cases "tb_reaped f") auto
  let ?w4 = "snd (preempt_take_local i w3)"
  have s4: "steady w3 ?w4" by (rule steady_cong [OF steadyD [OF w3(2)]]) (simp_all add: preempt_take_local_def)
  note s = steady_trans [OF steady_trans [OF s2 w3(2)] s4]
  have "idle ?w4 i" using s n by (simp add: steady_def)
  then have "returns (select_frame False i env ?w4) (switched i w)"
    by (rule select_frame_ok [OF trapped_steady [OF t s]])
  then show ?thesis unfolding finish_boundary_def Let_def w2_def [symmetric] w3(1) by simp
qed

lemma schedule_ok:
  assumes w: "kernel_ok w" and cpu: "i \<le> 2 ^ 25" and fb: "fallback_contains i (tc_stack_pointer ctx) = Returned True \<Longrightarrow> idle w i"
  shows "returns (schedule_current_cpu False i env ctx w) (switched i w)"
proof -
  have refl: "switched i w (Ok None) w" "switched i w (Err e) w" for e
    using steady_trapped [OF steady_refl [OF w]] by (simp_all add: switched_def)
  have nf: "switched i w (Ok None) w'" if "trapped i w w'" for w' using that by (simp add: switched_def)
  have er: "switched i w (Err e) w'" if "trapped i w w'" for w' e using that by (simp add: switched_def)
  obtain b where b: "fallback_contains i (tc_stack_pointer ctx) = Returned b" using fallback_contains_total [OF cpu] .
  let ?take = "\<lambda>w. snd (preempt_take_local i w)"
  have tk: "steady w' (?take w')" if "kernel_ok w'" for w'
    by (rule steady_cong [OF that]) (simp_all add: preempt_take_local_def)
  have onfb: "returns (case preempt_take_local i w of (pending, w1) \<Rightarrow>
      if pending \<or> cpu_has_work i w1 then select_frame False i env w1 else Returned (Ok None, w1)) (switched i w)" if b
  proof -
    have "idle (?take w) i" using tk [OF w] fb b that by (simp add: steady_def)
    then have "returns (select_frame False i env (?take w)) (switched i w)"
      by (rule select_frame_ok [OF steady_trapped [OF tk [OF w]]])
    then show ?thesis using nf [OF steady_trapped [OF tk [OF w]]] by (simp add: case_prod_beta)
  qed
  obtain bo w1 where bo: "current_boundary i w = (bo, w1)" by (rule prod.exhaust)
  have sl: "k_slots w1 = k_slots w"
    using bo by (auto simp: current_boundary_def take_boundary_action_def split: option.splits)
  have s1: "steady w w1"
    using w sl by (rule steady_cong)
      (use bo in \<open>auto simp: current_boundary_def take_boundary_action_def same_task_def split: option.splits\<close>)
  note k1 = steadyD [OF s1]
  have cu: "current_task_on_cpu i w1 = current_task_on_cpu i w"
    using sl by (simp add: current_task_on_cpu_def with_cpu_def cpu_slot_def)
  have tr: "trapped i w w2" if "trapped i w1 w2" for w2
    using that s1 unfolding trapped_def steady_def cu by auto
  have some: "returns (and_then (with_cpu_mut i (finalize_current_boundary False (tc_stack_pointer ctx) boundary (te_clock env)) w1)
      (\<lambda>finalized w2. case finalized of None \<Rightarrow> Returned (Ok None, w2) | Some f \<Rightarrow> finish_boundary False i env f w2)) (switched i w)" for boundary
  proof (rule returns_and_then [OF returns_finalize [OF k1]])
    fix fin w2
    assume a: "trapped i w1 w2 \<and> (\<forall>f. (Ok fin :: (trap_boundary_finalize option, scheduler_error) result) = Ok (Some f) \<longrightarrow> idle w2 i)"
    show "returns (case fin of None \<Rightarrow> Returned (Ok None, w2) | Some f \<Rightarrow> finish_boundary False i env f w2) (switched i w)"
      using a nf [OF tr] finish_boundary_ok [OF tr] by (cases fin) simp_all
  qed (use er tr in blast)
  have none: "returns (and_then (with_cpu_mut i (save_preempted_current False (tc_stack_pointer ctx) (te_clock env)) w1)
      (\<lambda>saved w2. case saved of None \<Rightarrow> Returned (Ok None, w2)
        | Some t \<Rightarrow> select_frame False i env (defer_migration_ready i t (?take w2)))) (switched i w)"
  proof (rule returns_and_then [OF returns_save [OF k1]])
    fix sv w2
    assume a: "trapped i w1 w2 \<and> (\<forall>t. (Ok sv :: (task_id option, scheduler_error) result) = Ok (Some t) \<longrightarrow> idle w2 i)"
    have k2: "kernel_ok w2" using a by (simp add: trapped_def)
    have s3: "steady w2 (defer_migration_ready i t (?take w2))" for t
      by (rule steady_cong [OF k2]) (simp_all add: defer_migration_ready_def preempt_take_local_def)
    have "returns (select_frame False i env (defer_migration_ready i t (?take w2))) (switched i w)" if "idle w2 i" for t
      by (rule select_frame_ok [OF trapped_steady [OF tr s3]]) (use a that s3 in \<open>simp_all add: steady_def\<close>)
    then show "returns (case sv of None \<Rightarrow> Returned (Ok None, w2)
        | Some t \<Rightarrow> select_frame False i env (defer_migration_ready i t (?take w2))) (switched i w)"
      using a nf [OF tr] by (cases sv) simp_all
  qed (use er tr in blast)
  show ?thesis
  proof (cases "tc_kernel_mode ctx \<and> (\<exists>self. cpu_slot i w = Ok self)")
    case False
    then show ?thesis using refl by (cases "cpu_slot i w") (auto simp: schedule_current_cpu_def)
  next
    case True
    then obtain self where cs: "cpu_slot i w = Ok self" "tc_kernel_mode ctx" by blast
    show ?thesis
    proof (cases b)
      case True
      then show ?thesis using onfb cs b by (simp add: schedule_current_cpu_def)
    next
      case False
      show ?thesis
        using cs b False some none nf [OF steady_trapped [OF s1]] bo
        by (cases bo) (simp_all add: schedule_current_cpu_def)
    qed
  qed
qed

end
