(* ===== verification/Sched_Runs.thy ===== *)
theory Sched_Runs
  imports Sched_Switch
begin

text \<open>
  Concrete runs of the schedulers: a debug build that panics when a task leaves ahead of virtual time,
  a wakeup that is lost when its task migrates, and a task that is withdrawn after a cancellation has
  made it runnable. The states of the runs are written out, and
  each operation is evaluated on them.
\<close>

lemmas sched_eval = admit_task_def insert_runnable_pointer_def refresh_deadlines_def transition_task_state_def
  add_runnable_weight_def sub_runnable_weight_def adjust_vtime_for_departure_def meta_params_def
  debug_checked_def assert_that_def scheduler_new_def task_new_def sched_meta_default_def set_meta_def set_state_def mark_ready_def
  eevdf_eligible_def deadline_from_eligible_def slice_to_virtual_def runtime_to_virtual_def sat_add128_def sat_mul128_def
  scheduler_state_for_ready_def key_less_def Let_def abs_diff_def
  take_next_def pick_next_def promote_eligible_def jump_to_eligible_def stop_exec_def
  on_tick_def drain_wakeups_def current_task_def account_since_def account_current_runtime_def scheduler_runtime_to_virtual_def
  should_preempt_current_def dur_ge_def dur_less_def dur_partial_cmp_def dur_checked_sub_def duration_since_def dur_sub_def
  as_nanos_def from_secs_def from_millis_def from_nanos_def checked_sub_def dur_saturating_add_def dur_checked_add_def
  checked_add_def checked_add_u32_def

lemmas trap_eval = finalize_current_boundary_def current_task_from_trap_def kernel_stack_contains_def range_contains_def
  account_trap_runtime_def finalize_action_def finalize_current_poll_def block_current_def take_current_def

lemmas verify_eval = debug_verify_def verify_queued_def verify_task_def runnable_weight_def Let_def task_new_def sched_meta_default_def

subsection \<open>A departure ahead of virtual time\<close>

definition run_task :: "task_sched_state \<Rightarrow> nat \<Rightarrow> nat \<Rightarrow> nat \<Rightarrow> instant option \<Rightarrow> duration \<Rightarrow> task" where
  "run_task s vr ve vd es er = (task_new \<lparr>range_start = 0x1000, range_end = 0x2000\<rparr>)\<lparr>t_runnable := True,
     t_state := \<lparr>ts_sched = s, ts_terminal = None\<rparr>,
     t_meta := \<lparr>weight = 1024, vruntime = vr, veligible = ve, vdeadline = vd, slice = Dur 0 4000000,
       exec_start = es, exec_runtime = er, meta_cpu = 0\<rparr>\<rparr>"

definition run_store :: task_store where
  "run_store = (\<lambda>_. (task_new \<lparr>range_start = 0x1000, range_end = 0x2000\<rparr>)\<lparr>t_runnable := True\<rparr>)"

definition run_cpu :: "nat option \<Rightarrow> nat \<Rightarrow> nat \<Rightarrow> nat list \<Rightarrow> nat list \<Rightarrow> scheduler" where
  "run_cpu c v tw ts el = \<lparr>sc_cpu = 0, sc_current = c, sc_vtime = v, sc_total_weight = tw, sc_last_balance = None,
    sc_tasks = ts, sc_eligible = el, sc_ineligible = [], sc_wake_inbox = []\<rparr>"

lemmas run_eval = run_store_def run_task_def run_cpu_def

abbreviation "waiting v \<equiv> run_task AsyncReady 0 v (v + 4000000) None (Dur 0 0)"
abbreviation "running v d \<equiv> run_task AsyncReady v v (v + 4000000) (Some d) d"
abbreviation "run1 \<equiv> (run_cpu None 0 1024 [2] [2], run_store(2 := waiting 0))"
abbreviation "run2 \<equiv> (run_cpu None 0 2048 [3, 2] [2, 3], run_store(2 := waiting 0, 3 := waiting 0))"
abbreviation "run3 \<equiv> (run_cpu (Some 2) 0 2048 [3, 2] [3], run_store(3 := waiting 0, 2 := running 0 (Dur 0 0)))"
abbreviation "run4 \<equiv> (run_cpu (Some 2) 5000000 2048 [3, 2] [3], run_store(3 := waiting 0, 2 := running 10000000 (Dur 0 10000000)))"
abbreviation "run5 \<equiv> (run_cpu (Some 2) 5000000 3072 [4, 3, 2] [3, 4],
  run_store(3 := waiting 0, 2 := running 10000000 (Dur 0 10000000), 4 := waiting 5000000))"

lemma admit_debug: "admit_task False t s = Returned r \<Longrightarrow> debug_verify (snd r) \<Longrightarrow> admit_task True t s = Returned r"
  by (auto simp: admit_task_def debug_checked_def assert_that_def Let_def split: if_splits)

lemma run_verify: "debug_verify run1" "debug_verify run2" "debug_verify run5"
  by (simp_all add: verify_eval run_eval)

lemma run_admits:
  "admit_task True 2 (scheduler_new 0, run_store) = Returned (2, run1)"
  "admit_task True 3 run1 = Returned (3, run2)"
  "admit_task True 4 run4 = Returned (4, run5)"
  by (rule admit_debug; use run_verify in \<open>simp add: sched_eval run_eval\<close>)+

lemma run_steps:
  "take_next True (from_millis 0) run2 = Returned (Some 2, run3)"
  "on_tick True (from_millis 10) run3 = Returned (True, run4)"
  by (simp_all add: sched_eval run_eval verify_eval)

lemma run_panics: "finalize_current_boundary True 0x1800 (BoundaryOutcome PollBlocked) None run5 = Panicked"
  by (simp add: sched_eval run_eval trap_eval verify_eval)

definition departure_run :: "sched_state outcome" where
  "departure_run = do {
     (_, s1) \<leftarrow> admit_task True 2 (scheduler_new 0, run_store);
     (_, s2) \<leftarrow> admit_task True 3 s1;
     (_, s3) \<leftarrow> take_next True (from_millis 0) s2;
     (_, s4) \<leftarrow> on_tick True (from_millis 10) s3;
     (_, s5) \<leftarrow> admit_task True 4 s4;
     Returned s5
   }"

lemma departure_run_eq: "departure_run = Returned run5"
  by (simp only: departure_run_def run_admits run_steps Option.bind.simps prod.case)

subsection \<open>A wakeup lost by a migration\<close>

text \<open>
  Task 2 runs on CPU 0 and wakes itself, which puts it on the wake inbox of CPU 0; it yields, CPU 1
  steals it and runs it until it blocks; then it is woken again, and both CPUs tick.
\<close>

definition steal_run :: "kernel outcome" where
  "steal_run = do {
     (_, w1) \<leftarrow> admit_task_on_cpu False 0 2 (install 2 run_store);
     (_, w2) \<leftarrow> admit_task_on_cpu False 0 3 w1;
     (_, w3) \<leftarrow> take_next_task_on_cpu False 0 (from_millis 20) w2;
     (_, w4) \<leftarrow> queue_wakeup 0 0 2 w3;
     (_, w5) \<leftarrow> with_cpu_mut 0 (finalize_current_boundary False 0x1800 (BoundaryOutcome PollReady) None) w4;
     (_, w6) \<leftarrow> pull False 1 (from_millis 20) (flush_deferred_migration_ready 0 (defer_migration_ready 0 2 w5));
     (_, w7) \<leftarrow> take_next_task_on_cpu False 1 (from_millis 20) w6;
     (_, w8) \<leftarrow> with_cpu_mut 1 (finalize_current_boundary False 0x1800 (BoundaryOutcome PollBlocked) None) w7;
     (_, w9) \<leftarrow> queue_wakeup 1 1 2 w8;
     (_, w10) \<leftarrow> on_tick_for_cpu False (\<lambda>_. False) 0 0 (from_millis 21) w9;
     (_, w11) \<leftarrow> on_tick_for_cpu False (\<lambda>_. False) 1 1 (from_millis 21) w10;
     Returned w11
   }"
lemmas kernel_eval = admit_task_on_cpu_def install_def with_cpu_mut_def cpu_slot_def ok_or_def put_cpu_def cancel_task_def cpu_count_def
  task_on_cpu_def with_cpu_def request_cancel_def queue_wakeup_def and_then_def enqueue_wakeup_def try_mark_wake_queued_def set_wake_queued_def
  preempt_request_local_def notify_cpu_def pull_def should_rebalance_def pick_source_def has_runnable_work_def fetch_hint_def
  LOAD_BALANCE_INTERVAL_def LOAD_BALANCE_WEIGHT_THRESHOLD_def CACHE_HOT_THRESHOLD_def steal_from_def take_migratable_def extract_migratable_task_def
  remove_first_migratable_from_tree_def migratable_def is_cache_hot_on_def mark_rebalanced_def migrate_def set_migration_ready_def mark_cpu_rebalanced_def
  upt_rec take_next_task_on_cpu_def on_tick_for_cpu_def timer_tick_def flush_deferred_migration_ready_def defer_migration_ready_def
  take_ready_reason_def requeue_current_with_def clear_wake_queued_def activate_wakeup_task_def request_remote_def

lemma steal_run_lost:
  "case steal_run of None \<Rightarrow> False | Some w \<Rightarrow>
     (\<exists>a b. k_slots w = [Some a, Some b] \<and> 2 \<in> set (sc_tasks b) \<and> sc_wake_inbox a = [] \<and> sc_wake_inbox b = [])
     \<and> ts_sched (t_state (k_store w 2)) = Blocked \<and> t_runnable (k_store w 2) \<and> \<not> t_wake_queued (k_store w 2)"
  by (simp add: steal_run_def run_store_def sched_eval kernel_eval trap_eval)

subsection \<open>A withdrawal after a cancellation\<close>

text \<open>
  Task 2 is admitted before it has anything to run. A cancellation wakes it, and a tick of its CPU
  drains the wakeup; \<open>spawn_task\<close> then sees the cancellation and withdraws the task.
\<close>

definition shell_store :: task_store where
  "shell_store = (\<lambda>_. task_new \<lparr>range_start = 0x1000, range_end = 0x2000\<rparr>)"

definition cancel_run :: "(kernel \<times> kernel \<times> kernel) outcome" where
  "cancel_run = do {
     (_, w1) \<leftarrow> admit_task_on_cpu False 0 2 (install 1 shell_store);
     (_, w2) \<leftarrow> cancel_task 0 2 w1;
     (_, w3) \<leftarrow> on_tick_for_cpu False (\<lambda>_. False) 0 0 (from_millis 20) w2;
     Returned (w1, w2, w3)
   }"

lemma cancel_run_queued:
  "case cancel_run of None \<Rightarrow> False | Some (w1, w2, w3) \<Rightarrow> (\<exists>a. cpu_at w3 0 a \<and> 2 \<in> set (sc_eligible a))"
  by (simp add: cancel_run_def shell_store_def cpu_at_def sched_eval kernel_eval)

end
