(* ===== verification/Sched_Props.thy ===== *)
theory Sched_Props
  imports Sched_Runs
begin

text \<open>
  The properties of the schedulers: the states that the kernel can reach, the choice of the next task,
  wakeups, and what the runs of the previous theory show.
\<close>

subsection \<open>Reachable states\<close>

text \<open>
  One step of one CPU, or of a task outside the scheduler, in a build without debug assertions. A task
  is spawned once, with the weights of all tasks together below \<open>2 ^ 64\<close>; the request queue hands each
  balance request to its CPU once; a trap on the fallback stack finds no running task, and the stacks
  of the CPUs fit their segment. A table gives up a task shell only while the task is not runnable,
  which \<open>withdraw_inactive_task\<close> is documented to be called for but does not check: the last run
  shows what happens otherwise. The flags that wakers and drivers set are no part of the invariant.
\<close>

inductive kernel_step :: "kernel \<Rightarrow> kernel \<Rightarrow> bool" where
  spawn: "fresh w t \<Longrightarrow> admit_task_on_cpu False i t w = Returned (r, w') \<Longrightarrow> kernel_step w w'"
| withdraw: "cpu_at w i self \<Longrightarrow> t \<in> set (sc_tasks self) \<Longrightarrow> \<not> ready_in (k_store w) t \<Longrightarrow>
    withdraw_inactive_task i t w = Returned (r, w') \<Longrightarrow> kernel_step w w'"
| wake: "queue_wakeup me i t w = Returned (r, w') \<Longrightarrow> kernel_step w w'"
| cancel: "cancel_task me t w = Returned (r, w') \<Longrightarrow> kernel_step w w'"
| tick: "on_tick_for_cpu False wakes me i now w = Returned (r, w') \<Longrightarrow> kernel_step w w'"
| balance: "(i, j) \<in> set (k_requests w) \<Longrightarrow>
    handle_remote_request False i now j (w\<lparr>k_requests := remove1 (i, j) (k_requests w)\<rparr>) = Returned (r, w') \<Longrightarrow> kernel_step w w'"
| trap: "i \<le> 2 ^ 25 \<Longrightarrow> (fallback_contains i (tc_stack_pointer ctx) = Returned True \<longrightarrow> idle w i) \<Longrightarrow>
    schedule_current_cpu False i env ctx w = Returned (r, w') \<Longrightarrow> kernel_step w w'"
| dispatch: "dispatch_current_task i run w = Returned w' \<Longrightarrow> kernel_step w w'"
| flags: "k_slots w' = k_slots w \<Longrightarrow> (\<And>u. same_task (k_store w' u) (k_store w u)) \<Longrightarrow> kernel_step w w'"

lemma returnsD: "returns m P \<Longrightarrow> m = Returned (r, w) \<Longrightarrow> P r w"
  by (auto simp: returns_def)

lemma cpu_at_install: "cpu_at (install n st) i self \<longleftrightarrow> i < max n 1 \<and> self = scheduler_new i"
  by (auto simp: cpu_at_def install_def)

lemma all_tasks_install: "all_tasks (install n st) = {}"
  unfolding all_tasks_def cpu_at_install by (simp add: scheduler_new_def)

lemma kernel_ok_install: "kernel_ok (install n st)"
proof -
  have s: "sched_ok (scheduler_new i, st)" for i
    by (rule sched_coreI) (auto simp: scheduler_new_def queues_ok_def ready_weight_def)
  show ?thesis
    unfolding kernel_ok_def cpu_at_install all_tasks_install using s by (auto simp: scheduler_new_def install_def)
qed

lemma dispatch_steady:
  assumes "kernel_ok w" and "dispatch_current_task i run w = Returned w'"
  shows "steady w w'"
proof -
  obtain t tk where t: "dispatch_task run (k_store w t) = Returned tk" "w' = w\<lparr>k_store := (k_store w)(t := tk)\<rparr>"
    using assms(2) by (auto simp: dispatch_current_task_def bind_eq_Some_conv)
  have "same_task tk (k_store w t)"
    using t(1) by (auto simp: dispatch_task_def publish_boundary_def poll_once_def same_task_def assert_that_def Let_def
      split: if_splits option.splits prod.splits)
  then show ?thesis
    by (intro steady_cong [OF assms(1)]) (simp_all add: t(2))
qed

lemma kernel_step_ok:
  assumes "kernel_step w w'" and "kernel_ok w"
  shows "kernel_ok w'"
  using assms
proof cases
  case (spawn t i r)
  show ?thesis
  proof (cases "cpu_slot i w")
    case (Inl e)
    then show ?thesis using spawn assms(2) by (simp add: admit_task_on_cpu_def with_cpu_mut_def)
  next
    case (Inr self)
    then have "cpu_at w i self" using cpu_slot_iff by blast
    then show ?thesis using returnsD [OF admit_on_cpu_ok [OF assms(2) spawn(1)] spawn(2)] by (simp add: gains_def)
  qed
next
  case (withdraw i self t r)
  have "cpu_slot i w = Ok self" using withdraw(1) cpu_slot_iff by blast
  then have "w' = put_cpu i (snd (remove_task t (self, k_store w))) w"
    using withdraw(4) by (auto simp: withdraw_inactive_task_def with_cpu_mut_def case_prod_beta)
  then show ?thesis
    using put_leaves(1) [OF assms(2) withdraw(1)] remove_inactive [OF kernel_okD(2) [OF assms(2) withdraw(1)] withdraw(2,3)] by simp
next
  case (wake me i t r)
  then show ?thesis using returnsD [OF queue_wakeup_ok [OF assms(2)]] steadyD by blast
next
  case (cancel me t r)
  then show ?thesis using returnsD [OF cancel_task_ok [OF assms(2)]] steadyD by blast
next
  case (tick wakes me i now r)
  then show ?thesis using on_tick_for_cpu_ok [OF assms(2)] steadyD by blast
next
  case (balance i j now r)
  have "kernel_ok (w\<lparr>k_requests := remove1 (i, j) (k_requests w)\<rparr>)"
    using kernel_ok_cong [OF assms(2), of "w\<lparr>k_requests := remove1 (i, j) (k_requests w)\<rparr>"] by simp
  then show ?thesis using returnsD [OF handle_remote_ok balance(2)] steadyD by blast
next
  case (trap i ctx env r)
  then have "switched i w r w'" using returnsD [OF schedule_ok [OF assms(2)]] by blast
  then show ?thesis by (simp add: switched_def trapped_def)
next
  case (dispatch i run)
  then show ?thesis using dispatch_steady [OF assms(2)] steadyD by blast
next
  case flags
  then show ?thesis using kernel_ok_cong [OF assms(2)] by blast
qed

lemma kernel_reachable_ok: "kernel_step\<^sup>*\<^sup>* (install n st) w \<Longrightarrow> kernel_ok w"
  by (induction rule: rtranclp_induct) (use kernel_ok_install kernel_step_ok in blast)+

definition placed_once :: "sched_state \<Rightarrow> task_id \<Rightarrow> bool" where
  "placed_once s t \<longleftrightarrow>
     of_bool (sc_current (fst s) = Some t) + of_bool (t \<in> set (sc_eligible (fst s))) + of_bool (t \<in> set (sc_ineligible (fst s)))
       = (of_bool (ready_in (snd s) t) :: nat)"

lemma sched_ok_placed:
  assumes c: "sched_ok (self, st)" and t: "t \<in> set (sc_tasks self)"
  shows "placed_once (self, st) t"
proof -
  note d = sched_coreD [OF c]
  have q: "t \<in> set (sc_eligible self) \<or> t \<in> set (sc_ineligible self) \<longleftrightarrow> ready_in st t \<and> sc_current self \<noteq> Some t"
    using d(3) t by (metis (mono_tags, lifting) UnE UnI1 UnI2 mem_Collect_eq empty_iff)
  have "\<not> (t \<in> set (sc_eligible self) \<and> t \<in> set (sc_ineligible self))" using d(2) by (auto simp: queues_ok_def)
  then show ?thesis using q d(4) [of t] by (auto simp: placed_once_def)
qed

text \<open>
  C36: In every state that the schedulers of a release build reach from boot by spawning new tasks
  with a total weight below \<open>2 ^ 64\<close>, withdrawing tasks that are not runnable, wakeups, cancellations,
  ticks, balance requests, scheduler traps (on the fallback stack only of a CPU that runs no task)
  and task dispatch, no task is in the tables of two CPUs;
  on each CPU every task of the table that is runnable is in exactly one place (running, in the
  eligible tree or in the ineligible tree) and a blocked one is in none; the trees hold tasks of
  the table only, without repetition and in key order; and the CPU's weight is the sum of the weights
  of its runnable tasks.
\<close>

theorem scheduler_places_tasks_once:
  assumes "kernel_step\<^sup>*\<^sup>* (install n st) w" and "cpu_at w i self"
  shows "(\<forall>j other. cpu_at w j other \<and> j \<noteq> i \<longrightarrow> set (sc_tasks self) \<inter> set (sc_tasks other) = {})
    \<and> (\<forall>t \<in> set (sc_tasks self). placed_once (self, k_store w) t)
    \<and> queued self \<subseteq> set (sc_tasks self) \<and> distinct (sc_eligible self @ sc_ineligible self)
    \<and> sorted_wrt (key_less (deadline_of (k_store w))) (sc_eligible self)
    \<and> sorted_wrt (key_less (eligible_of (k_store w))) (sc_ineligible self)
    \<and> sc_total_weight self = (\<Sum>t \<in> {t \<in> set (sc_tasks self). ready_in (k_store w) t}. weight_of (k_store w) t)"
proof -
  have k: "kernel_ok w" using kernel_reachable_ok [OF assms(1)] .
  note c = kernel_okD [OF k assms(2)]
  note d = sched_coreD [OF c(2)]
  have "queued self \<subseteq> set (sc_tasks self)" unfolding d(3) by blast
  then show ?thesis
    using c(3) sched_ok_placed [OF c(2)] d(2,7) unfolding queues_ok_def ready_weight_def by blast
qed

lemma spawn_reaches:
  obtains w self where "kernel_step\<^sup>*\<^sup>* (install 2 run_store) w" "cpu_at w 0 self" "7 \<in> set (sc_tasks self)"
    "ready_in (k_store w) 7" "sc_current self = None" "\<not> t_wake_queued (k_store w 7)"
proof -
  let ?w = "install 2 run_store"
  have at: "cpu_at ?w 0 (scheduler_new 0)" by (simp add: cpu_at_def install_def)
  have f: "fresh ?w 7"
    unfolding fresh_def all_tasks_install by (simp add: install_def run_store_def task_new_def sched_meta_default_def)
  let ?s = "(run_cpu None 0 1024 [7] [7], run_store(7 := waiting 0))"
  have "admit_task False 7 (scheduler_new 0, run_store) = Returned (7, ?s)"
    by (simp add: sched_eval run_eval)
  then have a: "admit_task_on_cpu False 0 7 ?w = Returned (Ok 7, put_cpu 0 ?s ?w)"
    by (simp add: admit_task_on_cpu_def with_cpu_mut_def cpu_slot_def install_def ok_or_def)
  have "kernel_step\<^sup>*\<^sup>* ?w (put_cpu 0 ?s ?w)" using kernel_step.spawn [OF f a] by blast
  moreover have "cpu_at (put_cpu 0 ?s ?w) 0 (fst ?s)" using cpu_at_put [OF at] by simp
  ultimately show ?thesis
    by (rule that) (simp_all add: run_eval task_new_def)
qed

theorem scheduler_places_tasks_once_witness:
  "\<exists>w self. kernel_step\<^sup>*\<^sup>* (install 2 run_store) w \<and> cpu_at w 0 self \<and> 7 \<in> set (sc_tasks self)
    \<and> ready_in (k_store w) 7 \<and> placed_once (self, k_store w) 7"
proof -
  obtain w self where w: "kernel_step\<^sup>*\<^sup>* (install 2 run_store) w" "cpu_at w 0 self" "7 \<in> set (sc_tasks self)"
    "ready_in (k_store w) 7"
    by (rule spawn_reaches) (rule that)
  then show ?thesis using scheduler_places_tasks_once [OF w(1,2)] by blast
qed

subsection \<open>The next task\<close>

text \<open>
  C37: On a CPU that runs nothing, in any state the schedulers can reach, \<open>take_next\<close> returns: it
  returns no task exactly when none is queued, and otherwise it returns a queued task, makes it the
  running one, and no other queued task that is eligible at the resulting virtual time has an
  earlier (deadline, id).
\<close>

theorem take_next_earliest_deadline:
  assumes "kernel_step\<^sup>*\<^sup>* (install n st) w" and "cpu_at w i self" and "sc_current self = None"
  shows "\<exists>r self' st'. take_next False now (self, k_store w) = Returned (r, self', st')
    \<and> (r = None \<longleftrightarrow> queued self = {})
    \<and> (\<forall>t. r = Some t \<longrightarrow> t \<in> queued self \<and> sc_current self' = Some t \<and> queued self' = queued self - {t}
         \<and> (\<forall>u \<in> queued self. u \<noteq> t \<and> eligible_of (k_store w) u \<le> sc_vtime self' \<longrightarrow> key_less (deadline_of (k_store w)) t u))"
proof -
  note c = kernel_okD(2) [OF kernel_reachable_ok [OF assms(1)] assms(2)]
  show ?thesis
  proof (rule take_next_cases [OF c assms(3), of now])
    fix r
    assume "queued self = {}" "take_next False now (self, k_store w) = Returned (None, r, k_store w)"
    then show ?thesis by blast
  next
    fix t and r :: scheduler and rest
    let ?st = "set_meta t ((t_meta (k_store w t))\<lparr>exec_start := Some now, exec_runtime := from_secs 0\<rparr>) (k_store w)"
    assume r: "r = next_queue (self, k_store w)" "sc_eligible r = t # rest" "t \<in> queued self" "sched_ok (r, k_store w)"
      "take_next False now (self, k_store w) = Returned (Some t, r\<lparr>sc_eligible := rest, sc_current := Some t\<rparr>, ?st)"
    note q = next_queue_ok [OF c, folded r(1)]
    have qs: "queues_ok r (k_store w)" using sched_coreD(2) [OF r(4)] .
    have rest: "queued (r\<lparr>sc_eligible := rest, sc_current := Some t\<rparr>) = queued self - {t}"
      unfolding q(2) [symmetric] using r(2) qs by (auto simp: queues_ok_def)
    have "key_less (deadline_of (k_store w)) t u" if "u \<in> queued self" "u \<noteq> t" "eligible_of (k_store w) u \<le> sc_vtime r" for u
      using q(9) [OF that(1,3)] that(2) r(2) qs by (auto simp: queues_ok_def)
    moreover have "queued self \<noteq> {}" using r(3) by (metis empty_iff)
    ultimately show ?thesis
      using r(3,5) rest by (intro exI [of _ "Some t"] exI [of _ "r\<lparr>sc_eligible := rest, sc_current := Some t\<rparr>"] exI [of _ ?st]) simp
  qed
qed

theorem take_next_earliest_deadline_witness:
  "\<exists>w self self' st'. kernel_step\<^sup>*\<^sup>* (install 2 run_store) w \<and> cpu_at w 0 self \<and> sc_current self = None \<and> queued self \<noteq> {}
    \<and> (\<exists>t. take_next False (from_millis 3) (self, k_store w) = Returned (Some t, self', st') \<and> sc_current self' = Some t)"
proof -
  obtain w self where w: "kernel_step\<^sup>*\<^sup>* (install 2 run_store) w" "cpu_at w 0 self" "7 \<in> set (sc_tasks self)"
    "ready_in (k_store w) 7" "sc_current self = None"
    by (rule spawn_reaches) (rule that)
  have "7 \<in> queued self"
    unfolding sched_coreD(3) [OF kernel_okD(2) [OF kernel_reachable_ok [OF w(1)] w(2)]] using w(3-5) by simp
  then have q: "queued self \<noteq> {}" by (metis empty_iff)
  obtain r self' st' where r: "take_next False (from_millis 3) (self, k_store w) = Returned (r, self', st')"
    "r = None \<longleftrightarrow> queued self = {}" "\<forall>t. r = Some t \<longrightarrow> sc_current self' = Some t"
    using take_next_earliest_deadline [OF w(1,2,5), of "from_millis 3"] by (elim exE conjE) (rule that, auto)
  then obtain t where "r = Some t" using q by (cases r) auto
  then have "take_next False (from_millis 3) (self, k_store w) = Returned (Some t, self', st') \<and> sc_current self' = Some t"
    using r(1,3) by simp
  then show ?thesis using w(1,2,5) q by metis
qed

subsection \<open>Wakeups\<close>

lemma wake_then_take:
  assumes c: "sched_ok s" and n: "sc_current (fst s) = None" and t: "t \<in> set (sc_tasks (fst s))" "t \<in> set (sc_wake_inbox (fst s))"
  obtains k s1 u s2 where "drain_wakeups False s = Returned (k, s1)" "take_next False now s1 = Returned (Some u, s2)"
    "ready_in (snd s2) t"
proof -
  obtain k s1 where d: "drain_wakeups False s = Returned (k, s1)" "ok_after s s1" "sc_current (fst s1) = sc_current (fst s)"
    and r: "\<And>t. t \<in> set (sc_wake_inbox (fst s)) \<Longrightarrow> t \<in> set (sc_tasks (fst s)) \<Longrightarrow> ready_in (snd s1) t"
    by (rule drain_wakeups_ok [OF c]) (rule that)
  have s1: "drain_wakeups False s = Returned (k, s1)" "ok_after s s1" "sc_current (fst s1) = None" "ready_in (snd s1) t"
    using d n r [OF t(2,1)] by simp_all
  obtain self st where s: "s1 = (self, st)" by (rule prod.exhaust)
  have c1: "sched_ok (self, st)" using ok_afterD [OF s1(2)] s by simp
  have n1: "sc_current self = None" using s1(3) s by simp
  have t1: "t \<in> set (sc_tasks self)" using s1(2) t(1) s by (simp add: ok_after_def keeps_def)
  have "t \<in> queued self" unfolding sched_coreD(3) [OF c1] using t1 n1 s1(4) s by simp
  then have q: "queued self \<noteq> {}" by (metis empty_iff)
  show ?thesis
  proof (rule take_next_cases [OF c1 n1, of now])
    assume "queued self = {}"
    then show ?thesis using q by blast
  next
    fix u and r :: scheduler and rest
    assume r: "take_next False now (self, st) = Returned (Some u, r\<lparr>sc_eligible := rest, sc_current := Some u\<rparr>,
         set_meta u ((t_meta (st u))\<lparr>exec_start := Some now, exec_runtime := from_secs 0\<rparr>) st)"
    show ?thesis
      by (rule that [OF s1(1)], unfold s, rule r) (use s1(4) s in \<open>auto simp: store_defs\<close>)
  qed
qed



subsection \<open>Three runs\<close>

text \<open>
  A debug build can panic when a task blocks. Two tasks run, one of them for ten milliseconds, and a
  third is admitted at the current virtual time; when the first blocks, virtual time is moved back
  below the eligible time of the third, which is in the eligible tree, and the assertion on that tree
  fails.
\<close>

lemma departure_panics:
  "\<exists>s. departure_run = Returned s \<and> sc_current (fst s) = Some 2
    \<and> finalize_current_boundary True 0x1800 (BoundaryOutcome PollBlocked) None s = Panicked
    \<and> finalize_current_boundary False 0x1800 (BoundaryOutcome PollBlocked) None s \<noteq> Panicked"
proof (intro exI conjI)
  show "departure_run = Returned run5" by (rule departure_run_eq)
  show "finalize_current_boundary True 0x1800 (BoundaryOutcome PollBlocked) None run5 = Panicked" by (rule run_panics)
  show "finalize_current_boundary False 0x1800 (BoundaryOutcome PollBlocked) None run5 \<noteq> Panicked"
    by (simp add: sched_eval run_eval trap_eval)
qed (simp add: run_cpu_def)

text \<open>
  A steal can lose a wakeup. \<open>take_migratable\<close> leaves the wake flag of the task set and the task on
  the inbox of the CPU it leaves; when the task blocks on the other CPU and is woken there, the wakeup
  is dropped because of the flag, and the old CPU's drain clears the flag without waking it. At the
  end the task is blocked with its runnable slot filled, and no inbox holds it.
\<close>

lemma steal_loses_wakeup:
  "\<exists>w a b. steal_run = Returned w \<and> k_slots w = [Some a, Some b] \<and> 2 \<in> set (sc_tasks b)
    \<and> sc_wake_inbox a = [] \<and> sc_wake_inbox b = []
    \<and> ts_sched (t_state (k_store w 2)) = Blocked \<and> t_runnable (k_store w 2) \<and> \<not> t_wake_queued (k_store w 2)"
  using steal_run_lost by (auto split: option.splits)

text \<open>
  C39: \<open>withdraw_inactive_task\<close> does not look at the queues: in any state the schedulers can reach, when
  it is called for a task that is queued on the CPU, it succeeds and takes the task out of the table
  but leaves it in the tree.
\<close>

theorem withdraw_leaves_queued:
  assumes "kernel_step\<^sup>*\<^sup>* (install n st) w" and "cpu_at w i self" and "t \<in> queued self"
  shows "\<exists>w' self'. withdraw_inactive_task i t w = Returned (Ok True, w') \<and> cpu_at w' i self'
    \<and> t \<in> queued self' \<and> t \<notin> set (sc_tasks self')"
proof -
  note d = sched_coreD [OF kernel_okD(2) [OF kernel_reachable_ok [OF assms(1)] assms(2)]]
  let ?s = "snd (remove_task t (self, k_store w))"
  have t: "t \<in> set (sc_tasks self)" using assms(3) unfolding d(3) by blast
  then have r: "fst (remove_task t (self, k_store w)) = Some t" "queued (fst ?s) = queued self" "t \<notin> set (sc_tasks (fst ?s))"
    using d(1) by (auto simp: remove_task_def sub_runnable_weight_def Let_def split: prod.splits)
  have "cpu_slot i w = Ok self" using assms(2) cpu_slot_iff by blast
  then have "withdraw_inactive_task i t w = Returned (Ok True, put_cpu i ?s w)"
    using r(1) by (simp add: withdraw_inactive_task_def with_cpu_mut_def case_prod_beta)
  then show ?thesis using cpu_at_put [OF assms(2)] r(2,3) assms(3) by auto
qed

text \<open>Such a state is reached when a cancellation wakes a task before \<open>spawn_task\<close> publishes it.\<close>

theorem withdraw_leaves_queued_witness:
  "\<exists>w w' self'. kernel_step\<^sup>*\<^sup>* (install 1 shell_store) w \<and> withdraw_inactive_task 0 2 w = Returned (Ok True, w')
    \<and> cpu_at w' 0 self' \<and> 2 \<in> queued self' \<and> 2 \<notin> set (sc_tasks self')"
proof -
  let ?w = "install 1 shell_store"
  obtain w1 w2 w3 a where run: "cancel_run = Returned (w1, w2, w3)" and a: "cpu_at w3 0 a" "2 \<in> set (sc_eligible a)"
    using cancel_run_queued by (auto split: option.splits)
  from run obtain r1 r2 r3 where r: "admit_task_on_cpu False 0 2 ?w = Returned (r1, w1)" "cancel_task 0 2 w1 = Returned (r2, w2)"
      "on_tick_for_cpu False (\<lambda>_. False) 0 0 (from_millis 20) w2 = Returned (r3, w3)"
    by (auto simp: cancel_run_def bind_eq_Some_conv)
  have "fresh ?w 2"
    unfolding fresh_def all_tasks_install by (simp add: install_def shell_store_def task_new_def sched_meta_default_def)
  then have "kernel_step ?w w1" by (rule kernel_step.spawn [OF _ r(1)])
  then have "kernel_step\<^sup>*\<^sup>* ?w w1" by (rule r_into_rtranclp)
  then have "kernel_step\<^sup>*\<^sup>* ?w w2" by (rule rtranclp.rtrancl_into_rtrancl) (rule kernel_step.cancel [OF r(2)])
  then have "kernel_step\<^sup>*\<^sup>* ?w w3" by (rule rtranclp.rtrancl_into_rtrancl) (rule kernel_step.tick [OF r(3)])
  then show ?thesis using withdraw_leaves_queued [OF _ a(1), of 1 shell_store 2] a(2) by auto
qed

end
