(* ===== verification/Spec2Isabelle.thy ===== *)
theory Spec2Isabelle
  imports Service_Reply Segment_Tree BTree_Map Vm_Layout Vmo_Examples Vmar_Examples Object_Examples Cache_Props Early_Props Sched_Props
begin

text \<open>
  Verification of the akarin microkernel (paths below are relative to \<open>src/\<close>).

  The kernel gives processes memory objects, address spaces, kernel objects behind capability
  handles, and CPU time. A process enters it through a syscall frame. Memory objects own physical
  frames, the address-region manager maps ranges of them into the VMARs of a process, and its
  \<open>VSpace\<close> validates user pointers. Every kernel object is registered in one tree with
  indices; handles carry tokens and are looked up by path. Tasks are futures that the schedulers
  of the CPUs run in EEVDF order. The early allocator serves the boot before frames and heap
  exist; the caches are a library of their own.

  \<^bold>\<open>Conventions.\<close> \<open>Akarin_Prelude\<close> fixes the representation. An unsigned
  integer of the source is a natural number, with checked, saturating and wrapping operations
  written out at 64 bits, or a word where its bits matter (flags, capabilities, ABI codes). A
  \<open>Result\<close> is a sum with \<open>Err\<close> on the left. A computation that may panic or not
  end has type \<open>'a outcome\<close>: \<open>Panicked\<close> is the value of both, so a theorem
  that says that an operation returns excludes both. State is passed explicitly: each component
  has a record for each struct, a world that maps addresses or ids to these records, and one
  function for each function of the source. Locks are not modelled: an operation under a lock
  is one step. Loops whose end is not structural are \<open>partial_function (option)\<close> or
  \<open>function\<close> with a measure; no definition has fuel. For the former (segment tree,
  \<open>locate\<close>, cache lists, free list) the theorems prove that they return.

  \<^bold>\<open>Syscall boundary.\<close> \<open>Syscall_Errno\<close> has the error enums of
  \<open>library/syscall/src/errno\<close>, \<open>Syscall_Abi\<close> the enums, the argument and result
  frames of \<open>library/syscall/src/abi.rs\<close>. The locale \<open>abi_code\<close> is the contract
  of an enum with discriminants and \<open>TryFrom\<close>, interpreted for every one of them.
  \<open>Service_Reply\<close> composes both with the reply handlers of
  \<open>kernel/src/syscall/services/service.rs\<close>; \<open>complete_current_call\<close>, which hands the
  decoded reply to the waiting caller, is a parameter. Shown: which failures survive the round
  trip, and what a caller receives for each kind of error reply.

  \<^bold>\<open>Containers.\<close> \<open>BTree_Map\<close> models the part of the standard
  \<open>BTreeMap\<close> that is used, as a sorted list, and proves the locale \<open>ordered_map\<close>.
  \<open>Segment_Tree\<close> is \<open>library/collections/src/tree/segment.rs\<close>; the locale
  \<open>segment_state\<close> states what a node state must satisfy for queries to equal a fold over
  the leaves, and \<open>Vmar_Space\<close> interprets it for the free-page summary of a VMAR.

  \<^bold>\<open>Memory objects.\<close> \<open>Machine_Align\<close> and \<open>Phys_Memory\<close> model the
  alignment macros, frames and byte access to physical memory; the frame allocator is a function
  argument. \<open>Vm_Flags\<close> has the permission words. \<open>Vmo_Index\<close> and \<open>Vmo\<close>
  follow \<open>library/core/src/memory/vmo.rs\<close>: the record of a VMO with its extents and range
  index, and each of its operations. \<open>Vmo_Local\<close> and \<open>Vmo_Commit\<close> treat one object,
  \<open>Vmo_System\<close> all of them: the locale \<open>vmo_invariant\<close> collects what an invariant
  of one object must satisfy for every operation of the system to keep it. It is interpreted
  twice. \<open>inner_sound\<close> survives every operation, also a \<open>commit_range\<close> that fails
  half way and leaves extents that the index does not name; \<open>inner_ok\<close> adds that the index
  is fresh, and holds while no commit has failed. \<open>Vmo_Access\<close> shows what readers see:
  writes, copy-on-write isolation and faults, commit and decommit. \<open>Vmo_Examples\<close> has the
  concrete objects. The invariants need fewer than \<open>2^64\<close> objects, since ids come from a
  wrapping counter.

  \<^bold>\<open>Address spaces.\<close> \<open>Vm_Layout\<close> is the fixed layout and the range type of
  \<open>library/core/src/memory/vmar.rs\<close>, \<open>Vmar\<close> the VMARs: entries in a map by start,
  the segment tree over pages, and each operation. \<open>Vmar_Space\<close> proves that the tree finds
  the lowest gap, \<open>Vmar_System\<close> and \<open>Vmar_World\<close> the invariant of one and of all
  VMARs, \<open>Vmar_Access\<close> the exact effect of mapping, unmapping, protecting, child allocation
  and lookup. Reachable states start from VMARs created over page-aligned ranges. \<open>VSpace\<close> is \<open>library/core/src/memory/vspace.rs\<close>.
  Page-table entries are not part of the state.

  \<^bold>\<open>Objects.\<close> \<open>Object_Caps\<close> and \<open>Object_World\<close> follow
  \<open>library/object/src\<close>: tokens, objects, handles, permits, registry and path lookup. The
  destructors are explicit calls, and an object that nothing refers to is collected by a step of
  its own. \<open>Object_System\<close> proves the effect of removal on the tree,
  \<open>Object_Reach\<close> the invariant of every reachable state. \<open>downgrade\<close> may leave a token
  that \<open>Token::new\<close> would refuse; the part of the invariant that says that tokens can be
  rebuilt is therefore stated for runs without such a downgrade (parameter \<open>strict\<close>), the
  rest for all runs. \<open>Object_Access\<close> has the guarantees for clients, and
  \<open>Object_Examples\<close> two runs in which a stale handle acts on another object that got the
  index. Fewer than \<open>2^64\<close> indices are handed out.

  \<^bold>\<open>Caches.\<close> \<open>Linked_Nodes\<close>, \<open>Lru_Cache\<close> and \<open>Arc_Cache\<close>
  model \<open>library/collections/src/cache\<close> over a heap of boxes with raw links. \<open>Lru_Refine\<close>
  and \<open>Arc_Refine\<close> relate the heap to lists of pairs, \<open>Arc_System\<close> and
  \<open>Arc_Reach\<close> give the operations of the adaptive cache on its four lists and the invariant of
  the caches a program reaches with capacities up to \<open>isize::MAX\<close>. \<open>Cache_Props\<close> has
  the properties, among them a run in which the cache exceeds its capacity. The hash map is an
  association list, since no operation depends on its order.

  \<^bold>\<open>Early allocator.\<close> \<open>Early_Alloc\<close> is \<open>kernel/src/memory/early.rs\<close> with
  the free list inside memory, \<open>Early_Refine\<close> its refinement to first fit on a list of
  regions, \<open>Early_System\<close> and \<open>Early_Props\<close> its safety from boot, for memory maps whose
  usable arenas are disjoint and end far enough below the last address that rounding does not
  overflow.

  \<^bold>\<open>Time and scheduling.\<close> \<open>Clock_Time\<close> is \<open>library/core/src/clock/time.rs\<close>.
  \<open>Sched_Task\<close> and \<open>Scheduler\<close> follow \<open>kernel/src/sched\<close>: the scheduling fields of a
  task and the scheduler of one CPU, its trees as lists in key order and its debug assertions
  under the flag \<open>dbg\<close>. \<open>Sched_Inv\<close>, \<open>Sched_Moves\<close>, \<open>Sched_Ops\<close>,
  \<open>Sched_Keep\<close>, \<open>Sched_Trap\<close> and \<open>Sched_Wake\<close> prove that each operation keeps its
  invariant, one move of a task at a time. \<open>Sched_Cpus\<close> and \<open>Sched_Dispatch\<close> add the
  operations across CPUs, balancing, the timer queue and the scheduler trap; the outcome of polling a
  future, its wakers, the address-space root of a process and the process table are parameters.
  \<open>Sched_World\<close>, \<open>Sched_Kernel\<close> and \<open>Sched_Switch\<close> lift the invariant to them,
  \<open>Sched_Runs\<close> evaluates concrete runs, and \<open>Sched_Props\<close> has the properties. These are
  about release builds (\<open>dbg = False\<close>): a run shows that a debug build can panic in an
  assertion. Spawning uses new tasks with a total weight below
  \<open>2^64\<close>, CPU ids are at most \<open>2^25\<close>, so that their stacks fit the segment, and withdrawal is restricted to tasks that are not
  runnable; the property on withdrawal shows what happens otherwise.

  \<^bold>\<open>Not modelled.\<close> Processes, inter-process communication, the other kernel services and
  futexes (async code over wakers and user memory); page tables, descriptor tables, interrupt
  controllers, start of further CPUs and assembly; frame zones, slabs and the heap behind the frame
  allocator; devices, ACPI and logging; the lock-free collections and locks, which rest on memory
  orderings; the bootloader apart from the memory map; userland apart from the frames it builds; the
  dynamic loader and the derive macros.
\<close>

end
